(* ===== verification/Prelude.thy ===== *)
theory Prelude
  imports Main "HOL-Library.Char_ord" "HOL-Library.List_Lexorder" "HOL-Library.Product_Lexorder"
    "HOL-Library.Option_ord" "HOL-Library.Sublist" "HOL-Library.Word"
    "HOL-Library.Signed_Division" "HOL-Library.Multiset" "HOL-Library.Monad_Syntax" Complex_Main
begin

text \<open>
  The part of Rust and of its standard library that the components share: \<open>Result\<close> with the
  question-mark operator, byte strings with the ASCII operations of \<open>str\<close> and \<open>[u8]\<close>, decimal
  parsing and printing of integers, checked 64-bit arithmetic, and the set-guarded loops that
  reject or drop duplicates. A Rust \<open>String\<close> is the list of its UTF-8 bytes (\<open>char\<close> is a byte
  in HOL), so \<open>len\<close> is \<open>length\<close>, the derived order of strings is the lexicographic order of
  \<open>List_Lexorder\<close> over \<open>Char_ord\<close>, and the order of tuples that of \<open>Product_Lexorder\<close>.
\<close>

section \<open>Results\<close>

datatype ('a, 'e) result = Ok 'a | Err 'e

text \<open>The question-mark operator and \<open>and_then\<close>.\<close>

fun and_then :: "('a, 'e) result \<Rightarrow> ('a \<Rightarrow> ('b, 'e) result) \<Rightarrow> ('b, 'e) result" where
  "and_then (Ok x) f = f x"
| "and_then (Err e) f = Err e"

definition ok_or :: "'a option \<Rightarrow> 'e \<Rightarrow> ('a, 'e) result" where
  "ok_or x e = (case x of Some v \<Rightarrow> Ok v | None \<Rightarrow> Err e)"

fun map_err :: "('e \<Rightarrow> 'f) \<Rightarrow> ('a, 'e) result \<Rightarrow> ('a, 'f) result" where
  "map_err g (Ok x) = Ok x"
| "map_err g (Err e) = Err (g e)"

fun is_ok :: "('a, 'e) result \<Rightarrow> bool" where
  "is_ok (Ok x) = True"
| "is_ok (Err e) = False"

text \<open>\<open>iter().map(f).collect::<Result<Vec<_>, _>>()\<close>: stops at the first error.\<close>

fun try_map :: "('a \<Rightarrow> ('b, 'e) result) \<Rightarrow> 'a list \<Rightarrow> ('b list, 'e) result" where
  "try_map f [] = Ok []"
| "try_map f (x # xs) = and_then (f x) (\<lambda>y. and_then (try_map f xs) (\<lambda>ys. Ok (y # ys)))"

text \<open>\<open>for x in xs { check(x)?; }\<close>\<close>

fun try_all :: "('a \<Rightarrow> (unit, 'e) result) \<Rightarrow> 'a list \<Rightarrow> (unit, 'e) result" where
  "try_all f [] = Ok ()"
| "try_all f (x # xs) = and_then (f x) (\<lambda>_. try_all f xs)"

text \<open>\<open>try_fold\<close>\<close>

fun try_fold :: "('s \<Rightarrow> 'a \<Rightarrow> ('s, 'e) result) \<Rightarrow> 's \<Rightarrow> 'a list \<Rightarrow> ('s, 'e) result" where
  "try_fold f s [] = Ok s"
| "try_fold f s (x # xs) = and_then (f s x) (\<lambda>s'. try_fold f s' xs)"

section \<open>Orderings\<close>

datatype ordering = Less | Equal | Greater

definition cmp :: "'a::linorder \<Rightarrow> 'a \<Rightarrow> ordering" where
  "cmp a b = (if a < b then Less else if a = b then Equal else Greater)"

definition then_with :: "ordering \<Rightarrow> ordering \<Rightarrow> ordering" where
  "then_with a b = (case a of Equal \<Rightarrow> b | _ \<Rightarrow> a)"

section \<open>Bytes and strings\<close>

abbreviation byte :: "char \<Rightarrow> nat" where
  "byte c \<equiv> of_char c"

definition is_ascii_digit :: "char \<Rightarrow> bool" where
  "is_ascii_digit c \<longleftrightarrow> 48 \<le> byte c \<and> byte c \<le> 57"

definition is_ascii_lowercase :: "char \<Rightarrow> bool" where
  "is_ascii_lowercase c \<longleftrightarrow> 97 \<le> byte c \<and> byte c \<le> 122"

definition is_ascii_hexdigit :: "char \<Rightarrow> bool" where
  "is_ascii_hexdigit c \<longleftrightarrow> is_ascii_digit c \<or> (97 \<le> byte c \<and> byte c \<le> 102) \<or>
     (65 \<le> byte c \<and> byte c \<le> 70)"

definition ascii_lower :: "char \<Rightarrow> char" where
  "ascii_lower c = (if 65 \<le> byte c \<and> byte c \<le> 90 then char_of (byte c + 32) else c)"

definition ascii_upper :: "char \<Rightarrow> char" where
  "ascii_upper c = (if 97 \<le> byte c \<and> byte c \<le> 122 then char_of (byte c - 32) else c)"

definition to_ascii_lowercase :: "string \<Rightarrow> string" where
  "to_ascii_lowercase s = map ascii_lower s"

definition to_ascii_uppercase :: "string \<Rightarrow> string" where
  "to_ascii_uppercase s = map ascii_upper s"

definition eq_ignore_ascii_case :: "string \<Rightarrow> string \<Rightarrow> bool" where
  "eq_ignore_ascii_case a b \<longleftrightarrow> to_ascii_lowercase a = to_ascii_lowercase b"

definition starts_with :: "string \<Rightarrow> string \<Rightarrow> bool" where
  "starts_with s p \<longleftrightarrow> take (length p) s = p"

definition ends_with :: "string \<Rightarrow> string \<Rightarrow> bool" where
  "ends_with s p \<longleftrightarrow> starts_with (rev s) (rev p)"

definition strip_prefix_str :: "string \<Rightarrow> string \<Rightarrow> string option" where
  "strip_prefix_str p s = (if starts_with s p then Some (drop (length p) s) else None)"

text \<open>\<open>str::contains(&str)\<close>\<close>

fun contains_str :: "string \<Rightarrow> string \<Rightarrow> bool" where
  "contains_str [] p = (p = [])"
| "contains_str (c # s) p = (starts_with (c # s) p \<or> contains_str s p)"

text \<open>\<open>split_once(char)\<close>: at the first occurrence.\<close>

fun split_once :: "char \<Rightarrow> string \<Rightarrow> (string \<times> string) option" where
  "split_once c [] = None"
| "split_once c (x # xs) =
     (if x = c then Some ([], xs)
      else (case split_once c xs of None \<Rightarrow> None | Some (a, b) \<Rightarrow> Some (x # a, b)))"

text \<open>\<open>split(char)\<close>: all the parts, at least one.\<close>

fun split_on :: "char \<Rightarrow> string \<Rightarrow> string list" where
  "split_on c [] = [[]]"
| "split_on c (x # xs) =
     (if x = c then [] # split_on c xs
      else (case split_on c xs of [] \<Rightarrow> [[x]] | p # ps \<Rightarrow> (x # p) # ps))"

text \<open>\<open>position\<close> and \<open>rfind\<close>: the first and the last index of an element that satisfies a predicate.\<close>

fun position :: "('a \<Rightarrow> bool) \<Rightarrow> 'a list \<Rightarrow> nat option" where
  "position p [] = None"
| "position p (x # xs) = (if p x then Some 0 else map_option Suc (position p xs))"

definition rfind :: "('a \<Rightarrow> bool) \<Rightarrow> 'a list \<Rightarrow> nat option" where
  "rfind p xs = map_option (\<lambda>i. length xs - 1 - i) (position p (rev xs))"

text \<open>
  \<open>str::trim\<close> removes the characters of Unicode's White\_Space property at both ends; the list
  below holds their UTF-8 encodings. No encoding is a prefix or a suffix of another one.
\<close>

definition white_space :: "string list" where
  "white_space =
    [[CHR 0x09], [CHR 0x0A], [CHR 0x0B], [CHR 0x0C], [CHR 0x0D], [CHR 0x20],
     [CHR 0xC2, CHR 0x85], [CHR 0xC2, CHR 0xA0], [CHR 0xE1, CHR 0x9A, CHR 0x80],
     [CHR 0xE2, CHR 0x80, CHR 0x80], [CHR 0xE2, CHR 0x80, CHR 0x81], [CHR 0xE2, CHR 0x80, CHR 0x82],
     [CHR 0xE2, CHR 0x80, CHR 0x83], [CHR 0xE2, CHR 0x80, CHR 0x84], [CHR 0xE2, CHR 0x80, CHR 0x85],
     [CHR 0xE2, CHR 0x80, CHR 0x86], [CHR 0xE2, CHR 0x80, CHR 0x87], [CHR 0xE2, CHR 0x80, CHR 0x88],
     [CHR 0xE2, CHR 0x80, CHR 0x89], [CHR 0xE2, CHR 0x80, CHR 0x8A], [CHR 0xE2, CHR 0x80, CHR 0xA8],
     [CHR 0xE2, CHR 0x80, CHR 0xA9], [CHR 0xE2, CHR 0x80, CHR 0xAF], [CHR 0xE2, CHR 0x81, CHR 0x9F],
     [CHR 0xE3, CHR 0x80, CHR 0x80]]"

function trim_leading :: "string list \<Rightarrow> string \<Rightarrow> string" where
  "trim_leading ws s =
     (case find (\<lambda>w. w \<noteq> [] \<and> starts_with s w) ws of
        None \<Rightarrow> s
      | Some w \<Rightarrow> trim_leading ws (drop (length w) s))"
  by pat_completeness auto
termination
  by (relation "measure (\<lambda>(ws, s). length s)")
     (auto simp: find_Some_iff starts_with_def length_greater_0_conv[symmetric]
       simp del: length_greater_0_conv dest!: arg_cong[where f = length])

declare trim_leading.simps [simp del]

definition trim :: "string \<Rightarrow> string" where
  "trim s = rev (trim_leading (map rev white_space) (rev (trim_leading white_space s)))"

text \<open>\<open>str::chars().count()\<close>: every byte but the UTF-8 continuation bytes starts a character.\<close>

definition chars_count :: "string \<Rightarrow> nat" where
  "chars_count s = length (filter (\<lambda>c. \<not> (128 \<le> byte c \<and> byte c < 192)) s)"

text \<open>\<open>str::get(a..b)\<close>: absent out of range and inside a multi-byte character.\<close>

definition is_char_boundary :: "string \<Rightarrow> nat \<Rightarrow> bool" where
  "is_char_boundary s i \<longleftrightarrow>
     i = 0 \<or> i = length s \<or> (i < length s \<and> \<not> (128 \<le> byte (s ! i) \<and> byte (s ! i) < 192))"

definition str_get :: "nat \<Rightarrow> nat \<Rightarrow> string \<Rightarrow> string option" where
  "str_get a b s =
     (if a \<le> b \<and> is_char_boundary s a \<and> is_char_boundary s b
      then Some (take (b - a) (drop a s)) else None)"

section \<open>Integers\<close>

definition i64_range :: "int set" where
  "i64_range = {- (2 ^ 63) ..< 2 ^ 63}"

definition i32_range :: "int set" where
  "i32_range = {- (2 ^ 31) ..< 2 ^ 31}"

definition in_i64 :: "int \<Rightarrow> bool" where
  "in_i64 x \<longleftrightarrow> - (2 ^ 63) \<le> x \<and> x < 2 ^ 63"

text \<open>\<open>checked_add\<close>, \<open>checked_sub\<close> and \<open>checked_mul\<close> of \<open>i64\<close>.\<close>

definition checked_i64 :: "int \<Rightarrow> int option" where
  "checked_i64 x = (if in_i64 x then Some x else None)"

text \<open>An \<open>as i32\<close> cast, and 32-bit arithmetic without overflow checks (release profile).\<close>

definition wrap_i32 :: "int \<Rightarrow> int" where
  "wrap_i32 x = (x + 2 ^ 31) mod 2 ^ 32 - 2 ^ 31"

definition wrap_i64 :: "int \<Rightarrow> int" where
  "wrap_i64 x = (x + 2 ^ 63) mod 2 ^ 64 - 2 ^ 63"

definition digit_value :: "char \<Rightarrow> nat" where
  "digit_value c = byte c - 48"

definition digit_char :: "nat \<Rightarrow> char" where
  "digit_char d = char_of (48 + d)"

definition all_digits :: "string \<Rightarrow> bool" where
  "all_digits s \<longleftrightarrow> list_all is_ascii_digit s"

definition number_of_digits :: "string \<Rightarrow> nat" where
  "number_of_digits s = foldl (\<lambda>acc c. acc * 10 + digit_value c) 0 s"

text \<open>
  \<open>str::parse\<close> for an unsigned type with largest value \<open>m\<close> and for a signed type with range
  \<open>lo\<close> to \<open>hi\<close>: an optional plus sign (for signed types also a minus sign), then at least one
  digit; a value out of range is an error.
\<close>

definition parse_unsigned :: "nat \<Rightarrow> string \<Rightarrow> nat option" where
  "parse_unsigned m s =
     (let body = (case s of c # cs \<Rightarrow> if c = CHR ''+'' then cs else s | [] \<Rightarrow> [])
      in if body \<noteq> [] \<and> all_digits body \<and> number_of_digits body \<le> m
         then Some (number_of_digits body) else None)"

definition parse_signed :: "int \<Rightarrow> int \<Rightarrow> string \<Rightarrow> int option" where
  "parse_signed lo hi s =
     (let neg = (case s of c # _ \<Rightarrow> c = CHR ''-'' | [] \<Rightarrow> False);
          body = (case s of c # cs \<Rightarrow> if c = CHR ''+'' \<or> c = CHR ''-'' then cs else s | [] \<Rightarrow> []);
          v = (if neg then - int (number_of_digits body) else int (number_of_digits body))
      in if body \<noteq> [] \<and> all_digits body \<and> lo \<le> v \<and> v \<le> hi then Some v else None)"

text \<open>\<open>to_string\<close> of an unsigned integer, and zero-padded printing (\<open>{:02}\<close>, \<open>{:04}\<close>).\<close>

fun show_nat :: "nat \<Rightarrow> string" where
  "show_nat n = (if n < 10 then [digit_char n] else show_nat (n div 10) @ [digit_char (n mod 10)])"

declare show_nat.simps [simp del]

definition pad_left :: "nat \<Rightarrow> string \<Rightarrow> string" where
  "pad_left w s = replicate (w - length s) CHR ''0'' @ s"

text \<open>Zero-padded printing of a signed integer: the sign counts towards the width.\<close>

definition show_int_pad :: "nat \<Rightarrow> int \<Rightarrow> string" where
  "show_int_pad w x =
     (if x < 0 then CHR ''-'' # pad_left (w - 1) (show_nat (nat (- x)))
      else pad_left w (show_nat (nat x)))"

section \<open>JSON\<close>

text \<open>The values of \<open>serde_json\<close>; a number that is not an integer is kept as its text.\<close>

datatype json =
    JNull
  | JBool bool
  | JInt int
  | JFloat string
  | JString string
  | JArray "json list"
  | JObject "(string \<times> json) list"

fun is_object :: "json \<Rightarrow> bool" where
  "is_object (JObject fields) = True"
| "is_object _ = False"

section \<open>Sorting and indexing\<close>

text \<open>\<open>slice::sort_by\<close>: the stable sort by a comparison function.\<close>

fun insert_by :: "('a \<Rightarrow> 'a \<Rightarrow> ordering) \<Rightarrow> 'a \<Rightarrow> 'a list \<Rightarrow> 'a list" where
  "insert_by c x [] = [x]"
| "insert_by c x (y # ys) = (if c x y = Greater then y # insert_by c x ys else x # y # ys)"

definition sort_by :: "('a \<Rightarrow> 'a \<Rightarrow> ordering) \<Rightarrow> 'a list \<Rightarrow> 'a list" where
  "sort_by c xs = foldr (insert_by c) xs []"

text \<open>\<open>iter().enumerate().map(|(i, x)| (key(x), i)).collect::<HashMap<_, _>>()\<close>: the last one wins.\<close>

definition index_by :: "('a \<Rightarrow> 'k) \<Rightarrow> 'a list \<Rightarrow> 'k \<Rightarrow> nat option" where
  "index_by key xs = foldl (\<lambda>m (i, x). m(key x \<mapsto> i)) Map.empty (enumerate 0 xs)"

section \<open>Loops over a set of seen keys\<close>

text \<open>\<open>for k in ks { if !seen.insert(k) { return Err } }\<close>\<close>

fun all_unseen :: "'k set \<Rightarrow> 'k list \<Rightarrow> bool" where
  "all_unseen seen [] = True"
| "all_unseen seen (k # ks) = (k \<notin> seen \<and> all_unseen (insert k seen) ks)"

text \<open>\<open>filter(|x| seen.insert(key(x)))\<close>: the first element of every key, in order.\<close>

fun keep_unseen :: "('a \<Rightarrow> 'k) \<Rightarrow> 'k set \<Rightarrow> 'a list \<Rightarrow> 'a list" where
  "keep_unseen key seen [] = []"
| "keep_unseen key seen (x # xs) =
     (if key x \<in> seen then keep_unseen key seen xs
      else x # keep_unseen key (insert (key x) seen) xs)"

text \<open>\<open>slice::chunks(n)\<close> for a positive \<open>n\<close>.\<close>

function chunks :: "nat \<Rightarrow> 'a list \<Rightarrow> 'a list list" where
  "chunks n xs = (if xs = [] \<or> n = 0 then [] else take n xs # chunks n (drop n xs))"
  by pat_completeness auto
termination
  by (relation "measure (\<lambda>(n, xs). length xs)") auto

declare chunks.simps [simp del]


section \<open>Lemmas\<close>

named_theorems result_rules \<open>inversion of results built with the question-mark operator\<close>

named_theorems str_eval \<open>definitions that evaluate string operations on literals\<close>

lemmas [str_eval] = to_ascii_lowercase_def to_ascii_uppercase_def ascii_lower_def ascii_upper_def
  char_of_def starts_with_def ends_with_def strip_prefix_str_def eq_ignore_ascii_case_def
  is_ascii_digit_def is_ascii_lowercase_def is_ascii_hexdigit_def all_digits_def
  digit_value_def digit_char_def number_of_digits_def

subsection \<open>Results\<close>

lemma guard_Ok: "(if b then Err e else r) = Ok x \<longleftrightarrow> \<not> b \<and> r = Ok x"
  by simp

lemma and_then_Ok_iff [result_rules]:
  "and_then r f = Ok y \<longleftrightarrow> (\<exists>x. r = Ok x \<and> f x = Ok y)"
  by (cases r) auto

lemma and_then_Err_iff [result_rules]:
  "and_then r f = Err e \<longleftrightarrow> r = Err e \<or> (\<exists>x. r = Ok x \<and> f x = Err e)"
  by (cases r) auto

lemma ok_or_simps [simp]:
  "ok_or (Some v) e = Ok v"
  "ok_or None e = Err e"
  by (simp_all add: ok_or_def)

lemma ok_or_Ok_iff [result_rules]: "ok_or x e = Ok v \<longleftrightarrow> x = Some v"
  by (cases x) auto

lemma ok_or_Err_iff [result_rules]: "ok_or x e = Err e' \<longleftrightarrow> x = None \<and> e' = e"
  by (cases x) auto

lemma map_err_Ok_iff [result_rules]: "map_err g r = Ok x \<longleftrightarrow> r = Ok x"
  by (cases r) auto

lemma map_err_Err_iff [result_rules]: "map_err g r = Err e \<longleftrightarrow> (\<exists>e'. r = Err e' \<and> e = g e')"
  by (cases r) auto

lemma is_ok_iff: "is_ok r \<longleftrightarrow> (\<exists>x. r = Ok x)"
  by (cases r) auto

lemma try_map_Ok_iff:
  "try_map f xs = Ok ys \<longleftrightarrow> list_all2 (\<lambda>x y. f x = Ok y) xs ys"
  by (induction xs arbitrary: ys) (auto simp: and_then_Ok_iff list_all2_Cons1)

lemma try_map_Ok_length: "try_map f xs = Ok ys \<Longrightarrow> length ys = length xs"
  by (auto simp: try_map_Ok_iff dest: list_all2_lengthD)

lemma try_map_Ok_nth: "try_map f xs = Ok ys \<Longrightarrow> i < length xs \<Longrightarrow> f (xs ! i) = Ok (ys ! i)"
  by (auto simp: try_map_Ok_iff dest: list_all2_nthD)

lemma try_map_total: "(\<And>x. x \<in> set xs \<Longrightarrow> f x = Ok (g x)) \<Longrightarrow> try_map f xs = Ok (map g xs)"
  by (induction xs) auto

lemma try_all_Ok_iff [result_rules]: "try_all f xs = Ok u \<longleftrightarrow> (\<forall>x\<in>set xs. f x = Ok ())"
  by (induction xs) (auto simp: and_then_Ok_iff)

lemma try_fold_append:
  "try_fold f s (xs @ ys) = and_then (try_fold f s xs) (\<lambda>s'. try_fold f s' ys)"
proof (induction xs arbitrary: s)
  case (Cons x xs)
  then show ?case by (cases "f s x") auto
qed simp

text \<open>An invariant that every successful step keeps holds of the result of the loop.\<close>

lemma try_fold_invariant:
  assumes "try_fold f s xs = Ok t" and "P s"
    and "\<And>s x s'. x \<in> set xs \<Longrightarrow> P s \<Longrightarrow> f s x = Ok s' \<Longrightarrow> P s'"
  shows "P t"
  using assms
proof (induction xs arbitrary: s)
  case (Cons x xs)
  then obtain s' where s': "f s x = Ok s'" and rest: "try_fold f s' xs = Ok t"
    by (auto simp: and_then_Ok_iff)
  from Cons.prems(2,3) s' have "P s'" by (meson list.set_intros(1))
  with rest show ?case using Cons.IH Cons.prems(3) by (meson list.set_intros(2))
qed simp

subsection \<open>Orderings\<close>

lemma cmp_simps [simp]:
  "cmp a b = Less \<longleftrightarrow> a < b"
  "cmp a b = Equal \<longleftrightarrow> a = b"
  "cmp a b = Greater \<longleftrightarrow> b < a"
  by (auto simp: cmp_def)

lemma then_with_simps [simp]:
  "then_with Equal b = b"
  "then_with Less b = Less"
  "then_with Greater b = Greater"
  by (simp_all add: then_with_def)

lemma cmp_refl [simp]: "cmp a a = Equal"
  by simp

subsection \<open>Bytes and strings\<close>

lemma byte_less: "byte c < 256"
  by (metis of_char_mod_256 mod_less_divisor zero_less_numeral)

lemma byte_char_of: "n < 256 \<Longrightarrow> byte (char_of n) = n"
  by simp

lemma ascii_lower_idem [simp]: "ascii_lower (ascii_lower c) = ascii_lower c"
  by (simp add: ascii_lower_def)

lemma to_ascii_lowercase_idem [simp]:
  "to_ascii_lowercase (to_ascii_lowercase s) = to_ascii_lowercase s"
  by (simp add: to_ascii_lowercase_def)

lemma length_to_ascii_lowercase [simp]: "length (to_ascii_lowercase s) = length s"
  by (simp add: to_ascii_lowercase_def)

lemma to_ascii_lowercase_Nil [simp]: "to_ascii_lowercase s = [] \<longleftrightarrow> s = []"
  by (simp add: to_ascii_lowercase_def)

lemma to_ascii_lowercase_id:
  "(\<And>c. c \<in> set s \<Longrightarrow> \<not> (65 \<le> byte c \<and> byte c \<le> 90)) \<Longrightarrow> to_ascii_lowercase s = s"
  by (auto simp: to_ascii_lowercase_def ascii_lower_def intro!: map_idI)

lemma starts_with_iff: "starts_with s p \<longleftrightarrow> (\<exists>r. s = p @ r)"
  unfolding starts_with_def
  by (metis append_eq_conv_conj append_take_drop_id)

lemma ends_with_iff: "ends_with s p \<longleftrightarrow> (\<exists>r. s = r @ p)"
proof -
  have "rev s = rev p @ r \<longleftrightarrow> s = rev r @ p" for r
    by (metis rev_append rev_rev_ident)
  then show ?thesis
    unfolding ends_with_def starts_with_iff by (metis rev_rev_ident)
qed

lemma position_None_iff: "position p xs = None \<longleftrightarrow> (\<forall>x\<in>set xs. \<not> p x)"
  by (induction xs) auto

lemma position_append [simp]:
  "\<forall>x\<in>set xs. \<not> p x \<Longrightarrow> p y \<Longrightarrow> position p (xs @ y # ys) = Some (length xs)"
  by (induction xs) auto

lemma rfind_append [simp]:
  "\<forall>x\<in>set ys. \<not> p x \<Longrightarrow> p y \<Longrightarrow> rfind p (xs @ y # ys) = Some (length xs)"
  by (simp add: rfind_def)

lemma split_once_SomeD: "split_once c s = Some (a, b) \<Longrightarrow> s = a @ c # b \<and> c \<notin> set a"
  by (induction s arbitrary: a b) (auto split: option.splits if_splits)

lemma split_once_append [simp]: "c \<notin> set a \<Longrightarrow> split_once c (a @ c # b) = Some (a, b)"
  by (induction a) auto

lemma split_once_Some_iff:
  "split_once c s = Some (a, b) \<longleftrightarrow> s = a @ c # b \<and> c \<notin> set a"
  using split_once_SomeD by fastforce

lemma split_once_None_iff: "split_once c s = None \<longleftrightarrow> c \<notin> set s"
  by (induction s) (auto split: option.splits)

lemma wrap_i32_id [simp]: "- (2 ^ 31) \<le> x \<Longrightarrow> x < 2 ^ 31 \<Longrightarrow> wrap_i32 x = x"
  by (simp add: wrap_i32_def)

lemma wrap_i64_id [simp]: "- (2 ^ 63) \<le> x \<Longrightarrow> x < 2 ^ 63 \<Longrightarrow> wrap_i64 x = x"
  by (simp add: wrap_i64_def)

subsection \<open>Digits\<close>

lemma digit_value_less: "is_ascii_digit c \<Longrightarrow> digit_value c < 10"
  by (auto simp: is_ascii_digit_def digit_value_def)

lemma digit_char_is_digit [simp]: "d < 10 \<Longrightarrow> is_ascii_digit (digit_char d)"
  by (simp add: digit_char_def is_ascii_digit_def)

lemma digit_value_char [simp]: "d < 10 \<Longrightarrow> digit_value (digit_char d) = d"
  by (simp add: digit_char_def digit_value_def)

lemma digit_char_value: "is_ascii_digit c \<Longrightarrow> digit_char (digit_value c) = c"
  by (simp add: digit_char_def digit_value_def is_ascii_digit_def)

lemma digit_char_0: "digit_char 0 = CHR ''0''"
  by code_simp

lemma all_digits_simps [simp]:
  "all_digits []"
  "all_digits (c # s) \<longleftrightarrow> is_ascii_digit c \<and> all_digits s"
  "all_digits (s @ t) \<longleftrightarrow> all_digits s \<and> all_digits t"
  by (simp_all add: all_digits_def)

lemma all_digits_set: "all_digits s \<longleftrightarrow> (\<forall>c\<in>set s. is_ascii_digit c)"
  by (simp add: all_digits_def list_all_iff)

lemma all_digits_replicate [simp]: "all_digits (replicate n CHR ''0'')"
  by (auto simp: all_digits_set is_ascii_digit_def)

lemma number_foldl:
  "foldl (\<lambda>acc c. acc * 10 + digit_value c) k s = k * 10 ^ length s + number_of_digits s"
proof (induction s arbitrary: k)
  case (Cons c s)
  show ?case
    using Cons[of "k * 10 + digit_value c"] Cons[of "digit_value c"]
    by (simp add: number_of_digits_def algebra_simps)
qed (simp add: number_of_digits_def)

lemma number_of_digits_simps [simp]:
  "number_of_digits [] = 0"
  "number_of_digits (c # s) = digit_value c * 10 ^ length s + number_of_digits s"
  by (simp_all add: number_of_digits_def) (simp add: number_foldl)

lemma number_of_digits_append:
  "number_of_digits (s @ t) = number_of_digits s * 10 ^ length t + number_of_digits t"
  by (induction s) (simp_all add: algebra_simps power_add)

lemma number_of_zeros [simp]: "number_of_digits (replicate n CHR ''0'') = 0"
  by (induction n) (simp_all add: digit_value_def)

lemma number_of_digits_less: "all_digits s \<Longrightarrow> number_of_digits s < 10 ^ length s"
proof (induction s)
  case (Cons c s)
  then have "digit_value c \<le> 9" and "number_of_digits s < 10 ^ length s"
    using digit_value_less[of c] by auto
  then have "digit_value c * 10 ^ length s + number_of_digits s < 9 * 10 ^ length s + 10 ^ length s"
    by (meson add_le_less_mono mult_le_mono1)
  then show ?case by simp
qed simp

lemma show_nat_props:
  "all_digits (show_nat n) \<and> number_of_digits (show_nat n) = n \<and> show_nat n \<noteq> []"
proof (induction n rule: show_nat.induct)
  case (1 n)
  then show ?case
    by (cases "n < 10") (simp_all add: show_nat.simps[of n] number_of_digits_append)
qed

lemmas all_digits_show_nat [simp] = show_nat_props [THEN conjunct1]
lemmas number_of_show_nat [simp] = show_nat_props [THEN conjunct2, THEN conjunct1]
lemmas show_nat_not_Nil [simp] = show_nat_props [THEN conjunct2, THEN conjunct2]

lemma length_show_nat_le: "n < 10 ^ k \<Longrightarrow> 0 < k \<Longrightarrow> length (show_nat n) \<le> k"
proof (induction k arbitrary: n)
  case (Suc k)
  show ?case
  proof (cases "n < 10")
    case True
    then show ?thesis by (simp add: show_nat.simps[of n])
  next
    case False
    with Suc.prems have "n div 10 < 10 ^ k" by (simp add: div_less_iff_less_mult)
    moreover from this False have "0 < k" by (cases k) auto
    ultimately show ?thesis using False Suc.IH by (simp add: show_nat.simps[of n])
  qed
qed simp

lemma all_digits_pad_left [simp]: "all_digits (pad_left w s) \<longleftrightarrow> all_digits s"
  by (simp add: pad_left_def)

lemma number_of_pad_left [simp]: "number_of_digits (pad_left w s) = number_of_digits s"
  by (simp add: pad_left_def number_of_digits_append)

lemma length_pad_left: "length s \<le> w \<Longrightarrow> length (pad_left w s) = w"
  by (simp add: pad_left_def)

subsection \<open>Searching\<close>

lemma find_SomeD: "find P xs = Some x \<Longrightarrow> x \<in> set xs \<and> P x"
  by (induction xs) (auto split: if_splits)

lemma find_append: "find P (xs @ ys) = (case find P xs of None \<Rightarrow> find P ys | Some x \<Rightarrow> Some x)"
  by (induction xs) auto

lemma filter_empty: "(\<And>x. x \<in> set xs \<Longrightarrow> \<not> P x) \<Longrightarrow> filter P xs = []"
  by (simp add: filter_empty_conv)

lemma list_ex_image: "list_ex (\<lambda>x. f x = b) xs \<longleftrightarrow> b \<in> f ` set xs"
  by (force simp: list_ex_iff)

lemma distinct_map_eq:
  "distinct (map f xs) \<Longrightarrow> x \<in> set xs \<Longrightarrow> y \<in> set xs \<Longrightarrow> f x = f y \<Longrightarrow> x = y"
  by (auto simp: distinct_map dest: inj_onD)

lemma find_image_None: "find (\<lambda>x. f x = b) xs = None \<longleftrightarrow> b \<notin> f ` set xs"
  by (auto simp: find_None_iff)

lemma find_new: "f y \<notin> f ` set xs \<Longrightarrow> find (\<lambda>x. f x = f y) (xs @ [y]) = Some y"
  by (simp add: find_append find_image_None[THEN iffD2])

lemma concat_filter: "concat (map (\<lambda>x. if P x then [x] else []) xs) = filter P xs"
  by (induction xs) auto

lemma concat_last:
  assumes "key y \<notin> key ` set xs"
  shows "concat (map (\<lambda>x. if P x then if key x = key y then if Q x then [g] else [] else [] else [])
     (xs @ [y])) = (if P y \<and> Q y then [g] else [])"
proof -
  have e: "concat (map (\<lambda>x. if P x then if key x = key y then if Q x then [g] else [] else [] else []) xs) = []"
    (is "concat (map ?f xs) = []")
  proof -
    have "?f x = []" if "x \<in> set xs" for x
    proof -
      have "key x \<noteq> key y" using assms that by (metis image_eqI)
      then show ?thesis by simp
    qed
    then show ?thesis by (simp only: concat_eq_Nil_conv set_map) blast
  qed
  show ?thesis unfolding map_append concat_append e by simp
qed

subsection \<open>Loops over a set of seen keys\<close>

lemma all_unseen_iff: "all_unseen seen ks \<longleftrightarrow> distinct ks \<and> set ks \<inter> seen = {}"
  by (induction ks arbitrary: seen) auto

lemma set_keep_unseen: "key ` set (keep_unseen key seen xs) = key ` set xs - seen"
  by (induction xs arbitrary: seen) auto

lemma keep_unseen_subset: "set (keep_unseen key seen xs) \<subseteq> set xs"
  by (induction xs arbitrary: seen) (auto dest: subsetD)

lemma distinct_keep_unseen: "distinct (map key (keep_unseen key seen xs))"
proof (induction xs arbitrary: seen)
  case (Cons x xs)
  have "key x \<notin> key ` set (keep_unseen key (insert (key x) seen) xs)"
    by (simp add: set_keep_unseen)
  with Cons show ?case by simp
qed simp

lemma length_keep_unseen: "length (keep_unseen key seen xs) \<le> length xs"
  by (induction xs arbitrary: seen) (auto simp: le_SucI)

lemma keep_unseen_distinct:
  "distinct (map key xs) \<Longrightarrow> key ` set xs \<inter> seen = {} \<Longrightarrow> keep_unseen key seen xs = xs"
  by (induction xs arbitrary: seen) auto

lemma concat_chunks: "0 < n \<Longrightarrow> concat (chunks n xs) = xs"
proof (induction n xs rule: chunks.induct)
  case (1 n xs)
  then show ?case by (cases "xs = []") (simp_all add: chunks.simps[of n xs] chunks.simps[of n "[]"])
qed

lemma chunks_props: "c \<in> set (chunks n xs) \<Longrightarrow> c \<noteq> [] \<and> length c \<le> n \<and> set c \<subseteq> set xs"
proof (induction n xs rule: chunks.induct)
  case (1 n xs)
  show ?case
  proof (cases "xs = [] \<or> n = 0")
    case True
    with 1 show ?thesis by (simp add: chunks.simps[of n xs])
  next
    case False
    with 1 consider "c = take n xs" | "c \<in> set (chunks n (drop n xs))"
      by (auto simp: chunks.simps[of n xs])
    then show ?thesis
      using 1 False by cases (auto dest: in_set_takeD in_set_dropD)
  qed
qed

subsection \<open>Sorting and indexing\<close>

lemma mset_insert_by [simp]: "mset (insert_by c x xs) = add_mset x (mset xs)"
  by (induction xs) auto

lemma mset_sort_by [simp]: "mset (sort_by c xs) = mset xs"
  by (induction xs) (auto simp: sort_by_def)

lemma set_sort_by [simp]: "set (sort_by c xs) = set xs"
  by (metis mset_sort_by set_mset_mset)

lemma length_sort_by [simp]: "length (sort_by c xs) = length xs"
  by (metis mset_sort_by size_mset)

lemma distinct_sort_by [simp]: "distinct (sort_by c xs) = distinct xs"
  by (metis mset_sort_by distinct_count_atmost_1 set_sort_by)

text \<open>A comparison by a key sorts by that key.\<close>

lemma insert_by_key:
  assumes "\<And>x y. c x y = Greater \<longleftrightarrow> k y < k x"
  shows "insert_by c x xs = insort_key k x xs"
  by (induction xs) (auto simp: assms not_less[symmetric])

lemma sort_by_key:
  assumes "\<And>x y. c x y = Greater \<longleftrightarrow> k y < k x"
  shows "sort_by c xs = sort_key k xs"
  by (induction xs) (simp_all add: sort_by_def sort_key_def insert_by_key[OF assms])

lemma index_by_Nil [simp]: "index_by key [] k = None"
  by (simp add: index_by_def)

lemma index_by_snoc: "index_by key (xs @ [x]) = (index_by key xs)(key x \<mapsto> length xs)"
  by (simp add: index_by_def enumerate_append_eq)

lemma index_by_Some:
  "index_by key xs k = Some i \<Longrightarrow> i < length xs \<and> key (xs ! i) = k"
  by (induction xs arbitrary: i rule: rev_induct)
     (auto simp: index_by_snoc nth_append split: if_splits)

lemma index_by_None: "index_by key xs k = None \<longleftrightarrow> k \<notin> key ` set xs"
  by (induction xs rule: rev_induct) (auto simp: index_by_snoc)

lemma index_by_iff:
  assumes "distinct (map key xs)"
  shows "index_by key xs k = Some i \<longleftrightarrow> i < length xs \<and> key (xs ! i) = k"
proof
  assume i: "i < length xs \<and> key (xs ! i) = k"
  then have "k \<in> key ` set xs" by auto
  then obtain j where j: "index_by key xs k = Some j" using index_by_None[of key xs k] by auto
  then show "index_by key xs k = Some i"
    using index_by_Some[OF j] i assms by (auto simp: distinct_conv_nth)
qed (rule index_by_Some)

subsection \<open>Trimming\<close>

text \<open>A text that neither starts nor ends with white space.\<close>

definition unpadded :: "string list \<Rightarrow> string \<Rightarrow> bool" where
  "unpadded ws s \<longleftrightarrow> find (\<lambda>w. w \<noteq> [] \<and> starts_with s w) ws = None"

lemma trim_leading_unpadded: "unpadded ws s \<Longrightarrow> trim_leading ws s = s"
  by (subst trim_leading.simps) (simp add: unpadded_def)

lemma unpadded_trim_leading: "unpadded ws (trim_leading ws s)"
proof (induction ws s rule: trim_leading.induct)
  case (1 ws s)
  show ?case
  proof (cases "find (\<lambda>w. w \<noteq> [] \<and> starts_with s w) ws")
    case None
    then show ?thesis by (subst trim_leading.simps) (simp add: unpadded_def)
  next
    case (Some w)
    then show ?thesis using 1[OF Some] by (subst trim_leading.simps) simp
  qed
qed

lemma trim_leading_suffix: "\<exists>p. s = p @ trim_leading ws s"
proof (induction ws s rule: trim_leading.induct)
  case (1 ws s)
  show ?case
  proof (cases "find (\<lambda>w. w \<noteq> [] \<and> starts_with s w) ws")
    case None
    then show ?thesis by (subst trim_leading.simps) simp
  next
    case (Some w)
    then obtain p where p: "drop (length w) s = p @ trim_leading ws (drop (length w) s)" using 1[OF Some] by blast
    have "s = (take (length w) s @ p) @ trim_leading ws (drop (length w) s)"
      using p by (metis append.assoc append_take_drop_id)
    moreover have "trim_leading ws s = trim_leading ws (drop (length w) s)" using Some by (subst trim_leading.simps) simp
    ultimately show ?thesis by metis
  qed
qed

lemma unpadded_prefix: "unpadded ws (a @ b) \<Longrightarrow> unpadded ws a"
  unfolding unpadded_def find_None_iff by (auto simp: starts_with_def)

lemma trim_idem [simp]: "trim (trim s) = trim s"
proof -
  let ?l = "trim_leading white_space s" and ?ws = "map rev white_space"
  obtain p where p: "rev ?l = p @ trim_leading ?ws (rev ?l)" using trim_leading_suffix by blast
  then have "?l = rev (trim_leading ?ws (rev ?l)) @ rev p" by (metis rev_append rev_rev_ident)
  then have "unpadded white_space (rev (trim_leading ?ws (rev ?l)))"
    using unpadded_prefix unpadded_trim_leading by metis
  then show ?thesis by (simp add: trim_def trim_leading_unpadded unpadded_trim_leading)
qed

text \<open>Lower case is applied byte by byte, and no white space has a byte that it changes.\<close>

definition no_letters :: "string \<Rightarrow> bool" where
  "no_letters w \<longleftrightarrow> list_all (\<lambda>c. byte c < 65 \<or> 122 < byte c) w"

lemma ascii_lower_byte:
  "byte (ascii_lower c) = (if 65 \<le> byte c \<and> byte c \<le> 90 then byte c + 32 else byte c)"
  by (auto simp: ascii_lower_def of_char_of)

lemma ascii_lower_eq_iff: "byte d < 65 \<or> 122 < byte d \<Longrightarrow> ascii_lower c = d \<longleftrightarrow> c = d"
  using ascii_lower_byte[of c] by (auto simp: ascii_lower_def split: if_splits)

lemma starts_with_lower: "no_letters w \<Longrightarrow> starts_with (to_ascii_lowercase s) w \<longleftrightarrow> starts_with s w"
proof (induction w arbitrary: s)
  case (Cons d w)
  then show ?case
    by (cases s) (auto simp: starts_with_def to_ascii_lowercase_def no_letters_def ascii_lower_eq_iff)
qed (simp add: starts_with_def)

lemma trim_leading_lower:
  "list_all no_letters ws \<Longrightarrow> trim_leading ws (to_ascii_lowercase s) = to_ascii_lowercase (trim_leading ws s)"
proof (induction ws s rule: trim_leading.induct)
  case (1 ws s)
  have same: "find (\<lambda>w. w \<noteq> [] \<and> starts_with (to_ascii_lowercase s) w) ws = find (\<lambda>w. w \<noteq> [] \<and> starts_with s w) ws"
    using "1.prems" by (intro find_cong) (auto simp: starts_with_lower list_all_iff)
  show ?case
  proof (cases "find (\<lambda>w. w \<noteq> [] \<and> starts_with s w) ws")
    case None
    then show ?thesis using same by (subst (1 2) trim_leading.simps) simp
  next
    case (Some w)
    have "trim_leading ws (to_ascii_lowercase (drop (length w) s)) = to_ascii_lowercase (trim_leading ws (drop (length w) s))"
      using "1.IH"[OF Some "1.prems"] .
    then show ?thesis using Some same by (subst (1 2) trim_leading.simps) (simp add: to_ascii_lowercase_def drop_map)
  qed
qed

lemma trim_lower: "trim (to_ascii_lowercase s) = to_ascii_lowercase (trim s)"
proof -
  have a: "list_all no_letters white_space" by code_simp
  then have b: "list_all no_letters (map rev white_space)" by (simp add: list_all_iff no_letters_def)
  have r: "rev (to_ascii_lowercase t) = to_ascii_lowercase (rev t)" for t by (simp add: to_ascii_lowercase_def rev_map)
  show ?thesis by (simp add: trim_def trim_leading_lower[OF a] r trim_leading_lower[OF b])
qed

end
