(* ===== verification/Registry.thy ===== *)
theory Registry
  imports Prelude
begin

text \<open>
  The canonical registry: \<open>src/domain/canonical_registry.rs\<close> with the predicates of
  \<open>src/domain/validation.rs\<close>. A catalog is validated and indexed once, when the service starts;
  the lookups read the indexes. A message of \<open>CanonicalRegistryError::Invalid\<close> is a constructor
  with the values the message prints. \<open>serde_json\<close> is a parameter; \<open>None\<close> as the outcome of
  \<open>from_catalog\<close> is a panic of an index or of \<open>expect\<close>. The lookups index vectors by positions
  stored in the registry; \<open>registry_ok\<close> says that they are in range.
\<close>

section \<open>\<open>src/domain/validation.rs\<close>\<close>

definition is_asset_slug :: "string \<Rightarrow> bool" where
  "is_asset_slug s \<longleftrightarrow>
     \<not> (s = [] \<or> starts_with s ''-'' \<or> ends_with s ''-'' \<or> contains_str s ''--'') \<and>
     list_all (\<lambda>c. is_ascii_lowercase c \<or> is_ascii_digit c \<or> c = CHR ''-'') s"

definition is_evm_address :: "string \<Rightarrow> bool" where
  "is_evm_address s \<longleftrightarrow>
     length s = 42 \<and> starts_with s ''0x'' \<and> list_all is_ascii_hexdigit (drop 2 s)"

section \<open>The catalog\<close>

definition CATALOG_VERSION :: nat where
  "CATALOG_VERSION = 3"

record canonical_asset =
  ca_slug :: string
  ca_symbol :: string
  ca_name :: string
  ca_asset_kind :: string
  ca_category :: "string option"
  ca_canonical_path :: string
  ca_aliases :: "string list"
  ca_metadata :: json
  ca_status :: string
  ca_sort_order :: int

record canonical_network =
  cn_slug :: string
  cn_name :: string
  cn_family :: string
  cn_chain_id :: "int option"
  cn_caip2 :: "string option"
  cn_metadata :: json
  cn_status :: string
  cn_sort_order :: int

record canonical_asset_chain_map =
  cm_asset_slug :: string
  cm_network_slug :: string
  cm_is_native :: bool
  cm_deployment_address :: "string option"
  cm_deployment_block :: "int option"
  cm_decimals :: "int option"
  cm_token_standard :: string
  cm_metadata :: json
  cm_status :: string
  cm_sort_order :: int

record catalog =
  cat_version :: nat
  cat_assets :: "canonical_asset list"
  cat_networks :: "canonical_network list"
  cat_asset_chain_maps :: "canonical_asset_chain_map list"

datatype registry_violation =
    UnsupportedVersion nat
  | DuplicateAssetSlug string
  | AliasCollidesWithSlug string string
  | AliasShared string string string
  | DuplicateNetworkSlug string
  | UndeclaredAsset string
  | UndeclaredNetwork string
  | DuplicateMapping string string
  | DuplicateNativeMapping string
  | DuplicateDeploymentAddress string string
  | DuplicateErc20Address string string
  | InvalidCanonicalPath string string
  | InvalidCaip2 string string
  | ChainIdRequired string
  | Caip2Required string string
  | ChainIdForbidden string
  | DecimalsRequired string string
  | InvalidDecimals string string int
  | NativeWithAddress string string
  | NativeWithBlock string string
  | NativeStandardRequired string string
  | NativeStandardForbidden string string
  | AddressRequired string string
  | AddressNotLowercase string string
  | NegativeBlock string string
  | EvmNetworkRequired string string
  | InvalidErc20Address string string string
  | BlockRequired string string
  | NotNormalized string string
  | MustNotBeEmpty string
  | NonNormalizedAlias string string
  | DuplicateAlias string string
  | InvalidStatus string string
  | NegativeSortOrder string int
  | MetadataNotObject string string

datatype canonical_registry_error = ParseError string | Invalid registry_violation

section \<open>Validation\<close>

definition require :: "bool \<Rightarrow> registry_violation \<Rightarrow> (unit, canonical_registry_error) result" where
  "require b v = (if b then Ok () else Err (Invalid v))"

definition is_active :: "string \<Rightarrow> bool" where
  "is_active status \<longleftrightarrow> status = ''active''"

definition validate_slug :: "string \<Rightarrow> string \<Rightarrow> (unit, canonical_registry_error) result" where
  "validate_slug label slug = require (is_asset_slug slug) (NotNormalized label slug)"

definition validate_non_empty :: "string \<Rightarrow> string \<Rightarrow> (unit, canonical_registry_error) result" where
  "validate_non_empty label text = require (trim text \<noteq> []) (MustNotBeEmpty label)"

fun validate_aliases_from ::
  "string set \<Rightarrow> string \<Rightarrow> string list \<Rightarrow> (unit, canonical_registry_error) result" where
  "validate_aliases_from seen asset_slug [] = Ok ()"
| "validate_aliases_from seen asset_slug (a # as) =
     (if a = [] \<or> trim a \<noteq> a \<or> a \<noteq> to_ascii_lowercase a then Err (Invalid (NonNormalizedAlias asset_slug a))
      else if a \<in> seen then Err (Invalid (DuplicateAlias asset_slug a))
      else validate_aliases_from (insert a seen) asset_slug as)"

definition validate_aliases :: "string \<Rightarrow> string list \<Rightarrow> (unit, canonical_registry_error) result" where
  "validate_aliases asset_slug aliases = validate_aliases_from {} asset_slug aliases"

definition validate_status :: "string \<Rightarrow> string \<Rightarrow> (unit, canonical_registry_error) result" where
  "validate_status owner status =
     require (status \<in> {''active'', ''inactive'', ''deprecated'', ''hidden'', ''pending'', ''unsupported'',
       ''archived''}) (InvalidStatus owner status)"

definition validate_sort_order :: "string \<Rightarrow> int \<Rightarrow> (unit, canonical_registry_error) result" where
  "validate_sort_order owner sort_order = require (\<not> sort_order < 0) (NegativeSortOrder owner sort_order)"

definition validate_metadata :: "string \<Rightarrow> string \<Rightarrow> json \<Rightarrow> (unit, canonical_registry_error) result" where
  "validate_metadata owner identity metadata = require (is_object metadata) (MetadataNotObject owner identity)"

definition validate_asset :: "canonical_asset \<Rightarrow> (unit, canonical_registry_error) result" where
  "validate_asset asset =
     and_then (validate_slug ''asset slug'' (ca_slug asset)) (\<lambda>_.
     and_then (validate_non_empty ''asset symbol'' (ca_symbol asset)) (\<lambda>_.
     and_then (validate_non_empty ''asset name'' (ca_name asset)) (\<lambda>_.
     and_then (validate_non_empty ''asset kind'' (ca_asset_kind asset)) (\<lambda>_.
     and_then (case ca_category asset of
                 Some category \<Rightarrow> validate_non_empty ''asset category'' category | None \<Rightarrow> Ok ()) (\<lambda>_.
     and_then (require (ca_canonical_path asset = ''/assets/'' @ ca_slug asset)
                 (InvalidCanonicalPath (ca_slug asset) (ca_canonical_path asset))) (\<lambda>_.
     and_then (validate_status ''asset'' (ca_status asset)) (\<lambda>_.
     and_then (validate_sort_order ''asset'' (ca_sort_order asset)) (\<lambda>_.
     and_then (validate_aliases (ca_slug asset) (ca_aliases asset)) (\<lambda>_.
     validate_metadata ''asset'' (ca_slug asset) (ca_metadata asset))))))))))"

text \<open>\<open>caip2\<close>: exactly two parts around a colon, both not empty.\<close>

definition caip2_valid :: "string \<Rightarrow> bool" where
  "caip2_valid caip2 \<longleftrightarrow>
     (case split_on CHR '':'' caip2 of [ns, reference] \<Rightarrow> ns \<noteq> [] \<and> reference \<noteq> [] | _ \<Rightarrow> False)"

definition validate_network :: "canonical_network \<Rightarrow> (unit, canonical_registry_error) result" where
  "validate_network network =
     and_then (validate_slug ''network slug'' (cn_slug network)) (\<lambda>_.
     and_then (validate_non_empty ''network name'' (cn_name network)) (\<lambda>_.
     and_then (validate_non_empty ''network family'' (cn_family network)) (\<lambda>_.
     and_then (validate_status ''network'' (cn_status network)) (\<lambda>_.
     and_then (validate_sort_order ''network'' (cn_sort_order network)) (\<lambda>_.
     and_then (validate_metadata ''network'' (cn_slug network) (cn_metadata network)) (\<lambda>_.
     and_then (case cn_caip2 network of
                 Some caip2 \<Rightarrow> require (caip2_valid caip2) (InvalidCaip2 (cn_slug network) caip2)
               | None \<Rightarrow> Ok ()) (\<lambda>_.
     if cn_family network = ''evm'' then
       (case cn_chain_id network of
          Some chain_id \<Rightarrow>
            (if chain_id > 0 then
               let expected_caip2 = ''eip155:'' @ show_nat (nat chain_id)
               in require (cn_caip2 network = Some expected_caip2) (Caip2Required (cn_slug network) expected_caip2)
             else Err (Invalid (ChainIdRequired (cn_slug network))))
        | None \<Rightarrow> Err (Invalid (ChainIdRequired (cn_slug network))))
     else require (cn_chain_id network = None) (ChainIdForbidden (cn_slug network)))))))))"

definition validate_mapping ::
  "canonical_asset_chain_map \<Rightarrow> canonical_network \<Rightarrow> (unit, canonical_registry_error) result" where
  "validate_mapping m network =
     (let a = cm_asset_slug m; n = cm_network_slug m in
     and_then (ok_or (cm_decimals m) (Invalid (DecimalsRequired a n))) (\<lambda>decimals.
     and_then (require (0 \<le> decimals \<and> decimals \<le> 255) (InvalidDecimals a n decimals)) (\<lambda>_.
     if cm_is_native m then
       and_then (require (cm_deployment_address m = None) (NativeWithAddress a n)) (\<lambda>_.
       and_then (require (cm_deployment_block m = None) (NativeWithBlock a n)) (\<lambda>_.
       require (cm_token_standard m = ''native'') (NativeStandardRequired a n)))
     else
       and_then (validate_non_empty ''mapping token_standard'' (cm_token_standard m)) (\<lambda>_.
       and_then (require (cm_token_standard m \<noteq> ''native'') (NativeStandardForbidden a n)) (\<lambda>_.
       and_then (ok_or (cm_deployment_address m) (Invalid (AddressRequired a n))) (\<lambda>address.
       and_then (validate_non_empty ''mapping deployment_address'' address) (\<lambda>_.
       and_then (require (address = to_ascii_lowercase address) (AddressNotLowercase a n)) (\<lambda>_.
       and_then (require (\<not> (case cm_deployment_block m of Some b \<Rightarrow> b < 0 | None \<Rightarrow> False))
                   (NegativeBlock a n)) (\<lambda>_.
       if cm_token_standard m = ''erc20'' then
         and_then (require (cn_family network = ''evm'') (EvmNetworkRequired a n)) (\<lambda>_.
         and_then (require (is_evm_address address) (InvalidErc20Address a n address)) (\<lambda>_.
         require (cm_deployment_block m \<noteq> None) (BlockRequired a n)))
       else Ok ()))))))))) "

text \<open>The loops of \<open>validate_catalog\<close>; the sets and maps they build are their state.\<close>

definition asset_step ::
  "string set \<Rightarrow> canonical_asset \<Rightarrow> (string set, canonical_registry_error) result" where
  "asset_step seen asset =
     and_then (validate_asset asset) (\<lambda>_.
     and_then (require (ca_slug asset \<notin> seen) (DuplicateAssetSlug (ca_slug asset))) (\<lambda>_.
     Ok (insert (ca_slug asset) seen)))"

definition alias_step ::
  "string set \<Rightarrow> string \<Rightarrow> (string \<Rightarrow> string option) \<Rightarrow> string \<Rightarrow>
   (string \<Rightarrow> string option, canonical_registry_error) result" where
  "alias_step asset_slugs slug aliases a =
     and_then (require (\<not> (a \<noteq> slug \<and> a \<in> asset_slugs)) (AliasCollidesWithSlug slug a)) (\<lambda>_.
     and_then (case aliases a of
                 Some previous \<Rightarrow> require (previous = slug) (AliasShared a previous slug)
               | None \<Rightarrow> Ok ()) (\<lambda>_.
     Ok (aliases(a \<mapsto> slug))))"

definition network_step ::
  "(string \<Rightarrow> canonical_network option) \<Rightarrow> canonical_network \<Rightarrow>
   (string \<Rightarrow> canonical_network option, canonical_registry_error) result" where
  "network_step networks network =
     and_then (validate_network network) (\<lambda>_.
     and_then (require (networks (cn_slug network) = None) (DuplicateNetworkSlug (cn_slug network))) (\<lambda>_.
     Ok (networks(cn_slug network \<mapsto> network))))"

record mapping_sets =
  ms_mapping_keys :: "(string \<times> string) set"
  ms_active_native_networks :: "string set"
  ms_active_network_addresses :: "(string \<times> string) set"
  ms_active_erc20_addresses :: "(string \<times> string) set"

definition check_address ::
  "mapping_sets \<Rightarrow> canonical_asset_chain_map \<Rightarrow> (mapping_sets, canonical_registry_error) result" where
  "check_address s m =
     (case cm_deployment_address m of
        None \<Rightarrow> Ok s
      | Some address \<Rightarrow>
          let key = (cm_network_slug m, address) in
          and_then (require (key \<notin> ms_active_network_addresses s)
                      (DuplicateDeploymentAddress address (cm_network_slug m))) (\<lambda>_.
          let s = s\<lparr>ms_active_network_addresses := insert key (ms_active_network_addresses s)\<rparr> in
          if cm_token_standard m = ''erc20'' then
            and_then (require (key \<notin> ms_active_erc20_addresses s)
                        (DuplicateErc20Address address (cm_network_slug m))) (\<lambda>_.
            Ok (s\<lparr>ms_active_erc20_addresses := insert key (ms_active_erc20_addresses s)\<rparr>))
          else Ok s))"

definition mapping_step ::
  "string set \<Rightarrow> (string \<Rightarrow> canonical_network option) \<Rightarrow> mapping_sets \<Rightarrow> canonical_asset_chain_map \<Rightarrow>
   (mapping_sets, canonical_registry_error) result" where
  "mapping_step asset_slugs networks s m =
     (let key = (cm_asset_slug m, cm_network_slug m) in
     and_then (validate_slug ''mapping asset_slug'' (cm_asset_slug m)) (\<lambda>_.
     and_then (validate_slug ''mapping network_slug'' (cm_network_slug m)) (\<lambda>_.
     and_then (validate_status ''mapping'' (cm_status m)) (\<lambda>_.
     and_then (validate_sort_order ''mapping'' (cm_sort_order m)) (\<lambda>_.
     and_then (validate_metadata ''mapping'' (cm_asset_slug m) (cm_metadata m)) (\<lambda>_.
     and_then (require (cm_asset_slug m \<in> asset_slugs) (UndeclaredAsset (cm_asset_slug m))) (\<lambda>_.
     and_then (ok_or (networks (cm_network_slug m)) (Invalid (UndeclaredNetwork (cm_network_slug m)))) (\<lambda>network.
     and_then (validate_mapping m network) (\<lambda>_.
     and_then (require (key \<notin> ms_mapping_keys s) (DuplicateMapping (fst key) (snd key))) (\<lambda>_.
     let s = s\<lparr>ms_mapping_keys := insert key (ms_mapping_keys s)\<rparr> in
     and_then
       (if is_active (cm_status m) \<and> cm_is_native m
        then and_then (require (cm_network_slug m \<notin> ms_active_native_networks s)
                         (DuplicateNativeMapping (cm_network_slug m))) (\<lambda>_.
             Ok (s\<lparr>ms_active_native_networks := insert (cm_network_slug m) (ms_active_native_networks s)\<rparr>))
        else Ok s) (\<lambda>s.
     if is_active (cm_status m) then check_address s m else Ok s)))))))))))"

definition validate_catalog :: "catalog \<Rightarrow> (unit, canonical_registry_error) result" where
  "validate_catalog c =
     and_then (require (cat_version c = CATALOG_VERSION) (UnsupportedVersion (cat_version c))) (\<lambda>_.
     and_then (try_fold asset_step {} (cat_assets c)) (\<lambda>asset_slugs.
     and_then (try_fold (\<lambda>aliases asset. try_fold (alias_step asset_slugs (ca_slug asset)) aliases (ca_aliases asset))
                 Map.empty (cat_assets c)) (\<lambda>_.
     and_then (try_fold network_step Map.empty (cat_networks c)) (\<lambda>networks.
     and_then (try_fold (mapping_step asset_slugs networks)
                 \<lparr>ms_mapping_keys = {}, ms_active_native_networks = {}, ms_active_network_addresses = {},
                  ms_active_erc20_addresses = {}\<rparr> (cat_asset_chain_maps c)) (\<lambda>_.
     Ok ())))))"

definition parse_catalog_json ::
  "(string \<Rightarrow> (catalog, string) result) \<Rightarrow> string \<Rightarrow> (catalog, canonical_registry_error) result" where
  "parse_catalog_json from_str json =
     and_then (map_err ParseError (from_str json)) (\<lambda>catalog.
     and_then (validate_catalog catalog) (\<lambda>_. Ok catalog))"

section \<open>The registry\<close>

record canonical_registry =
  rg_assets :: "canonical_asset list"
  rg_networks :: "canonical_network list"
  rg_mappings :: "canonical_asset_chain_map list"
  rg_asset_by_slug :: "string \<Rightarrow> nat option"
  rg_asset_by_alias :: "string \<Rightarrow> nat option"
  rg_network_by_slug :: "string \<Rightarrow> nat option"
  rg_mapping_by_identity :: "string \<times> string \<Rightarrow> nat option"
  rg_erc20_by_network_address :: "string \<times> string \<Rightarrow> nat option"
  rg_active_asset_indexes :: "nat list"
  rg_active_mapping_indexes_by_asset :: "string \<Rightarrow> nat list option"

definition asset_order :: "canonical_asset \<Rightarrow> canonical_asset \<Rightarrow> ordering" where
  "asset_order left right =
     then_with (cmp (ca_sort_order left) (ca_sort_order right))
       (then_with (cmp (to_ascii_lowercase (ca_symbol left)) (to_ascii_lowercase (ca_symbol right)))
         (cmp (ca_slug left) (ca_slug right)))"

definition mapping_order :: "canonical_asset_chain_map \<Rightarrow> canonical_asset_chain_map \<Rightarrow> ordering" where
  "mapping_order left right =
     then_with (cmp (cm_sort_order left) (cm_sort_order right))
       (cmp (cm_network_slug left) (cm_network_slug right))"

text \<open>The loop over the mappings; a missing asset, network or address panics.\<close>

fun index_mappings ::
  "catalog \<Rightarrow> (string \<Rightarrow> nat option) \<Rightarrow> (string \<Rightarrow> nat option) \<Rightarrow>
   (string \<Rightarrow> nat list option) \<times> (string \<times> string \<Rightarrow> nat option) \<Rightarrow>
   (nat \<times> canonical_asset_chain_map) list \<Rightarrow>
   ((string \<Rightarrow> nat list option) \<times> (string \<times> string \<Rightarrow> nat option)) option" where
  "index_mappings c assets networks acc [] = Some acc"
| "index_mappings c assets networks (active, erc20) ((i, m) # ms) =
     (case (assets (cm_asset_slug m), networks (cm_network_slug m)) of
        (Some ai, Some ni) \<Rightarrow>
          let asset = cat_assets c ! ai; network = cat_networks c ! ni in
          if \<not> is_active (cm_status m) \<or> \<not> is_active (ca_status asset) \<or> \<not> is_active (cn_status network)
          then index_mappings c assets networks (active, erc20) ms
          else
            let active' = active(cm_asset_slug m \<mapsto>
              (case active (cm_asset_slug m) of None \<Rightarrow> [] | Some is \<Rightarrow> is) @ [i]) in
            if cm_token_standard m = ''erc20'' then
              (case cm_deployment_address m of
                 None \<Rightarrow> None
               | Some address \<Rightarrow>
                   index_mappings c assets networks
                     (active', erc20((cm_network_slug m, address) \<mapsto> i)) ms)
            else index_mappings c assets networks (active', erc20) ms
      | _ \<Rightarrow> None)"

definition from_catalog :: "catalog \<Rightarrow> (canonical_registry, canonical_registry_error) result option" where
  "from_catalog c =
     (case validate_catalog c of
        Err e \<Rightarrow> Some (Err e)
      | Ok _ \<Rightarrow>
          let asset_by_slug = index_by ca_slug (cat_assets c);
              asset_by_alias = foldl (\<lambda>m (i, asset). foldl (\<lambda>m a. m(a \<mapsto> i)) m (ca_aliases asset))
                Map.empty (enumerate 0 (cat_assets c));
              network_by_slug = index_by cn_slug (cat_networks c);
              mapping_by_identity =
                index_by (\<lambda>m. (cm_asset_slug m, cm_network_slug m)) (cat_asset_chain_maps c);
              active_asset_indexes =
                sort_by (\<lambda>l r. asset_order (cat_assets c ! l) (cat_assets c ! r))
                  (map fst (filter (\<lambda>(i, asset). is_active (ca_status asset)) (enumerate 0 (cat_assets c))))
          in case index_mappings c asset_by_slug network_by_slug (Map.empty, Map.empty)
                    (enumerate 0 (cat_asset_chain_maps c)) of
               None \<Rightarrow> None
             | Some (active, erc20) \<Rightarrow>
                 Some (Ok \<lparr>rg_assets = cat_assets c, rg_networks = cat_networks c,
                   rg_mappings = cat_asset_chain_maps c,
                   rg_asset_by_slug = asset_by_slug, rg_asset_by_alias = asset_by_alias,
                   rg_network_by_slug = network_by_slug, rg_mapping_by_identity = mapping_by_identity,
                   rg_erc20_by_network_address = erc20,
                   rg_active_asset_indexes = active_asset_indexes,
                   rg_active_mapping_indexes_by_asset =
                     (\<lambda>slug. map_option
                       (sort_by (\<lambda>l r. mapping_order (cat_asset_chain_maps c ! l) (cat_asset_chain_maps c ! r)))
                       (active slug))\<rparr>))"

definition from_json ::
  "(string \<Rightarrow> (catalog, string) result) \<Rightarrow> string \<Rightarrow>
   (canonical_registry, canonical_registry_error) result option" where
  "from_json from_str json =
     (case parse_catalog_json from_str json of Err e \<Rightarrow> Some (Err e) | Ok catalog \<Rightarrow> from_catalog catalog)"

section \<open>Lookups\<close>

definition asset_by_slug :: "canonical_registry \<Rightarrow> string \<Rightarrow> canonical_asset option" where
  "asset_by_slug r slug =
     map_option (\<lambda>i. rg_assets r ! i) (rg_asset_by_slug r (to_ascii_lowercase slug))"

definition network_by_slug :: "canonical_registry \<Rightarrow> string \<Rightarrow> canonical_network option" where
  "network_by_slug r slug =
     map_option (\<lambda>i. rg_networks r ! i) (rg_network_by_slug r (to_ascii_lowercase slug))"

definition mapping_for ::
  "canonical_registry \<Rightarrow> string \<Rightarrow> string \<Rightarrow> canonical_asset_chain_map option" where
  "mapping_for r asset_slug network_slug =
     map_option (\<lambda>i. rg_mappings r ! i)
       (rg_mapping_by_identity r (to_ascii_lowercase asset_slug, to_ascii_lowercase network_slug))"

datatype canonical_match_confidence = MatchSlug | MatchSymbol | MatchName | MatchAlias

fun confidence_rank :: "canonical_match_confidence \<Rightarrow> nat" where
  "confidence_rank MatchSlug = 0"
| "confidence_rank MatchSymbol = 1"
| "confidence_rank MatchName = 2"
| "confidence_rank MatchAlias = 3"

fun confidence_as_str :: "canonical_match_confidence \<Rightarrow> string" where
  "confidence_as_str MatchSlug = ''slug_exact''"
| "confidence_as_str MatchSymbol = ''symbol_exact''"
| "confidence_as_str MatchName = ''name_exact''"
| "confidence_as_str MatchAlias = ''alias_exact''"

record canonical_asset_match =
  am_asset :: canonical_asset
  am_confidence :: canonical_match_confidence

definition match_confidence ::
  "canonical_registry \<Rightarrow> string \<Rightarrow> nat \<Rightarrow> canonical_match_confidence option" where
  "match_confidence r query i =
     (let asset = rg_assets r ! i in
      if eq_ignore_ascii_case (ca_slug asset) query then Some MatchSlug
      else if eq_ignore_ascii_case (ca_symbol asset) query then Some MatchSymbol
      else if eq_ignore_ascii_case (ca_name asset) query then Some MatchName
      else if rg_asset_by_alias r query = Some i then Some MatchAlias
      else None)"

definition match_order :: "canonical_asset_match \<Rightarrow> canonical_asset_match \<Rightarrow> ordering" where
  "match_order left right =
     then_with (cmp (confidence_rank (am_confidence left)) (confidence_rank (am_confidence right)))
       (asset_order (am_asset left) (am_asset right))"

definition find_confident_asset :: "canonical_registry \<Rightarrow> string \<Rightarrow> canonical_asset_match option" where
  "find_confident_asset r normalized_query =
     (let query = to_ascii_lowercase normalized_query;
          candidates = List.map_filter (\<lambda>i.
            map_option (\<lambda>confidence. \<lparr>am_asset = rg_assets r ! i, am_confidence = confidence\<rparr>)
              (match_confidence r query i)) (rg_active_asset_indexes r)
      in case sort_by match_order candidates of [] \<Rightarrow> None | m # _ \<Rightarrow> Some m)"

definition asset_contains :: "canonical_asset \<Rightarrow> string \<Rightarrow> bool" where
  "asset_contains asset query \<longleftrightarrow>
     contains_str (to_ascii_lowercase (ca_slug asset)) query \<or>
     contains_str (to_ascii_lowercase (ca_symbol asset)) query \<or>
     contains_str (to_ascii_lowercase (ca_name asset)) query \<or>
     list_ex (\<lambda>a. contains_str (to_ascii_lowercase a) query) (ca_aliases asset)"

definition active_assets :: "canonical_registry \<Rightarrow> nat \<Rightarrow> canonical_asset list" where
  "active_assets r limit = map (\<lambda>i. rg_assets r ! i) (take limit (rg_active_asset_indexes r))"

definition recommendations :: "canonical_registry \<Rightarrow> string \<Rightarrow> nat \<Rightarrow> canonical_asset list" where
  "recommendations r normalized_query limit =
     (let query = to_ascii_lowercase normalized_query;
          matches = take limit (filter (\<lambda>asset. asset_contains asset query)
            (map (\<lambda>i. rg_assets r ! i) (rg_active_asset_indexes r)))
      in if matches = [] then active_assets r limit else matches)"

definition active_network :: "canonical_registry \<Rightarrow> string \<Rightarrow> canonical_network option" where
  "active_network r slug =
     (case network_by_slug r slug of
        Some network \<Rightarrow> if is_active (cn_status network) then Some network else None
      | None \<Rightarrow> None)"

definition active_asset_slugs_mapped_to_network :: "canonical_registry \<Rightarrow> string \<Rightarrow> string list" where
  "active_asset_slugs_mapped_to_network r network_slug =
     (case active_network r network_slug of
        None \<Rightarrow> []
      | Some network \<Rightarrow>
          map ca_slug
            (filter (\<lambda>asset. case mapping_for r (ca_slug asset) (cn_slug network) of
                               Some m \<Rightarrow> is_active (cm_status m) | None \<Rightarrow> False)
              (map (\<lambda>i. rg_assets r ! i) (rg_active_asset_indexes r))))"

record canonical_asset_detail =
  ad_asset :: canonical_asset
  ad_mappings :: "canonical_asset_chain_map list"

definition asset_detail :: "canonical_registry \<Rightarrow> string \<Rightarrow> canonical_asset_detail option" where
  "asset_detail r slug =
     (case rg_asset_by_slug r (to_ascii_lowercase slug) of
        None \<Rightarrow> None
      | Some i \<Rightarrow>
          let asset = rg_assets r ! i in
          if \<not> is_active (ca_status asset) then None
          else Some \<lparr>ad_asset = asset,
            ad_mappings = map (\<lambda>i. rg_mappings r ! i)
              (case rg_active_mapping_indexes_by_asset r (ca_slug asset) of None \<Rightarrow> [] | Some is \<Rightarrow> is)\<rparr>)"

record canonical_balance_target =
  bt_requested_asset_slug :: string
  bt_network :: "canonical_network option"
  bt_asset :: "canonical_asset option"
  bt_mapping :: "canonical_asset_chain_map option"

definition ordered_balance_targets ::
  "canonical_registry \<Rightarrow> string \<Rightarrow> string list \<Rightarrow> canonical_balance_target list" where
  "ordered_balance_targets r network_slug requested_asset_slugs =
     (let network = active_network r network_slug in
      map (\<lambda>requested.
        let asset = (case asset_by_slug r requested of
              Some asset \<Rightarrow> if is_active (ca_status asset) then Some asset else None
            | None \<Rightarrow> None)
        in \<lparr>bt_requested_asset_slug = requested, bt_network = network, bt_asset = asset,
            bt_mapping =
              (case (network, asset) of
                 (Some network, Some asset) \<Rightarrow>
                   (case mapping_for r (ca_slug asset) (cn_slug network) of
                      Some m \<Rightarrow> if is_active (cm_status m) then Some m else None
                    | None \<Rightarrow> None)
               | _ \<Rightarrow> None)\<rparr>) requested_asset_slugs)"

record canonical_erc20_metadata =
  em_asset :: canonical_asset
  em_network :: canonical_network
  em_mapping :: canonical_asset_chain_map

definition erc20_metadata ::
  "canonical_registry \<Rightarrow> string \<Rightarrow> string \<Rightarrow> canonical_erc20_metadata option" where
  "erc20_metadata r network_slug contract_address =
     (case rg_erc20_by_network_address r
             (to_ascii_lowercase network_slug, to_ascii_lowercase contract_address) of
        None \<Rightarrow> None
      | Some i \<Rightarrow>
          let m = rg_mappings r ! i in
          (case (asset_by_slug r (cm_asset_slug m), network_by_slug r (cm_network_slug m)) of
             (Some asset, Some network) \<Rightarrow> Some \<lparr>em_asset = asset, em_network = network, em_mapping = m\<rparr>
           | _ \<Rightarrow> None))"

section \<open>Valid catalogs\<close>

lemma require_Ok [simp, result_rules]: "require b v = Ok u \<longleftrightarrow> b"
  by (simp add: require_def)

definition valid_status :: "string \<Rightarrow> bool" where
  "valid_status s \<longleftrightarrow> s \<in> {''active'', ''inactive'', ''deprecated'', ''hidden'', ''pending'', ''unsupported'',
     ''archived''}"

definition valid_asset :: "canonical_asset \<Rightarrow> bool" where
  "valid_asset a \<longleftrightarrow>
     is_asset_slug (ca_slug a) \<and> trim (ca_symbol a) \<noteq> [] \<and> trim (ca_name a) \<noteq> [] \<and>
     trim (ca_asset_kind a) \<noteq> [] \<and> (\<forall>category. ca_category a = Some category \<longrightarrow> trim category \<noteq> []) \<and>
     ca_canonical_path a = ''/assets/'' @ ca_slug a \<and> valid_status (ca_status a) \<and> 0 \<le> ca_sort_order a \<and>
     distinct (ca_aliases a) \<and>
     (\<forall>x\<in>set (ca_aliases a). x \<noteq> [] \<and> trim x = x \<and> to_ascii_lowercase x = x) \<and>
     is_object (ca_metadata a)"

definition valid_network :: "canonical_network \<Rightarrow> bool" where
  "valid_network n \<longleftrightarrow>
     is_asset_slug (cn_slug n) \<and> trim (cn_name n) \<noteq> [] \<and> trim (cn_family n) \<noteq> [] \<and>
     valid_status (cn_status n) \<and> 0 \<le> cn_sort_order n \<and> is_object (cn_metadata n) \<and>
     (\<forall>caip2. cn_caip2 n = Some caip2 \<longrightarrow> caip2_valid caip2) \<and>
     (if cn_family n = ''evm''
      then \<exists>chain_id>0. cn_chain_id n = Some chain_id \<and> cn_caip2 n = Some (''eip155:'' @ show_nat (nat chain_id))
      else cn_chain_id n = None)"

definition valid_deployment :: "canonical_network \<Rightarrow> canonical_asset_chain_map \<Rightarrow> bool" where
  "valid_deployment n m \<longleftrightarrow>
     (if cm_is_native m
      then cm_deployment_address m = None \<and> cm_deployment_block m = None \<and> cm_token_standard m = ''native''
      else trim (cm_token_standard m) \<noteq> [] \<and> cm_token_standard m \<noteq> ''native'' \<and>
        (\<exists>address. cm_deployment_address m = Some address \<and> trim address \<noteq> [] \<and>
           to_ascii_lowercase address = address \<and>
           (cm_token_standard m = ''erc20'' \<longrightarrow>
              cn_family n = ''evm'' \<and> is_evm_address address \<and> cm_deployment_block m \<noteq> None)) \<and>
        (\<forall>b. cm_deployment_block m = Some b \<longrightarrow> 0 \<le> b))"

definition valid_mapping :: "canonical_network \<Rightarrow> canonical_asset_chain_map \<Rightarrow> bool" where
  "valid_mapping n m \<longleftrightarrow> (\<exists>d. cm_decimals m = Some d \<and> 0 \<le> d \<and> d \<le> 255) \<and> valid_deployment n m"

lemma validate_aliases_Ok:
  "validate_aliases_from seen s as = Ok () \<longleftrightarrow>
     distinct as \<and> set as \<inter> seen = {} \<and> (\<forall>x\<in>set as. x \<noteq> [] \<and> trim x = x \<and> to_ascii_lowercase x = x)"
  by (induction as arbitrary: seen) (auto split: if_splits)

lemma validate_asset_Ok: "validate_asset a = Ok () \<longleftrightarrow> valid_asset a"
  by (cases "ca_category a")
     (simp_all add: validate_asset_def valid_asset_def validate_slug_def validate_non_empty_def
      validate_status_def validate_sort_order_def validate_aliases_def validate_metadata_def valid_status_def
      validate_aliases_Ok and_then_Ok_iff not_less conj_assoc)

lemma validate_network_Ok: "validate_network n = Ok () \<longleftrightarrow> valid_network n"
  by (auto simp: validate_network_def valid_network_def validate_slug_def validate_non_empty_def
      validate_status_def validate_sort_order_def validate_metadata_def valid_status_def Let_def
      and_then_Ok_iff split: option.splits if_splits)

lemma validate_mapping_Ok: "validate_mapping m n = Ok () \<longleftrightarrow> valid_mapping n m"
  by (cases "cm_deployment_address m"; cases "cm_deployment_block m"; cases "cm_token_standard m = ''erc20''")
     (auto simp: validate_mapping_def valid_mapping_def valid_deployment_def validate_non_empty_def Let_def
      and_then_Ok_iff ok_or_Ok_iff split: if_splits)

lemma asset_fold_Ok:
  "try_fold asset_step seen as = Ok slugs \<longleftrightarrow>
     (\<forall>a\<in>set as. valid_asset a) \<and> distinct (map ca_slug as) \<and> ca_slug ` set as \<inter> seen = {} \<and>
     slugs = ca_slug ` set as \<union> seen"
  by (induction as arbitrary: seen)
     (auto simp: asset_step_def and_then_Ok_iff validate_asset_Ok)

lemma network_fold_Ok:
  "try_fold network_step nets ns = Ok nets' \<longleftrightarrow>
     (\<forall>n\<in>set ns. valid_network n) \<and> distinct (map cn_slug ns) \<and> (\<forall>n\<in>set ns. nets (cn_slug n) = None) \<and>
     nets' = (\<lambda>s. case find (\<lambda>n. cn_slug n = s) ns of Some n \<Rightarrow> Some n | None \<Rightarrow> nets s)"
proof (induction ns arbitrary: nets)
  case (Cons n ns)
  let ?nets = "nets(cn_slug n \<mapsto> n)"
  have step: "try_fold network_step nets (n # ns) = Ok nets' \<longleftrightarrow>
      valid_network n \<and> nets (cn_slug n) = None \<and> try_fold network_step ?nets ns = Ok nets'"
    by (simp add: network_step_def and_then_Ok_iff validate_network_Ok)
  show ?case
  proof (cases "cn_slug n \<in> cn_slug ` set ns")
    case True
    then obtain m where "m \<in> set ns" "?nets (cn_slug m) \<noteq> None" by (metis fun_upd_same image_iff option.discI)
    then have "\<not> (\<forall>m\<in>set ns. ?nets (cn_slug m) = None)" by meson
    then show ?thesis unfolding step Cons.IH[of ?nets] using True by simp
  next
    case False
    then have "(\<lambda>s. case find (\<lambda>n. cn_slug n = s) ns of Some n \<Rightarrow> Some n | None \<Rightarrow> ?nets s) =
      (\<lambda>s. case find (\<lambda>n. cn_slug n = s) (n # ns) of Some n \<Rightarrow> Some n | None \<Rightarrow> nets s)"
      using find_image_None[of cn_slug "cn_slug n" ns] by (auto simp: fun_eq_iff split: option.split)
    moreover have "(\<forall>m\<in>set ns. ?nets (cn_slug m) = None) \<longleftrightarrow> (\<forall>m\<in>set ns. nets (cn_slug m) = None)"
      using False by (metis fun_upd_other image_eqI)
    ultimately show ?thesis unfolding step Cons.IH[of ?nets] using False by auto
  qed
qed auto

text \<open>The loop over the aliases: an alias is not the slug of another asset and belongs to one asset only.\<close>

definition alias_pairs :: "canonical_asset list \<Rightarrow> (string \<times> string) list" where
  "alias_pairs assets = concat (map (\<lambda>a. map (\<lambda>x. (x, ca_slug a)) (ca_aliases a)) assets)"

lemma alias_fold_inner:
  "try_fold (alias_step slugs slug) al as =
     try_fold (\<lambda>al (x, s). alias_step slugs s al x) al (map (\<lambda>x. (x, slug)) as)"
proof (induction as arbitrary: al)
  case (Cons x as)
  then show ?case by (cases "alias_step slugs slug al x") auto
qed simp

lemma alias_fold_outer:
  "try_fold (\<lambda>al a. try_fold (alias_step slugs (ca_slug a)) al (ca_aliases a)) al assets =
     try_fold (\<lambda>al (x, s). alias_step slugs s al x) al (alias_pairs assets)"
proof (induction assets arbitrary: al)
  case (Cons a assets)
  then show ?case
    by (cases "try_fold (alias_step slugs (ca_slug a)) al (ca_aliases a)")
       (simp_all add: alias_pairs_def try_fold_append alias_fold_inner)
qed (simp add: alias_pairs_def)

lemma single_valued_insert:
  "single_valued (insert (x, s) R) \<longleftrightarrow> single_valued R \<and> (\<forall>t. (x, t) \<in> R \<longrightarrow> t = s)"
  by (auto simp: single_valued_def)

lemma alias_fold_Ok:
  "is_ok (try_fold (\<lambda>al (x, s). alias_step slugs s al x) al ps) \<longleftrightarrow>
     (\<forall>(x, s)\<in>set ps. x = s \<or> x \<notin> slugs) \<and> single_valued (set ps) \<and>
     (\<forall>(x, s)\<in>set ps. al x \<in> {None, Some s})"
proof (induction ps arbitrary: al)
  case (Cons p ps)
  obtain x s where p: "p = (x, s)" by (cases p)
  have step: "is_ok (try_fold (\<lambda>al (x, s). alias_step slugs s al x) al (p # ps)) \<longleftrightarrow>
      (x = s \<or> x \<notin> slugs) \<and> al x \<in> {None, Some s} \<and>
      is_ok (try_fold (\<lambda>al (x, s). alias_step slugs s al x) (al(x \<mapsto> s)) ps)"
    by (cases "al x") (auto simp: p alias_step_def require_def)
  let ?T = "\<forall>t. (x, t) \<in> set ps \<longrightarrow> t = s" and ?X = "al x \<in> {None, Some s}"
  let ?V = "\<forall>(y, t)\<in>set ps. y \<noteq> x \<longrightarrow> al y \<in> {None, Some t}"
  have u: "(\<forall>(y, t)\<in>set ps. (al(x \<mapsto> s)) y \<in> {None, Some t}) \<longleftrightarrow> ?T \<and> ?V"
    by (auto simp: Ball_def)
  have w: "(?T \<and> ?X \<and> ?V) \<longleftrightarrow> (?T \<and> ?X \<and> (\<forall>(y, t)\<in>set ps. al y \<in> {None, Some t}))"
    by fastforce
  have taut: "(P \<and> X \<and> A \<and> S \<and> T \<and> V) \<longleftrightarrow> (P \<and> A) \<and> (S \<and> T) \<and> (X \<and> W)"
    if "(T \<and> X \<and> V) \<longleftrightarrow> (T \<and> X \<and> W)" for P X A S T V W
    using that by auto
  show ?case
    unfolding p step[unfolded p] Cons.IH u list.set ball_simps(7) prod.case single_valued_insert by (rule taut[OF w])
qed (simp add: single_valued_def)

text \<open>The loop over the mappings.\<close>

definition native_of :: "canonical_asset_chain_map \<Rightarrow> string option" where
  "native_of m = (if is_active (cm_status m) \<and> cm_is_native m then Some (cm_network_slug m) else None)"

definition address_of :: "canonical_asset_chain_map \<Rightarrow> (string \<times> string) option" where
  "address_of m =
     (if is_active (cm_status m) then map_option (Pair (cm_network_slug m)) (cm_deployment_address m) else None)"

definition identity_of :: "canonical_asset_chain_map \<Rightarrow> string \<times> string" where
  "identity_of m = (cm_asset_slug m, cm_network_slug m)"

definition mapping_ok ::
  "string set \<Rightarrow> (string \<Rightarrow> canonical_network option) \<Rightarrow> canonical_asset_chain_map \<Rightarrow> bool" where
  "mapping_ok slugs networks m \<longleftrightarrow>
     is_asset_slug (cm_asset_slug m) \<and> is_asset_slug (cm_network_slug m) \<and> valid_status (cm_status m) \<and>
     0 \<le> cm_sort_order m \<and> is_object (cm_metadata m) \<and> cm_asset_slug m \<in> slugs \<and>
     (\<exists>network. networks (cm_network_slug m) = Some network \<and> valid_mapping network m)"

lemma check_address_Ok:
  assumes "ms_active_erc20_addresses s \<subseteq> ms_active_network_addresses s" "is_active (cm_status m)"
  shows "check_address s m = Ok s' \<longleftrightarrow>
     (case address_of m of
        None \<Rightarrow> s' = s
      | Some key \<Rightarrow> key \<notin> ms_active_network_addresses s \<and>
          s' = s\<lparr>ms_active_network_addresses := insert key (ms_active_network_addresses s),
            ms_active_erc20_addresses :=
              (if cm_token_standard m = ''erc20'' then insert key (ms_active_erc20_addresses s)
               else ms_active_erc20_addresses s)\<rparr>)"
  using assms
  by (auto simp: check_address_def address_of_def and_then_Ok_iff Let_def split: option.splits)

text \<open>The state after a mapping that passes.\<close>

definition add_mapping :: "mapping_sets \<Rightarrow> canonical_asset_chain_map \<Rightarrow> mapping_sets" where
  "add_mapping s m =
     \<lparr>ms_mapping_keys = insert (identity_of m) (ms_mapping_keys s),
      ms_active_native_networks = set_option (native_of m) \<union> ms_active_native_networks s,
      ms_active_network_addresses = set_option (address_of m) \<union> ms_active_network_addresses s,
      ms_active_erc20_addresses =
        (if cm_token_standard m = ''erc20'' then set_option (address_of m) else {}) \<union> ms_active_erc20_addresses s\<rparr>"

lemma mapping_step_Ok:
  assumes "ms_active_erc20_addresses s \<subseteq> ms_active_network_addresses s"
  shows "mapping_step slugs networks s m = Ok s' \<longleftrightarrow>
    mapping_ok slugs networks m \<and> identity_of m \<notin> ms_mapping_keys s \<and>
    set_option (native_of m) \<inter> ms_active_native_networks s = {} \<and>
    set_option (address_of m) \<inter> ms_active_network_addresses s = {} \<and> s' = add_mapping s m"
proof (cases "is_active (cm_status m)")
  case True
  let ?s = "s\<lparr>ms_mapping_keys := insert (identity_of m) (ms_mapping_keys s),
    ms_active_native_networks := set_option (native_of m) \<union> ms_active_native_networks s\<rparr>"
  have s: "ms_active_erc20_addresses ?s \<subseteq> ms_active_network_addresses ?s" using assms by simp
  have "mapping_step slugs networks s m = Ok s' \<longleftrightarrow>
      mapping_ok slugs networks m \<and> identity_of m \<notin> ms_mapping_keys s \<and>
      set_option (native_of m) \<inter> ms_active_native_networks s = {} \<and> check_address ?s m = Ok s'"
    using True
    by (auto simp: mapping_step_def mapping_ok_def and_then_Ok_iff ok_or_Ok_iff Let_def validate_slug_def
        validate_status_def validate_sort_order_def validate_metadata_def valid_status_def validate_mapping_Ok
        native_of_def identity_of_def)
  then show ?thesis
    unfolding check_address_Ok[OF s True]
    by (cases "address_of m"; cases s) (auto simp: add_mapping_def)
next
  case False
  then show ?thesis
    by (cases s) (auto simp: mapping_step_def mapping_ok_def and_then_Ok_iff ok_or_Ok_iff Let_def validate_slug_def
        validate_status_def validate_sort_order_def validate_metadata_def valid_status_def validate_mapping_Ok
        native_of_def identity_of_def address_of_def add_mapping_def)
qed

lemma distinct_map_filter_Cons:
  "distinct (List.map_filter f (x # xs)) \<longleftrightarrow>
     set_option (f x) \<inter> set (List.map_filter f xs) = {} \<and> distinct (List.map_filter f xs)"
  by (cases "f x") (simp_all add: map_filter_simps)

lemma set_map_filter_Cons:
  "set (List.map_filter f (x # xs)) = set_option (f x) \<union> set (List.map_filter f xs)"
  by (cases "f x") (simp_all add: map_filter_simps)

lemma mapping_fold_Ok:
  assumes "ms_active_erc20_addresses s \<subseteq> ms_active_network_addresses s"
  shows "is_ok (try_fold (mapping_step slugs networks) s ms) \<longleftrightarrow>
    (\<forall>m\<in>set ms. mapping_ok slugs networks m) \<and>
    distinct (map identity_of ms) \<and> identity_of ` set ms \<inter> ms_mapping_keys s = {} \<and>
    distinct (List.map_filter native_of ms) \<and> set (List.map_filter native_of ms) \<inter> ms_active_native_networks s = {} \<and>
    distinct (List.map_filter address_of ms) \<and> set (List.map_filter address_of ms) \<inter> ms_active_network_addresses s = {}"
  using assms
proof (induction ms arbitrary: s)
  case (Cons m ms)
  let ?s = "add_mapping s m"
  have s: "ms_active_erc20_addresses ?s \<subseteq> ms_active_network_addresses ?s"
    using Cons.prems by (auto simp: add_mapping_def)
  have "is_ok (try_fold (mapping_step slugs networks) s (m # ms)) \<longleftrightarrow>
      mapping_ok slugs networks m \<and> identity_of m \<notin> ms_mapping_keys s \<and>
      set_option (native_of m) \<inter> ms_active_native_networks s = {} \<and>
      set_option (address_of m) \<inter> ms_active_network_addresses s = {} \<and>
      is_ok (try_fold (mapping_step slugs networks) ?s ms)"
    using mapping_step_Ok[OF Cons.prems, of slugs networks m] by (auto simp: is_ok_iff and_then_Ok_iff)
  also have "\<dots> \<longleftrightarrow> (\<forall>m\<in>set (m # ms). mapping_ok slugs networks m) \<and>
    distinct (map identity_of (m # ms)) \<and> identity_of ` set (m # ms) \<inter> ms_mapping_keys s = {} \<and>
    distinct (List.map_filter native_of (m # ms)) \<and>
    set (List.map_filter native_of (m # ms)) \<inter> ms_active_native_networks s = {} \<and>
    distinct (List.map_filter address_of (m # ms)) \<and>
    set (List.map_filter address_of (m # ms)) \<inter> ms_active_network_addresses s = {}"
    unfolding Cons.IH[OF s] distinct_map_filter_Cons set_map_filter_Cons
    by (simp add: add_mapping_def Int_Un_distrib Int_Un_distrib2) blast
  finally show ?case .
qed (simp add: map_filter_simps)

text \<open>
  The declarative meaning of validation: the format of every row, the references between rows, and
  the uniqueness of slugs, aliases, identities, native assets and deployment addresses.
\<close>

definition declared_network :: "catalog \<Rightarrow> string \<Rightarrow> canonical_network option" where
  "declared_network c slug = find (\<lambda>n. cn_slug n = slug) (cat_networks c)"

definition valid_catalog :: "catalog \<Rightarrow> bool" where
  "valid_catalog c \<longleftrightarrow>
     cat_version c = CATALOG_VERSION \<and>
     (\<forall>a\<in>set (cat_assets c). valid_asset a) \<and> distinct (map ca_slug (cat_assets c)) \<and>
     (\<forall>(x, s)\<in>set (alias_pairs (cat_assets c)). x = s \<or> x \<notin> ca_slug ` set (cat_assets c)) \<and>
     single_valued (set (alias_pairs (cat_assets c))) \<and>
     (\<forall>n\<in>set (cat_networks c). valid_network n) \<and> distinct (map cn_slug (cat_networks c)) \<and>
     (\<forall>m\<in>set (cat_asset_chain_maps c). mapping_ok (ca_slug ` set (cat_assets c)) (declared_network c) m) \<and>
     distinct (map identity_of (cat_asset_chain_maps c)) \<and>
     distinct (List.map_filter native_of (cat_asset_chain_maps c)) \<and>
     distinct (List.map_filter address_of (cat_asset_chain_maps c))"

lemma validate_catalog_Ok: "validate_catalog c = Ok () \<longleftrightarrow> valid_catalog c"
proof -
  have n: "(\<lambda>s. case find (\<lambda>n. cn_slug n = s) ns of Some n \<Rightarrow> Some n | None \<Rightarrow> None) =
      (\<lambda>s. find (\<lambda>n. cn_slug n = s) ns)" for ns
    by (auto split: option.split)
  have ok: "(\<exists>x. r = Ok x) \<longleftrightarrow> is_ok r" for r :: "('x, 'y) result" by (simp add: is_ok_iff)
  show ?thesis
    unfolding validate_catalog_def valid_catalog_def declared_network_def
    by (simp add: and_then_Ok_iff alias_fold_outer asset_fold_Ok network_fold_Ok n ok alias_fold_Ok mapping_fold_Ok)
qed

section \<open>The indexes\<close>

lemma valid_catalog_rows:
  assumes "valid_catalog c"
  shows "distinct (map ca_slug (cat_assets c))" "distinct (map cn_slug (cat_networks c))"
    "distinct (map identity_of (cat_asset_chain_maps c))"
    "distinct (List.map_filter native_of (cat_asset_chain_maps c))"
    "distinct (List.map_filter address_of (cat_asset_chain_maps c))"
    "\<And>a. a \<in> set (cat_assets c) \<Longrightarrow> valid_asset a"
    "\<And>n. n \<in> set (cat_networks c) \<Longrightarrow> valid_network n"
    "\<And>m. m \<in> set (cat_asset_chain_maps c) \<Longrightarrow> mapping_ok (ca_slug ` set (cat_assets c)) (declared_network c) m"
  using assms by (simp_all add: valid_catalog_def)

lemma index_by_nth:
  assumes "distinct (map key xs)" "x \<in> set xs"
  shows "\<exists>i. index_by key xs (key x) = Some i \<and> xs ! i = x"
  using assms index_by_iff[OF assms(1)] by (metis in_set_conv_nth)

lemma index_by_lookup:
  assumes "distinct (map key xs)"
  shows "map_option (\<lambda>i. xs ! i) (index_by key xs k) = Some x \<longleftrightarrow> x \<in> set xs \<and> key x = k"
proof
  assume "map_option (\<lambda>i. xs ! i) (index_by key xs k) = Some x"
  then show "x \<in> set xs \<and> key x = k" using index_by_Some[of key xs k] by auto
next
  assume "x \<in> set xs \<and> key x = k"
  then show "map_option (\<lambda>i. xs ! i) (index_by key xs k) = Some x"
    using index_by_nth[OF assms, of x] by auto
qed

lemma asset_slug_lower: "is_asset_slug s \<Longrightarrow> to_ascii_lowercase s = s"
  by (rule to_ascii_lowercase_id)
     (auto simp: is_asset_slug_def list_all_iff is_ascii_lowercase_def is_ascii_digit_def)

lemma mapping_references:
  assumes "valid_catalog c" "m \<in> set (cat_asset_chain_maps c)"
  obtains a n where "a \<in> set (cat_assets c)" "ca_slug a = cm_asset_slug m"
    "n \<in> set (cat_networks c)" "cn_slug n = cm_network_slug m" "valid_mapping n m"
    "valid_asset a" "valid_network n"
proof -
  have ok: "mapping_ok (ca_slug ` set (cat_assets c)) (declared_network c) m"
    using valid_catalog_rows(8)[OF assms] .
  then obtain a where a: "a \<in> set (cat_assets c)" "ca_slug a = cm_asset_slug m"
    by (auto simp: mapping_ok_def)
  from ok obtain n where n: "find (\<lambda>n. cn_slug n = cm_network_slug m) (cat_networks c) = Some n" "valid_mapping n m"
    by (auto simp: mapping_ok_def declared_network_def)
  from find_SomeD[OF n(1)] n(2) a that valid_catalog_rows(6,7)[OF assms(1)] show ?thesis by blast
qed

text \<open>A mapping is live when it, its asset and its network are active.\<close>

definition live :: "catalog \<Rightarrow> canonical_asset_chain_map \<Rightarrow> bool" where
  "live c m \<longleftrightarrow> is_active (cm_status m) \<and>
     (\<exists>a\<in>set (cat_assets c). ca_slug a = cm_asset_slug m \<and> is_active (ca_status a)) \<and>
     (\<exists>n\<in>set (cat_networks c). cn_slug n = cm_network_slug m \<and> is_active (cn_status n))"

definition add_live ::
  "(string \<Rightarrow> nat list option) \<times> (string \<times> string \<Rightarrow> nat option) \<Rightarrow> nat \<times> canonical_asset_chain_map \<Rightarrow>
   (string \<Rightarrow> nat list option) \<times> (string \<times> string \<Rightarrow> nat option)" where
  "add_live acc x =
     ((fst acc)(cm_asset_slug (snd x) \<mapsto>
        (case fst acc (cm_asset_slug (snd x)) of None \<Rightarrow> [] | Some is \<Rightarrow> is) @ [fst x]),
      if cm_token_standard (snd x) = ''erc20''
      then (snd acc)((cm_network_slug (snd x), the (cm_deployment_address (snd x))) \<mapsto> fst x) else snd acc)"

lemma live_rows:
  assumes "valid_catalog c" "m \<in> set (cat_asset_chain_maps c)"
  shows "\<exists>ai ni. index_by ca_slug (cat_assets c) (cm_asset_slug m) = Some ai \<and>
    index_by cn_slug (cat_networks c) (cm_network_slug m) = Some ni \<and>
    (live c m \<longleftrightarrow> is_active (cm_status m) \<and> is_active (ca_status (cat_assets c ! ai)) \<and>
       is_active (cn_status (cat_networks c ! ni)))"
proof -
  obtain a n where an: "a \<in> set (cat_assets c)" "ca_slug a = cm_asset_slug m"
    "n \<in> set (cat_networks c)" "cn_slug n = cm_network_slug m"
    by (rule mapping_references[OF assms])
  obtain ai ni where i: "index_by ca_slug (cat_assets c) (cm_asset_slug m) = Some ai" "cat_assets c ! ai = a"
    "index_by cn_slug (cat_networks c) (cm_network_slug m) = Some ni" "cat_networks c ! ni = n"
    using index_by_nth[OF valid_catalog_rows(1)[OF assms(1)] an(1)]
      index_by_nth[OF valid_catalog_rows(2)[OF assms(1)] an(3)] an(2,4) by auto
  have "live c m \<longleftrightarrow> is_active (cm_status m) \<and> is_active (ca_status a) \<and> is_active (cn_status n)"
    unfolding live_def
    using an distinct_map_eq[OF valid_catalog_rows(1)[OF assms(1)]]
      distinct_map_eq[OF valid_catalog_rows(2)[OF assms(1)]] by metis
  then show ?thesis using i by blast
qed

lemma live_erc20_address:
  assumes "valid_catalog c" "m \<in> set (cat_asset_chain_maps c)" "cm_token_standard m = ''erc20''"
  shows "\<exists>address. cm_deployment_address m = Some address \<and> to_ascii_lowercase address = address \<and>
    is_evm_address address \<and> \<not> cm_is_native m"
proof -
  obtain n where "valid_mapping n m" by (rule mapping_references[OF assms(1,2)])
  then show ?thesis using assms(3) by (auto simp: valid_mapping_def valid_deployment_def split: if_splits)
qed

lemma index_mappings_eq:
  assumes "valid_catalog c" "snd ` set xs \<subseteq> set (cat_asset_chain_maps c)"
  shows "index_mappings c (index_by ca_slug (cat_assets c)) (index_by cn_slug (cat_networks c)) acc xs =
    Some (foldl add_live acc (filter (\<lambda>x. live c (snd x)) xs))"
  using assms(2)
proof (induction xs arbitrary: acc)
  case (Cons x xs)
  obtain i m where x: "x = (i, m)" by (cases x)
  obtain active erc20 where acc: "acc = (active, erc20)" by (cases acc)
  have m: "m \<in> set (cat_asset_chain_maps c)" using Cons.prems by (simp add: x)
  obtain ai ni where l: "index_by ca_slug (cat_assets c) (cm_asset_slug m) = Some ai"
    "index_by cn_slug (cat_networks c) (cm_network_slug m) = Some ni"
    "live c m \<longleftrightarrow> is_active (cm_status m) \<and> is_active (ca_status (cat_assets c ! ai)) \<and>
       is_active (cn_status (cat_networks c ! ni))"
    using live_rows[OF assms(1) m] by blast
  show ?case
  proof (cases "cm_token_standard m = ''erc20''")
    case True
    then obtain address where "cm_deployment_address m = Some address"
      using live_erc20_address[OF assms(1) m] by blast
    then show ?thesis using True l Cons.prems
      by (cases "live c m") (auto simp: x acc Let_def add_live_def Cons.IH)
  next
    case False
    then show ?thesis using l Cons.prems by (cases "live c m") (auto simp: x acc Let_def add_live_def Cons.IH)
  qed
qed simp

lemma from_catalog_valid:
  assumes "valid_catalog c"
  shows "from_catalog c = Some (Ok
    \<lparr>rg_assets = cat_assets c, rg_networks = cat_networks c, rg_mappings = cat_asset_chain_maps c,
     rg_asset_by_slug = index_by ca_slug (cat_assets c),
     rg_asset_by_alias = foldl (\<lambda>m (i, asset). foldl (\<lambda>m a. m(a \<mapsto> i)) m (ca_aliases asset))
       Map.empty (enumerate 0 (cat_assets c)),
     rg_network_by_slug = index_by cn_slug (cat_networks c),
     rg_mapping_by_identity = index_by (\<lambda>m. (cm_asset_slug m, cm_network_slug m)) (cat_asset_chain_maps c),
     rg_erc20_by_network_address = snd (foldl add_live (Map.empty, Map.empty)
       (filter (\<lambda>x. live c (snd x)) (enumerate 0 (cat_asset_chain_maps c)))),
     rg_active_asset_indexes =
       sort_by (\<lambda>l r. asset_order (cat_assets c ! l) (cat_assets c ! r))
         (map fst (filter (\<lambda>(i, asset). is_active (ca_status asset)) (enumerate 0 (cat_assets c)))),
     rg_active_mapping_indexes_by_asset =
       (\<lambda>slug. map_option
         (sort_by (\<lambda>l r. mapping_order (cat_asset_chain_maps c ! l) (cat_asset_chain_maps c ! r)))
         (fst (foldl add_live (Map.empty, Map.empty)
           (filter (\<lambda>x. live c (snd x)) (enumerate 0 (cat_asset_chain_maps c)))) slug))\<rparr>)"
proof -
  have "snd ` set (enumerate 0 (cat_asset_chain_maps c)) \<subseteq> set (cat_asset_chain_maps c)"
    by (auto simp: in_set_enumerate_eq)
  from index_mappings_eq[OF assms this, of "(Map.empty, Map.empty)"] show ?thesis
    using validate_catalog_Ok[of c] assms by (simp add: from_catalog_def Let_def split: prod.split)
qed

lemma from_catalog_cases:
  "(\<exists>e. from_catalog c = Some (Err e)) \<and> \<not> valid_catalog c \<or>
   (\<exists>r. from_catalog c = Some (Ok r)) \<and> valid_catalog c"
proof (cases "valid_catalog c")
  case False
  then obtain e where "validate_catalog c = Err e" using validate_catalog_Ok[of c] by (cases "validate_catalog c") auto
  then show ?thesis using False by (simp add: from_catalog_def)
qed (simp add: from_catalog_valid)

text \<open>The rows of a registry that was built from a catalog, and its lookups.\<close>

lemma registry_fields:
  assumes "from_catalog c = Some (Ok r)"
  shows "valid_catalog c" "rg_assets r = cat_assets c" "rg_networks r = cat_networks c"
    "rg_mappings r = cat_asset_chain_maps c" "rg_asset_by_slug r = index_by ca_slug (cat_assets c)"
    "rg_network_by_slug r = index_by cn_slug (cat_networks c)"
    "rg_mapping_by_identity r = index_by identity_of (cat_asset_chain_maps c)"
    "rg_erc20_by_network_address r = snd (foldl add_live (Map.empty, Map.empty)
       (filter (\<lambda>x. live c (snd x)) (enumerate 0 (cat_asset_chain_maps c))))"
    "rg_active_asset_indexes r =
       sort_by (\<lambda>l r. asset_order (cat_assets c ! l) (cat_assets c ! r))
         (map fst (filter (\<lambda>(i, asset). is_active (ca_status asset)) (enumerate 0 (cat_assets c))))"
proof -
  show v: "valid_catalog c" using from_catalog_cases[of c] assms by auto
  have "identity_of = (\<lambda>m. (cm_asset_slug m, cm_network_slug m))" by (auto simp: identity_of_def)
  with assms[unfolded from_catalog_valid[OF v]]
  show "rg_assets r = cat_assets c" "rg_networks r = cat_networks c"
    "rg_mappings r = cat_asset_chain_maps c" "rg_asset_by_slug r = index_by ca_slug (cat_assets c)"
    "rg_network_by_slug r = index_by cn_slug (cat_networks c)"
    "rg_mapping_by_identity r = index_by identity_of (cat_asset_chain_maps c)"
    "rg_erc20_by_network_address r = snd (foldl add_live (Map.empty, Map.empty)
       (filter (\<lambda>x. live c (snd x)) (enumerate 0 (cat_asset_chain_maps c))))"
    "rg_active_asset_indexes r =
       sort_by (\<lambda>l r. asset_order (cat_assets c ! l) (cat_assets c ! r))
         (map fst (filter (\<lambda>(i, asset). is_active (ca_status asset)) (enumerate 0 (cat_assets c))))"
    by auto
qed

lemma asset_by_slug_iff:
  assumes "from_catalog c = Some (Ok r)"
  shows "asset_by_slug r s = Some a \<longleftrightarrow> a \<in> set (cat_assets c) \<and> ca_slug a = to_ascii_lowercase s"
  unfolding asset_by_slug_def registry_fields[OF assms]
  by (rule index_by_lookup[OF valid_catalog_rows(1)[OF registry_fields(1)[OF assms]]])

lemma network_by_slug_iff:
  assumes "from_catalog c = Some (Ok r)"
  shows "network_by_slug r s = Some n \<longleftrightarrow> n \<in> set (cat_networks c) \<and> cn_slug n = to_ascii_lowercase s"
  unfolding network_by_slug_def registry_fields[OF assms]
  by (rule index_by_lookup[OF valid_catalog_rows(2)[OF registry_fields(1)[OF assms]]])

lemma mapping_for_iff:
  assumes "from_catalog c = Some (Ok r)"
  shows "mapping_for r a n = Some m \<longleftrightarrow> m \<in> set (cat_asset_chain_maps c) \<and>
    cm_asset_slug m = to_ascii_lowercase a \<and> cm_network_slug m = to_ascii_lowercase n"
  unfolding mapping_for_def registry_fields[OF assms]
    index_by_lookup[OF valid_catalog_rows(3)[OF registry_fields(1)[OF assms]]]
  by (auto simp: identity_of_def)

text \<open>The index of ERC-20 addresses.\<close>

definition erc20_key :: "canonical_asset_chain_map \<Rightarrow> (string \<times> string) option" where
  "erc20_key m = (if cm_token_standard m = ''erc20''
     then Some (cm_network_slug m, the (cm_deployment_address m)) else None)"

lemma in_map_filter: "y \<in> set (List.map_filter f xs) \<longleftrightarrow> (\<exists>x\<in>set xs. f x = Some y)"
  by (induction xs) (auto simp: map_filter_simps split: option.splits)

lemma map_filter_app: "List.map_filter f (xs @ ys) = List.map_filter f xs @ List.map_filter f ys"
  by (simp add: map_filter_def)

lemma distinct_map_filter_weaken:
  assumes "distinct (List.map_filter g xs)" "\<And>x y. x \<in> set xs \<Longrightarrow> P x \<Longrightarrow> f x = Some y \<Longrightarrow> g x = Some y"
  shows "distinct (List.map_filter f (filter P xs))"
  using assms
proof (induction xs)
  case (Cons x xs)
  note g = Cons.prems(1)[unfolded distinct_map_filter_Cons]
  have IH: "distinct (List.map_filter f (filter P xs))"
    using Cons.IH[OF g[THEN conjunct2]] Cons.prems(2) by simp
  show ?case
  proof (cases "P x \<and> f x \<noteq> None")
    case True
    then obtain y where y: "f x = Some y" "P x" by blast
    then have "y \<notin> set (List.map_filter g xs)" using g Cons.prems(2)[of x y] by auto
    then have "y \<notin> set (List.map_filter f (filter P xs))"
      using Cons.prems(2) by (auto simp: in_map_filter)
    with y IH show ?thesis by (simp add: map_filter_simps)
  next
    case False
    then show ?thesis using IH by (auto simp: map_filter_simps)
  qed
qed (simp add: map_filter_simps)

lemma map_snd_filter_enumerate: "map snd (filter (\<lambda>x. P (snd x)) (enumerate n xs)) = filter P xs"
  by (induction xs arbitrary: n) auto

lemma add_live_erc20:
  assumes "distinct (List.map_filter erc20_key (map snd xs))"
  shows "snd (foldl add_live (Map.empty, Map.empty) xs) key = Some i \<longleftrightarrow>
    (\<exists>m. (i, m) \<in> set xs \<and> erc20_key m = Some key)"
  using assms
proof (induction xs arbitrary: i rule: rev_induct)
  case (snoc x xs)
  obtain j m where x: "x = (j, m)" by (cases x)
  have ds: "distinct (List.map_filter erc20_key (map snd xs))"
    and fresh: "\<And>y. y \<in> set xs \<Longrightarrow> erc20_key (snd y) = Some k \<Longrightarrow> erc20_key m \<noteq> Some k" for k
    using snoc.prems by (force simp: x map_filter_app in_map_filter map_filter_simps)+
  show ?case
  proof (cases "erc20_key m = Some key")
    case True
    then have "snd (foldl add_live (Map.empty, Map.empty) (xs @ [x])) key = Some j"
      by (auto simp: x add_live_def erc20_key_def split: if_splits)
    moreover have "\<not> (\<exists>m. (i, m) \<in> set xs \<and> erc20_key m = Some key)" using True fresh[of _ key] by force
    ultimately show ?thesis using True by (auto simp: x)
  next
    case False
    then have "snd (foldl add_live (Map.empty, Map.empty) (xs @ [x])) key =
        snd (foldl add_live (Map.empty, Map.empty) xs) key"
      by (auto simp: x add_live_def erc20_key_def split: if_splits)
    then show ?thesis using False snoc.IH[OF ds] by (auto simp: x)
  qed
qed simp

lemma erc20_index_iff:
  assumes "from_catalog c = Some (Ok r)"
  shows "rg_erc20_by_network_address r key = Some i \<longleftrightarrow>
    i < length (cat_asset_chain_maps c) \<and> live c (cat_asset_chain_maps c ! i) \<and>
    erc20_key (cat_asset_chain_maps c ! i) = Some key"
proof -
  let ?ms = "cat_asset_chain_maps c"
  have v: "valid_catalog c" using registry_fields(1)[OF assms] .
  have "address_of m = Some y" if "m \<in> set ?ms" "live c m" "erc20_key m = Some y" for m y
  proof -
    have e: "cm_token_standard m = ''erc20''" "y = (cm_network_slug m, the (cm_deployment_address m))"
      using that(3) by (auto simp: erc20_key_def split: if_splits)
    with live_erc20_address[OF v that(1)] that(2) show ?thesis by (auto simp: address_of_def live_def)
  qed
  with valid_catalog_rows(5)[OF v] have "distinct (List.map_filter erc20_key (filter (live c) ?ms))"
    by (rule distinct_map_filter_weaken)
  then have "distinct (List.map_filter erc20_key (map snd (filter (\<lambda>x. live c (snd x)) (enumerate 0 ?ms))))"
    by (simp add: map_snd_filter_enumerate)
  from add_live_erc20[OF this, of key i] show ?thesis
    unfolding registry_fields(8)[OF assms] by (auto simp: in_set_enumerate_eq)
qed

lemma erc20_metadata_iff:
  assumes "from_catalog c = Some (Ok r)"
  shows "erc20_metadata r n address = Some md \<longleftrightarrow>
    em_mapping md \<in> set (cat_asset_chain_maps c) \<and> live c (em_mapping md) \<and>
    cm_token_standard (em_mapping md) = ''erc20'' \<and>
    cm_network_slug (em_mapping md) = to_ascii_lowercase n \<and>
    cm_deployment_address (em_mapping md) = Some (to_ascii_lowercase address) \<and>
    em_asset md \<in> set (cat_assets c) \<and> ca_slug (em_asset md) = cm_asset_slug (em_mapping md) \<and>
    em_network md \<in> set (cat_networks c) \<and> cn_slug (em_network md) = cm_network_slug (em_mapping md)"
  (is "?L \<longleftrightarrow> ?R")
proof -
  let ?ms = "cat_asset_chain_maps c" and ?key = "(to_ascii_lowercase n, to_ascii_lowercase address)"
  have v: "valid_catalog c" using registry_fields(1)[OF assms] .
  have lower: "to_ascii_lowercase (cm_asset_slug m) = cm_asset_slug m"
    "to_ascii_lowercase (cm_network_slug m) = cm_network_slug m" if "m \<in> set ?ms" for m
    using valid_catalog_rows(8)[OF v that] by (auto simp: mapping_ok_def intro: asset_slug_lower)
  have key: "erc20_key m = Some ?key \<longleftrightarrow> cm_token_standard m = ''erc20'' \<and>
      cm_network_slug m = to_ascii_lowercase n \<and> cm_deployment_address m = Some (to_ascii_lowercase address)"
    if "m \<in> set ?ms" for m
    using live_erc20_address[OF v that] by (auto simp: erc20_key_def)
  show ?thesis
  proof
    assume L: ?L
    then obtain i where i: "rg_erc20_by_network_address r ?key = Some i"
      by (auto simp: erc20_metadata_def split: option.splits)
    note props = i[unfolded erc20_index_iff[OF assms]]
    then have m: "?ms ! i \<in> set ?ms" by simp
    from L i have "em_mapping md = ?ms ! i" "asset_by_slug r (cm_asset_slug (?ms ! i)) = Some (em_asset md)"
      "network_by_slug r (cm_network_slug (?ms ! i)) = Some (em_network md)"
      by (auto simp: erc20_metadata_def Let_def registry_fields(4)[OF assms] split: option.splits)
    with props m lower[OF m] key[OF m] show ?R
      by (simp add: asset_by_slug_iff[OF assms] network_by_slug_iff[OF assms])
  next
    assume R: ?R
    then have m: "em_mapping md \<in> set ?ms" by blast
    then obtain i where i: "i < length ?ms" "?ms ! i = em_mapping md" by (auto simp: in_set_conv_nth)
    have "rg_erc20_by_network_address r ?key = Some i"
      unfolding erc20_index_iff[OF assms] using R i key[OF m] by simp
    moreover have "asset_by_slug r (cm_asset_slug (em_mapping md)) = Some (em_asset md)"
      "network_by_slug r (cm_network_slug (em_mapping md)) = Some (em_network md)"
      using R lower[OF m] by (simp_all add: asset_by_slug_iff[OF assms] network_by_slug_iff[OF assms])
    ultimately show ?L
      by (cases md) (simp add: erc20_metadata_def Let_def registry_fields(4)[OF assms] i(2))
  qed
qed

section \<open>Properties\<close>

text \<open>
  C11. Validation accepts exactly the catalogs that satisfy the declarative conditions of
  \<open>valid_catalog\<close>: the four sets and two maps that the loops carry detect precisely the repeated
  slugs, aliases, identities, native assets and deployment addresses.
\<close>

theorem validate_catalog_exact: "validate_catalog c = Ok () \<longleftrightarrow> valid_catalog c"
  by (rule validate_catalog_Ok)

text \<open>
  Building the registry never panics: for every catalog the outcome is an error, exactly when
  the catalog is not valid, or a registry. The unchecked indexing of the hash maps and the
  \<open>expect\<close> on the deployment address are safe after validation.
\<close>

theorem registry_never_panics:
  "case from_catalog c of
     None \<Rightarrow> False
   | Some (Err e) \<Rightarrow> validate_catalog c = Err e \<and> \<not> valid_catalog c
   | Some (Ok r) \<Rightarrow> valid_catalog c"
proof (cases "validate_catalog c")
  case (Ok u)
  then show ?thesis using validate_catalog_Ok[of c] by (simp add: from_catalog_valid)
next
  case (Err e)
  then show ?thesis using validate_catalog_Ok[of c] by (auto simp: from_catalog_def)
qed

text \<open>
  C12. The lookups of the registry implement the queries on the rows of the catalog: an asset, a
  network or a mapping is found under exactly its slugs, and an ERC-20 contract under exactly the
  address of an active mapping of an active asset on an active network, up to ASCII case.
\<close>

theorem registry_lookups_exact:
  assumes "from_catalog c = Some (Ok r)"
  shows "(asset_by_slug r s = Some a \<longleftrightarrow> a \<in> set (cat_assets c) \<and> ca_slug a = to_ascii_lowercase s) \<and>
    (network_by_slug r s = Some n \<longleftrightarrow> n \<in> set (cat_networks c) \<and> cn_slug n = to_ascii_lowercase s) \<and>
    (mapping_for r s t = Some m \<longleftrightarrow> m \<in> set (cat_asset_chain_maps c) \<and>
       cm_asset_slug m = to_ascii_lowercase s \<and> cm_network_slug m = to_ascii_lowercase t) \<and>
    (erc20_metadata r t address = Some md \<longleftrightarrow>
       em_mapping md \<in> set (cat_asset_chain_maps c) \<and> live c (em_mapping md) \<and>
       cm_token_standard (em_mapping md) = ''erc20'' \<and>
       cm_network_slug (em_mapping md) = to_ascii_lowercase t \<and>
       cm_deployment_address (em_mapping md) = Some (to_ascii_lowercase address) \<and>
       em_asset md \<in> set (cat_assets c) \<and> ca_slug (em_asset md) = cm_asset_slug (em_mapping md) \<and>
       em_network md \<in> set (cat_networks c) \<and> cn_slug (em_network md) = cm_network_slug (em_mapping md))"
  using asset_by_slug_iff[OF assms] network_by_slug_iff[OF assms] mapping_for_iff[OF assms]
    erc20_metadata_iff[OF assms] by simp

definition example_usdc :: canonical_asset where
  "example_usdc = \<lparr>ca_slug = ''usdc'', ca_symbol = ''USDC'', ca_name = ''USD Coin'', ca_asset_kind = ''token'',
     ca_category = None, ca_canonical_path = ''/assets/usdc'', ca_aliases = [''usd-coin''],
     ca_metadata = JObject [], ca_status = ''active'', ca_sort_order = 2\<rparr>"

definition example_ether :: canonical_asset where
  "example_ether = \<lparr>ca_slug = ''ethereum'', ca_symbol = ''ETH'', ca_name = ''Ether'', ca_asset_kind = ''native'',
     ca_category = None, ca_canonical_path = ''/assets/ethereum'', ca_aliases = [''eth''],
     ca_metadata = JObject [], ca_status = ''active'', ca_sort_order = 1\<rparr>"

definition example_network :: canonical_network where
  "example_network = \<lparr>cn_slug = ''eth-mainnet'', cn_name = ''Ethereum Mainnet'', cn_family = ''evm'', cn_chain_id = Some 1,
     cn_caip2 = Some ''eip155:1'', cn_metadata = JObject [], cn_status = ''active'', cn_sort_order = 0\<rparr>"

definition example_native :: canonical_asset_chain_map where
  "example_native = \<lparr>cm_asset_slug = ''ethereum'', cm_network_slug = ''eth-mainnet'', cm_is_native = True,
     cm_deployment_address = None, cm_deployment_block = None, cm_decimals = Some 18,
     cm_token_standard = ''native'', cm_metadata = JObject [], cm_status = ''active'', cm_sort_order = 0\<rparr>"

definition example_address :: string where
  "example_address = ''0x'' @ replicate 40 CHR ''a''"

definition example_erc20 :: canonical_asset_chain_map where
  "example_erc20 = \<lparr>cm_asset_slug = ''usdc'', cm_network_slug = ''eth-mainnet'', cm_is_native = False,
     cm_deployment_address = Some example_address, cm_deployment_block = Some 7, cm_decimals = Some 6,
     cm_token_standard = ''erc20'', cm_metadata = JObject [], cm_status = ''active'', cm_sort_order = 1\<rparr>"

definition example_catalog :: catalog where
  "example_catalog = \<lparr>cat_version = 3, cat_assets = [example_ether, example_usdc],
     cat_networks = [example_network], cat_asset_chain_maps = [example_native, example_erc20]\<rparr>"

lemma example_trims:
  "trim ''ETH'' = ''ETH''" "trim ''Ether'' = ''Ether''" "trim ''native'' = ''native''" "trim ''eth'' = ''eth''"
  "trim ''USDC'' = ''USDC''" "trim ''USD Coin'' = ''USD Coin''" "trim ''token'' = ''token''"
  "trim ''usd-coin'' = ''usd-coin''" "trim ''Ethereum Mainnet'' = ''Ethereum Mainnet''" "trim ''evm'' = ''evm''" "trim ''erc20'' = ''erc20''"
  "trim example_address = example_address"
  by code_simp+

lemma example_valid: "valid_catalog example_catalog"
proof -
  have a: "valid_asset example_ether" "valid_asset example_usdc"
    by (simp_all add: valid_asset_def example_ether_def example_usdc_def example_trims is_asset_slug_def
        starts_with_def ends_with_def is_ascii_lowercase_def is_ascii_digit_def valid_status_def
        to_ascii_lowercase_def ascii_lower_def)
  have n: "valid_network example_network"
  proof -
    have "''eip155:'' @ show_nat (nat 1) = ''eip155:1''" "caip2_valid ''eip155:1''" by code_simp+
    then show ?thesis
      by (simp add: valid_network_def example_network_def example_trims is_asset_slug_def
          starts_with_def ends_with_def is_ascii_lowercase_def is_ascii_digit_def valid_status_def)
  qed
  have addr: "is_evm_address example_address" "to_ascii_lowercase example_address = example_address"
    "example_address \<noteq> []"
    by (simp_all add: is_evm_address_def example_address_def starts_with_def list_all_iff is_ascii_hexdigit_def
        to_ascii_lowercase_def ascii_lower_def)
  have m: "valid_mapping example_network example_native" "valid_mapping example_network example_erc20"
    using addr
    by (simp_all add: valid_mapping_def valid_deployment_def example_native_def example_erc20_def example_network_def
        example_trims)
  have ok: "mapping_ok {''ethereum'', ''usdc''} (declared_network example_catalog) m'"
    if "m' \<in> {example_native, example_erc20}" for m'
    using that m
    by (auto simp: mapping_ok_def declared_network_def example_catalog_def example_native_def example_erc20_def
        example_network_def is_asset_slug_def starts_with_def ends_with_def is_ascii_lowercase_def
        is_ascii_digit_def valid_status_def)
  show ?thesis
    using a n ok
    by (simp add: valid_catalog_def example_catalog_def CATALOG_VERSION_def alias_pairs_def single_valued_def
        map_filter_simps)
       (simp add: example_ether_def example_usdc_def example_native_def example_erc20_def
        native_of_def address_of_def identity_of_def is_active_def)
qed

theorem registry_lookups_exact_witness:
  "\<exists>r. from_catalog example_catalog = Some (Ok r) \<and>
     asset_by_slug r ''USDC'' = Some example_usdc \<and> network_by_slug r ''solana'' \<noteq> Some example_network"
proof -
  obtain r where r: "from_catalog example_catalog = Some (Ok r)" using from_catalog_valid[OF example_valid] by blast
  have l: "to_ascii_lowercase ''USDC'' = ''usdc''" "to_ascii_lowercase ''solana'' = ''solana''" by code_simp+
  have "asset_by_slug r ''USDC'' = Some example_usdc"
    by (rule registry_lookups_exact[OF r, THEN conjunct1, THEN iffD2])
       (simp add: l example_catalog_def, simp add: example_usdc_def)
  moreover have "network_by_slug r ''solana'' \<noteq> Some example_network"
    using registry_lookups_exact[OF r, THEN conjunct2, THEN conjunct1, of "''solana''" example_network]
    by (simp add: l) (simp add: example_network_def)
  ultimately show ?thesis using r by blast
qed

end
