(* ===== verification/Protocols.thy ===== *)
theory Protocols
  imports Registry
begin

text \<open>
  The registry of verified protocols (\<open>src/domain/verified_protocol_registry.rs\<close>, \<open>src/domain/defi.rs\<close>):
  declarations of realized-yield protocols are checked against the canonical registry and turned
  into protocols with a pool and reserves. Reading the JSON text is a parameter.
\<close>

section \<open>Data\<close>

definition PROTOCOLS_VERSION :: nat where
  "PROTOCOLS_VERSION = 1"

record realized_yield_reserve =
  ry_asset_slug :: string
  ry_asset_symbol :: string
  ry_underlying_asset_address :: string

record realized_yield_protocol =
  rp_slug :: string
  rp_network_slug :: string
  rp_chain_id :: int
  rp_adapter_kind :: string
  rp_adapter_version :: string
  rp_pool_address :: string
  rp_reserves :: "realized_yield_reserve list"

record protocol_target_declaration =
  td_key :: string
  td_kind :: string
  td_asset_slug :: "string option"
  td_address :: string
  td_enabled :: bool
  td_verified :: bool

record protocol_declaration =
  pd_slug :: string
  pd_network_slug :: string
  pd_family :: string
  pd_adapter_kind :: string
  pd_adapter_version :: string
  pd_enabled :: bool
  pd_verified :: bool
  pd_targets :: "protocol_target_declaration list"

record protocol_catalog =
  pc_version :: nat
  pc_protocols :: "protocol_declaration list"

datatype protocol_violation =
    UnsupportedProtocolVersion nat
  | DuplicateProtocol
  | ProtocolNotNormalized string string
  | FamilyRequired string
  | ProtocolNotVerified string
  | UnsupportedAdapter string string string
  | UnknownProtocolNetwork string string
  | Eip155Required string
  | DuplicateTargetKey string
  | TargetNotVerified string string
  | ExactlyOnePool string
  | ReserveWithoutAsset string string
  | ReserveKeyMismatch string
  | UnknownReserveAsset string string
  | ReserveNotMapped string string
  | ReserveAddressMismatch string string
  | UnsupportedTargetKind string string
  | NoPool string
  | NoReserves string

datatype verified_protocol_registry_error = ProtocolsParse string | ProtocolsInvalid protocol_violation

section \<open>Operations\<close>

definition demand :: "bool \<Rightarrow> protocol_violation \<Rightarrow> (unit, verified_protocol_registry_error) result" where
  "demand b v = (if b then Ok () else Err (ProtocolsInvalid v))"

definition compiled_adapter_supported :: "string \<Rightarrow> string \<Rightarrow> bool" where
  "compiled_adapter_supported kind version \<longleftrightarrow> (kind, version) = (''aave_v3_realized_yield'', ''v1'')"

definition protocol_validate_slug :: "string \<Rightarrow> string \<Rightarrow> (unit, verified_protocol_registry_error) result" where
  "protocol_validate_slug label slug = demand (is_asset_slug slug) (ProtocolNotNormalized label slug)"

definition is_lowercase_evm_address :: "string \<Rightarrow> bool" where
  "is_lowercase_evm_address s \<longleftrightarrow> is_evm_address s \<and> s = to_ascii_lowercase s"

text \<open>The mutable variables of the loop over the targets.\<close>

record target_state =
  tt_keys :: "string set"
  tt_pool :: "string option"
  tt_reserves :: "realized_yield_reserve list"

definition pool_target ::
  "protocol_declaration \<Rightarrow> target_state \<Rightarrow> protocol_target_declaration \<Rightarrow>
   (target_state, verified_protocol_registry_error) result" where
  "pool_target d s t =
     (if td_key t \<noteq> ''pool'' \<or> td_asset_slug t \<noteq> None \<or> tt_pool s \<noteq> None
      then Err (ProtocolsInvalid (ExactlyOnePool (pd_slug d)))
      else Ok (s\<lparr>tt_pool := Some (td_address t)\<rparr>))"

definition reserve_target ::
  "canonical_registry \<Rightarrow> protocol_declaration \<Rightarrow> target_state \<Rightarrow> protocol_target_declaration \<Rightarrow>
   (target_state, verified_protocol_registry_error) result" where
  "reserve_target r d s t =
     and_then (ok_or (td_asset_slug t) (ProtocolsInvalid (ReserveWithoutAsset (pd_slug d) (td_key t)))) (\<lambda>asset_slug.
     and_then (protocol_validate_slug ''reserve asset_slug'' asset_slug) (\<lambda>_.
     and_then (demand (td_key t = asset_slug) (ReserveKeyMismatch (pd_slug d))) (\<lambda>_.
     and_then (ok_or (do { a \<leftarrow> asset_by_slug r asset_slug; if ca_status a = ''active'' then Some a else None })
                 (ProtocolsInvalid (UnknownReserveAsset (pd_slug d) asset_slug))) (\<lambda>asset.
     and_then (ok_or (do { m \<leftarrow> mapping_for r asset_slug (pd_network_slug d);
                          if cm_status m = ''active'' then Some m else None })
                 (ProtocolsInvalid (ReserveNotMapped (pd_slug d) asset_slug))) (\<lambda>m.
     and_then (demand (cm_deployment_address m = Some (td_address t)) (ReserveAddressMismatch (pd_slug d) asset_slug)) (\<lambda>_.
     Ok (s\<lparr>tt_reserves := tt_reserves s @
       [\<lparr>ry_asset_slug = asset_slug, ry_asset_symbol = ca_symbol asset,
         ry_underlying_asset_address = td_address t\<rparr>]\<rparr>)))))))"

definition target_step ::
  "canonical_registry \<Rightarrow> protocol_declaration \<Rightarrow> target_state \<Rightarrow> protocol_target_declaration \<Rightarrow>
   (target_state, verified_protocol_registry_error) result" where
  "target_step r d s t =
     (if trim (td_key t) = [] \<or> td_key t \<in> tt_keys s then Err (ProtocolsInvalid (DuplicateTargetKey (pd_slug d)))
      else
        let s = s\<lparr>tt_keys := insert (td_key t) (tt_keys s)\<rparr> in
        if \<not> td_enabled t \<or> \<not> td_verified t \<or> \<not> is_lowercase_evm_address (td_address t)
        then Err (ProtocolsInvalid (TargetNotVerified (pd_slug d) (td_key t)))
        else if td_kind t = ''pool'' then pool_target d s t
        else if td_kind t = ''reserve'' then reserve_target r d s t
        else Err (ProtocolsInvalid (UnsupportedTargetKind (pd_slug d) (td_kind t))))"

definition materialize_protocol ::
  "canonical_registry \<Rightarrow> protocol_declaration \<Rightarrow> (realized_yield_protocol, verified_protocol_registry_error) result" where
  "materialize_protocol r d =
     and_then (protocol_validate_slug ''protocol slug'' (pd_slug d)) (\<lambda>_.
     and_then (protocol_validate_slug ''protocol network_slug'' (pd_network_slug d)) (\<lambda>_.
     and_then (demand (trim (pd_family d) \<noteq> []) (FamilyRequired (pd_slug d))) (\<lambda>_.
     and_then (demand (pd_enabled d \<and> pd_verified d) (ProtocolNotVerified (pd_slug d))) (\<lambda>_.
     and_then (demand (compiled_adapter_supported (pd_adapter_kind d) (pd_adapter_version d))
                 (UnsupportedAdapter (pd_slug d) (pd_adapter_kind d) (pd_adapter_version d))) (\<lambda>_.
     and_then (ok_or (do { n \<leftarrow> network_by_slug r (pd_network_slug d); if cn_status n = ''active'' then Some n else None })
                 (ProtocolsInvalid (UnknownProtocolNetwork (pd_slug d) (pd_network_slug d)))) (\<lambda>network.
     and_then (ok_or (cn_chain_id network) (ProtocolsInvalid (Eip155Required (pd_slug d)))) (\<lambda>chain_id.
     and_then (try_fold (target_step r d) \<lparr>tt_keys = {}, tt_pool = None, tt_reserves = []\<rparr> (pd_targets d)) (\<lambda>s.
     and_then (ok_or (tt_pool s) (ProtocolsInvalid (NoPool (pd_slug d)))) (\<lambda>pool_address.
     let reserves = sort_by (\<lambda>left right. cmp (ry_asset_slug left) (ry_asset_slug right)) (tt_reserves s) in
     and_then (demand (reserves \<noteq> []) (NoReserves (pd_slug d))) (\<lambda>_.
     Ok \<lparr>rp_slug = pd_slug d, rp_network_slug = pd_network_slug d, rp_chain_id = chain_id,
         rp_adapter_kind = pd_adapter_kind d, rp_adapter_version = pd_adapter_version d,
         rp_pool_address = pool_address, rp_reserves = reserves\<rparr>))))))))))"

type_synonym verified_protocol_registry = "string \<Rightarrow> realized_yield_protocol option"

definition add_protocol ::
  "canonical_registry \<Rightarrow> verified_protocol_registry \<Rightarrow> protocol_declaration \<Rightarrow>
   (verified_protocol_registry, verified_protocol_registry_error) result" where
  "add_protocol r protocols d =
     and_then (materialize_protocol r d) (\<lambda>p.
       if protocols (rp_slug p) \<noteq> None then Err (ProtocolsInvalid DuplicateProtocol)
       else Ok (protocols(rp_slug p \<mapsto> p)))"

definition protocols_from_json ::
  "(string \<Rightarrow> (protocol_catalog, string) result) \<Rightarrow> canonical_registry \<Rightarrow> string \<Rightarrow>
   (verified_protocol_registry, verified_protocol_registry_error) result" where
  "protocols_from_json from_str r json =
     and_then (map_err ProtocolsParse (from_str json)) (\<lambda>c.
     and_then (demand (pc_version c = PROTOCOLS_VERSION) (UnsupportedProtocolVersion (pc_version c))) (\<lambda>_.
     try_fold (add_protocol r) Map.empty (pc_protocols c)))"

definition realized_yield_protocol_of ::
  "verified_protocol_registry \<Rightarrow> string \<Rightarrow> realized_yield_protocol option" where
  "realized_yield_protocol_of protocols slug = protocols (to_ascii_lowercase slug)"

section \<open>Valid declarations\<close>

definition valid_reserve :: "canonical_registry \<Rightarrow> protocol_declaration \<Rightarrow> protocol_target_declaration \<Rightarrow> bool" where
  "valid_reserve r d t \<longleftrightarrow>
     (\<exists>slug a m. td_asset_slug t = Some slug \<and> is_asset_slug slug \<and> td_key t = slug \<and>
        asset_by_slug r slug = Some a \<and> is_active (ca_status a) \<and>
        mapping_for r slug (pd_network_slug d) = Some m \<and> is_active (cm_status m) \<and>
        cm_deployment_address m = Some (td_address t))"

definition valid_target :: "canonical_registry \<Rightarrow> protocol_declaration \<Rightarrow> protocol_target_declaration \<Rightarrow> bool" where
  "valid_target r d t \<longleftrightarrow> trim (td_key t) \<noteq> [] \<and> td_enabled t \<and> td_verified t \<and>
     is_lowercase_evm_address (td_address t) \<and>
     (td_kind t = ''pool'' \<and> td_key t = ''pool'' \<and> td_asset_slug t = None \<or>
      td_kind t = ''reserve'' \<and> valid_reserve r d t)"

definition valid_protocol :: "canonical_registry \<Rightarrow> protocol_declaration \<Rightarrow> bool" where
  "valid_protocol r d \<longleftrightarrow>
     is_asset_slug (pd_slug d) \<and> is_asset_slug (pd_network_slug d) \<and> trim (pd_family d) \<noteq> [] \<and>
     pd_enabled d \<and> pd_verified d \<and>
     pd_adapter_kind d = ''aave_v3_realized_yield'' \<and> pd_adapter_version d = ''v1'' \<and>
     (\<exists>n chain_id. network_by_slug r (pd_network_slug d) = Some n \<and> is_active (cn_status n) \<and> cn_chain_id n = Some chain_id) \<and>
     (\<forall>t\<in>set (pd_targets d). valid_target r d t) \<and> distinct (map td_key (pd_targets d)) \<and>
     (\<exists>t\<in>set (pd_targets d). td_kind t = ''pool'') \<and> (\<exists>t\<in>set (pd_targets d). td_kind t = ''reserve'')"

definition reserve_of :: "canonical_registry \<Rightarrow> protocol_target_declaration \<Rightarrow> realized_yield_reserve" where
  "reserve_of r t =
     \<lparr>ry_asset_slug = td_key t, ry_asset_symbol = ca_symbol (the (asset_by_slug r (td_key t))),
      ry_underlying_asset_address = td_address t\<rparr>"

definition reserves_of :: "canonical_registry \<Rightarrow> protocol_target_declaration list \<Rightarrow> realized_yield_reserve list" where
  "reserves_of r ts = map (reserve_of r) (filter (\<lambda>t. td_kind t = ''reserve'') ts)"

section \<open>The loop over the targets\<close>

lemma demand_Ok [simp]: "demand b v = Ok x \<longleftrightarrow> b"
  by (auto simp: demand_def)

lemma pool_target_Ok:
  "pool_target d s t = Ok s' \<longleftrightarrow> td_key t = ''pool'' \<and> td_asset_slug t = None \<and> tt_pool s = None \<and>
     s' = s\<lparr>tt_pool := Some (td_address t)\<rparr>"
  by (auto simp: pool_target_def)

declare ok_or_Ok_iff [simp]

lemma opt_filter_Some: "do { x \<leftarrow> v; if P x then Some x else None } = Some y \<longleftrightarrow> v = Some y \<and> P y"
  by (cases v) auto

lemma reserve_target_Ok:
  "reserve_target r d s t = Ok s' \<longleftrightarrow> valid_reserve r d t \<and>
     s' = s\<lparr>tt_reserves := tt_reserves s @ [reserve_of r t]\<rparr>"
  by (auto simp: reserve_target_def and_then_Ok_iff valid_reserve_def reserve_of_def protocol_validate_slug_def
      is_active_def opt_filter_Some)

definition next_target :: "canonical_registry \<Rightarrow> target_state \<Rightarrow> protocol_target_declaration \<Rightarrow> target_state" where
  "next_target r s t =
     \<lparr>tt_keys = insert (td_key t) (tt_keys s),
      tt_pool = (if td_kind t = ''pool'' then Some (td_address t) else tt_pool s),
      tt_reserves = tt_reserves s @ reserves_of r [t]\<rparr>"

lemma target_step_Ok:
  "target_step r d s t = Ok s' \<longleftrightarrow> valid_target r d t \<and> td_key t \<notin> tt_keys s \<and>
     (td_kind t = ''pool'' \<longrightarrow> tt_pool s = None) \<and> s' = next_target r s t"
proof -
  have kinds: "''pool'' \<noteq> ''reserve''" by simp
  show ?thesis
    by (cases s; cases "td_kind t = ''pool''"; cases "td_kind t = ''reserve''")
       (auto simp: target_step_def Let_def pool_target_Ok reserve_target_Ok valid_target_def next_target_def
         reserves_of_def)
qed

definition all_targets :: "canonical_registry \<Rightarrow> target_state \<Rightarrow> protocol_target_declaration list \<Rightarrow> target_state" where
  "all_targets r s ts =
     \<lparr>tt_keys = td_key ` set ts \<union> tt_keys s,
      tt_pool = (case filter (\<lambda>t. td_kind t = ''pool'') ts of [] \<Rightarrow> tt_pool s | t # _ \<Rightarrow> Some (td_address t)),
      tt_reserves = tt_reserves s @ reserves_of r ts\<rparr>"

lemma target_loop_Ok:
  assumes "tt_pool s \<noteq> None \<Longrightarrow> ''pool'' \<in> tt_keys s"
  shows "try_fold (target_step r d) s ts = Ok s' \<longleftrightarrow>
    (\<forall>t\<in>set ts. valid_target r d t) \<and> distinct (map td_key ts) \<and> td_key ` set ts \<inter> tt_keys s = {} \<and>
    s' = all_targets r s ts"
  using assms
proof (induction ts arbitrary: s)
  case Nil
  then show ?case by (cases s) (auto simp: all_targets_def reserves_of_def)
next
  case (Cons t ts)
  have pool_key: "valid_target r d x \<Longrightarrow> td_kind x = ''pool'' \<Longrightarrow> td_key x = ''pool''" for x
    by (auto simp: valid_target_def)
  have IH: "try_fold (target_step r d) (next_target r s t) ts = Ok s' \<longleftrightarrow>
    (\<forall>x\<in>set ts. valid_target r d x) \<and> distinct (map td_key ts) \<and> td_key ` set ts \<inter> insert (td_key t) (tt_keys s) = {} \<and>
    s' = all_targets r (next_target r s t) ts" if "valid_target r d t"
  proof -
    have "tt_pool (next_target r s t) \<noteq> None \<Longrightarrow> ''pool'' \<in> tt_keys (next_target r s t)"
      using Cons.prems pool_key[OF that] by (auto simp: next_target_def split: if_splits)
    moreover have "tt_keys (next_target r s t) = insert (td_key t) (tt_keys s)" by (simp add: next_target_def)
    ultimately show ?thesis using Cons.IH[of "next_target r s t"] by simp
  qed
  have eq: "all_targets r (next_target r s t) ts = all_targets r s (t # ts)"
    if "\<forall>x\<in>set ts. valid_target r d x" "valid_target r d t" "td_key t \<notin> td_key ` set ts"
  proof -
    have "filter (\<lambda>t. td_kind t = ''pool'') ts = []" if "td_kind t = ''pool''"
      using pool_key[OF \<open>valid_target r d t\<close> that] pool_key \<open>\<forall>x\<in>set ts. valid_target r d x\<close>
        \<open>td_key t \<notin> td_key ` set ts\<close>
      by (auto simp: filter_empty_conv image_iff)
    then show ?thesis by (auto simp: all_targets_def next_target_def reserves_of_def split: list.splits)
  qed
  have free: "tt_pool s = None" if "valid_target r d t" "td_key t \<notin> tt_keys s" "td_kind t = ''pool''"
    using Cons.prems pool_key that by (cases "tt_pool s") auto
  show ?case
  proof (cases "valid_target r d t \<and> td_key t \<notin> tt_keys s")
    case True
    then have "target_step r d s t = Ok (next_target r s t)" using free by (simp add: target_step_Ok)
    then show ?thesis using True IH eq by auto
  next
    case False
    then have "\<nexists>s1. target_step r d s t = Ok s1" by (auto simp: target_step_Ok)
    then show ?thesis using False by (cases "target_step r d s t") auto
  qed
qed

section \<open>Materialized protocols\<close>

definition protocol_of :: "canonical_registry \<Rightarrow> protocol_declaration \<Rightarrow> realized_yield_protocol" where
  "protocol_of r d =
     \<lparr>rp_slug = pd_slug d, rp_network_slug = pd_network_slug d,
      rp_chain_id = the (cn_chain_id (the (network_by_slug r (pd_network_slug d)))),
      rp_adapter_kind = ''aave_v3_realized_yield'', rp_adapter_version = ''v1'',
      rp_pool_address = td_address (hd (filter (\<lambda>t. td_kind t = ''pool'') (pd_targets d))),
      rp_reserves = sort_by (\<lambda>left right. cmp (ry_asset_slug left) (ry_asset_slug right)) (reserves_of r (pd_targets d))\<rparr>"

lemma sort_by_Nil_iff [simp]: "sort_by c xs = [] \<longleftrightarrow> xs = []"
  by (metis length_0_conv length_sort_by)

lemma first_pool:
  "(case filter P xs of [] \<Rightarrow> None | x # _ \<Rightarrow> Some (f x)) = Some y \<longleftrightarrow>
    (\<exists>x\<in>set xs. P x) \<and> y = f (hd (filter P xs))"
proof -
  have "(\<exists>x\<in>set xs. P x) \<longleftrightarrow> filter P xs \<noteq> []" by (simp add: filter_empty_conv)
  then show ?thesis by (cases "filter P xs") auto
qed

lemma materialize_protocol_Ok:
  "materialize_protocol r d = Ok p \<longleftrightarrow> valid_protocol r d \<and> p = protocol_of r d"
proof -
  let ?s0 = "\<lparr>tt_keys = {}, tt_pool = None, tt_reserves = []\<rparr>"
  have loop: "try_fold (target_step r d) ?s0 (pd_targets d) = Ok s \<longleftrightarrow>
      (\<forall>t\<in>set (pd_targets d). valid_target r d t) \<and> distinct (map td_key (pd_targets d)) \<and>
      s = all_targets r ?s0 (pd_targets d)" for s
    using target_loop_Ok[of ?s0] by simp
  have pool: "tt_pool (all_targets r ?s0 (pd_targets d)) = Some y \<longleftrightarrow>
      (\<exists>t\<in>set (pd_targets d). td_kind t = ''pool'') \<and> y = td_address (hd (filter (\<lambda>t. td_kind t = ''pool'') (pd_targets d)))" for y
    by (simp only: all_targets_def target_state.simps first_pool)
  have reserves: "tt_reserves (all_targets r ?s0 (pd_targets d)) = reserves_of r (pd_targets d)"
    by (simp add: all_targets_def)
  have none: "reserves_of r (pd_targets d) = [] \<longleftrightarrow> \<not> (\<exists>t\<in>set (pd_targets d). td_kind t = ''reserve'')"
    by (auto simp: reserves_of_def filter_empty_conv)
  show ?thesis
    unfolding materialize_protocol_def and_then_Ok_iff Let_def demand_Ok ok_or_Ok_iff opt_filter_Some loop
      protocol_validate_slug_def valid_protocol_def protocol_of_def compiled_adapter_supported_def is_active_def
    using pool none
    by (auto simp: reserves)
qed

lemma reserves_of_valid:
  assumes "\<forall>t\<in>set ts. valid_target r d t" "v \<in> set (reserves_of r ts)"
  obtains a m where "is_asset_slug (ry_asset_slug v)" "asset_by_slug r (ry_asset_slug v) = Some a" "is_active (ca_status a)"
    "ry_asset_symbol v = ca_symbol a" "mapping_for r (ry_asset_slug v) (pd_network_slug d) = Some m"
    "is_active (cm_status m)" "cm_deployment_address m = Some (ry_underlying_asset_address v)"
proof -
  obtain t where t: "t \<in> set ts" "td_kind t = ''reserve''" "v = reserve_of r t"
    using assms(2) by (auto simp: reserves_of_def)
  have "valid_target r d t" using assms(1) t(1) by blast
  then have "valid_reserve r d t" using t(2) by (simp add: valid_target_def)
  then show ?thesis using that t(3) by (auto simp: valid_reserve_def reserve_of_def)
qed

lemma distinct_reserves:
  "distinct (map td_key ts) \<Longrightarrow> distinct (map ry_asset_slug (reserves_of r ts))"
  by (induction ts) (auto simp: reserves_of_def reserve_of_def)

text \<open>
  A declaration is accepted exactly when it is valid against the canonical registry: normalized
  slugs, enabled and verified, the compiled adapter, an active EIP-155 network, verified lower-case
  addresses, distinct target keys, one pool, and at least one reserve whose address is the one of the active
  canonical mapping of its asset. The protocol has the declared pool and the declared reserves.
\<close>

theorem protocol_declarations_exact:
  "case materialize_protocol r d of
     Ok p \<Rightarrow> valid_protocol r d \<and> rp_slug p = pd_slug d \<and> rp_network_slug p = pd_network_slug d \<and>
       (\<exists>t\<in>set (pd_targets d). td_kind t = ''pool'' \<and> rp_pool_address p = td_address t) \<and>
       mset (rp_reserves p) = mset (reserves_of r (pd_targets d))
   | Err e \<Rightarrow> \<not> valid_protocol r d"
proof (cases "materialize_protocol r d")
  case (Ok p)
  then have v: "valid_protocol r d" and p: "p = protocol_of r d" by (simp_all add: materialize_protocol_Ok)
  have "filter (\<lambda>t. td_kind t = ''pool'') (pd_targets d) \<noteq> []"
    using v by (auto simp: valid_protocol_def filter_empty_conv)
  then have "hd (filter (\<lambda>t. td_kind t = ''pool'') (pd_targets d)) \<in> set (filter (\<lambda>t. td_kind t = ''pool'') (pd_targets d))"
    by (rule hd_in_set)
  then show ?thesis using Ok v by (auto simp: p protocol_of_def)
next
  case (Err e)
  have "\<not> valid_protocol r d"
  proof
    assume "valid_protocol r d"
    then have "materialize_protocol r d = Ok (protocol_of r d)" by (simp add: materialize_protocol_Ok)
    then show False using Err by simp
  qed
  then show ?thesis using Err by simp
qed

lemma add_protocols_Ok:
  assumes "try_fold (add_protocol r) ps ds = Ok ps'"
    and "\<forall>k p. ps k = Some p \<longrightarrow> rp_slug p = k \<and> (\<exists>d\<in>S. valid_protocol r d \<and> p = protocol_of r d)" "set ds \<subseteq> S"
  shows "\<forall>k p. ps' k = Some p \<longrightarrow> rp_slug p = k \<and> (\<exists>d\<in>S. valid_protocol r d \<and> p = protocol_of r d)"
  using assms
proof (induction ds arbitrary: ps)
  case (Cons d ds)
  obtain ps1 where s: "add_protocol r ps d = Ok ps1" "try_fold (add_protocol r) ps1 ds = Ok ps'"
    using Cons.prems(1) by (auto simp: and_then_Ok_iff)
  then obtain p where "materialize_protocol r d = Ok p" "ps1 = ps(rp_slug p \<mapsto> p)"
    by (auto simp: add_protocol_def and_then_Ok_iff split: if_splits)
  then have "\<forall>k p. ps1 k = Some p \<longrightarrow> rp_slug p = k \<and> (\<exists>d\<in>S. valid_protocol r d \<and> p = protocol_of r d)"
    using Cons.prems(2,3) by (auto simp: materialize_protocol_Ok)
  from Cons.IH[OF s(2) this] Cons.prems(3) show ?case by simp
qed simp

text \<open>The pool and the reserves of a protocol are enabled and verified targets of its declaration.\<close>

lemma protocol_of_targets:
  assumes "valid_protocol r d"
  shows "\<exists>t\<in>set (pd_targets d). td_kind t = ''pool'' \<and> is_lowercase_evm_address (td_address t) \<and>
      rp_pool_address (protocol_of r d) = td_address t"
    and "\<forall>v\<in>set (rp_reserves (protocol_of r d)). \<exists>t\<in>set (pd_targets d). td_kind t = ''reserve'' \<and>
      td_asset_slug t = Some (ry_asset_slug v) \<and> td_address t = ry_underlying_asset_address v"
    and "\<forall>t\<in>set (pd_targets d). td_enabled t \<and> td_verified t \<and>
      (td_kind t = ''reserve'' \<longrightarrow> td_asset_slug t \<in> (\<lambda>v. Some (ry_asset_slug v)) ` set (rp_reserves (protocol_of r d)))"
proof -
  have t: "\<forall>t\<in>set (pd_targets d). valid_target r d t" using assms by (simp add: valid_protocol_def)
  let ?pools = "filter (\<lambda>t. td_kind t = ''pool'') (pd_targets d)"
  have "?pools \<noteq> []" using assms by (auto simp: valid_protocol_def filter_empty_conv)
  then have "hd ?pools \<in> set ?pools" by (rule hd_in_set)
  then show "\<exists>t\<in>set (pd_targets d). td_kind t = ''pool'' \<and> is_lowercase_evm_address (td_address t) \<and>
      rp_pool_address (protocol_of r d) = td_address t"
    using t by (intro bexI[of _ "hd ?pools"]) (auto simp: protocol_of_def valid_target_def)
  have rs: "set (rp_reserves (protocol_of r d)) = reserve_of r ` {t \<in> set (pd_targets d). td_kind t = ''reserve''}"
    by (auto simp: protocol_of_def reserves_of_def)
  have key: "td_asset_slug t = Some (td_key t)" if "t \<in> set (pd_targets d)" "td_kind t = ''reserve''" for t
    using t that by (auto simp: valid_target_def valid_reserve_def)
  show "\<forall>v\<in>set (rp_reserves (protocol_of r d)). \<exists>t\<in>set (pd_targets d). td_kind t = ''reserve'' \<and>
      td_asset_slug t = Some (ry_asset_slug v) \<and> td_address t = ry_underlying_asset_address v"
    unfolding rs using key by (auto simp: reserve_of_def)
  show "\<forall>t\<in>set (pd_targets d). td_enabled t \<and> td_verified t \<and>
      (td_kind t = ''reserve'' \<longrightarrow> td_asset_slug t \<in> (\<lambda>v. Some (ry_asset_slug v)) ` set (rp_reserves (protocol_of r d)))"
  proof (intro ballI conjI impI)
    fix u
    assume u: "u \<in> set (pd_targets d)"
    show "td_enabled u" "td_verified u" using t u by (auto simp: valid_target_def)
    assume k: "td_kind u = ''reserve''"
    then have "reserve_of r u \<in> set (rp_reserves (protocol_of r d))" unfolding rs using u by blast
    moreover have "td_asset_slug u = Some (ry_asset_slug (reserve_of r u))" using key[OF u k] by (simp add: reserve_of_def)
    ultimately show "td_asset_slug u \<in> (\<lambda>v. Some (ry_asset_slug v)) ` set (rp_reserves (protocol_of r d))" by blast
  qed
qed

text \<open>
  C19. Every protocol of a registry built over a valid catalog is what its users rely on. It comes from a declaration of
  the text that was read, of the supported version, and that declaration and each of its targets are enabled and
  verified and name the compiled adapter; the pool and the reserves are those targets, with lower-case addresses.
  It is found under its own slug, its network is an active EVM network of the catalog with a positive chain id, and its
  reserves are not empty, have distinct slugs, and each has the symbol of an active asset of the catalog and
  the address of an active mapping of that asset on the network of the protocol.
\<close>

theorem registered_protocols_verified:
  assumes "from_catalog c = Some (Ok r)" "protocols_from_json from_str r json = Ok ps"
    and "realized_yield_protocol_of ps slug = Some p"
  shows "rp_slug p = to_ascii_lowercase slug \<and>
    (\<exists>declared d. from_str json = Ok declared \<and> pc_version declared = 1 \<and> d \<in> set (pc_protocols declared) \<and>
       pd_enabled d \<and> pd_verified d \<and> pd_slug d = rp_slug p \<and> pd_network_slug d = rp_network_slug p \<and>
       pd_adapter_kind d = rp_adapter_kind p \<and> pd_adapter_version d = rp_adapter_version p \<and>
       (\<exists>t\<in>set (pd_targets d). td_kind t = ''pool'' \<and> is_lowercase_evm_address (td_address t) \<and> rp_pool_address p = td_address t) \<and>
       (\<forall>v\<in>set (rp_reserves p). \<exists>t\<in>set (pd_targets d). td_kind t = ''reserve'' \<and>
          td_asset_slug t = Some (ry_asset_slug v) \<and> td_address t = ry_underlying_asset_address v) \<and>
       (\<forall>t\<in>set (pd_targets d). td_enabled t \<and> td_verified t \<and>
          (td_kind t = ''reserve'' \<longrightarrow> td_asset_slug t \<in> (\<lambda>v. Some (ry_asset_slug v)) ` set (rp_reserves p)))) \<and>
    rp_adapter_kind p = ''aave_v3_realized_yield'' \<and> rp_adapter_version p = ''v1'' \<and>
    (\<exists>n\<in>set (cat_networks c). cn_slug n = to_ascii_lowercase (rp_network_slug p) \<and> is_active (cn_status n) \<and>
       cn_chain_id n = Some (rp_chain_id p)) \<and>
    rp_reserves p \<noteq> [] \<and> distinct (map ry_asset_slug (rp_reserves p)) \<and>
    (\<forall>v\<in>set (rp_reserves p). \<exists>a\<in>set (cat_assets c). \<exists>m\<in>set (cat_asset_chain_maps c).
       is_active (ca_status a) \<and> ry_asset_symbol v = ca_symbol a \<and> is_active (cm_status m) \<and>
       cm_asset_slug m = ca_slug a \<and> cm_network_slug m = to_ascii_lowercase (rp_network_slug p) \<and>
       cm_deployment_address m = Some (ry_underlying_asset_address v))"
proof -
  obtain cat :: protocol_catalog where cat: "from_str json = Ok cat" "pc_version cat = 1"
    "try_fold (add_protocol r) Map.empty (pc_protocols cat) = Ok ps"
    using assms(2) by (auto simp: protocols_from_json_def and_then_Ok_iff map_err_Ok_iff PROTOCOLS_VERSION_def)
  have "rp_slug p = to_ascii_lowercase slug \<and> (\<exists>d\<in>set (pc_protocols cat). valid_protocol r d \<and> p = protocol_of r d)"
    using add_protocols_Ok[OF cat(3), of "set (pc_protocols cat)"] assms(3) unfolding realized_yield_protocol_of_def by simp
  then obtain d where slug: "rp_slug p = to_ascii_lowercase slug" and d: "d \<in> set (pc_protocols cat)"
    and v: "valid_protocol r d" and p: "p = protocol_of r d" by blast
  have kinds: "rp_adapter_kind p = ''aave_v3_realized_yield''" "rp_adapter_version p = ''v1''" by (simp_all add: p protocol_of_def)
  have flags: "pd_enabled d" "pd_verified d" "pd_slug d = rp_slug p" "pd_network_slug d = rp_network_slug p"
    "pd_adapter_kind d = rp_adapter_kind p" "pd_adapter_version d = rp_adapter_version p"
    using v by (simp_all add: p valid_protocol_def protocol_of_def)
  obtain n chain_id where n: "network_by_slug r (pd_network_slug d) = Some n" "is_active (cn_status n)" "cn_chain_id n = Some chain_id"
    using v unfolding valid_protocol_def by blast
  have network: "\<exists>n\<in>set (cat_networks c). cn_slug n = to_ascii_lowercase (rp_network_slug p) \<and> is_active (cn_status n) \<and>
       cn_chain_id n = Some (rp_chain_id p)"
    using n(1)[unfolded network_by_slug_iff[OF assms(1)]] n by (intro bexI[of _ n]) (simp_all add: p protocol_of_def)
  have valid: "\<forall>t\<in>set (pd_targets d). valid_target r d t" "distinct (map td_key (pd_targets d))"
    "\<exists>t\<in>set (pd_targets d). td_kind t = ''reserve''"
    using v unfolding valid_protocol_def by blast+
  have res: "set (rp_reserves p) = set (reserves_of r (pd_targets d))" "mset (rp_reserves p) = mset (reserves_of r (pd_targets d))"
    by (simp_all add: p protocol_of_def)
  have "rp_reserves p \<noteq> []" using valid(3) res(1) by (auto simp: reserves_of_def filter_empty_conv)
  moreover have "distinct (map ry_asset_slug (rp_reserves p))"
    using distinct_reserves[OF valid(2), of r] res(2) by (metis mset_eq_imp_distinct_iff mset_map)
  moreover have "\<exists>a\<in>set (cat_assets c). \<exists>m\<in>set (cat_asset_chain_maps c).
       is_active (ca_status a) \<and> ry_asset_symbol v = ca_symbol a \<and> is_active (cm_status m) \<and>
       cm_asset_slug m = ca_slug a \<and> cm_network_slug m = to_ascii_lowercase (rp_network_slug p) \<and>
       cm_deployment_address m = Some (ry_underlying_asset_address v)" if m: "v \<in> set (rp_reserves p)" for v
  proof -
    have v: "v \<in> set (reserves_of r (pd_targets d))" using m res(1) by simp
    obtain a m where x: "asset_by_slug r (ry_asset_slug v) = Some a" "is_active (ca_status a)"
      "ry_asset_symbol v = ca_symbol a" "mapping_for r (ry_asset_slug v) (pd_network_slug d) = Some m"
      "is_active (cm_status m)" "cm_deployment_address m = Some (ry_underlying_asset_address v)"
      by (rule reserves_of_valid[OF valid(1) v])
    then show ?thesis
      by (intro bexI[of _ a] bexI[of _ m])
         (auto simp: p protocol_of_def asset_by_slug_iff[OF assms(1)] mapping_for_iff[OF assms(1)])
  qed
  ultimately show ?thesis using slug network kinds cat(1,2) d flags protocol_of_targets[OF v, folded p]
    by (intro conjI exI[of _ cat] exI[of _ d]) (assumption | blast)+
qed

text \<open>One protocol with one reserve over the example catalog.\<close>

definition example_protocol :: protocol_declaration where
  "example_protocol = \<lparr>pd_slug = ''aave-v3'', pd_network_slug = ''eth-mainnet'', pd_family = ''aave'',
     pd_adapter_kind = ''aave_v3_realized_yield'', pd_adapter_version = ''v1'', pd_enabled = True, pd_verified = True,
     pd_targets = [\<lparr>td_key = ''pool'', td_kind = ''pool'', td_asset_slug = None, td_address = example_address,
         td_enabled = True, td_verified = True\<rparr>,
       \<lparr>td_key = ''usdc'', td_kind = ''reserve'', td_asset_slug = Some ''usdc'', td_address = example_address,
         td_enabled = True, td_verified = True\<rparr>]\<rparr>"

theorem registered_protocols_verified_witness:
  "\<exists>r ps p. from_catalog example_catalog = Some (Ok r) \<and>
     protocols_from_json (\<lambda>_. Ok \<lparr>pc_version = 1, pc_protocols = [example_protocol]\<rparr>) r [] = Ok ps \<and>
     realized_yield_protocol_of ps ''AAVE-v3'' = Some p \<and> rp_slug p = ''aave-v3'' \<and> rp_reserves p \<noteq> []"
proof -
  obtain r where r: "from_catalog example_catalog = Some (Ok r)" using from_catalog_valid[OF example_valid] by blast
  have lower: "to_ascii_lowercase ''AAVE-v3'' = ''aave-v3''" "to_ascii_lowercase ''usdc'' = ''usdc''"
    "to_ascii_lowercase ''eth-mainnet'' = ''eth-mainnet''" by code_simp+
  have slugs: "is_asset_slug ''aave-v3''" "is_asset_slug ''eth-mainnet''" "is_asset_slug ''usdc''" "trim ''aave'' \<noteq> []"
    "trim ''pool'' \<noteq> []" "trim ''usdc'' \<noteq> []" "is_lowercase_evm_address example_address" by code_simp+
  have rows: "asset_by_slug r ''usdc'' = Some example_usdc" "network_by_slug r ''eth-mainnet'' = Some example_network"
    "mapping_for r ''usdc'' ''eth-mainnet'' = Some example_erc20"
    unfolding asset_by_slug_iff[OF r] network_by_slug_iff[OF r] mapping_for_iff[OF r] lower
    by (simp_all add: example_catalog_def, simp_all add: example_usdc_def example_network_def example_erc20_def)
  have "valid_protocol r example_protocol"
    using slugs rows
    by (simp add: valid_protocol_def example_protocol_def valid_target_def valid_reserve_def is_active_def)
       (simp add: example_usdc_def example_network_def example_erc20_def)
  then have "materialize_protocol r example_protocol = Ok (protocol_of r example_protocol)"
    by (simp add: materialize_protocol_Ok)
  then have ps: "protocols_from_json (\<lambda>_. Ok \<lparr>pc_version = 1, pc_protocols = [example_protocol]\<rparr>) r [] =
      Ok [''aave-v3'' \<mapsto> protocol_of r example_protocol]"
    by (simp add: protocols_from_json_def demand_def PROTOCOLS_VERSION_def add_protocol_def)
       (simp add: protocol_of_def example_protocol_def)
  have p: "realized_yield_protocol_of [''aave-v3'' \<mapsto> protocol_of r example_protocol] ''AAVE-v3'' =
      Some (protocol_of r example_protocol)"
    by (simp add: realized_yield_protocol_of_def lower)
  from registered_protocols_verified[OF r ps p] show ?thesis using r ps p by (auto simp: lower)
qed

end
