(* ===== verification/Calendar.thy ===== *)
theory Calendar
  imports Prelude
begin

text \<open>
  Calendar arithmetic and timestamps: \<open>src/common/time.rs\<close>, \<open>src/common/rfc3339.rs\<close> and the
  calendar of the portfolio simulation (\<open>src/application/portfolio_simulation.rs\<close>, which has its
  own copies of \<open>days_in_month\<close> and \<open>days_from_civil\<close>). Years and day numbers are integers,
  months and days naturals; Rust's truncating division is \<open>sdiv\<close>. The lemmas show that the
  conversions between civil dates and day numbers are inverse to each other, that timestamps are
  parsed to the instant they denote, and that they are compared by that instant.
\<close>

section \<open>\<open>src/common/time.rs\<close>\<close>

record parsed_time =
  pt_hour :: nat
  pt_minute :: nat
  pt_second :: nat
  pt_fraction :: string

definition parse_ascii_u32 :: "string \<Rightarrow> nat option" where
  "parse_ascii_u32 s =
     (if s = [] \<or> \<not> all_digits s then None else parse_unsigned (2 ^ 32 - 1) s)"

definition parse_ascii_i32 :: "string \<Rightarrow> int option" where
  "parse_ascii_i32 s =
     (if s = [] \<or> \<not> all_digits s then None else parse_signed (- (2 ^ 31)) (2 ^ 31 - 1) s)"

definition parse_time :: "string \<Rightarrow> parsed_time option" where
  "parse_time s =
     (if length s < 8 \<or> s ! 2 \<noteq> CHR '':'' \<or> s ! 5 \<noteq> CHR '':'' then None
      else do {
        hour \<leftarrow> parse_ascii_u32 (take 2 s);
        minute \<leftarrow> parse_ascii_u32 (take 2 (drop 3 s));
        let seconds_and_fraction = drop 6 s;
        (second, fraction) \<leftarrow>
          (case position (\<lambda>c. c = CHR ''.'') seconds_and_fraction of
             Some dot_index \<Rightarrow>
               (if dot_index \<noteq> 2 then None
                else
                  let second = take dot_index seconds_and_fraction;
                      fraction = drop (dot_index + 1) seconds_and_fraction
                  in if fraction = [] \<or> \<not> all_digits fraction then None
                     else map_option (\<lambda>sec. (sec, fraction)) (parse_ascii_u32 second))
           | None \<Rightarrow>
               (if length seconds_and_fraction \<noteq> 2 then None
                else map_option (\<lambda>sec. (sec, [])) (parse_ascii_u32 seconds_and_fraction)));
        if hour > 23 \<or> minute > 59 \<or> second > 59 then None
        else Some \<lparr>pt_hour = hour, pt_minute = minute, pt_second = second, pt_fraction = fraction\<rparr>
      })"

definition is_leap_year :: "int \<Rightarrow> bool" where
  "is_leap_year year \<longleftrightarrow> (year smod 4 = 0 \<and> year smod 100 \<noteq> 0) \<or> year smod 400 = 0"

definition days_in_month :: "int \<Rightarrow> nat \<Rightarrow> nat" where
  "days_in_month year month =
     (if month \<in> {1, 3, 5, 7, 8, 10, 12} then 31
      else if month \<in> {4, 6, 9, 11} then 30
      else if month = 2 \<and> is_leap_year year then 29
      else if month = 2 then 28
      else 0)"

definition days_from_civil :: "int \<Rightarrow> nat \<Rightarrow> nat \<Rightarrow> int" where
  "days_from_civil year month day =
     (let adjusted_year = year - (if month \<le> 2 then 1 else 0);
          era = (if adjusted_year \<ge> 0 then adjusted_year sdiv 400 else (adjusted_year - 399) sdiv 400);
          year_of_era = adjusted_year - era * 400;
          month_prime = int month + (if month > 2 then -3 else 9);
          day_of_year = (153 * month_prime + 2) sdiv 5 + int day - 1;
          day_of_era = year_of_era * 365 + year_of_era sdiv 4 - year_of_era sdiv 100 + day_of_year
      in era * 146097 + day_of_era - 719468)"

section \<open>\<open>src/common/rfc3339.rs\<close>\<close>

record parsed_rfc3339 =
  rfc_epoch_seconds :: int
  rfc_fraction :: string

definition parse_date :: "string \<Rightarrow> (int \<times> nat \<times> nat) option" where
  "parse_date s =
     (if length s \<noteq> 10 \<or> s ! 4 \<noteq> CHR ''-'' \<or> s ! 7 \<noteq> CHR ''-'' then None
      else do {
        year \<leftarrow> parse_ascii_i32 (take 4 s);
        month \<leftarrow> parse_ascii_u32 (take 2 (drop 5 s));
        day \<leftarrow> parse_ascii_u32 (take 2 (drop 8 s));
        if \<not> (1 \<le> month \<and> month \<le> 12) then None
        else if day = 0 \<or> day > days_in_month year month then None
        else Some (year, month, day)
      })"

definition parse_offset :: "string \<Rightarrow> int option" where
  "parse_offset s =
     (if length s \<noteq> 6 \<or> s ! 3 \<noteq> CHR '':'' then None
      else do {
        sign \<leftarrow> (if s ! 0 = CHR ''+'' then Some (1::int)
                else if s ! 0 = CHR ''-'' then Some (-1) else None);
        hours \<leftarrow> parse_ascii_u32 (take 2 (drop 1 s));
        minutes \<leftarrow> parse_ascii_u32 (take 2 (drop 4 s));
        if hours > 23 \<or> minutes > 59 then None
        else Some (sign * (int hours * 3600 + int minutes * 60))
      })"

definition parse_time_and_offset :: "string \<Rightarrow> (parsed_time \<times> int) option" where
  "parse_time_and_offset s = do {
     (time, offset_seconds) \<leftarrow>
       (if ends_with s ''Z'' then Some (butlast s, 0)
        else do {
          offset_start \<leftarrow> rfind (\<lambda>c. c = CHR ''+'' \<or> c = CHR ''-'') s;
          offset_seconds \<leftarrow> parse_offset (drop offset_start s);
          Some (take offset_start s, offset_seconds)
        });
     parsed_time \<leftarrow> parse_time time;
     Some (parsed_time, offset_seconds)
   }"

definition parse_rfc3339 :: "string \<Rightarrow> parsed_rfc3339 option" where
  "parse_rfc3339 s = do {
     (date, time_and_offset) \<leftarrow> split_once CHR ''T'' s;
     if CHR ''T'' \<in> set time_and_offset then None
     else do {
       (year, month, day) \<leftarrow> parse_date date;
       (time, offset_seconds) \<leftarrow> parse_time_and_offset time_and_offset;
       let days = days_from_civil year month day;
       e1 \<leftarrow> checked_i64 (days * 86400);
       e2 \<leftarrow> checked_i64 (e1 + int (pt_hour time) * 3600);
       e3 \<leftarrow> checked_i64 (e2 + int (pt_minute time) * 60);
       e4 \<leftarrow> checked_i64 (e3 + int (pt_second time));
       epoch_seconds \<leftarrow> checked_i64 (e4 - offset_seconds);
       Some \<lparr>rfc_epoch_seconds = epoch_seconds, rfc_fraction = pt_fraction time\<rparr>
     }
   }"

text \<open>The loop over the byte positions of the longer string.\<close>

definition digit_at :: "string \<Rightarrow> nat \<Rightarrow> char" where
  "digit_at s i = (if i < length s then s ! i else CHR ''0'')"

fun compare_digits_from :: "string \<Rightarrow> string \<Rightarrow> nat list \<Rightarrow> ordering" where
  "compare_digits_from left right [] = Equal"
| "compare_digits_from left right (index # rest) =
     (case cmp (byte (digit_at left index)) (byte (digit_at right index)) of
        Equal \<Rightarrow> compare_digits_from left right rest
      | decided \<Rightarrow> decided)"

definition compare_fractional_seconds :: "string \<Rightarrow> string \<Rightarrow> ordering" where
  "compare_fractional_seconds left right =
     compare_digits_from left right [0..<max (length left) (length right)]"

definition compare_rfc3339 :: "parsed_rfc3339 \<Rightarrow> parsed_rfc3339 \<Rightarrow> ordering" where
  "compare_rfc3339 left right =
     then_with (cmp (rfc_epoch_seconds left) (rfc_epoch_seconds right))
       (compare_fractional_seconds (rfc_fraction left) (rfc_fraction right))"

section \<open>The calendar of the portfolio simulation\<close>

definition sim_days_in_month :: "int \<Rightarrow> nat \<Rightarrow> nat" where
  "sim_days_in_month year month =
     (if month \<in> {1, 3, 5, 7, 8, 10, 12} then 31
      else if month \<in> {4, 6, 9, 11} then 30
      else if month = 2 \<and> ((year smod 4 = 0 \<and> year smod 100 \<noteq> 0) \<or> year smod 400 = 0) then 29
      else if month = 2 then 28
      else 0)"

definition sim_days_from_civil :: "int \<Rightarrow> nat \<Rightarrow> nat \<Rightarrow> int" where
  "sim_days_from_civil year0 month day =
     (let year = year0 - (if month \<le> 2 then 1 else 0);
          era = (if year \<ge> 0 then year sdiv 400 else (year - 399) sdiv 400);
          yoe = year - era * 400;
          mp = int month + (if month > 2 then -3 else 9);
          doy = (153 * mp + 2) sdiv 5 + int day - 1;
          doe = yoe * 365 + yoe sdiv 4 - yoe sdiv 100 + doy
      in era * 146097 + doe - 719468)"

definition sim_parse_date :: "string \<Rightarrow> int option" where
  "sim_parse_date s =
     (if length s \<noteq> 10 \<or> s ! 4 \<noteq> CHR ''-'' \<or> s ! 7 \<noteq> CHR ''-'' then None
      else do {
        year \<leftarrow> parse_signed (- (2 ^ 31)) (2 ^ 31 - 1) (take 4 s);
        month \<leftarrow> parse_unsigned (2 ^ 32 - 1) (take 2 (drop 5 s));
        day \<leftarrow> parse_unsigned (2 ^ 32 - 1) (take 2 (drop 8 s));
        if \<not> (1 \<le> month \<and> month \<le> 12) \<or> day = 0 \<or> day > sim_days_in_month year month then None
        else Some (sim_days_from_civil year month day)
      })"

definition civil_from_days :: "int \<Rightarrow> int \<times> nat \<times> nat" where
  "civil_from_days days =
     (let z = days + 719468;
          era = (if z \<ge> 0 then z else z - 146096) sdiv 146097;
          doe = z - era * 146097;
          yoe = (doe - doe sdiv 1460 + doe sdiv 36524 - doe sdiv 146096) sdiv 365;
          year = wrap_i32 (wrap_i32 yoe + wrap_i32 (wrap_i32 era * 400));
          doy = doe - (365 * yoe + yoe sdiv 4 - yoe sdiv 100);
          mp = (5 * doy + 2) sdiv 153
      in (wrap_i32 (year + (if mp \<ge> 10 then 1 else 0)),
          nat ((mp + (if mp < 10 then 3 else -9)) mod 2 ^ 32),
          nat ((doy - (153 * mp + 2) sdiv 5 + 1) mod 2 ^ 32)))"

definition timestamp_for_day :: "int \<Rightarrow> string" where
  "timestamp_for_day days =
     (let (year, month, day) = civil_from_days days
      in show_int_pad 4 year @ ''-'' @ pad_left 2 (show_nat month) @ ''-'' @
         pad_left 2 (show_nat day) @ ''T00:00:00Z'')"

definition parse_rfc3339_epoch :: "string \<Rightarrow> int option" where
  "parse_rfc3339_epoch s = do {
     date \<leftarrow> str_get 0 10 s;
     let day = sim_parse_date date;
     time \<leftarrow> str_get 11 19 s;
     if str_get 19 (length s) s \<noteq> Some ''Z'' then None
     else do {
       hours \<leftarrow> str_get 0 2 time \<bind> parse_signed (- (2 ^ 63)) (2 ^ 63 - 1);
       minutes \<leftarrow> str_get 3 5 time \<bind> parse_signed (- (2 ^ 63)) (2 ^ 63 - 1);
       seconds \<leftarrow> str_get 6 8 time \<bind> parse_signed (- (2 ^ 63)) (2 ^ 63 - 1);
       d \<leftarrow> day;
       if hours < 24 \<and> minutes < 60 \<and> seconds < 60
       then Some (d * 86400 + hours * 3600 + minutes * 60 + seconds)
       else None
     }
   }"

definition timestamp_for_epoch :: "int \<Rightarrow> string" where
  "timestamp_for_epoch epoch =
     (let days = epoch div 86400;
          seconds = epoch mod 86400;
          (year, month, day) = civil_from_days days;
          hours = seconds sdiv 3600;
          minutes = (seconds smod 3600) sdiv 60;
          secs = seconds smod 60
      in show_int_pad 4 year @ ''-'' @ pad_left 2 (show_nat month) @ ''-'' @
         pad_left 2 (show_nat day) @ ''T'' @ show_int_pad 2 hours @ '':'' @
         show_int_pad 2 minutes @ '':'' @ show_int_pad 2 secs @ ''Z'')"

section \<open>Calendar arithmetic\<close>

subsection \<open>Division\<close>

lemma sdiv_nonneg: "0 \<le> (a::int) \<Longrightarrow> 0 < b \<Longrightarrow> a sdiv b = a div b"
  by (simp add: signed_divide_int_def sgn_if)

lemma smod_zero_iff: "(a::int) smod b = 0 \<longleftrightarrow> b dvd a"
  by (auto simp: signed_modulo_int_def sgn_if mod_eq_0_iff_dvd)

lemma sdiv_floor:
  assumes "0 < (b::int)"
  shows "(if 0 \<le> a then a sdiv b else (a - (b - 1)) sdiv b) = a div b"
proof (cases "0 \<le> a")
  case False
  have "(a - (b - 1)) sdiv b = - ((b - 1 - a) div b)"
    using assms False by (simp add: signed_divide_int_def sgn_if)
  also have "(b - 1 - a) div b = - (a div b)"
  proof (rule int_div_pos_eq)
    show "b - 1 - a = b * - (a div b) + (b - 1 - a mod b)" by (simp add: algebra_simps)
    show "0 \<le> b - 1 - a mod b" "b - 1 - a mod b < b"
      using pos_mod_bound[OF assms, of a] pos_mod_sign[OF assms, of a] by linarith+
  qed
  finally show ?thesis using False by simp
qed (use assms in \<open>simp add: sdiv_nonneg\<close>)

lemma sdiv_floor_eras:
  "(if 0 \<le> a then a sdiv 400 else (a - 399) sdiv 400) = a div (400::int)"
  "(if 0 \<le> a then a else a - 146096) sdiv 146097 = a div (146097::int)"
  using sdiv_floor[of 400 a] sdiv_floor[of 146097 a] by (auto split: if_splits)

subsection \<open>Civil dates\<close>

definition valid_date :: "int \<Rightarrow> nat \<Rightarrow> nat \<Rightarrow> bool" where
  "valid_date year month day \<longleftrightarrow>
     1 \<le> month \<and> month \<le> 12 \<and> 1 \<le> day \<and> day \<le> days_in_month year month"

text \<open>A day of an era splits uniquely into century, four-year cycle, year and day of the year.\<close>

definition era_day :: "int \<Rightarrow> int \<Rightarrow> int \<Rightarrow> int \<Rightarrow> bool" where
  "era_day c q r doy \<longleftrightarrow> 0 \<le> c \<and> c \<le> 3 \<and> 0 \<le> q \<and> q \<le> 24 \<and> 0 \<le> r \<and> r \<le> 3 \<and>
     0 \<le> doy \<and> doy \<le> 365 \<and> (doy = 365 \<longrightarrow> r = 3 \<and> (q = 24 \<longrightarrow> c = 3))"

lemma era_day_exists:
  assumes "0 \<le> doe" "doe < 146097"
  obtains c q r doy where "era_day c q r doy" "doe = 36524 * c + 1461 * q + 365 * r + doy"
proof -
  define c where "c = min (doe div 36524) 3"
  define r1 where "r1 = doe - 36524 * c"
  have r1: "0 \<le> r1" "r1 \<le> 36524" "r1 = 36524 \<Longrightarrow> c = 3" "0 \<le> c" "c \<le> 3"
    using assms unfolding r1_def c_def by (auto simp: min_def split: if_splits)
  define q where "q = min (r1 div 1461) 24"
  define r2 where "r2 = r1 - 1461 * q"
  have r2: "0 \<le> r2" "r2 \<le> 1460" "0 \<le> q" "q \<le> 24" "r2 = 1460 \<Longrightarrow> q = 24 \<Longrightarrow> c = 3"
    using r1 unfolding r2_def q_def by (auto simp: min_def split: if_splits)
  define r where "r = min (r2 div 365) 3"
  define doy where "doy = r2 - 365 * r"
  have doy: "0 \<le> doy" "doy \<le> 365" "0 \<le> r" "r \<le> 3" "doy = 365 \<Longrightarrow> r2 = 1460 \<and> r = 3"
    using r2 unfolding doy_def r_def by (auto simp: min_def split: if_splits)
  have "era_day c q r doy" unfolding era_day_def using r1 r2 doy by auto
  then show thesis
    by (rule that) (simp add: doy_def r2_def r1_def)
qed

lemma era_day_year:
  assumes "era_day c q r doy" "doe = 36524 * c + 1461 * q + 365 * r + doy"
  shows "(doe - doe div 1460 + doe div 36524 - doe div 146096) div 365 = 100 * c + 4 * q + r"
proof -
  note b = assms(1)[unfolded era_day_def]
  define e where "e = (if q = 24 \<and> r = 3 \<and> doy = 365 then 1 else 0 :: int)"
  define k where "k = (if 24 * c + q + 365 * r + doy < 1460 then 0 else 1 :: int)"
  have "doe div 146096 = e"
    using b unfolding assms(2) e_def by (auto simp: div_pos_pos_trivial)
  moreover have "doe div 36524 = c + e"
    by (rule int_div_pos_eq[where r = "1461 * q + 365 * r + doy - 36524 * e"])
       (use b in \<open>auto simp: assms(2) e_def\<close>)
  moreover have "doe div 1460 = 25 * c + q + k"
    by (rule int_div_pos_eq[where r = "24 * c + q + 365 * r + doy - 1460 * k"])
       (use b in \<open>auto simp: assms(2) k_def\<close>)
  ultimately have n: "doe - doe div 1460 + doe div 36524 - doe div 146096 =
      365 * (100 * c + 4 * q + r) + (doy - k)"
    by (simp add: assms(2))
  show ?thesis unfolding n
    by (rule int_div_pos_eq[OF refl]) (use b in \<open>auto simp: k_def\<close>)
qed

lemma yoe_parts:
  assumes "0 \<le> c" "c \<le> 3" "0 \<le> q" "q \<le> 24" "0 \<le> r" "r \<le> (3::int)"
  shows "(100 * c + 4 * q + r) div 4 = 25 * c + q" "(100 * c + 4 * q + r) div 100 = c"
  using assms by (auto intro!: int_div_pos_eq)

lemma is_leap_year_iff: "is_leap_year y \<longleftrightarrow> 4 dvd y \<and> \<not> 100 dvd y \<or> 400 dvd y"
  by (simp add: is_leap_year_def smod_zero_iff)

lemma leap_parts:
  assumes "0 \<le> c" "c \<le> 3" "0 \<le> q" "q \<le> 24" "0 \<le> r" "r \<le> (3::int)"
  shows "is_leap_year (400 * e + (100 * c + 4 * q + r) + 1) \<longleftrightarrow> r = 3 \<and> (q = 24 \<longrightarrow> c = 3)"
proof -
  let ?n = "400 * e + (100 * c + 4 * q + r) + 1"
  have "4 dvd ?n \<longleftrightarrow> r = 3"
  proof -
    have "?n = (r + 1) + (100 * e + 25 * c + q) * 4" by simp
    then have "4 dvd ?n \<longleftrightarrow> 4 dvd r + 1" by (simp only: dvd_add_times_triv_right_iff)
    then show ?thesis using assms by presburger
  qed
  moreover have "r = 3 \<Longrightarrow> 100 dvd ?n \<longleftrightarrow> q = 24"
  proof -
    assume "r = 3"
    then have "?n = 4 * (q + 1) + (4 * e + c) * 100" by simp
    then have "100 dvd ?n \<longleftrightarrow> 100 dvd 4 * (q + 1)" by (simp only: dvd_add_times_triv_right_iff)
    also have "\<dots> \<longleftrightarrow> 25 dvd q + 1" using dvd_mult_cancel_left[of 4 25 "q + 1"] by simp
    finally show ?thesis using assms by (auto dest: zdvd_imp_le)
  qed
  moreover have "r = 3 \<Longrightarrow> q = 24 \<Longrightarrow> 400 dvd ?n \<longleftrightarrow> c = 3"
  proof -
    assume "r = 3" "q = 24"
    then have "?n = 100 * (c + 1) + e * 400" by simp
    then have "400 dvd ?n \<longleftrightarrow> 400 dvd 100 * (c + 1)" by (simp only: dvd_add_times_triv_right_iff)
    also have "\<dots> \<longleftrightarrow> 4 dvd c + 1" using dvd_mult_cancel_left[of 100 4 "c + 1"] by simp
    finally show ?thesis using assms by (auto dest: zdvd_imp_le)
  qed
  moreover have "400 dvd n \<Longrightarrow> 100 dvd n \<and> 4 dvd n" for n :: int by presburger
  ultimately show ?thesis unfolding is_leap_year_iff by blast
qed

definition month_prime :: "nat \<Rightarrow> int" where
  "month_prime month = int month + (if month > 2 then -3 else 9)"

definition day_of_year :: "nat \<Rightarrow> nat \<Rightarrow> int" where
  "day_of_year month day = (153 * month_prime month + 2) div 5 + int day - 1"

lemma month_cases:
  assumes "1 \<le> m" "m \<le> (12::nat)"
  obtains "m = 1" | "m = 2" | "m = 3" | "m = 4" | "m = 5" | "m = 6" | "m = 7" | "m = 8" | "m = 9"
    | "m = 10" | "m = 11" | "m = 12"
proof -
  have "m = 1 \<or> m = 2 \<or> m = 3 \<or> m = 4 \<or> m = 5 \<or> m = 6 \<or> m = 7 \<or> m = 8 \<or> m = 9 \<or>
    m = 10 \<or> m = 11 \<or> m = 12"
    using assms by presburger
  then show thesis using that by blast
qed

lemma day_of_year_props:
  assumes "valid_date y m d"
  shows "0 \<le> day_of_year m d" "day_of_year m d \<le> 365"
    "day_of_year m d = 365 \<Longrightarrow> m = 2 \<and> is_leap_year y"
    "(5 * day_of_year m d + 2) div 153 = month_prime m"
proof -
  from assms have m: "1 \<le> m" "m \<le> 12" and d: "1 \<le> d" "d \<le> days_in_month y m"
    by (auto simp: valid_date_def)
  show "0 \<le> day_of_year m d" "day_of_year m d \<le> 365"
    "day_of_year m d = 365 \<Longrightarrow> m = 2 \<and> is_leap_year y"
    using m d by (cases m rule: month_cases;
        auto simp: day_of_year_def month_prime_def days_in_month_def split: if_splits)+
  show "(5 * day_of_year m d + 2) div 153 = month_prime m"
    using m d by (cases m rule: month_cases;
        auto simp: day_of_year_def month_prime_def days_in_month_def split: if_splits)
qed

lemma day_of_year_exists:
  assumes "0 \<le> doy" "doy \<le> 365" "doy = 365 \<Longrightarrow> leap"
  obtains m d where "1 \<le> m" "m \<le> 12" "1 \<le> d" "day_of_year m d = doy"
    "\<And>y. (m = 2 \<Longrightarrow> is_leap_year y = leap) \<Longrightarrow> d \<le> days_in_month y m"
proof -
  define mp where "mp = (5 * doy + 2) div 153"
  define m where "m = nat (mp + (if mp < 10 then 3 else -9))"
  define d where "d = nat (doy - (153 * mp + 2) div 5 + 1)"
  have mp: "0 \<le> mp" "mp \<le> 11" using assms unfolding mp_def by auto
  have b: "153 * mp \<le> 5 * doy + 2" "5 * doy + 2 < 153 * mp + 153" unfolding mp_def by presburger+
  have m: "1 \<le> m" "m \<le> 12" and mpm: "month_prime m = mp"
    using mp unfolding m_def month_prime_def by auto
  have d: "1 \<le> d" and di: "int d = doy - (153 * mp + 2) div 5 + 1" using b unfolding d_def by auto
  have doy: "day_of_year m d = doy" unfolding day_of_year_def mpm di by simp
  have lp: "leap \<or> doy \<le> 364" using assms by (cases "doy = 365") auto
  have "d \<le> days_in_month y m" if "m = 2 \<Longrightarrow> is_leap_year y = leap" for y
    using m di b that assms(1,2) mpm lp by (cases m rule: month_cases)
      (auto simp: days_in_month_def month_prime_def split: if_splits)
  then show thesis using that m d doy by blast
qed

text \<open>The number of days before the first of March of a year, in closed form.\<close>

definition days_before_march :: "int \<Rightarrow> int" where
  "days_before_march y = 365 * y + y div 4 - y div 100 + y div 400 - 719468"

definition march_year :: "int \<Rightarrow> nat \<Rightarrow> int" where
  "march_year year month = year - (if month \<le> 2 then 1 else 0)"

lemma era_closed_form:
  fixes y :: int
  shows "(y div 400) * 146097 + (y mod 400 * 365 + y mod 400 div 4 - y mod 400 div 100) =
    365 * y + y div 4 - y div 100 + y div 400"
proof -
  define e r where "e = y div 400" and "r = y mod 400"
  have y: "y = 400 * e + r" unfolding e_def r_def by simp
  have "y = r + (100 * e) * 4" "y = r + (4 * e) * 100" by (simp_all add: y)
  then have "y div 4 = 100 * e + r div 4" "y div 100 = 4 * e + r div 100"
    by (metis div_mult_self1 zero_neq_numeral)+
  then show ?thesis unfolding e_def[symmetric] r_def[symmetric] by (simp add: y)
qed

lemma days_from_civil_closed_form:
  assumes "1 \<le> m" "m \<le> 12"
  shows "days_from_civil y m d = days_before_march (march_year y m) + day_of_year m d"
proof -
  have "0 \<le> month_prime m" using assms by (simp add: month_prime_def)
  moreover have "march_year y m - march_year y m div 400 * 400 = march_year y m mod 400"
    by (simp add: minus_div_mult_eq_mod)
  ultimately show ?thesis
    using era_closed_form[of "march_year y m"]
    unfolding days_from_civil_def Let_def march_year_def[symmetric] month_prime_def[symmetric]
      sdiv_floor_eras(1)
    by (simp add: sdiv_nonneg days_before_march_def day_of_year_def)
qed

lemma div_succ_step:
  fixes y :: int
  assumes "0 < k"
  shows "(y + 1) div k = y div k + (if k dvd y + 1 then 1 else 0)"
proof (cases "k dvd y + 1")
  case True
  then obtain n where n: "y + 1 = k * n" by (auto elim: dvdE)
  then have "y = k * (n - 1) + (k - 1)" by (simp add: algebra_simps)
  then have "y div k = n - 1" by (rule int_div_pos_eq) (use assms in auto)
  with n True assms show ?thesis by simp
next
  case False
  have eq: "y + 1 = k * (y div k) + (y mod k + 1)" by simp
  have "y mod k + 1 \<noteq> k"
  proof
    assume "y mod k + 1 = k"
    then have "y + 1 = k * (y div k + 1)"
      using mult_div_mod_eq[of k y] unfolding distrib_left by linarith
    with False show False by simp
  qed
  then have "(y + 1) div k = y div k"
    using pos_mod_bound[OF assms, of y] pos_mod_sign[OF assms, of y]
    by (intro int_div_pos_eq[OF eq]) linarith+
  with False show ?thesis by simp
qed

lemma days_before_march_succ:
  "days_before_march (y + 1) = days_before_march y + (if is_leap_year (y + 1) then 366 else 365)"
proof -
  have d: "400 dvd y + 1 \<Longrightarrow> 100 dvd y + 1" "100 dvd y + 1 \<Longrightarrow> 4 dvd y + 1" by presburger+
  show ?thesis
    using d by (simp add: days_before_march_def div_succ_step is_leap_year_iff)
qed

text \<open>The civil date that follows a date.\<close>

definition next_day :: "int \<times> nat \<times> nat \<Rightarrow> int \<times> nat \<times> nat" where
  "next_day date = (case date of (y, m, d) \<Rightarrow>
     if d < days_in_month y m then (y, m, d + 1)
     else if m < 12 then (y, m + 1, 1)
     else (y + 1, 1, 1))"

definition date_days :: "int \<times> nat \<times> nat \<Rightarrow> int" where
  "date_days date = (case date of (y, m, d) \<Rightarrow> days_from_civil y m d)"

lemma days_from_civil_next:
  assumes "valid_date y m d"
  shows "date_days (next_day (y, m, d)) = days_from_civil y m d + 1"
proof -
  from assms have m: "1 \<le> m" "m \<le> 12" and d: "d \<le> days_in_month y m"
    by (simp_all add: valid_date_def)
  show ?thesis
  proof (cases "d < days_in_month y m")
    case True
    with m show ?thesis
      by (simp add: next_day_def date_days_def days_from_civil_closed_form day_of_year_def)
  next
    case False
    with d have "d = days_in_month y m" by simp
    with m days_before_march_succ[of "y - 1"] show ?thesis
      by (cases m rule: month_cases)
        (simp_all add: next_day_def date_days_def days_from_civil_closed_form day_of_year_def
          month_prime_def march_year_def days_in_month_def)
  qed
qed

lemma div_le_self: "0 \<le> (x::int) \<Longrightarrow> 0 < k \<Longrightarrow> x div k \<le> x"
  using zdiv_mono2[of x 1 k] by simp

lemma civil_from_days_of_parts:
  assumes "era_day c q r doy" and n: "n + 719468 = 146097 * e + (36524 * c + 1461 * q + 365 * r + doy)"
    and v: "day_of_year m d = doy" "1 \<le> m" "m \<le> 12" "1 \<le> d" "d \<le> 31" "(5 * doy + 2) div 153 = month_prime m"
    and y: "march_year y m = 400 * e + (100 * c + 4 * q + r)"
    and b: "- 2147483248 \<le> y" "y < 2147483648"
  shows "civil_from_days n = (y, m, d)"
proof -
  let ?doe = "36524 * c + 1461 * q + 365 * r + doy"
  note p = assms(1)[unfolded era_day_def]
  have doe: "0 \<le> ?doe" "?doe < 146097" using p by auto
  have era: "(n + 719468) div 146097 = e" unfolding n using doe by simp
  have eb: "- 2147483648 \<le> e * 400" "e * 400 < 2147483648" "- 2147483648 \<le> e" "e < 2147483648"
    using y b p by (auto simp: march_year_def split: if_splits)
  have yoe: "(?doe - ?doe sdiv 1460 + ?doe sdiv 36524 - ?doe sdiv 146096) sdiv 365 = 100 * c + 4 * q + r"
  proof -
    have "0 \<le> ?doe - ?doe div 1460 + ?doe div 36524 - ?doe div 146096"
      using doe zdiv_mono2[of ?doe 36524 146096] div_le_self[of ?doe 1460] by linarith
    then show ?thesis using era_day_year[OF assms(1) refl] doe by (simp add: sdiv_nonneg)
  qed
  have parts: "(100 * c + 4 * q + r) sdiv 4 = 25 * c + q" "(100 * c + 4 * q + r) sdiv 100 = c"
    using yoe_parts[of c q r] p by (simp_all add: sdiv_nonneg)
  have mp: "(5 * doy + 2) sdiv 153 = month_prime m" using v p by (simp add: sdiv_nonneg)
  have mp0: "0 \<le> month_prime m" using v by (simp add: month_prime_def)
  have d: "doy - (153 * month_prime m + 2) sdiv 5 + 1 = int d"
    using v(1) mp0 by (simp add: day_of_year_def sdiv_nonneg)
  have z: "n + 719468 - e * 146097 = ?doe" using n by simp
  have yr: "wrap_i32 (wrap_i32 (100 * c + 4 * q + r) + wrap_i32 (wrap_i32 e * 400)) = march_year y m"
  proof -
    have "wrap_i32 (100 * c + 4 * q + r) = 100 * c + 4 * q + r" "wrap_i32 e = e"
      "wrap_i32 (e * 400) = e * 400"
      using p eb by simp_all
    moreover have "wrap_i32 (march_year y m) = march_year y m" using b by (simp add: march_year_def)
    ultimately show ?thesis by (simp add: y algebra_simps)
  qed
  have m1: "nat ((month_prime m + (if month_prime m < 10 then 3 else -9)) mod 2 ^ 32) = m"
    using v(2,3) by (cases m rule: month_cases) (simp_all add: month_prime_def)
  have y1: "wrap_i32 (march_year y m + (if 10 \<le> month_prime m then 1 else 0)) = y"
    using v(2,3) b by (simp add: march_year_def month_prime_def)
  have doy: "?doe - (365 * (100 * c + 4 * q + r) + (25 * c + q) - c) = doy" by simp
  show ?thesis
    unfolding civil_from_days_def Let_def sdiv_floor_eras(2) era z yoe parts doy mp yr m1 y1 d
    using v(5) by (simp add: nat_mod_distrib)
qed

lemma valid_date_parts:
  assumes "valid_date y m d"
  obtains c q r e where "era_day c q r (day_of_year m d)"
    "days_from_civil y m d + 719468 = 146097 * e + (36524 * c + 1461 * q + 365 * r + day_of_year m d)"
    "march_year y m = 400 * e + (100 * c + 4 * q + r)"
proof -
  define Y where "Y = march_year y m"
  define e yoe where "e = Y div 400" and "yoe = Y mod 400"
  define c q r where "c = yoe div 100" and "q = yoe mod 100 div 4" and "r = yoe mod 4"
  have Y: "Y = 400 * e + yoe" and yoe: "0 \<le> yoe" "yoe < 400" unfolding e_def yoe_def by simp_all
  have m4: "yoe mod 4 = yoe mod 100 mod 4" by (simp add: mod_mod_cancel)
  have yoe_eq: "yoe = 100 * c + 4 * q + r"
    unfolding c_def q_def r_def m4
    using mult_div_mod_eq[of 100 yoe] mult_div_mod_eq[of 4 "yoe mod 100"] by linarith
  have b: "0 \<le> c" "c \<le> 3" "0 \<le> q" "q \<le> 24" "0 \<le> r" "r \<le> 3"
    using yoe unfolding c_def q_def r_def by auto
  note doy = day_of_year_props[OF assms]
  have "r = 3 \<and> (q = 24 \<longrightarrow> c = 3)" if "day_of_year m d = 365"
  proof -
    from doy(3)[OF that] have "m = 2" "is_leap_year y" by simp_all
    then have "y = 400 * e + (100 * c + 4 * q + r) + 1"
      using Y yoe_eq by (simp add: Y_def march_year_def)
    with leap_parts[OF b, of e] \<open>is_leap_year y\<close> show ?thesis by simp
  qed
  then have ed: "era_day c q r (day_of_year m d)" unfolding era_day_def using b doy(1,2) by blast
  have "days_from_civil y m d = days_before_march Y + day_of_year m d"
    using assms unfolding Y_def by (intro days_from_civil_closed_form) (simp_all add: valid_date_def)
  moreover have "days_before_march Y + 719468 = e * 146097 + (yoe * 365 + yoe div 4 - yoe div 100)"
    using era_closed_form[of Y] by (simp add: days_before_march_def e_def yoe_def)
  ultimately have "days_from_civil y m d + 719468 =
      146097 * e + (36524 * c + 1461 * q + 365 * r + day_of_year m d)"
    unfolding yoe_eq yoe_parts[OF b] by simp
  with ed show thesis by (rule that) (use Y yoe_eq in \<open>simp add: Y_def\<close>)
qed

lemma valid_date_le_31: "valid_date y m d \<Longrightarrow> d \<le> 31"
  by (auto simp: valid_date_def days_in_month_def split: if_splits)

lemma civil_from_days_from_civil:
  assumes "valid_date y m d" "- 2147483248 \<le> y" "y < 2147483648"
  shows "civil_from_days (days_from_civil y m d) = (y, m, d)"
proof -
  obtain c q r e where *: "era_day c q r (day_of_year m d)"
    "days_from_civil y m d + 719468 = 146097 * e + (36524 * c + 1461 * q + 365 * r + day_of_year m d)"
    "march_year y m = 400 * e + (100 * c + 4 * q + r)"
    using valid_date_parts[OF assms(1)] .
  show ?thesis
    using *(1,2) refl _ _ _ valid_date_le_31[OF assms(1)] day_of_year_props(4)[OF assms(1)] *(3) assms(2,3)
    by (rule civil_from_days_of_parts) (use assms(1) in \<open>simp_all add: valid_date_def\<close>)
qed

text \<open>Every day number is the number of a date.\<close>

lemma date_of_days_exists:
  obtains y m d where "valid_date y m d" "days_from_civil y m d = n"
    "400 * ((n + 719468) div 146097) \<le> y" "y \<le> 400 * ((n + 719468) div 146097) + 400"
proof -
  define e doe where "e = (n + 719468) div 146097" and "doe = (n + 719468) mod 146097"
  have n: "n + 719468 = 146097 * e + doe" and doe: "0 \<le> doe" "doe < 146097"
    unfolding e_def doe_def by simp_all
  obtain c q r doy where ed: "era_day c q r doy" and doe_eq: "doe = 36524 * c + 1461 * q + 365 * r + doy"
    using era_day_exists[OF doe] .
  note b = ed[unfolded era_day_def]
  let ?leap = "r = 3 \<and> (q = 24 \<longrightarrow> c = 3)"
  obtain m d where md: "1 \<le> m" "m \<le> 12" "1 \<le> d" "day_of_year m d = doy"
    "\<And>y. (m = 2 \<Longrightarrow> is_leap_year y = ?leap) \<Longrightarrow> d \<le> days_in_month y m"
    by (rule day_of_year_exists[of doy ?leap]) (use b in auto)
  define y where "y = 400 * e + (100 * c + 4 * q + r) + (if m \<le> 2 then 1 else 0)"
  have "is_leap_year y = ?leap" if "m = 2" using leap_parts[of c q r e] b that by (simp add: y_def)
  with md have v: "valid_date y m d" by (simp add: valid_date_def)
  have my: "march_year y m = 400 * e + (100 * c + 4 * q + r)" by (simp add: march_year_def y_def)
  have "march_year y m div 400 = e" "march_year y m mod 400 = 100 * c + 4 * q + r"
    unfolding my using b by (auto intro!: int_div_pos_eq int_mod_pos_eq)
  then have "days_before_march (march_year y m) + 719468 = e * 146097 + (365 * (100 * c + 4 * q + r) + (25 * c + q) - c)"
    using era_closed_form[of "march_year y m"] yoe_parts[of c q r] b by (simp add: days_before_march_def)
  then have "days_from_civil y m d = n"
    using days_from_civil_closed_form[OF md(1,2), of y d] md(4) n doe_eq by simp
  with v show thesis by (rule that) (use b in \<open>auto simp: y_def e_def\<close>)
qed

lemma days_from_civil_from_days:
  assumes "- 784000000000 \<le> n" "n \<le> 784000000000"
  obtains y m d where "civil_from_days n = (y, m, d)" "valid_date y m d" "days_from_civil y m d = n"
proof -
  obtain y m d where v: "valid_date y m d" "days_from_civil y m d = n"
    and y: "400 * ((n + 719468) div 146097) \<le> y" "y \<le> 400 * ((n + 719468) div 146097) + 400"
    using date_of_days_exists .
  have "- 5366296 \<le> (n + 719468) div 146097" "(n + 719468) div 146097 \<le> 5366305"
    using assms by linarith+
  then have "- 2147483248 \<le> y" "y < 2147483648" using y by linarith+
  then have "civil_from_days n = (y, m, d)"
    using civil_from_days_from_civil[OF v(1)] v(2) by simp
  then show thesis using v by (rule that)
qed

section \<open>Parsing and printing of timestamps\<close>

lemma digits_no_sign: "all_digits s \<Longrightarrow> CHR ''+'' \<notin> set s \<and> CHR ''-'' \<notin> set s"
  by (auto simp: all_digits_set is_ascii_digit_def)

lemma parse_unsigned_digits:
  assumes "all_digits s" "s \<noteq> []" "number_of_digits s \<le> m"
  shows "parse_unsigned m s = Some (number_of_digits s)"
  using assms digits_no_sign[OF assms(1)] by (cases s) (auto simp: parse_unsigned_def Let_def)

lemma parse_signed_digits:
  assumes "all_digits s" "s \<noteq> []" "lo \<le> int (number_of_digits s)" "int (number_of_digits s) \<le> hi"
  shows "parse_signed lo hi s = Some (int (number_of_digits s))"
  using assms digits_no_sign[OF assms(1)] by (cases s) (auto simp: parse_signed_def Let_def)

lemma number_of_digits_less_width:
  assumes "all_digits s" "length s \<le> k"
  shows "number_of_digits s < 10 ^ k"
proof -
  have "number_of_digits s < 10 ^ length s" using assms(1) by (rule number_of_digits_less)
  also have "\<dots> \<le> 10 ^ k" using assms(2) by (rule power_increasing) simp
  finally show ?thesis .
qed

lemma parse_ascii_u32_iff:
  assumes "length s \<le> 9"
  shows "parse_ascii_u32 s = (if s \<noteq> [] \<and> all_digits s then Some (number_of_digits s) else None)"
proof -
  have "number_of_digits s \<le> 2 ^ 32 - 1" if "all_digits s"
    using number_of_digits_less_width[OF that assms] by simp
  then show ?thesis by (auto simp: parse_ascii_u32_def parse_unsigned_digits)
qed

lemma parse_ascii_i32_iff:
  assumes "length s \<le> 9"
  shows "parse_ascii_i32 s =
    (if s \<noteq> [] \<and> all_digits s then Some (int (number_of_digits s)) else None)"
proof -
  have "number_of_digits s \<le> 2 ^ 31 - 1" if "all_digits s"
    using number_of_digits_less_width[OF that assms] by simp
  then show ?thesis by (auto simp: parse_ascii_i32_def parse_signed_digits)
qed

text \<open>Printing with a fixed width, as a list of that width.\<close>

definition fixed_width :: "nat \<Rightarrow> nat \<Rightarrow> string \<Rightarrow> bool" where
  "fixed_width w n s \<longleftrightarrow> length s = w \<and> all_digits s \<and> number_of_digits s = n"

lemma fixed_width_pad: "n < 10 ^ w \<Longrightarrow> 0 < w \<Longrightarrow> fixed_width w n (pad_left w (show_nat n))"
  by (simp add: fixed_width_def length_pad_left length_show_nat_le)

lemma fixed_width_pad_int:
  "0 \<le> x \<Longrightarrow> x < 10 ^ w \<Longrightarrow> 0 < w \<Longrightarrow> fixed_width w (nat x) (show_int_pad w x)"
  by (simp add: show_int_pad_def fixed_width_pad nat_less_iff)

lemma fixed_width_parse:
  assumes "fixed_width w n s" "0 < w" "w \<le> 9"
  shows "parse_ascii_u32 s = Some n" "parse_ascii_i32 s = Some (int n)"
  using assms by (auto simp: fixed_width_def parse_ascii_u32_iff parse_ascii_i32_iff)

lemma fixed_width_2E:
  assumes "fixed_width 2 n s"
  obtains a b where "s = [a, b]" "is_ascii_digit a" "is_ascii_digit b"
  using assms by (auto simp: fixed_width_def numeral_2_eq_2 length_Suc_conv)

lemma fixed_width_4E:
  assumes "fixed_width 4 n s"
  obtains a b c d where "s = [a, b, c, d]" "is_ascii_digit a" "is_ascii_digit b" "is_ascii_digit c"
    "is_ascii_digit d"
  using assms by (auto simp: fixed_width_def eval_nat_numeral length_Suc_conv)

lemma parse_date_fixed:
  assumes y: "fixed_width 4 y ys" and m: "fixed_width 2 m ms" and d: "fixed_width 2 d ds"
    and v: "valid_date (int y) m d"
  shows "parse_date (ys @ ''-'' @ ms @ ''-'' @ ds) = Some (int y, m, d)"
proof -
  from y obtain a b c e where ys: "ys = [a, b, c, e]" by (rule fixed_width_4E)
  from m obtain f g where ms: "ms = [f, g]" by (rule fixed_width_2E)
  from d obtain h i where ds: "ds = [h, i]" by (rule fixed_width_2E)
  have "parse_ascii_i32 [a, b, c, e] = Some (int y)" "parse_ascii_u32 [f, g] = Some m"
    "parse_ascii_u32 [h, i] = Some d"
    using fixed_width_parse[OF y] fixed_width_parse[OF m] fixed_width_parse[OF d]
    by (simp_all add: ys ms ds)
  then show ?thesis
    using v by (simp add: parse_date_def ys ms ds valid_date_def)
qed

lemma parse_time_fixed:
  assumes h: "fixed_width 2 h hs" and m: "fixed_width 2 m ms" and s: "fixed_width 2 sec ss"
    and b: "h < 24" "m < 60" "sec < 60" and f: "all_digits f"
  shows "parse_time (hs @ '':'' @ ms @ '':'' @ ss @ (if f = [] then [] else CHR ''.'' # f)) =
    Some \<lparr>pt_hour = h, pt_minute = m, pt_second = sec, pt_fraction = f\<rparr>"
proof -
  from h obtain a b where hs: "hs = [a, b]" by (rule fixed_width_2E)
  from m obtain c d where ms: "ms = [c, d]" by (rule fixed_width_2E)
  from s obtain i j where ss: "ss = [i, j]" and ij: "is_ascii_digit i" "is_ascii_digit j"
    by (rule fixed_width_2E)
  have nd: "i \<noteq> CHR ''.''" "j \<noteq> CHR ''.''" using ij by (auto simp: is_ascii_digit_def)
  have p: "parse_ascii_u32 [a, b] = Some h" "parse_ascii_u32 [c, d] = Some m"
    "parse_ascii_u32 [i, j] = Some sec"
    using fixed_width_parse[OF h] fixed_width_parse[OF m] fixed_width_parse[OF s]
    by (simp_all add: hs ms ss)
  show ?thesis
    using p b f nd by (simp add: parse_time_def hs ms ss)
qed

text \<open>The text of an offset: \<open>Z\<close> or a sign with hours and minutes.\<close>

datatype offset = Utc | East nat nat | West nat nat

fun offset_text :: "offset \<Rightarrow> string" where
  "offset_text Utc = ''Z''"
| "offset_text (East h m) = ''+'' @ pad_left 2 (show_nat h) @ '':'' @ pad_left 2 (show_nat m)"
| "offset_text (West h m) = ''-'' @ pad_left 2 (show_nat h) @ '':'' @ pad_left 2 (show_nat m)"

fun offset_seconds_of :: "offset \<Rightarrow> int" where
  "offset_seconds_of Utc = 0"
| "offset_seconds_of (East h m) = int h * 3600 + int m * 60"
| "offset_seconds_of (West h m) = - (int h * 3600 + int m * 60)"

fun valid_offset :: "offset \<Rightarrow> bool" where
  "valid_offset Utc = True"
| "valid_offset (East h m) = (h < 24 \<and> m < 60)"
| "valid_offset (West h m) = (h < 24 \<and> m < 60)"

lemma parse_offset_signed:
  assumes "h < 24" "m < 60"
  shows "parse_offset (CHR ''+'' # pad_left 2 (show_nat h) @ CHR '':'' # pad_left 2 (show_nat m)) =
      Some (int h * 3600 + int m * 60)"
    "parse_offset (CHR ''-'' # pad_left 2 (show_nat h) @ CHR '':'' # pad_left 2 (show_nat m)) =
      Some (- (int h * 3600 + int m * 60))"
proof -
  have fh: "fixed_width 2 h (pad_left 2 (show_nat h))" and fm: "fixed_width 2 m (pad_left 2 (show_nat m))"
    using assms by (auto intro!: fixed_width_pad)
  from fh obtain a b where hs: "pad_left 2 (show_nat h) = [a, b]" by (rule fixed_width_2E)
  from fm obtain c d where ms: "pad_left 2 (show_nat m) = [c, d]" by (rule fixed_width_2E)
  have p: "parse_ascii_u32 [a, b] = Some h" "parse_ascii_u32 [c, d] = Some m"
    using fixed_width_parse[OF fh] fixed_width_parse[OF fm] by (simp_all add: hs ms)
  show "parse_offset (CHR ''+'' # pad_left 2 (show_nat h) @ CHR '':'' # pad_left 2 (show_nat m)) =
      Some (int h * 3600 + int m * 60)"
    "parse_offset (CHR ''-'' # pad_left 2 (show_nat h) @ CHR '':'' # pad_left 2 (show_nat m)) =
      Some (- (int h * 3600 + int m * 60))"
    using p assms by (simp_all add: parse_offset_def hs ms)
qed

lemma two_digits:
  assumes "n < 100"
  obtains a b where "pad_left 2 (show_nat n) = [a, b]" "is_ascii_digit a" "is_ascii_digit b"
  using fixed_width_2E[OF fixed_width_pad[of n 2]] assms by auto

lemma parse_time_and_signed_offset:
  assumes sg: "sg = CHR ''+'' \<or> sg = CHR ''-''" and b: "h < 24" "m < 60"
    and t: "parse_time t = Some pt"
    and off: "parse_offset (sg # pad_left 2 (show_nat h) @ CHR '':'' # pad_left 2 (show_nat m)) = Some secs"
  shows "parse_time_and_offset (t @ sg # pad_left 2 (show_nat h) @ CHR '':'' # pad_left 2 (show_nat m)) =
    Some (pt, secs)"
proof -
  obtain x y where hs: "pad_left 2 (show_nat h) = [x, y]" "is_ascii_digit x" "is_ascii_digit y"
    by (rule two_digits[of h]) (use b in auto)
  obtain v w where ms: "pad_left 2 (show_nat m) = [v, w]" "is_ascii_digit v" "is_ascii_digit w"
    by (rule two_digits[of m]) (use b in auto)
  have nz: "w \<noteq> CHR ''Z''" using ms by (auto simp: is_ascii_digit_def)
  have "\<forall>c\<in>set [x, y, CHR '':'', v, w]. \<not> (c = CHR ''+'' \<or> c = CHR ''-'')"
    using hs ms by (auto simp: is_ascii_digit_def)
  then have "rfind (\<lambda>c. c = CHR ''+'' \<or> c = CHR ''-'') (t @ sg # [x, y, CHR '':'', v, w]) = Some (length t)"
    by (rule rfind_append) (use sg in simp)
  then show ?thesis
    using t off nz by (simp add: parse_time_and_offset_def ends_with_def starts_with_def hs ms)
qed

lemma parse_time_and_offset_text:
  assumes "valid_offset off" and "parse_time t = Some pt"
  shows "parse_time_and_offset (t @ offset_text off) = Some (pt, offset_seconds_of off)"
proof (cases off)
  case Utc
  then show ?thesis using assms(2)
    by (simp add: parse_time_and_offset_def ends_with_def starts_with_def butlast_append)
next
  case (East h m)
  then show ?thesis
    using assms parse_offset_signed(1)[of h m]
      parse_time_and_signed_offset[of "CHR ''+''" h m t pt "int h * 3600 + int m * 60"] by simp
next
  case (West h m)
  then show ?thesis
    using assms parse_offset_signed(2)[of h m]
      parse_time_and_signed_offset[of "CHR ''-''" h m t pt "- (int h * 3600 + int m * 60)"] by simp
qed

text \<open>The canonical text of a timestamp, and the instant it denotes.\<close>

definition timestamp_text ::
  "nat \<Rightarrow> nat \<Rightarrow> nat \<Rightarrow> nat \<Rightarrow> nat \<Rightarrow> nat \<Rightarrow> string \<Rightarrow> offset \<Rightarrow> string" where
  "timestamp_text year month day hour minute second fraction off =
     pad_left 4 (show_nat year) @ ''-'' @ pad_left 2 (show_nat month) @ ''-'' @
     pad_left 2 (show_nat day) @ ''T'' @ pad_left 2 (show_nat hour) @ '':'' @
     pad_left 2 (show_nat minute) @ '':'' @ pad_left 2 (show_nat second) @
     (if fraction = [] then [] else CHR ''.'' # fraction) @ offset_text off"

lemma days_from_civil_bounds:
  assumes "valid_date y m d" "0 \<le> y" "y \<le> 9999"
  shows "\<bar>days_from_civil y m d\<bar> \<le> 4000000"
proof -
  define Y where "Y = march_year y m"
  have "days_from_civil y m d = days_before_march Y + day_of_year m d"
    using assms(1) unfolding Y_def
    by (intro days_from_civil_closed_form) (simp_all add: valid_date_def)
  moreover have "0 \<le> day_of_year m d" "day_of_year m d \<le> 365" using day_of_year_props[OF assms(1)] by auto
  moreover have Y: "- 1 \<le> Y" "Y \<le> 9999" using assms by (auto simp: Y_def march_year_def)
  moreover have "- 1 \<le> Y div k \<and> Y div k \<le> 9999" if "0 < k" for k
  proof (cases "Y = - 1")
    case True
    with that show ?thesis by (simp add: div_eq_minus1)
  next
    case False
    then show ?thesis using Y that div_le_self[of Y k] pos_imp_zdiv_nonneg_iff[of k Y] by auto
  qed
  then have "- 1 \<le> Y div 4 \<and> Y div 4 \<le> 9999" "- 1 \<le> Y div 100 \<and> Y div 100 \<le> 9999"
    "- 1 \<le> Y div 400 \<and> Y div 400 \<le> 9999" by simp_all
  ultimately show ?thesis unfolding days_before_march_def by linarith
qed

lemma no_T_in_time:
  assumes "fixed_width 2 h hs" "fixed_width 2 m ms" "fixed_width 2 sec ss" "all_digits f"
  shows "CHR ''T'' \<notin> set (hs @ '':'' @ ms @ '':'' @ ss @ (if f = [] then [] else CHR ''.'' # f))"
proof -
  have "CHR ''T'' \<notin> set s" if "all_digits s" for s
    using that by (auto simp: all_digits_set is_ascii_digit_def)
  then show ?thesis using assms by (simp add: fixed_width_def)
qed

lemma no_T_in_offset: "valid_offset off \<Longrightarrow> CHR ''T'' \<notin> set (offset_text off)"
proof -
  have "CHR ''T'' \<notin> set (pad_left 2 (show_nat n))" for n
    using all_digits_show_nat[of n] by (auto simp: pad_left_def all_digits_set is_ascii_digit_def)
  then show ?thesis by (cases off) simp_all
qed

lemma parse_rfc3339_parts:
  assumes "parse_date date = Some (y, m, d)" and "CHR ''T'' \<notin> set date" "CHR ''T'' \<notin> set rest"
    and "parse_time_and_offset rest = Some (t, off)"
    and "\<bar>days_from_civil y m d\<bar> \<le> 4000000" "pt_hour t < 24" "pt_minute t < 60" "pt_second t < 60"
    and "\<bar>off\<bar> < 86400"
  shows "parse_rfc3339 (date @ CHR ''T'' # rest) =
    Some \<lparr>rfc_epoch_seconds = days_from_civil y m d * 86400 + int (pt_hour t) * 3600 +
        int (pt_minute t) * 60 + int (pt_second t) - off,
      rfc_fraction = pt_fraction t\<rparr>"
proof -
  have c: "checked_i64 x = Some x" if "\<bar>x\<bar> \<le> 10 ^ 12" for x
    using that by (auto simp: checked_i64_def in_i64_def)
  show ?thesis using assms by (simp add: parse_rfc3339_def c)
qed

lemma parse_rfc3339_timestamp_text:
  assumes "y \<le> 9999" "valid_date (int y) m d" "h < 24" "mi < 60" "se < 60" "all_digits f"
    "valid_offset off"
  shows "parse_rfc3339 (timestamp_text y m d h mi se f off) =
    Some \<lparr>rfc_epoch_seconds = days_from_civil (int y) m d * 86400 + int h * 3600 + int mi * 60 + int se -
        offset_seconds_of off,
      rfc_fraction = f\<rparr>"
proof -
  let ?p = "\<lambda>w n. pad_left w (show_nat n)"
  have md: "m < 100" "d < 100" using assms(2) valid_date_le_31[OF assms(2)] by (auto simp: valid_date_def)
  have fw: "fixed_width 4 y (?p 4 y)" "fixed_width 2 m (?p 2 m)" "fixed_width 2 d (?p 2 d)"
    "fixed_width 2 h (?p 2 h)" "fixed_width 2 mi (?p 2 mi)" "fixed_width 2 se (?p 2 se)"
    using assms md by (auto intro!: fixed_width_pad)
  let ?date = "?p 4 y @ ''-'' @ ?p 2 m @ ''-'' @ ?p 2 d"
  let ?time = "?p 2 h @ '':'' @ ?p 2 mi @ '':'' @ ?p 2 se @ (if f = [] then [] else CHR ''.'' # f)"
  have T: "CHR ''T'' \<notin> set ?date"
    using fw by (auto simp: fixed_width_def all_digits_set is_ascii_digit_def)
  have T': "CHR ''T'' \<notin> set (?time @ offset_text off)"
    using no_T_in_time[OF fw(4-6) assms(6)] no_T_in_offset[OF assms(7)] by simp
  have o: "\<bar>offset_seconds_of off\<bar> < 86400" using assms(7) by (cases off) auto
  have "parse_rfc3339 (?date @ CHR ''T'' # (?time @ offset_text off)) =
    Some \<lparr>rfc_epoch_seconds = days_from_civil (int y) m d * 86400 + int h * 3600 + int mi * 60 + int se -
        offset_seconds_of off,
      rfc_fraction = f\<rparr>"
    using parse_rfc3339_parts[OF parse_date_fixed[OF fw(1-3) assms(2)] T T'
        parse_time_and_offset_text[OF assms(7) parse_time_fixed[OF fw(4-6) assms(3-6)]]
        days_from_civil_bounds[OF assms(2)] _ _ _ o] assms(1,3-5)
    by simp
  then show ?thesis by (simp add: timestamp_text_def)
qed

lemma number_of_digits_inj:
  assumes "length s = length t" "all_digits s" "all_digits t" "number_of_digits s = number_of_digits t"
  shows "s = t"
  using assms
proof (induction s t rule: list_induct2)
  case (Cons c s d t)
  let ?k = "10 ^ length s :: nat"
  have l: "number_of_digits s < ?k" "number_of_digits t < ?k"
    using number_of_digits_less[of s] number_of_digits_less[of t] Cons.prems Cons.hyps by auto
  have eq: "digit_value c * ?k + number_of_digits s = digit_value d * ?k + number_of_digits t"
    using Cons.prems(3) Cons.hyps by simp
  have "digit_value c = (digit_value c * ?k + number_of_digits s) div ?k" using l(1) by simp
  also have "\<dots> = digit_value d" unfolding eq using l(2) by simp
  finally have "digit_value c = digit_value d" .
  then have "c = d"
    using Cons.prems(1,2) digit_char_value by (metis all_digits_simps(2))
  moreover have "s = t"
    by (rule Cons.IH) (use Cons.prems Cons.hyps \<open>digit_value c = digit_value d\<close> in simp_all)
  ultimately show ?case by simp
qed simp

lemma fixed_width_unique:
  assumes "fixed_width w n s" "0 < w"
  shows "s = pad_left w (show_nat n)" "n < 10 ^ w"
proof -
  show n: "n < 10 ^ w" using assms number_of_digits_less[of s] by (auto simp: fixed_width_def)
  show "s = pad_left w (show_nat n)"
    using assms fixed_width_pad[OF n assms(2)] by (auto simp: fixed_width_def intro!: number_of_digits_inj)
qed

lemma parse_ascii_SomeD:
  "length s = w \<Longrightarrow> w \<le> 9 \<Longrightarrow> parse_ascii_u32 s = Some n \<Longrightarrow> fixed_width w n s"
  "length s = w \<Longrightarrow> w \<le> 9 \<Longrightarrow> parse_ascii_i32 s = Some i \<Longrightarrow> fixed_width w (nat i) s \<and> 0 \<le> i"
  by (auto simp: parse_ascii_u32_iff parse_ascii_i32_iff fixed_width_def split: if_splits)

lemma take_drop_nth: "i < length s \<Longrightarrow> drop i s = s ! i # drop (Suc i) s"
  by (rule Cons_nth_drop_Suc[symmetric])

lemma parse_date_SomeD:
  assumes "parse_date s = Some (y, m, d)"
  shows "\<exists>n. y = int n \<and> n \<le> 9999 \<and> valid_date y m d \<and>
    s = pad_left 4 (show_nat n) @ ''-'' @ pad_left 2 (show_nat m) @ ''-'' @ pad_left 2 (show_nat d)"
proof -
  from assms have len: "length s = 10" "s ! 4 = CHR ''-''" "s ! 7 = CHR ''-''"
    and y: "parse_ascii_i32 (take 4 s) = Some y" and m: "parse_ascii_u32 (take 2 (drop 5 s)) = Some m"
    and d: "parse_ascii_u32 (take 2 (drop 8 s)) = Some d" and v: "valid_date y m d"
    by (auto simp: parse_date_def valid_date_def split: if_splits Option.bind_splits)
  have fw: "fixed_width 4 (nat y) (take 4 s)" "0 \<le> y" "fixed_width 2 m (take 2 (drop 5 s))"
    "fixed_width 2 d (take 2 (drop 8 s))"
    using parse_ascii_SomeD(2)[OF _ _ y, of 4] parse_ascii_SomeD(1)[OF _ _ m, of 2]
      parse_ascii_SomeD(1)[OF _ _ d, of 2] len by auto
  have "s = take 4 s @ s ! 4 # take 2 (drop 5 s) @ s ! 7 # take 2 (drop 8 s)"
    using len(1) by (auto simp: eval_nat_numeral length_Suc_conv)
  then have "s = take 4 s @ ''-'' @ take 2 (drop 5 s) @ ''-'' @ take 2 (drop 8 s)"
    using len(2,3) by simp
  then show ?thesis
    using fixed_width_unique[OF fw(1)] fixed_width_unique[OF fw(3)] fixed_width_unique[OF fw(4)] fw(2) v
    by (intro exI[of _ "nat y"]) auto
qed

lemma position_SomeD:
  "position p xs = Some i \<Longrightarrow> i < length xs \<and> p (xs ! i) \<and> (\<forall>j<i. \<not> p (xs ! j))"
  by (induction xs arbitrary: i) (auto simp: nth_Cons split: if_splits nat.splits)

lemma parse_time_SomeD:
  assumes "parse_time s = Some t"
  shows "pt_hour t < 24 \<and> pt_minute t < 60 \<and> pt_second t < 60 \<and> all_digits (pt_fraction t) \<and>
    s = pad_left 2 (show_nat (pt_hour t)) @ '':'' @ pad_left 2 (show_nat (pt_minute t)) @ '':'' @
      pad_left 2 (show_nat (pt_second t)) @
      (if pt_fraction t = [] then [] else CHR ''.'' # pt_fraction t)"
proof -
  from assms have len: "8 \<le> length s" "s ! 2 = CHR '':''" "s ! 5 = CHR '':''"
    by (auto simp: parse_time_def split: if_splits)
  then have s_eq: "s = take 2 s @ '':'' @ take 2 (drop 3 s) @ '':'' @ drop 6 s"
    by (auto simp: eval_nat_numeral Suc_le_length_iff)
  obtain h m sec where h: "parse_ascii_u32 (take 2 s) = Some h"
    and m: "parse_ascii_u32 (take 2 (drop 3 s)) = Some m"
    and sec: "parse_ascii_u32 (take 2 (drop 6 s)) = Some sec"
    and t: "pt_hour t = h" "pt_minute t = m" "pt_second t = sec" "all_digits (pt_fraction t)"
    and b: "h < 24" "m < 60" "sec < 60"
    and rest: "drop 8 s = (if pt_fraction t = [] then [] else CHR ''.'' # pt_fraction t)"
  proof (cases "position (\<lambda>c. c = CHR ''.'') (drop 6 s)")
    case None
    then show thesis using assms len
      by (auto simp: parse_time_def split: if_splits Option.bind_splits intro!: that)
  next
    case (Some i)
    then have "i = 2" "i < length (drop 6 s)" "drop 6 s ! i = CHR ''.''" using assms len position_SomeD[OF Some]
      by (auto simp: parse_time_def Let_def split: if_splits Option.bind_splits)
    then have "drop 8 s = CHR ''.'' # drop 9 s"
      using Cons_nth_drop_Suc[of 8 s] by simp
    then show thesis using assms len Some
      by (auto simp: parse_time_def Let_def add.commute split: if_splits Option.bind_splits intro!: that)
  qed
  have fw: "fixed_width 2 h (take 2 s)" "fixed_width 2 m (take 2 (drop 3 s))"
    "fixed_width 2 sec (take 2 (drop 6 s))"
    using len h m sec by (auto intro!: parse_ascii_SomeD(1))
  have "drop 6 s = take 2 (drop 6 s) @ drop 8 s"
    using append_take_drop_id[of 2 "drop 6 s"] by simp
  then show ?thesis
    using s_eq fixed_width_unique[OF fw(1)] fixed_width_unique[OF fw(2)] fixed_width_unique[OF fw(3)]
      t b rest by simp
qed

lemma parse_offset_SomeD:
  assumes "parse_offset s = Some x"
  shows "\<exists>off. valid_offset off \<and> s = offset_text off \<and> x = offset_seconds_of off"
proof -
  from assms have len: "length s = 6" "s ! 3 = CHR '':''"
    by (auto simp: parse_offset_def split: if_splits)
  obtain sg h m where h: "parse_ascii_u32 (take 2 (drop 1 s)) = Some h"
    and m: "parse_ascii_u32 (take 2 (drop 4 s)) = Some m" and b: "h < 24" "m < 60"
    and sg: "s ! 0 = CHR ''+'' \<and> sg = 1 \<or> s ! 0 = CHR ''-'' \<and> sg = -1"
    and x: "x = sg * (int h * 3600 + int m * 60)"
    using assms by (auto simp: parse_offset_def split: if_splits Option.bind_splits)
  have fw: "fixed_width 2 h (take 2 (drop 1 s))" "fixed_width 2 m (take 2 (drop 4 s))"
    using len h m by (auto intro!: parse_ascii_SomeD(1))
  have "s = s ! 0 # take 2 (drop 1 s) @ '':'' @ take 2 (drop 4 s)"
    using len by (auto simp: eval_nat_numeral length_Suc_conv)
  then have s: "s = s ! 0 # pad_left 2 (show_nat h) @ '':'' @ pad_left 2 (show_nat m)"
    using fixed_width_unique[OF fw(1)] fixed_width_unique[OF fw(2)] by simp
  from sg show ?thesis
  proof
    assume "s ! 0 = CHR ''+'' \<and> sg = 1"
    then show ?thesis using s b x by (intro exI[of _ "East h m"]) simp
  next
    assume "s ! 0 = CHR ''-'' \<and> sg = -1"
    then show ?thesis using s b x by (intro exI[of _ "West h m"]) simp
  qed
qed

lemma parse_time_and_offset_SomeD:
  assumes "parse_time_and_offset s = Some (t, x)"
  shows "\<exists>off time. valid_offset off \<and> parse_time time = Some t \<and> s = time @ offset_text off \<and>
    x = offset_seconds_of off"
proof (cases "ends_with s ''Z''")
  case True
  then show ?thesis using assms
    by (intro exI[of _ Utc] exI[of _ "butlast s"])
       (auto simp: parse_time_and_offset_def ends_with_iff split: Option.bind_splits)
next
  case False
  then obtain i where "parse_offset (drop i s) = Some x" "parse_time (take i s) = Some t"
    using assms by (auto simp: parse_time_and_offset_def split: Option.bind_splits)
  then show ?thesis using parse_offset_SomeD by (metis append_take_drop_id)
qed

lemma parse_rfc3339_SomeD:
  assumes "parse_rfc3339 s = Some p"
  shows "\<exists>y m d h mi se f off. y \<le> 9999 \<and> valid_date (int y) m d \<and> h < 24 \<and> mi < 60 \<and> se < 60 \<and>
    all_digits f \<and> valid_offset off \<and> s = timestamp_text y m d h mi se f off"
proof -
  obtain date rest y m d t x where s: "split_once CHR ''T'' s = Some (date, rest)"
    and d: "parse_date date = Some (y, m, d)" and t: "parse_time_and_offset rest = Some (t, x)"
    using assms by (auto simp: parse_rfc3339_def split: Option.bind_splits if_splits)
  from parse_time_and_offset_SomeD[OF t] obtain off time where o: "valid_offset off"
    "parse_time time = Some t" "rest = time @ offset_text off" by blast
  from parse_date_SomeD[OF d] obtain n where n: "y = int n" "n \<le> 9999" "valid_date y m d"
    "date = pad_left 4 (show_nat n) @ ''-'' @ pad_left 2 (show_nat m) @ ''-'' @ pad_left 2 (show_nat d)"
    by blast
  note t' = parse_time_SomeD[OF o(2)]
  have "s = timestamp_text n m d (pt_hour t) (pt_minute t) (pt_second t) (pt_fraction t) off"
    unfolding timestamp_text_def using split_once_SomeD[OF s] n(4) o(3) t' by simp
  then show ?thesis using n(1-3) o(1) t' by blast
qed

section \<open>Comparison of timestamps\<close>

text \<open>The instant a parsed timestamp denotes, in seconds since the epoch.\<close>

definition instant :: "parsed_rfc3339 \<Rightarrow> rat" where
  "instant p = of_int (rfc_epoch_seconds p) +
     of_nat (number_of_digits (rfc_fraction p)) / 10 ^ length (rfc_fraction p)"

definition fraction_value :: "string \<Rightarrow> rat" where
  "fraction_value f = of_nat (number_of_digits f) / 10 ^ length f"

text \<open>Padding with zeroes on the right keeps the value of a fraction.\<close>

definition pad_right :: "nat \<Rightarrow> string \<Rightarrow> string" where
  "pad_right n s = s @ replicate (n - length s) CHR ''0''"

lemma fraction_value_pad: "fraction_value (pad_right n f) = fraction_value f"
  by (simp add: fraction_value_def pad_right_def number_of_digits_append power_add)

lemma digit_at_pad: "i < n \<Longrightarrow> digit_at s i = pad_right n s ! i" if "length s \<le> n"
  using that by (auto simp: digit_at_def pad_right_def nth_append)

fun compare_lists :: "string \<Rightarrow> string \<Rightarrow> ordering" where
  "compare_lists (a # s) (b # t) = then_with (cmp (byte a) (byte b)) (compare_lists s t)"
| "compare_lists _ _ = Equal"

lemma compare_digits_from_lists:
  assumes "length s = n" "length t = n"
  shows "(\<And>i. i < n \<Longrightarrow> digit_at l (k + i) = s ! i) \<Longrightarrow> (\<And>i. i < n \<Longrightarrow> digit_at r (k + i) = t ! i) \<Longrightarrow>
    compare_digits_from l r [k..<k + n] = compare_lists s t"
  using assms
proof (induction n arbitrary: s t k)
  case (Suc n)
  then obtain a s' b t' where st: "s = a # s'" "t = b # t'" "length s' = n" "length t' = n"
    by (auto simp: length_Suc_conv)
  have "digit_at l k = a" "digit_at r k = b"
    using Suc.prems(1)[of 0] Suc.prems(2)[of 0] st by simp_all
  moreover have "compare_digits_from l r [Suc k..<Suc k + n] = compare_lists s' t'"
    using Suc.prems(1)[of "Suc i" for i] Suc.prems(2)[of "Suc i" for i] st
    by (intro Suc.IH) auto
  moreover have "[k..<k + Suc n] = k # [Suc k..<Suc k + n]" by (simp add: upt_conv_Cons)
  ultimately show ?case
    unfolding st by (simp add: cmp_def del: upt_Suc)
qed simp

lemma compare_lists_number:
  assumes "length s = length t" "all_digits s" "all_digits t"
  shows "compare_lists s t = cmp (number_of_digits s) (number_of_digits t)"
  using assms
proof (induction s t rule: list_induct2)
  case (Cons a s b t)
  let ?k = "10 ^ length t :: nat"
  have l: "number_of_digits s < ?k" "number_of_digits t < ?k"
    using number_of_digits_less[of s] number_of_digits_less[of t] Cons.prems Cons.hyps by auto
  have le: "digit_value x * ?k + p < digit_value y * ?k + q"
    if "digit_value x < digit_value y" "p < ?k" for x y p q
  proof -
    have "digit_value x * ?k + p < Suc (digit_value x) * ?k" using that by simp
    also have "\<dots> \<le> digit_value y * ?k" using that by (intro mult_le_mono1) simp
    finally show ?thesis by simp
  qed
  have ab: "byte a = digit_value a + 48" "byte b = digit_value b + 48"
    using Cons.prems by (auto simp: digit_value_def is_ascii_digit_def)
  consider "digit_value a < digit_value b" | "digit_value a = digit_value b" | "digit_value b < digit_value a"
    by linarith
  then show ?case
  proof cases
    case 1
    then show ?thesis using le[OF 1 l(1), of "number_of_digits t"] Cons.hyps by (simp add: cmp_def ab)
  next
    case 2
    then show ?thesis using Cons by (simp add: cmp_def ab)
  next
    case 3
    then show ?thesis using le[OF 3 l(2), of "number_of_digits s"] Cons.hyps by (simp add: cmp_def ab)
  qed
qed simp

lemma compare_fractional_seconds_value:
  assumes "all_digits l" "all_digits r"
  shows "compare_fractional_seconds l r = cmp (fraction_value l) (fraction_value r)"
proof -
  define n where "n = max (length l) (length r)"
  have len: "length (pad_right n l) = n" "length (pad_right n r) = n" and dig: "all_digits (pad_right n l)" "all_digits (pad_right n r)"
    using assms by (simp_all add: pad_right_def n_def)
  have "compare_fractional_seconds l r = compare_lists (pad_right n l) (pad_right n r)"
    unfolding compare_fractional_seconds_def n_def[symmetric]
    using compare_digits_from_lists[OF len, of l 0 r] digit_at_pad[of l n] digit_at_pad[of r n]
    by (simp add: n_def)
  also have "\<dots> = cmp (number_of_digits (pad_right n l)) (number_of_digits (pad_right n r))"
    using len dig by (simp add: compare_lists_number)
  also have "\<dots> = cmp (fraction_value (pad_right n l)) (fraction_value (pad_right n r))"
    using len by (simp add: cmp_def fraction_value_def divide_less_cancel)
  finally show ?thesis by (simp add: fraction_value_pad)
qed

lemma fraction_value_bounds: "all_digits f \<Longrightarrow> 0 \<le> fraction_value f \<and> fraction_value f < 1"
  using number_of_digits_less[of f] by (simp add: fraction_value_def flip: of_nat_power)

lemma compare_rfc3339_instant:
  assumes "all_digits (rfc_fraction l)" "all_digits (rfc_fraction r)"
  shows "compare_rfc3339 l r = cmp (instant l) (instant r)"
proof -
  let ?l = "rfc_epoch_seconds l" and ?r = "rfc_epoch_seconds r"
  let ?fl = "fraction_value (rfc_fraction l)" and ?fr = "fraction_value (rfc_fraction r)"
  have i: "instant l = of_int ?l + ?fl" "instant r = of_int ?r + ?fr"
    by (simp_all add: instant_def fraction_value_def)
  have b: "0 \<le> ?fl" "?fl < 1" "0 \<le> ?fr" "?fr < 1" using fraction_value_bounds assms by auto
  have lt: "of_int a + x < of_int b + y" if "a < b" "x < 1" "0 \<le> y" for a b :: int and x y :: rat
  proof -
    have "of_int a + x < of_int (a + 1)" using that by simp
    also have "\<dots> \<le> (of_int b :: rat)" using that unfolding of_int_le_iff by simp
    finally show ?thesis using that by simp
  qed
  consider "?l < ?r" | "?l = ?r" | "?r < ?l" by linarith
  then show ?thesis
  proof cases
    case 1
    then show ?thesis using lt[OF 1 b(2,3)] by (simp add: compare_rfc3339_def i cmp_def)
  next
    case 2
    then show ?thesis
      by (simp add: compare_rfc3339_def i compare_fractional_seconds_value[OF assms] cmp_def)
  next
    case 3
    then show ?thesis using lt[OF 3 b(4,1)] by (simp add: compare_rfc3339_def i cmp_def)
  qed
qed

section \<open>Round trips of the simulation's timestamps\<close>

lemma sim_calendar_same:
  "sim_days_in_month = days_in_month" "sim_days_from_civil = days_from_civil"
  by (intro ext; simp add: sim_days_in_month_def days_in_month_def is_leap_year_def)
     (intro ext; simp add: sim_days_from_civil_def days_from_civil_def Let_def)

lemma days_before_march_mono: "y \<le> y' \<Longrightarrow> days_before_march y \<le> days_before_march y'"
  by (induction y' rule: int_ge_induct) (auto simp: days_before_march_succ)

lemma year_days_bounds:
  assumes "valid_date y m d"
  shows "days_before_march (y - 1) + 306 \<le> days_from_civil y m d"
    "days_from_civil y m d < days_before_march y + 306"
proof -
  have m: "1 \<le> m" "m \<le> 12" using assms by (simp_all add: valid_date_def)
  have eq: "days_from_civil y m d = days_before_march (march_year y m) + day_of_year m d"
    using m by (rule days_from_civil_closed_form)
  have doy: "0 \<le> day_of_year m d" "day_of_year m d \<le> 365" using day_of_year_props[OF assms] by auto
  have s: "days_before_march (y - 1) + 365 \<le> days_before_march y"
    using days_before_march_succ[of "y - 1"] by simp
  have lo: "m \<le> 2 \<Longrightarrow> 306 \<le> day_of_year m d" and hi: "\<not> m \<le> 2 \<Longrightarrow> day_of_year m d \<le> 305"
    using m assms by (cases m rule: month_cases;
      auto simp: valid_date_def day_of_year_def month_prime_def days_in_month_def)+
  show "days_before_march (y - 1) + 306 \<le> days_from_civil y m d"
    "days_from_civil y m d < days_before_march y + 306"
    using lo hi doy s eq by (auto simp: march_year_def split: if_splits)
qed

lemma year_in_range:
  assumes "valid_date y m d" "- 719528 \<le> days_from_civil y m d" "days_from_civil y m d \<le> 2932896"
  shows "0 \<le> y" "y \<le> 9999"
proof -
  show "0 \<le> y"
  proof (rule ccontr)
    assume "\<not> 0 \<le> y"
    then have "days_before_march y \<le> days_before_march (-1)" by (intro days_before_march_mono) simp
    then show False using year_days_bounds(2)[OF assms(1)] assms(2) by (simp add: days_before_march_def)
  qed
  show "y \<le> 9999"
  proof (rule ccontr)
    assume "\<not> y \<le> 9999"
    then have "days_before_march 9999 \<le> days_before_march (y - 1)"
      by (intro days_before_march_mono) simp
    then show False using year_days_bounds(1)[OF assms(1)] assms(3) by (simp add: days_before_march_def)
  qed
qed

lemma date_of_day_number:
  assumes "- 719528 \<le> n" "n \<le> 2932896"
  obtains y m d where "civil_from_days n = (int y, m, d)" "valid_date (int y) m d" "y \<le> 9999"
    "days_from_civil (int y) m d = n"
proof -
  obtain y m d where v: "civil_from_days n = (y, m, d)" "valid_date y m d" "days_from_civil y m d = n"
    using days_from_civil_from_days[of n] assms by auto
  from year_in_range[OF v(2)] v(3) assms have "0 \<le> y" "y \<le> 9999" by simp_all
  then show thesis using that[of "nat y" m d] v by simp
qed

lemma timestamp_for_epoch_text:
  assumes "- 719528 \<le> t div 86400" "t div 86400 \<le> 2932896"
  obtains y m d h mi se where "timestamp_for_epoch t = timestamp_text y m d h mi se [] Utc"
    "y \<le> 9999" "valid_date (int y) m d" "h < 24" "mi < 60" "se < 60"
    "t = days_from_civil (int y) m d * 86400 + int h * 3600 + int mi * 60 + int se"
proof -
  obtain y m d where v: "civil_from_days (t div 86400) = (int y, m, d)" "valid_date (int y) m d"
    "y \<le> 9999" "days_from_civil (int y) m d = t div 86400"
    using date_of_day_number[OF assms] .
  define r where "r = t mod 86400"
  have r: "0 \<le> r" "r < 86400" by (simp_all add: r_def)
  define h mi se where "h = nat (r div 3600)" and "mi = nat (r mod 3600 div 60)" and "se = nat (r mod 60)"
  have b: "h < 24" "mi < 60" "se < 60" using r by (auto simp: h_def mi_def se_def nat_less_iff)
  have sd: "r sdiv 3600 = int h" "(r smod 3600) sdiv 60 = int mi" "r smod 60 = int se"
    using r by (simp_all add: h_def mi_def se_def sdiv_nonneg signed_modulo_int_def sgn_if)
  have i: "int h = r div 3600" "int mi = r mod 3600 div 60" "int se = r mod 3600 mod 60"
    using r by (simp_all add: h_def mi_def se_def mod_mod_cancel)
  have "r = int h * 3600 + int mi * 60 + int se"
    unfolding i by (metis add.assoc div_mult_mod_eq)
  then have t: "t = days_from_civil (int y) m d * 86400 + int h * 3600 + int mi * 60 + int se"
    using v(4) r_def div_mult_mod_eq[of t 86400] by linarith
  have "timestamp_for_epoch t = timestamp_text y m d h mi se [] Utc"
    using v(1) sd by (simp add: timestamp_for_epoch_def timestamp_text_def show_int_pad_def Let_def r_def[symmetric])
  then show thesis using v(3,2) b t by (rule that)
qed

lemma pad_left_not_Nil: "pad_left w (show_nat n) \<noteq> []"
  by (simp add: pad_left_def)

lemma timestamp_for_day_text:
  "timestamp_for_day n = timestamp_for_epoch (n * 86400)"
  by (simp add: timestamp_for_day_def timestamp_for_epoch_def Let_def show_int_pad_def pad_left_def
      show_nat.simps[of 0] digit_char_0 split: prod.splits)

lemma sim_parse_date_fixed:
  assumes "parse_date s = Some (y, m, d)"
  shows "sim_parse_date s = Some (days_from_civil y m d)"
proof -
  have u: "parse_unsigned (2 ^ 32 - 1) x = Some n" if "parse_ascii_u32 x = Some n" for x n
    using that by (simp add: parse_ascii_u32_def split: if_splits)
  have i: "parse_signed (- (2 ^ 31)) (2 ^ 31 - 1) x = Some n" if "parse_ascii_i32 x = Some n" for x n
    using that by (simp add: parse_ascii_i32_def split: if_splits)
  show ?thesis using assms
    by (auto simp: parse_date_def sim_parse_date_def sim_calendar_same dest!: u i
        split: if_splits Option.bind_splits)
qed

lemma ascii_char_boundary:
  "\<forall>c\<in>set s. byte c < 128 \<Longrightarrow> i \<le> length s \<Longrightarrow> is_char_boundary s i"
  using nth_mem[of i s] by (cases "i = length s") (fastforce simp: is_char_boundary_def)+

lemma str_get_parts:
  assumes "\<forall>c\<in>set (d @ x # t @ z). byte c < 128" "length d = 10" "length t = 8"
  shows "str_get 0 10 (d @ x # t @ z) = Some d" "str_get 11 19 (d @ x # t @ z) = Some t"
    "str_get 19 (length (d @ x # t @ z)) (d @ x # t @ z) = Some z"
  using assms(2,3) ascii_char_boundary[OF assms(1)] by (simp_all add: str_get_def)

lemma timestamp_text_ascii:
  assumes "all_digits f"
  shows "\<forall>c\<in>set (timestamp_text y m d h mi se f off). byte c < 128"
proof -
  have p: "\<forall>c\<in>set s. byte c < 128" if "all_digits s" for s
    using that by (auto simp: all_digits_set is_ascii_digit_def)
  have q: "\<forall>c\<in>set (pad_left w (show_nat n)). byte c < 128" for w n by (rule p) simp
  show ?thesis using q p[OF assms] by (cases off) (auto simp: timestamp_text_def)
qed

lemma parse_rfc3339_epoch_text:
  assumes "y \<le> 9999" "valid_date (int y) m d" "h < 24" "mi < 60" "se < 60"
  shows "parse_rfc3339_epoch (timestamp_text y m d h mi se [] Utc) =
    Some (days_from_civil (int y) m d * 86400 + int h * 3600 + int mi * 60 + int se)"
proof -
  let ?p = "\<lambda>w n. pad_left w (show_nat n)"
  let ?s = "timestamp_text y m d h mi se [] Utc"
  let ?date = "?p 4 y @ ''-'' @ ?p 2 m @ ''-'' @ ?p 2 d"
  let ?time = "?p 2 h @ '':'' @ ?p 2 mi @ '':'' @ ?p 2 se"
  have md: "m < 100" "d < 100" using assms(2) valid_date_le_31[OF assms(2)] by (auto simp: valid_date_def)
  have fw: "fixed_width 4 y (?p 4 y)" "fixed_width 2 m (?p 2 m)" "fixed_width 2 d (?p 2 d)"
    "fixed_width 2 h (?p 2 h)" "fixed_width 2 mi (?p 2 mi)" "fixed_width 2 se (?p 2 se)"
    using assms md by (auto intro!: fixed_width_pad)
  have s: "?s = ?date @ CHR ''T'' # ?time @ ''Z''" by (simp add: timestamp_text_def)
  have len: "length ?date = 10" "length ?time = 8" "length ?s = 20"
    using fw by (simp_all add: fixed_width_def timestamp_text_def)
  have asc: "\<forall>c\<in>set (?date @ CHR ''T'' # ?time @ ''Z''). byte c < 128"
    using timestamp_text_ascii[of "[]" y m d h mi se Utc] unfolding s by simp
  then have "\<forall>c\<in>set ?time. byte c < 128" by auto
  then have cbt: "is_char_boundary ?time i" if "i \<le> 8" for i
    using that len by (intro ascii_char_boundary) simp_all
  have g: "str_get 0 10 ?s = Some ?date" "str_get 11 19 ?s = Some ?time"
    "str_get 19 (length ?s) ?s = Some ''Z''"
    unfolding s using str_get_parts[OF asc len(1,2)] by (simp_all only:)
  obtain a b where h2: "?p 2 h = [a, b]" using fw(4) by (rule fixed_width_2E)
  obtain c e where m2: "?p 2 mi = [c, e]" using fw(5) by (rule fixed_width_2E)
  obtain i j where s2: "?p 2 se = [i, j]" using fw(6) by (rule fixed_width_2E)
  have gt: "str_get 0 2 ?time = Some (?p 2 h)" "str_get 3 5 ?time = Some (?p 2 mi)" "str_get 6 8 ?time = Some (?p 2 se)"
    using cbt[of 0] cbt[of 2] cbt[of 3] cbt[of 5] cbt[of 6] cbt[of 8] by (simp_all add: str_get_def h2 m2 s2)
  have pz: "parse_signed (- (2 ^ 63)) (2 ^ 63 - 1) (?p 2 n) = Some (int n)" if "n < 100" for n
    using parse_signed_digits[of "?p 2 n" "- (2 ^ 63)" "2 ^ 63 - 1"] that pad_left_not_Nil by simp
  show ?thesis
    using sim_parse_date_fixed[OF parse_date_fixed[OF fw(1-3) assms(2)]] assms(3-5)
    unfolding parse_rfc3339_epoch_def g Option.bind.bind_lunit Let_def gt by (simp add: pz[simplified])
qed

section \<open>Properties\<close>

lemma valid_date_next_day:
  assumes "valid_date y m d"
  shows "case next_day (y, m, d) of (y', m', d') \<Rightarrow> valid_date y' m' d'"
proof -
  have "0 < days_in_month y' m'" if "1 \<le> m'" "m' \<le> 12" for y' m'
    using that by (cases m' rule: month_cases) (simp_all add: days_in_month_def)
  with assms show ?thesis by (auto simp: next_day_def valid_date_def Suc_le_eq)
qed

text \<open>
  \<open>days_from_civil\<close> counts days from the Unix epoch: it gives 0 on 1970-01-01, and the date that
  follows a valid date is again a valid date and has the next number, in every year and across the
  ends of months, years and leap years.
\<close>

theorem days_from_civil_counts_days:
  "days_from_civil 1970 1 1 = 0 \<and>
   (valid_date y m d \<longrightarrow>
     (case next_day (y, m, d) of (y', m', d') \<Rightarrow>
        valid_date y' m' d' \<and> days_from_civil y' m' d' = days_from_civil y m d + 1))"
proof -
  have "days_from_civil 1970 1 1 = 0" by code_simp
  then show ?thesis
    using valid_date_next_day[of y m d] days_from_civil_next[of y m d]
    by (auto simp: date_days_def split: prod.splits)
qed

theorem days_from_civil_counts_days_witness:
  "valid_date 2024 2 28 \<and> days_from_civil 2024 2 29 = days_from_civil 2024 2 28 + 1"
proof -
  have v: "valid_date 2024 2 28" and n: "next_day (2024, 2, 28) = (2024, 2, 29)" by code_simp+
  then show ?thesis using days_from_civil_counts_days[of 2024 2 28] by simp
qed

text \<open>
  The two conversions of the simulation are inverse to each other: a valid date of any 32-bit
  year (less the 400 lowest ones) is recovered from its day number, and every day number within
  784 thousand million of the epoch gives a valid date with that number. None of the casts and
  32-bit operations of \<open>civil_from_days\<close> wraps around there.
\<close>

theorem civil_days_round_trip:
  "(valid_date y m d \<and> - 2147483248 \<le> y \<and> y < 2147483648 \<longrightarrow>
      civil_from_days (sim_days_from_civil y m d) = (y, m, d)) \<and>
   (- 784000000000 \<le> n \<and> n \<le> 784000000000 \<longrightarrow>
      (case civil_from_days n of (y', m', d') \<Rightarrow>
         valid_date y' m' d' \<and> sim_days_from_civil y' m' d' = n))"
proof (intro conjI impI)
  assume "valid_date y m d \<and> - 2147483248 \<le> y \<and> y < 2147483648"
  then show "civil_from_days (sim_days_from_civil y m d) = (y, m, d)"
    by (simp add: sim_calendar_same civil_from_days_from_civil)
next
  assume "- 784000000000 \<le> n \<and> n \<le> 784000000000"
  then obtain y' m' d' where "civil_from_days n = (y', m', d')" "valid_date y' m' d'"
      "days_from_civil y' m' d' = n"
    using days_from_civil_from_days by blast
  then show "case civil_from_days n of (y', m', d') \<Rightarrow>
      valid_date y' m' d' \<and> sim_days_from_civil y' m' d' = n"
    by (simp add: sim_calendar_same)
qed

theorem civil_days_round_trip_witness:
  "civil_from_days (sim_days_from_civil 2000 2 29) = (2000, 2, 29) \<and>
   (case civil_from_days 19782 of (y', m', d') \<Rightarrow>
      valid_date y' m' d' \<and> sim_days_from_civil y' m' d' = 19782)"
proof -
  have "valid_date 2000 2 29" by code_simp
  then show ?thesis using civil_days_round_trip[of 2000 2 29 19782] by simp
qed

text \<open>
  \<open>parse_rfc3339\<close> accepts exactly the texts of a valid date of the years 0 to 9999, a time of
  day without leap second, an optional fraction of at least one digit and a valid offset, and gives
  the seconds since the epoch of the instant the text denotes; the checked arithmetic never fails.
\<close>

theorem parse_rfc3339_grammar:
  "parse_rfc3339 s = Some p \<longleftrightarrow>
   (\<exists>y m d h mi se f off. s = timestamp_text y m d h mi se f off \<and>
      y \<le> 9999 \<and> valid_date (int y) m d \<and> h < 24 \<and> mi < 60 \<and> se < 60 \<and> all_digits f \<and>
      valid_offset off \<and>
      p = \<lparr>rfc_epoch_seconds = days_from_civil (int y) m d * 86400 + int h * 3600 + int mi * 60 +
            int se - offset_seconds_of off,
          rfc_fraction = f\<rparr>)"
  using parse_rfc3339_SomeD[of s p] parse_rfc3339_timestamp_text by fastforce

text \<open>
  Two accepted timestamps are ordered by \<open>compare_rfc3339\<close> as the instants they denote, exact
  to every digit of their fractions, whatever offsets and numbers of digits they are written with.
\<close>

theorem compare_rfc3339_chronological:
  assumes "parse_rfc3339 a = Some l" "parse_rfc3339 b = Some r"
  shows "compare_rfc3339 l r = cmp (instant l) (instant r)"
proof -
  have "all_digits (rfc_fraction p)" if "parse_rfc3339 s = Some p" for s p
    using parse_rfc3339_SomeD[OF that] parse_rfc3339_timestamp_text that by fastforce
  with assms show ?thesis by (simp add: compare_rfc3339_instant)
qed

theorem compare_rfc3339_chronological_witness:
  "compare_rfc3339 \<lparr>rfc_epoch_seconds = 1735689600, rfc_fraction = ''5''\<rparr>
     \<lparr>rfc_epoch_seconds = 1735689600, rfc_fraction = ''500''\<rparr> =
   cmp (instant \<lparr>rfc_epoch_seconds = 1735689600, rfc_fraction = ''5''\<rparr>)
     (instant \<lparr>rfc_epoch_seconds = 1735689600, rfc_fraction = ''500''\<rparr>)"
proof -
  have "parse_rfc3339 ''2025-01-01T00:00:00.5Z'' = Some \<lparr>rfc_epoch_seconds = 1735689600, rfc_fraction = ''5''\<rparr>"
    and "parse_rfc3339 ''2025-01-01T01:00:00.500+01:00'' =
      Some \<lparr>rfc_epoch_seconds = 1735689600, rfc_fraction = ''500''\<rparr>"
    by (simp_all add: parse_rfc3339_def parse_date_def parse_time_and_offset_def parse_time_def
        parse_offset_def parse_ascii_u32_iff parse_ascii_i32_iff rfind_def days_in_month_def
        days_from_civil_def Let_def checked_i64_def in_i64_def str_eval)
  then show ?thesis by (rule compare_rfc3339_chronological)
qed

lemma timestamp_for_epoch_parsed:
  assumes "- 62167219200 \<le> t" "t \<le> 253402300799"
  shows "parse_rfc3339_epoch (timestamp_for_epoch t) = Some t"
    "parse_rfc3339 (timestamp_for_epoch t) = Some \<lparr>rfc_epoch_seconds = t, rfc_fraction = []\<rparr>"
proof -
  have "- 719528 \<le> t div 86400" "t div 86400 \<le> 2932896" using assms by linarith+
  then obtain y m d h mi se where t: "timestamp_for_epoch t = timestamp_text y m d h mi se [] Utc"
    "y \<le> 9999" "valid_date (int y) m d" "h < 24" "mi < 60" "se < 60"
    "t = days_from_civil (int y) m d * 86400 + int h * 3600 + int mi * 60 + int se"
    by (rule timestamp_for_epoch_text)
  show "parse_rfc3339_epoch (timestamp_for_epoch t) = Some t"
    "parse_rfc3339 (timestamp_for_epoch t) = Some \<lparr>rfc_epoch_seconds = t, rfc_fraction = []\<rparr>"
    using parse_rfc3339_epoch_text[OF t(2-6)] parse_rfc3339_timestamp_text[OF t(2-6), of "[]" Utc]
    by (simp_all add: t(1) flip: t(7))
qed

text \<open>
  C40. A timestamp printed by the simulation for an epoch second of the years 0 to 9999 is read back
  to that second by both parsers, and the timestamp of a day is that of its midnight.
\<close>

theorem simulation_timestamp_round_trip:
  assumes "- 62167219200 \<le> t" "t \<le> 253402300799"
  shows "parse_rfc3339_epoch (timestamp_for_epoch t) = Some t \<and>
    parse_rfc3339 (timestamp_for_epoch t) = Some \<lparr>rfc_epoch_seconds = t, rfc_fraction = []\<rparr> \<and>
    timestamp_for_day n = timestamp_for_epoch (n * 86400)"
  using timestamp_for_epoch_parsed[OF assms] by (simp add: timestamp_for_day_text)

theorem simulation_timestamp_round_trip_witness:
  "parse_rfc3339_epoch (timestamp_for_epoch 1709210096) = Some 1709210096 \<and>
   parse_rfc3339 (timestamp_for_epoch 1709210096) =
     Some \<lparr>rfc_epoch_seconds = 1709210096, rfc_fraction = []\<rparr> \<and>
   timestamp_for_day 19782 = timestamp_for_epoch (19782 * 86400)"
  using simulation_timestamp_round_trip[of 1709210096 19782] by simp

end
