(* ===== verification/Bigwig.thy ===== *)
theory Bigwig
  imports Prelude
begin

text \<open>
  The gateway to the chain data service: \<open>src/adapters/bigwig\<close> (\<open>error.rs\<close>, \<open>balances.rs\<close>,
  \<open>client.rs\<close>, \<open>dto/as_of.rs\<close>). The HTTP client, the URL parser and the decoding that
  \<open>serde\<close> derives are parameters; the classification of responses and the hand-written decoding of
  targets and evidence items are modelled. A status code is its number.
\<close>

section \<open>Requests and evidence\<close>

text \<open>\<open>AsOf\<close> of \<open>src/domain/onchain_time/as_of.rs\<close>.\<close>

datatype as_of = Latest | AsOfTimestamp string | AsOfBlockNumber string

datatype bigwig_as_of_dto = DtoLatest | DtoTimestamp string | DtoBlockNumber string

fun bigwig_as_of :: "as_of \<Rightarrow> bigwig_as_of_dto" where
  "bigwig_as_of Latest = DtoLatest"
| "bigwig_as_of (AsOfTimestamp timestamp) = DtoTimestamp timestamp"
| "bigwig_as_of (AsOfBlockNumber block_number) = DtoBlockNumber block_number"

datatype bigwig_target = WireNative | WireErc20 string

record bigwig_request =
  bq_network_slug :: string
  bq_as_of :: bigwig_as_of_dto
  bq_accounts :: "string list"
  bq_tokens :: "bigwig_target list"

datatype bigwig_evidence_status = EvidenceComplete | EvidencePartial | EvidenceFailed

datatype bigwig_primitive = EvmBalances

record bigwig_evidence_network =
  bn_network_slug :: string
  bn_chain_id :: nat

datatype bigwig_resolved_evidence_kind = ExactBlock | ResolvedTimestamp | ObservedHead

record bigwig_resolved_evidence =
  be_kind :: bigwig_resolved_evidence_kind
  be_block_number :: string
  be_block_hash :: string
  be_block_timestamp :: string

datatype bigwig_item_error_code =
    NativeBalanceCallFailed
  | Erc20BalanceCallFailed
  | Erc20BadResponse
  | Erc20ContractCodeAbsentAtEvidenceBlock
  | Erc20BalanceofNotSupported
  | HistoricalEvidenceUnavailable

record bigwig_item_error =
  ie_code :: bigwig_item_error_code
  ie_message :: string

datatype bigwig_evidence_item =
    ItemResolved string bigwig_target string
  | ItemFailed string bigwig_target bigwig_item_error
  | ItemUnavailable string bigwig_target bigwig_item_error

record bigwig_response =
  bp_primitive :: bigwig_primitive
  bp_status :: bigwig_evidence_status
  bp_network :: bigwig_evidence_network
  bp_requested_as_of :: bigwig_as_of_dto
  bp_resolved_evidence :: bigwig_resolved_evidence
  bp_items :: "bigwig_evidence_item list"

text \<open>The hand-written decoding: the fields of the wire structures are the arguments.\<close>

definition decode_target :: "string \<Rightarrow> string option \<Rightarrow> (bigwig_target, string) result" where
  "decode_target kind contract_address =
     (if kind = ''native'' \<and> contract_address = None then Ok WireNative
      else case (kind = ''erc20'', contract_address) of
        (True, Some address) \<Rightarrow> Ok (WireErc20 address)
      | _ \<Rightarrow> if kind = ''native'' \<or> kind = ''erc20'' then Err ''invalid balance target shape''
             else Err ''unknown balance target kind'')"

datatype wire_status = WireResolved | WireFailed | WireUnavailable

definition decode_evidence_item ::
  "string \<Rightarrow> bigwig_target \<Rightarrow> wire_status \<Rightarrow> string option \<Rightarrow> bigwig_item_error option \<Rightarrow>
   (bigwig_evidence_item, string) result" where
  "decode_evidence_item account_address target status amount error =
     (case (status, amount, error) of
        (WireResolved, Some raw_amount, None) \<Rightarrow> Ok (ItemResolved account_address target raw_amount)
      | (WireFailed, None, Some e) \<Rightarrow> Ok (ItemFailed account_address target e)
      | (WireUnavailable, None, Some e) \<Rightarrow> Ok (ItemUnavailable account_address target e)
      | _ \<Rightarrow> Err ''invalid balance evidence item shape'')"

section \<open>Errors\<close>

datatype bigwig_request_validation_code =
    RvMalformedBody
  | RvEmptyAccounts
  | RvEmptyTargets
  | RvInvalidAccount
  | RvDuplicateAccount
  | RvInvalidTarget
  | RvDuplicateTarget
  | RvRequestTooLarge

datatype bigwig_error =
    BwTransport
  | BwTimeout
  | BwInvalidExtractionRequest
  | BwUnauthorized
  | BwUnsupportedNetwork
  | BwNetworkNotEnabledForOperation
  | BwNoRouteSatisfiesOperation
  | BwRateLimited "nat option"
  | BwInvalidAddress
  | BwInvalidContractAddress
  | BwInvalidDirection
  | BwInvalidWindowShape
  | BwInvalidAsOf
  | BwReversedBlockRange
  | BwBlockOutOfRange
  | BwReversedTimestampRange
  | BwTimestampAnchorNotConfigured
  | BwTimestampOutOfRange
  | BwLookbackTooLarge
  | BwRangeTooLarge
  | BwTooManyContractAddresses
  | BwRpcError
  | BwProviderUnavailable "nat option"
  | BwProviderTimeout
  | BwExtractionTimeout
  | BwInternalError
  | BwRequestValidation bigwig_request_validation_code
  | BwMalformedSuccessResponse
  | BwMalformedErrorResponse
  | BwUnexpectedSuccessStatus nat
  | BwUnexpectedErrorResponse nat

text \<open>\<open>envelope_code\<close> decodes the body of an error, \<open>None\<close> where it has not the shape of the contract.\<close>

definition map_error_response ::
  "(string \<Rightarrow> string option) \<Rightarrow> nat \<Rightarrow> string \<Rightarrow> nat option \<Rightarrow> bigwig_error" where
  "map_error_response envelope_code status body retry_after_seconds =
     (case envelope_code body of
        None \<Rightarrow> BwMalformedErrorResponse
      | Some code \<Rightarrow>
          if status = 400 \<and> code = ''malformed_body'' then BwRequestValidation RvMalformedBody
          else if status = 400 \<and> code = ''empty_accounts'' then BwRequestValidation RvEmptyAccounts
          else if status = 400 \<and> code = ''empty_targets'' then BwRequestValidation RvEmptyTargets
          else if status = 400 \<and> code = ''invalid_account'' then BwRequestValidation RvInvalidAccount
          else if status = 400 \<and> code = ''duplicate_account'' then BwRequestValidation RvDuplicateAccount
          else if status = 400 \<and> code = ''invalid_target'' then BwRequestValidation RvInvalidTarget
          else if status = 400 \<and> code = ''duplicate_target'' then BwRequestValidation RvDuplicateTarget
          else if status = 400 \<and> code = ''request_too_large'' then BwRequestValidation RvRequestTooLarge
          else if status = 400 \<and> code = ''invalid_extraction_request'' then BwInvalidExtractionRequest
          else if status = 400 \<and> code = ''invalid_address'' then BwInvalidAddress
          else if status = 400 \<and> code = ''invalid_contract_address'' then BwInvalidContractAddress
          else if status = 400 \<and> code = ''invalid_direction'' then BwInvalidDirection
          else if status = 400 \<and> code = ''invalid_window_shape'' then BwInvalidWindowShape
          else if status = 400 \<and> code = ''invalid_as_of'' then BwInvalidAsOf
          else if status = 401 \<and> code = ''unauthorized'' then BwUnauthorized
          else if status = 404 \<and> code = ''unsupported_network'' then BwUnsupportedNetwork
          else if status = 422 \<and> code = ''network_not_enabled_for_operation'' then BwNetworkNotEnabledForOperation
          else if status = 422 \<and> code = ''no_route_satisfies_operation'' then BwNoRouteSatisfiesOperation
          else if status = 422 \<and> code = ''reversed_block_range'' then BwReversedBlockRange
          else if status = 422 \<and> code = ''block_out_of_range'' then BwBlockOutOfRange
          else if status = 422 \<and> code = ''reversed_timestamp_range'' then BwReversedTimestampRange
          else if status = 422 \<and> code = ''timestamp_anchor_not_configured'' then BwTimestampAnchorNotConfigured
          else if status = 422 \<and> code = ''timestamp_out_of_range'' then BwTimestampOutOfRange
          else if status = 422 \<and> code = ''lookback_too_large'' then BwLookbackTooLarge
          else if status = 422 \<and> code = ''range_too_large'' then BwRangeTooLarge
          else if status = 422 \<and> code = ''too_many_contract_addresses'' then BwTooManyContractAddresses
          else if status = 429 \<and> code = ''gateway_rate_limited'' then BwRateLimited retry_after_seconds
          else if status = 502 \<and> code = ''rpc_error'' then BwRpcError
          else if status = 503 \<and> code = ''provider_unavailable'' then BwProviderUnavailable retry_after_seconds
          else if status = 504 \<and> code = ''provider_timeout'' then BwProviderTimeout
          else if status = 504 \<and> code = ''extraction_timeout'' then BwExtractionTimeout
          else if status = 500 \<and> code = ''internal_error'' then BwInternalError
          else BwUnexpectedErrorResponse status)"

section \<open>The client\<close>

text \<open>A response as the HTTP client delivers it; reading the body may fail.\<close>

datatype reqwest_error = IsTimeout | OtherFailure

record http_response =
  hr_status :: nat
  hr_retry_after :: "string option"
  hr_body :: "(string, reqwest_error) result"

fun map_reqwest_error :: "reqwest_error \<Rightarrow> bigwig_error" where
  "map_reqwest_error IsTimeout = BwTimeout"
| "map_reqwest_error OtherFailure = BwTransport"

definition retry_after_of :: "http_response \<Rightarrow> nat option" where
  "retry_after_of response =
     (case hr_retry_after response of
        None \<Rightarrow> None
      | Some text \<Rightarrow> parse_unsigned (2 ^ 64 - 1) (trim text))"

definition is_success :: "nat \<Rightarrow> bool" where
  "is_success status \<longleftrightarrow> 200 \<le> status \<and> status < 300"

definition client_balances ::
  "(bigwig_request \<Rightarrow> (http_response, reqwest_error) result) \<Rightarrow> (string \<Rightarrow> bigwig_response option) \<Rightarrow>
   (string \<Rightarrow> string option) \<Rightarrow> bigwig_request \<Rightarrow> (bigwig_response, bigwig_error) result" where
  "client_balances send from_slice envelope_code request =
     and_then (map_err map_reqwest_error (send request)) (\<lambda>response.
     let status = hr_status response; retry_after_seconds = retry_after_of response in
     and_then (map_err map_reqwest_error (hr_body response)) (\<lambda>body.
     if status = 200 then ok_or (from_slice body) BwMalformedSuccessResponse
     else if is_success status then Err (BwUnexpectedSuccessStatus status)
     else Err (map_error_response envelope_code status body retry_after_seconds)))"

definition client_search_erc20_transfers ::
  "('q \<Rightarrow> (http_response, reqwest_error) result) \<Rightarrow> (string \<Rightarrow> 'p option) \<Rightarrow>
   (string \<Rightarrow> string option) \<Rightarrow> 'q \<Rightarrow> ('p, bigwig_error) result" where
  "client_search_erc20_transfers send from_slice envelope_code request =
     and_then (map_err map_reqwest_error (send request)) (\<lambda>response.
     let status = hr_status response; retry_after_seconds = retry_after_of response in
     and_then (map_err map_reqwest_error (hr_body response)) (\<lambda>body.
     if status = 200 then ok_or (from_slice body) BwMalformedSuccessResponse
     else if is_success status then Err (BwUnexpectedSuccessStatus status)
     else Err (map_error_response envelope_code status body retry_after_seconds)))"

record async_report_call =
  rc_report_id :: string
  rc_report_type :: string
  rc_report_version :: int
  rc_input :: json

definition execute_async_report ::
  "(async_report_call \<Rightarrow> (http_response, reqwest_error) result) \<Rightarrow> (string \<Rightarrow> string option) \<Rightarrow>
   async_report_call \<Rightarrow> (unit, bigwig_error) result" where
  "execute_async_report send envelope_code call =
     and_then (map_err map_reqwest_error (send call)) (\<lambda>response.
     let status = hr_status response in
     if status = 202 \<or> status = 200 then Ok ()
     else and_then (map_err map_reqwest_error (hr_body response)) (\<lambda>body.
       Err (map_error_response envelope_code status body None)))"

text \<open>\<open>Value::get\<close>: the keys of a \<open>serde_json\<close> object are distinct.\<close>

fun json_get :: "json \<Rightarrow> string \<Rightarrow> json option" where
  "json_get (JObject entries) k = map_of entries k"
| "json_get _ k = None"

definition archive_rpc ::
  "(string \<Rightarrow> json \<Rightarrow> (http_response, reqwest_error) result) \<Rightarrow> (string \<Rightarrow> json option) \<Rightarrow>
   (string \<Rightarrow> string option) \<Rightarrow> string \<Rightarrow> json \<Rightarrow> (json, bigwig_error) result" where
  "archive_rpc send from_slice envelope_code rpc_method params =
     (if rpc_method \<notin> {''eth_blockNumber'', ''eth_call'', ''eth_getBlockByNumber''}
      then Err BwInvalidExtractionRequest
      else
        and_then (map_err map_reqwest_error (send rpc_method params)) (\<lambda>response.
        let status = hr_status response in
        and_then (map_err map_reqwest_error (hr_body response)) (\<lambda>body.
        if \<not> is_success status then Err (map_error_response envelope_code status body None)
        else
          and_then (ok_or (from_slice body) BwMalformedSuccessResponse) (\<lambda>answer.
          if json_get answer ''error'' \<noteq> None then Err BwRpcError
          else ok_or (json_get answer ''result'') BwMalformedSuccessResponse))))"

text \<open>Construction: \<open>url_parse\<close> returns scheme and host of a base URL.\<close>

datatype bigwig_client_init_error =
    MissingBaseUrl
  | InvalidBaseUrl string
  | MissingToken
  | EmptyToken
  | InvalidTimeout

record bigwig_client =
  bc_base_url :: string
  bc_token :: string
  bc_timeout_ms :: nat
  bc_archive_route :: string

definition DEFAULT_ARCHIVE_ROUTE :: string where
  "DEFAULT_ARCHIVE_ROUTE = ''/v1/rpc/eth/mainnet/archive''"

definition bigwig_client_new ::
  "(string \<Rightarrow> (string \<times> string option, string) result) \<Rightarrow> string \<Rightarrow> string \<Rightarrow> nat \<Rightarrow>
   (bigwig_client, bigwig_client_init_error) result" where
  "bigwig_client_new url_parse base_url token timeout_ms =
     and_then (map_err InvalidBaseUrl (url_parse base_url)) (\<lambda>(scheme, host).
     if scheme \<notin> {''http'', ''https''} \<or> host = None
     then Err (InvalidBaseUrl ''URL must use http or https and include a host'')
     else if trim token = [] then Err EmptyToken
     else if timeout_ms = 0 then Err InvalidTimeout
     else Ok \<lparr>bc_base_url = base_url, bc_token = token, bc_timeout_ms = timeout_ms,
              bc_archive_route = DEFAULT_ARCHIVE_ROUTE\<rparr>)"

definition trim_matches :: "char \<Rightarrow> string \<Rightarrow> string" where
  "trim_matches c s = rev (dropWhile (\<lambda>x. x = c) (rev (dropWhile (\<lambda>x. x = c) s)))"

definition with_archive_route :: "bigwig_client \<Rightarrow> string \<Rightarrow> bigwig_client" where
  "with_archive_route client route =
     client\<lparr>bc_archive_route := ''/'' @ trim_matches CHR ''/'' (trim route)\<rparr>"

text \<open>The fields of the configuration that the client reads.\<close>

record gateway_config =
  gc_infra_gateway_url :: "string option"
  gc_infra_gateway_token :: "string option"
  gc_bigwig_request_timeout_ms :: nat
  gc_bigwig_archive_route :: string

definition bigwig_client_try_from ::
  "(string \<Rightarrow> (string \<times> string option, string) result) \<Rightarrow> gateway_config \<Rightarrow>
   (bigwig_client, bigwig_client_init_error) result" where
  "bigwig_client_try_from url_parse config =
     and_then (ok_or (gc_infra_gateway_url config) MissingBaseUrl) (\<lambda>base_url.
     and_then (ok_or (gc_infra_gateway_token config) MissingToken) (\<lambda>token.
     and_then (bigwig_client_new url_parse base_url token (gc_bigwig_request_timeout_ms config)) (\<lambda>client.
     Ok (with_archive_route client (gc_bigwig_archive_route config)))))"

definition create_bigwig_client ::
  "(string \<Rightarrow> (string \<times> string option, string) result) \<Rightarrow> gateway_config \<Rightarrow> bigwig_client option" where
  "create_bigwig_client url_parse config =
     (case (gc_infra_gateway_url config, gc_infra_gateway_token config) of
        (Some _, Some _) \<Rightarrow>
          (case bigwig_client_try_from url_parse config of Ok client \<Rightarrow> Some client | Err _ \<Rightarrow> None)
      | _ \<Rightarrow> None)"

end
