(* ===== verification/Blocks.thy ===== *)
theory Blocks
  imports Calendar Bigwig
begin

text \<open>
  The block resolver of the portfolio simulation (\<open>src/application/portfolio_simulation.rs\<close>,
  \<open>BlockResolver\<close>): the last block at or before an instant, found by interpolation search over an
  archive node, with a cache of probed blocks. The archive RPC is a parameter (\<open>archive_rpc\<close> of the gateway
  client at its use), and so is the iteration order of the hash map of the cache. The search
  is a \<open>partial_function\<close>: a loop that does not end is the value \<open>None\<close>.
\<close>

section \<open>Hexadecimal numbers\<close>

definition hex_value :: "char \<Rightarrow> nat" where
  "hex_value c =
     (if is_ascii_digit c then byte c - 48
      else if is_ascii_lowercase c then byte c - 87
      else byte c - 55)"

definition number_of_hex :: "string \<Rightarrow> nat" where
  "number_of_hex s = foldl (\<lambda>acc c. acc * 16 + hex_value c) 0 s"

text \<open>\<open>u64::from_str_radix(s, 16)\<close>\<close>

definition u64_from_hex :: "string \<Rightarrow> nat option" where
  "u64_from_hex s =
     (let body = (case s of c # cs \<Rightarrow> if c = CHR ''+'' then cs else s | [] \<Rightarrow> [])
      in if body \<noteq> [] \<and> list_all is_ascii_hexdigit body \<and> number_of_hex body < 2 ^ 64
         then Some (number_of_hex body) else None)"

definition parse_hex :: "string option \<Rightarrow> nat option" where
  "parse_hex v = do { s \<leftarrow> v; body \<leftarrow> strip_prefix_str ''0x'' s; u64_from_hex body }"

definition hex_char :: "nat \<Rightarrow> char" where
  "hex_char d = (if d < 10 then char_of (48 + d) else char_of (87 + d))"

text \<open>\<open>{:x}\<close>\<close>

fun show_hex :: "nat \<Rightarrow> string" where
  "show_hex n = (if n < 16 then [hex_char n] else show_hex (n div 16) @ [hex_char (n mod 16)])"

declare show_hex.simps [simp del]

section \<open>The resolver\<close>

datatype simulation_error =
    InvalidInitialCapital
  | UnsupportedSimulationCurrency
  | InvalidDateRange
  | UnsupportedStrategy
  | HistoricalPricesUnavailable
  | HistoricalPricesMalformed
  | AaveEvidenceUnavailable

record block_evidence =
  bk_number :: nat
  bk_hash :: string
  bk_timestamp :: string
  bk_epoch_seconds :: int

record block_resolver =
  bs_head :: "block_evidence option"
  bs_genesis :: "block_evidence option"
  bs_last_resolved :: "block_evidence option"
  bs_cache :: "(nat \<times> block_evidence) list"

type_synonym archive = "string \<Rightarrow> json \<Rightarrow> (json, bigwig_error) result"

definition new_resolver :: block_resolver where
  "new_resolver = \<lparr>bs_head = None, bs_genesis = None, bs_last_resolved = None, bs_cache = []\<rparr>"

fun as_str :: "json \<Rightarrow> string option" where
  "as_str (JString s) = Some s"
| "as_str _ = None"

definition fetch_block :: "archive \<Rightarrow> nat \<Rightarrow> (block_evidence, simulation_error) result" where
  "fetch_block rpc number =
     and_then (map_err (\<lambda>_. AaveEvidenceUnavailable)
       (rpc ''eth_getBlockByNumber'' (JArray [JString (''0x'' @ show_hex number), JBool False]))) (\<lambda>v.
     and_then (ok_or (parse_hex (json_get v ''timestamp'' \<bind> as_str)) AaveEvidenceUnavailable) (\<lambda>timestamp_raw.
     and_then (ok_or (do { h \<leftarrow> json_get v ''hash'' \<bind> as_str;
                          if starts_with h ''0x'' then Some h else None }) AaveEvidenceUnavailable) (\<lambda>hash.
     Ok \<lparr>bk_number = number, bk_hash = hash, bk_timestamp = timestamp_for_epoch (wrap_i64 (int timestamp_raw)),
         bk_epoch_seconds = wrap_i64 (int timestamp_raw)\<rparr>)))"

definition block ::
  "archive \<Rightarrow> block_resolver \<Rightarrow> nat \<Rightarrow> (block_evidence, simulation_error) result \<times> block_resolver" where
  "block rpc s number =
     (case map_of (bs_cache s) number of
        Some b \<Rightarrow> (Ok b, s)
      | None \<Rightarrow>
          (case fetch_block rpc number of
             Err e \<Rightarrow> (Err e, s)
           | Ok b \<Rightarrow> (Ok b, s\<lparr>bs_cache := (number, b) # bs_cache s\<rparr>)))"

text \<open>
  Called with \<open>low + 1 < high\<close>. The differences of epoch seconds wrap in 64 bits; the product is
  taken in 128 bits and cannot overflow.
\<close>

definition interpolated_block_number :: "int \<Rightarrow> block_evidence \<Rightarrow> block_evidence \<Rightarrow> nat" where
  "interpolated_block_number target low high =
     (let block_span = bk_number high - bk_number low;
          time_span = wrap_i64 (bk_epoch_seconds high - bk_epoch_seconds low) in
      if time_span \<le> 0 then bk_number low + block_span div 2
      else
        let target_offset = nat (min (max (wrap_i64 (target - bk_epoch_seconds low)) 0) time_span);
            estimated_offset = (target_offset * block_span div nat time_span) mod 2 ^ 64 in
        min (max (bk_number low + estimated_offset) (bk_number low + 1)) (bk_number high - 1))"

partial_function (option) block_search ::
  "archive \<Rightarrow> int \<Rightarrow> block_resolver \<Rightarrow> block_evidence \<Rightarrow> block_evidence \<Rightarrow>
   ((block_evidence, simulation_error) result \<times> block_resolver) option" where
  "block_search rpc target s low high =
     (if min (bk_number low + 1) (2 ^ 64 - 1) < bk_number high then
        (case block rpc s (interpolated_block_number target low high) of
           (Err e, s') \<Rightarrow> Some (Err e, s')
         | (Ok b, s') \<Rightarrow>
             if bk_epoch_seconds b \<le> target then block_search rpc target s' b high
             else block_search rpc target s' low b)
      else Some (Ok low, s))"

definition tighten ::
  "int \<Rightarrow> block_evidence \<times> block_evidence \<Rightarrow> block_evidence \<Rightarrow> block_evidence \<times> block_evidence" where
  "tighten target lh b =
     (let (low, high) = lh in
      (if bk_epoch_seconds b \<le> target \<and> bk_number b > bk_number low then b else low,
       if bk_epoch_seconds b > target \<and> bk_number b < bk_number high then b else high))"

definition resolve_head ::
  "archive \<Rightarrow> block_resolver \<Rightarrow> (block_evidence, simulation_error) result \<times> block_resolver" where
  "resolve_head rpc s =
     (case bs_head s of
        Some head \<Rightarrow> (Ok head, s)
      | None \<Rightarrow>
          (case and_then (map_err (\<lambda>_. AaveEvidenceUnavailable) (rpc ''eth_blockNumber'' (JArray [])))
                  (\<lambda>v. ok_or (parse_hex (as_str v)) AaveEvidenceUnavailable) of
             Err e \<Rightarrow> (Err e, s)
           | Ok number \<Rightarrow>
               (case block rpc s number of
                  (Err e, s') \<Rightarrow> (Err e, s')
                | (Ok head, s') \<Rightarrow> (Ok head, s'\<lparr>bs_head := Some head\<rparr>))))"

definition resolve_genesis ::
  "archive \<Rightarrow> block_resolver \<Rightarrow> (block_evidence, simulation_error) result \<times> block_resolver" where
  "resolve_genesis rpc s =
     (case bs_genesis s of
        Some genesis \<Rightarrow> (Ok genesis, s)
      | None \<Rightarrow>
          (case block rpc s 0 of
             (Err e, s') \<Rightarrow> (Err e, s')
           | (Ok genesis, s') \<Rightarrow> (Ok genesis, s'\<lparr>bs_genesis := Some genesis\<rparr>)))"

definition at_or_before ::
  "archive \<Rightarrow> ((nat \<times> block_evidence) list \<Rightarrow> block_evidence list) \<Rightarrow> block_resolver \<Rightarrow> string \<Rightarrow>
   ((block_evidence, simulation_error) result \<times> block_resolver) option" where
  "at_or_before rpc cache_values s timestamp =
     (case parse_rfc3339_epoch timestamp of
        None \<Rightarrow> Some (Err AaveEvidenceUnavailable, s)
      | Some target \<Rightarrow>
        (case resolve_head rpc s of
           (Err e, s) \<Rightarrow> Some (Err e, s)
         | (Ok head, s) \<Rightarrow>
             if target \<ge> bk_epoch_seconds head then Some (Ok head, s\<lparr>bs_last_resolved := Some head\<rparr>)
             else
               (case resolve_genesis rpc s of
                  (Err e, s) \<Rightarrow> Some (Err e, s)
                | (Ok genesis, s) \<Rightarrow>
                    if target < bk_epoch_seconds genesis then Some (Err AaveEvidenceUnavailable, s)
                    else
                      let low = (case bs_last_resolved s of
                                   Some b \<Rightarrow> if bk_epoch_seconds b \<le> target then b else genesis
                                 | None \<Rightarrow> genesis);
                          (low, high) = foldl (tighten target) (low, head) (cache_values (bs_cache s)) in
                      (case block_search rpc target s low high of
                         None \<Rightarrow> None
                       | Some (Err e, s) \<Rightarrow> Some (Err e, s)
                       | Some (Ok b, s) \<Rightarrow> Some (Ok b, s\<lparr>bs_last_resolved := Some b\<rparr>)))))"

text \<open>
  The loop of \<open>load_aave_factors\<close> over the timestamps of a window: the block of each timestamp,
  then what is observed at that block, up to the first error.
\<close>

fun load_observations ::
  "archive \<Rightarrow> ((nat \<times> block_evidence) list \<Rightarrow> block_evidence list) \<Rightarrow>
   (string \<Rightarrow> block_evidence \<Rightarrow> ('o, simulation_error) result) \<Rightarrow> block_resolver \<Rightarrow> string list \<Rightarrow>
   (('o list, simulation_error) result) option" where
  "load_observations rpc cache_values observe s [] = Some (Ok [])"
| "load_observations rpc cache_values observe s (t # ts) =
     (case at_or_before rpc cache_values s t of
        None \<Rightarrow> None
      | Some (Err e, s) \<Rightarrow> Some (Err e)
      | Some (Ok b, s) \<Rightarrow>
          (case observe t b of
             Err e \<Rightarrow> Some (Err e)
           | Ok x \<Rightarrow>
               (case load_observations rpc cache_values observe s ts of
                  Some (Ok xs) \<Rightarrow> Some (Ok (x # xs))
                | Some (Err e) \<Rightarrow> Some (Err e)
                | None \<Rightarrow> None)))"

section \<open>The search ends\<close>

lemma interpolated_inside:
  assumes "bk_number low + 1 < bk_number high"
  shows "bk_number low < interpolated_block_number target low high"
    "interpolated_block_number target low high < bk_number high"
proof -
  let ?l = "bk_number low" and ?h = "bk_number high"
  have mid: "?l < ?l + (?h - ?l) div 2 \<and> ?l + (?h - ?l) div 2 < ?h" using assms by simp
  have clamped: "?l < min (max x (?l + 1)) (?h - 1) \<and> min (max x (?l + 1)) (?h - 1) < ?h" for x
    using assms by linarith
  show "?l < interpolated_block_number target low high" "interpolated_block_number target low high < ?h"
    unfolding interpolated_block_number_def Let_def using mid clamped by (simp_all split: if_split)
qed

definition opt_small :: "block_evidence option \<Rightarrow> bool" where
  "opt_small v \<longleftrightarrow> (case v of None \<Rightarrow> True | Some b \<Rightarrow> bk_number b < 2 ^ 64)"

text \<open>What every state of the resolver satisfies, whatever the node answers.\<close>

definition resolver_sane :: "block_resolver \<Rightarrow> bool" where
  "resolver_sane s \<longleftrightarrow> opt_small (bs_head s) \<and> opt_small (bs_genesis s) \<and> opt_small (bs_last_resolved s) \<and>
     (\<forall>(n, b)\<in>set (bs_cache s). bk_number b = n \<and> n < 2 ^ 64)"

lemma fetch_block_number: "fetch_block rpc n = Ok b \<Longrightarrow> bk_number b = n"
  by (auto simp: fetch_block_def and_then_Ok_iff)

lemma block_sane:
  assumes "resolver_sane s" "n < 2 ^ 64" "block rpc s n = (r, s')"
  shows "resolver_sane s'" "\<And>b. r = Ok b \<Longrightarrow> bk_number b = n"
proof -
  have "resolver_sane s' \<and> (\<forall>b. r = Ok b \<longrightarrow> bk_number b = n)"
  proof (cases "map_of (bs_cache s) n")
    case (Some b)
    then have "(n, b) \<in> set (bs_cache s)" by (rule map_of_SomeD)
    then show ?thesis using assms Some by (auto simp: block_def resolver_sane_def)
  next
    case None
    then show ?thesis using assms fetch_block_number[of rpc n]
      by (cases "fetch_block rpc n") (auto simp: block_def resolver_sane_def)
  qed
  then show "resolver_sane s'" "\<And>b. r = Ok b \<Longrightarrow> bk_number b = n" by blast+
qed

lemma block_search_total:
  assumes "resolver_sane s" "bk_number low < 2 ^ 64" "bk_number high < 2 ^ 64"
  shows "\<exists>r s'. block_search rpc target s low high = Some (r, s') \<and> resolver_sane s' \<and>
    (\<forall>b. r = Ok b \<longrightarrow> bk_number b < 2 ^ 64)"
  using assms
proof (induction "bk_number high - bk_number low" arbitrary: s low high rule: less_induct)
  case less
  let ?m = "interpolated_block_number target low high"
  show ?case
  proof (cases "min (bk_number low + 1) (2 ^ 64 - 1) < bk_number high")
    case True
    then have gap: "bk_number low + 1 < bk_number high" using less.prems(3) by (auto simp: min_def split: if_splits)
    note inside = interpolated_inside[OF gap, of target]
    have small: "?m < 2 ^ 64" using inside(2) less.prems(3) by simp
    obtain r s1 where b: "block rpc s ?m = (r, s1)" by (cases "block rpc s ?m")
    note bs = block_sane[OF less.prems(1) small b]
    show ?thesis
    proof (cases r)
      case (Err e)
      then show ?thesis using True b bs(1) by (subst block_search.simps) simp
    next
      case (Ok blk)
      have n: "bk_number blk = ?m" using bs(2)[OF Ok] .
      show ?thesis
      proof (cases "bk_epoch_seconds blk \<le> target")
        case le: True
        have "bk_number high - bk_number blk < bk_number high - bk_number low" using n inside by simp
        from less.hyps[OF this bs(1) _ less.prems(3)] n small
        show ?thesis using True b Ok le by (subst block_search.simps) simp
      next
        case gt: False
        have "bk_number blk - bk_number low < bk_number high - bk_number low" using n inside by simp
        from less.hyps[OF this bs(1) less.prems(2)] n small
        show ?thesis using True b Ok gt by (subst block_search.simps) simp
      qed
    qed
  next
    case False
    then show ?thesis using less.prems by (subst block_search.simps) simp
  qed
qed

lemma u64_from_hex_less: "u64_from_hex s = Some n \<Longrightarrow> n < 2 ^ 64"
  by (auto simp: u64_from_hex_def Let_def split: if_splits)

lemma parse_hex_less: "parse_hex v = Some n \<Longrightarrow> n < 2 ^ 64"
  using u64_from_hex_less by (auto simp: parse_hex_def bind_eq_Some_conv)

lemma resolve_head_sane:
  assumes "resolver_sane s" "resolve_head rpc s = (r, s')"
  shows "resolver_sane s'" "\<And>b. r = Ok b \<Longrightarrow> bk_number b < 2 ^ 64"
proof -
  have "resolver_sane s' \<and> (\<forall>b. r = Ok b \<longrightarrow> bk_number b < 2 ^ 64)"
  proof (cases "bs_head s")
    case (Some h)
    then show ?thesis using assms by (auto simp: resolve_head_def resolver_sane_def opt_small_def)
  next
    case None
    show ?thesis
    proof (cases "and_then (map_err (\<lambda>_. AaveEvidenceUnavailable) (rpc ''eth_blockNumber'' (JArray [])))
                  (\<lambda>v. ok_or (parse_hex (as_str v)) AaveEvidenceUnavailable)")
      case (Ok n)
      then have n: "n < 2 ^ 64" using parse_hex_less by (auto simp: and_then_Ok_iff ok_or_def split: option.splits)
      obtain q s1 where b: "block rpc s n = (q, s1)" by (cases "block rpc s n")
      show ?thesis
        using assms(2) None Ok b block_sane[OF assms(1) n b] n
        by (cases q) (auto simp: resolve_head_def resolver_sane_def opt_small_def)
    next
      case (Err e)
      then show ?thesis using assms None by (auto simp: resolve_head_def)
    qed
  qed
  then show "resolver_sane s'" "\<And>b. r = Ok b \<Longrightarrow> bk_number b < 2 ^ 64" by blast+
qed

lemma resolve_genesis_sane:
  assumes "resolver_sane s" "resolve_genesis rpc s = (r, s')"
  shows "resolver_sane s'" "\<And>b. r = Ok b \<Longrightarrow> bk_number b < 2 ^ 64"
proof -
  have "resolver_sane s' \<and> (\<forall>b. r = Ok b \<longrightarrow> bk_number b < 2 ^ 64)"
  proof (cases "bs_genesis s")
    case (Some h)
    then show ?thesis using assms by (auto simp: resolve_genesis_def resolver_sane_def opt_small_def)
  next
    case None
    obtain q s1 where b: "block rpc s 0 = (q, s1)" by (cases "block rpc s 0")
    show ?thesis
      using assms(2) None b block_sane[OF assms(1) _ b]
      by (cases q) (auto simp: resolve_genesis_def resolver_sane_def opt_small_def)
  qed
  then show "resolver_sane s'" "\<And>b. r = Ok b \<Longrightarrow> bk_number b < 2 ^ 64" by blast+
qed

text \<open>The iteration over the values of a hash map visits each of them once.\<close>

definition visits_values :: "((nat \<times> block_evidence) list \<Rightarrow> block_evidence list) \<Rightarrow> bool" where
  "visits_values cache_values \<longleftrightarrow> (\<forall>c. mset (cache_values c) = mset (map snd c))"

lemma visited: "visits_values cv \<Longrightarrow> b \<in> set (cv c) \<Longrightarrow> \<exists>n. (n, b) \<in> set c"
proof -
  assume "visits_values cv" "b \<in> set (cv c)"
  then have "b \<in> set (map snd c)" unfolding visits_values_def using mset_eq_setD by blast
  then show ?thesis by force
qed

lemma tighten_invariant:
  assumes "\<And>b. b \<in> set bs \<Longrightarrow> P b" "P low" "P high"
  shows "P (fst (foldl (tighten target) (low, high) bs)) \<and> P (snd (foldl (tighten target) (low, high) bs))"
  using assms
proof (induction bs arbitrary: low high)
  case (Cons b bs)
  then show ?case by (simp add: tighten_def)
qed simp

lemma at_or_before_total:
  assumes "resolver_sane s" "visits_values cv"
  shows "\<exists>r s'. at_or_before rpc cv s timestamp = Some (r, s') \<and> resolver_sane s'"
proof (cases "parse_rfc3339_epoch timestamp")
  case (Some target)
  obtain r1 s1 where h: "resolve_head rpc s = (r1, s1)" by (cases "resolve_head rpc s")
  note hs = resolve_head_sane[OF assms(1) h]
  show ?thesis
  proof (cases r1)
    case (Err e)
    then show ?thesis using Some h hs(1) by (simp add: at_or_before_def)
  next
    case (Ok head)
    show ?thesis
    proof (cases "target \<ge> bk_epoch_seconds head")
      case True
      then show ?thesis using Some h hs Ok by (simp add: at_or_before_def resolver_sane_def opt_small_def)
    next
      case False
      obtain r2 s2 where g: "resolve_genesis rpc s1 = (r2, s2)" by (cases "resolve_genesis rpc s1")
      note gs = resolve_genesis_sane[OF hs(1) g]
      show ?thesis
      proof (cases "\<exists>genesis. r2 = Ok genesis \<and> bk_epoch_seconds genesis \<le> target")
        case False': False
        then show ?thesis using Some h hs Ok False g gs
          by (cases r2) (auto simp: at_or_before_def)
      next
        case True
        then obtain genesis where r2: "r2 = Ok genesis" "bk_epoch_seconds genesis \<le> target" by blast
        let ?low = "case bs_last_resolved s2 of Some b \<Rightarrow> if bk_epoch_seconds b \<le> target then b else genesis | None \<Rightarrow> genesis"
        let ?f = "foldl (tighten target) (?low, head) (cv (bs_cache s2))"
        have "bk_number (fst ?f) < 2 ^ 64 \<and> bk_number (snd ?f) < 2 ^ 64"
        proof (rule tighten_invariant)
          fix b assume "b \<in> set (cv (bs_cache s2))"
          then show "bk_number b < 2 ^ 64" using visited[OF assms(2)] gs(1) by (force simp: resolver_sane_def)
        next
          show "bk_number ?low < 2 ^ 64" using gs r2(1)
            by (auto simp: resolver_sane_def opt_small_def split: option.splits)
        qed (use hs(2) Ok in simp)
        then obtain r s' where "block_search rpc target s2 (fst ?f) (snd ?f) = Some (r, s')" "resolver_sane s'"
          "\<forall>b. r = Ok b \<longrightarrow> bk_number b < 2 ^ 64"
          using block_search_total[OF gs(1)] by blast
        then show ?thesis using Some h Ok False g r2
          by (cases r) (auto simp: at_or_before_def Let_def split_beta resolver_sane_def opt_small_def)
      qed
    qed
  qed
qed (use assms in \<open>simp add: at_or_before_def\<close>)

section \<open>The search is exact\<close>

text \<open>
  An archive node that serves a chain: \<open>head\<close> is its last block, block \<open>n\<close> has the timestamp \<open>ts n\<close> and
  the hash \<open>hash n\<close>, and timestamps do not decrease.
\<close>

definition chain_block :: "(nat \<Rightarrow> nat) \<Rightarrow> (nat \<Rightarrow> string) \<Rightarrow> nat \<Rightarrow> block_evidence" where
  "chain_block ts hash n =
     \<lparr>bk_number = n, bk_hash = hash n, bk_timestamp = timestamp_for_epoch (int (ts n)), bk_epoch_seconds = int (ts n)\<rparr>"

definition serves_chain :: "archive \<Rightarrow> (nat \<Rightarrow> nat) \<Rightarrow> (nat \<Rightarrow> string) \<Rightarrow> nat \<Rightarrow> bool" where
  "serves_chain rpc ts hash head \<longleftrightarrow> head < 2 ^ 64 \<and>
     (\<forall>m n. m \<le> n \<longrightarrow> n \<le> head \<longrightarrow> ts m \<le> ts n) \<and> ts head < 2 ^ 63 \<and>
     (\<exists>t. rpc ''eth_blockNumber'' (JArray []) = Ok (JString t) \<and> parse_hex (Some t) = Some head) \<and>
     (\<forall>n\<le>head. \<exists>v t. rpc ''eth_getBlockByNumber'' (JArray [JString (''0x'' @ show_hex n), JBool False]) = Ok v \<and>
        json_get v ''timestamp'' = Some (JString t) \<and> parse_hex (Some t) = Some (ts n) \<and>
        json_get v ''hash'' = Some (JString (hash n)) \<and> starts_with (hash n) ''0x'')"

definition last_block :: "(nat \<Rightarrow> nat) \<Rightarrow> nat \<Rightarrow> int \<Rightarrow> nat" where
  "last_block ts head target = Max {n. n \<le> head \<and> int (ts n) \<le> target}"

lemma serves_block:
  assumes "serves_chain rpc ts hash head" "n \<le> head"
  shows "fetch_block rpc n = Ok (chain_block ts hash n)"
proof -
  obtain v t where v: "rpc ''eth_getBlockByNumber'' (JArray [JString (''0x'' @ show_hex n), JBool False]) = Ok v"
    "json_get v ''timestamp'' = Some (JString t)" "parse_hex (Some t) = Some (ts n)"
    "json_get v ''hash'' = Some (JString (hash n))" "starts_with (hash n) ''0x''"
    using assms unfolding serves_chain_def by blast
  have "ts n \<le> ts head" "ts head < 2 ^ 63" using assms unfolding serves_chain_def by blast+
  then have "wrap_i64 (int (ts n)) = int (ts n)" by (intro wrap_i64_id) simp_all
  then show ?thesis using v by (simp add: fetch_block_def chain_block_def ok_or_def)
qed

lemma last_block_head: "int (ts head) \<le> target \<Longrightarrow> last_block ts head target = head"
  unfolding last_block_def by (rule Max_eqI) auto

lemma last_block_between:
  assumes "serves_chain rpc ts hash head" "Suc n \<le> head" "int (ts n) \<le> target" "target < int (ts (Suc n))"
  shows "last_block ts head target = n"
  unfolding last_block_def
proof (rule Max_eqI)
  fix m assume m: "m \<in> {m. m \<le> head \<and> int (ts m) \<le> target}"
  show "m \<le> n"
  proof (rule ccontr)
    assume "\<not> m \<le> n"
    then have "ts (Suc n) \<le> ts m" using assms(1) m unfolding serves_chain_def by simp
    then show False using m assms(4) by simp
  qed
qed (use assms in auto)

text \<open>The states of a resolver that only talked to this chain.\<close>

definition on_chain :: "(nat \<Rightarrow> nat) \<Rightarrow> (nat \<Rightarrow> string) \<Rightarrow> nat \<Rightarrow> block_evidence \<Rightarrow> bool" where
  "on_chain ts hash head b \<longleftrightarrow> (\<exists>n\<le>head. b = chain_block ts hash n)"

definition resolver_on_chain :: "(nat \<Rightarrow> nat) \<Rightarrow> (nat \<Rightarrow> string) \<Rightarrow> nat \<Rightarrow> block_resolver \<Rightarrow> bool" where
  "resolver_on_chain ts hash head s \<longleftrightarrow>
     bs_head s \<in> {None, Some (chain_block ts hash head)} \<and> bs_genesis s \<in> {None, Some (chain_block ts hash 0)} \<and>
     (\<forall>b. bs_last_resolved s = Some b \<longrightarrow> on_chain ts hash head b) \<and>
     (\<forall>(n, b)\<in>set (bs_cache s). n \<le> head \<and> b = chain_block ts hash n)"

lemma chain_block_sel [simp]:
  "bk_number (chain_block ts hash n) = n" "bk_epoch_seconds (chain_block ts hash n) = int (ts n)"
  by (simp_all add: chain_block_def)

lemma block_on_chain:
  assumes "serves_chain rpc ts hash head" "resolver_on_chain ts hash head s" "n \<le> head"
  shows "\<exists>s'. block rpc s n = (Ok (chain_block ts hash n), s') \<and> resolver_on_chain ts hash head s' \<and>
    bs_head s' = bs_head s \<and> bs_genesis s' = bs_genesis s"
proof (cases "map_of (bs_cache s) n")
  case (Some b)
  then have "(n, b) \<in> set (bs_cache s)" by (rule map_of_SomeD)
  then have "b = chain_block ts hash n" using assms(2) by (auto simp: resolver_on_chain_def)
  then show ?thesis using Some assms(2) by (simp add: block_def)
next
  case None
  then show ?thesis using serves_block[OF assms(1,3)] assms(2,3) by (auto simp: block_def resolver_on_chain_def)
qed

lemma block_search_exact:
  assumes c: "serves_chain rpc ts hash head" and "resolver_on_chain ts hash head s"
    and "l < h" "h \<le> head" "int (ts l) \<le> target" "target < int (ts h)"
  shows "\<exists>s'. block_search rpc target s (chain_block ts hash l) (chain_block ts hash h) =
      Some (Ok (chain_block ts hash (last_block ts head target)), s') \<and> resolver_on_chain ts hash head s'"
  using assms(2-)
proof (induction "h - l" arbitrary: s l h rule: less_induct)
  case less
  let ?L = "chain_block ts hash l" and ?H = "chain_block ts hash h"
  let ?m = "interpolated_block_number target ?L ?H"
  have h64: "h < 2 ^ 64" using c less.prems(3) by (simp add: serves_chain_def)
  show ?case
  proof (cases "l + 1 < h")
    case True
    then have cond: "min (l + 1) (2 ^ 64 - 1) < h" by simp
    have inside: "l < ?m" "?m < h" using interpolated_inside[of ?L ?H target] True by simp_all
    obtain s1 where b: "block rpc s ?m = (Ok (chain_block ts hash ?m), s1)" "resolver_on_chain ts hash head s1"
      using block_on_chain[OF c less.prems(1), of ?m] inside less.prems(3) by auto
    show ?thesis
    proof (cases "int (ts ?m) \<le> target")
      case le: True
      have "h - ?m < h - l" using inside by simp
      from less.hyps[OF this b(2) inside(2) less.prems(3) le less.prems(5)]
      show ?thesis using cond b(1) le by (subst block_search.simps) simp
    next
      case gt: False
      have "?m - l < h - l" using inside by simp
      from less.hyps[OF this b(2) inside(1) _ less.prems(4)] gt inside(2) less.prems(3)
      show ?thesis using cond b(1) gt by (subst block_search.simps) simp
    qed
  next
    case False
    then have h: "h = Suc l" using less.prems(2) by simp
    have "last_block ts head target = l"
      using last_block_between[OF c, of l target] less.prems h by simp
    moreover have "\<not> min (l + 1) (2 ^ 64 - 1) < h" using h h64 by simp
    ultimately show ?thesis using less.prems(1) by (subst block_search.simps) simp
  qed
qed

lemma resolve_head_on_chain:
  assumes "serves_chain rpc ts hash head" "resolver_on_chain ts hash head s"
  shows "\<exists>s'. resolve_head rpc s = (Ok (chain_block ts hash head), s') \<and> resolver_on_chain ts hash head s'"
proof (cases "bs_head s")
  case (Some b)
  then show ?thesis using assms(2) by (auto simp: resolve_head_def resolver_on_chain_def)
next
  case None
  obtain t where t: "rpc ''eth_blockNumber'' (JArray []) = Ok (JString t)" "parse_hex (Some t) = Some head"
    using assms(1) unfolding serves_chain_def by blast
  obtain s' where "block rpc s head = (Ok (chain_block ts hash head), s')" "resolver_on_chain ts hash head s'"
    using block_on_chain[OF assms, of head] by auto
  then show ?thesis using None t by (auto simp: resolve_head_def ok_or_def resolver_on_chain_def)
qed

lemma resolve_genesis_on_chain:
  assumes "serves_chain rpc ts hash head" "resolver_on_chain ts hash head s"
  shows "\<exists>s'. resolve_genesis rpc s = (Ok (chain_block ts hash 0), s') \<and> resolver_on_chain ts hash head s'"
proof (cases "bs_genesis s")
  case (Some b)
  then show ?thesis using assms(2) by (auto simp: resolve_genesis_def resolver_on_chain_def)
next
  case None
  obtain s' where "block rpc s 0 = (Ok (chain_block ts hash 0), s')" "resolver_on_chain ts hash head s'"
    using block_on_chain[OF assms, of 0] by auto
  then show ?thesis using None by (auto simp: resolve_genesis_def resolver_on_chain_def)
qed

lemma tighten_bracket:
  assumes "\<And>b. b \<in> set bs \<Longrightarrow> on_chain ts hash head b"
    and "on_chain ts hash head low" "bk_epoch_seconds low \<le> target"
    and "on_chain ts hash head high" "target < bk_epoch_seconds high"
    and "foldl (tighten target) (low, high) bs = (low', high')"
  shows "on_chain ts hash head low' \<and> bk_epoch_seconds low' \<le> target \<and>
    on_chain ts hash head high' \<and> target < bk_epoch_seconds high'"
  using assms
proof (induction bs arbitrary: low high)
  case (Cons b bs)
  show ?case
    by (rule Cons.IH[where low = "fst (tighten target (low, high) b)" and high = "snd (tighten target (low, high) b)"])
       (use Cons.prems in \<open>auto simp: tighten_def\<close>)
qed simp

lemma at_or_before_exact:
  assumes c: "serves_chain rpc ts hash head" and s: "resolver_on_chain ts hash head s" and v: "visits_values cv"
    and t: "parse_rfc3339_epoch timestamp = Some target"
  shows "\<exists>s'. at_or_before rpc cv s timestamp =
      Some (if target < int (ts 0) then Err AaveEvidenceUnavailable
            else Ok (chain_block ts hash (last_block ts head target)), s') \<and> resolver_on_chain ts hash head s'"
proof -
  obtain s1 where h: "resolve_head rpc s = (Ok (chain_block ts hash head), s1)" "resolver_on_chain ts hash head s1"
    using resolve_head_on_chain[OF c s] by blast
  have mono: "m \<le> n \<Longrightarrow> n \<le> head \<Longrightarrow> ts m \<le> ts n" for m n using c unfolding serves_chain_def by blast
  show ?thesis
  proof (cases "int (ts head) \<le> target")
    case True
    have "\<not> target < int (ts 0)" using True mono[of 0 head] by simp
    moreover have "on_chain ts hash head (chain_block ts hash head)" by (auto simp: on_chain_def)
    ultimately show ?thesis using True t h last_block_head[of ts head target]
      by (simp add: at_or_before_def resolver_on_chain_def)
  next
    case False
    obtain s2 where g: "resolve_genesis rpc s1 = (Ok (chain_block ts hash 0), s2)" "resolver_on_chain ts hash head s2"
      using resolve_genesis_on_chain[OF c h(2)] by blast
    show ?thesis
    proof (cases "target < int (ts 0)")
      case True
      then show ?thesis using t h False g by (simp add: at_or_before_def)
    next
      case ge: False
      let ?low = "case bs_last_resolved s2 of Some b \<Rightarrow> if bk_epoch_seconds b \<le> target then b else chain_block ts hash 0
        | None \<Rightarrow> chain_block ts hash 0"
      obtain low high where f: "foldl (tighten target) (?low, chain_block ts hash head) (cv (bs_cache s2)) = (low, high)"
        by (cases "foldl (tighten target) (?low, chain_block ts hash head) (cv (bs_cache s2))")
      have zero: "on_chain ts hash head (chain_block ts hash 0)" "on_chain ts hash head (chain_block ts hash head)"
        by (auto simp: on_chain_def)
      have "on_chain ts hash head low \<and> bk_epoch_seconds low \<le> target \<and>
          on_chain ts hash head high \<and> target < bk_epoch_seconds high"
      proof (rule tighten_bracket[OF _ _ _ _ _ f])
        fix b assume "b \<in> set (cv (bs_cache s2))"
        then show "on_chain ts hash head b" using visited[OF v] g(2)
          unfolding resolver_on_chain_def on_chain_def by blast
      qed (use g(2) zero ge False in \<open>auto simp: resolver_on_chain_def split: option.splits\<close>)
      then obtain l u where lu: "low = chain_block ts hash l" "high = chain_block ts hash u" "l \<le> head" "u \<le> head"
        "int (ts l) \<le> target" "target < int (ts u)" by (auto simp: on_chain_def)
      have "l < u" using lu mono[of u l] by (cases "l < u") auto
      then obtain s3 where s3: "block_search rpc target s2 low high =
          Some (Ok (chain_block ts hash (last_block ts head target)), s3)" "resolver_on_chain ts hash head s3"
        using block_search_exact[OF c g(2) _ lu(4,5,6)] lu by auto
      have "on_chain ts hash head (chain_block ts hash (last_block ts head target))"
      proof -
        have "last_block ts head target \<in> {n. n \<le> head \<and> int (ts n) \<le> target}"
          unfolding last_block_def using lu(3,5) by (intro Max_in) auto
        then show ?thesis by (auto simp: on_chain_def)
      qed
      then show ?thesis using t h False g ge f s3 by (simp add: at_or_before_def resolver_on_chain_def)
    qed
  qed
qed

lemma load_observations_exact:
  assumes "serves_chain rpc ts hash head" "resolver_on_chain ts hash head s" "visits_values cv"
    and "list_all2 (\<lambda>t target. parse_rfc3339_epoch t = Some target \<and> int (ts 0) \<le> target) timestamps targets"
  shows "load_observations rpc cv observe s timestamps =
    Some (try_map (\<lambda>(t, target). observe t (chain_block ts hash (last_block ts head target))) (zip timestamps targets))"
  using assms(4,2)
proof (induction arbitrary: s rule: list_all2_induct)
  case (Cons t timestamps target targets)
  obtain s' where s': "at_or_before rpc cv s t = Some (Ok (chain_block ts hash (last_block ts head target)), s')"
    "resolver_on_chain ts hash head s'"
    using at_or_before_exact[OF assms(1) Cons.prems assms(3)] Cons.hyps(1) by fastforce
  show ?case using s' Cons.IH[OF s'(2)]
    by (auto split: result.splits)
qed simp

lemma load_observations_total:
  assumes "resolver_sane s" "visits_values cv"
  shows "load_observations rpc cv observe s timestamps \<noteq> None"
  using assms(1)
proof (induction timestamps arbitrary: s)
  case (Cons t ts)
  obtain r s' where a: "at_or_before rpc cv s t = Some (r, s')" "resolver_sane s'"
    using at_or_before_total[OF Cons.prems assms(2)] by blast
  show ?case using a Cons.IH[OF a(2)]
    by (auto split: result.splits option.splits)
qed simp

lemma new_resolver_on_chain: "resolver_on_chain ts hash head new_resolver"
  by (simp add: resolver_on_chain_def new_resolver_def)

lemma new_resolver_sane: "resolver_sane new_resolver"
  by (simp add: resolver_sane_def new_resolver_def opt_small_def)

section \<open>Properties\<close>

text \<open>
  C32. The block search ends whatever the archive node answers: for every sequence of instants asked of one
  resolver, every answer of the node (wrong, inconsistent or failing ones included) and every iteration
  order of the cache, loading the observations returns.
\<close>

theorem block_search_terminates:
  assumes "visits_values cache_values"
  shows "\<exists>r. load_observations rpc cache_values observe new_resolver timestamps = Some r"
  using load_observations_total[OF new_resolver_sane assms] by auto

theorem block_search_terminates_witness:
  "visits_values (map snd) \<and>
   (\<exists>r. load_observations (\<lambda>_ _. Err BwTimeout) (map snd) (\<lambda>_ b. Ok (bk_number b)) new_resolver
      [''2025-01-01T00:00:00Z''] = Some r)"
  using block_search_terminates[of "map snd"] by (auto simp only: visits_values_def)

text \<open>
  C16. The search is exact: against a node that serves a chain with non-decreasing timestamps, the
  observation of each instant is made at the last block that is not later than it, for every sequence of instants
  (the cache and the brackets carried from one to the next included) and every iteration order of the cache.
\<close>

theorem observations_at_last_block:
  assumes "serves_chain rpc ts hash head" "visits_values cache_values"
    and "list_all2 (\<lambda>t target. parse_rfc3339_epoch t = Some target \<and> int (ts 0) \<le> target) timestamps targets"
  shows "load_observations rpc cache_values observe new_resolver timestamps =
    Some (try_map (\<lambda>(t, target). observe t (chain_block ts hash (last_block ts head target))) (zip timestamps targets))"
  using load_observations_exact[OF assms(1) new_resolver_on_chain assms(2,3)] .

text \<open>A chain of four blocks, ten seconds apart.\<close>

definition small_chain :: archive where
  "small_chain rpc_method params =
     (if rpc_method = ''eth_blockNumber'' then Ok (JString ''0x3'')
      else case params of
        JArray (JString x # _) \<Rightarrow>
          (case parse_hex (Some x) of
             Some n \<Rightarrow> Ok (JObject [(''timestamp'', JString (''0x'' @ show_hex (10 * n))), (''hash'', JString ''0xab'')])
           | None \<Rightarrow> Err BwRpcError)
      | _ \<Rightarrow> Err BwRpcError)"

lemma small_hex:
  "show_hex 0 = ''0''" "show_hex (Suc 0) = ''1''" "show_hex 2 = ''2''" "show_hex 3 = ''3''"
  "show_hex 10 = ''a''" "show_hex 20 = ''14''" "show_hex 30 = ''1e''"
  by code_simp+

lemma small_parse_hex:
  "parse_hex (Some ''0x0'') = Some 0" "parse_hex (Some ''0x1'') = Some (Suc 0)" "parse_hex (Some ''0x2'') = Some 2"
  "parse_hex (Some ''0x3'') = Some 3" "parse_hex (Some ''0xa'') = Some 10" "parse_hex (Some ''0x14'') = Some 20"
  "parse_hex (Some ''0x1e'') = Some 30"
  by (simp_all add: parse_hex_def strip_prefix_str_def starts_with_def u64_from_hex_def
      is_ascii_hexdigit_def is_ascii_digit_def is_ascii_lowercase_def number_of_hex_def hex_value_def)

lemma serves_chainI:
  assumes "head < 2 ^ 64" "\<And>m n. m \<le> n \<Longrightarrow> n \<le> head \<Longrightarrow> ts m \<le> ts n" "ts head < 2 ^ 63"
    and "rpc ''eth_blockNumber'' (JArray []) = Ok (JString t)" "parse_hex (Some t) = Some head"
    and "\<And>n. n \<le> head \<Longrightarrow> rpc ''eth_getBlockByNumber'' (JArray [JString (''0x'' @ show_hex n), JBool False]) =
      Ok (JObject [(''timestamp'', JString (text n)), (''hash'', JString (hash n))])"
    and "\<And>n. n \<le> head \<Longrightarrow> parse_hex (Some (text n)) = Some (ts n)" "\<And>n. n \<le> head \<Longrightarrow> starts_with (hash n) ''0x''"
  shows "serves_chain rpc ts hash head"
  unfolding serves_chain_def
proof (intro conjI allI impI exI)
  show "head < 2 ^ 64" "ts head < 2 ^ 63" by fact+
  show "rpc ''eth_blockNumber'' (JArray []) = Ok (JString t)" "parse_hex (Some t) = Some head" by fact+
  fix m n assume "m \<le> n" "n \<le> head" then show "ts m \<le> ts n" by (rule assms(2))
next
  fix n assume n: "n \<le> head"
  show "rpc ''eth_getBlockByNumber'' (JArray [JString (''0x'' @ show_hex n), JBool False]) =
      Ok (JObject [(''timestamp'', JString (text n)), (''hash'', JString (hash n))])" by (rule assms(6)[OF n])
  show "parse_hex (Some (text n)) = Some (ts n)" "starts_with (hash n) ''0x''" by (rule assms(7,8)[OF n])+
qed simp_all

lemma small_chain_served: "serves_chain small_chain (\<lambda>n. 10 * n) (\<lambda>_. ''0xab'') 3"
proof (rule serves_chainI)
  have hex: "parse_hex (Some (''0x'' @ show_hex n)) = Some n \<and>
      parse_hex (Some (''0x'' @ show_hex (10 * n))) = Some (10 * n)" if "n \<le> 3" for n
  proof -
    have "n \<in> {0, Suc 0, 2, 3}" using that by auto
    then show ?thesis by (elim insertE) (simp_all add: small_hex small_parse_hex)
  qed
  show "small_chain ''eth_blockNumber'' (JArray []) = Ok (JString ''0x3'')" by (simp add: small_chain_def)
  show "parse_hex (Some ''0x3'') = Some 3" by (rule small_parse_hex)
  fix n :: nat assume n: "n \<le> 3"
  show "parse_hex (Some (''0x'' @ show_hex (10 * n))) = Some (10 * n)" using hex[OF n] ..
  show "small_chain ''eth_getBlockByNumber'' (JArray [JString (''0x'' @ show_hex n), JBool False]) =
      Ok (JObject [(''timestamp'', JString (''0x'' @ show_hex (10 * n))), (''hash'', JString ''0xab'')])"
    using hex[OF n] unfolding small_chain_def by simp
qed (simp_all add: starts_with_def)

theorem observations_at_last_block_witness:
  "load_observations small_chain (map snd) (\<lambda>_ b. Ok (bk_number b)) new_resolver
     [timestamp_for_epoch 15, timestamp_for_epoch 29, timestamp_for_epoch 60] = Some (Ok [1, 2, 3])"
proof -
  have p: "list_all2 (\<lambda>t target. parse_rfc3339_epoch t = Some target \<and> int (10 * 0) \<le> target)
      [timestamp_for_epoch 15, timestamp_for_epoch 29, timestamp_for_epoch 60] [15, 29, 60]"
    by (simp add: timestamp_for_epoch_parsed)
  have l: "last_block (\<lambda>n. 10 * n) 3 15 = 1" "last_block (\<lambda>n. 10 * n) 3 29 = 2" "last_block (\<lambda>n. 10 * n) 3 60 = 3"
    unfolding last_block_def by (rule Max_eqI; auto)+
  have "visits_values (map snd)" by (simp add: visits_values_def)
  from observations_at_last_block[OF small_chain_served this p, of "\<lambda>_ b. Ok (bk_number b)"]
  show ?thesis by (simp only: l zip_Cons_Cons zip_Nil try_map.simps and_then.simps prod.case chain_block_sel)
qed

end
