(* ===== verification/Decimal.thy ===== *)
theory Decimal
  imports Prelude
begin

text \<open>
  Exact decimal arithmetic on strings: \<open>src/application/balances/decimal.rs\<close>. The loops over
  digit vectors are loops over lists with indexed updates; \<open>expect\<close> in \<open>multiply_integer_digits\<close>
  is the value \<open>None\<close>. The lemmas show that every operation computes the exact rational value and
  which scale its result is written with. Vector cells are naturals: the bound that keeps them
  within 32 bits is a lemma.
\<close>

datatype decimal_error = InvalidUnsignedInteger | InvalidUnsignedDecimal

record parsed_decimal =
  pd_digits :: string
  pd_scale :: nat

definition is_unsigned_integer :: "string \<Rightarrow> bool" where
  "is_unsigned_integer s \<longleftrightarrow> s \<noteq> [] \<and> all_digits s"

definition normalize_integer_digits :: "string \<Rightarrow> string" where
  "normalize_integer_digits s =
     (let normalized = dropWhile (\<lambda>c. c = CHR ''0'') s
      in if normalized = [] then ''0'' else normalized)"

definition parse_unsigned_decimal :: "string \<Rightarrow> (parsed_decimal, decimal_error) result" where
  "parse_unsigned_decimal s =
     (let parts = (case split_once CHR ''.'' s of
          Some (integer, fraction) \<Rightarrow>
            (if integer \<noteq> [] \<and> fraction \<noteq> [] \<and> CHR ''.'' \<notin> set fraction \<and>
                all_digits integer \<and> all_digits fraction
             then Ok (integer, Some fraction) else Err InvalidUnsignedDecimal)
        | None \<Rightarrow> (if is_unsigned_integer s then Ok (s, None) else Err InvalidUnsignedDecimal))
      in and_then parts (\<lambda>(integer, fraction).
           let scale = (case fraction of None \<Rightarrow> 0 | Some f \<Rightarrow> length f);
               digits = integer @ (case fraction of None \<Rightarrow> [] | Some f \<Rightarrow> f)
           in Ok \<lparr>pd_digits = normalize_integer_digits digits, pd_scale = scale\<rparr>))"

text \<open>The doubly nested loop and the carry loop of \<open>multiply_integer_digits\<close>.\<close>

definition add_products :: "nat list \<Rightarrow> nat list \<Rightarrow> nat list \<Rightarrow> nat list" where
  "add_products left right product0 =
     foldl (\<lambda>rows left_index.
       foldl (\<lambda>p right_index.
         p[left_index + right_index :=
             p ! (left_index + right_index) + left ! left_index * right ! right_index])
         rows [0..<length right])
       product0 [0..<length left]"

definition carry_step :: "nat list \<Rightarrow> nat \<Rightarrow> nat list" where
  "carry_step p index =
     (let carry = p ! index div 10;
          p1 = p[index := p ! index mod 10]
      in p1[index + 1 := p1 ! (index + 1) + carry])"

definition propagate_carries :: "nat list \<Rightarrow> nat list" where
  "propagate_carries p = foldl carry_step p [0..<length p - 1]"

definition multiply_integer_digits :: "string \<Rightarrow> string \<Rightarrow> string option" where
  "multiply_integer_digits l r =
     (let left0 = normalize_integer_digits l;
          right0 = normalize_integer_digits r
      in if left0 = ''0'' \<or> right0 = ''0'' then Some ''0''
         else
           let left = map digit_value (rev left0);
               right = map digit_value (rev right0);
               product0 = replicate (length left + length right) 0;
               product1 = propagate_carries (add_products left right product0);
               product2 = rev (dropWhile (\<lambda>d. d = 0) (rev product1))
           in if list_all (\<lambda>digit. digit \<le> 255) product2
              then Some (map digit_char (rev product2)) else None)"

text \<open>The loop of \<open>add_integer_digits\<close> over the digits from the right.\<close>

definition digit_from_end :: "string \<Rightarrow> nat \<Rightarrow> nat" where
  "digit_from_end s offset =
     (if offset < length s then digit_value (s ! (length s - offset - 1)) else 0)"

function add_loop :: "string \<Rightarrow> string \<Rightarrow> nat \<Rightarrow> nat \<Rightarrow> nat list" where
  "add_loop left right offset carry =
     (if offset < length left \<or> offset < length right \<or> carry \<noteq> 0 then
        let total = digit_from_end left offset + digit_from_end right offset + carry
        in total mod 10 # add_loop left right (offset + 1) (total div 10)
      else [])"
  by pat_completeness auto
termination
  by (relation "measures [\<lambda>(l, r, i, c). max (length l) (length r) - i, \<lambda>(l, r, i, c). c]")
     (auto simp: digit_from_end_def max_def)

declare add_loop.simps [simp del]

definition add_integer_digits :: "string \<Rightarrow> string \<Rightarrow> string" where
  "add_integer_digits left right = map digit_char (rev (add_loop left right 0 0))"

definition format_scaled_digits :: "string \<Rightarrow> nat \<Rightarrow> string" where
  "format_scaled_digits digits scale =
     (if scale = 0 then digits
      else if length digits \<le> scale then ''0.'' @ replicate (scale - length digits) CHR ''0'' @ digits
      else
        let split = length digits - scale
        in take split digits @ ''.'' @ drop split digits)"

definition format_amount :: "string \<Rightarrow> nat \<Rightarrow> (string, decimal_error) result" where
  "format_amount raw_amount decimals =
     (if \<not> is_unsigned_integer raw_amount then Err InvalidUnsignedInteger
      else Ok (format_scaled_digits (normalize_integer_digits raw_amount) decimals))"

text \<open>\<open>while scale > minimum_scale && product.ends_with('0')\<close>\<close>

fun trim_scale :: "nat \<Rightarrow> string \<Rightarrow> nat \<Rightarrow> string \<times> nat" where
  "trim_scale minimum_scale product scale =
     (if scale > minimum_scale \<and> ends_with product ''0''
      then trim_scale minimum_scale (butlast product) (scale - 1)
      else (product, scale))"

declare trim_scale.simps [simp del]

text \<open>The outer option is \<open>None\<close> when the multiplication panics.\<close>

definition multiply_amount_by_price ::
  "string \<Rightarrow> nat \<Rightarrow> string \<Rightarrow> (string, decimal_error) result option" where
  "multiply_amount_by_price raw_amount balance_decimals unit_price =
     (if \<not> is_unsigned_integer raw_amount then Some (Err InvalidUnsignedInteger)
      else case parse_unsigned_decimal unit_price of
        Err e \<Rightarrow> Some (Err e)
      | Ok price \<Rightarrow>
          (case multiply_integer_digits raw_amount (pd_digits price) of
             None \<Rightarrow> None
           | Some product0 \<Rightarrow>
               let minimum_scale = balance_decimals;
                   scale0 = minimum_scale + pd_scale price;
                   (product1, scale) =
                     (if product0 = ''0'' then (product0, minimum_scale)
                      else trim_scale minimum_scale product0 scale0)
               in Some (Ok (format_scaled_digits product1 scale))))"

definition add_unsigned_decimals :: "string \<Rightarrow> string \<Rightarrow> (string, decimal_error) result" where
  "add_unsigned_decimals l r =
     and_then (parse_unsigned_decimal l) (\<lambda>left.
     and_then (parse_unsigned_decimal r) (\<lambda>right.
       let scale = max (pd_scale left) (pd_scale right);
           left_digits = pd_digits left @ replicate (scale - pd_scale left) CHR ''0'';
           right_digits = pd_digits right @ replicate (scale - pd_scale right) CHR ''0''
       in Ok (format_scaled_digits (add_integer_digits left_digits right_digits) scale)))"

section \<open>The value of digit strings\<close>

named_theorems dec_rules \<open>values and shapes of decimal texts\<close>

text \<open>Little-endian digit vectors.\<close>

fun cells_value :: "nat list \<Rightarrow> nat" where
  "cells_value [] = 0"
| "cells_value (d # ds) = d + 10 * cells_value ds"

lemma cells_value_append: "cells_value (xs @ ys) = cells_value xs + 10 ^ length xs * cells_value ys"
  by (induction xs) (simp_all add: algebra_simps)

lemma cells_value_zeros [simp]: "cells_value (replicate n 0) = 0"
  by (induction n) simp_all

lemma number_of_digits_cells: "number_of_digits s = cells_value (map digit_value (rev s))"
  by (induction s) (simp_all add: cells_value_append)

lemma cells_value_less: "\<forall>d\<in>set ds. d < 10 \<Longrightarrow> cells_value ds < 10 ^ length ds"
  by (induction ds) auto

lemma cells_value_upd:
  "k < length p \<Longrightarrow> cells_value (p[k := p ! k + x]) = cells_value p + x * 10 ^ k"
proof (induction p arbitrary: k)
  case (Cons d p)
  then show ?case by (cases k) auto
qed simp

lemma cells_value_upd_less:
  assumes "k < length p" "x \<le> p ! k"
  shows "cells_value (p[k := x]) + (p ! k - x) * 10 ^ k = cells_value p"
  using cells_value_upd[of k "p[k := x]" "p ! k - x"] assms by simp

subsection \<open>Multiplication\<close>

lemma add_row:
  assumes "n \<le> length right" "i + length right \<le> length p"
  shows "let q = foldl (\<lambda>p j. p[i + j := p ! (i + j) + x * right ! j]) p [0..<n]
    in length q = length p \<and> cells_value q = cells_value p + 10 ^ i * x * cells_value (take n right)"
  using assms
proof (induction n)
  case (Suc n)
  let ?q = "foldl (\<lambda>p j. p[i + j := p ! (i + j) + x * right ! j]) p [0..<n]"
  from Suc have IH: "length ?q = length p"
    "cells_value ?q = cells_value p + 10 ^ i * x * cells_value (take n right)" by (auto simp: Let_def)
  have "take (Suc n) right = take n right @ [right ! n]" using Suc.prems by (simp add: take_Suc_conv_app_nth)
  then have "cells_value (take (Suc n) right) = cells_value (take n right) + 10 ^ n * right ! n"
    using Suc.prems by (simp add: cells_value_append)
  moreover have "cells_value (?q[i + n := ?q ! (i + n) + x * right ! n]) =
      cells_value ?q + x * right ! n * 10 ^ (i + n)"
    using Suc.prems IH(1) by (intro cells_value_upd) simp
  ultimately show ?case using IH by (simp add: Let_def algebra_simps power_add)
qed simp

lemma add_products_value:
  assumes "length left + length right \<le> length p"
  shows "length (add_products left right p) = length p \<and>
    cells_value (add_products left right p) = cells_value p + cells_value left * cells_value right"
proof -
  let ?row = "\<lambda>p i. foldl (\<lambda>p j. p[i + j := p ! (i + j) + left ! i * right ! j]) p [0..<length right]"
  have "length (foldl ?row p [0..<n]) = length p \<and>
    cells_value (foldl ?row p [0..<n]) = cells_value p + cells_value (take n left) * cells_value right"
    if "n \<le> length left" for n
    using that
  proof (induction n)
    case (Suc n)
    let ?q = "foldl ?row p [0..<n]"
    from Suc have IH: "length ?q = length p"
      "cells_value ?q = cells_value p + cells_value (take n left) * cells_value right" by auto
    have "n + length right \<le> length ?q" using Suc.prems assms IH(1) by simp
    from add_row[OF order_refl this, of "left ! n"] have
      "length (?row ?q n) = length ?q"
      "cells_value (?row ?q n) = cells_value ?q + 10 ^ n * left ! n * cells_value right"
      by (simp_all add: Let_def)
    moreover have "cells_value (take (Suc n) left) = cells_value (take n left) + 10 ^ n * left ! n"
      using Suc.prems by (simp add: take_Suc_conv_app_nth cells_value_append)
    ultimately show ?case using IH by (simp add: algebra_simps)
  qed simp
  from this[of "length left"] show ?thesis by (simp add: add_products_def)
qed

lemma carry_step_value:
  assumes "Suc i < length p"
  shows "length (carry_step p i) = length p" "cells_value (carry_step p i) = cells_value p"
    "carry_step p i ! i < 10" "j \<noteq> i \<Longrightarrow> j \<noteq> Suc i \<Longrightarrow> carry_step p i ! j = p ! j"
proof -
  let ?p1 = "p[i := p ! i mod 10]"
  have "cells_value ?p1 + (p ! i div 10) * 10 ^ Suc i = cells_value p"
    using cells_value_upd_less[of i p "p ! i mod 10"] assms
    by (simp add: minus_mod_eq_div_mult algebra_simps)
  moreover have "cells_value (?p1[Suc i := ?p1 ! Suc i + p ! i div 10]) = cells_value ?p1 + (p ! i div 10) * 10 ^ Suc i"
    using assms by (intro cells_value_upd) simp
  ultimately show "cells_value (carry_step p i) = cells_value p"
    by (simp add: carry_step_def Let_def)
  show "length (carry_step p i) = length p" "carry_step p i ! i < 10"
    "j \<noteq> i \<Longrightarrow> j \<noteq> Suc i \<Longrightarrow> carry_step p i ! j = p ! j"
    using assms by (simp_all add: carry_step_def Let_def)
qed

lemma propagate_carries_value:
  assumes "p \<noteq> []"
  shows "length (propagate_carries p) = length p \<and> cells_value (propagate_carries p) = cells_value p \<and>
    (\<forall>i<length p - 1. propagate_carries p ! i < 10)"
proof -
  have "length (foldl carry_step p [0..<n]) = length p \<and>
    cells_value (foldl carry_step p [0..<n]) = cells_value p \<and> (\<forall>i<n. foldl carry_step p [0..<n] ! i < 10)"
    if "n < length p" for n
    using that
  proof (induction n)
    case (Suc n)
    let ?q = "foldl carry_step p [0..<n]"
    from Suc have IH: "length ?q = length p" "cells_value ?q = cells_value p" "\<forall>i<n. ?q ! i < 10" by auto
    have l: "Suc n < length ?q" using Suc.prems IH(1) by simp
    have "carry_step ?q n ! i < 10" if "i < Suc n" for i
      using that carry_step_value(3,4)[OF l] IH(3) by (cases "i = n") auto
    then show ?case using carry_step_value(1,2)[OF l] IH by simp
  qed simp
  from this[of "length p - 1"] show ?thesis using assms by (simp add: propagate_carries_def)
qed

text \<open>The last cell is a digit as well, since the product has at most as many digits as there are cells.\<close>

lemma propagate_carries_digits:
  assumes "p \<noteq> []" "cells_value p < 10 ^ length p"
  shows "\<forall>d\<in>set (propagate_carries p). d < 10"
proof -
  let ?q = "propagate_carries p" and ?n = "length p - 1"
  have q: "length ?q = length p" "cells_value ?q = cells_value p" "\<forall>i<?n. ?q ! i < 10"
    using propagate_carries_value[OF assms(1)] by auto
  have n: "?n < length ?q" using assms(1) q(1) by (simp add: length_greater_0_conv)
  have "?q = take ?n ?q @ [?q ! ?n]"
    using take_Suc_conv_app_nth[OF n] q(1) n by simp
  then have "cells_value ?q = cells_value (take ?n ?q) + 10 ^ ?n * ?q ! ?n"
    using cells_value_append[of "take ?n ?q" "[?q ! ?n]"] n by simp
  moreover have "(10::nat) ^ length p = 10 ^ ?n * 10"
    using assms(1) by (cases p) simp_all
  ultimately have "10 ^ ?n * ?q ! ?n < 10 ^ ?n * 10"
    using assms(2) q(2) by linarith
  then have "?q ! ?n < 10" by simp
  then have "?q ! i < 10" if "i < length ?q" for i
    using q(3) that q(1) by (cases "i = ?n") auto
  then show ?thesis by (auto simp: in_set_conv_nth)
qed

lemma normalize_number [simp]: "number_of_digits (normalize_integer_digits s) = number_of_digits s"
proof -
  have "number_of_digits (dropWhile (\<lambda>c. c = CHR ''0'') s) = number_of_digits s"
    by (induction s) (auto simp: digit_value_def)
  then show ?thesis
    by (auto simp: normalize_integer_digits_def Let_def digit_value_def simp del: dropWhile_eq_Nil_conv)
qed

lemma normalize_digits [simp]:
  "all_digits s \<Longrightarrow> all_digits (normalize_integer_digits s)"
  "normalize_integer_digits s \<noteq> []"
  by (auto simp: normalize_integer_digits_def Let_def all_digits_set is_ascii_digit_def dest: set_dropWhileD)

lemma normalize_zero_iff:
  assumes "all_digits s"
  shows "normalize_integer_digits s = ''0'' \<longleftrightarrow> number_of_digits s = 0"
proof
  assume "normalize_integer_digits s = ''0''"
  then show "number_of_digits s = 0"
    using normalize_number[of s] by (simp add: digit_value_def)
next
  assume 0: "number_of_digits s = 0"
  have "dropWhile (\<lambda>c. c = CHR ''0'') s = []" using 0 assms
  proof (induction s)
    case (Cons c s)
    then have "digit_value c = 0" "is_ascii_digit c" by simp_all
    then have "c = CHR ''0''" using digit_char_value[of c] by (simp add: digit_char_0)
    with Cons show ?case by simp
  qed simp
  then show "normalize_integer_digits s = ''0''" by (simp add: normalize_integer_digits_def)
qed

lemma number_of_digit_chars:
  "\<forall>d\<in>set ds. d < 10 \<Longrightarrow> number_of_digits (map digit_char ds) = cells_value (rev ds)"
proof -
  assume "\<forall>d\<in>set ds. d < 10"
  then have "map (digit_value \<circ> digit_char) (rev ds) = rev ds" by (intro map_idI) simp
  then show ?thesis by (simp add: number_of_digits_cells rev_map)
qed

lemma all_digits_digit_chars: "\<forall>d\<in>set ds. d < 10 \<Longrightarrow> all_digits (map digit_char ds)"
  by (simp add: all_digits_set)

lemma cells_value_strip: "cells_value (rev (dropWhile (\<lambda>d. d = 0) xs)) = cells_value (rev xs)"
  by (induction xs) (simp_all add: cells_value_append)

text \<open>\<open>multiply_integer_digits\<close> never panics and gives the digits of the product.\<close>

lemma multiply_integer_digits_value:
  assumes "all_digits l" "all_digits r"
  obtains s where "multiply_integer_digits l r = Some s" "all_digits s" "s \<noteq> []"
    "number_of_digits s = number_of_digits l * number_of_digits r"
    "s = ''0'' \<longleftrightarrow> number_of_digits l * number_of_digits r = 0"
proof (cases "number_of_digits l = 0 \<or> number_of_digits r = 0")
  case True
  then have "multiply_integer_digits l r = Some ''0''"
    using assms by (auto simp: multiply_integer_digits_def normalize_zero_iff)
  then show thesis
    by (rule that) (use True in \<open>auto simp: is_ascii_digit_def digit_value_def\<close>)
next
  case False
  let ?l = "map digit_value (rev (normalize_integer_digits l))"
  let ?r = "map digit_value (rev (normalize_integer_digits r))"
  let ?p = "add_products ?l ?r (replicate (length ?l + length ?r) 0)"
  let ?q = "propagate_carries ?p"
  let ?d = "dropWhile (\<lambda>d. d = 0) (rev ?q)"
  have v: "cells_value ?l = number_of_digits l" "cells_value ?r = number_of_digits r"
    by (simp_all flip: number_of_digits_cells)
  have p: "length ?p = length ?l + length ?r" "cells_value ?p = number_of_digits l * number_of_digits r"
    using add_products_value[of ?l ?r "replicate (length ?l + length ?r) 0"] v by simp_all
  have "number_of_digits l < 10 ^ length ?l" "number_of_digits r < 10 ^ length ?r"
    using number_of_digits_less[of "normalize_integer_digits l"]
      number_of_digits_less[of "normalize_integer_digits r"] assms by simp_all
  then have lt: "cells_value ?p < 10 ^ length ?p"
    unfolding p power_add by (rule mult_strict_mono) simp_all
  have "?p \<noteq> []" using p(1) by (auto simp flip: length_greater_0_conv)
  then have q: "\<forall>d\<in>set ?q. d < 10" "cells_value ?q = cells_value ?p"
    using propagate_carries_digits lt propagate_carries_value by blast+
  then have d: "\<forall>d\<in>set ?d. d < 10" by (auto dest: set_dropWhileD)
  have dv: "cells_value (rev ?d) = number_of_digits l * number_of_digits r"
    using cells_value_strip[of "rev ?q"] q p by simp
  have "\<forall>d\<in>set ?d. d \<le> 255" using d by force
  then have "list_all (\<lambda>x. x \<le> 255) (rev ?d)" by (simp add: list_all_iff)
  then have eq: "multiply_integer_digits l r = Some (map digit_char ?d)"
    using False assms by (simp add: multiply_integer_digits_def Let_def normalize_zero_iff)
  have num: "number_of_digits (map digit_char ?d) = number_of_digits l * number_of_digits r"
    using number_of_digit_chars[OF d] dv by simp
  have ne: "?d \<noteq> []"
  proof
    assume "?d = []"
    with num False show False by (simp del: dropWhile_eq_Nil_conv)
  qed
  show thesis
  proof (rule that[OF eq])
    show "all_digits (map digit_char ?d)" using d by (rule all_digits_digit_chars)
    show "map digit_char ?d \<noteq> []" using ne by simp
    show "map digit_char ?d = ''0'' \<longleftrightarrow> number_of_digits l * number_of_digits r = 0"
      using num False by (auto simp: digit_value_def)
  qed (rule num)
qed

subsection \<open>Addition\<close>

lemma digit_from_end_cells:
  "cells_value (drop i (map digit_value (rev s))) =
   digit_from_end s i + 10 * cells_value (drop (Suc i) (map digit_value (rev s)))"
proof (cases "i < length s")
  case True
  then have "drop i (map digit_value (rev s)) = digit_value (s ! (length s - i - 1)) # drop (Suc i) (map digit_value (rev s))"
    using Cons_nth_drop_Suc[of i "map digit_value (rev s)"] by (simp add: rev_nth)
  with True show ?thesis by (simp add: digit_from_end_def)
qed (simp add: digit_from_end_def)

lemma add_loop_value:
  assumes "all_digits l" "all_digits r"
  shows "cells_value (add_loop l r i c) =
    cells_value (drop i (map digit_value (rev l))) + cells_value (drop i (map digit_value (rev r))) + c"
    and "\<forall>d\<in>set (add_loop l r i c). d < 10"
  using assms
proof (induction l r i c rule: add_loop.induct)
  case (1 l r i c)
  {
    case 1
    show ?case
    proof (cases "i < length l \<or> i < length r \<or> c \<noteq> 0")
      case True
      then show ?thesis
        using "1.IH"(1)[OF True refl "1.prems"] digit_from_end_cells[of i l] digit_from_end_cells[of i r]
        by (simp add: add_loop.simps[of l r i c] Let_def)
    next
      case False
      then show ?thesis by (simp add: add_loop.simps[of l r i])
    qed
  next
    case 2
    then show ?case
      using "1.IH"(2) by (auto simp: add_loop.simps[of l r i c] Let_def split: if_splits)
  }
qed

lemma length_add_loop: "max (length l) (length r) - i \<le> length (add_loop l r i c)"
proof (induction l r i c rule: add_loop.induct)
  case (1 l r i c)
  then show ?case by (auto simp: add_loop.simps[of l r i c] Let_def)
qed

lemma add_integer_digits_value:
  assumes "all_digits l" "all_digits r"
  shows "number_of_digits (add_integer_digits l r) = number_of_digits l + number_of_digits r"
    "all_digits (add_integer_digits l r)"
    "length l \<le> length (add_integer_digits l r)" "length r \<le> length (add_integer_digits l r)"
  using add_loop_value[OF assms, of 0 0] length_add_loop[of l r 0 0]
  by (simp_all add: add_integer_digits_def number_of_digit_chars all_digits_digit_chars
      flip: number_of_digits_cells)

section \<open>Decimal texts\<close>

text \<open>A decimal text is a digit string with an optional fraction; its scale is the length of the fraction.\<close>

definition is_decimal :: "string \<Rightarrow> bool" where
  "is_decimal s \<longleftrightarrow> (case split_once CHR ''.'' s of
      None \<Rightarrow> s \<noteq> [] \<and> all_digits s
    | Some (a, b) \<Rightarrow> a \<noteq> [] \<and> b \<noteq> [] \<and> all_digits a \<and> all_digits b)"

definition dec_scale :: "string \<Rightarrow> nat" where
  "dec_scale s = (case split_once CHR ''.'' s of None \<Rightarrow> 0 | Some (a, b) \<Rightarrow> length b)"

definition dec_digits :: "string \<Rightarrow> string" where
  "dec_digits s = (case split_once CHR ''.'' s of None \<Rightarrow> s | Some (a, b) \<Rightarrow> a @ b)"

definition dec_value :: "string \<Rightarrow> rat" where
  "dec_value s = of_nat (number_of_digits (dec_digits s)) / 10 ^ dec_scale s"

lemma digits_no_dot: "all_digits s \<Longrightarrow> CHR ''.'' \<notin> set s"
  by (auto simp: all_digits_set is_ascii_digit_def)

lemma parse_unsigned_decimal_iff:
  "parse_unsigned_decimal s =
    (if is_decimal s
     then Ok \<lparr>pd_digits = normalize_integer_digits (dec_digits s), pd_scale = dec_scale s\<rparr>
     else Err InvalidUnsignedDecimal)"
  by (auto simp: parse_unsigned_decimal_def is_decimal_def dec_digits_def dec_scale_def
      is_unsigned_integer_def Let_def digits_no_dot split: option.splits)

lemma is_decimal_digits: "is_decimal s \<Longrightarrow> all_digits (dec_digits s)"
  by (auto simp: is_decimal_def dec_digits_def split: option.splits)

lemma plain_digits:
  assumes "all_digits s" "s \<noteq> []"
  shows "is_decimal s" "dec_scale s = 0" "dec_digits s = s"
proof -
  have "split_once CHR ''.'' s = None" using digits_no_dot[OF assms(1)] by (simp add: split_once_None_iff)
  then show "is_decimal s" "dec_scale s = 0" "dec_digits s = s"
    using assms by (simp_all add: is_decimal_def dec_scale_def dec_digits_def)
qed

lemma dotted_digits:
  assumes "all_digits a" "all_digits b" "a \<noteq> []" "b \<noteq> []"
  shows "is_decimal (a @ CHR ''.'' # b)" "dec_scale (a @ CHR ''.'' # b) = length b"
    "dec_digits (a @ CHR ''.'' # b) = a @ b"
  using assms digits_no_dot[OF assms(1)] by (simp_all add: is_decimal_def dec_scale_def dec_digits_def)

lemma ends_with_last: "s \<noteq> [] \<Longrightarrow> ends_with s [c] \<longleftrightarrow> last s = c"
  by (auto simp: ends_with_iff) (metis append_butlast_last_id)

lemma format_scaled_digits_props:
  assumes "all_digits s" "s \<noteq> []"
  shows "is_decimal (format_scaled_digits s k)" "dec_scale (format_scaled_digits s k) = k"
    "number_of_digits (dec_digits (format_scaled_digits s k)) = number_of_digits s"
proof -
  consider "k = 0" | "k \<noteq> 0" "length s \<le> k" | "k \<noteq> 0" "k < length s" by linarith
  then have "is_decimal (format_scaled_digits s k) \<and> dec_scale (format_scaled_digits s k) = k \<and>
    number_of_digits (dec_digits (format_scaled_digits s k)) = number_of_digits s"
  proof cases
    case 1
    then show ?thesis using plain_digits[OF assms] by (simp add: format_scaled_digits_def)
  next
    case 2
    then have "format_scaled_digits s k = ''0'' @ CHR ''.'' # (replicate (k - length s) CHR ''0'' @ s)"
      by (simp add: format_scaled_digits_def)
    moreover have "all_digits ''0''" by (simp add: is_ascii_digit_def)
    ultimately show ?thesis
      using dotted_digits[of "''0''" "replicate (k - length s) CHR ''0'' @ s"] assms 2
      by (simp add: number_of_digits_append digit_value_def)
  next
    case 3
    let ?i = "length s - k"
    have "format_scaled_digits s k = take ?i s @ CHR ''.'' # drop ?i s"
      using 3 by (simp add: format_scaled_digits_def Let_def)
    moreover have "all_digits (take ?i s)" "all_digits (drop ?i s)"
      using assms(1) by (auto simp: all_digits_set dest: in_set_takeD in_set_dropD)
    moreover have "take ?i s \<noteq> []" "drop ?i s \<noteq> []" using 3 by auto
    ultimately show ?thesis
      using dotted_digits[of "take ?i s" "drop ?i s"] 3 by simp
  qed
  then show "is_decimal (format_scaled_digits s k)" "dec_scale (format_scaled_digits s k) = k"
    "number_of_digits (dec_digits (format_scaled_digits s k)) = number_of_digits s" by blast+
qed

lemma format_scaled_digits_value:
  "all_digits s \<Longrightarrow> s \<noteq> [] \<Longrightarrow> dec_value (format_scaled_digits s k) = of_nat (number_of_digits s) / 10 ^ k"
  by (simp add: dec_value_def format_scaled_digits_props)

lemma format_amount_value:
  "is_unsigned_integer raw \<Longrightarrow>
    \<exists>s. format_amount raw k = Ok s \<and> is_decimal s \<and> dec_scale s = k \<and>
      dec_value s = of_nat (number_of_digits raw) / 10 ^ k"
  by (simp add: format_amount_def is_unsigned_integer_def format_scaled_digits_props
      format_scaled_digits_value)

lemma add_unsigned_decimals_value:
  assumes "is_decimal l" "is_decimal r"
  shows "\<exists>s. add_unsigned_decimals l r = Ok s \<and> is_decimal s \<and> dec_value s = dec_value l + dec_value r \<and>
    dec_scale s = max (dec_scale l) (dec_scale r)"
proof -
  let ?k = "max (dec_scale l) (dec_scale r)"
  let ?l = "normalize_integer_digits (dec_digits l) @ replicate (?k - dec_scale l) CHR ''0''"
  let ?r = "normalize_integer_digits (dec_digits r) @ replicate (?k - dec_scale r) CHR ''0''"
  let ?s = "add_integer_digits ?l ?r"
  have dig: "all_digits ?l" "all_digits ?r" using assms by (simp_all add: is_decimal_digits)
  note sum = add_integer_digits_value[OF dig]
  have "?l \<noteq> []" by simp
  then have ne: "?s \<noteq> []" using sum(3) by (metis le_zero_eq length_0_conv)
  have scaled: "of_nat (number_of_digits (normalize_integer_digits (dec_digits x) @ replicate (?k - dec_scale x) CHR ''0'')) / 10 ^ ?k = dec_value x"
    if "dec_scale x \<le> ?k" for x
  proof -
    have "(10::rat) ^ ?k = 10 ^ dec_scale x * 10 ^ (?k - dec_scale x)"
      using that by (simp flip: power_add)
    then show ?thesis by (simp add: number_of_digits_append dec_value_def)
  qed
  have "of_nat (number_of_digits ?s) / 10 ^ ?k = dec_value l + dec_value r"
    unfolding sum(1) of_nat_add add_divide_distrib by (subst (1 2) scaled) simp_all
  then show ?thesis
    using assms format_scaled_digits_props[OF sum(2) ne] format_scaled_digits_value[OF sum(2) ne]
    by (simp add: add_unsigned_decimals_def parse_unsigned_decimal_iff Let_def)
qed

lemma trim_scale_props:
  assumes "trim_scale m s k = (s', k')" "all_digits s" "0 < number_of_digits s" "m \<le> k"
  shows "m \<le> k' \<and> k' \<le> k \<and> all_digits s' \<and> s' \<noteq> [] \<and> (k' = m \<or> \<not> ends_with s' ''0'') \<and>
    number_of_digits s = number_of_digits s' * 10 ^ (k - k')"
  using assms
proof (induction m s k rule: trim_scale.induct)
  case (1 m s k)
  show ?case
  proof (cases "k > m \<and> ends_with s ''0''")
    case True
    then obtain t where t: "s = t @ ''0''" by (auto simp: ends_with_iff)
    have ns: "number_of_digits s = number_of_digits t * 10"
      by (simp add: t number_of_digits_append digit_value_def)
    have tr: "trim_scale m t (k - 1) = (s', k')" using True "1.prems"(1)
      by (simp add: t trim_scale.simps[of m "t @ ''0''" k])
    have "m \<le> k' \<and> k' \<le> k - 1 \<and> all_digits s' \<and> s' \<noteq> [] \<and> (k' = m \<or> \<not> ends_with s' ''0'') \<and>
      number_of_digits t = number_of_digits s' * 10 ^ (k - 1 - k')"
    proof -
      have "m \<le> k - 1" "all_digits t" "0 < number_of_digits t"
        using True "1.prems"(2,3) t ns by auto
      then show ?thesis using "1.IH"[OF True] tr t by simp
    qed
    moreover from this have "k - k' = Suc (k - 1 - k')" using True by auto
    ultimately show ?thesis using ns by auto
  next
    case False
    then have "s' = s" "k' = k" using "1.prems"(1) by (auto simp: trim_scale.simps[of m s k])
    then show ?thesis using False "1.prems"(2-4) by auto
  qed
qed

lemma multiply_amount_by_price_value:
  assumes "is_unsigned_integer raw" "is_decimal price"
  shows "\<exists>s. multiply_amount_by_price raw k price = Some (Ok s) \<and> is_decimal s \<and>
    dec_value s = of_nat (number_of_digits raw) / 10 ^ k * dec_value price \<and>
    k \<le> dec_scale s \<and> dec_scale s \<le> k + dec_scale price \<and>
    (dec_scale s = k \<or> \<not> ends_with s ''0'')"
proof -
  let ?pd = "normalize_integer_digits (dec_digits price)" and ?m = "k + dec_scale price"
  have dig: "all_digits raw" "all_digits ?pd" using assms by (simp_all add: is_unsigned_integer_def is_decimal_digits)
  obtain p where p: "multiply_integer_digits raw ?pd = Some p" "all_digits p" "p \<noteq> []"
    "number_of_digits p = number_of_digits raw * number_of_digits (dec_digits price)"
    "p = ''0'' \<longleftrightarrow> number_of_digits raw * number_of_digits (dec_digits price) = 0"
    using multiply_integer_digits_value[OF dig] by auto
  have val: "of_nat (number_of_digits p) / 10 ^ ?m =
      of_nat (number_of_digits raw) / 10 ^ k * dec_value price"
    by (simp add: p(4) dec_value_def power_add)
  show ?thesis
  proof (cases "p = ''0''")
    case True
    then have "number_of_digits p = 0" by (simp add: digit_value_def)
    then have "of_nat (number_of_digits raw) / 10 ^ k * dec_value price = 0" using val by simp
    moreover have "multiply_amount_by_price raw k price = Some (Ok (format_scaled_digits p k))"
      using assms p True by (simp add: multiply_amount_by_price_def parse_unsigned_decimal_iff)
    ultimately show ?thesis
      using format_scaled_digits_props[OF p(2,3)] format_scaled_digits_value[OF p(2,3)]
        \<open>number_of_digits p = 0\<close> by simp
  next
    case False
    obtain s' k' where t: "trim_scale k p ?m = (s', k')" by fastforce
    have pos: "0 < number_of_digits p" using p(4,5) False by simp
    from trim_scale_props[OF t p(2) pos]
    have k': "k \<le> k'" "k' \<le> ?m" and s': "all_digits s'" "s' \<noteq> []" "k' = k \<or> \<not> ends_with s' ''0''"
      and n: "number_of_digits p = number_of_digits s' * 10 ^ (?m - k')" by auto
    have eq: "multiply_amount_by_price raw k price = Some (Ok (format_scaled_digits s' k'))"
      using assms p False t by (simp add: multiply_amount_by_price_def parse_unsigned_decimal_iff)
    have "(10::rat) ^ ?m = 10 ^ k' * 10 ^ (?m - k')" using k' by (simp flip: power_add)
    then have "of_nat (number_of_digits s') / (10::rat) ^ k' = of_nat (number_of_digits p) / 10 ^ ?m"
      by (simp add: n)
    moreover have "\<not> ends_with s' ''0'' \<Longrightarrow> \<not> ends_with (format_scaled_digits s' k') ''0''"
      using s'(2) by (auto simp: format_scaled_digits_def ends_with_last Let_def)
    ultimately show ?thesis
      using eq format_scaled_digits_props[OF s'(1,2)] format_scaled_digits_value[OF s'(1,2)] k' s'(3) val
      by auto
  qed
qed

section \<open>Bounds of the vector cells\<close>

lemma add_row_bound:
  fixes x B :: nat
  assumes "\<forall>d\<in>set right. d \<le> 9" "x \<le> 9" "\<forall>c\<in>set p. c \<le> B" "n \<le> length right"
    "i + length right \<le> length p"
  shows "let q = foldl (\<lambda>p j. p[i + j := p ! (i + j) + x * right ! j]) p [0..<n]
    in length q = length p \<and> (\<forall>k<length p. q ! k \<le> (if i \<le> k \<and> k < i + n then B + 81 else B))"
  using assms(4)
proof (induction n)
  case 0
  then show ?case using assms(3) by (auto simp: Let_def)
next
  case (Suc n)
  let ?q = "foldl (\<lambda>p j. p[i + j := p ! (i + j) + x * right ! j]) p [0..<n]"
  have IH: "length ?q = length p" "\<And>k. k < length p \<Longrightarrow> ?q ! k \<le> (if i \<le> k \<and> k < i + n then B + 81 else B)"
    using Suc by (auto simp: Let_def)
  have "right ! n \<le> 9" using assms(1) Suc.prems by simp
  then have "x * right ! n \<le> 9 * 9" using assms(2) by (intro mult_le_mono)
  moreover have "i + n < length p" using assms(5) Suc.prems by simp
  ultimately have "?q ! (i + n) + x * right ! n \<le> B + 81" using IH(2)[of "i + n"] by simp
  then have "?q[i + n := ?q ! (i + n) + x * right ! n] ! k \<le>
      (if i \<le> k \<and> k < i + Suc n then B + 81 else B)" if "k < length p" for k
    using IH(1) IH(2)[OF that] that by (cases "k = i + n") auto
  then show ?case using IH(1) by (simp add: Let_def)
qed

lemma add_products_bound:
  assumes "\<forall>d\<in>set left. d \<le> 9" "\<forall>d\<in>set right. d \<le> 9" "length left + length right \<le> n"
  shows "\<forall>c\<in>set (add_products left right (replicate n 0)). c \<le> 81 * length left"
proof -
  let ?row = "\<lambda>p i. foldl (\<lambda>p j. p[i + j := p ! (i + j) + left ! i * right ! j]) p [0..<length right]"
  have "length (foldl ?row (replicate n 0) [0..<m]) = n \<and>
    (\<forall>c\<in>set (foldl ?row (replicate n 0) [0..<m]). c \<le> 81 * m)" if "m \<le> length left" for m
    using that
  proof (induction m)
    case (Suc m)
    let ?q = "foldl ?row (replicate n 0) [0..<m]"
    have IH: "length ?q = n" "\<forall>c\<in>set ?q. c \<le> 81 * m" using Suc by auto
    have "left ! m \<le> 9" using assms(1) Suc.prems by simp
    from add_row_bound[OF assms(2) this IH(2) order_refl, of m]
    have "length (?row ?q m) = n" and le: "\<forall>k<n. ?row ?q m ! k \<le> 81 * m + 81"
      using assms(3) Suc.prems IH(1) by (auto simp: Let_def split: if_splits)
    moreover have "c \<le> 81 * Suc m" if "c \<in> set (?row ?q m)" for c
      using that le calculation(1) by (auto simp: in_set_conv_nth)
    ultimately show ?case by simp
  qed simp
  from this[of "length left"] show ?thesis by (simp add: add_products_def)
qed

lemma carry_bound:
  assumes "\<forall>c\<in>set p. c \<le> 81 * L" "n < length p"
  shows "length (foldl carry_step p [0..<n]) = length p \<and> foldl carry_step p [0..<n] ! n \<le> 90 * L \<and>
    (\<forall>k<length p. n < k \<longrightarrow> foldl carry_step p [0..<n] ! k \<le> 81 * L) \<and>
    (\<forall>k<n. foldl carry_step p [0..<n] ! k \<le> 9)"
  using assms(2)
proof (induction n)
  case 0
  then have "p ! 0 \<le> 81 * L" using assms(1) by simp
  then have "p ! 0 \<le> 90 * L" by linarith
  then show ?case using 0 assms(1) by simp
next
  case (Suc n)
  let ?q = "foldl carry_step p [0..<n]"
  have IH: "length ?q = length p" "?q ! n \<le> 90 * L" "\<And>k. k < length p \<Longrightarrow> n < k \<Longrightarrow> ?q ! k \<le> 81 * L"
    "\<And>k. k < n \<Longrightarrow> ?q ! k \<le> 9"
    using Suc by auto
  have l: "Suc n < length ?q" using IH(1) Suc.prems by simp
  have "carry_step ?q n ! Suc n = ?q ! Suc n + ?q ! n div 10" using l by (simp add: carry_step_def Let_def)
  also have "\<dots> \<le> 90 * L" using IH(2) IH(3)[of "Suc n"] Suc.prems by simp
  finally have a: "carry_step ?q n ! Suc n \<le> 90 * L" .
  have b: "carry_step ?q n ! k \<le> 81 * L" if "k < length p" "Suc n < k" for k
    using carry_step_value(4)[OF l, of k] IH(3)[of k] that by simp
  have c: "carry_step ?q n ! k \<le> 9" if "k < Suc n" for k
  proof (cases "k = n")
    case True
    then show ?thesis using carry_step_value(3)[OF l] by simp
  next
    case False
    then show ?thesis using carry_step_value(4)[OF l, of k] IH(4)[of k] that by simp
  qed
  show ?case using a b c carry_step_value(1)[OF l] IH(1) by simp
qed

section \<open>Properties\<close>

text \<open>
  C34. \<open>add_unsigned_decimals\<close> is exact: on two decimal texts it returns a decimal text of the sum,
  written with the greater of the two scales, and it rejects everything else.
\<close>

theorem add_unsigned_decimals_exact:
  "case add_unsigned_decimals l r of
     Ok s \<Rightarrow> is_decimal l \<and> is_decimal r \<and> is_decimal s \<and>
       dec_value s = dec_value l + dec_value r \<and> dec_scale s = max (dec_scale l) (dec_scale r)
   | Err e \<Rightarrow> e = InvalidUnsignedDecimal \<and> \<not> (is_decimal l \<and> is_decimal r)"
proof (cases "is_decimal l \<and> is_decimal r")
  case True
  then show ?thesis using add_unsigned_decimals_value[of l r] by auto
next
  case False
  then show ?thesis by (auto simp: add_unsigned_decimals_def parse_unsigned_decimal_iff)
qed

text \<open>
  C33. \<open>multiply_amount_by_price\<close> never panics; for a raw amount of digits and a decimal price it
  returns the exact value of the amount (scaled by the token's decimals) times the price, written
  with at least the token's decimals and without a trailing zero beyond them.
\<close>

theorem multiply_amount_by_price_exact:
  "case multiply_amount_by_price raw decimals price of
     None \<Rightarrow> False
   | Some (Ok s) \<Rightarrow> is_unsigned_integer raw \<and> is_decimal price \<and> is_decimal s \<and>
       dec_value s = of_nat (number_of_digits raw) / 10 ^ decimals * dec_value price \<and>
       decimals \<le> dec_scale s \<and> dec_scale s \<le> decimals + dec_scale price \<and>
       \<not> (decimals < dec_scale s \<and> ends_with s ''0'')
   | Some (Err e) \<Rightarrow> \<not> (is_unsigned_integer raw \<and> is_decimal price) \<and>
       e = (if is_unsigned_integer raw then InvalidUnsignedDecimal else InvalidUnsignedInteger)"
proof (cases "is_unsigned_integer raw \<and> is_decimal price")
  case True
  then show ?thesis using multiply_amount_by_price_value[of raw price decimals] by auto
next
  case False
  then show ?thesis by (auto simp: multiply_amount_by_price_def parse_unsigned_decimal_iff)
qed

text \<open>
  \<open>format_amount\<close> writes a raw on-chain amount with exactly the token's number of decimals and
  without changing its value.
\<close>

theorem format_amount_exact:
  "case format_amount raw decimals of
     Ok s \<Rightarrow> is_unsigned_integer raw \<and> is_decimal s \<and> dec_scale s = decimals \<and>
       dec_value s * 10 ^ decimals = of_nat (number_of_digits raw)
   | Err e \<Rightarrow> e = InvalidUnsignedInteger \<and> \<not> is_unsigned_integer raw"
proof (cases "is_unsigned_integer raw")
  case True
  then show ?thesis using format_amount_value[of raw decimals] by auto
next
  case False
  then show ?thesis by (simp add: format_amount_def)
qed

text \<open>
  No cell of the vector of \<open>multiply_integer_digits\<close> exceeds 90 times the number of digits of
  the left factor, at any moment of the carry loop (the accumulation loop only adds to the cells, up to
  81 times that number): the 32-bit cells do not overflow for factors of up to 47 million digits.
\<close>

theorem multiply_cells_bounded:
  assumes "all_digits l" "all_digits r" "k < length l + length r" "n < length l + length r"
  shows "foldl carry_step
      (add_products (map digit_value (rev l)) (map digit_value (rev r))
        (replicate (length l + length r) 0)) [0..<n] ! k \<le> 90 * length l + 9 \<and>
    add_products (map digit_value (rev l)) (map digit_value (rev r))
      (replicate (length l + length r) 0) ! k \<le> 81 * length l"
proof -
  let ?p = "add_products (map digit_value (rev l)) (map digit_value (rev r)) (replicate (length l + length r) 0)"
  have d: "\<forall>x\<in>set (map digit_value (rev s)). x \<le> 9" if "all_digits s" for s
    using that digit_value_less by (fastforce simp: all_digits_set)
  have b: "\<forall>c\<in>set ?p. c \<le> 81 * length l"
    using add_products_bound[OF d[OF assms(1)] d[OF assms(2)], of "length l + length r"] by simp
  have len: "length ?p = length l + length r"
    using add_products_value[of "map digit_value (rev l)" "map digit_value (rev r)"] by simp
  have c: "foldl carry_step ?p [0..<n] ! n \<le> 90 * length l"
    "\<And>k. k < length ?p \<Longrightarrow> n < k \<Longrightarrow> foldl carry_step ?p [0..<n] ! k \<le> 81 * length l"
    "\<And>k. k < n \<Longrightarrow> foldl carry_step ?p [0..<n] ! k \<le> 9"
    using carry_bound[OF b, of n] assms(4) len by auto
  have "foldl carry_step ?p [0..<n] ! k \<le> 90 * length l + 9"
    using c(1) c(2)[of k] c(3)[of k] assms(3) len by (cases k n rule: linorder_cases) auto
  then show ?thesis using b len assms(3) by simp
qed

theorem multiply_cells_bounded_witness:
  "add_products (map digit_value (rev ''99'')) (map digit_value (rev ''99''))
      (replicate (length ''99'' + length ''99'') 0) ! 1 \<le> 162"
  using multiply_cells_bounded[of "''99''" "''99''" 1 1] by (simp add: is_ascii_digit_def)

end
