(* ===== verification/Canonical.thy ===== *)
theory Canonical
  imports Decimal
begin

text \<open>
  Plain texts of decimal numbers: \<open>canonical\<close> and \<open>expand_exponent\<close> of
  \<open>src/application/portfolio_simulation.rs\<close>, \<open>canonical_decimal\<close> and \<open>expand_exponent\<close> of
  \<open>src/adapters/aave_v3/mod.rs\<close>. All of them rewrite the text that the decimal library prints, with or
  without an exponent, to a text without exponent and without trailing zeros. Their argument here is that text.
\<close>

section \<open>Operations\<close>

definition trim_end_matches :: "char \<Rightarrow> string \<Rightarrow> string" where
  "trim_end_matches c s = rev (dropWhile (\<lambda>x. x = c) (rev s))"

definition trim_start_matches :: "char \<Rightarrow> string \<Rightarrow> string" where
  "trim_start_matches c s = dropWhile (\<lambda>x. x = c) s"

text \<open>\<open>split_once(['E', 'e'])\<close>\<close>

fun split_exponent :: "string \<Rightarrow> (string \<times> string) option" where
  "split_exponent [] = None"
| "split_exponent (x # xs) =
     (if x = CHR ''E'' \<or> x = CHR ''e'' then Some ([], xs)
      else (case split_exponent xs of None \<Rightarrow> None | Some (a, b) \<Rightarrow> Some (x # a, b)))"

text \<open>The body shared by the two copies of \<open>expand_exponent\<close>; \<open>as i32\<close> and the sum wrap.\<close>

definition expanded_body :: "string \<Rightarrow> int \<Rightarrow> string" where
  "expanded_body coefficient exponent =
     (let digits = filter (\<lambda>c. c \<noteq> CHR ''.'') coefficient;
          decimal_index = wrap_i32 (int (case position (\<lambda>c. c = CHR ''.'') coefficient of
            Some i \<Rightarrow> i | None \<Rightarrow> length coefficient));
          index = wrap_i32 (decimal_index + exponent) in
      if index \<le> 0 then ''0.'' @ replicate (nat (wrap_i32 (- index) mod 2 ^ 64)) CHR ''0'' @ digits
      else if nat index \<ge> length digits then digits @ replicate (nat index - length digits) CHR ''0''
      else take (nat index) digits @ ''.'' @ drop (nat index) digits)"

definition expand_exponent :: "string \<Rightarrow> string \<Rightarrow> string option" where
  "expand_exponent coefficient exponent = do {
     exponent \<leftarrow> parse_signed (- (2 ^ 31)) (2 ^ 31 - 1) exponent;
     let negative = starts_with coefficient ''-'';
     let coefficient = trim_start_matches CHR ''-'' coefficient;
     Some ((if negative then ''-'' else []) @ expanded_body coefficient exponent)
   }"

definition canonical :: "string \<Rightarrow> string" where
  "canonical v =
     (let v = (case split_exponent v of
                 Some (coefficient, exponent) \<Rightarrow>
                   (case expand_exponent coefficient exponent of Some e \<Rightarrow> e | None \<Rightarrow> v)
               | None \<Rightarrow> v) in
      if CHR ''.'' \<in> set v then trim_end_matches CHR ''.'' (trim_end_matches CHR ''0'' v) else v)"

definition aave_expand_exponent :: "string \<Rightarrow> string \<Rightarrow> string option" where
  "aave_expand_exponent coefficient exponent = do {
     exponent \<leftarrow> parse_signed (- (2 ^ 31)) (2 ^ 31 - 1) exponent;
     let negative = starts_with coefficient ''-'';
     let coefficient = trim_start_matches CHR ''-'' coefficient;
     Some (trim_end_matches CHR ''.'' (trim_end_matches CHR ''0''
       ((if negative then ''-'' else []) @ expanded_body coefficient exponent)))
   }"

definition canonical_decimal :: "string \<Rightarrow> string" where
  "canonical_decimal v =
     (case split_exponent v of
        Some (coefficient, exponent) \<Rightarrow>
          (case aave_expand_exponent coefficient exponent of Some e \<Rightarrow> e | None \<Rightarrow> v)
      | None \<Rightarrow> trim_end_matches CHR ''.'' (trim_end_matches CHR ''0'' v))"

section \<open>Values of signed texts\<close>

text \<open>A plain signed decimal, with an optional exponent.\<close>

definition signed_text :: "bool \<Rightarrow> string \<Rightarrow> string" where
  "signed_text negative s = (if negative then ''-'' else []) @ s"

definition scaled_value :: "rat \<Rightarrow> int \<Rightarrow> rat" where
  "scaled_value v e = (if 0 \<le> e then v * 10 ^ nat e else v / 10 ^ nat (- e))"

lemma trim_end_matches_simps [simp]:
  "trim_end_matches c [] = []"
  "trim_end_matches c (s @ [x]) = (if x = c then trim_end_matches c s else s @ [x])"
  by (simp_all add: trim_end_matches_def)

lemma trim_end_matches_last: "s = [] \<or> last s \<noteq> c \<Longrightarrow> trim_end_matches c s = s"
  by (cases s rule: rev_cases) auto

lemma trim_zeros_decompose: "\<exists>k. s = trim_end_matches CHR ''0'' s @ replicate k CHR ''0''"
proof (induction s rule: rev_induct)
  case (snoc x s)
  show ?case
  proof (cases "x = CHR ''0''")
    case True
    from snoc obtain k where "s = trim_end_matches CHR ''0'' s @ replicate k CHR ''0''" ..
    then have "s @ [x] = trim_end_matches CHR ''0'' s @ replicate (Suc k) CHR ''0''"
      using True by (metis append_assoc replicate_Suc replicate_append_same)
    moreover have "trim_end_matches CHR ''0'' (s @ [x]) = trim_end_matches CHR ''0'' s" using True by simp
    ultimately show ?thesis by metis
  qed (auto intro: exI[of _ 0])
qed simp

lemma last_trim_end: "trim_end_matches c s \<noteq> [] \<Longrightarrow> last (trim_end_matches c s) \<noteq> c"
  by (induction s rule: rev_induct) auto

lemma trim_end_append:
  "trim_end_matches c (s @ t) = (if trim_end_matches c t = [] then trim_end_matches c s else s @ trim_end_matches c t)"
  by (induction t rule: rev_induct) (auto simp flip: append_assoc)

lemma all_digits_last: "all_digits s \<Longrightarrow> s \<noteq> [] \<Longrightarrow> last s \<noteq> CHR ''.''"
  using digits_no_dot last_in_set by metis

lemma trim_fraction:
  assumes "all_digits a" "all_digits b" "a \<noteq> []" "b \<noteq> []"
  defines "t \<equiv> trim_end_matches CHR ''.'' (trim_end_matches CHR ''0'' (a @ CHR ''.'' # b))"
  shows "is_decimal t \<and> dec_value t = dec_value (a @ CHR ''.'' # b) \<and> (CHR ''.'' \<in> set t \<longrightarrow> last t \<noteq> CHR ''0'')"
proof -
  obtain b' k where b: "b = b' @ replicate k CHR ''0''" "b' = trim_end_matches CHR ''0'' b"
    using trim_zeros_decompose by metis
  have d: "all_digits b'" using assms(2) b(1) by (metis all_digits_simps(3))
  have v: "dec_value (a @ CHR ''.'' # b) = of_nat (number_of_digits (a @ b')) / 10 ^ length b'"
    using dotted_digits[OF assms(1-4)] b(1)
    by (simp add: dec_value_def number_of_digits_append power_add flip: append_assoc)
  show ?thesis
  proof (cases "b' = []")
    case True
    have "t = a"
      unfolding t_def using trim_end_append[of "CHR ''0''" "a @ ''.''" b] True b(2) all_digits_last[OF assms(1,3)]
      by (simp add: trim_end_matches_last)
    then show ?thesis using v True plain_digits[OF assms(1,3)] digits_no_dot[OF assms(1)] by (simp add: dec_value_def)
  next
    case False
    have "trim_end_matches CHR ''0'' (a @ CHR ''.'' # b) = a @ CHR ''.'' # b'"
      using trim_end_append[of "CHR ''0''" "a @ ''.''" b] False b(2) by simp
    then have t: "t = a @ CHR ''.'' # b'"
      unfolding t_def using False all_digits_last[OF d] by (simp add: trim_end_matches_last)
    have "last b' \<noteq> CHR ''0''" using False b(2) last_trim_end by metis
    then show ?thesis using v False dotted_digits[OF assms(1) d assms(3)] by (simp add: t dec_value_def)
  qed
qed

text \<open>The digits and the position of the dot of an unsigned decimal.\<close>

lemma decimal_parts:
  assumes "is_decimal c"
  shows "filter (\<lambda>x. x \<noteq> CHR ''.'') c = dec_digits c"
    "(case position (\<lambda>x. x = CHR ''.'') c of Some i \<Rightarrow> i | None \<Rightarrow> length c) = length (dec_digits c) - dec_scale c"
    "dec_scale c \<le> length (dec_digits c)" "dec_digits c \<noteq> []" "all_digits (dec_digits c)" "length (dec_digits c) \<le> length c"
    "set c \<subseteq> insert CHR ''.'' (set (dec_digits c))"
proof -
  have keep: "all_digits s \<Longrightarrow> filter (\<lambda>x. x \<noteq> CHR ''.'') s = s" for s
    by (auto simp: filter_id_conv dest: digits_no_dot)
  have pos: "all_digits s \<Longrightarrow> position (\<lambda>x. x = CHR ''.'') (s @ r) = map_option ((+) (length s)) (position (\<lambda>x. x = CHR ''.'') r)" for s r
    by (cases "position (\<lambda>x. x = CHR ''.'') r"; induction s) (auto simp: is_ascii_digit_def)
  have "filter (\<lambda>x. x \<noteq> CHR ''.'') c = dec_digits c \<and>
    (case position (\<lambda>x. x = CHR ''.'') c of Some i \<Rightarrow> i | None \<Rightarrow> length c) = length (dec_digits c) - dec_scale c \<and>
    dec_scale c \<le> length (dec_digits c) \<and> dec_digits c \<noteq> [] \<and> all_digits (dec_digits c) \<and>
    length (dec_digits c) \<le> length c \<and> set c \<subseteq> insert CHR ''.'' (set (dec_digits c))"
  proof (cases "split_once CHR ''.'' c")
    case None
    then have "all_digits c" "c \<noteq> []" using assms by (simp_all add: is_decimal_def)
    then show ?thesis using None pos[of c "[]"] keep by (auto simp: dec_digits_def dec_scale_def)
  next
    case (Some ab)
    obtain a b where ab: "ab = (a, b)" by (cases ab)
    have c: "c = a @ CHR ''.'' # b" using Some ab split_once_SomeD by blast
    have "all_digits a" "all_digits b" "a \<noteq> []" "b \<noteq> []" using assms Some ab by (simp_all add: is_decimal_def)
    then show ?thesis
      using dotted_digits[of a b] pos[of a "CHR ''.'' # b"] keep by (auto simp: c)
  qed
  then show "filter (\<lambda>x. x \<noteq> CHR ''.'') c = dec_digits c"
    "(case position (\<lambda>x. x = CHR ''.'') c of Some i \<Rightarrow> i | None \<Rightarrow> length c) = length (dec_digits c) - dec_scale c"
    "dec_scale c \<le> length (dec_digits c)" "dec_digits c \<noteq> []" "all_digits (dec_digits c)" "length (dec_digits c) \<le> length c"
    "set c \<subseteq> insert CHR ''.'' (set (dec_digits c))" by blast+
qed

text \<open>The three ways to write a number out, by the position of the dot among the digits.\<close>

lemma expanded_body_eq:
  assumes "is_decimal c" "int (length c) + \<bar>e\<bar> < 2 ^ 31"
  defines "index \<equiv> int (length (dec_digits c)) - int (dec_scale c) + e"
  shows "expanded_body c e =
    (if index \<le> 0 then ''0.'' @ replicate (nat (- index)) CHR ''0'' @ dec_digits c
     else if nat index \<ge> length (dec_digits c) then dec_digits c @ replicate (nat index - length (dec_digits c)) CHR ''0''
     else take (nat index) (dec_digits c) @ ''.'' @ drop (nat index) (dec_digits c))"
proof -
  note p = decimal_parts[OF assms(1)]
  have i32: "wrap_i32 (int (length (dec_digits c) - dec_scale c)) = int (length (dec_digits c)) - int (dec_scale c)"
    "wrap_i32 index = index" "wrap_i32 (- index) = - index"
    using p(3,6) assms(2) by (simp_all add: index_def of_nat_diff)
  have "index \<le> 0 \<Longrightarrow> - index mod 2 ^ 64 = - index"
    using p(3,6) assms(2) by (intro mod_pos_pos_trivial) (simp_all add: index_def)
  then show ?thesis using i32 unfolding expanded_body_def p(1,2) Let_def by (simp add: index_def)
qed

lemma expanded_body_shape:
  assumes "is_decimal c" "int (length c) + \<bar>e\<bar> < 2 ^ 31"
  shows "if e < int (dec_scale c) then CHR ''.'' \<in> set (expanded_body c e)
    else expanded_body c e = dec_digits c @ replicate (nat (e - int (dec_scale c))) CHR ''0''"
proof (cases "e < int (dec_scale c)")
  case True
  have a: "int (length (dec_digits c)) - int (dec_scale c) + e < int (length (dec_digits c))" using True by simp
  then have "\<not> length (dec_digits c) \<le> nat (int (length (dec_digits c)) - int (dec_scale c) + e)" if "0 < int (length (dec_digits c)) - int (dec_scale c) + e"
    using that by (simp add: le_nat_iff)
  then show ?thesis using True unfolding expanded_body_eq[OF assms] by auto
next
  case False
  have "0 < length (dec_digits c)" using decimal_parts(4)[OF assms(1)] by simp
  then have "\<not> int (length (dec_digits c)) - int (dec_scale c) + e \<le> 0"
    "nat (int (length (dec_digits c)) - int (dec_scale c) + e) = length (dec_digits c) + nat (e - int (dec_scale c))"
    using False by (linarith, simp add: nat_add_distrib nat_eq_iff2)
  then show ?thesis using False unfolding expanded_body_eq[OF assms] by simp
qed

lemma expanded_body_value:
  assumes "is_decimal c" "int (length c) + \<bar>e\<bar> < 2 ^ 31"
  shows "is_decimal (expanded_body c e) \<and> dec_value (expanded_body c e) = scaled_value (dec_value c) e"
proof -
  let ?d = "dec_digits c" and ?s = "dec_scale c"
  note p = decimal_parts[OF assms(1)]
  define index where "index = int (length ?d) - int ?s + e"
  have n: "dec_value c = of_nat (number_of_digits ?d) / 10 ^ ?s" by (simp add: dec_value_def)
  note body = expanded_body_eq[OF assms, folded index_def]
  show ?thesis
  proof (cases "index < int (length ?d)")
    case True
    define k where "k = nat (int (length ?d) - index)"
    have fmt: "expanded_body c e = format_scaled_digits ?d k"
      using True p(4) by (auto simp: body format_scaled_digits_def k_def nat_diff_distrib' Let_def)
    have k: "int k = int ?s - e" using True by (simp add: k_def index_def)
    have "scaled_value (dec_value c) e = of_nat (number_of_digits ?d) / 10 ^ k"
    proof (cases "0 \<le> e")
      case True
      then have "?s = k + nat e" using k by simp
      then show ?thesis using True n by (simp add: power_add scaled_value_def)
    next
      case False
      then have "k = ?s + nat (- e)" using k by simp
      then show ?thesis using False n by (simp add: power_add scaled_value_def)
    qed
    then show ?thesis
      using format_scaled_digits_props[OF p(5,4), of k] format_scaled_digits_value[OF p(5,4), of k]
      by (simp add: fmt)
  next
    case False
    define z where "z = nat index - length ?d"
    have len: "0 < length ?d" using p(4) by simp
    have "\<not> index \<le> 0" "length ?d \<le> nat index" using False len by linarith+
    then have b: "expanded_body c e = ?d @ replicate z CHR ''0''" by (simp add: body z_def)
    have z: "nat e = ?s + z" "0 \<le> e" using False len by (simp_all add: z_def index_def)
    have "is_decimal (?d @ replicate z CHR ''0'')" "dec_value (?d @ replicate z CHR ''0'') = of_nat (number_of_digits ?d * 10 ^ z)"
      using plain_digits[of "?d @ replicate z CHR ''0''"] p(4,5) by (simp_all add: dec_value_def number_of_digits_append)
    then show ?thesis using n z by (simp add: b scaled_value_def power_add)
  qed
qed

section \<open>Properties\<close>

text \<open>The texts the decimal library prints: a signed decimal, with or without an exponent.\<close>

definition exponent_text :: "string option \<Rightarrow> string" where
  "exponent_text x = (case x of None \<Rightarrow> [] | Some digits \<Rightarrow> CHR ''E'' # digits)"

definition exponent_value :: "string option \<Rightarrow> int option" where
  "exponent_value x = (case x of None \<Rightarrow> Some 0 | Some digits \<Rightarrow> parse_signed (- (2 ^ 31)) (2 ^ 31 - 1) digits)"

lemma split_exponent_append:
  "CHR ''E'' \<notin> set a \<Longrightarrow> CHR ''e'' \<notin> set a \<Longrightarrow> split_exponent (a @ CHR ''E'' # b) = Some (a, b)"
  "CHR ''E'' \<notin> set a \<Longrightarrow> CHR ''e'' \<notin> set a \<Longrightarrow> split_exponent a = None"
  by (induction a) auto

lemma decimal_chars: "is_decimal c \<Longrightarrow> x \<in> set c \<Longrightarrow> x = CHR ''.'' \<or> is_ascii_digit x"
  using decimal_parts(5,7) by (auto simp: all_digits_set)

lemma no_exponent_char:
  assumes "is_decimal c"
  shows "CHR ''E'' \<notin> set (signed_text neg c)" "CHR ''e'' \<notin> set (signed_text neg c)" "CHR ''-'' \<notin> set c"
  using decimal_chars[OF assms, of "CHR ''E''"] decimal_chars[OF assms, of "CHR ''e''"] decimal_chars[OF assms, of "CHR ''-''"]
  by (auto simp: signed_text_def is_ascii_digit_def)

lemma sign_split:
  assumes "is_decimal c"
  shows "starts_with (signed_text neg c) ''-'' \<longleftrightarrow> neg" "trim_start_matches CHR ''-'' (signed_text neg c) = c"
proof -
  have c: "c = [] \<or> hd c \<noteq> CHR ''-''" using no_exponent_char(3)[OF assms] by (cases c) auto
  then show "starts_with (signed_text neg c) ''-'' \<longleftrightarrow> neg" by (cases c) (auto simp: starts_with_def signed_text_def)
  have "dropWhile (\<lambda>x. x = CHR ''-'') c = c" using c by (cases c) auto
  then show "trim_start_matches CHR ''-'' (signed_text neg c) = c" by (simp add: trim_start_matches_def signed_text_def)
qed

lemma decimal_trimmed:
  assumes "is_decimal s" "CHR ''.'' \<in> set s"
  defines "t \<equiv> trim_end_matches CHR ''.'' (trim_end_matches CHR ''0'' s)"
  shows "is_decimal t \<and> dec_value t = dec_value s \<and> (CHR ''.'' \<in> set t \<longrightarrow> last t \<noteq> CHR ''0'')"
proof -
  obtain a b where s: "s = a @ CHR ''.'' # b" "all_digits a" "all_digits b" "a \<noteq> []" "b \<noteq> []"
  proof (cases "split_once CHR ''.'' s")
    case (Some ab)
    then show ?thesis using that[of "fst ab" "snd ab"] assms(1) split_once_SomeD[of "CHR ''.''" s "fst ab" "snd ab"]
      by (cases ab) (auto simp: is_decimal_def)
  qed (use assms(2) split_once_None_iff in blast)
  show ?thesis unfolding t_def s(1) by (rule trim_fraction[OF s(2-5)])
qed

lemma trim_end_sign:
  assumes "trim_end_matches c s \<noteq> []"
  shows "trim_end_matches c (signed_text neg s) = signed_text neg (trim_end_matches c s)"
  using assms by (simp add: signed_text_def trim_end_append)

lemma signed_trimmed:
  assumes "is_decimal s" "CHR ''.'' \<in> set s"
  shows "trim_end_matches CHR ''.'' (trim_end_matches CHR ''0'' (signed_text neg s)) =
    signed_text neg (trim_end_matches CHR ''.'' (trim_end_matches CHR ''0'' s))"
proof -
  let ?t = "trim_end_matches CHR ''.'' (trim_end_matches CHR ''0'' s)"
  have "is_decimal ?t" using decimal_trimmed[OF assms] by blast
  then have "?t \<noteq> []" by (auto simp: is_decimal_def)
  moreover from this have "trim_end_matches CHR ''0'' s \<noteq> []" by auto
  ultimately show ?thesis by (simp add: trim_end_sign)
qed

text \<open>
  The numbers a simulation reports are the numbers it computed: for every text of a signed decimal, with
  or without an exponent, \<open>canonical\<close> returns a plain signed decimal of exactly the same value and
  sign, without an exponent and without trailing zeros in the fraction.
\<close>

theorem canonical_exact:
  assumes "is_decimal c" "exponent_value x = Some e" "int (length c) + \<bar>e\<bar> < 2 ^ 31"
  shows "\<exists>t. canonical (signed_text neg c @ exponent_text x) = signed_text neg t \<and> is_decimal t \<and>
    dec_value t = scaled_value (dec_value c) e \<and> (CHR ''.'' \<in> set t \<longrightarrow> last t \<noteq> CHR ''0'')"
proof -
  obtain s where s: "is_decimal s" "dec_value s = scaled_value (dec_value c) e"
    and eq: "canonical (signed_text neg c @ exponent_text x) =
      (if CHR ''.'' \<in> set (signed_text neg s)
       then trim_end_matches CHR ''.'' (trim_end_matches CHR ''0'' (signed_text neg s)) else signed_text neg s)"
  proof (cases x)
    case None
    have "e = 0" using assms(2) None by (simp add: exponent_value_def)
    then show ?thesis
      using that[OF assms(1)] split_exponent_append(2)[OF no_exponent_char(1,2)[OF assms(1), of neg]]
      by (simp add: None canonical_def exponent_text_def scaled_value_def Let_def)
  next
    case (Some digits)
    have "expand_exponent (signed_text neg c) digits = Some (signed_text neg (expanded_body c e))"
      using assms(2) sign_split[OF assms(1)]
      by (simp add: Some exponent_value_def expand_exponent_def) (simp add: signed_text_def)
    then show ?thesis
      using that[of "expanded_body c e"] expanded_body_value[OF assms(1,3)]
        split_exponent_append(1)[OF no_exponent_char(1,2)[OF assms(1), of neg]]
      by (simp add: Some canonical_def exponent_text_def Let_def)
  qed
  have dot: "CHR ''.'' \<in> set (signed_text neg s) \<longleftrightarrow> CHR ''.'' \<in> set s" by (simp add: signed_text_def)
  show ?thesis
  proof (cases "CHR ''.'' \<in> set s")
    case True
    then show ?thesis using eq dot signed_trimmed[OF s(1) True, of neg] decimal_trimmed[OF s(1) True] s(2) by auto
  next
    case False
    then show ?thesis using eq dot s by auto
  qed
qed

theorem canonical_exact_witness:
  "canonical (signed_text True ''1.250'' @ exponent_text (Some ''-3'')) = ''-0.00125'' \<and>
   (\<exists>t. canonical (signed_text True ''1.250'' @ exponent_text (Some ''-3'')) = signed_text True t \<and> is_decimal t \<and>
      dec_value t = scaled_value (dec_value ''1.250'') (- 3))"
proof -
  have "is_decimal ''1.250''" by code_simp
  moreover have "exponent_value (Some ''-3'') = Some (- 3)"
    by (simp add: exponent_value_def parse_signed_def is_ascii_digit_def digit_value_def)
  ultimately have "\<exists>t. canonical (signed_text True ''1.250'' @ exponent_text (Some ''-3'')) = signed_text True t \<and> is_decimal t \<and>
      dec_value t = scaled_value (dec_value ''1.250'') (- 3)"
    using canonical_exact[of "''1.250''" "Some ''-3''" "- 3" True] by force
  moreover have "canonical (signed_text True ''1.250'' @ exponent_text (Some ''-3'')) = ''-0.00125''" by code_simp
  ultimately show ?thesis by blast
qed

lemma positive_digits: "all_digits t \<Longrightarrow> t \<noteq> [] \<Longrightarrow> last t \<noteq> CHR ''0'' \<Longrightarrow> 0 < number_of_digits t"
proof (induction t rule: rev_induct)
  case (snoc x t)
  have "digit_value x \<noteq> 0"
  proof
    assume "digit_value x = 0"
    then have "byte x = byte CHR ''0''" using snoc.prems(1) by (auto simp: is_ascii_digit_def digit_value_def)
    then show False using snoc.prems(3) by (simp only: of_char_eq_iff last_snoc)
  qed
  then show ?case by (simp add: number_of_digits_append)
qed simp

text \<open>Removing the zeros at the end without looking for the dot keeps the value just if there is a dot or no zero.\<close>

lemma trimmed_exact_iff:
  assumes "is_decimal c"
  shows "(\<exists>t. trim_end_matches CHR ''.'' (trim_end_matches CHR ''0'' (signed_text neg c)) = signed_text neg t \<and>
      is_decimal t \<and> dec_value t = dec_value c) \<longleftrightarrow> CHR ''.'' \<in> set c \<or> last c \<noteq> CHR ''0''"
proof (cases "CHR ''.'' \<in> set c")
  case True
  then show ?thesis using signed_trimmed[OF assms True] decimal_trimmed[OF assms True] by auto
next
  case False
  then have d: "all_digits c" "c \<noteq> []" using assms split_once_None_iff[of "CHR ''.''" c] by (auto simp: is_decimal_def)
  obtain t k where t: "trim_end_matches CHR ''0'' c = t" and k: "c = t @ replicate k CHR ''0''"
    using trim_zeros_decompose by blast
  have td: "all_digits t" using d(1) k by simp
  show ?thesis
  proof (cases "t = []")
    case True
    then have "last c = CHR ''0''" using k d(2) by (cases k) simp_all
    moreover have "trim_end_matches CHR ''0'' (signed_text neg c) = signed_text neg []"
      using trim_end_append[of "CHR ''0''" "if neg then ''-'' else []" c] t True
      by (simp add: signed_text_def trim_end_matches_last)
    then have "trim_end_matches CHR ''.'' (trim_end_matches CHR ''0'' (signed_text neg c)) = signed_text neg []"
      by (simp add: signed_text_def trim_end_matches_last)
    moreover have "\<not> is_decimal []" by (simp add: is_decimal_def)
    ultimately show ?thesis using False by (simp add: signed_text_def)
  next
    case ne: False
    have "trim_end_matches CHR ''0'' (signed_text neg c) = signed_text neg t"
      using trim_end_sign[of "CHR ''0''" c neg] t ne by simp
    moreover have "last (signed_text neg t) \<noteq> CHR ''.''" using all_digits_last[OF td ne] ne by (simp add: signed_text_def)
    ultimately have res: "trim_end_matches CHR ''.'' (trim_end_matches CHR ''0'' (signed_text neg c)) = signed_text neg t"
      by (simp add: trim_end_matches_last)
    have tl: "last t \<noteq> CHR ''0''" using last_trim_end t ne by blast
    have "dec_value c = of_nat (number_of_digits t) * 10 ^ k"
      using plain_digits[OF d] by (simp add: dec_value_def k number_of_digits_append)
    moreover have "(10 :: rat) ^ k = 1 \<longleftrightarrow> k = 0" using power_inject_exp[of "10 :: rat" k 0] by simp
    ultimately have "dec_value t = dec_value c \<longleftrightarrow> k = 0"
      using plain_digits[OF td ne] positive_digits[OF td ne tl] by (simp add: dec_value_def)
    moreover have "k = 0 \<longleftrightarrow> last c \<noteq> CHR ''0''" using k tl by (cases k) simp_all
    ultimately show ?thesis using False plain_digits[OF td ne] res by (auto simp: signed_text_def)
  qed
qed

lemma decimal_dot:
  assumes "is_decimal c"
  shows "CHR ''.'' \<in> set c \<longleftrightarrow> 0 < dec_scale c" "CHR ''.'' \<notin> set c \<Longrightarrow> dec_digits c = c"
proof -
  have "(CHR ''.'' \<in> set c \<longleftrightarrow> 0 < dec_scale c) \<and> (CHR ''.'' \<notin> set c \<longrightarrow> dec_digits c = c)"
  proof (cases "split_once CHR ''.'' c")
    case None
    then show ?thesis using split_once_None_iff[of "CHR ''.''" c] by (simp add: dec_scale_def dec_digits_def)
  next
    case (Some ab)
    then show ?thesis using assms split_once_SomeD[of "CHR ''.''" c "fst ab" "snd ab"]
      by (cases ab) (auto simp: is_decimal_def dec_scale_def)
  qed
  then show "CHR ''.'' \<in> set c \<longleftrightarrow> 0 < dec_scale c" "CHR ''.'' \<notin> set c \<Longrightarrow> dec_digits c = c" by blast+
qed

text \<open>
  C39. The text of a realized yield keeps the value of the number that the decimal library printed, with or without an
  exponent, exactly when the number, written out with the digits that were printed, has a fraction (the exponent is
  less than the number of digits after the dot) or is an integer whose last digit is printed and is not zero.
  \<open>canonical_decimal\<close> strips zeros without looking for the decimal point, so that a yield of 0 becomes the empty
  text and a yield of 10, printed as 10, 1E+1 or 1.0E+1, becomes 1.
\<close>

theorem canonical_decimal_exact_iff:
  assumes "is_decimal c" "exponent_value x = Some e" "int (length c) + \<bar>e\<bar> < 2 ^ 31"
  shows "(\<exists>t. canonical_decimal (signed_text neg c @ exponent_text x) = signed_text neg t \<and> is_decimal t \<and>
      dec_value t = scaled_value (dec_value c) e) \<longleftrightarrow>
    e < int (dec_scale c) \<or> (e = int (dec_scale c) \<and> last (dec_digits c) \<noteq> CHR ''0'')"
proof -
  obtain s where s: "is_decimal s" "dec_value s = scaled_value (dec_value c) e"
    and eq: "canonical_decimal (signed_text neg c @ exponent_text x) =
      trim_end_matches CHR ''.'' (trim_end_matches CHR ''0'' (signed_text neg s))"
    and shape: "CHR ''.'' \<in> set s \<or> last s \<noteq> CHR ''0'' \<longleftrightarrow>
      e < int (dec_scale c) \<or> (e = int (dec_scale c) \<and> last (dec_digits c) \<noteq> CHR ''0'')"
  proof (cases x)
    case None
    have e: "e = 0" using assms(2) None by (simp add: exponent_value_def)
    have "canonical_decimal (signed_text neg c @ exponent_text x) =
        trim_end_matches CHR ''.'' (trim_end_matches CHR ''0'' (signed_text neg c))"
      using split_exponent_append(2)[OF no_exponent_char(1,2)[OF assms(1), of neg]]
      by (simp add: None canonical_decimal_def exponent_text_def)
    moreover have "CHR ''.'' \<in> set c \<or> last c \<noteq> CHR ''0'' \<longleftrightarrow>
      e < int (dec_scale c) \<or> (e = int (dec_scale c) \<and> last (dec_digits c) \<noteq> CHR ''0'')"
      using decimal_dot[OF assms(1)] e by auto
    ultimately show ?thesis using that[OF assms(1)] e by (simp add: scaled_value_def)
  next
    case (Some digits)
    let ?s = "expanded_body c e"
    have "aave_expand_exponent (signed_text neg c) digits =
        Some (trim_end_matches CHR ''.'' (trim_end_matches CHR ''0'' (signed_text neg ?s)))"
      using assms(2) sign_split[OF assms(1)]
      by (simp add: Some exponent_value_def aave_expand_exponent_def) (simp add: signed_text_def)
    then have "canonical_decimal (signed_text neg c @ exponent_text x) =
        trim_end_matches CHR ''.'' (trim_end_matches CHR ''0'' (signed_text neg ?s))"
      using split_exponent_append(1)[OF no_exponent_char(1,2)[OF assms(1), of neg]]
      by (simp add: Some canonical_decimal_def exponent_text_def)
    moreover have "CHR ''.'' \<in> set ?s \<or> last ?s \<noteq> CHR ''0'' \<longleftrightarrow>
      e < int (dec_scale c) \<or> (e = int (dec_scale c) \<and> last (dec_digits c) \<noteq> CHR ''0'')"
    proof (cases "e < int (dec_scale c)")
      case True
      then show ?thesis using expanded_body_shape[OF assms(1,3)] by simp
    next
      case False
      then have b: "?s = dec_digits c @ replicate (nat (e - int (dec_scale c))) CHR ''0''"
        using expanded_body_shape[OF assms(1,3)] by simp
      have "CHR ''.'' \<notin> set ?s" using b digits_no_dot[OF decimal_parts(5)[OF assms(1)]] by auto
      moreover have "last ?s \<noteq> CHR ''0'' \<longleftrightarrow> e = int (dec_scale c) \<and> last (dec_digits c) \<noteq> CHR ''0''"
        using False b by (cases "e = int (dec_scale c)") auto
      ultimately show ?thesis using False by blast
    qed
    ultimately show ?thesis using that[of ?s] expanded_body_value[OF assms(1,3)] by blast
  qed
  show ?thesis using trimmed_exact_iff[OF s(1), of neg] eq s(2) shape by simp
qed

text \<open>Ten percent, no yield at all, a tenfold yield in three spellings, and a tiny one.\<close>

theorem canonical_decimal_exact_iff_witness:
  "canonical_decimal ''0.10'' = ''0.1'' \<and> canonical_decimal ''0'' = [] \<and> canonical_decimal ''10'' = ''1'' \<and>
   canonical_decimal ''1.0E+1'' = ''1'' \<and> canonical_decimal ''1E-3'' = ''0.001'' \<and>
   \<not> (\<exists>t. canonical_decimal (signed_text False ''10'' @ exponent_text None) = signed_text False t \<and> is_decimal t \<and>
        dec_value t = scaled_value (dec_value ''10'') 0) \<and>
   \<not> (\<exists>t. canonical_decimal (signed_text False ''1.0'' @ exponent_text (Some ''+1'')) = signed_text False t \<and> is_decimal t \<and>
        dec_value t = scaled_value (dec_value ''1.0'') 1) \<and>
   (\<exists>t. canonical_decimal (signed_text True ''1'' @ exponent_text (Some ''-3'')) = signed_text True t \<and> is_decimal t \<and>
        dec_value t = scaled_value (dec_value ''1'') (- 3))"
proof -
  have d: "is_decimal ''10''" "is_decimal ''1.0''" "is_decimal ''1''" "dec_scale ''10'' = 0" "dec_scale ''1.0'' = 1" "dec_scale ''1'' = 0"
    "dec_digits ''10'' = ''10''" "dec_digits ''1.0'' = ''10''" by code_simp+
  have e: "exponent_value None = Some 0" "exponent_value (Some ''+1'') = Some 1" "exponent_value (Some ''-3'') = Some (- 3)"
    by (simp_all add: exponent_value_def parse_signed_def is_ascii_digit_def digit_value_def)
  have "\<not> (\<exists>t. canonical_decimal (signed_text False ''10'' @ exponent_text None) = signed_text False t \<and> is_decimal t \<and>
        dec_value t = scaled_value (dec_value ''10'') 0)"
    using canonical_decimal_exact_iff[OF d(1) e(1), of False] d(4,7) by simp
  moreover have "\<not> (\<exists>t. canonical_decimal (signed_text False ''1.0'' @ exponent_text (Some ''+1'')) = signed_text False t \<and> is_decimal t \<and>
        dec_value t = scaled_value (dec_value ''1.0'') 1)"
    using canonical_decimal_exact_iff[OF d(2) e(2), of False] d(5,8) by simp
  moreover have "\<exists>t. canonical_decimal (signed_text True ''1'' @ exponent_text (Some ''-3'')) = signed_text True t \<and> is_decimal t \<and>
        dec_value t = scaled_value (dec_value ''1'') (- 3)"
    using canonical_decimal_exact_iff[OF d(3) e(3), of True] d(6) by simp
  moreover have "canonical_decimal ''0.10'' = ''0.1''" "canonical_decimal ''0'' = []" "canonical_decimal ''10'' = ''1''"
    "canonical_decimal ''1.0E+1'' = ''1''" "canonical_decimal ''1E-3'' = ''0.001''" by code_simp+
  ultimately show ?thesis by blast
qed

end
