(* ===== verification/Aave.thy ===== *)
theory Aave
  imports Protocols Blocks Canonical
begin

text \<open>
  The Aave adapter (\<open>src/adapters/aave_v3/mod.rs\<close>): the income index of a reserve at a block, and the
  realized yield between two blocks. Parameters: the archive RPC, the 512-bit decimals of the
  library \<open>fastnum\<close> (the record \<open>d512\<close>), the parser of big integers, and which of two concurrent calls that
  both fail is the first to do so. An operation of the decimal library may trap and panic (division by zero,
  overflow, an invalid power): its outcome is then \<open>None\<close>, and so is the outcome of what calls it.
\<close>

section \<open>Data\<close>

record 'd d512 =
  d_from_str :: "string \<Rightarrow> 'd option"
  d_to_string :: "'d \<Rightarrow> string"
  d_mul :: "'d \<Rightarrow> 'd \<Rightarrow> 'd option"
  d_div :: "'d \<Rightarrow> 'd \<Rightarrow> 'd option"
  d_sub :: "'d \<Rightarrow> 'd \<Rightarrow> 'd option"
  d_pow :: "'d \<Rightarrow> 'd \<Rightarrow> 'd option"
  d_less :: "'d \<Rightarrow> 'd \<Rightarrow> bool"

datatype aave_error =
    UnsupportedAaveAsset
  | InvalidBlockRange
  | BlockNotFinal
  | AaveProvider
  | InvalidAaveResponse
  | InvalidIncomeIndex
  | AaveCalculation

record aave_request =
  aq_asset_slug :: string
  aq_from_block :: nat
  aq_to_block :: nat
  aq_include_annualized_apy_estimate :: bool

record aave_result =
  ar_asset_symbol :: string
  ar_underlying_asset_address :: string
  ar_from_index :: string
  ar_to_index :: string
  ar_realized_yield :: string
  ar_from_timestamp :: "nat option"
  ar_to_timestamp :: "nat option"
  ar_annualized_apy_estimate :: "string option"
  ar_warnings :: "string list"

record income_index_observation =
  io_asset_symbol :: string
  io_underlying_asset_address :: string
  io_income_index :: string

definition SELECTOR :: string where
  "SELECTOR = ''d15e0053''"

definition SECONDS_PER_YEAR :: nat where
  "SECONDS_PER_YEAR = 31536000"

section \<open>Encoding\<close>

definition encode_get_reserve_normalized_income :: "string \<Rightarrow> (string, aave_error) result" where
  "encode_get_reserve_normalized_income address =
     (let address = (case strip_prefix_str ''0x'' address of Some a \<Rightarrow> a | None \<Rightarrow> address) in
      if length address \<noteq> 40 \<or> \<not> list_all is_ascii_hexdigit address then Err InvalidAaveResponse
      else Ok (''0x'' @ SELECTOR @ pad_left 64 (to_ascii_lowercase address)))"

definition decode_uint256 :: "json \<Rightarrow> (nat, aave_error) result" where
  "decode_uint256 v =
     and_then (ok_or (as_str v) InvalidAaveResponse) (\<lambda>v.
     and_then (ok_or (strip_prefix_str ''0x'' v) InvalidAaveResponse) (\<lambda>hex.
     if length hex \<noteq> 64 \<or> \<not> list_all is_ascii_hexdigit hex then Err InvalidAaveResponse
     else Ok (number_of_hex hex)))"

definition parse_hex_u64 :: "json \<Rightarrow> (nat, aave_error) result" where
  "parse_hex_u64 v = ok_or (parse_hex (as_str v)) InvalidAaveResponse"

definition block_timestamp_of :: "json \<Rightarrow> (nat, aave_error) result" where
  "block_timestamp_of v = and_then (ok_or (json_get v ''timestamp'') InvalidAaveResponse) parse_hex_u64"

section \<open>Operations\<close>

definition income_index_at ::
  "archive \<Rightarrow> realized_yield_protocol \<Rightarrow> string \<Rightarrow> nat \<Rightarrow> (income_index_observation, aave_error) result" where
  "income_index_at rpc protocol asset_slug block_number =
     (if block_number = 0 then Err InvalidBlockRange
      else
        and_then (ok_or (find (\<lambda>r. ry_asset_slug r = asset_slug) (rp_reserves protocol)) UnsupportedAaveAsset) (\<lambda>reserve.
        and_then (encode_get_reserve_normalized_income (ry_underlying_asset_address reserve)) (\<lambda>calldata.
        and_then (map_err (\<lambda>_. AaveProvider) (rpc ''eth_call''
          (JArray [JObject [(''to'', JString (rp_pool_address protocol)), (''data'', JString calldata)],
                   JString (''0x'' @ show_hex block_number)]))) (\<lambda>raw.
        and_then (decode_uint256 raw) (\<lambda>income_index.
        if income_index = 0 then Err InvalidIncomeIndex
        else Ok \<lparr>io_asset_symbol = ry_asset_symbol reserve,
                 io_underlying_asset_address = ry_underlying_asset_address reserve,
                 io_income_index = show_nat income_index\<rparr>)))))"

definition aave_decimal :: "'d d512 \<Rightarrow> nat \<Rightarrow> ('d, aave_error) result" where
  "aave_decimal D n = ok_or (d_from_str D (show_nat n)) AaveCalculation"

text \<open>The question-mark operator after a call that may panic.\<close>

definition try_panic ::
  "('a, 'e) result option \<Rightarrow> ('a \<Rightarrow> ('b, 'e) result option) \<Rightarrow> ('b, 'e) result option" where
  "try_panic r f = (case r of None \<Rightarrow> None | Some (Err e) \<Rightarrow> Some (Err e) | Some (Ok x) \<Rightarrow> f x)"

definition ratio_minus_one :: "'d d512 \<Rightarrow> nat \<Rightarrow> nat \<Rightarrow> (string, aave_error) result option" where
  "ratio_minus_one D to since =
     try_panic (Some (ok_or (d_from_str D ''1'') AaveCalculation)) (\<lambda>one.
     try_panic (Some (aave_decimal D to)) (\<lambda>t.
     try_panic (Some (aave_decimal D since)) (\<lambda>f. do {
       quotient \<leftarrow> d_div D t f;
       difference \<leftarrow> d_sub D quotient one;
       Some (Ok (canonical_decimal (d_to_string D difference)))
     })))"

definition annualized_apy :: "'d d512 \<Rightarrow> nat \<Rightarrow> nat \<Rightarrow> nat \<Rightarrow> (string, aave_error) result option" where
  "annualized_apy D to since elapsed_seconds =
     try_panic (Some (ok_or (d_from_str D ''1'') AaveCalculation)) (\<lambda>one.
     try_panic (Some (ok_or (d_from_str D (show_nat elapsed_seconds)) AaveCalculation)) (\<lambda>seconds.
     try_panic (Some (ok_or (d_from_str D (show_nat SECONDS_PER_YEAR)) AaveCalculation)) (\<lambda>year.
     try_panic (Some (aave_decimal D to)) (\<lambda>t.
     try_panic (Some (aave_decimal D since)) (\<lambda>f. do {
       quotient \<leftarrow> d_div D t f;
       periods \<leftarrow> d_div D year seconds;
       grown \<leftarrow> d_pow D quotient periods;
       difference \<leftarrow> d_sub D grown one;
       Some (Ok (canonical_decimal (d_to_string D difference)))
     })))))"

text \<open>\<open>tokio::try_join!\<close> of two calls; \<open>second_first\<close> tells which failure comes first when both fail.\<close>

definition try_join ::
  "bool \<Rightarrow> ('a, 'e) result \<Rightarrow> ('b, 'e) result \<Rightarrow> ('a \<times> 'b, 'e) result" where
  "try_join second_first a b =
     (case (a, b) of
        (Ok x, Ok y) \<Rightarrow> Ok (x, y)
      | (Err e, Ok _) \<Rightarrow> Err e
      | (Ok _, Err e) \<Rightarrow> Err e
      | (Err e, Err e') \<Rightarrow> Err (if second_first then e' else e))"

definition result_ok :: "('a, 'e) result \<Rightarrow> 'a option" where
  "result_ok r = (case r of Ok x \<Rightarrow> Some x | Err _ \<Rightarrow> None)"

definition block_params :: "nat \<Rightarrow> json" where
  "block_params n = JArray [JString (''0x'' @ show_hex n), JBool False]"

definition aave_resolve ::
  "'d d512 \<Rightarrow> archive \<Rightarrow> (string \<Rightarrow> nat option) \<Rightarrow> bool \<Rightarrow> realized_yield_protocol \<Rightarrow> aave_request \<Rightarrow> nat \<Rightarrow>
   (aave_result, aave_error) result option" where
  "aave_resolve D rpc parse_biguint second_first protocol request min_confirmations =
     (if aq_from_block request = 0 \<or> aq_to_block request = 0 \<or> aq_from_block request \<ge> aq_to_block request
      then Some (Err InvalidBlockRange)
      else
        try_panic (Some (map_err (\<lambda>_. AaveProvider) (rpc ''eth_blockNumber'' (JArray [])))) (\<lambda>v.
        try_panic (Some (parse_hex_u64 v)) (\<lambda>head.
        if aq_to_block request > head - min_confirmations then Some (Err BlockNotFinal)
        else
          try_panic (Some (try_join second_first
            (income_index_at rpc protocol (aq_asset_slug request) (aq_from_block request))
            (income_index_at rpc protocol (aq_asset_slug request) (aq_to_block request)))) (\<lambda>(since, to).
          try_panic (Some (ok_or (parse_biguint (io_income_index since)) InvalidIncomeIndex)) (\<lambda>from_index.
          try_panic (Some (ok_or (parse_biguint (io_income_index to)) InvalidIncomeIndex)) (\<lambda>to_index.
          let warnings = (if to_index < from_index then [''decreasing_income_index''] else []) in
          try_panic (ratio_minus_one D to_index from_index) (\<lambda>realized_yield.
          try_panic
            (if aq_include_annualized_apy_estimate request then
               let from_block = rpc ''eth_getBlockByNumber'' (block_params (aq_from_block request));
                   to_block = rpc ''eth_getBlockByNumber'' (block_params (aq_to_block request)) in
               case (result_ok from_block \<bind> (\<lambda>v. result_ok (block_timestamp_of v)),
                     result_ok to_block \<bind> (\<lambda>v. result_ok (block_timestamp_of v))) of
                 (Some from_timestamp, Some to_timestamp) \<Rightarrow>
                   if to_timestamp > from_timestamp then
                     try_panic (annualized_apy D to_index from_index (to_timestamp - from_timestamp)) (\<lambda>apy.
                     Some (Ok (Some from_timestamp, Some to_timestamp, Some apy, warnings)))
                   else Some (Ok (None, None, None, warnings @ [''timestamp_lookup_failed'']))
               | _ \<Rightarrow> Some (Ok (None, None, None, warnings @ [''timestamp_lookup_failed'']))
             else Some (Ok (None, None, None, warnings))) (\<lambda>(from_timestamp, to_timestamp, apy, warnings).
          Some (Ok \<lparr>ar_asset_symbol = io_asset_symbol since,
              ar_underlying_asset_address = io_underlying_asset_address since,
              ar_from_index = show_nat from_index, ar_to_index = show_nat to_index,
              ar_realized_yield = realized_yield, ar_from_timestamp = from_timestamp,
              ar_to_timestamp = to_timestamp, ar_annualized_apy_estimate = apy,
              ar_warnings = warnings\<rparr>)))))))))"

section \<open>Properties\<close>

text \<open>The index of a reserve that the pool reports at a block.\<close>

definition reported_index :: "archive \<Rightarrow> realized_yield_protocol \<Rightarrow> realized_yield_reserve \<Rightarrow> nat \<Rightarrow> nat \<Rightarrow> bool" where
  "reported_index rpc protocol reserve block_number n \<longleftrightarrow>
     (\<exists>calldata raw. encode_get_reserve_normalized_income (ry_underlying_asset_address reserve) = Ok calldata \<and>
        rpc ''eth_call'' (JArray [JObject [(''to'', JString (rp_pool_address protocol)), (''data'', JString calldata)],
          JString (''0x'' @ show_hex block_number)]) = Ok raw \<and> decode_uint256 raw = Ok n)"

lemma income_index_at_Ok:
  "income_index_at rpc protocol slug k = Ok io \<longleftrightarrow>
     0 < k \<and> (\<exists>reserve n. find (\<lambda>r. ry_asset_slug r = slug) (rp_reserves protocol) = Some reserve \<and>
       reported_index rpc protocol reserve k n \<and> 0 < n \<and>
       io = \<lparr>io_asset_symbol = ry_asset_symbol reserve,
             io_underlying_asset_address = ry_underlying_asset_address reserve, io_income_index = show_nat n\<rparr>)"
proof -
  have "income_index_at rpc protocol slug k = Ok io \<longleftrightarrow>
     k \<noteq> 0 \<and> (\<exists>reserve. find (\<lambda>r. ry_asset_slug r = slug) (rp_reserves protocol) = Some reserve \<and>
       (\<exists>calldata. encode_get_reserve_normalized_income (ry_underlying_asset_address reserve) = Ok calldata \<and>
       (\<exists>raw. rpc ''eth_call'' (JArray [JObject [(''to'', JString (rp_pool_address protocol)), (''data'', JString calldata)],
          JString (''0x'' @ show_hex k)]) = Ok raw \<and>
       (\<exists>n. decode_uint256 raw = Ok n \<and> n \<noteq> 0 \<and>
         io = \<lparr>io_asset_symbol = ry_asset_symbol reserve,
             io_underlying_asset_address = ry_underlying_asset_address reserve, io_income_index = show_nat n\<rparr>))))"
    by (auto simp: income_index_at_def and_then_Ok_iff ok_or_Ok_iff map_err_Ok_iff)
  then show ?thesis unfolding reported_index_def by auto
qed

lemma try_panic_Ok: "try_panic r f = Some (Ok y) \<longleftrightarrow> (\<exists>x. r = Some (Ok x) \<and> f x = Some (Ok y))"
  by (auto simp: try_panic_def split: option.splits result.splits)

lemma try_panic_simps [simp]:
  "try_panic (Some (Ok x)) f = f x" "try_panic (Some (Err e)) f = Some (Err e)" "try_panic None f = None"
  by (simp_all add: try_panic_def)

lemma try_join_Ok: "try_join b x y = Ok (u, v) \<longleftrightarrow> x = Ok u \<and> y = Ok v"
  by (cases x; cases y) (auto simp: try_join_def)

text \<open>
  C20. A realized yield is reported only for an ordered pair of blocks that are both final (the later one
  has the required confirmations below the head of the chain), from the positive income indexes that the pool of the
  protocol reports for the reserve of the asset at exactly these blocks; the yield is the quotient of the
  indexes minus one, and a decrease is always accompanied by a warning.
\<close>

theorem realized_yield_from_final_blocks:
  assumes "aave_resolve D rpc parse_biguint second_first protocol request min_confirmations = Some (Ok res)"
    and "\<And>n. parse_biguint (show_nat n) = Some n"
  shows "0 < aq_from_block request \<and> aq_from_block request < aq_to_block request \<and>
    (\<exists>v head. rpc ''eth_blockNumber'' (JArray []) = Ok v \<and> parse_hex (as_str v) = Some head \<and>
       aq_to_block request + min_confirmations \<le> head) \<and>
    (\<exists>reserve a b. reserve \<in> set (rp_reserves protocol) \<and> ry_asset_slug reserve = aq_asset_slug request \<and>
       reported_index rpc protocol reserve (aq_from_block request) a \<and> 0 < a \<and>
       reported_index rpc protocol reserve (aq_to_block request) b \<and> 0 < b \<and>
       ratio_minus_one D b a = Some (Ok (ar_realized_yield res)) \<and>
       (''decreasing_income_index'' \<in> set (ar_warnings res) \<longleftrightarrow> b < a))"
proof -
  define fb tb where "fb = aq_from_block request" and "tb = aq_to_block request"
  have range: "0 < fb" "fb < tb"
    using assms(1) by (auto simp: aave_resolve_def fb_def tb_def split: if_splits)
  obtain v head where h: "rpc ''eth_blockNumber'' (JArray []) = Ok v" "parse_hex (as_str v) = Some head"
    "tb \<le> head - min_confirmations" "0 < tb"
    using assms(1) range
    by (auto simp: aave_resolve_def try_panic_Ok map_err_Ok_iff parse_hex_u64_def ok_or_Ok_iff fb_def tb_def split: if_splits)
  obtain x y a b where j: "income_index_at rpc protocol (aq_asset_slug request) fb = Ok x"
    "income_index_at rpc protocol (aq_asset_slug request) tb = Ok y"
    "parse_biguint (io_income_index x) = Some a" "parse_biguint (io_income_index y) = Some b"
    "ratio_minus_one D b a = Some (Ok (ar_realized_yield res))"
    "''decreasing_income_index'' \<in> set (ar_warnings res) \<longleftrightarrow> b < a"
    using assms(1)
    by (auto simp: aave_resolve_def try_panic_Ok map_err_Ok_iff try_join_Ok ok_or_Ok_iff fb_def tb_def Let_def
        split: if_splits option.splits)
  obtain reserve m n where r: "find (\<lambda>r. ry_asset_slug r = aq_asset_slug request) (rp_reserves protocol) = Some reserve"
    "reported_index rpc protocol reserve fb m" "0 < m" "io_income_index x = show_nat m"
    "reported_index rpc protocol reserve tb n" "0 < n" "io_income_index y = show_nat n"
    using j(1,2) unfolding income_index_at_Ok by auto
  have "m = a" "n = b" using j(3,4) r(4,7) assms(2) by auto
  moreover have "reserve \<in> set (rp_reserves protocol)" "ry_asset_slug reserve = aq_asset_slug request"
    using r(1) by (auto simp: find_Some_iff)
  ultimately show ?thesis using range h j(5,6) r unfolding fb_def tb_def
    by (intro conjI exI[of _ v] exI[of _ head] exI[of _ reserve] exI[of _ a] exI[of _ b]) auto
qed

text \<open>A pool that reports the index 5 at every block.\<close>

definition flat_pool :: archive where
  "flat_pool rpc_method params =
     (if rpc_method = ''eth_blockNumber'' then Ok (JString ''0x3'')
      else Ok (JString (''0x'' @ replicate 63 CHR ''0'' @ ''5'')))"

definition rational_d512 :: "rat d512" where
  "rational_d512 = \<lparr>d_from_str = (\<lambda>s. if is_decimal s then Some (dec_value s) else None),
     d_to_string = (\<lambda>q. if q = 0 then ''0.0'' else ''1.0''), d_mul = (\<lambda>x y. Some (x * y)),
     d_div = (\<lambda>x y. if y = 0 then None else Some (x / y)), d_sub = (\<lambda>x y. Some (x - y)),
     d_pow = (\<lambda>x _. Some x), d_less = (<)\<rparr>"

definition flat_protocol :: realized_yield_protocol where
  "flat_protocol = \<lparr>rp_slug = ''aave-v3'', rp_network_slug = ''eth-mainnet'', rp_chain_id = 1,
     rp_adapter_kind = ''aave_v3_realized_yield'', rp_adapter_version = ''v1'', rp_pool_address = example_address,
     rp_reserves = [\<lparr>ry_asset_slug = ''usdc'', ry_asset_symbol = ''USDC'', ry_underlying_asset_address = example_address\<rparr>]\<rparr>"

definition flat_request :: aave_request where
  "flat_request = \<lparr>aq_asset_slug = ''usdc'', aq_from_block = 1, aq_to_block = 2, aq_include_annualized_apy_estimate = False\<rparr>"

theorem realized_yield_from_final_blocks_witness:
  "\<exists>res. aave_resolve rational_d512 flat_pool (\<lambda>s. Some (number_of_digits s)) False flat_protocol flat_request 1 = Some (Ok res) \<and>
     ar_realized_yield res = ''0'' \<and> ''decreasing_income_index'' \<notin> set (ar_warnings res)"
proof -
  have enc: "\<exists>calldata. encode_get_reserve_normalized_income example_address = Ok calldata"
  proof -
    have "strip_prefix_str ''0x'' example_address = Some (replicate 40 CHR ''a'')"
      by (simp add: strip_prefix_str_def starts_with_def example_address_def)
    moreover have "list_all is_ascii_hexdigit (replicate 40 CHR ''a'')" by (simp add: list_all_iff is_ascii_hexdigit_def)
    ultimately show ?thesis by (simp add: encode_get_reserve_normalized_income_def)
  qed
  have dec: "decode_uint256 (JString (''0x'' @ replicate 63 CHR ''0'' @ ''5'')) = Ok 5" by code_simp
  have idx: "reported_index flat_pool flat_protocol (hd (rp_reserves flat_protocol)) k 5" for k
    unfolding reported_index_def using enc dec by (auto simp: flat_pool_def flat_protocol_def)
  have obs: "income_index_at flat_pool flat_protocol ''usdc'' k = Ok \<lparr>io_asset_symbol = ''USDC'',
      io_underlying_asset_address = example_address, io_income_index = show_nat 5\<rparr>" if "0 < k" for k
    unfolding income_index_at_Ok using idx[of k] that
    by (intro conjI exI[of _ "hd (rp_reserves flat_protocol)"] exI[of _ 5]) (simp_all add: flat_protocol_def)
  have ratio: "ratio_minus_one rational_d512 5 5 = Some (Ok ''0'')"
  proof -
    have d: "is_decimal ''1''" "dec_value ''1'' = 1" "is_decimal (show_nat 5)" "dec_value (show_nat 5) = 5"
      using plain_digits[of "''1''"] plain_digits[of "show_nat 5"]
      by (simp_all add: dec_value_def is_ascii_digit_def digit_value_def)
    have "canonical_decimal ''0.0'' = ''0''" by code_simp
    then show ?thesis using d by (simp add: ratio_minus_one_def aave_decimal_def rational_d512_def ok_or_def)
  qed
  have head: "flat_pool ''eth_blockNumber'' (JArray []) = Ok (JString ''0x3'')" by (simp add: flat_pool_def)
  have res: "aave_resolve rational_d512 flat_pool (\<lambda>s. Some (number_of_digits s)) False flat_protocol flat_request 1 =
      Some (Ok \<lparr>ar_asset_symbol = ''USDC'', ar_underlying_asset_address = example_address, ar_from_index = show_nat 5,
         ar_to_index = show_nat 5, ar_realized_yield = ''0'', ar_from_timestamp = None, ar_to_timestamp = None,
         ar_annualized_apy_estimate = None, ar_warnings = []\<rparr>)"
    using obs[of 1] obs[of 2] ratio head
    by (simp add: aave_resolve_def flat_request_def parse_hex_u64_def ok_or_def small_parse_hex try_join_def)
  have "Some (number_of_digits (show_nat n)) = Some n" for n by simp
  from realized_yield_from_final_blocks[OF res this] show ?thesis using res by simp
qed

end
