(* ===== verification/Catalog.thy ===== *)
theory Catalog
  imports Registry
begin

text \<open>
  Resolution of requested tokens against the registry: \<open>src/application/balances/catalog.rs\<close> with
  the targets of \<open>src/domain/assets/balance_catalog.rs\<close>. The locale \<open>balance_resolver\<close> is the
  contract that the planner of balance requests and the search for transfers rely on; it is
  interpreted for every registry that was built from a catalog.
\<close>

section \<open>Targets and resolutions\<close>

datatype balance_target_kind = Native | Erc20 string

record balance_target =
  tg_network_slug :: string
  tg_chain_id :: int
  tg_asset_slug :: string
  tg_symbol :: string
  tg_name :: string
  tg_decimals :: nat
  tg_pricing_asset_slug :: string
  tg_kind :: balance_target_kind

datatype balance_target_resolution =
    ResolvedTarget balance_target
  | UnsupportedNetworkTarget string string
  | UnsupportedAssetTarget string string
  | UnsupportedPairTarget string string
  | UnsupportedTokenStandardTarget string string

record balance_network_resolution =
  nr_network_slug :: string
  nr_chain_id :: int

datatype contract_balance_target_resolution =
    ResolvedContract balance_target
  | UnknownContract string int string

text \<open>\<open>filter(|id| *id > 0)\<close> and \<open>u8::try_from\<close>.\<close>

definition positive_chain_id :: "int option \<Rightarrow> int option" where
  "positive_chain_id chain_id =
     (case chain_id of Some i \<Rightarrow> if i > 0 then Some i else None | None \<Rightarrow> None)"

definition u8_try_from :: "int \<Rightarrow> nat option" where
  "u8_try_from x = (if 0 \<le> x \<and> x \<le> 255 then Some (nat x) else None)"

definition target_from_mapping ::
  "string \<Rightarrow> int option \<Rightarrow> canonical_asset \<Rightarrow> canonical_asset_chain_map \<Rightarrow> balance_target option" where
  "target_from_mapping network_slug chain_id asset m = do {
     chain_id \<leftarrow> positive_chain_id chain_id;
     d \<leftarrow> cm_decimals m;
     decimals \<leftarrow> u8_try_from d;
     kind \<leftarrow>
       (if cm_is_native m \<and> cm_token_standard m = ''native'' then Some Native
        else if \<not> cm_is_native m \<and> cm_token_standard m = ''erc20''
        then map_option Erc20 (cm_deployment_address m)
        else None);
     Some \<lparr>tg_network_slug = network_slug, tg_chain_id = chain_id, tg_asset_slug = ca_slug asset,
           tg_symbol = ca_symbol asset, tg_name = ca_name asset, tg_decimals = decimals,
           tg_pricing_asset_slug = ca_slug asset, tg_kind = kind\<rparr>
   }"

definition resolve_balance_target :: "string \<Rightarrow> canonical_balance_target \<Rightarrow> balance_target_resolution" where
  "resolve_balance_target network_slug target =
     (let requested = bt_requested_asset_slug target in
      case bt_network target of
        None \<Rightarrow> UnsupportedNetworkTarget network_slug requested
      | Some network \<Rightarrow>
        (case bt_asset target of
           None \<Rightarrow> UnsupportedAssetTarget network_slug requested
         | Some asset \<Rightarrow>
           (case bt_mapping target of
              None \<Rightarrow> UnsupportedPairTarget network_slug requested
            | Some m \<Rightarrow>
                if cn_family network \<noteq> ''evm'' then UnsupportedNetworkTarget network_slug requested
                else (case target_from_mapping (cn_slug network) (cn_chain_id network) asset m of
                        Some t \<Rightarrow> ResolvedTarget t
                      | None \<Rightarrow> UnsupportedTokenStandardTarget network_slug requested))))"

definition resolve_network ::
  "canonical_registry \<Rightarrow> string \<Rightarrow> string list \<Rightarrow> balance_target_resolution list" where
  "resolve_network r network_slug ordered_asset_slugs =
     map (resolve_balance_target network_slug) (ordered_balance_targets r network_slug ordered_asset_slugs)"

definition resolve_evm_network :: "canonical_registry \<Rightarrow> string \<Rightarrow> balance_network_resolution option" where
  "resolve_evm_network r network_slug =
     (case network_by_slug r network_slug of
        None \<Rightarrow> None
      | Some network \<Rightarrow>
          if cn_status network \<noteq> ''active'' \<or> cn_family network \<noteq> ''evm'' then None
          else map_option (\<lambda>chain_id. \<lparr>nr_network_slug = cn_slug network, nr_chain_id = chain_id\<rparr>)
                 (positive_chain_id (cn_chain_id network)))"

definition resolve_erc20_contract ::
  "canonical_registry \<Rightarrow> balance_network_resolution \<Rightarrow> string \<Rightarrow> contract_balance_target_resolution" where
  "resolve_erc20_contract r network requested =
     (let address = to_ascii_lowercase requested;
          unknown = UnknownContract (nr_network_slug network) (nr_chain_id network) address in
      case erc20_metadata r (nr_network_slug network) address of
        None \<Rightarrow> unknown
      | Some metadata \<Rightarrow>
          if cn_chain_id (em_network metadata) = Some (nr_chain_id network)
          then (case target_from_mapping (nr_network_slug network) (cn_chain_id (em_network metadata))
                       (em_asset metadata) (em_mapping metadata) of
                  Some t \<Rightarrow> ResolvedContract t
                | None \<Rightarrow> unknown)
          else unknown)"

definition resolve_erc20_contracts ::
  "canonical_registry \<Rightarrow> balance_network_resolution \<Rightarrow> string list \<Rightarrow>
   contract_balance_target_resolution list" where
  "resolve_erc20_contracts r network ordered_contract_addresses =
     map (resolve_erc20_contract r network) ordered_contract_addresses"

section \<open>The contract of the resolver\<close>

text \<open>Two targets of a network are the same on the wire when their keys agree.\<close>

datatype target_key = NativeKey | Erc20Key string

fun key_from_kind :: "balance_target_kind \<Rightarrow> target_key" where
  "key_from_kind Native = NativeKey"
| "key_from_kind (Erc20 contract_address) = Erc20Key (to_ascii_lowercase contract_address)"

locale balance_resolver =
  fixes by_slug :: "'s \<Rightarrow> string \<Rightarrow> string list \<Rightarrow> balance_target_resolution list"
    and evm_network :: "'s \<Rightarrow> string \<Rightarrow> balance_network_resolution option"
    and by_contract :: "'s \<Rightarrow> balance_network_resolution \<Rightarrow> string list \<Rightarrow> contract_balance_target_resolution list"
    and well_built :: "'s \<Rightarrow> bool"
  assumes by_slug_length: "length (by_slug s n slugs) = length slugs"
    and by_slug_echo: "well_built s \<Longrightarrow> i < length slugs \<Longrightarrow>
      (case by_slug s n slugs ! i of
         ResolvedTarget t \<Rightarrow> tg_network_slug t = to_ascii_lowercase n \<and>
           tg_asset_slug t = to_ascii_lowercase (slugs ! i) \<and> tg_pricing_asset_slug t = tg_asset_slug t \<and>
           tg_decimals t \<le> 255 \<and>
           (\<exists>net. evm_network s n = Some net \<and> nr_chain_id net = tg_chain_id t)
       | UnsupportedNetworkTarget n' a \<Rightarrow> n' = n \<and> a = slugs ! i
       | UnsupportedAssetTarget n' a \<Rightarrow> n' = n \<and> a = slugs ! i
       | UnsupportedPairTarget n' a \<Rightarrow> n' = n \<and> a = slugs ! i
       | UnsupportedTokenStandardTarget n' a \<Rightarrow> n' = n \<and> a = slugs ! i)"
    and by_slug_injective: "well_built s \<Longrightarrow>
      ResolvedTarget t \<in> set (by_slug s n slugs) \<Longrightarrow> ResolvedTarget t' \<in> set (by_slug s n slugs') \<Longrightarrow>
      key_from_kind (tg_kind t) = key_from_kind (tg_kind t') \<Longrightarrow> t = t'"
    and evm_network_slug: "well_built s \<Longrightarrow> evm_network s n = Some net \<Longrightarrow>
      nr_network_slug net = to_ascii_lowercase n"
    and by_contract_length: "length (by_contract s net addresses) = length addresses"
    and by_contract_echo: "well_built s \<Longrightarrow> i < length addresses \<Longrightarrow>
      (case by_contract s net addresses ! i of
         ResolvedContract t \<Rightarrow> tg_network_slug t = nr_network_slug net \<and> tg_chain_id t = nr_chain_id net \<and>
           tg_kind t = Erc20 (to_ascii_lowercase (addresses ! i)) \<and>
           tg_pricing_asset_slug t = tg_asset_slug t \<and> tg_decimals t \<le> 255
       | UnknownContract n c a \<Rightarrow> n = nr_network_slug net \<and> c = nr_chain_id net \<and>
           a = to_ascii_lowercase (addresses ! i))"

section \<open>The registry fulfils the contract\<close>

definition registry_built :: "canonical_registry \<Rightarrow> bool" where
  "registry_built r \<longleftrightarrow> (\<exists>c. from_catalog c = Some (Ok r))"

lemma target_from_mapping_SomeD:
  assumes "target_from_mapping n chain a m = Some t"
  shows "tg_network_slug t = n \<and> tg_asset_slug t = ca_slug a \<and> tg_pricing_asset_slug t = ca_slug a \<and>
    tg_symbol t = ca_symbol a \<and> tg_name t = ca_name a \<and> tg_decimals t \<le> 255 \<and>
    positive_chain_id chain = Some (tg_chain_id t) \<and> map_option nat (cm_decimals m) = Some (tg_decimals t) \<and>
    (tg_kind t = Native \<and> cm_is_native m \<or>
     (\<exists>address. tg_kind t = Erc20 address \<and> cm_deployment_address m = Some address \<and>
        cm_token_standard m = ''erc20'' \<and> \<not> cm_is_native m))"
  using assms
  by (auto simp: target_from_mapping_def u8_try_from_def bind_eq_Some_conv split: if_splits)

text \<open>The rows behind a resolved target.\<close>

lemma resolved_rows:
  assumes "from_catalog c = Some (Ok r)" "ResolvedTarget t \<in> set (resolve_network r n slugs)"
  obtains slug net a m where "slug \<in> set slugs" "net \<in> set (cat_networks c)" "cn_slug net = to_ascii_lowercase n"
    "is_active (cn_status net)" "cn_family net = ''evm''"
    "a \<in> set (cat_assets c)" "ca_slug a = to_ascii_lowercase slug" "is_active (ca_status a)"
    "m \<in> set (cat_asset_chain_maps c)" "is_active (cm_status m)"
    "cm_asset_slug m = ca_slug a" "cm_network_slug m = cn_slug net"
    "target_from_mapping (cn_slug net) (cn_chain_id net) a m = Some t"
proof -
  obtain slug net a m where s: "slug \<in> set slugs" "active_network r n = Some net"
    "asset_by_slug r slug = Some a" "is_active (ca_status a)"
    "mapping_for r (ca_slug a) (cn_slug net) = Some m" "is_active (cm_status m)" "cn_family net = ''evm''"
    "target_from_mapping (cn_slug net) (cn_chain_id net) a m = Some t"
    using assms(2)
    by (auto simp: resolve_network_def ordered_balance_targets_def resolve_balance_target_def Let_def
        split: option.splits if_splits)
  have net: "net \<in> set (cat_networks c)" "cn_slug net = to_ascii_lowercase n" "is_active (cn_status net)"
    using s(2) by (auto simp: active_network_def network_by_slug_iff[OF assms(1)] split: option.splits if_splits)
  have a: "a \<in> set (cat_assets c)" "ca_slug a = to_ascii_lowercase slug"
    using s(3) by (simp_all add: asset_by_slug_iff[OF assms(1)])
  have m: "m \<in> set (cat_asset_chain_maps c)" "cm_asset_slug m = ca_slug a" "cm_network_slug m = cn_slug net"
    using s(5) net a by (simp_all add: mapping_for_iff[OF assms(1)])
  show ?thesis by (rule that[OF s(1) net s(7) a s(4) m(1) s(6) m(2,3) s(8)])
qed

lemma distinct_map_filter_inj:
  assumes "distinct (List.map_filter f xs)" "x \<in> set xs" "x' \<in> set xs" "f x = Some y" "f x' = Some y"
  shows "x = x'"
  using assms
proof (induction xs)
  case (Cons z xs)
  note d = Cons.prems(1)[unfolded distinct_map_filter_Cons]
  show ?case
  proof (cases "x \<in> set xs \<and> x' \<in> set xs")
    case True
    then show ?thesis using Cons.IH d Cons.prems(4,5) by blast
  next
    case False
    have "y \<notin> set (List.map_filter f xs)" if "f z = Some y" using d that by auto
    then have "\<not> (f z = Some y \<and> (\<exists>w\<in>set xs. f w = Some y))" by (auto simp: in_map_filter)
    then show ?thesis using False Cons.prems(2-5) by auto
  qed
qed simp

lemma same_target_same_mapping:
  assumes "valid_catalog c" "m \<in> set (cat_asset_chain_maps c)" "m' \<in> set (cat_asset_chain_maps c)"
    and "is_active (cm_status m)" "is_active (cm_status m')" "cm_network_slug m = cm_network_slug m'"
    and "target_from_mapping n chain a m = Some t" "target_from_mapping n' chain' a' m' = Some t'"
    and "key_from_kind (tg_kind t) = key_from_kind (tg_kind t')"
  shows "m = m'"
proof -
  note k = target_from_mapping_SomeD[OF assms(7)] and k' = target_from_mapping_SomeD[OF assms(8)]
  consider (native) "cm_is_native m" "cm_is_native m'"
    | (erc20) address address' where "cm_deployment_address m = Some address" "cm_token_standard m = ''erc20''"
        "cm_deployment_address m' = Some address'" "cm_token_standard m' = ''erc20''"
        "to_ascii_lowercase address = to_ascii_lowercase address'"
    using k k' assms(9) by auto
  then show ?thesis
  proof cases
    case native
    then show ?thesis
      using distinct_map_filter_inj[OF valid_catalog_rows(4)[OF assms(1)] assms(2,3)] assms(4-6)
      by (simp add: native_of_def)
  next
    case erc20
    then have "address = address'"
      using live_erc20_address[OF assms(1,2)] live_erc20_address[OF assms(1,3)] by auto
    then show ?thesis
      using distinct_map_filter_inj[OF valid_catalog_rows(5)[OF assms(1)] assms(2,3)] assms(4-6) erc20
      by (simp add: address_of_def)
  qed
qed

lemma resolved_injective:
  assumes "from_catalog c = Some (Ok r)" "ResolvedTarget t \<in> set (resolve_network r n slugs)"
    and "ResolvedTarget t' \<in> set (resolve_network r n slugs')"
    and "key_from_kind (tg_kind t) = key_from_kind (tg_kind t')"
  shows "t = t'"
proof -
  have v: "valid_catalog c" using registry_fields(1)[OF assms(1)] .
  obtain slug net a m where x: "net \<in> set (cat_networks c)" "cn_slug net = to_ascii_lowercase n"
    "a \<in> set (cat_assets c)" "m \<in> set (cat_asset_chain_maps c)" "is_active (cm_status m)"
    "cm_asset_slug m = ca_slug a" "cm_network_slug m = cn_slug net"
    "target_from_mapping (cn_slug net) (cn_chain_id net) a m = Some t"
    by (rule resolved_rows[OF assms(1,2)])
  obtain slug' net' a' m' where y: "net' \<in> set (cat_networks c)" "cn_slug net' = to_ascii_lowercase n"
    "a' \<in> set (cat_assets c)" "m' \<in> set (cat_asset_chain_maps c)" "is_active (cm_status m')"
    "cm_asset_slug m' = ca_slug a'" "cm_network_slug m' = cn_slug net'"
    "target_from_mapping (cn_slug net') (cn_chain_id net') a' m' = Some t'"
    by (rule resolved_rows[OF assms(1,3)])
  have "net = net'" using distinct_map_eq[OF valid_catalog_rows(2)[OF v] x(1) y(1)] x(2) y(2) by simp
  moreover have "m = m'"
    using same_target_same_mapping[OF v x(4) y(4) x(5) y(5) _ x(8) y(8) assms(4)] x(2,7) y(2,7) by simp
  moreover from this have "a = a'"
    using distinct_map_eq[OF valid_catalog_rows(1)[OF v] x(3) y(3)] x(6) y(6) by simp
  ultimately show ?thesis using x(8) y(8) by simp
qed

lemma resolve_network_nth:
  "i < length slugs \<Longrightarrow> resolve_network r n slugs ! i = hd (resolve_network r n [slugs ! i])"
  by (simp add: resolve_network_def ordered_balance_targets_def Let_def)

lemma resolve_network_echo:
  assumes "from_catalog c = Some (Ok r)"
  shows "case hd (resolve_network r n [slug]) of
     ResolvedTarget t \<Rightarrow> tg_network_slug t = to_ascii_lowercase n \<and>
       tg_asset_slug t = to_ascii_lowercase slug \<and> tg_pricing_asset_slug t = tg_asset_slug t \<and>
       tg_decimals t \<le> 255 \<and>
       (\<exists>net. resolve_evm_network r n = Some net \<and> nr_chain_id net = tg_chain_id t)
   | UnsupportedNetworkTarget n' a \<Rightarrow> n' = n \<and> a = slug
   | UnsupportedAssetTarget n' a \<Rightarrow> n' = n \<and> a = slug
   | UnsupportedPairTarget n' a \<Rightarrow> n' = n \<and> a = slug
   | UnsupportedTokenStandardTarget n' a \<Rightarrow> n' = n \<and> a = slug"
proof (cases "\<exists>t. hd (resolve_network r n [slug]) = ResolvedTarget t")
  case True
  then obtain t where t: "hd (resolve_network r n [slug]) = ResolvedTarget t" by blast
  then have "ResolvedTarget t \<in> set (resolve_network r n [slug])"
    by (simp add: resolve_network_def ordered_balance_targets_def Let_def)
  then obtain net a m where x: "net \<in> set (cat_networks c)" "cn_slug net = to_ascii_lowercase n"
    "is_active (cn_status net)" "cn_family net = ''evm''" "ca_slug a = to_ascii_lowercase slug"
    "target_from_mapping (cn_slug net) (cn_chain_id net) a m = Some t"
    using resolved_rows[OF assms] by (metis empty_iff empty_set set_ConsD)
  have "network_by_slug r n = Some net" using x(1,2) by (simp add: network_by_slug_iff[OF assms])
  then have "\<exists>e. resolve_evm_network r n = Some e \<and> nr_chain_id e = tg_chain_id t"
    using x(3,4) target_from_mapping_SomeD[OF x(6)] by (simp add: resolve_evm_network_def is_active_def)
  then show ?thesis using t target_from_mapping_SomeD[OF x(6)] x(2,5) by simp
next
  case False
  then show ?thesis
    by (auto simp: resolve_network_def ordered_balance_targets_def Let_def resolve_balance_target_def
        split: option.splits if_splits)
qed

lemma resolve_contract_echo:
  assumes "from_catalog c = Some (Ok r)"
  shows "case resolve_erc20_contract r net address of
     ResolvedContract t \<Rightarrow> tg_network_slug t = nr_network_slug net \<and> tg_chain_id t = nr_chain_id net \<and>
       tg_kind t = Erc20 (to_ascii_lowercase address) \<and>
       tg_pricing_asset_slug t = tg_asset_slug t \<and> tg_decimals t \<le> 255
   | UnknownContract n ch a \<Rightarrow> n = nr_network_slug net \<and> ch = nr_chain_id net \<and> a = to_ascii_lowercase address"
proof (cases "resolve_erc20_contract r net address")
  case (ResolvedContract t)
  then obtain md where md: "erc20_metadata r (nr_network_slug net) (to_ascii_lowercase address) = Some md"
    "cn_chain_id (em_network md) = Some (nr_chain_id net)"
    "target_from_mapping (nr_network_slug net) (cn_chain_id (em_network md)) (em_asset md) (em_mapping md) = Some t"
    by (auto simp: resolve_erc20_contract_def Let_def split: option.splits if_splits)
  note row = md(1)[unfolded erc20_metadata_iff[OF assms]]
  have "\<not> cm_is_native (em_mapping md)"
    using live_erc20_address[OF registry_fields(1)[OF assms]] row by blast
  with target_from_mapping_SomeD[OF md(3)] row md(2) show ?thesis
    by (auto simp: ResolvedContract positive_chain_id_def split: if_splits)
next
  case (UnknownContract n ch a)
  then show ?thesis
    by (auto simp: resolve_erc20_contract_def Let_def split: option.splits if_splits)
qed

interpretation resolver: balance_resolver resolve_network resolve_evm_network resolve_erc20_contracts registry_built
proof
  fix s n slugs
  show "length (resolve_network s n slugs) = length slugs"
    by (simp add: resolve_network_def ordered_balance_targets_def Let_def)
next
  fix s n and slugs :: "string list" and i
  assume b: "registry_built s" and i: "i < length slugs"
  from b obtain c where "from_catalog c = Some (Ok s)" by (auto simp: registry_built_def)
  from resolve_network_echo[OF this, of n "slugs ! i"] show "case resolve_network s n slugs ! i of
         ResolvedTarget t \<Rightarrow> tg_network_slug t = to_ascii_lowercase n \<and>
           tg_asset_slug t = to_ascii_lowercase (slugs ! i) \<and> tg_pricing_asset_slug t = tg_asset_slug t \<and>
           tg_decimals t \<le> 255 \<and>
           (\<exists>net. resolve_evm_network s n = Some net \<and> nr_chain_id net = tg_chain_id t)
       | UnsupportedNetworkTarget n' a \<Rightarrow> n' = n \<and> a = slugs ! i
       | UnsupportedAssetTarget n' a \<Rightarrow> n' = n \<and> a = slugs ! i
       | UnsupportedPairTarget n' a \<Rightarrow> n' = n \<and> a = slugs ! i
       | UnsupportedTokenStandardTarget n' a \<Rightarrow> n' = n \<and> a = slugs ! i"
    unfolding resolve_network_nth[OF i] .
next
  fix s t t' n slugs slugs'
  assume "registry_built s" "ResolvedTarget t \<in> set (resolve_network s n slugs)"
    "ResolvedTarget t' \<in> set (resolve_network s n slugs')" "key_from_kind (tg_kind t) = key_from_kind (tg_kind t')"
  then show "t = t'" using resolved_injective by (auto simp: registry_built_def)
next
  fix s n net
  assume "registry_built s" "resolve_evm_network s n = Some net"
  then show "nr_network_slug net = to_ascii_lowercase n"
    by (auto simp: registry_built_def resolve_evm_network_def network_by_slug_iff split: option.splits if_splits)
next
  fix s net addresses
  show "length (resolve_erc20_contracts s net addresses) = length addresses"
    by (simp add: resolve_erc20_contracts_def)
next
  fix s net and addresses :: "string list" and i
  assume "registry_built s" "i < length addresses"
  then show "case resolve_erc20_contracts s net addresses ! i of
         ResolvedContract t \<Rightarrow> tg_network_slug t = nr_network_slug net \<and> tg_chain_id t = nr_chain_id net \<and>
           tg_kind t = Erc20 (to_ascii_lowercase (addresses ! i)) \<and>
           tg_pricing_asset_slug t = tg_asset_slug t \<and> tg_decimals t \<le> 255
       | UnknownContract n c a \<Rightarrow> n = nr_network_slug net \<and> c = nr_chain_id net \<and>
           a = to_ascii_lowercase (addresses ! i)"
    using resolve_contract_echo by (auto simp: registry_built_def resolve_erc20_contracts_def)
qed

end
