(* ===== verification/Balances.thy ===== *)
theory Balances
  imports Catalog Bigwig Decimal
begin

text \<open>
  Balance snapshots: \<open>src/application/balances\<close> (\<open>command.rs\<close>, \<open>service.rs\<close>, \<open>raw.rs\<close>,
  \<open>result.rs\<close>, \<open>quote.rs\<close>, \<open>error.rs\<close>). A command is validated, its accounts are grouped by
  network, the tokens of each group are resolved and planned, one gateway call per group runs in a
  set of concurrent tasks, the responses are checked item by item against the plan, and the
  balances are priced. The gateway, the price reader and the scheduler are parameters: the
  scheduler maps the spawned groups to the order in which they finish, \<open>None\<close> for a task that was
  lost. \<open>None\<close> as an outcome is a panic.
\<close>

section \<open>Commands\<close>

record onchain_account =
  oa_network_slug :: string
  oa_address :: string
  oa_client_ref :: "string option"

record token_selector =
  ts_asset_slugs :: "string list"
  ts_contract_addresses :: "string list"

definition token_selector_len :: "token_selector \<Rightarrow> nat" where
  "token_selector_len tokens = length (ts_asset_slugs tokens) + length (ts_contract_addresses tokens)"

record get_balances_command =
  gb_as_of :: as_of
  gb_accounts :: "onchain_account list"
  gb_tokens :: token_selector
  gb_quote_currency :: string

datatype get_balances_command_error =
    EmptyAccounts
  | EmptyTokens
  | CommandTooLarge
  | UnsupportedQuoteCurrency
  | InvalidAccount
  | DuplicateAccount
  | DuplicateAsset

definition MAX_ACCOUNTS :: nat where
  "MAX_ACCOUNTS = 50"

definition MAX_TOKENS :: nat where
  "MAX_TOKENS = 20"

definition MAX_RESOLUTION_ITEMS :: nat where
  "MAX_RESOLUTION_ITEMS = 1000"

definition checked_mul_usize :: "nat \<Rightarrow> nat \<Rightarrow> nat option" where
  "checked_mul_usize a b = (if a * b < 2 ^ 64 then Some (a * b) else None)"

definition try_new ::
  "as_of \<Rightarrow> onchain_account list \<Rightarrow> string \<Rightarrow> token_selector \<Rightarrow>
   (get_balances_command, get_balances_command_error) result" where
  "try_new as_of accounts quote_currency tokens =
     (if accounts = [] then Err EmptyAccounts
      else if ts_asset_slugs tokens = [] \<and> ts_contract_addresses tokens = [] then Err EmptyTokens
      else
        let contract_addresses =
              keep_unseen (\<lambda>a. a) {} (map to_ascii_lowercase (ts_contract_addresses tokens));
            token_count = length (ts_asset_slugs tokens) + length contract_addresses
        in and_then (ok_or (checked_mul_usize (length accounts) token_count) CommandTooLarge) (\<lambda>resolution_items.
           if length accounts > MAX_ACCOUNTS \<or> token_count > MAX_TOKENS \<or>
              resolution_items > MAX_RESOLUTION_ITEMS
           then Err CommandTooLarge
           else
             let quote_currency = to_ascii_uppercase (trim quote_currency) in
             if quote_currency \<notin> {''USD'', ''MXN'', ''USDC'', ''BTC''} then Err UnsupportedQuoteCurrency
             else if list_ex (\<lambda>a. \<not> is_evm_address (oa_address a)) accounts then Err InvalidAccount
             else if \<not> all_unseen {} (map (\<lambda>a. (oa_network_slug a, to_ascii_lowercase (oa_address a))) accounts)
             then Err DuplicateAccount
             else if \<not> all_unseen {} (ts_asset_slugs tokens) then Err DuplicateAsset
             else Ok \<lparr>gb_as_of = as_of, gb_accounts = accounts,
                      gb_tokens = \<lparr>ts_asset_slugs = ts_asset_slugs tokens,
                                   ts_contract_addresses = contract_addresses\<rparr>,
                      gb_quote_currency = quote_currency\<rparr>))"

section \<open>Results\<close>

datatype balance_item_error_code =
    BalanceResolutionFailed
  | BalanceProviderUnavailable
  | PriceResolutionFailed
  | PriceProviderUnavailable
  | ItemInternalError

datatype balance_plan_issue =
    ResolutionCountMismatch
  | UnexpectedResolutionNetwork
  | InconsistentChainId
  | TargetCollision
  | ConflictingTargetMetadata

datatype balance_snapshot_service_error =
    SnapshotUnsupportedNetwork string
  | SnapshotUnsupportedAsset string string
  | SnapshotRequestTooLarge string
  | InvalidPlan string balance_plan_issue
  | ExecutionTaskFailed

datatype balance_token_selector = AssetSlug string | ContractAddress string

record resolved_balance_target =
  rt_selector :: balance_token_selector
  rt_network_slug :: string
  rt_chain_id :: int
  rt_asset_slug :: "string option"
  rt_symbol :: "string option"
  rt_name :: "string option"
  rt_decimals :: "nat option"
  rt_pricing_asset_slug :: "string option"
  rt_kind :: balance_target_kind

record balance_evidence =
  ev_network_slug :: string
  ev_observed_at :: string
  ev_block_number :: string
  ev_block_hash :: string
  ev_block_timestamp :: string

datatype raw_balance_item_outcome =
    RawResolved resolved_balance_target string
  | RawSkipped string string
  | RawFailed resolved_balance_target balance_item_error_code

record raw_balances_account_result =
  ra_account :: onchain_account
  ra_evidence :: "balance_evidence option"
  ra_items :: "raw_balance_item_outcome list"

datatype balance_quote_outcome =
    QuoteAvailable string string string string
  | QuoteUnavailable balance_item_error_code
  | QuoteUnsupported

datatype balance_item_outcome =
    BalanceResolved resolved_balance_target string "string option" balance_quote_outcome
  | BalanceSkipped string string
  | BalanceFailed resolved_balance_target balance_item_error_code

record balances_account_result =
  ba_account :: onchain_account
  ba_evidence :: "balance_evidence option"
  ba_items :: "balance_item_outcome list"

record get_balances_result =
  br_as_of :: as_of
  br_quote_currency :: string
  br_requested_token_count :: nat
  br_accounts :: "balances_account_result list"

datatype price_quote_resolution =
    PriceAvailable string string string
  | PriceUnavailable
  | PriceUnsupported

datatype price_quote_error = QuoteProviderUnavailable | QuoteInternalError

section \<open>Planning\<close>

record group_account =
  ga_original_index :: nat
  ga_account :: onchain_account

record grouped_accounts =
  gp_network_slug :: string
  gp_accounts :: "group_account list"

text \<open>The loop of \<open>group_accounts\<close>: the index of the group of each network, and the groups.\<close>

definition group_step ::
  "(string \<Rightarrow> nat option) \<times> grouped_accounts list \<Rightarrow> nat \<times> onchain_account \<Rightarrow>
   (string \<Rightarrow> nat option) \<times> grouped_accounts list" where
  "group_step s x =
     (let (group_indexes, groups) = s; (original_index, account) = x;
          slug = oa_network_slug account;
          (group_indexes, groups, group_index) =
            (case group_indexes slug of
               Some index \<Rightarrow> (group_indexes, groups, index)
             | None \<Rightarrow> (group_indexes(slug \<mapsto> length groups),
                 groups @ [\<lparr>gp_network_slug = slug, gp_accounts = []\<rparr>], length groups));
          grp = groups ! group_index
      in (group_indexes,
          groups[group_index := grp\<lparr>gp_accounts := gp_accounts grp @
            [\<lparr>ga_original_index = original_index, ga_account = account\<rparr>]\<rparr>]))"

definition group_accounts :: "onchain_account list \<Rightarrow> grouped_accounts list" where
  "group_accounts accounts = snd (foldl group_step (Map.empty, []) (enumerate 0 accounts))"

record planned_target =
  pt_wire_target :: bigwig_target
  pt_first_target :: resolved_balance_target

datatype token_plan = Supported nat resolved_balance_target | Skipped string string

record network_group_plan =
  np_network_slug :: string
  np_as_of :: as_of
  np_chain_id :: "int option"
  np_accounts :: "group_account list"
  np_token_plans :: "token_plan list"
  np_targets :: "planned_target list"

fun key_from_bigwig :: "bigwig_target \<Rightarrow> target_key" where
  "key_from_bigwig WireNative = NativeKey"
| "key_from_bigwig (WireErc20 contract_address) = Erc20Key (to_ascii_lowercase contract_address)"

fun wire_target_of :: "balance_target_kind \<Rightarrow> bigwig_target" where
  "wire_target_of Native = WireNative"
| "wire_target_of (Erc20 contract_address) = WireErc20 contract_address"

definition resolved_target_from_asset_selector ::
  "string \<Rightarrow> balance_target \<Rightarrow> resolved_balance_target" where
  "resolved_target_from_asset_selector requested_asset_slug t =
     \<lparr>rt_selector = AssetSlug requested_asset_slug, rt_network_slug = tg_network_slug t,
      rt_chain_id = tg_chain_id t, rt_asset_slug = Some (tg_asset_slug t), rt_symbol = Some (tg_symbol t),
      rt_name = Some (tg_name t), rt_decimals = Some (tg_decimals t),
      rt_pricing_asset_slug = Some (tg_pricing_asset_slug t), rt_kind = tg_kind t\<rparr>"

definition resolved_target_from_contract_selector ::
  "string \<Rightarrow> balance_target \<Rightarrow> resolved_balance_target" where
  "resolved_target_from_contract_selector requested_contract_address t =
     \<lparr>rt_selector = ContractAddress (to_ascii_lowercase requested_contract_address),
      rt_network_slug = tg_network_slug t,
      rt_chain_id = tg_chain_id t, rt_asset_slug = Some (tg_asset_slug t), rt_symbol = Some (tg_symbol t),
      rt_name = Some (tg_name t), rt_decimals = Some (tg_decimals t),
      rt_pricing_asset_slug = Some (tg_pricing_asset_slug t), rt_kind = tg_kind t\<rparr>"

definition unresolved_contract_target :: "string \<Rightarrow> int \<Rightarrow> string \<Rightarrow> resolved_balance_target" where
  "unresolved_contract_target network_slug chain_id contract_address =
     \<lparr>rt_selector = ContractAddress contract_address, rt_network_slug = network_slug,
      rt_chain_id = chain_id, rt_asset_slug = None, rt_symbol = None, rt_name = None, rt_decimals = None,
      rt_pricing_asset_slug = None, rt_kind = Erc20 contract_address\<rparr>"

text \<open>The mutable variables of \<open>plan_network_group\<close>.\<close>

record plan_state =
  ps_chain_id :: "int option"
  ps_targets :: "planned_target list"
  ps_target_indexes :: "target_key \<Rightarrow> nat option"
  ps_token_plans :: "token_plan list"

fun is_asset_selector :: "balance_token_selector \<Rightarrow> bool" where
  "is_asset_selector (AssetSlug _) = True"
| "is_asset_selector (ContractAddress _) = False"

definition push_planned_target ::
  "string \<Rightarrow> plan_state \<Rightarrow> resolved_balance_target \<Rightarrow>
   (nat \<times> plan_state, balance_snapshot_service_error) result" where
  "push_planned_target network_slug s t =
     (let key = key_from_kind (rt_kind t) in
      case ps_target_indexes s key of
        Some existing_index \<Rightarrow>
          let existing = pt_first_target (ps_targets s ! existing_index);
              by_slug = is_asset_selector (rt_selector existing) \<and> is_asset_selector (rt_selector t) in
          if by_slug \<and> rt_asset_slug existing \<noteq> rt_asset_slug t
          then Err (InvalidPlan network_slug TargetCollision)
          else if by_slug \<and> existing \<noteq> t
          then Err (InvalidPlan network_slug ConflictingTargetMetadata)
          else Ok (existing_index, s)
      | None \<Rightarrow>
          let target_index = length (ps_targets s) in
          Ok (target_index,
              s\<lparr>ps_target_indexes := (ps_target_indexes s)(key \<mapsto> target_index),
                ps_targets := ps_targets s @
                  [\<lparr>pt_wire_target = wire_target_of (rt_kind t), pt_first_target = t\<rparr>]\<rparr>))"

definition adopt_chain_id ::
  "string \<Rightarrow> plan_state \<Rightarrow> int \<Rightarrow> (plan_state, balance_snapshot_service_error) result" where
  "adopt_chain_id network_slug s chain_id =
     (case ps_chain_id s of
        Some expected_chain_id \<Rightarrow>
          if expected_chain_id \<noteq> chain_id then Err (InvalidPlan network_slug InconsistentChainId) else Ok s
      | None \<Rightarrow> Ok (s\<lparr>ps_chain_id := Some chain_id\<rparr>))"

definition push_supported ::
  "string \<Rightarrow> plan_state \<Rightarrow> resolved_balance_target \<Rightarrow>
   (plan_state, balance_snapshot_service_error) result" where
  "push_supported network_slug s t =
     and_then (push_planned_target network_slug s t) (\<lambda>(target_index, s).
       Ok (s\<lparr>ps_token_plans := ps_token_plans s @ [Supported target_index t]\<rparr>))"

fun plan_asset ::
  "string \<Rightarrow> plan_state \<Rightarrow> string \<times> balance_target_resolution \<Rightarrow>
   (plan_state, balance_snapshot_service_error) result" where
  "plan_asset group_slug s (requested, UnsupportedNetworkTarget network_slug _) =
     Err (SnapshotUnsupportedNetwork network_slug)"
| "plan_asset group_slug s (requested, UnsupportedAssetTarget network_slug asset_slug) =
     Err (SnapshotUnsupportedAsset network_slug asset_slug)"
| "plan_asset group_slug s (requested, UnsupportedPairTarget network_slug asset_slug) =
     (if network_slug \<noteq> group_slug \<or> asset_slug \<noteq> requested
      then Err (InvalidPlan group_slug UnexpectedResolutionNetwork)
      else Ok (s\<lparr>ps_token_plans := ps_token_plans s @ [Skipped network_slug asset_slug]\<rparr>))"
| "plan_asset group_slug s (requested, UnsupportedTokenStandardTarget network_slug asset_slug) =
     (if network_slug \<noteq> group_slug \<or> asset_slug \<noteq> requested
      then Err (InvalidPlan group_slug UnexpectedResolutionNetwork)
      else Ok (s\<lparr>ps_token_plans := ps_token_plans s @ [Skipped network_slug asset_slug]\<rparr>))"
| "plan_asset group_slug s (requested, ResolvedTarget t) =
     (if tg_network_slug t \<noteq> group_slug \<or> tg_asset_slug t \<noteq> requested
      then Err (InvalidPlan group_slug UnexpectedResolutionNetwork)
      else and_then (adopt_chain_id group_slug s (tg_chain_id t)) (\<lambda>s.
           push_supported group_slug s (resolved_target_from_asset_selector requested t)))"

fun is_erc20 :: "balance_target_kind \<Rightarrow> bool" where
  "is_erc20 (Erc20 _) = True"
| "is_erc20 Native = False"

fun plan_contract ::
  "string \<Rightarrow> plan_state \<Rightarrow> string \<times> contract_balance_target_resolution \<Rightarrow>
   (plan_state, balance_snapshot_service_error) result" where
  "plan_contract group_slug s (requested, ResolvedContract t) =
     (if tg_network_slug t \<noteq> group_slug \<or> \<not> is_erc20 (tg_kind t)
      then Err (InvalidPlan group_slug UnexpectedResolutionNetwork)
      else and_then (adopt_chain_id group_slug s (tg_chain_id t)) (\<lambda>s.
           push_supported group_slug s (resolved_target_from_contract_selector requested t)))"
| "plan_contract group_slug s (requested, UnknownContract network_slug contract_chain_id contract_address) =
     (if network_slug \<noteq> group_slug \<or> contract_address \<noteq> to_ascii_lowercase requested
      then Err (InvalidPlan group_slug UnexpectedResolutionNetwork)
      else and_then (adopt_chain_id group_slug s contract_chain_id) (\<lambda>s.
           push_supported group_slug s
             (unresolved_contract_target network_slug contract_chain_id contract_address)))"

definition BIGWIG_MAX_ACCOUNTS :: nat where
  "BIGWIG_MAX_ACCOUNTS = 50"

definition BIGWIG_MAX_TARGETS :: nat where
  "BIGWIG_MAX_TARGETS = 20"

definition BIGWIG_MAX_ITEMS :: nat where
  "BIGWIG_MAX_ITEMS = 1000"

definition plan_network_group ::
  "grouped_accounts \<Rightarrow> as_of \<Rightarrow> token_selector \<Rightarrow> balance_network_resolution option \<Rightarrow>
   balance_target_resolution list \<Rightarrow> contract_balance_target_resolution list \<Rightarrow>
   (network_group_plan, balance_snapshot_service_error) result" where
  "plan_network_group grp as_of tokens network_resolution asset_resolutions contract_resolutions =
     (let slug = gp_network_slug grp in
      if length asset_resolutions \<noteq> length (ts_asset_slugs tokens) \<or>
         length contract_resolutions \<noteq> length (ts_contract_addresses tokens)
      then Err (InvalidPlan slug ResolutionCountMismatch)
      else
        and_then (try_fold (plan_asset slug)
            \<lparr>ps_chain_id = map_option nr_chain_id network_resolution, ps_targets = [],
             ps_target_indexes = Map.empty, ps_token_plans = []\<rparr>
            (zip (ts_asset_slugs tokens) asset_resolutions)) (\<lambda>s.
        and_then (try_fold (plan_contract slug) s (zip (ts_contract_addresses tokens) contract_resolutions)) (\<lambda>s.
        let item_count = min (length (gp_accounts grp) * length (ps_targets s)) (2 ^ 64 - 1) in
        if length (gp_accounts grp) > BIGWIG_MAX_ACCOUNTS \<or> length (ps_targets s) > BIGWIG_MAX_TARGETS \<or>
           item_count > BIGWIG_MAX_ITEMS
        then Err (SnapshotRequestTooLarge slug)
        else Ok \<lparr>np_network_slug = slug, np_as_of = as_of, np_chain_id = ps_chain_id s,
                 np_accounts = gp_accounts grp, np_token_plans = ps_token_plans s,
                 np_targets = ps_targets s\<rparr>)))"

definition plan_group ::
  "canonical_registry \<Rightarrow> get_balances_command \<Rightarrow> grouped_accounts \<Rightarrow>
   (network_group_plan, balance_snapshot_service_error) result" where
  "plan_group r request grp =
     (let tokens = gb_tokens request;
          asset_resolutions = resolve_network r (gp_network_slug grp) (ts_asset_slugs tokens) in
      and_then
        (if ts_contract_addresses tokens = [] then Ok None
         else case resolve_evm_network r (gp_network_slug grp) of
           None \<Rightarrow> Err (SnapshotUnsupportedNetwork (gp_network_slug grp))
         | Some network \<Rightarrow> Ok (Some network)) (\<lambda>network_resolution.
      let contract_resolutions =
            (case network_resolution of
               Some network \<Rightarrow> resolve_erc20_contracts r network (ts_contract_addresses tokens)
             | None \<Rightarrow> [])
      in plan_network_group grp (gb_as_of request) tokens network_resolution asset_resolutions
           contract_resolutions))"

definition plan_groups ::
  "canonical_registry \<Rightarrow> get_balances_command \<Rightarrow>
   (network_group_plan list, balance_snapshot_service_error) result" where
  "plan_groups r request = try_map (plan_group r request) (group_accounts (gb_accounts request))"

definition bigwig_request_of :: "network_group_plan \<Rightarrow> bigwig_request" where
  "bigwig_request_of plan =
     \<lparr>bq_network_slug = np_network_slug plan, bq_as_of = bigwig_as_of (np_as_of plan),
      bq_accounts = map (\<lambda>a. oa_address (ga_account a)) (np_accounts plan),
      bq_tokens = map pt_wire_target (np_targets plan)\<rparr>"

section \<open>Checking responses\<close>

datatype target_outcome = OutcomeResolved string | OutcomeFailed

datatype response_validation_issue =
    WrongPrimitive
  | WrongNetwork
  | WrongChainId
  | WrongCardinality
  | UnexpectedCorrelation
  | DuplicateCorrelation
  | InvalidRawAmount
  | WrongStatus

record validated_group =
  vg_evidence :: balance_evidence
  vg_target_outcomes :: "target_outcome list"

fun item_account :: "bigwig_evidence_item \<Rightarrow> string" where
  "item_account (ItemResolved account _ _) = account"
| "item_account (ItemFailed account _ _) = account"
| "item_account (ItemUnavailable account _ _) = account"

fun item_target :: "bigwig_evidence_item \<Rightarrow> bigwig_target" where
  "item_target (ItemResolved _ t _) = t"
| "item_target (ItemFailed _ t _) = t"
| "item_target (ItemUnavailable _ t _) = t"

record validation_state =
  vs_correlations :: "(string \<times> target_key) set"
  vs_target_outcomes :: "target_outcome list"
  vs_resolved_count :: nat
  vs_failed_count :: nat

text \<open>
  One iteration over the items; the divisor is positive and the positions are in range since the
  number of items is the product of the numbers of accounts and targets.
\<close>

definition validate_item ::
  "network_group_plan \<Rightarrow> validation_state \<Rightarrow> nat \<times> bigwig_evidence_item \<Rightarrow>
   (validation_state, response_validation_issue) result" where
  "validate_item plan s x =
     (let (item_index, item) = x;
          expected_account = np_accounts plan ! (item_index div length (np_targets plan));
          expected_target = np_targets plan ! (item_index mod length (np_targets plan));
          normalized_account = to_ascii_lowercase (item_account item);
          key = key_from_bigwig (item_target item) in
      if (normalized_account, key) \<in> vs_correlations s then Err DuplicateCorrelation
      else
        let s = s\<lparr>vs_correlations := insert (normalized_account, key) (vs_correlations s)\<rparr> in
        if normalized_account \<noteq> to_ascii_lowercase (oa_address (ga_account expected_account)) \<or>
           key \<noteq> key_from_bigwig (pt_wire_target expected_target)
        then Err UnexpectedCorrelation
        else case item of
          ItemResolved _ _ raw_amount \<Rightarrow>
            if \<not> is_unsigned_integer raw_amount then Err InvalidRawAmount
            else Ok (s\<lparr>vs_resolved_count := vs_resolved_count s + 1,
                       vs_target_outcomes := vs_target_outcomes s @ [OutcomeResolved raw_amount]\<rparr>)
        | _ \<Rightarrow> Ok (s\<lparr>vs_failed_count := vs_failed_count s + 1,
                     vs_target_outcomes := vs_target_outcomes s @ [OutcomeFailed]\<rparr>))"

definition expected_status :: "nat \<Rightarrow> nat \<Rightarrow> bigwig_evidence_status" where
  "expected_status resolved_count failed_count =
     (if failed_count = 0 then EvidenceComplete
      else if resolved_count = 0 then EvidenceFailed
      else EvidencePartial)"

definition validate_response ::
  "network_group_plan \<Rightarrow> bigwig_response \<Rightarrow> (validated_group, response_validation_issue) result" where
  "validate_response plan response =
     (if bp_primitive response \<noteq> EvmBalances then Err WrongPrimitive
      else if bn_network_slug (bp_network response) \<noteq> np_network_slug plan then Err WrongNetwork
      else if Some (bn_chain_id (bp_network response)) \<noteq>
        (case np_chain_id plan of Some c \<Rightarrow> if 0 \<le> c then Some (nat c) else None | None \<Rightarrow> None)
      then Err WrongChainId
      else if length (bp_items response) \<noteq> length (np_accounts plan) * length (np_targets plan)
      then Err WrongCardinality
      else
        and_then (try_fold (validate_item plan)
          \<lparr>vs_correlations = {}, vs_target_outcomes = [], vs_resolved_count = 0, vs_failed_count = 0\<rparr>
          (enumerate 0 (bp_items response))) (\<lambda>s.
        if bp_status response \<noteq> expected_status (vs_resolved_count s) (vs_failed_count s) then Err WrongStatus
        else
          let e = bp_resolved_evidence response in
          Ok \<lparr>vg_evidence = \<lparr>ev_network_slug = bn_network_slug (bp_network response),
                ev_observed_at = be_block_timestamp e, ev_block_number = be_block_number e,
                ev_block_hash = be_block_hash e, ev_block_timestamp = be_block_timestamp e\<rparr>,
              vg_target_outcomes = vs_target_outcomes s\<rparr>))"

section \<open>Assembling and pricing\<close>

fun map_bigwig_error :: "bigwig_error \<Rightarrow> balance_item_error_code" where
  "map_bigwig_error e =
     (if e \<in> {BwUnsupportedNetwork, BwNetworkNotEnabledForOperation, BwNoRouteSatisfiesOperation,
        BwBlockOutOfRange, BwTimestampAnchorNotConfigured, BwTimestampOutOfRange, BwRpcError}
      then BalanceResolutionFailed
      else if e \<in> {BwTransport, BwTimeout, BwUnauthorized, BwExtractionTimeout, BwProviderTimeout, BwInternalError} \<or>
        (case e of BwRateLimited _ \<Rightarrow> True | BwProviderUnavailable _ \<Rightarrow> True | _ \<Rightarrow> False)
      then BalanceProviderUnavailable
      else ItemInternalError)"

fun failed_item :: "balance_item_error_code \<Rightarrow> token_plan \<Rightarrow> raw_balance_item_outcome" where
  "failed_item code (Supported _ t) = RawFailed t code"
| "failed_item code (Skipped network_slug asset_slug) = RawSkipped network_slug asset_slug"

definition failed_group_results ::
  "network_group_plan \<Rightarrow> balance_item_error_code \<Rightarrow> (nat \<times> raw_balances_account_result) list" where
  "failed_group_results plan code =
     map (\<lambda>a. (ga_original_index a,
       \<lparr>ra_account = ga_account a, ra_evidence = None,
        ra_items = map (failed_item code) (np_token_plans plan)\<rparr>)) (np_accounts plan)"

fun assemble_item ::
  "network_group_plan \<Rightarrow> validated_group option \<Rightarrow> nat \<Rightarrow> token_plan \<Rightarrow> raw_balance_item_outcome option" where
  "assemble_item plan validated group_account_index (Skipped network_slug asset_slug) =
     Some (RawSkipped network_slug asset_slug)"
| "assemble_item plan validated group_account_index (Supported target_index t) =
     (case validated of
        None \<Rightarrow> None
      | Some v \<Rightarrow>
          let outcome_index = group_account_index * length (np_targets plan) + target_index in
          if outcome_index < length (vg_target_outcomes v) then
            (case vg_target_outcomes v ! outcome_index of
               OutcomeResolved raw_amount \<Rightarrow> Some (RawResolved t raw_amount)
             | OutcomeFailed \<Rightarrow> Some (RawFailed t BalanceResolutionFailed))
          else None)"

text \<open>\<open>map\<close> with a body that may panic.\<close>

fun map_panic :: "('a \<Rightarrow> 'b option) \<Rightarrow> 'a list \<Rightarrow> 'b list option" where
  "map_panic f [] = Some []"
| "map_panic f (x # xs) = do { y \<leftarrow> f x; ys \<leftarrow> map_panic f xs; Some (y # ys) }"

datatype group_execution =
    SkippedOnly
  | FailedGroup balance_item_error_code
  | Called "(bigwig_response, bigwig_error) result"

definition assemble_validated ::
  "network_group_plan \<Rightarrow> validated_group option \<Rightarrow> (nat \<times> raw_balances_account_result) list option" where
  "assemble_validated plan validated =
     map_panic (\<lambda>(group_account_index, a). do {
       items \<leftarrow> map_panic (assemble_item plan validated group_account_index) (np_token_plans plan);
       Some (ga_original_index a,
         \<lparr>ra_account = ga_account a, ra_evidence = map_option vg_evidence validated, ra_items = items\<rparr>)
     }) (enumerate 0 (np_accounts plan))"

definition assemble_group_results ::
  "network_group_plan \<Rightarrow> group_execution \<Rightarrow> (nat \<times> raw_balances_account_result) list option" where
  "assemble_group_results plan execution =
     (case execution of
        SkippedOnly \<Rightarrow> assemble_validated plan None
      | FailedGroup code \<Rightarrow> Some (failed_group_results plan code)
      | Called (Err error) \<Rightarrow> Some (failed_group_results plan (map_bigwig_error error))
      | Called (Ok response) \<Rightarrow>
          (case validate_response plan response of
             Ok validated \<Rightarrow> assemble_validated plan (Some validated)
           | Err issue \<Rightarrow> Some (failed_group_results plan ItemInternalError)))"

definition normalize_pricing_asset_slug :: "string \<Rightarrow> string" where
  "normalize_pricing_asset_slug s = to_ascii_lowercase (trim s)"

fun item_pricing_slugs :: "raw_balance_item_outcome \<Rightarrow> string list" where
  "item_pricing_slugs (RawResolved t _) =
     (case rt_pricing_asset_slug t of Some s \<Rightarrow> [normalize_pricing_asset_slug s] | None \<Rightarrow> [])"
| "item_pricing_slugs _ = []"

definition collect_pricing_asset_slugs :: "raw_balances_account_result list \<Rightarrow> string list" where
  "collect_pricing_asset_slugs accounts =
     keep_unseen (\<lambda>s. s) {} (concat (map (\<lambda>a. concat (map item_pricing_slugs (ra_items a))) accounts))"

type_synonym quotes = "(string \<Rightarrow> price_quote_resolution option, price_quote_error) result"

fun enrich_quote :: "price_quote_resolution \<Rightarrow> string \<Rightarrow> nat \<Rightarrow> balance_quote_outcome option" where
  "enrich_quote (PriceAvailable unit_price quote_currency price_as_of) raw_amount decimals =
     (case multiply_amount_by_price raw_amount decimals unit_price of
        None \<Rightarrow> None
      | Some (Ok v) \<Rightarrow> Some (QuoteAvailable quote_currency unit_price v price_as_of)
      | Some (Err _) \<Rightarrow> Some (QuoteUnavailable ItemInternalError))"
| "enrich_quote PriceUnavailable raw_amount decimals = Some (QuoteUnavailable PriceResolutionFailed)"
| "enrich_quote PriceUnsupported raw_amount decimals = Some QuoteUnsupported"

definition item_quote ::
  "quotes \<Rightarrow> resolved_balance_target \<Rightarrow> string \<Rightarrow> balance_quote_outcome option" where
  "item_quote quotes t raw_amount =
     (case (rt_pricing_asset_slug t, rt_decimals t) of
        (Some pricing_asset_slug, Some decimals) \<Rightarrow>
          (case quotes of
             Ok by_slug \<Rightarrow>
               (case by_slug (normalize_pricing_asset_slug pricing_asset_slug) of
                  Some quote \<Rightarrow> enrich_quote quote raw_amount decimals
                | None \<Rightarrow> Some (QuoteUnavailable PriceResolutionFailed))
           | Err QuoteProviderUnavailable \<Rightarrow> Some (QuoteUnavailable PriceProviderUnavailable)
           | Err QuoteInternalError \<Rightarrow> Some (QuoteUnavailable ItemInternalError))
      | _ \<Rightarrow> Some QuoteUnsupported)"

fun enrich_item :: "quotes \<Rightarrow> raw_balance_item_outcome \<Rightarrow> balance_item_outcome option" where
  "enrich_item quotes (RawResolved t raw_amount) =
     (case rt_decimals t of
        None \<Rightarrow> map_option (BalanceResolved t raw_amount None) (item_quote quotes t raw_amount)
      | Some decimals \<Rightarrow>
          (case format_amount raw_amount decimals of
             Err _ \<Rightarrow> None
           | Ok amount \<Rightarrow>
               map_option (BalanceResolved t raw_amount (Some amount)) (item_quote quotes t raw_amount)))"
| "enrich_item quotes (RawSkipped network_slug asset_slug) = Some (BalanceSkipped network_slug asset_slug)"
| "enrich_item quotes (RawFailed t code) = Some (BalanceFailed t code)"

definition enrich_account_results ::
  "raw_balances_account_result list \<Rightarrow> quotes \<Rightarrow> balances_account_result list option" where
  "enrich_account_results accounts quotes =
     map_panic (\<lambda>a. do {
       items \<leftarrow> map_panic (enrich_item quotes) (ra_items a);
       Some \<lparr>ba_account = ra_account a, ba_evidence = ra_evidence a, ba_items = items\<rparr>
     }) accounts"

section \<open>Execution\<close>

text \<open>\<open>calls.join_next()\<close> until the set is empty.\<close>

fun join_all ::
  "group_execution option list \<Rightarrow> (nat \<times> (bigwig_response, bigwig_error) result) option list \<Rightarrow>
   (group_execution option list, balance_snapshot_service_error) result" where
  "join_all executions [] = Ok executions"
| "join_all executions (None # events) = Err ExecutionTaskFailed"
| "join_all executions (Some (group_index, response) # events) =
     join_all (executions[group_index := Some (Called response)]) events"

record balance_service =
  sv_registry :: canonical_registry
  sv_bigwig :: "(bigwig_request \<Rightarrow> (bigwig_response, bigwig_error) result) option"
  sv_price_quotes :: "(string list \<Rightarrow> string \<Rightarrow> quotes) option"

definition initial_execution :: "balance_service \<Rightarrow> network_group_plan \<Rightarrow> group_execution option" where
  "initial_execution sv plan =
     (if np_targets plan = [] then Some SkippedOnly
      else if sv_bigwig sv = None then Some (FailedGroup BalanceProviderUnavailable)
      else None)"

definition spawned_groups :: "balance_service \<Rightarrow> network_group_plan list \<Rightarrow> nat list" where
  "spawned_groups sv plans = filter (\<lambda>i. initial_execution sv (plans ! i) = None) [0..<length plans]"

definition run_groups ::
  "balance_service \<Rightarrow> (nat list \<Rightarrow> nat option list) \<Rightarrow> network_group_plan list \<Rightarrow>
   (group_execution option list, balance_snapshot_service_error) result" where
  "run_groups sv schedule plans =
     join_all (map (initial_execution sv) plans)
       (map (map_option (\<lambda>i. (i, the (sv_bigwig sv) (bigwig_request_of (plans ! i)))))
         (schedule (spawned_groups sv plans)))"

text \<open>The loop that writes the results of the groups to the positions of their accounts.\<close>

fun collect_groups ::
  "raw_balances_account_result option list \<Rightarrow> (network_group_plan \<times> group_execution option) list \<Rightarrow>
   raw_balances_account_result option list option" where
  "collect_groups results [] = Some results"
| "collect_groups results ((plan, execution) # groups) = do {
     e \<leftarrow> execution;
     group_results \<leftarrow> assemble_group_results plan e;
     collect_groups (foldl (\<lambda>rs (account_index, result). rs[account_index := Some result]) results group_results) groups
   }"

definition load_quotes ::
  "balance_service \<Rightarrow> get_balances_command \<Rightarrow> raw_balances_account_result list \<Rightarrow> quotes" where
  "load_quotes sv request raw =
     (let pricing_asset_slugs = collect_pricing_asset_slugs raw in
      if pricing_asset_slugs = [] \<or> gb_as_of request \<noteq> Latest then Ok Map.empty
      else case sv_price_quotes sv of
        Some reader \<Rightarrow> reader pricing_asset_slugs (gb_quote_currency request)
      | None \<Rightarrow> Err QuoteProviderUnavailable)"

definition resolve ::
  "balance_service \<Rightarrow> (nat list \<Rightarrow> nat option list) \<Rightarrow> get_balances_command \<Rightarrow>
   (get_balances_result, balance_snapshot_service_error) result option" where
  "resolve sv schedule request =
     (case plan_groups (sv_registry sv) request of
        Err e \<Rightarrow> Some (Err e)
      | Ok plans \<Rightarrow>
          (case run_groups sv schedule plans of
             Err e \<Rightarrow> Some (Err e)
           | Ok executions \<Rightarrow> do {
               results \<leftarrow> collect_groups (replicate (length (gb_accounts request)) None) (zip plans executions);
               raw \<leftarrow> map_panic (\<lambda>x. x) results;
               accounts \<leftarrow> enrich_account_results raw (load_quotes sv request raw);
               Some (Ok \<lparr>br_as_of = gb_as_of request, br_quote_currency = gb_quote_currency request,
                 br_requested_token_count = token_selector_len (gb_tokens request), br_accounts = accounts\<rparr>)
             }))"

end
