(* ===== verification/BalancePlans.thy ===== *)
theory BalancePlans
  imports Balances
begin

text \<open>
  Lemmas on the planner and on the checks of responses of \<open>src/application/balances/service.rs\<close>:
  accounts are grouped by network in the order of the request, a plan has one target per wire key and
  one entry per requested token, no internal fault can occur on a resolver that keeps the contract of
  \<open>balance_resolver\<close>, and a response that passes the checks carries, at each position, an item for
  the account and the target planned there.
\<close>

section \<open>Grouping\<close>

definition as_group_account :: "nat \<times> onchain_account \<Rightarrow> group_account" where
  "as_group_account x = \<lparr>ga_original_index = fst x, ga_account = snd x\<rparr>"

definition accounts_on :: "string \<Rightarrow> (nat \<times> onchain_account) list \<Rightarrow> group_account list" where
  "accounts_on slug xs = map as_group_account (filter (\<lambda>x. oa_network_slug (snd x) = slug) xs)"

lemma accounts_on_snoc:
  "accounts_on slug (xs @ [x]) = accounts_on slug xs @ (if oa_network_slug (snd x) = slug then [as_group_account x] else [])"
  by (simp add: accounts_on_def)

definition groups_inv ::
  "(nat \<times> onchain_account) list \<Rightarrow> (string \<Rightarrow> nat option) \<Rightarrow> grouped_accounts list \<Rightarrow> bool" where
  "groups_inv xs idx groups \<longleftrightarrow>
     idx = index_by gp_network_slug groups \<and> distinct (map gp_network_slug groups) \<and>
     gp_network_slug ` set groups = (\<lambda>x. oa_network_slug (snd x)) ` set xs \<and>
     (\<forall>g\<in>set groups. gp_accounts g = accounts_on (gp_network_slug g) xs)"

lemma index_by_keys: "index_by key xs = index_by (\<lambda>k. k) (map key xs)"
  by (induction xs rule: rev_induct) (auto simp: index_by_snoc fun_eq_iff)

lemma index_by_map: "map key xs = map key ys \<Longrightarrow> index_by key xs = index_by key ys"
  by (simp only: index_by_keys[of key])

lemma groups_inv_step:
  assumes "groups_inv xs idx groups"
  shows "groups_inv (xs @ [x]) (fst (group_step (idx, groups) x)) (snd (group_step (idx, groups) x))"
proof -
  obtain i a where x: "x = (i, a)" by (cases x)
  let ?slug = "oa_network_slug a"
  note inv = assms[unfolded groups_inv_def]
  have acc: "\<And>g. g \<in> set groups \<Longrightarrow> gp_accounts g = accounts_on (gp_network_slug g) xs" using inv by blast
  show ?thesis
  proof (cases "idx ?slug")
    case None
    then have fresh: "?slug \<notin> gp_network_slug ` set groups" using inv index_by_None by metis
    let ?g = "\<lparr>gp_network_slug = ?slug, gp_accounts = [as_group_account x]\<rparr>"
    have step: "group_step (idx, groups) x = (idx(?slug \<mapsto> length groups), groups @ [?g])"
      using None by (simp add: group_step_def x Let_def as_group_account_def)
    have "accounts_on ?slug xs = []"
    proof -
      have "?slug \<notin> (\<lambda>x. oa_network_slug (snd x)) ` set xs" using fresh inv by simp
      then have "oa_network_slug (snd y) \<noteq> ?slug" if "y \<in> set xs" for y using that by (metis image_eqI)
      then show ?thesis by (simp add: accounts_on_def filter_empty_conv)
    qed
    moreover have "?slug \<noteq> gp_network_slug g" if "g \<in> set groups" for g using fresh that by (metis image_eqI)
    ultimately show ?thesis
      using inv fresh acc unfolding step groups_inv_def fst_conv snd_conv
      by (simp add: index_by_snoc accounts_on_snoc x)
  next
    case (Some k)
    then have k: "k < length groups" "gp_network_slug (groups ! k) = ?slug"
      using inv index_by_Some by metis+
    let ?g = "(groups ! k)\<lparr>gp_accounts := gp_accounts (groups ! k) @ [as_group_account x]\<rparr>"
    have step: "group_step (idx, groups) x = (idx, groups[k := ?g])"
      using Some by (simp add: group_step_def x Let_def as_group_account_def)
    have m: "map gp_network_slug (groups[k := ?g]) = map gp_network_slug groups"
      using k(1) by (simp add: map_update list_update_same_conv)
    then have s: "gp_network_slug ` set (groups[k := ?g]) = gp_network_slug ` set groups"
      by (metis list.set_map)
    have "gp_accounts g = accounts_on (gp_network_slug g) (xs @ [x])" if g: "g \<in> set (groups[k := ?g])" for g
    proof -
      obtain j where j: "j < length groups" "g = groups[k := ?g] ! j"
        using g by (metis in_set_conv_nth length_list_update)
      show ?thesis
      proof (cases "j = k")
        case True
        then show ?thesis using j k acc[of "groups ! k"] by (simp add: accounts_on_snoc x)
      next
        case False
        then have "gp_network_slug (groups ! j) \<noteq> ?slug"
          using inv j(1) k nth_eq_iff_index_eq[of "map gp_network_slug groups" j k] False by simp
        with False j k acc[of "groups ! j"] show ?thesis by (simp add: accounts_on_snoc x)
      qed
    qed
    moreover have "?slug \<in> gp_network_slug ` set groups" using k by (metis image_eqI nth_mem)
    ultimately show ?thesis
      using inv m s index_by_map[OF m] unfolding step groups_inv_def fst_conv snd_conv
      by (simp add: x insert_absorb)
  qed
qed

lemma groups_inv_foldl:
  "groups_inv xs (fst (foldl group_step (Map.empty, []) xs)) (snd (foldl group_step (Map.empty, []) xs))"
proof (induction xs rule: rev_induct)
  case (snoc x xs)
  from groups_inv_step[OF snoc, of x] show ?case by simp
qed (auto simp: groups_inv_def accounts_on_def fun_eq_iff)

lemma group_accounts_props:
  shows "distinct (map gp_network_slug (group_accounts accounts))"
    "gp_network_slug ` set (group_accounts accounts) = oa_network_slug ` set accounts"
    "g \<in> set (group_accounts accounts) \<Longrightarrow> gp_accounts g = accounts_on (gp_network_slug g) (enumerate 0 accounts)"
proof -
  have "(\<lambda>x. oa_network_slug (snd x)) ` set (enumerate 0 accounts) = oa_network_slug ` set accounts"
  proof -
    have "snd ` set (enumerate 0 accounts) = set accounts"
      by (metis list.set_map map_snd_enumerate)
    then show ?thesis by (metis image_image)
  qed
  then show "distinct (map gp_network_slug (group_accounts accounts))"
    "gp_network_slug ` set (group_accounts accounts) = oa_network_slug ` set accounts"
    "g \<in> set (group_accounts accounts) \<Longrightarrow> gp_accounts g = accounts_on (gp_network_slug g) (enumerate 0 accounts)"
    using groups_inv_foldl[of "enumerate 0 accounts"] by (auto simp: groups_inv_def group_accounts_def)
qed

section \<open>Plans\<close>

text \<open>
  The invariant of a plan under construction: the targets have distinct keys, indexed by
  \<open>ps_target_indexes\<close>, and each supported token points to a target with its own key.
\<close>

definition target_key_of :: "planned_target \<Rightarrow> target_key" where
  "target_key_of t = key_from_bigwig (pt_wire_target t)"

lemma key_from_wire [simp]: "key_from_bigwig (wire_target_of k) = key_from_kind k"
  by (cases k) auto

fun token_plan_ok :: "planned_target list \<Rightarrow> token_plan \<Rightarrow> bool" where
  "token_plan_ok targets (Supported i t) \<longleftrightarrow>
     i < length targets \<and> target_key_of (targets ! i) = key_from_kind (rt_kind t)"
| "token_plan_ok targets (Skipped _ _) \<longleftrightarrow> True"

definition plan_inv :: "plan_state \<Rightarrow> bool" where
  "plan_inv s \<longleftrightarrow>
     ps_target_indexes s = index_by target_key_of (ps_targets s) \<and>
     distinct (map target_key_of (ps_targets s)) \<and>
     (\<forall>t\<in>set (ps_targets s). target_key_of t = key_from_kind (rt_kind (pt_first_target t))) \<and>
     (\<forall>p\<in>set (ps_token_plans s). token_plan_ok (ps_targets s) p)"

lemma token_plan_ok_append: "token_plan_ok ts p \<Longrightarrow> token_plan_ok (ts @ us) p"
  by (cases p) (auto simp: nth_append)

lemma push_planned_target_Ok:
  assumes "plan_inv s" "push_planned_target n s t = Ok (i, s')"
  shows "plan_inv s'" "i < length (ps_targets s')" "target_key_of (ps_targets s' ! i) = key_from_kind (rt_kind t)"
    "ps_chain_id s' = ps_chain_id s" "ps_token_plans s' = ps_token_plans s"
    "\<exists>new. ps_targets s' = ps_targets s @ new \<and> (\<forall>x\<in>set new. pt_first_target x = t)"
proof -
  note inv = assms(1)[unfolded plan_inv_def]
  let ?key = "key_from_kind (rt_kind t)"
  have "plan_inv s' \<and> i < length (ps_targets s') \<and> target_key_of (ps_targets s' ! i) = ?key \<and>
    ps_chain_id s' = ps_chain_id s \<and> ps_token_plans s' = ps_token_plans s \<and>
    (\<exists>new. ps_targets s' = ps_targets s @ new \<and> (\<forall>x\<in>set new. pt_first_target x = t))"
  proof (cases "ps_target_indexes s ?key")
    case (Some j)
    then have "s' = s" "i = j"
      using assms(2) by (auto simp: push_planned_target_def Let_def split: if_splits)
    moreover have "j < length (ps_targets s)" "target_key_of (ps_targets s ! j) = ?key"
      using Some inv index_by_Some by metis+
    ultimately show ?thesis using assms(1) by simp
  next
    case None
    let ?new = "\<lparr>pt_wire_target = wire_target_of (rt_kind t), pt_first_target = t\<rparr>"
    have s': "s' = s\<lparr>ps_target_indexes := (ps_target_indexes s)(?key \<mapsto> length (ps_targets s)),
        ps_targets := ps_targets s @ [?new]\<rparr>" and i: "i = length (ps_targets s)"
      using None assms(2) by (auto simp: push_planned_target_def Let_def)
    have k: "target_key_of ?new = ?key" by (simp add: target_key_of_def)
    have "?key \<notin> target_key_of ` set (ps_targets s)" using None inv index_by_None by metis
    then have "plan_inv s'"
      using inv k unfolding plan_inv_def s'
      by (simp add: index_by_snoc token_plan_ok_append)
    then show ?thesis using k i by (simp add: s')
  qed
  then show "plan_inv s'" "i < length (ps_targets s')" "target_key_of (ps_targets s' ! i) = ?key"
    "ps_chain_id s' = ps_chain_id s" "ps_token_plans s' = ps_token_plans s"
    "\<exists>new. ps_targets s' = ps_targets s @ new \<and> (\<forall>x\<in>set new. pt_first_target x = t)" by blast+
qed

lemma push_supported_Ok:
  assumes "plan_inv s" "push_supported n s t = Ok s'"
  shows "plan_inv s' \<and> ps_chain_id s' = ps_chain_id s \<and>
    (\<exists>i. ps_token_plans s' = ps_token_plans s @ [Supported i t]) \<and>
    (\<exists>new. ps_targets s' = ps_targets s @ new \<and> (\<forall>x\<in>set new. pt_first_target x = t))"
proof -
  obtain i s1 where p: "push_planned_target n s t = Ok (i, s1)"
    and s': "s' = s1\<lparr>ps_token_plans := ps_token_plans s1 @ [Supported i t]\<rparr>"
    using assms(2) by (auto simp: push_supported_def and_then_Ok_iff)
  note q = push_planned_target_Ok[OF assms(1) p]
  have "plan_inv s'" using q(1,2,3) by (auto simp: s' plan_inv_def)
  then show ?thesis using q by (auto simp: s')
qed

lemma adopt_chain_id_Ok:
  "adopt_chain_id n s c = Ok s' \<longleftrightarrow> ps_chain_id s \<in> {None, Some c} \<and> s' = s\<lparr>ps_chain_id := Some c\<rparr>"
  by (cases s) (auto simp: adopt_chain_id_def split: option.splits)

lemma plan_inv_chain [simp]: "plan_inv (s\<lparr>ps_chain_id := c\<rparr>) = plan_inv s"
  by (simp add: plan_inv_def)

text \<open>The token plan of each requested token.\<close>

fun plan_of_asset :: "string \<Rightarrow> balance_target_resolution \<Rightarrow> token_plan \<Rightarrow> bool" where
  "plan_of_asset requested (ResolvedTarget t) (Supported i rt) \<longleftrightarrow>
     rt = resolved_target_from_asset_selector requested t"
| "plan_of_asset requested (UnsupportedPairTarget n a) (Skipped n' a') \<longleftrightarrow> n' = n \<and> a' = a"
| "plan_of_asset requested (UnsupportedTokenStandardTarget n a) (Skipped n' a') \<longleftrightarrow> n' = n \<and> a' = a"
| "plan_of_asset requested _ _ \<longleftrightarrow> False"

fun plan_of_contract :: "string \<Rightarrow> contract_balance_target_resolution \<Rightarrow> token_plan \<Rightarrow> bool" where
  "plan_of_contract requested (ResolvedContract t) (Supported i rt) \<longleftrightarrow>
     rt = resolved_target_from_contract_selector requested t"
| "plan_of_contract requested (UnknownContract n c a) (Supported i rt) \<longleftrightarrow>
     rt = unresolved_contract_target n c a"
| "plan_of_contract requested _ _ \<longleftrightarrow> False"

lemma plan_asset_Ok:
  assumes "plan_inv s" "plan_asset n s (requested, res) = Ok s'"
  shows "plan_inv s'" "\<exists>p. ps_token_plans s' = ps_token_plans s @ [p] \<and> plan_of_asset requested res p"
proof -
  have "plan_inv s' \<and> (\<exists>p. ps_token_plans s' = ps_token_plans s @ [p] \<and> plan_of_asset requested res p)"
  proof (cases res)
    case (ResolvedTarget t)
    then obtain s1 where s1: "adopt_chain_id n s (tg_chain_id t) = Ok s1"
      "push_supported n s1 (resolved_target_from_asset_selector requested t) = Ok s'"
      using assms(2) by (auto simp: and_then_Ok_iff split: if_splits)
    then have "plan_inv s1" "ps_token_plans s1 = ps_token_plans s"
      using assms(1) by (auto simp: adopt_chain_id_Ok)
    with push_supported_Ok[OF this(1) s1(2)] show ?thesis by (auto simp: ResolvedTarget)
  qed (use assms in \<open>auto simp: plan_inv_def split: if_splits\<close>)
  then show "plan_inv s'" "\<exists>p. ps_token_plans s' = ps_token_plans s @ [p] \<and> plan_of_asset requested res p" by blast+
qed

lemma plan_contract_Ok:
  assumes "plan_inv s" "plan_contract n s (requested, res) = Ok s'"
  shows "plan_inv s'" "\<exists>p. ps_token_plans s' = ps_token_plans s @ [p] \<and> plan_of_contract requested res p"
proof -
  obtain t where t: "\<And>i. plan_of_contract requested res (Supported i t)"
    and "\<exists>s1 c. adopt_chain_id n s c = Ok s1 \<and> push_supported n s1 t = Ok s'"
    using assms(2) by (cases res) (auto simp: and_then_Ok_iff split: if_splits)
  then obtain s1 c where s1: "adopt_chain_id n s c = Ok s1" "push_supported n s1 t = Ok s'" by blast
  then have "plan_inv s1" "ps_token_plans s1 = ps_token_plans s"
    using assms(1) by (auto simp: adopt_chain_id_Ok)
  with push_supported_Ok[OF this(1) s1(2)] t
  show "plan_inv s'" "\<exists>p. ps_token_plans s' = ps_token_plans s @ [p] \<and> plan_of_contract requested res p" by auto
qed

text \<open>Loops whose iterations each append one plan.\<close>

lemma plan_loop:
  assumes "try_fold f s (zip ks rs) = Ok s'" "plan_inv s" "length rs = length ks"
    and "\<And>s k r s'. plan_inv s \<Longrightarrow> f s (k, r) = Ok s' \<Longrightarrow>
      plan_inv s' \<and> (\<exists>p. ps_token_plans s' = ps_token_plans s @ [p] \<and> Q k r p)"
  shows "plan_inv s' \<and> (\<exists>ps. ps_token_plans s' = ps_token_plans s @ ps \<and> length ps = length ks \<and>
    (\<forall>i<length ks. Q (ks ! i) (rs ! i) (ps ! i)))"
  using assms(1-3)
proof (induction ks arbitrary: rs s)
  case (Cons k ks)
  then obtain r rs' where rs: "rs = r # rs'" by (cases rs) auto
  obtain s1 where s1: "f s (k, r) = Ok s1" "try_fold f s1 (zip ks rs') = Ok s'"
    using Cons.prems(1) by (auto simp: rs and_then_Ok_iff)
  obtain p where p: "plan_inv s1" "ps_token_plans s1 = ps_token_plans s @ [p]" "Q k r p"
    using assms(4)[OF Cons.prems(2) s1(1)] by blast
  obtain ps where "plan_inv s'" "ps_token_plans s' = ps_token_plans s1 @ ps" "length ps = length ks"
    "\<forall>i<length ks. Q (ks ! i) (rs' ! i) (ps ! i)"
    using Cons.IH[OF s1(2) p(1)] Cons.prems(3) rs by auto
  then show ?case using p(2,3) by (auto simp: rs nth_Cons' intro!: exI[of _ "p # ps"])
qed simp

lemma try_fold_safe:
  assumes "P s" "\<And>s x. x \<in> set xs \<Longrightarrow> P s \<Longrightarrow> (case f s x of Ok s' \<Rightarrow> P s' | Err e \<Rightarrow> E e)"
  shows "case try_fold f s xs of Ok t \<Rightarrow> P t | Err e \<Rightarrow> E e"
  using assms
proof (induction xs arbitrary: s)
  case (Cons x xs)
  have "case f s x of Ok s' \<Rightarrow> P s' | Err e \<Rightarrow> E e" using Cons.prems by simp
  then show ?case using Cons.IH Cons.prems(2) by (cases "f s x") simp_all
qed simp

fun plan_fault :: "balance_snapshot_service_error \<Rightarrow> bool" where
  "plan_fault (InvalidPlan _ _) \<longleftrightarrow> True"
| "plan_fault _ \<longleftrightarrow> False"

context balance_resolver
begin

text \<open>What holds between the tokens of a group with the lower-case network \<open>n\<close>.\<close>

definition clean :: "'s \<Rightarrow> string \<Rightarrow> string list \<Rightarrow> plan_state \<Rightarrow> bool" where
  "clean \<sigma> n slugs s \<longleftrightarrow> plan_inv s \<and>
     (\<forall>c. ps_chain_id s = Some c \<longrightarrow> (\<exists>net. evm_network \<sigma> n = Some net \<and> nr_chain_id net = c)) \<and>
     (\<forall>x\<in>set (ps_targets s). is_asset_selector (rt_selector (pt_first_target x)) \<longrightarrow>
        (\<exists>t. ResolvedTarget t \<in> set (by_slug \<sigma> n slugs) \<and>
           pt_first_target x = resolved_target_from_asset_selector (tg_asset_slug t) t))"

lemma adopt_clean:
  assumes "clean \<sigma> n slugs s" "evm_network \<sigma> n = Some net"
  shows "\<exists>s'. adopt_chain_id n s (nr_chain_id net) = Ok s' \<and> clean \<sigma> n slugs s' \<and> ps_targets s' = ps_targets s"
proof -
  have "ps_chain_id s \<in> {None, Some (nr_chain_id net)}"
    using assms by (cases "ps_chain_id s") (auto simp: clean_def)
  then have "adopt_chain_id n s (nr_chain_id net) = Ok (s\<lparr>ps_chain_id := Some (nr_chain_id net)\<rparr>)"
    by (simp add: adopt_chain_id_Ok)
  then show ?thesis using assms by (auto simp: clean_def)
qed

lemma push_clean:
  assumes b: "well_built \<sigma>" and c: "clean \<sigma> n slugs s"
    and t: "is_asset_selector (rt_selector rt) \<Longrightarrow>
      \<exists>t. ResolvedTarget t \<in> set (by_slug \<sigma> n slugs) \<and> rt = resolved_target_from_asset_selector (tg_asset_slug t) t"
  shows "\<exists>s'. push_supported n s rt = Ok s' \<and> clean \<sigma> n slugs s'"
proof -
  have inv: "plan_inv s" using c by (simp add: clean_def)
  have "\<exists>r. push_planned_target n s rt = Ok r"
  proof (cases "ps_target_indexes s (key_from_kind (rt_kind rt))")
    case (Some j)
    let ?x = "ps_targets s ! j"
    have j: "j < length (ps_targets s)" "target_key_of ?x = key_from_kind (rt_kind rt)"
      using Some inv index_by_Some unfolding plan_inv_def by metis+
    have x: "?x \<in> set (ps_targets s)" using j(1) by simp
    have "pt_first_target ?x = rt"
      if both: "is_asset_selector (rt_selector (pt_first_target ?x))" "is_asset_selector (rt_selector rt)"
    proof -
      obtain t1 where t1: "ResolvedTarget t1 \<in> set (by_slug \<sigma> n slugs)"
        "pt_first_target ?x = resolved_target_from_asset_selector (tg_asset_slug t1) t1"
        using c x both(1) unfolding clean_def by blast
      obtain t2 where t2: "ResolvedTarget t2 \<in> set (by_slug \<sigma> n slugs)"
        "rt = resolved_target_from_asset_selector (tg_asset_slug t2) t2" using t[OF both(2)] by blast
      have "target_key_of ?x = key_from_kind (rt_kind (pt_first_target ?x))"
        using inv x unfolding plan_inv_def by blast
      then have "key_from_kind (tg_kind t1) = key_from_kind (tg_kind t2)"
        using j(2) t1(2) t2(2) by (simp add: resolved_target_from_asset_selector_def)
      from by_slug_injective[OF b t1(1) t2(1) this] t1(2) t2(2) show ?thesis by simp
    qed
    then show ?thesis using Some by (auto simp: push_planned_target_def Let_def)
  qed (simp add: push_planned_target_def Let_def)
  then obtain s' where s': "push_supported n s rt = Ok s'"
    by (auto simp: push_supported_def split: prod.splits)
  note p = push_supported_Ok[OF inv s']
  from p obtain new where new: "ps_targets s' = ps_targets s @ new" "\<forall>x\<in>set new. pt_first_target x = rt" by blast
  have "\<exists>t. ResolvedTarget t \<in> set (by_slug \<sigma> n slugs) \<and>
      pt_first_target x = resolved_target_from_asset_selector (tg_asset_slug t) t"
    if "x \<in> set (ps_targets s')" "is_asset_selector (rt_selector (pt_first_target x))" for x
    using that new c t unfolding clean_def by (cases "x \<in> set new") auto
  then have "clean \<sigma> n slugs s'" using p c unfolding clean_def by simp
  with s' show ?thesis by blast
qed

lemma plan_asset_clean:
  assumes b: "well_built \<sigma>" and c: "clean \<sigma> n slugs s" and i: "i < length slugs"
    and lower: "to_ascii_lowercase n = n" "to_ascii_lowercase (slugs ! i) = slugs ! i"
  shows "case plan_asset n s (slugs ! i, by_slug \<sigma> n slugs ! i) of Ok s' \<Rightarrow> clean \<sigma> n slugs s' | Err e \<Rightarrow> \<not> plan_fault e"
proof (cases "by_slug \<sigma> n slugs ! i")
  case (ResolvedTarget t)
  note e = by_slug_echo[OF b i, of n, unfolded ResolvedTarget, simplified]
  obtain net where net: "evm_network \<sigma> n = Some net" "nr_chain_id net = tg_chain_id t" using e by blast
  obtain s1 where s1: "adopt_chain_id n s (tg_chain_id t) = Ok s1" "clean \<sigma> n slugs s1"
    using adopt_clean[OF c net(1)] net(2) by auto
  have "ResolvedTarget t \<in> set (by_slug \<sigma> n slugs)"
    using ResolvedTarget i by (metis by_slug_length nth_mem)
  moreover have "tg_asset_slug t = slugs ! i" using e lower by simp
  ultimately have "\<exists>t'. ResolvedTarget t' \<in> set (by_slug \<sigma> n slugs) \<and>
      resolved_target_from_asset_selector (slugs ! i) t = resolved_target_from_asset_selector (tg_asset_slug t') t'"
    by (intro exI[of _ t]) simp
  from push_clean[OF b s1(2) this] obtain s2 where
    "push_supported n s1 (resolved_target_from_asset_selector (slugs ! i) t) = Ok s2" "clean \<sigma> n slugs s2" by blast
  then show ?thesis using e lower s1(1) by (simp add: ResolvedTarget)
next
  case (UnsupportedPairTarget n' a)
  note e = by_slug_echo[OF b i, of n, unfolded UnsupportedPairTarget, simplified]
  then show ?thesis using c by (auto simp: UnsupportedPairTarget clean_def plan_inv_def)
next
  case (UnsupportedTokenStandardTarget n' a)
  note e = by_slug_echo[OF b i, of n, unfolded UnsupportedTokenStandardTarget, simplified]
  then show ?thesis using c by (auto simp: UnsupportedTokenStandardTarget clean_def plan_inv_def)
qed simp_all

lemma plan_contract_clean:
  assumes b: "well_built \<sigma>" and c: "clean \<sigma> n slugs s" and i: "i < length addresses"
    and lower: "to_ascii_lowercase n = n" and net: "evm_network \<sigma> n = Some net"
  shows "case plan_contract n s (addresses ! i, by_contract \<sigma> net addresses ! i) of
    Ok s' \<Rightarrow> clean \<sigma> n slugs s' | Err e \<Rightarrow> \<not> plan_fault e"
proof -
  have nn: "nr_network_slug net = n" using evm_network_slug[OF b net] lower by simp
  obtain s1 where s1: "adopt_chain_id n s (nr_chain_id net) = Ok s1" "clean \<sigma> n slugs s1"
    using adopt_clean[OF c net] by auto
  show ?thesis
  proof (cases "by_contract \<sigma> net addresses ! i")
    case (ResolvedContract t)
    note e = by_contract_echo[OF b i, of net, unfolded ResolvedContract, simplified]
    obtain s2 where "push_supported n s1 (resolved_target_from_contract_selector (addresses ! i) t) = Ok s2"
      "clean \<sigma> n slugs s2"
      using push_clean[OF b s1(2), of "resolved_target_from_contract_selector (addresses ! i) t"]
      by (auto simp: resolved_target_from_contract_selector_def)
    then show ?thesis using e nn s1(1) by (simp add: ResolvedContract)
  next
    case (UnknownContract m ch a)
    note e = by_contract_echo[OF b i, of net, unfolded UnknownContract, simplified]
    obtain s2 where "push_supported n s1 (unresolved_contract_target m ch a) = Ok s2" "clean \<sigma> n slugs s2"
      using push_clean[OF b s1(2), of "unresolved_contract_target m ch a"]
      by (auto simp: unresolved_contract_target_def)
    then show ?thesis using e nn s1(1) by (simp add: UnknownContract)
  qed
qed

lemma planner_no_fault:
  assumes b: "well_built \<sigma>" and lower: "to_ascii_lowercase (gp_network_slug grp) = gp_network_slug grp"
    and slugs: "\<forall>x\<in>set (ts_asset_slugs tokens). to_ascii_lowercase x = x"
    and net: "ts_contract_addresses tokens = [] \<and> nr = None \<and> cs = [] \<or>
      (\<exists>net. evm_network \<sigma> (gp_network_slug grp) = Some net \<and> nr = Some net \<and>
         cs = by_contract \<sigma> net (ts_contract_addresses tokens))"
  shows "case plan_network_group grp as_of tokens nr (by_slug \<sigma> (gp_network_slug grp) (ts_asset_slugs tokens)) cs of
    Ok plan \<Rightarrow> True | Err e \<Rightarrow> \<not> plan_fault e"
proof -
  let ?n = "gp_network_slug grp" and ?slugs = "ts_asset_slugs tokens" and ?as = "ts_contract_addresses tokens"
  let ?s0 = "\<lparr>ps_chain_id = map_option nr_chain_id nr, ps_targets = [], ps_target_indexes = Map.empty,
    ps_token_plans = []\<rparr>"
  have len: "length (by_slug \<sigma> ?n ?slugs) = length ?slugs" "length cs = length ?as"
    using by_slug_length by_contract_length net by auto
  have "clean \<sigma> ?n ?slugs ?s0"
    using net by (auto simp: clean_def plan_inv_def fun_eq_iff)
  then have assets: "case try_fold (plan_asset ?n) ?s0 (zip ?slugs (by_slug \<sigma> ?n ?slugs)) of
      Ok s \<Rightarrow> clean \<sigma> ?n ?slugs s | Err e \<Rightarrow> \<not> plan_fault e"
  proof (rule try_fold_safe)
    fix s x assume "x \<in> set (zip ?slugs (by_slug \<sigma> ?n ?slugs))" "clean \<sigma> ?n ?slugs s"
    then show "case plan_asset ?n s x of Ok s \<Rightarrow> clean \<sigma> ?n ?slugs s | Err e \<Rightarrow> \<not> plan_fault e"
      using plan_asset_clean[OF b _ _ lower] slugs len by (force simp: set_zip)
  qed
  have contracts: "case try_fold (plan_contract ?n) s (zip ?as cs) of
      Ok s \<Rightarrow> clean \<sigma> ?n ?slugs s | Err e \<Rightarrow> \<not> plan_fault e" if "clean \<sigma> ?n ?slugs s" for s
    using that
  proof (rule try_fold_safe)
    fix s x assume x: "x \<in> set (zip ?as cs)" "clean \<sigma> ?n ?slugs s"
    then have "?as \<noteq> []" by auto
    then obtain net where "evm_network \<sigma> ?n = Some net" "cs = by_contract \<sigma> net ?as" using net by auto
    then show "case plan_contract ?n s x of Ok s \<Rightarrow> clean \<sigma> ?n ?slugs s | Err e \<Rightarrow> \<not> plan_fault e"
      using plan_contract_clean[OF b x(2) _ lower] x(1) by (auto simp: set_zip)
  qed
  show ?thesis
  proof (cases "try_fold (plan_asset ?n) ?s0 (zip ?slugs (by_slug \<sigma> ?n ?slugs))")
    case (Ok s)
    then show ?thesis
      using assets contracts[of s] len
      by (cases "try_fold (plan_contract ?n) s (zip ?as cs)") (auto simp: plan_network_group_def Let_def)
  next
    case (Err e)
    then show ?thesis using assets len by (simp add: plan_network_group_def Let_def)
  qed
qed

end

section \<open>Complete plans\<close>

definition plan_ok :: "network_group_plan \<Rightarrow> bool" where
  "plan_ok plan \<longleftrightarrow> distinct (map target_key_of (np_targets plan)) \<and>
     (\<forall>p\<in>set (np_token_plans plan). token_plan_ok (np_targets plan) p)"

text \<open>The token that the \<open>j\<close>-th plan of a group is for.\<close>

fun plan_selects :: "string \<Rightarrow> token_selector \<Rightarrow> nat \<Rightarrow> token_plan \<Rightarrow> bool" where
  "plan_selects n tokens j (Supported i t) \<longleftrightarrow>
     rt_selector t = (if j < length (ts_asset_slugs tokens) then AssetSlug (ts_asset_slugs tokens ! j)
       else ContractAddress (to_ascii_lowercase (ts_contract_addresses tokens ! (j - length (ts_asset_slugs tokens)))))"
| "plan_selects n tokens j (Skipped n' a) \<longleftrightarrow> n' = n \<and> j < length (ts_asset_slugs tokens) \<and> a = ts_asset_slugs tokens ! j"

lemma plan_asset_selects:
  assumes "plan_asset n s (requested, res) = Ok s'" "plan_inv s"
  shows "plan_inv s' \<and> (\<exists>p. ps_token_plans s' = ps_token_plans s @ [p] \<and>
    (case p of Supported i t \<Rightarrow> rt_selector t = AssetSlug requested | Skipped n' a \<Rightarrow> n' = n \<and> a = requested))"
proof -
  obtain p where p: "plan_inv s'" "ps_token_plans s' = ps_token_plans s @ [p]" "plan_of_asset requested res p"
    using plan_asset_Ok[OF assms(2,1)] by blast
  moreover have "case p of Supported i t \<Rightarrow> rt_selector t = AssetSlug requested | Skipped n' a \<Rightarrow> n' = n \<and> a = requested"
    using p(3) assms(1) by (cases res; cases p) (auto simp: resolved_target_from_asset_selector_def split: if_splits)
  ultimately show ?thesis by blast
qed

lemma plan_contract_selects:
  assumes "plan_contract n s (requested, res) = Ok s'" "plan_inv s"
  shows "plan_inv s' \<and> (\<exists>p. ps_token_plans s' = ps_token_plans s @ [p] \<and>
    (case p of Supported i t \<Rightarrow> rt_selector t = ContractAddress (to_ascii_lowercase requested) | Skipped n' a \<Rightarrow> False))"
proof -
  obtain p where p: "plan_inv s'" "ps_token_plans s' = ps_token_plans s @ [p]" "plan_of_contract requested res p"
    using plan_contract_Ok[OF assms(2,1)] by blast
  moreover have "case p of Supported i t \<Rightarrow> rt_selector t = ContractAddress (to_ascii_lowercase requested)
      | Skipped n' a \<Rightarrow> False"
    using p(3) assms(1)
    by (cases res; cases p)
       (auto simp: resolved_target_from_contract_selector_def unresolved_contract_target_def split: if_splits)
  ultimately show ?thesis by blast
qed

lemma plan_network_group_Ok:
  assumes "plan_network_group grp as_of tokens nr rs cs = Ok plan"
  shows "plan_ok plan" "np_network_slug plan = gp_network_slug grp" "np_accounts plan = gp_accounts grp"
    "length (np_token_plans plan) = token_selector_len tokens"
    "\<And>j. j < token_selector_len tokens \<Longrightarrow> plan_selects (gp_network_slug grp) tokens j (np_token_plans plan ! j)"
    "length (np_accounts plan) \<le> BIGWIG_MAX_ACCOUNTS" "length (np_targets plan) \<le> BIGWIG_MAX_TARGETS"
proof -
  let ?n = "gp_network_slug grp" and ?as = "ts_asset_slugs tokens" and ?cs = "ts_contract_addresses tokens"
  let ?s0 = "\<lparr>ps_chain_id = map_option nr_chain_id nr, ps_targets = [], ps_target_indexes = Map.empty,
    ps_token_plans = []\<rparr>"
  obtain s1 s2 where s: "length rs = length ?as" "length cs = length ?cs"
    "try_fold (plan_asset ?n) ?s0 (zip ?as rs) = Ok s1" "try_fold (plan_contract ?n) s1 (zip ?cs cs) = Ok s2"
    and plan: "plan = \<lparr>np_network_slug = ?n, np_as_of = as_of, np_chain_id = ps_chain_id s2,
      np_accounts = gp_accounts grp, np_token_plans = ps_token_plans s2, np_targets = ps_targets s2\<rparr>"
    and lim: "length (gp_accounts grp) \<le> BIGWIG_MAX_ACCOUNTS" "length (ps_targets s2) \<le> BIGWIG_MAX_TARGETS"
    using assms by (auto simp: plan_network_group_def and_then_Ok_iff Let_def split: if_splits)
  have i0: "plan_inv ?s0" by (simp add: plan_inv_def fun_eq_iff)
  obtain ps where ps: "plan_inv s1" "ps_token_plans s1 = ps" "length ps = length ?as"
    "\<forall>i<length ?as. case ps ! i of Supported j t \<Rightarrow> rt_selector t = AssetSlug (?as ! i)
       | Skipped n' a \<Rightarrow> n' = ?n \<and> a = ?as ! i"
    using plan_loop[OF s(3) i0 s(1), where Q = "\<lambda>k r p. case p of Supported j t \<Rightarrow> rt_selector t = AssetSlug k
       | Skipped n' a \<Rightarrow> n' = ?n \<and> a = k"] plan_asset_selects by auto
  obtain qs where qs: "plan_inv s2" "ps_token_plans s2 = ps @ qs" "length qs = length ?cs"
    "\<forall>i<length ?cs. case qs ! i of Supported j t \<Rightarrow> rt_selector t = ContractAddress (to_ascii_lowercase (?cs ! i))
       | Skipped n' a \<Rightarrow> False"
    using plan_loop[OF s(4) ps(1) s(2), where Q = "\<lambda>k r p. case p of
       Supported j t \<Rightarrow> rt_selector t = ContractAddress (to_ascii_lowercase k) | Skipped n' a \<Rightarrow> False"]
      plan_contract_selects ps(2) by auto
  show "plan_ok plan" using qs(1) by (simp add: plan plan_ok_def plan_inv_def)
  show "np_network_slug plan = ?n" "np_accounts plan = gp_accounts grp"
    "length (np_accounts plan) \<le> BIGWIG_MAX_ACCOUNTS" "length (np_targets plan) \<le> BIGWIG_MAX_TARGETS"
    using lim by (simp_all add: plan)
  show "length (np_token_plans plan) = token_selector_len tokens"
    using qs(2,3) ps(3) by (simp add: plan token_selector_len_def)
  show "plan_selects ?n tokens j (np_token_plans plan ! j)" if "j < token_selector_len tokens" for j
  proof (cases "j < length ?as")
    case True
    with ps(3,4) show ?thesis by (cases "ps ! j") (auto simp: plan qs(2) nth_append)
  next
    case False
    then have "j - length ?as < length ?cs" using that by (simp add: token_selector_len_def)
    with qs(4) have "case qs ! (j - length ?as) of
      Supported i t \<Rightarrow> rt_selector t = ContractAddress (to_ascii_lowercase (?cs ! (j - length ?as))) | Skipped n' a \<Rightarrow> False"
      by blast
    with False ps(3) show ?thesis by (cases "qs ! (j - length ?as)") (auto simp: plan qs(2) nth_append)
  qed
qed

section \<open>Checked responses\<close>

fun outcome_of :: "bigwig_evidence_item \<Rightarrow> target_outcome" where
  "outcome_of (ItemResolved _ _ raw_amount) = OutcomeResolved raw_amount"
| "outcome_of _ = OutcomeFailed"

definition item_ok :: "network_group_plan \<Rightarrow> nat \<Rightarrow> bigwig_evidence_item \<Rightarrow> bool" where
  "item_ok plan k item \<longleftrightarrow>
     to_ascii_lowercase (item_account item) =
       to_ascii_lowercase (oa_address (ga_account (np_accounts plan ! (k div length (np_targets plan))))) \<and>
     key_from_bigwig (item_target item) = target_key_of (np_targets plan ! (k mod length (np_targets plan))) \<and>
     (\<forall>raw. outcome_of item = OutcomeResolved raw \<longrightarrow> is_unsigned_integer raw)"

lemma validate_item_Ok:
  assumes "validate_item plan s (k, item) = Ok s'"
  shows "item_ok plan k item" "vs_target_outcomes s' = vs_target_outcomes s @ [outcome_of item]"
  using assms
  by (cases item; simp add: validate_item_def Let_def item_ok_def target_key_of_def split: if_splits; force)+

lemma validate_items_Ok:
  assumes "try_fold (validate_item plan) s (enumerate k items) = Ok s'"
  shows "vs_target_outcomes s' = vs_target_outcomes s @ map outcome_of items \<and>
    (\<forall>j<length items. item_ok plan (k + j) (items ! j))"
  using assms
proof (induction items arbitrary: s k)
  case (Cons item items)
  then obtain s1 where s1: "validate_item plan s (k, item) = Ok s1"
    "try_fold (validate_item plan) s1 (enumerate (Suc k) items) = Ok s'"
    by (auto simp: and_then_Ok_iff)
  have "item_ok plan (k + j) ((item # items) ! j)" if "j < length (item # items)" for j
    using that Cons.IH[OF s1(2)] validate_item_Ok(1)[OF s1(1)] by (cases j) auto
  then show ?case using Cons.IH[OF s1(2)] validate_item_Ok(2)[OF s1(1)] by simp
qed simp

lemma validate_response_Ok:
  assumes "validate_response plan response = Ok v"
  shows "vg_target_outcomes v = map outcome_of (bp_items response)"
    "length (bp_items response) = length (np_accounts plan) * length (np_targets plan)"
    "\<And>k. k < length (bp_items response) \<Longrightarrow> item_ok plan k (bp_items response ! k)"
    "bn_network_slug (bp_network response) = np_network_slug plan"
proof -
  obtain s where s: "try_fold (validate_item plan)
      \<lparr>vs_correlations = {}, vs_target_outcomes = [], vs_resolved_count = 0, vs_failed_count = 0\<rparr>
      (enumerate 0 (bp_items response)) = Ok s" "vg_target_outcomes v = vs_target_outcomes s"
    "length (bp_items response) = length (np_accounts plan) * length (np_targets plan)"
    "bn_network_slug (bp_network response) = np_network_slug plan"
    using assms by (auto simp: validate_response_def and_then_Ok_iff Let_def split: if_splits)
  from validate_items_Ok[OF s(1)] s(2-4)
  show "vg_target_outcomes v = map outcome_of (bp_items response)"
    "length (bp_items response) = length (np_accounts plan) * length (np_targets plan)"
    "\<And>k. k < length (bp_items response) \<Longrightarrow> item_ok plan k (bp_items response ! k)"
    "bn_network_slug (bp_network response) = np_network_slug plan" by simp_all
qed

end
