(* ===== verification/BalanceResults.thy ===== *)
theory BalanceResults
  imports BalancePlans
begin

text \<open>
  Properties of balance snapshots: the results of the groups fill the positions of all requested
  accounts, balances come from evidence of the gateway, amounts and values are exact, the answer does
  not depend on the order in which the calls finish, and accepted commands stay within the limits of the gateway.
\<close>

section \<open>Assembled results\<close>

lemma map_panic_total: "(\<And>x. x \<in> set xs \<Longrightarrow> f x = Some (g x)) \<Longrightarrow> map_panic f xs = Some (map g xs)"
  by (induction xs) auto

lemma map_panic_SomeD: "map_panic f xs = Some ys \<Longrightarrow> list_all2 (\<lambda>x y. f x = Some y) xs ys"
  by (induction xs arbitrary: ys) (auto simp: bind_eq_Some_conv)

lemma list_all2_mono':
  "list_all2 P xs ys \<Longrightarrow> (\<And>x y. x \<in> set xs \<Longrightarrow> P x y \<Longrightarrow> Q x y) \<Longrightarrow> list_all2 Q xs ys"
  by (induction rule: list_all2_induct) auto

lemma map_panic_Some_iff: "(\<exists>ys. map_panic f xs = Some ys) \<longleftrightarrow> (\<forall>x\<in>set xs. f x \<noteq> None)"
proof (induction xs)
  case (Cons x xs)
  then show ?case by (cases "f x") (auto simp: bind_eq_Some_conv)
qed simp

lemma map_panic_SomeI: "(\<And>x. x \<in> set xs \<Longrightarrow> f x \<noteq> None) \<Longrightarrow> \<exists>ys. map_panic f xs = Some ys"
  by (simp add: map_panic_Some_iff)

text \<open>An item that the plan and the execution of its group allow.\<close>

fun item_from :: "network_group_plan \<Rightarrow> group_execution \<Rightarrow> onchain_account \<Rightarrow> token_plan \<Rightarrow> raw_balance_item_outcome \<Rightarrow> bool" where
  "item_from plan e account (Skipped n a) item \<longleftrightarrow> item = RawSkipped n a"
| "item_from plan e account (Supported i t) item \<longleftrightarrow>
     (\<exists>code. item = RawFailed t code) \<or>
     (\<exists>response address wire raw. e = Called (Ok response) \<and> item = RawResolved t raw \<and>
        ItemResolved address wire raw \<in> set (bp_items response) \<and>
        to_ascii_lowercase address = to_ascii_lowercase (oa_address account) \<and>
        key_from_bigwig wire = key_from_kind (rt_kind t) \<and>
        bn_network_slug (bp_network response) = np_network_slug plan \<and> is_unsigned_integer raw)"

definition account_from ::
  "network_group_plan \<Rightarrow> group_execution \<Rightarrow> group_account \<Rightarrow> nat \<times> raw_balances_account_result \<Rightarrow> bool" where
  "account_from plan e a r \<longleftrightarrow> fst r = ga_original_index a \<and> ra_account (snd r) = ga_account a \<and>
     list_all2 (item_from plan e (ga_account a)) (np_token_plans plan) (ra_items (snd r))"

lemma failed_item_from: "item_from plan e account p (failed_item code p)"
  by (cases p) auto

lemma failed_items_from: "list_all2 (item_from plan e account) ps (map (failed_item code) ps)"
  by (induction ps) (simp_all add: failed_item_from)

lemma failed_group_from:
  "list_all2 (account_from plan e) (np_accounts plan) (failed_group_results plan code)"
  unfolding failed_group_results_def list_all2_map2
  by (rule list_all2_refl) (simp only: account_from_def fst_conv snd_conv raw_balances_account_result.simps
    failed_items_from)

lemma assemble_item_skipped:
  assumes "np_targets plan = []" "token_plan_ok (np_targets plan) p"
  shows "\<exists>item. assemble_item plan None k p = Some item \<and> item_from plan e account p item"
  using assms by (cases p) auto

lemma assemble_item_validated:
  assumes v: "validate_response plan response = Ok v" and k: "k < length (np_accounts plan)"
    and p: "token_plan_ok (np_targets plan) p"
  shows "\<exists>item. assemble_item plan (Some v) k p = Some item \<and>
    item_from plan (Called (Ok response)) (ga_account (np_accounts plan ! k)) p item"
proof (cases p)
  case (Supported i t)
  let ?n = "length (np_targets plan)"
  let ?j = "k * ?n + i"
  note r = validate_response_Ok[OF v]
  have i: "i < ?n" "target_key_of (np_targets plan ! i) = key_from_kind (rt_kind t)" using p by (auto simp: Supported)
  have "?j < length (np_accounts plan) * ?n"
  proof -
    have "?j < Suc k * ?n" using i(1) by simp
    also have "\<dots> \<le> length (np_accounts plan) * ?n" using k by (intro mult_right_mono) auto
    finally show ?thesis .
  qed
  then have j: "?j < length (bp_items response)" using r(2) by simp
  have "?j div ?n = k" using i(1) by (auto simp: div_add1_eq)
  moreover have "?j mod ?n = i" using i(1) by simp
  ultimately have ok: "to_ascii_lowercase (item_account (bp_items response ! ?j)) =
      to_ascii_lowercase (oa_address (ga_account (np_accounts plan ! k)))"
    "key_from_bigwig (item_target (bp_items response ! ?j)) = key_from_kind (rt_kind t)"
    "\<And>raw. outcome_of (bp_items response ! ?j) = OutcomeResolved raw \<Longrightarrow> is_unsigned_integer raw"
    using r(3)[OF j] i(2) by (auto simp: item_ok_def)
  have mem: "bp_items response ! ?j \<in> set (bp_items response)" using j by simp
  have nth: "vg_target_outcomes v ! ?j = outcome_of (bp_items response ! ?j)" using j r(1) by simp
  show ?thesis
  proof (cases "bp_items response ! ?j")
    case (ItemResolved address wire raw)
    have "item_from plan (Called (Ok response)) (ga_account (np_accounts plan ! k)) p (RawResolved t raw)"
      using ok mem r(4) unfolding ItemResolved Supported by auto
    then show ?thesis using j nth r(1) by (simp add: Supported ItemResolved Let_def)
  next
    case (ItemFailed address wire err)
    then show ?thesis using j nth r(1) by (simp add: Supported Let_def)
  next
    case (ItemUnavailable address wire err)
    then show ?thesis using j nth r(1) by (simp add: Supported Let_def)
  qed
qed simp

lemma assemble_validated_from:
  assumes "\<And>k p. k < length (np_accounts plan) \<Longrightarrow> p \<in> set (np_token_plans plan) \<Longrightarrow>
    \<exists>item. assemble_item plan v k p = Some item \<and> item_from plan e (ga_account (np_accounts plan ! k)) p item"
  shows "\<exists>rs. assemble_validated plan v = Some rs \<and> list_all2 (account_from plan e) (np_accounts plan) rs"
proof -
  let ?f = "\<lambda>(k, a). do {
       items \<leftarrow> map_panic (assemble_item plan v k) (np_token_plans plan);
       Some (ga_original_index a,
         \<lparr>ra_account = ga_account a, ra_evidence = map_option vg_evidence v, ra_items = items\<rparr>)}"
  have acc: "\<exists>r. ?f (k, np_accounts plan ! k) = Some r \<and> account_from plan e (np_accounts plan ! k) r"
    if k: "k < length (np_accounts plan)" for k
  proof -
    have "\<forall>p\<in>set (np_token_plans plan). assemble_item plan v k p \<noteq> None" using assms[OF k] by force
    then obtain items where items: "map_panic (assemble_item plan v k) (np_token_plans plan) = Some items"
      using map_panic_Some_iff by blast
    have "list_all2 (item_from plan e (ga_account (np_accounts plan ! k))) (np_token_plans plan) items"
    proof (rule list_all2_mono'[OF map_panic_SomeD[OF items]])
      fix p item assume "p \<in> set (np_token_plans plan)" "assemble_item plan v k p = Some item"
      with assms[OF k, of p] show "item_from plan e (ga_account (np_accounts plan ! k)) p item" by auto
    qed
    then show ?thesis by (simp add: items account_from_def)
  qed
  have in_enum: "x \<in> set (enumerate 0 (np_accounts plan)) \<Longrightarrow>
      fst x < length (np_accounts plan) \<and> snd x = np_accounts plan ! fst x" for x
    by (cases x) (auto simp: in_set_enumerate_eq)
  have "?f x \<noteq> None" if "x \<in> set (enumerate 0 (np_accounts plan))" for x
    using acc[of "fst x"] in_enum[OF that] by (metis option.discI prod.collapse)
  then have "\<exists>rs. map_panic ?f (enumerate 0 (np_accounts plan)) = Some rs" by (rule map_panic_SomeI)
  then obtain rs where rs: "map_panic ?f (enumerate 0 (np_accounts plan)) = Some rs" by (rule exE)
  have "list_all2 (account_from plan e) (np_accounts plan) rs"
    unfolding list_all2_conv_all_nth
  proof (intro conjI allI impI)
    show "length (np_accounts plan) = length rs" using map_panic_SomeD[OF rs] by (auto dest: list_all2_lengthD)
    fix k assume k: "k < length (np_accounts plan)"
    then have "?f (k, np_accounts plan ! k) = Some (rs ! k)"
      using map_panic_SomeD[OF rs] by (auto simp: list_all2_conv_all_nth nth_enumerate_eq)
    with acc[OF k] show "account_from plan e (np_accounts plan ! k) (rs ! k)" by auto
  qed
  then show ?thesis using rs by (simp add: assemble_validated_def)
qed

lemma assemble_group_from:
  assumes "plan_ok plan" "e = SkippedOnly \<Longrightarrow> np_targets plan = []"
  shows "\<exists>rs. assemble_group_results plan e = Some rs \<and> list_all2 (account_from plan e) (np_accounts plan) rs"
proof (cases e)
  case SkippedOnly
  then show ?thesis
    using assemble_validated_from[of plan None e] assemble_item_skipped[of plan] assms
    by (simp add: assemble_group_results_def plan_ok_def)
next
  case (FailedGroup code)
  then show ?thesis by (simp add: assemble_group_results_def failed_group_from)
next
  case (Called r)
  show ?thesis
  proof (cases r)
    case (Ok response)
    show ?thesis
    proof (cases "validate_response plan response")
      case v: (Ok v)
      then show ?thesis
        using assemble_validated_from[of plan "Some v" e] assemble_item_validated[OF v] assms(1)
        by (simp add: assemble_group_results_def Called Ok plan_ok_def)
    next
      case (Err issue)
      then show ?thesis by (simp add: assemble_group_results_def Called Ok failed_group_from)
    qed
  next
    case (Err err)
    then show ?thesis by (simp add: assemble_group_results_def Called failed_group_from)
  qed
qed

section \<open>Completion of the groups\<close>

text \<open>
  What \<open>JoinSet\<close> promises of the order in which tasks finish: every task that was spawned is
  reported once, with its result or as lost.
\<close>

definition reports_each_task :: "(nat list \<Rightarrow> nat option list) \<Rightarrow> bool" where
  "reports_each_task schedule \<longleftrightarrow>
     (\<forall>xs. \<exists>ys. mset ys = mset xs \<and> list_all2 (\<lambda>y e. e = None \<or> e = Some y) ys (schedule xs))"

definition final_execution :: "balance_service \<Rightarrow> network_group_plan \<Rightarrow> group_execution" where
  "final_execution sv plan =
     (case initial_execution sv plan of
        Some e \<Rightarrow> e
      | None \<Rightarrow> Called (the (sv_bigwig sv) (bigwig_request_of plan)))"

lemma join_all_lost: "None \<in> set events \<Longrightarrow> join_all ex events = Err ExecutionTaskFailed"
proof (induction events arbitrary: ex)
  case (Cons e events)
  then show ?case by (cases e) auto
qed simp

lemma join_all_done:
  "\<exists>ex'. join_all ex (map (\<lambda>i. Some (i, F i)) is) = Ok ex' \<and> length ex' = length ex \<and>
    (\<forall>j<length ex. ex' ! j = (if j \<in> set is then Some (Called (F j)) else ex ! j))"
proof (induction "is" arbitrary: ex)
  case (Cons i "is")
  from Cons.IH[of "ex[i := Some (Called (F i))]"] obtain ex' where
    "join_all (ex[i := Some (Called (F i))]) (map (\<lambda>i. Some (i, F i)) is) = Ok ex'" "length ex' = length ex"
    "\<forall>j<length ex. ex' ! j = (if j \<in> set is then Some (Called (F j)) else ex[i := Some (Called (F i))] ! j)"
    by auto
  then show ?case by (auto simp: nth_list_update)
qed simp

lemma all_reported:
  assumes "list_all2 (\<lambda>y e. e = None \<or> e = Some y) ys es" "None \<notin> set es"
  shows "es = map Some ys"
  using assms by (induction rule: list_all2_induct) auto

lemma in_spawned: "j \<in> set (spawned_groups sv plans) \<longleftrightarrow> j < length plans \<and> initial_execution sv (plans ! j) = None"
  by (auto simp: spawned_groups_def)

lemma run_groups_outcome:
  assumes "reports_each_task schedule"
  shows "run_groups sv schedule plans =
    (if None \<in> set (schedule (spawned_groups sv plans)) then Err ExecutionTaskFailed
     else Ok (map (\<lambda>p. Some (final_execution sv p)) plans))"
proof (cases "None \<in> set (schedule (spawned_groups sv plans))")
  case True
  then show ?thesis unfolding run_groups_def by (subst join_all_lost) force+
next
  case False
  let ?F = "\<lambda>i. the (sv_bigwig sv) (bigwig_request_of (plans ! i))"
  obtain ys where ys: "mset ys = mset (spawned_groups sv plans)"
    "list_all2 (\<lambda>y e. e = None \<or> e = Some y) ys (schedule (spawned_groups sv plans))"
    using assms unfolding reports_each_task_def by blast
  have sched: "schedule (spawned_groups sv plans) = map Some ys" using all_reported[OF ys(2) False] .
  have mem: "set ys = set (spawned_groups sv plans)" using ys(1) mset_eq_setD by blast
  obtain ex where ex: "join_all (map (initial_execution sv) plans) (map (\<lambda>i. Some (i, ?F i)) ys) = Ok ex"
    "length ex = length plans"
    "\<forall>j<length plans. ex ! j = (if j \<in> set ys then Some (Called (?F j)) else initial_execution sv (plans ! j))"
    using join_all_done[of "map (initial_execution sv) plans" ?F ys] by auto
  have "ex = map (\<lambda>p. Some (final_execution sv p)) plans"
    using ex(2,3) by (intro nth_equalityI) (auto simp: mem in_spawned final_execution_def split: option.splits)
  then show ?thesis using False ex(1) by (simp add: run_groups_def sched comp_def)
qed

lemma final_execution_skipped: "final_execution sv plan = SkippedOnly \<Longrightarrow> np_targets plan = []"
  by (auto simp: final_execution_def initial_execution_def split: if_splits)

lemma final_execution_called:
  "final_execution sv plan = Called r \<Longrightarrow> \<exists>client. sv_bigwig sv = Some client \<and> r = client (bigwig_request_of plan)"
  by (auto simp: final_execution_def initial_execution_def split: if_splits option.splits)

section \<open>Positions of the accounts\<close>

definition write_results :: "'r option list \<Rightarrow> (nat \<times> 'r) list \<Rightarrow> 'r option list" where
  "write_results R ws = foldl (\<lambda>rs (i, r). rs[i := Some r]) R ws"

lemma write_results_simps [simp]:
  "write_results R [] = R" "write_results R ((i, r) # ws) = write_results (R[i := Some r]) ws"
  by (simp_all add: write_results_def)

lemma length_write_results [simp]: "length (write_results R ws) = length R"
proof (induction ws arbitrary: R)
  case (Cons w ws)
  then show ?case by (cases w) simp
qed simp

lemma write_results_filled:
  "j < length R \<Longrightarrow> j \<in> fst ` set ws \<or> R ! j \<noteq> None \<Longrightarrow> write_results R ws ! j \<noteq> None"
proof (induction ws arbitrary: R)
  case (Cons w ws)
  obtain i r where w: "w = (i, r)" by (cases w)
  have "j \<in> fst ` set ws \<or> R[i := Some r] ! j \<noteq> None"
    using Cons.prems by (cases "i = j") (auto simp: w)
  then show ?case using Cons.IH[of "R[i := Some r]"] Cons.prems(1) by (simp add: w)
qed simp

lemma write_results_origin:
  "j < length R \<Longrightarrow> write_results R ws ! j = R ! j \<or> (\<exists>r. (j, r) \<in> set ws \<and> write_results R ws ! j = Some r)"
proof (induction ws arbitrary: R)
  case (Cons w ws)
  obtain i r where w: "w = (i, r)" by (cases w)
  show ?case using Cons.IH[of "R[i := Some r]"] Cons.prems by (cases "i = j") (auto simp: w)
qed simp

lemma collect_groups_Some:
  assumes "\<And>p. p \<in> set plans \<Longrightarrow>
      \<exists>rs. assemble_group_results p (E p) = Some rs \<and> list_all2 (account_from p (E p)) (np_accounts p) rs"
    and "\<And>p a r. p \<in> set plans \<Longrightarrow> a \<in> set (np_accounts p) \<Longrightarrow> account_from p (E p) a r \<Longrightarrow> Q (fst r) (snd r)"
    and "\<And>j r. j < length R \<Longrightarrow> R ! j = Some r \<Longrightarrow> Q j r"
  shows "\<exists>R'. collect_groups R (zip plans (map (\<lambda>p. Some (E p)) plans)) = Some R' \<and> length R' = length R \<and>
    (\<forall>j r. j < length R \<longrightarrow> R' ! j = Some r \<longrightarrow> Q j r) \<and>
    (\<forall>j<length R. R ! j \<noteq> None \<or> (\<exists>p\<in>set plans. j \<in> ga_original_index ` set (np_accounts p)) \<longrightarrow> R' ! j \<noteq> None)"
  using assms
proof (induction plans arbitrary: R)
  case (Cons p plans)
  obtain rs where rs: "assemble_group_results p (E p) = Some rs"
    "list_all2 (account_from p (E p)) (np_accounts p) rs"
    using Cons.prems(1) by auto
  let ?W = "write_results R rs"
  have idx: "fst ` set rs = ga_original_index ` set (np_accounts p)"
  proof -
    have "map fst rs = map ga_original_index (np_accounts p)"
      using rs(2) by (induction rule: list_all2_induct) (auto simp: account_from_def)
    then show ?thesis by (metis list.set_map)
  qed
  have Q: "Q j r" if m: "(j, r) \<in> set rs" for j r
  proof -
    obtain k where k: "k < length rs" "rs ! k = (j, r)" using m[unfolded in_set_conv_nth] by blast
    then have "account_from p (E p) (np_accounts p ! k) (j, r)" "k < length (np_accounts p)"
      using rs(2) by (auto simp: list_all2_conv_all_nth)
    then show ?thesis using Cons.prems(2)[of p "np_accounts p ! k" "(j, r)"] by simp
  qed
  have W: "Q j r" if "j < length R" "?W ! j = Some r" for j r
    using write_results_origin[OF that(1), of rs] that Q Cons.prems(3) by auto
  have "\<exists>R'. collect_groups ?W (zip plans (map (\<lambda>p. Some (E p)) plans)) = Some R' \<and> length R' = length ?W \<and>
    (\<forall>j r. j < length ?W \<longrightarrow> R' ! j = Some r \<longrightarrow> Q j r) \<and>
    (\<forall>j<length ?W. ?W ! j \<noteq> None \<or> (\<exists>p\<in>set plans. j \<in> ga_original_index ` set (np_accounts p)) \<longrightarrow> R' ! j \<noteq> None)"
  proof (rule Cons.IH)
    fix q assume "q \<in> set plans"
    then show "\<exists>rs. assemble_group_results q (E q) = Some rs \<and> list_all2 (account_from q (E q)) (np_accounts q) rs"
      using Cons.prems(1) by simp
  next
    fix q a r assume "q \<in> set plans" "a \<in> set (np_accounts q)" "account_from q (E q) a r"
    then show "Q (fst r) (snd r)" using Cons.prems(2)[of q a r] by simp
  next
    fix j r assume "j < length ?W" "?W ! j = Some r"
    then show "Q j r" using W by simp
  qed
  then obtain R' where R': "collect_groups ?W (zip plans (map (\<lambda>p. Some (E p)) plans)) = Some R'" "length R' = length R"
    "\<forall>j r. j < length R \<longrightarrow> R' ! j = Some r \<longrightarrow> Q j r"
    "\<forall>j<length R. ?W ! j \<noteq> None \<or> (\<exists>p\<in>set plans. j \<in> ga_original_index ` set (np_accounts p)) \<longrightarrow> R' ! j \<noteq> None"
    by (simp only: length_write_results) (elim exE conjE)
  have "R' ! j \<noteq> None"
    if "j < length R" "R ! j \<noteq> None \<or> (\<exists>q\<in>set (p # plans). j \<in> ga_original_index ` set (np_accounts q))" for j
  proof -
    have "?W ! j \<noteq> None \<or> (\<exists>q\<in>set plans. j \<in> ga_original_index ` set (np_accounts q))"
      using write_results_filled[OF that(1), of rs] that(2) idx by auto
    then show ?thesis using R'(4) that(1) by blast
  qed
  with R'(1-3) rs(1) show ?case by (simp add: write_results_def)
qed simp

section \<open>Results of a command\<close>

text \<open>The raw result at position \<open>j\<close> comes from the plan of the group of its account.\<close>

definition raw_result_of ::
  "balance_service \<Rightarrow> get_balances_command \<Rightarrow> nat \<Rightarrow> raw_balances_account_result \<Rightarrow> bool" where
  "raw_result_of sv request j r \<longleftrightarrow>
     (\<exists>grp plan. grp \<in> set (group_accounts (gb_accounts request)) \<and>
        gp_network_slug grp = oa_network_slug (gb_accounts request ! j) \<and>
        plan_group (sv_registry sv) request grp = Ok plan \<and>
        account_from plan (final_execution sv plan) (as_group_account (j, gb_accounts request ! j)) (j, r))"

lemma plan_group_Ok:
  assumes "plan_group r request grp = Ok plan"
  obtains nr rs cs where "plan_network_group grp (gb_as_of request) (gb_tokens request) nr rs cs = Ok plan"
  using assms by (auto simp: plan_group_def Let_def and_then_Ok_iff)

lemma in_accounts_on:
  "a \<in> set (accounts_on slug (enumerate 0 accounts)) \<longleftrightarrow>
     (\<exists>j<length accounts. a = as_group_account (j, accounts ! j) \<and> oa_network_slug (accounts ! j) = slug)"
  by (force simp: accounts_on_def in_set_enumerate_eq)

lemma planned_positions:
  assumes "plan_groups r request = Ok plans" "j < length (gb_accounts request)"
  shows "\<exists>p\<in>set plans. j \<in> ga_original_index ` set (np_accounts p)"
proof -
  let ?accounts = "gb_accounts request"
  have "oa_network_slug (?accounts ! j) \<in> gp_network_slug ` set (group_accounts ?accounts)"
    using assms(2) by (simp add: group_accounts_props(2))
  then obtain g where g: "g \<in> set (group_accounts ?accounts)" "gp_network_slug g = oa_network_slug (?accounts ! j)"
    by (metis imageE)
  from g(1) obtain k where k: "k < length (group_accounts ?accounts)" "g = group_accounts ?accounts ! k"
    by (metis in_set_conv_nth)
  have p: "plan_group r request g = Ok (plans ! k)" "plans ! k \<in> set plans"
    using try_map_Ok_nth[OF assms(1)[unfolded plan_groups_def] k(1)] try_map_Ok_length[OF assms(1)[unfolded plan_groups_def]] k
    by simp_all
  have "np_accounts (plans ! k) = accounts_on (oa_network_slug (?accounts ! j)) (enumerate 0 ?accounts)"
    using plan_group_Ok[OF p(1)] plan_network_group_Ok(3) group_accounts_props(3)[OF g(1)] g(2) by metis
  moreover have "as_group_account (j, ?accounts ! j) \<in> set (accounts_on (oa_network_slug (?accounts ! j)) (enumerate 0 ?accounts))"
    using assms(2) by (auto simp: in_accounts_on)
  ultimately have "as_group_account (j, ?accounts ! j) \<in> set (np_accounts (plans ! k))" by simp
  moreover have "ga_original_index (as_group_account (j, ?accounts ! j)) = j" by (simp add: as_group_account_def)
  ultimately show ?thesis using p(2) by (metis image_eqI)
qed

lemma planned_results:
  assumes "plan_groups (sv_registry sv) request = Ok plans" "p \<in> set plans" "a \<in> set (np_accounts p)"
    "account_from p (final_execution sv p) a r"
  shows "raw_result_of sv request (fst r) (snd r)"
proof -
  let ?accounts = "gb_accounts request"
  obtain k where k: "k < length plans" "p = plans ! k" using assms(2) by (metis in_set_conv_nth)
  let ?g = "group_accounts ?accounts ! k"
  have k': "k < length (group_accounts ?accounts)"
    using k(1) try_map_Ok_length[OF assms(1)[unfolded plan_groups_def]] by simp
  have g: "?g \<in> set (group_accounts ?accounts)" "plan_group (sv_registry sv) request ?g = Ok p"
    using try_map_Ok_nth[OF assms(1)[unfolded plan_groups_def] k'] k k' by simp_all
  have "np_accounts p = accounts_on (gp_network_slug ?g) (enumerate 0 ?accounts)"
    using plan_group_Ok[OF g(2)] plan_network_group_Ok(3) group_accounts_props(3)[OF g(1)] by metis
  then obtain j where "a = as_group_account (j, ?accounts ! j)" "oa_network_slug (?accounts ! j) = gp_network_slug ?g"
    using assms(3) in_accounts_on by metis
  moreover have "fst r = ga_original_index a" using assms(4) by (simp add: account_from_def)
  ultimately show ?thesis
    unfolding raw_result_of_def using g assms(4) by (intro exI[of _ ?g] exI[of _ p]) (auto simp: as_group_account_def)
qed

lemma raw_results:
  assumes plans: "plan_groups (sv_registry sv) request = Ok plans"
  shows "\<exists>raw. collect_groups (replicate (length (gb_accounts request)) None)
      (zip plans (map (\<lambda>p. Some (final_execution sv p)) plans)) = Some (map Some raw) \<and>
    length raw = length (gb_accounts request) \<and> (\<forall>j<length raw. raw_result_of sv request j (raw ! j))"
proof -
  let ?n = "length (gb_accounts request)"
  have "\<exists>R. collect_groups (replicate ?n None) (zip plans (map (\<lambda>p. Some (final_execution sv p)) plans)) = Some R \<and>
      length R = length (replicate ?n (None :: raw_balances_account_result option)) \<and>
      (\<forall>j r. j < length (replicate ?n (None :: raw_balances_account_result option)) \<longrightarrow>
         R ! j = Some r \<longrightarrow> raw_result_of sv request j r) \<and>
      (\<forall>j<length (replicate ?n (None :: raw_balances_account_result option)).
         replicate ?n (None :: raw_balances_account_result option) ! j \<noteq> None \<or>
         (\<exists>p\<in>set plans. j \<in> ga_original_index ` set (np_accounts p)) \<longrightarrow> R ! j \<noteq> None)"
  proof (rule collect_groups_Some)
    fix p assume "p \<in> set plans"
    then obtain grp where "plan_group (sv_registry sv) request grp = Ok p"
      using plans by (auto simp: plan_groups_def try_map_Ok_iff list_all2_conv_all_nth in_set_conv_nth)
    then have "plan_ok p" using plan_group_Ok plan_network_group_Ok(1) by metis
    then show "\<exists>rs. assemble_group_results p (final_execution sv p) = Some rs \<and>
        list_all2 (account_from p (final_execution sv p)) (np_accounts p) rs"
      using assemble_group_from final_execution_skipped by blast
  next
    fix p a r assume "p \<in> set plans" "a \<in> set (np_accounts p)" "account_from p (final_execution sv p) a r"
    then show "raw_result_of sv request (fst r) (snd r)" using planned_results[OF plans] by blast
  qed simp
  then obtain R where R: "collect_groups (replicate ?n None) (zip plans (map (\<lambda>p. Some (final_execution sv p)) plans)) = Some R"
    "length R = ?n" "\<forall>j r. j < ?n \<longrightarrow> R ! j = Some r \<longrightarrow> raw_result_of sv request j r"
    "\<forall>j<?n. (\<exists>p\<in>set plans. j \<in> ga_original_index ` set (np_accounts p)) \<longrightarrow> R ! j \<noteq> None"
    unfolding length_replicate by (elim exE conjE) blast
  have full: "R ! j = Some (the (R ! j))" if "j < ?n" for j
    using R(4) planned_positions[OF plans that] that by auto
  then have "R = map Some (map the R)" using R(2) by (intro nth_equalityI) simp_all
  moreover have "raw_result_of sv request j (map the R ! j)" if "j < ?n" for j
    using R(2,3) full[OF that] that by simp
  ultimately show ?thesis using R(1,2) by (intro exI[of _ "map the R"]) simp
qed

section \<open>Pricing\<close>

text \<open>An amount and a quote that are exact for \<open>raw\<close> at the scale of the token.\<close>

fun quote_exact :: "quotes \<Rightarrow> resolved_balance_target \<Rightarrow> string \<Rightarrow> balance_quote_outcome \<Rightarrow> bool" where
  "quote_exact quotes t raw (QuoteAvailable currency price v priced_at) \<longleftrightarrow>
     (\<exists>by_slug slug d. quotes = Ok by_slug \<and> rt_pricing_asset_slug t = Some slug \<and> rt_decimals t = Some d \<and>
        by_slug (normalize_pricing_asset_slug slug) = Some (PriceAvailable price currency priced_at) \<and>
        is_decimal price \<and> is_decimal v \<and>
        dec_value v = of_nat (number_of_digits raw) / 10 ^ d * dec_value price)"
| "quote_exact quotes t raw _ \<longleftrightarrow> True"

definition amount_exact :: "nat option \<Rightarrow> string \<Rightarrow> string option \<Rightarrow> bool" where
  "amount_exact decimals raw amount \<longleftrightarrow>
     (case decimals of
        None \<Rightarrow> amount = None
      | Some d \<Rightarrow> (\<exists>s. amount = Some s \<and> is_decimal s \<and> dec_scale s = d \<and>
          dec_value s = of_nat (number_of_digits raw) / 10 ^ d))"

fun item_priced :: "quotes \<Rightarrow> raw_balance_item_outcome \<Rightarrow> balance_item_outcome \<Rightarrow> bool" where
  "item_priced quotes (RawResolved t raw) item \<longleftrightarrow>
     (\<exists>amount quote. item = BalanceResolved t raw amount quote \<and>
        amount_exact (rt_decimals t) raw amount \<and> quote_exact quotes t raw quote)"
| "item_priced quotes (RawSkipped n a) item \<longleftrightarrow> item = BalanceSkipped n a"
| "item_priced quotes (RawFailed t code) item \<longleftrightarrow> item = BalanceFailed t code"

fun raw_amount_ok :: "raw_balance_item_outcome \<Rightarrow> bool" where
  "raw_amount_ok (RawResolved t raw) \<longleftrightarrow> is_unsigned_integer raw"
| "raw_amount_ok _ \<longleftrightarrow> True"

lemma multiply_amount_by_price_total:
  assumes "is_unsigned_integer raw"
  shows "\<exists>r. multiply_amount_by_price raw d price = Some r \<and>
    (\<forall>v. r = Ok v \<longrightarrow> is_decimal price \<and> is_decimal v \<and>
       dec_value v = of_nat (number_of_digits raw) / 10 ^ d * dec_value price)"
proof (cases "is_decimal price")
  case True
  with multiply_amount_by_price_value[OF assms this, of d] show ?thesis by auto
next
  case False
  then show ?thesis using assms by (auto simp: multiply_amount_by_price_def parse_unsigned_decimal_iff)
qed

lemma item_quote_exact:
  assumes "is_unsigned_integer raw"
  shows "\<exists>q. item_quote quotes t raw = Some q \<and> quote_exact quotes t raw q"
proof (cases "\<exists>slug d by_slug price currency priced_at. rt_pricing_asset_slug t = Some slug \<and> rt_decimals t = Some d \<and>
    quotes = Ok by_slug \<and> by_slug (normalize_pricing_asset_slug slug) = Some (PriceAvailable price currency priced_at)")
  case True
  then obtain slug d by_slug price currency priced_at where q: "rt_pricing_asset_slug t = Some slug"
    "rt_decimals t = Some d" "quotes = Ok by_slug"
    "by_slug (normalize_pricing_asset_slug slug) = Some (PriceAvailable price currency priced_at)" by blast
  obtain r where r: "multiply_amount_by_price raw d price = Some r"
    "\<forall>v. r = Ok v \<longrightarrow> is_decimal price \<and> is_decimal v \<and>
       dec_value v = of_nat (number_of_digits raw) / 10 ^ d * dec_value price"
    using multiply_amount_by_price_total[OF assms, of d price] by blast
  show ?thesis using q r by (cases r) (simp_all add: item_quote_def)
next
  case False
  then show ?thesis
    by (auto simp: item_quote_def split: option.splits result.splits price_quote_error.splits
        price_quote_resolution.splits) (metis enrich_quote.simps(2,3) price_quote_resolution.exhaust quote_exact.simps(2,3))
qed

lemma enrich_item_priced:
  assumes "raw_amount_ok item"
  shows "\<exists>out. enrich_item quotes item = Some out \<and> item_priced quotes item out"
proof (cases item)
  case (RawResolved t raw)
  then have raw: "is_unsigned_integer raw" using assms by simp
  obtain q where q: "item_quote quotes t raw = Some q" "quote_exact quotes t raw q"
    using item_quote_exact[OF raw] by blast
  show ?thesis
  proof (cases "rt_decimals t")
    case (Some d)
    from format_amount_value[OF raw, of d] obtain s where s: "format_amount raw d = Ok s" "is_decimal s" "dec_scale s = d"
      "dec_value s = of_nat (number_of_digits raw) / 10 ^ d" by blast
    have "amount_exact (Some d) raw (Some s)" using s by (simp add: amount_exact_def)
    then show ?thesis using q s(1) by (simp add: RawResolved Some)
  qed (use q in \<open>simp add: RawResolved amount_exact_def\<close>)
qed simp_all

lemma enrich_account_results_priced:
  assumes "\<And>r item. r \<in> set raw \<Longrightarrow> item \<in> set (ra_items r) \<Longrightarrow> raw_amount_ok item"
  shows "\<exists>out. enrich_account_results raw quotes = Some out \<and>
    list_all2 (\<lambda>r b. ba_account b = ra_account r \<and> list_all2 (item_priced quotes) (ra_items r) (ba_items b)) raw out"
  using assms
proof (induction raw)
  case (Cons r raw)
  then obtain out where out: "enrich_account_results raw quotes = Some out"
    "list_all2 (\<lambda>r b. ba_account b = ra_account r \<and> list_all2 (item_priced quotes) (ra_items r) (ba_items b)) raw out"
    by auto
  have ok: "raw_amount_ok item" if "item \<in> set (ra_items r)" for item using Cons.prems[of r] that by simp
  then have "\<exists>items. map_panic (enrich_item quotes) (ra_items r) = Some items"
    using enrich_item_priced by (intro map_panic_SomeI) force
  then obtain items where items: "map_panic (enrich_item quotes) (ra_items r) = Some items" ..
  have "list_all2 (item_priced quotes) (ra_items r) items"
  proof (rule list_all2_mono'[OF map_panic_SomeD[OF items]])
    fix x y assume "x \<in> set (ra_items r)" "enrich_item quotes x = Some y"
    then show "item_priced quotes x y" using enrich_item_priced[OF ok, of x quotes] by auto
  qed
  then show ?case using out items by (simp add: enrich_account_results_def)
qed (simp add: enrich_account_results_def)

lemma item_from_amount: "item_from plan e account p item \<Longrightarrow> raw_amount_ok item"
  by (cases p) auto

lemma raw_result_amounts:
  assumes "raw_result_of sv request j r" "item \<in> set (ra_items r)"
  shows "raw_amount_ok item"
proof -
  obtain plan e account where "list_all2 (item_from plan e account) (np_token_plans plan) (ra_items r)"
    using assms(1) by (auto simp: raw_result_of_def account_from_def)
  then show ?thesis using assms(2) item_from_amount by (metis in_set_conv_nth list_all2_conv_all_nth)
qed

section \<open>The outcome of a command\<close>

definition account_answer ::
  "balance_service \<Rightarrow> get_balances_command \<Rightarrow> quotes \<Rightarrow> nat \<Rightarrow> balances_account_result \<Rightarrow> bool" where
  "account_answer sv request quotes j b \<longleftrightarrow>
     (\<exists>r. raw_result_of sv request j r \<and> ba_account b = ra_account r \<and>
        list_all2 (item_priced quotes) (ra_items r) (ba_items b))"

lemma map_panic_Some: "map_panic (\<lambda>x. x) (map Some xs) = Some xs"
  by (induction xs) auto

lemma resolve_outcome:
  assumes "reports_each_task schedule"
  shows "case plan_groups (sv_registry sv) request of
      Err e \<Rightarrow> resolve sv schedule request = Some (Err e)
    | Ok plans \<Rightarrow>
        if None \<in> set (schedule (spawned_groups sv plans))
        then resolve sv schedule request = Some (Err ExecutionTaskFailed)
        else \<exists>raw res. resolve sv schedule request = Some (Ok res) \<and>
          length (br_accounts res) = length (gb_accounts request) \<and>
          (\<forall>j<length (br_accounts res). account_answer sv request (load_quotes sv request raw) j (br_accounts res ! j))"
proof (cases "plan_groups (sv_registry sv) request")
  case (Err e)
  then show ?thesis by (simp add: resolve_def)
next
  case (Ok plans)
  show ?thesis
  proof (cases "None \<in> set (schedule (spawned_groups sv plans))")
    case True
    then show ?thesis using Ok by (simp add: resolve_def run_groups_outcome[OF assms])
  next
    case False
    obtain raw where raw: "collect_groups (replicate (length (gb_accounts request)) None)
        (zip plans (map (\<lambda>p. Some (final_execution sv p)) plans)) = Some (map Some raw)"
      "length raw = length (gb_accounts request)" "\<forall>j<length raw. raw_result_of sv request j (raw ! j)"
      using raw_results[OF Ok] by blast
    let ?q = "load_quotes sv request raw"
    have amounts: "raw_amount_ok item" if m: "r \<in> set raw" and i: "item \<in> set (ra_items r)" for r item
    proof -
      obtain j where "j < length raw" "r = raw ! j" using m unfolding in_set_conv_nth by blast
      then show ?thesis using raw(3) raw_result_amounts i by blast
    qed
    obtain out where out: "enrich_account_results raw ?q = Some out"
      "list_all2 (\<lambda>r b. ba_account b = ra_account r \<and> list_all2 (item_priced ?q) (ra_items r) (ba_items b)) raw out"
      using enrich_account_results_priced[of raw ?q] amounts by blast
    let ?res = "\<lparr>br_as_of = gb_as_of request, br_quote_currency = gb_quote_currency request,
                 br_requested_token_count = token_selector_len (gb_tokens request), br_accounts = out\<rparr>"
    have "resolve sv schedule request = Some (Ok ?res)"
      using Ok False raw(1) out(1) by (simp add: resolve_def run_groups_outcome[OF assms] map_panic_Some)
    moreover have "\<forall>j<length out. account_answer sv request ?q j (out ! j)"
      using out(2) raw(3) by (auto simp: account_answer_def list_all2_conv_all_nth)
    ultimately show ?thesis using Ok False out(2) raw(2) by (auto dest: list_all2_lengthD)
  qed
qed

section \<open>Properties\<close>

text \<open>The \<open>j\<close>-th token of a request: slugs first, then contracts.\<close>

definition requested_selector :: "token_selector \<Rightarrow> nat \<Rightarrow> balance_token_selector" where
  "requested_selector tokens j =
     (if j < length (ts_asset_slugs tokens) then AssetSlug (ts_asset_slugs tokens ! j)
      else ContractAddress (to_ascii_lowercase (ts_contract_addresses tokens ! (j - length (ts_asset_slugs tokens)))))"

fun item_answers :: "string \<Rightarrow> token_selector \<Rightarrow> nat \<Rightarrow> balance_item_outcome \<Rightarrow> bool" where
  "item_answers n tokens j (BalanceResolved t _ _ _) \<longleftrightarrow> rt_selector t = requested_selector tokens j"
| "item_answers n tokens j (BalanceFailed t _) \<longleftrightarrow> rt_selector t = requested_selector tokens j"
| "item_answers n tokens j (BalanceSkipped n' a) \<longleftrightarrow> n' = n \<and> AssetSlug a = requested_selector tokens j"

lemma item_answers_selected:
  assumes "plan_selects n tokens j p" "item_from plan e account p raw" "item_priced quotes raw item"
  shows "item_answers n tokens j item"
  using assms by (cases p) (auto simp: requested_selector_def)

lemma account_answer_items:
  assumes "account_answer sv request quotes j b"
  shows "ba_account b = gb_accounts request ! j"
    "length (ba_items b) = token_selector_len (gb_tokens request)"
    "\<And>k. k < token_selector_len (gb_tokens request) \<Longrightarrow>
      item_answers (oa_network_slug (ba_account b)) (gb_tokens request) k (ba_items b ! k)"
proof -
  obtain r grp plan where r: "gp_network_slug grp = oa_network_slug (gb_accounts request ! j)"
    "plan_group (sv_registry sv) request grp = Ok plan"
    "account_from plan (final_execution sv plan) (as_group_account (j, gb_accounts request ! j)) (j, r)"
    "ba_account b = ra_account r" "list_all2 (item_priced quotes) (ra_items r) (ba_items b)"
    using assms by (auto simp: account_answer_def raw_result_of_def)
  obtain nr rs cs where p: "plan_network_group grp (gb_as_of request) (gb_tokens request) nr rs cs = Ok plan"
    using plan_group_Ok[OF r(2)] by blast
  note sel = plan_network_group_Ok(4,5)[OF p]
  show acc: "ba_account b = gb_accounts request ! j"
    using r(3,4) by (simp add: account_from_def as_group_account_def)
  have it: "list_all2 (item_from plan (final_execution sv plan) (gb_accounts request ! j)) (np_token_plans plan) (ra_items r)"
    using r(3) by (simp add: account_from_def as_group_account_def)
  show "length (ba_items b) = token_selector_len (gb_tokens request)"
    using it r(5) sel(1) by (auto dest!: list_all2_lengthD)
  show "item_answers (oa_network_slug (ba_account b)) (gb_tokens request) k (ba_items b ! k)"
    if "k < token_selector_len (gb_tokens request)" for k
    using item_answers_selected[OF sel(2)[OF that] list_all2_nthD[OF it] list_all2_nthD[OF r(5)]]
      that sel(1) it r(1) acc by (auto dest!: list_all2_lengthD)
qed

text \<open>
  C5. Resolving a balance command never panics, whatever the gateway, the price reader and the order
  of completion of the concurrent calls do. It fails only when the plan fails or a task is lost, and
  otherwise answers every requested account, in the order of the request, with exactly one item per
  requested token, in the order of the tokens and naming the token it answers.
\<close>

theorem every_account_answered:
  assumes "reports_each_task schedule"
  shows "case resolve sv schedule request of
      None \<Rightarrow> False
    | Some (Err e) \<Rightarrow> plan_groups (sv_registry sv) request = Err e \<or> e = ExecutionTaskFailed
    | Some (Ok res) \<Rightarrow>
        map ba_account (br_accounts res) = gb_accounts request \<and>
        (\<forall>b\<in>set (br_accounts res). length (ba_items b) = token_selector_len (gb_tokens request) \<and>
          (\<forall>j<token_selector_len (gb_tokens request).
             item_answers (oa_network_slug (ba_account b)) (gb_tokens request) j (ba_items b ! j)))"
proof (cases "\<exists>res. resolve sv schedule request = Some (Ok res)")
  case True
  then obtain res raw where res: "resolve sv schedule request = Some (Ok res)"
    "length (br_accounts res) = length (gb_accounts request)"
    "\<forall>j<length (br_accounts res). account_answer sv request (load_quotes sv request raw) j (br_accounts res ! j)"
    using resolve_outcome[OF assms, of sv request] by (auto split: result.splits if_splits)
  have "map ba_account (br_accounts res) = gb_accounts request"
    using res(2,3) account_answer_items(1) by (intro nth_equalityI) auto
  moreover have "length (ba_items b) = token_selector_len (gb_tokens request) \<and>
      (\<forall>j<token_selector_len (gb_tokens request).
         item_answers (oa_network_slug (ba_account b)) (gb_tokens request) j (ba_items b ! j))"
    if b: "b \<in> set (br_accounts res)" for b
  proof -
    obtain j where "j < length (br_accounts res)" "b = br_accounts res ! j" using b unfolding in_set_conv_nth by blast
    then show ?thesis using res(3) account_answer_items(2,3) by blast
  qed
  ultimately show ?thesis using res(1) by simp
next
  case False
  then show ?thesis using resolve_outcome[OF assms, of sv request] by (auto split: result.splits if_splits)
qed

lemma resolved_item_origin:
  assumes "reports_each_task schedule" "resolve sv schedule request = Some (Ok res)" "b \<in> set (br_accounts res)"
    "BalanceResolved t raw amount quote \<in> set (ba_items b)"
  shows "\<exists>client plan response address wire quotes accounts. sv_bigwig sv = Some client \<and>
    client (bigwig_request_of plan) = Ok response \<and> np_network_slug plan = oa_network_slug (ba_account b) \<and>
    bn_network_slug (bp_network response) = oa_network_slug (ba_account b) \<and>
    ItemResolved address wire raw \<in> set (bp_items response) \<and>
    to_ascii_lowercase address = to_ascii_lowercase (oa_address (ba_account b)) \<and>
    key_from_bigwig wire = key_from_kind (rt_kind t) \<and> amount_exact (rt_decimals t) raw amount \<and>
    quotes = load_quotes sv request accounts \<and> quote_exact quotes t raw quote"
proof -
  obtain accounts where ans:
    "\<forall>j<length (br_accounts res). account_answer sv request (load_quotes sv request accounts) j (br_accounts res ! j)"
    using resolve_outcome[OF assms(1), of sv request] assms(2) by (auto split: result.splits if_splits)
  obtain j where j: "j < length (br_accounts res)" "b = br_accounts res ! j"
    using assms(3) unfolding in_set_conv_nth by blast
  let ?q = "load_quotes sv request accounts"
  have a: "account_answer sv request ?q j b" using ans j by simp
  note acc = account_answer_items(1)[OF a]
  obtain r grp plan where r: "gp_network_slug grp = oa_network_slug (gb_accounts request ! j)"
    "plan_group (sv_registry sv) request grp = Ok plan"
    "account_from plan (final_execution sv plan) (as_group_account (j, gb_accounts request ! j)) (j, r)"
    "list_all2 (item_priced ?q) (ra_items r) (ba_items b)"
    using a by (auto simp: account_answer_def raw_result_of_def)
  have it: "list_all2 (item_from plan (final_execution sv plan) (gb_accounts request ! j)) (np_token_plans plan) (ra_items r)"
    using r(3) by (simp add: account_from_def as_group_account_def)
  obtain k where k: "k < length (ba_items b)" "ba_items b ! k = BalanceResolved t raw amount quote"
    using assms(4) unfolding in_set_conv_nth by blast
  have "item_priced ?q (ra_items r ! k) (BalanceResolved t raw amount quote)"
    using list_all2_nthD2[OF r(4) k(1)] k(2) by simp
  then have raw: "ra_items r ! k = RawResolved t raw" "amount_exact (rt_decimals t) raw amount" "quote_exact ?q t raw quote"
    by (cases "ra_items r ! k"; simp)+
  have "item_from plan (final_execution sv plan) (gb_accounts request ! j) (np_token_plans plan ! k) (RawResolved t raw)"
    using list_all2_nthD2[OF it, of k] k(1) raw(1) r(4) by (simp add: list_all2_lengthD)
  then obtain response address wire where w: "final_execution sv plan = Called (Ok response)"
    "ItemResolved address wire raw \<in> set (bp_items response)"
    "to_ascii_lowercase address = to_ascii_lowercase (oa_address (gb_accounts request ! j))"
    "key_from_bigwig wire = key_from_kind (rt_kind t)" "bn_network_slug (bp_network response) = np_network_slug plan"
    by (cases "np_token_plans plan ! k") auto
  have n: "np_network_slug plan = oa_network_slug (gb_accounts request ! j)"
    using plan_group_Ok[OF r(2)] plan_network_group_Ok(2) r(1) by metis
  obtain client where client: "sv_bigwig sv = Some client" "client (bigwig_request_of plan) = Ok response"
    using final_execution_called[OF w(1)] by auto
  show ?thesis unfolding acc
    using client w raw n by (intro exI[of _ client] exI[of _ plan] exI[of _ response] exI[of _ address] exI[of _ wire]
      exI[of _ ?q] exI[of _ accounts]) simp
qed

text \<open>A service with one native token, whose gateway knows the balance 1234 of every account.\<close>

definition snapshot_registry :: canonical_registry where
  "snapshot_registry = \<lparr>rg_assets = [example_ether], rg_networks = [example_network],
     rg_mappings = [example_native\<lparr>cm_decimals := Some 2\<rparr>], rg_asset_by_slug = [''ethereum'' \<mapsto> 0],
     rg_asset_by_alias = Map.empty, rg_network_by_slug = [''eth-mainnet'' \<mapsto> 0],
     rg_mapping_by_identity = [(''ethereum'', ''eth-mainnet'') \<mapsto> 0],
     rg_erc20_by_network_address = Map.empty, rg_active_asset_indexes = [0],
     rg_active_mapping_indexes_by_asset = [''ethereum'' \<mapsto> [0]]\<rparr>"

definition snapshot_gateway :: "bigwig_request \<Rightarrow> (bigwig_response, bigwig_error) result" where
  "snapshot_gateway q = Ok \<lparr>bp_primitive = EvmBalances, bp_status = EvidenceComplete,
     bp_network = \<lparr>bn_network_slug = bq_network_slug q, bn_chain_id = 1\<rparr>, bp_requested_as_of = bq_as_of q,
     bp_resolved_evidence = \<lparr>be_kind = ObservedHead, be_block_number = ''7'', be_block_hash = ''0x1'',
       be_block_timestamp = ''t''\<rparr>,
     bp_items = map (\<lambda>a. ItemResolved a WireNative ''1234'') (bq_accounts q)\<rparr>"

definition snapshot_service :: balance_service where
  "snapshot_service = \<lparr>sv_registry = snapshot_registry, sv_bigwig = Some snapshot_gateway,
     sv_price_quotes = Some (\<lambda>_ currency. Ok [''ethereum'' \<mapsto> PriceAvailable ''2.5'' currency ''now''])\<rparr>"

definition snapshot_account :: onchain_account where
  "snapshot_account = \<lparr>oa_network_slug = ''eth-mainnet'', oa_address = ''0xA'', oa_client_ref = None\<rparr>"

definition snapshot_request :: get_balances_command where
  "snapshot_request = \<lparr>gb_as_of = Latest, gb_accounts = [snapshot_account],
     gb_tokens = \<lparr>ts_asset_slugs = [''ethereum''], ts_contract_addresses = []\<rparr>, gb_quote_currency = ''USD''\<rparr>"

definition snapshot_target :: resolved_balance_target where
  "snapshot_target = \<lparr>rt_selector = AssetSlug ''ethereum'', rt_network_slug = ''eth-mainnet'', rt_chain_id = 1,
     rt_asset_slug = Some ''ethereum'', rt_symbol = Some ''ETH'', rt_name = Some ''Ether'', rt_decimals = Some 2,
     rt_pricing_asset_slug = Some ''ethereum'', rt_kind = Native\<rparr>"

lemma last_first_reports: "reports_each_task (\<lambda>xs. map Some (rev xs))"
proof -
  have "list_all2 (\<lambda>y e. e = None \<or> e = Some y) ys (map Some ys)" for ys :: "nat list"
    by (simp add: list_all2_map2 list_all2_same)
  then show ?thesis unfolding reports_each_task_def by (metis mset_rev)
qed

lemma snapshot_lower [simp]:
  "to_ascii_lowercase ''eth-mainnet'' = ''eth-mainnet''" "to_ascii_lowercase ''ethereum'' = ''ethereum''"
  "to_ascii_lowercase ''0xA'' = ''0xa''" "normalize_pricing_asset_slug ''ethereum'' = ''ethereum''"
  by code_simp+

lemma snapshot_targets:
  "resolve_network snapshot_registry ''eth-mainnet'' [''ethereum''] =
     [ResolvedTarget \<lparr>tg_network_slug = ''eth-mainnet'', tg_chain_id = 1, tg_asset_slug = ''ethereum'',
        tg_symbol = ''ETH'', tg_name = ''Ether'', tg_decimals = 2, tg_pricing_asset_slug = ''ethereum'',
        tg_kind = Native\<rparr>]"
  by code_simp

lemma snapshot_groups:
  "group_accounts [snapshot_account] =
     [\<lparr>gp_network_slug = ''eth-mainnet'', gp_accounts = [\<lparr>ga_original_index = 0, ga_account = snapshot_account\<rparr>]\<rparr>]"
  by code_simp

definition snapshot_plan :: network_group_plan where
  "snapshot_plan = \<lparr>np_network_slug = ''eth-mainnet'', np_as_of = Latest, np_chain_id = Some 1,
     np_accounts = [\<lparr>ga_original_index = 0, ga_account = snapshot_account\<rparr>],
     np_token_plans = [Supported 0 snapshot_target],
     np_targets = [\<lparr>pt_wire_target = WireNative, pt_first_target = snapshot_target\<rparr>]\<rparr>"

lemma snapshot_planned: "plan_groups snapshot_registry snapshot_request = Ok [snapshot_plan]"
  by (simp add: plan_groups_def snapshot_request_def snapshot_groups plan_group_def snapshot_targets
      plan_network_group_def Let_def adopt_chain_id_def push_supported_def push_planned_target_def
      resolved_target_from_asset_selector_def snapshot_target_def snapshot_plan_def
      BIGWIG_MAX_ACCOUNTS_def BIGWIG_MAX_TARGETS_def BIGWIG_MAX_ITEMS_def)

lemma snapshot_run:
  "run_groups snapshot_service (\<lambda>xs. map Some (rev xs)) [snapshot_plan] =
     Ok [Some (Called (snapshot_gateway (bigwig_request_of snapshot_plan)))]"
  by code_simp

definition snapshot_raw :: raw_balances_account_result where
  "snapshot_raw = \<lparr>ra_account = snapshot_account,
     ra_evidence = Some \<lparr>ev_network_slug = ''eth-mainnet'', ev_observed_at = ''t'', ev_block_number = ''7'',
       ev_block_hash = ''0x1'', ev_block_timestamp = ''t''\<rparr>,
     ra_items = [RawResolved snapshot_target ''1234'']\<rparr>"

lemma snapshot_collected:
  "collect_groups [None] [(snapshot_plan, Some (Called (snapshot_gateway (bigwig_request_of snapshot_plan))))] =
     Some [Some snapshot_raw]"
  by code_simp

definition snapshot_answer :: balances_account_result where
  "snapshot_answer = \<lparr>ba_account = snapshot_account,
     ba_evidence = Some \<lparr>ev_network_slug = ''eth-mainnet'', ev_observed_at = ''t'', ev_block_number = ''7'',
       ev_block_hash = ''0x1'', ev_block_timestamp = ''t''\<rparr>,
     ba_items = [BalanceResolved snapshot_target ''1234'' (Some ''12.34'')
       (QuoteAvailable ''USD'' ''2.5'' ''30.85'' ''now'')]\<rparr>"

lemma snapshot_quotes:
  "load_quotes snapshot_service snapshot_request [snapshot_raw] = Ok [''ethereum'' \<mapsto> PriceAvailable ''2.5'' ''USD'' ''now'']"
  by (simp add: load_quotes_def snapshot_request_def snapshot_service_def collect_pricing_asset_slugs_def
      snapshot_raw_def snapshot_target_def)

lemma snapshot_enriched:
  "enrich_account_results [snapshot_raw] (Ok [''ethereum'' \<mapsto> PriceAvailable ''2.5'' ''USD'' ''now'']) = Some [snapshot_answer]"
  by code_simp

lemma snapshot_result:
  "resolve snapshot_service (\<lambda>xs. map Some (rev xs)) snapshot_request =
     Some (Ok \<lparr>br_as_of = Latest, br_quote_currency = ''USD'', br_requested_token_count = 1,
       br_accounts = [snapshot_answer]\<rparr>)"
proof -
  have "sv_registry snapshot_service = snapshot_registry" by (simp add: snapshot_service_def)
  moreover have "length (gb_accounts snapshot_request) = 1" "token_selector_len (gb_tokens snapshot_request) = 1"
    "gb_as_of snapshot_request = Latest" "gb_quote_currency snapshot_request = ''USD''"
    by (simp_all add: snapshot_request_def token_selector_len_def)
  ultimately show ?thesis
    by (simp add: resolve_def snapshot_planned snapshot_run snapshot_collected snapshot_quotes snapshot_enriched
        del: collect_groups.simps)
qed

section \<open>Balances and quotes\<close>

theorem every_account_answered_witness:
  "reports_each_task (\<lambda>xs. map Some (rev xs)) \<and>
   map ba_account [snapshot_answer] = gb_accounts snapshot_request \<and>
   item_answers ''eth-mainnet'' (gb_tokens snapshot_request) 0 (ba_items snapshot_answer ! 0)"
  using every_account_answered[OF last_first_reports, where sv = snapshot_service and request = snapshot_request] last_first_reports
  by (simp add: snapshot_result snapshot_answer_def snapshot_account_def token_selector_len_def)
     (simp add: snapshot_request_def)

text \<open>
  C6. A resolved balance is a balance the gateway reported: the gateway answered the call of the
  group of the account's network with an item for this account and this target that carries the same raw
  amount, and the displayed amount has exactly the value of the raw amount at the token's scale (no
  amount is displayed when the scale is unknown).
\<close>

theorem resolved_balances_are_evidence:
  assumes "reports_each_task schedule" "resolve sv schedule request = Some (Ok res)" "b \<in> set (br_accounts res)"
    "BalanceResolved t raw amount quote \<in> set (ba_items b)"
  shows "amount_exact (rt_decimals t) raw amount \<and>
    (\<exists>client plan response address wire. sv_bigwig sv = Some client \<and>
       client (bigwig_request_of plan) = Ok response \<and> np_network_slug plan = oa_network_slug (ba_account b) \<and>
       bn_network_slug (bp_network response) = oa_network_slug (ba_account b) \<and>
       ItemResolved address wire raw \<in> set (bp_items response) \<and>
       to_ascii_lowercase address = to_ascii_lowercase (oa_address (ba_account b)) \<and>
       key_from_bigwig wire = key_from_kind (rt_kind t))"
  using resolved_item_origin[OF assms] by blast

theorem resolved_balances_are_evidence_witness:
  "resolve snapshot_service (\<lambda>xs. map Some (rev xs)) snapshot_request =
     Some (Ok \<lparr>br_as_of = Latest, br_quote_currency = ''USD'', br_requested_token_count = 1,
       br_accounts = [snapshot_answer]\<rparr>) \<and>
   amount_exact (Some 2) ''1234'' (Some ''12.34'')"
  using resolved_balances_are_evidence[OF last_first_reports snapshot_result, of snapshot_answer snapshot_target
      "''1234''" "Some ''12.34''" "QuoteAvailable ''USD'' ''2.5'' ''30.85'' ''now''"]
  by (simp add: snapshot_result) (simp add: snapshot_answer_def snapshot_target_def)

text \<open>
  C7. A quoted value is exact: it appears only for a command as of the latest block, the price is one
  the price reader returned, in the currency of the command's quotes, for the pricing slug of the token,
  and the value is the raw amount at the token's scale times that price, without rounding.
\<close>

theorem quoted_values_exact:
  assumes "reports_each_task schedule" "resolve sv schedule request = Some (Ok res)" "b \<in> set (br_accounts res)"
    "BalanceResolved t raw amount (QuoteAvailable currency price v priced_at) \<in> set (ba_items b)"
  shows "gb_as_of request = Latest \<and>
    (\<exists>reader slugs by_slug slug d. sv_price_quotes sv = Some reader \<and>
       reader slugs (gb_quote_currency request) = Ok by_slug \<and>
       rt_pricing_asset_slug t = Some slug \<and>
       by_slug (normalize_pricing_asset_slug slug) = Some (PriceAvailable price currency priced_at) \<and>
       rt_decimals t = Some d \<and> is_decimal price \<and> is_decimal v \<and>
       dec_value v = of_nat (number_of_digits raw) / 10 ^ d * dec_value price)"
proof -
  obtain accounts where q: "quote_exact (load_quotes sv request accounts) t raw (QuoteAvailable currency price v priced_at)"
    using resolved_item_origin[OF assms] by blast
  then obtain by_slug slug d where e: "load_quotes sv request accounts = Ok by_slug" "rt_pricing_asset_slug t = Some slug"
    "rt_decimals t = Some d" "by_slug (normalize_pricing_asset_slug slug) = Some (PriceAvailable price currency priced_at)"
    "is_decimal price" "is_decimal v" "dec_value v = of_nat (number_of_digits raw) / 10 ^ d * dec_value price"
    by auto
  have "by_slug \<noteq> Map.empty" using e(4) by auto
  then obtain reader where "gb_as_of request = Latest" "sv_price_quotes sv = Some reader"
    "reader (collect_pricing_asset_slugs accounts) (gb_quote_currency request) = Ok by_slug"
    using e(1) by (auto simp: load_quotes_def Let_def split: if_splits option.splits)
  then show ?thesis using e by blast
qed

theorem quoted_values_exact_witness:
  "BalanceResolved snapshot_target ''1234'' (Some ''12.34'') (QuoteAvailable ''USD'' ''2.5'' ''30.85'' ''now'')
     \<in> set (ba_items snapshot_answer) \<and> gb_as_of snapshot_request = Latest \<and> is_decimal ''30.85''"
proof -
  have m: "BalanceResolved snapshot_target ''1234'' (Some ''12.34'') (QuoteAvailable ''USD'' ''2.5'' ''30.85'' ''now'')
     \<in> set (ba_items snapshot_answer)" by (simp add: snapshot_answer_def)
  with quoted_values_exact[OF last_first_reports snapshot_result _ m] show ?thesis by auto
qed

text \<open>
  C14. The answer does not depend on the order in which the concurrent calls of the groups finish, as
  long as no task is lost.
\<close>

theorem completion_order_irrelevant:
  assumes "reports_each_task schedule" "reports_each_task schedule'"
    and "\<forall>xs. None \<notin> set (schedule xs) \<and> None \<notin> set (schedule' xs)"
  shows "resolve sv schedule request = resolve sv schedule' request"
proof -
  have "run_groups sv schedule = run_groups sv schedule'"
    using assms(3) by (intro ext) (simp add: run_groups_outcome[OF assms(1)] run_groups_outcome[OF assms(2)])
  then show ?thesis unfolding resolve_def by (rule arg_cong)
qed

lemma first_first_reports: "reports_each_task (map Some)"
  unfolding reports_each_task_def by (metis (mono_tags, lifting) list.rel_map(2) list_all2_refl)

theorem completion_order_irrelevant_witness:
  "resolve snapshot_service (map Some) snapshot_request = resolve snapshot_service (\<lambda>xs. map Some (rev xs)) snapshot_request \<and>
   resolve snapshot_service (map Some) snapshot_request \<noteq> None"
  using completion_order_irrelevant[OF first_first_reports last_first_reports, where sv = snapshot_service and request = snapshot_request]
  by (simp add: snapshot_result)

section \<open>Limits\<close>

lemma try_new_Ok:
  assumes "try_new as_of accounts quote_currency tokens = Ok request"
  shows "gb_accounts request = accounts" "length accounts \<le> MAX_ACCOUNTS"
    "token_selector_len (gb_tokens request) \<le> MAX_TOKENS"
    "length accounts * token_selector_len (gb_tokens request) \<le> MAX_RESOLUTION_ITEMS"
    "ts_asset_slugs (gb_tokens request) = ts_asset_slugs tokens"
  using assms
  by (auto simp: try_new_def Let_def and_then_Ok_iff checked_mul_usize_def token_selector_len_def split: if_splits)

lemma try_map_ErrD: "try_map f xs = Err e \<Longrightarrow> \<exists>x\<in>set xs. f x = Err e"
  by (induction xs) (auto simp: and_then_Err_iff)

lemma push_supported_room:
  assumes "push_supported n s t = Ok s'" "length (ps_targets s) \<le> length (ps_token_plans s)"
  shows "length (ps_targets s') \<le> length (ps_token_plans s')"
  using assms
  by (auto simp: push_supported_def push_planned_target_def and_then_Ok_iff Let_def split: option.splits if_splits)

lemma adopt_chain_id_room:
  assumes "adopt_chain_id n s c = Ok s'" "length (ps_targets s) \<le> length (ps_token_plans s)"
  shows "length (ps_targets s') \<le> length (ps_token_plans s')"
  using assms by (auto simp: adopt_chain_id_Ok)

lemma plan_asset_room:
  assumes "plan_asset n s x = Ok s'" "length (ps_targets s) \<le> length (ps_token_plans s)"
  shows "length (ps_targets s') \<le> length (ps_token_plans s')"
proof -
  obtain k r where x: "x = (k, r)" by (cases x)
  show ?thesis using assms push_supported_room adopt_chain_id_room
    by (cases r) (auto simp: x and_then_Ok_iff split: if_splits)
qed

lemma plan_contract_room:
  assumes "plan_contract n s x = Ok s'" "length (ps_targets s) \<le> length (ps_token_plans s)"
  shows "length (ps_targets s') \<le> length (ps_token_plans s')"
proof -
  obtain k r where x: "x = (k, r)" by (cases x)
  show ?thesis using assms push_supported_room adopt_chain_id_room
    by (cases r) (auto simp: x and_then_Ok_iff split: if_splits)
qed

lemma planned_targets_room:
  assumes "try_fold (plan_asset n) s0 xs = Ok s1" "try_fold (plan_contract n) s1 ys = Ok s2"
    and "length (ps_targets s0) \<le> length (ps_token_plans s0)"
  shows "length (ps_targets s2) \<le> length (ps_token_plans s2)"
proof -
  have "length (ps_targets s1) \<le> length (ps_token_plans s1)"
    using try_fold_invariant[OF assms(1), of "\<lambda>s. length (ps_targets s) \<le> length (ps_token_plans s)"]
      assms(3) plan_asset_room by blast
  then show ?thesis
    using try_fold_invariant[OF assms(2), of "\<lambda>s. length (ps_targets s) \<le> length (ps_token_plans s)"]
      plan_contract_room by blast
qed

fun too_large :: "balance_snapshot_service_error \<Rightarrow> bool" where
  "too_large (SnapshotRequestTooLarge _) \<longleftrightarrow> True"
| "too_large _ \<longleftrightarrow> False"

lemma plan_asset_err: "plan_asset n s x = Err e \<Longrightarrow> \<not> too_large e"
proof -
  assume a: "plan_asset n s x = Err e"
  obtain k r where x: "x = (k, r)" by (cases x)
  show ?thesis using a
    by (cases r) (auto simp: x and_then_Err_iff adopt_chain_id_def push_supported_def push_planned_target_def Let_def
        split: if_splits option.splits)
qed

lemma plan_contract_err: "plan_contract n s x = Err e \<Longrightarrow> \<not> too_large e"
proof -
  assume a: "plan_contract n s x = Err e"
  obtain k r where x: "x = (k, r)" by (cases x)
  show ?thesis using a
    by (cases r) (auto simp: x and_then_Err_iff adopt_chain_id_def push_supported_def push_planned_target_def Let_def
        split: if_splits option.splits)
qed

lemma try_fold_err:
  assumes "try_fold f s xs = Err e" "\<And>s x. f s x = Err e \<Longrightarrow> P"
  shows P
  using assms(1)
proof (induction xs arbitrary: s)
  case (Cons x xs)
  then show ?case using assms(2) by (auto simp: and_then_Err_iff)
qed simp

lemma plan_loop_length:
  assumes "try_fold f s (zip ks rs) = Ok s'" "plan_inv s" "length rs = length ks"
    and step: "\<And>s k r s'. plan_inv s \<Longrightarrow> f s (k, r) = Ok s' \<Longrightarrow> plan_inv s'"
      "\<And>s k r s'. plan_inv s \<Longrightarrow> f s (k, r) = Ok s' \<Longrightarrow> \<exists>p. ps_token_plans s' = ps_token_plans s @ [p] \<and> Q k r p"
  shows "plan_inv s' \<and> length (ps_token_plans s') = length (ps_token_plans s) + length ks"
proof -
  obtain ps where "plan_inv s'" "ps_token_plans s' = ps_token_plans s @ ps" "length ps = length ks"
    using plan_loop[OF assms(1-3), where Q = Q] step by blast
  then show ?thesis by simp
qed

lemma within_limits:
  assumes "length (gp_accounts grp) * token_selector_len tokens \<le> MAX_RESOLUTION_ITEMS"
    "length (gp_accounts grp) \<le> MAX_ACCOUNTS" "token_selector_len tokens \<le> MAX_TOKENS"
    and "plan_network_group grp as_of tokens nr rs cs = Err e"
  shows "\<not> too_large e"
proof
  assume large: "too_large e"
  let ?n = "gp_network_slug grp" and ?as = "ts_asset_slugs tokens" and ?cs = "ts_contract_addresses tokens"
  let ?s0 = "\<lparr>ps_chain_id = map_option nr_chain_id nr, ps_targets = [], ps_target_indexes = Map.empty,
    ps_token_plans = []\<rparr>"
  have e1: "try_fold (plan_asset ?n) ?s0 (zip ?as rs) \<noteq> Err e"
    using try_fold_err[of "plan_asset ?n" ?s0 "zip ?as rs" e False] plan_asset_err large by blast
  have e2: "try_fold (plan_contract ?n) s (zip ?cs cs) \<noteq> Err e" for s
    using try_fold_err[of "plan_contract ?n" s "zip ?cs cs" e False] plan_contract_err large by blast
  obtain s1 s2 where s: "length rs = length ?as" "length cs = length ?cs"
    "try_fold (plan_asset ?n) ?s0 (zip ?as rs) = Ok s1" "try_fold (plan_contract ?n) s1 (zip ?cs cs) = Ok s2"
    "length (gp_accounts grp) > BIGWIG_MAX_ACCOUNTS \<or> length (ps_targets s2) > BIGWIG_MAX_TARGETS \<or>
       length (gp_accounts grp) * length (ps_targets s2) > BIGWIG_MAX_ITEMS"
    using assms(4) large e1 e2
    by (auto simp: plan_network_group_def and_then_Err_iff Let_def split: if_splits)
  have i0: "plan_inv ?s0" by (simp add: plan_inv_def fun_eq_iff)
  have p1: "plan_inv s1 \<and> length (ps_token_plans s1) = 0 + length ?as"
    using plan_loop_length[OF s(3) i0 s(1) plan_asset_Ok] by simp
  have "length (ps_token_plans s2) = token_selector_len tokens"
    using plan_loop_length[OF s(4) _ s(2) plan_contract_Ok] p1 by (simp add: token_selector_len_def)
  then have t: "length (ps_targets s2) \<le> token_selector_len tokens"
    using planned_targets_room[OF s(3,4)] by simp
  then have "length (gp_accounts grp) * length (ps_targets s2) \<le> MAX_RESOLUTION_ITEMS"
    using assms(1) by (meson le_trans mult_le_mono2)
  then show False
    using s(5) assms(2,3) t
    by (auto simp: MAX_RESOLUTION_ITEMS_def MAX_ACCOUNTS_def MAX_TOKENS_def
        BIGWIG_MAX_ACCOUNTS_def BIGWIG_MAX_TARGETS_def BIGWIG_MAX_ITEMS_def)
qed

lemma length_accounts_on: "length (accounts_on slug xs) \<le> length xs"
  by (simp add: accounts_on_def)

fun unsupported :: "balance_snapshot_service_error \<Rightarrow> bool" where
  "unsupported (SnapshotUnsupportedNetwork _) \<longleftrightarrow> True"
| "unsupported (SnapshotUnsupportedAsset _ _) \<longleftrightarrow> True"
| "unsupported _ \<longleftrightarrow> False"

lemma plan_network_group_task: "plan_network_group grp as_of tokens nr rs cs \<noteq> Err ExecutionTaskFailed"
proof
  let ?n = "gp_network_slug grp"
  have a: "try_fold (plan_asset ?n) s xs \<noteq> Err ExecutionTaskFailed" for s xs
  proof
    assume "try_fold (plan_asset ?n) s xs = Err ExecutionTaskFailed"
    then show False
    proof (rule try_fold_err)
      fix s x assume "plan_asset ?n s x = Err ExecutionTaskFailed"
      then show False
        by (cases x; cases "snd x") (auto simp: and_then_Err_iff adopt_chain_id_def push_supported_def
          push_planned_target_def Let_def split: if_splits option.splits)
    qed
  qed
  have c: "try_fold (plan_contract ?n) s xs \<noteq> Err ExecutionTaskFailed" for s xs
  proof
    assume "try_fold (plan_contract ?n) s xs = Err ExecutionTaskFailed"
    then show False
    proof (rule try_fold_err)
      fix s x assume "plan_contract ?n s x = Err ExecutionTaskFailed"
      then show False
        by (cases x; cases "snd x") (auto simp: and_then_Err_iff adopt_chain_id_def push_supported_def
          push_planned_target_def Let_def split: if_splits option.splits)
    qed
  qed
  assume "plan_network_group grp as_of tokens nr rs cs = Err ExecutionTaskFailed"
  then show False using a c by (auto simp: plan_network_group_def and_then_Err_iff Let_def split: if_splits)
qed

lemma unsupported_cases: "\<not> plan_fault e \<Longrightarrow> \<not> too_large e \<Longrightarrow> e \<noteq> ExecutionTaskFailed \<Longrightarrow> unsupported e"
  by (cases e) auto

lemma plan_group_unsupported:
  assumes "registry_built r" "try_new as_of accounts quote_currency tokens = Ok request"
    and "\<forall>a\<in>set accounts. to_ascii_lowercase (oa_network_slug a) = oa_network_slug a"
    and "\<forall>x\<in>set (ts_asset_slugs tokens). to_ascii_lowercase x = x"
    and g: "grp \<in> set (group_accounts (gb_accounts request))" and e: "plan_group r request grp = Err e"
  shows "unsupported e"
proof (cases "ts_contract_addresses (gb_tokens request) \<noteq> [] \<and> resolve_evm_network r (gp_network_slug grp) = None")
  case True
  then show ?thesis using e by (auto simp: plan_group_def Let_def)
next
  case False
  note n = try_new_Ok[OF assms(2)]
  let ?t = "gb_tokens request" and ?n = "gp_network_slug grp"
  let ?nr = "if ts_contract_addresses ?t = [] then None else resolve_evm_network r ?n"
  let ?cs = "case ?nr of Some net \<Rightarrow> resolve_erc20_contracts r net (ts_contract_addresses ?t) | None \<Rightarrow> []"
  have p: "plan_network_group grp (gb_as_of request) ?t ?nr (resolve_network r ?n (ts_asset_slugs ?t)) ?cs = Err e"
    using e False by (auto simp: plan_group_def Let_def split: if_splits option.splits)
  have "?n \<in> oa_network_slug ` set accounts" using group_accounts_props(2)[of accounts] g n(1) by (metis image_eqI)
  then have lower: "to_ascii_lowercase ?n = ?n" using assms(3) by (metis imageE)
  have net: "ts_contract_addresses ?t = [] \<and> ?nr = None \<and> ?cs = [] \<or>
      (\<exists>net. resolve_evm_network r ?n = Some net \<and> ?nr = Some net \<and>
         ?cs = resolve_erc20_contracts r net (ts_contract_addresses ?t))"
    using False by auto
  have "\<not> plan_fault e"
    using resolver.planner_no_fault[OF assms(1) lower _ net, of "gb_as_of request"] assms(4) n(5) p by simp
  moreover have acc: "length (gp_accounts grp) \<le> length accounts"
    using group_accounts_props(3)[OF g] length_accounts_on[of ?n "enumerate 0 accounts"] n(1) by simp
  then have "length (gp_accounts grp) * token_selector_len ?t \<le> MAX_RESOLUTION_ITEMS"
    using n(4) by (meson le_trans mult_le_mono1)
  then have "\<not> too_large e" using within_limits[OF _ _ n(3) p] acc n(2) by simp
  ultimately show ?thesis using unsupported_cases plan_network_group_task p by metis
qed

text \<open>
  C13. A command that passes its constructor can be planned: with a registry built from a valid catalog and
  lower-case network and asset slugs, planning fails only because a network or an asset is not
  supported. The gateway limits are never exceeded and none of the planner's internal faults (a
  mismatch of counts, networks or chain ids, two tokens with one target) can occur.
\<close>

theorem accepted_commands_plan:
  assumes "registry_built r" "try_new as_of accounts quote_currency tokens = Ok request"
    and "\<forall>a\<in>set accounts. to_ascii_lowercase (oa_network_slug a) = oa_network_slug a"
    and "\<forall>x\<in>set (ts_asset_slugs tokens). to_ascii_lowercase x = x"
  shows "case plan_groups r request of
      Ok plans \<Rightarrow> (\<forall>p\<in>set plans. length (np_accounts p) \<le> BIGWIG_MAX_ACCOUNTS \<and>
        length (np_targets p) \<le> BIGWIG_MAX_TARGETS)
    | Err e \<Rightarrow> unsupported e"
proof (cases "plan_groups r request")
  case (Ok plans)
  have "length (np_accounts p) \<le> BIGWIG_MAX_ACCOUNTS \<and> length (np_targets p) \<le> BIGWIG_MAX_TARGETS"
    if m: "p \<in> set plans" for p
  proof -
    obtain grp where "plan_group r request grp = Ok p"
      using Ok m by (auto simp: plan_groups_def try_map_Ok_iff list_all2_conv_all_nth in_set_conv_nth)
    then show ?thesis using plan_group_Ok plan_network_group_Ok(6,7) by metis
  qed
  then show ?thesis by (simp add: Ok)
next
  case (Err e)
  then obtain grp where "grp \<in> set (group_accounts (gb_accounts request))" "plan_group r request grp = Err e"
    using try_map_ErrD unfolding plan_groups_def by metis
  then show ?thesis using plan_group_unsupported[OF assms] Err by simp
qed


definition wallet :: onchain_account where
  "wallet = \<lparr>oa_network_slug = ''eth-mainnet'', oa_address = example_address, oa_client_ref = None\<rparr>"

theorem accepted_commands_plan_witness:
  "\<exists>r request. registry_built r \<and>
     try_new Latest [wallet] '' usd '' \<lparr>ts_asset_slugs = [''ethereum''], ts_contract_addresses = [example_address, example_address]\<rparr>
       = Ok request \<and> length (ts_contract_addresses (gb_tokens request)) = 1 \<and>
     (case plan_groups r request of Ok plans \<Rightarrow> \<forall>p\<in>set plans. length (np_targets p) \<le> BIGWIG_MAX_TARGETS | Err e \<Rightarrow> unsupported e)"
proof -
  let ?tokens = "\<lparr>ts_asset_slugs = [''ethereum''], ts_contract_addresses = [example_address, example_address]\<rparr>"
  let ?request = "\<lparr>gb_as_of = Latest, gb_accounts = [wallet],
    gb_tokens = \<lparr>ts_asset_slugs = [''ethereum''], ts_contract_addresses = [example_address]\<rparr>, gb_quote_currency = ''USD''\<rparr>"
  obtain r where r: "from_catalog example_catalog = Some (Ok r)" using from_catalog_valid[OF example_valid] by blast
  then have b: "registry_built r" by (auto simp: registry_built_def)
  have addr: "is_evm_address example_address" "to_ascii_lowercase example_address = example_address" by code_simp+
  have cur: "to_ascii_uppercase (trim '' usd '') = ''USD''" by code_simp
  have t: "try_new Latest [wallet] '' usd '' ?tokens = Ok ?request"
    by (simp add: try_new_def addr cur wallet_def checked_mul_usize_def Let_def MAX_ACCOUNTS_def MAX_TOKENS_def
        MAX_RESOLUTION_ITEMS_def)
  have "case plan_groups r ?request of
      Ok plans \<Rightarrow> (\<forall>p\<in>set plans. length (np_accounts p) \<le> BIGWIG_MAX_ACCOUNTS \<and>
        length (np_targets p) \<le> BIGWIG_MAX_TARGETS)
    | Err e \<Rightarrow> unsupported e"
    by (rule accepted_commands_plan[OF b t]) (simp_all add: wallet_def)
  then show ?thesis using b t
    by (intro exI[of _ r] exI[of _ ?request]) (auto split: result.splits)
qed

end
