(* ===== verification/PriceIndexer.thy ===== *)
theory PriceIndexer
  imports Canonical BalanceResults
begin

text \<open>
  The client of the price service: \<open>src/adapters/price_indexer\<close> (\<open>client.rs\<close>,
  \<open>balance_quote_reader.rs\<close>). The HTTP client, the URL type and the decoding that \<open>serde\<close> derives are
  parameters: \<open>send\<close> performs a request, \<open>from_slice\<close> decodes a body, \<open>envelope_code\<close> reads the code of
  an error body. A URL is its path and its query pairs. The lemmas show which batch answers the
  strict reader accepts, and that an accepted answer quotes exactly the assets asked for.
\<close>

section \<open>Data\<close>

definition PRICE_BATCH_MAX_SLUGS :: nat where
  "PRICE_BATCH_MAX_SLUGS = 50"

definition DEFAULT_QUOTE_CURRENCY :: string where
  "DEFAULT_QUOTE_CURRENCY = ''USD''"

record price_indexer_client =
  pc_base_path :: string
  pc_token :: string
  pc_timeout_ms :: nat

datatype price_indexer_client_init_error = PriceInvalidBaseUrl string

datatype price_status = StatusAvailable | StatusStale | StatusDegraded | StatusUnavailable

fun price_status_as_str :: "price_status \<Rightarrow> string" where
  "price_status_as_str StatusAvailable = ''available''"
| "price_status_as_str StatusStale = ''stale''"
| "price_status_as_str StatusDegraded = ''degraded''"
| "price_status_as_str StatusUnavailable = ''unavailable''"

record latest_asset_price =
  lp_status :: price_status
  lp_price :: "string option"
  lp_quote_currency :: "string option"
  lp_source_type :: "string option"
  lp_confidence_label :: "string option"
  lp_is_fallback :: bool
  lp_is_derived :: bool
  lp_recorded_at :: "string option"
  lp_warning :: "string option"

definition unavailable_price :: latest_asset_price where
  "unavailable_price =
     \<lparr>lp_status = StatusUnavailable, lp_price = None, lp_quote_currency = None, lp_source_type = None,
      lp_confidence_label = None, lp_is_fallback = False, lp_is_derived = False, lp_recorded_at = None,
      lp_warning = None\<rparr>"

datatype price_lookup_error =
    LookupDisabled
  | LookupInvalidSlug
  | LookupUnavailable "nat option" "string option"
  | LookupUnauthorized
  | LookupTimeout
  | LookupTransport
  | LookupMalformedResponse

text \<open>\<open>Available { unit_price, quote_currency, recorded_at }\<close>\<close>

datatype strict_latest_quote =
    StrictAvailable string string string
  | StrictUnavailable
  | StrictUnsupported

datatype strict_price_batch_error =
    StrictInvalidRequest
  | StrictUnauthorized
  | StrictProviderUnavailable "nat option" "string option"
  | StrictTimeout
  | StrictTransport
  | StrictMalformedResponse

record price_signal_request =
  sq_slug :: string
  sq_quote_currency :: string
  sq_window :: string
  sq_granularity :: "string option"

datatype price_signal_error =
    SignalInvalidRequest
  | SignalNotFound
  | SignalUnauthorized
  | SignalUpstreamInternal
  | SignalTimeout
  | SignalTransport
  | SignalMalformedResponse

record price_series_meta =
  sm_expected_bucket_count :: nat
  sm_sample_count :: nat
  sm_carry_forward_bucket_count :: nat
  sm_missing_bucket_count :: nat
  sm_latest_tick_published_at_used :: "string option"

record historical_price_point =
  hp_bucket_start :: string
  hp_price :: "string option"
  hp_status :: string
  hp_source_published_at :: "string option"
  hp_source_type :: "string option"
  hp_is_derived :: "bool option"
  hp_derivation_path :: "string list option"

record historical_price_series =
  hs_asset_id :: string
  hs_quote_currency :: string
  hs_from :: string
  hs_to :: string
  hs_granularity :: string
  hs_points :: "historical_price_point list"
  hs_meta :: price_series_meta

datatype freshness_status = Fresh | Stale | Degraded | FreshnessUnavailable | FreshnessUnknown

record staleness =
  sn_age_seconds :: nat
  sn_is_stale :: bool
  sn_warning_threshold_seconds :: nat

record latest_price_response =
  lr_asset_id :: string
  lr_symbol :: string
  lr_name :: "string option"
  lr_quote_currency :: string
  lr_price :: string
  lr_source_type :: string
  lr_source_priority :: nat
  lr_risk_category :: string
  lr_confidence_score :: nat
  lr_confidence_label :: string
  lr_published_at :: string
  lr_recorded_at :: string
  lr_freshness_status :: freshness_status
  lr_is_fallback :: bool
  lr_is_derived :: bool
  lr_derivation_path :: "string list option"
  lr_staleness :: staleness

record latest_price_batch_request =
  bq_slugs :: "string list"
  bq_quote_currency :: string

datatype price_batch_result_status = BatchFound | BatchUnavailable | BatchUnknown | BatchError | BatchOther

record batch_latest_price_response =
  bp_asset_id :: string
  bp_slug :: string
  bp_quote_currency :: string
  bp_price :: string
  bp_source_type :: string
  bp_published_at :: "string option"
  bp_recorded_at :: string
  bp_freshness_status :: freshness_status
  bp_confidence_label :: "string option"
  bp_is_fallback :: bool
  bp_is_derived :: bool
  bp_staleness :: "staleness option"

record latest_price_batch_result =
  bt_requested_slug :: string
  bt_normalized_slug :: string
  bt_asset_id :: "string option"
  bt_slug :: "string option"
  bt_name :: "string option"
  bt_status :: price_batch_result_status
  bt_freshness_status :: "freshness_status option"
  bt_price :: "batch_latest_price_response option"
  bt_error :: "json option"

record latest_price_batch_response =
  bs_quote_currency :: string
  bs_requested_count :: nat
  bs_unique_count :: nat
  bs_results :: "latest_price_batch_result list"

record latest_asset_price_parts =
  pp_freshness_status :: freshness_status
  pp_price :: string
  pp_quote_currency :: string
  pp_source_type :: string
  pp_confidence_label :: "string option"
  pp_is_fallback :: bool
  pp_is_derived :: bool
  pp_recorded_at :: string

section \<open>Normalization and mapping\<close>

definition priced ::
  "latest_asset_price_parts \<Rightarrow> price_status \<Rightarrow> string option \<Rightarrow> latest_asset_price" where
  "priced parts status warning =
     \<lparr>lp_status = status, lp_price = Some (pp_price parts),
      lp_quote_currency = Some (pp_quote_currency parts), lp_source_type = Some (pp_source_type parts),
      lp_confidence_label = pp_confidence_label parts, lp_is_fallback = pp_is_fallback parts,
      lp_is_derived = pp_is_derived parts, lp_recorded_at = Some (pp_recorded_at parts),
      lp_warning = warning\<rparr>"

definition latest_asset_price_from_parts :: "latest_asset_price_parts \<Rightarrow> latest_asset_price" where
  "latest_asset_price_from_parts parts =
     (case pp_freshness_status parts of
        Fresh \<Rightarrow> priced parts StatusAvailable None
      | Stale \<Rightarrow> priced parts StatusStale (Some ''Price may be stale.'')
      | Degraded \<Rightarrow> priced parts StatusDegraded (Some ''Price quality is degraded.'')
      | FreshnessUnavailable \<Rightarrow> unavailable_price
      | FreshnessUnknown \<Rightarrow> unavailable_price)"

definition price_of_latest :: "latest_price_response \<Rightarrow> latest_asset_price" where
  "price_of_latest response = latest_asset_price_from_parts
     \<lparr>pp_freshness_status = lr_freshness_status response, pp_price = lr_price response,
      pp_quote_currency = lr_quote_currency response, pp_source_type = lr_source_type response,
      pp_confidence_label = Some (lr_confidence_label response), pp_is_fallback = lr_is_fallback response,
      pp_is_derived = lr_is_derived response, pp_recorded_at = lr_recorded_at response\<rparr>"

definition price_of_batch :: "batch_latest_price_response \<Rightarrow> latest_asset_price" where
  "price_of_batch response = latest_asset_price_from_parts
     \<lparr>pp_freshness_status = bp_freshness_status response, pp_price = bp_price response,
      pp_quote_currency = bp_quote_currency response, pp_source_type = bp_source_type response,
      pp_confidence_label = bp_confidence_label response, pp_is_fallback = bp_is_fallback response,
      pp_is_derived = bp_is_derived response, pp_recorded_at = bp_recorded_at response\<rparr>"

fun normalize_loop :: "string set \<Rightarrow> string list \<Rightarrow> string list" where
  "normalize_loop seen [] = []"
| "normalize_loop seen (slug # slugs) =
     (let normalized_slug = to_ascii_lowercase (trim slug) in
      if normalized_slug \<noteq> [] \<and> normalized_slug \<notin> seen
      then normalized_slug # normalize_loop (insert normalized_slug seen) slugs
      else normalize_loop seen slugs)"

definition normalize_slugs :: "string list \<Rightarrow> string list" where
  "normalize_slugs slugs = normalize_loop {} slugs"

definition normalize_quote_currency :: "string \<Rightarrow> string" where
  "normalize_quote_currency quote_currency =
     (let normalized = to_ascii_uppercase (trim quote_currency) in
      if normalized = [] then DEFAULT_QUOTE_CURRENCY else normalized)"

definition batch_entry :: "latest_price_batch_result \<Rightarrow> (string \<times> latest_asset_price) option" where
  "batch_entry result =
     (let normalized_slug = to_ascii_lowercase (trim (bt_normalized_slug result)) in
      if normalized_slug = [] then None
      else Some (normalized_slug,
        case (bt_status result, bt_price result) of
          (BatchFound, Some price) \<Rightarrow> price_of_batch price
        | _ \<Rightarrow> unavailable_price))"

text \<open>\<open>collect\<close> and \<open>extend\<close> of a hash map: the last entry of a key wins.\<close>

definition extend_map :: "('k \<Rightarrow> 'v option) \<Rightarrow> ('k \<times> 'v) list \<Rightarrow> 'k \<Rightarrow> 'v option" where
  "extend_map m entries = foldl (\<lambda>m (k, v). m(k \<mapsto> v)) m entries"

definition map_latest_price_batch_response ::
  "latest_price_batch_response \<Rightarrow> string \<Rightarrow> latest_asset_price option" where
  "map_latest_price_batch_response response =
     extend_map Map.empty (List.map_filter batch_entry (bs_results response))"

fun price_map_reqwest_error :: "reqwest_error \<Rightarrow> price_lookup_error" where
  "price_map_reqwest_error IsTimeout = LookupTimeout"
| "price_map_reqwest_error OtherFailure = LookupTransport"

fun map_strict_reqwest_error :: "reqwest_error \<Rightarrow> strict_price_batch_error" where
  "map_strict_reqwest_error IsTimeout = StrictTimeout"
| "map_strict_reqwest_error OtherFailure = StrictTransport"

fun map_signal_reqwest_error :: "reqwest_error \<Rightarrow> price_signal_error" where
  "map_signal_reqwest_error IsTimeout = SignalTimeout"
| "map_signal_reqwest_error OtherFailure = SignalTransport"

definition map_strict_error_response ::
  "(string \<Rightarrow> string option) \<Rightarrow> nat \<Rightarrow> string \<Rightarrow> strict_price_batch_error" where
  "map_strict_error_response envelope_code status body =
     (if status = 400 then StrictInvalidRequest
      else if status = 401 then StrictUnauthorized
      else StrictProviderUnavailable (Some status) (envelope_code body))"

definition price_map_error_response ::
  "(string \<Rightarrow> string option) \<Rightarrow> nat \<Rightarrow> string \<Rightarrow> price_lookup_error" where
  "price_map_error_response envelope_code status body =
     (if status = 400 then LookupInvalidSlug
      else if status = 401 then LookupUnauthorized
      else LookupUnavailable (Some status) (envelope_code body))"

definition map_signal_error_response ::
  "(string \<Rightarrow> string option) \<Rightarrow> nat \<Rightarrow> string \<Rightarrow> price_signal_error" where
  "map_signal_error_response envelope_code status body =
     (case envelope_code body of
        None \<Rightarrow> SignalMalformedResponse
      | Some code \<Rightarrow>
          if status = 400 \<and> code = ''INVALID_REQUEST'' then SignalInvalidRequest
          else if status = 404 \<and> code = ''NOT_FOUND'' then SignalNotFound
          else if status = 401 \<and> code = ''UNAUTHORIZED'' then SignalUnauthorized
          else if status = 500 \<and> code = ''INTERNAL_ERROR'' then SignalUpstreamInternal
          else SignalMalformedResponse)"

section \<open>The strict batch\<close>

definition strict_found ::
  "string \<Rightarrow> string \<Rightarrow> latest_price_batch_result \<Rightarrow> (strict_latest_quote, strict_price_batch_error) result" where
  "strict_found quote_currency normalized_slug result =
     and_then (ok_or (bt_price result) StrictMalformedResponse) (\<lambda>price.
     and_then (ok_or (bt_freshness_status result) StrictMalformedResponse) (\<lambda>outer_freshness.
     if bt_error result \<noteq> None
        \<or> (\<exists>slug \<in> set_option (bt_slug result). to_ascii_lowercase (trim slug) \<noteq> normalized_slug)
        \<or> to_ascii_lowercase (trim (bp_slug price)) \<noteq> normalized_slug
        \<or> to_ascii_uppercase (trim (bp_quote_currency price)) \<noteq> quote_currency
        \<or> trim (bp_price price) = []
        \<or> trim (bp_recorded_at price) = []
        \<or> outer_freshness \<noteq> bp_freshness_status price
        \<or> bp_freshness_status price \<notin> {Fresh, Stale, Degraded}
     then Err StrictMalformedResponse
     else Ok (StrictAvailable (bp_price price) (bp_quote_currency price) (bp_recorded_at price))))"

definition strict_quote ::
  "string \<Rightarrow> string \<Rightarrow> latest_price_batch_result \<Rightarrow> (strict_latest_quote, strict_price_batch_error) result" where
  "strict_quote quote_currency normalized_slug result =
     (case bt_status result of
        BatchFound \<Rightarrow> strict_found quote_currency normalized_slug result
      | BatchUnavailable \<Rightarrow>
          if bt_price result \<noteq> None \<or> bt_error result \<noteq> None
             \<or> bt_freshness_status result \<notin> {None, Some FreshnessUnavailable}
          then Err StrictMalformedResponse else Ok StrictUnavailable
      | BatchUnknown \<Rightarrow>
          if bt_price result \<noteq> None then Err StrictMalformedResponse else Ok StrictUnsupported
      | BatchError \<Rightarrow>
          if bt_price result \<noteq> None then Err StrictMalformedResponse else Ok StrictUnavailable
      | BatchOther \<Rightarrow> Err StrictMalformedResponse)"

text \<open>One turn of the loop; the hash map of quotes is a map with its finite list of keys.\<close>

definition strict_step ::
  "string set \<Rightarrow> string \<Rightarrow> (string \<Rightarrow> strict_latest_quote option) \<Rightarrow> latest_price_batch_result \<Rightarrow>
   (string \<Rightarrow> strict_latest_quote option, strict_price_batch_error) result" where
  "strict_step requested quote_currency quotes result =
     (let requested_slug = to_ascii_lowercase (trim (bt_requested_slug result));
          normalized_slug = to_ascii_lowercase (trim (bt_normalized_slug result)) in
      if requested_slug \<noteq> normalized_slug \<or> normalized_slug \<notin> requested \<or> quotes normalized_slug \<noteq> None
      then Err StrictMalformedResponse
      else and_then (strict_quote quote_currency normalized_slug result) (\<lambda>quote.
        Ok (quotes(normalized_slug \<mapsto> quote))))"

definition validate_strict_price_batch ::
  "latest_price_batch_response \<Rightarrow> string list \<Rightarrow> string \<Rightarrow>
   (string \<Rightarrow> strict_latest_quote option, strict_price_batch_error) result" where
  "validate_strict_price_batch response requested_slugs quote_currency =
     (if to_ascii_uppercase (trim (bs_quote_currency response)) \<noteq> quote_currency
         \<or> bs_requested_count response \<noteq> length requested_slugs
         \<or> bs_unique_count response \<noteq> length requested_slugs
         \<or> length (bs_results response) \<noteq> length requested_slugs
      then Err StrictMalformedResponse
      else and_then (try_fold (strict_step (set requested_slugs) quote_currency) Map.empty (bs_results response))
        (\<lambda>quotes. if card (dom quotes) \<noteq> length requested_slugs then Err StrictMalformedResponse else Ok quotes))"

section \<open>Requests\<close>

record price_url =
  pu_path :: string
  pu_query :: "(string \<times> string) list"

definition price_client_new ::
  "(string \<Rightarrow> (string, string) result) \<Rightarrow> string \<Rightarrow> string \<Rightarrow> nat \<Rightarrow>
   (price_indexer_client, price_indexer_client_init_error) result" where
  "price_client_new url_parse base_url token timeout_ms =
     and_then (map_err PriceInvalidBaseUrl (url_parse base_url)) (\<lambda>base_path.
     Ok \<lparr>pc_base_path = base_path, pc_token = token, pc_timeout_ms = timeout_ms\<rparr>)"

definition endpoint :: "price_indexer_client \<Rightarrow> string \<Rightarrow> string" where
  "endpoint client path = trim_end_matches CHR ''/'' (pc_base_path client) @ path"

definition latest_price_url :: "price_indexer_client \<Rightarrow> string \<Rightarrow> string \<Rightarrow> price_url" where
  "latest_price_url client slug quote_currency =
     \<lparr>pu_path = endpoint client ''/prices/latest'',
      pu_query = [(''slug'', slug), (''quoteCurrency'', quote_currency)]\<rparr>"

definition latest_price_batch_url :: "price_indexer_client \<Rightarrow> price_url" where
  "latest_price_batch_url client = \<lparr>pu_path = endpoint client ''/prices/latest/batch'', pu_query = []\<rparr>"

definition historical_price_series_url ::
  "price_indexer_client \<Rightarrow> string \<Rightarrow> string \<Rightarrow> string \<Rightarrow> string \<Rightarrow> price_url" where
  "historical_price_series_url client slug quote_currency since to =
     \<lparr>pu_path = endpoint client ''/prices/series'',
      pu_query = [(''slug'', slug), (''quoteCurrency'', quote_currency), (''from'', since), (''to'', to),
                  (''granularity'', ''1d'')]\<rparr>"

definition price_signal_url ::
  "price_indexer_client \<Rightarrow> string \<Rightarrow> price_signal_request \<Rightarrow> (price_url, price_signal_error) result" where
  "price_signal_url client endpoint_path request =
     (let slug = trim (sq_slug request); quote_currency = trim (sq_quote_currency request);
          window = trim (sq_window request); granularity = map_option trim (sq_granularity request) in
      if slug = [] \<or> quote_currency = [] \<or> window = [] then Err SignalInvalidRequest
      else
        let query = [(''slug'', slug), (''quoteCurrency'', quote_currency), (''window'', window)] in
        case granularity of
          None \<Rightarrow> Ok \<lparr>pu_path = endpoint client endpoint_path, pu_query = query\<rparr>
        | Some g \<Rightarrow>
            if g = [] then Err SignalInvalidRequest
            else Ok \<lparr>pu_path = endpoint client endpoint_path, pu_query = query @ [(''granularity'', g)]\<rparr>)"

definition price_stats_url :: "price_indexer_client \<Rightarrow> price_signal_request \<Rightarrow> (price_url, price_signal_error) result" where
  "price_stats_url client request = price_signal_url client ''/prices/stats'' request"

definition price_trend_url :: "price_indexer_client \<Rightarrow> price_signal_request \<Rightarrow> (price_url, price_signal_error) result" where
  "price_trend_url client request = price_signal_url client ''/prices/trend'' request"

definition price_series_url :: "price_indexer_client \<Rightarrow> price_signal_request \<Rightarrow> (price_url, price_signal_error) result" where
  "price_series_url client request = price_signal_url client ''/prices/series'' request"

section \<open>Operations\<close>

type_synonym get_transport = "price_url \<Rightarrow> (http_response, reqwest_error) result"
type_synonym post_transport = "price_url \<Rightarrow> latest_price_batch_request \<Rightarrow> (http_response, reqwest_error) result"

definition latest_by_slug ::
  "price_indexer_client \<Rightarrow> get_transport \<Rightarrow> (string \<Rightarrow> latest_price_response option) \<Rightarrow>
   (string \<Rightarrow> string option) \<Rightarrow> string \<Rightarrow> string \<Rightarrow> (latest_asset_price, price_lookup_error) result" where
  "latest_by_slug client send from_slice envelope_code slug quote_currency =
     (let slug = trim slug in
      if slug = [] then Err LookupInvalidSlug
      else
        and_then (map_err price_map_reqwest_error
          (send (latest_price_url client slug (normalize_quote_currency quote_currency)))) (\<lambda>response.
        and_then (map_err price_map_reqwest_error (hr_body response)) (\<lambda>body.
        if is_success (hr_status response)
        then and_then (ok_or (from_slice body) LookupMalformedResponse) (\<lambda>r. Ok (price_of_latest r))
        else Err (price_map_error_response envelope_code (hr_status response) body))))"

definition latest_by_slug_chunk ::
  "price_indexer_client \<Rightarrow> post_transport \<Rightarrow> (string \<Rightarrow> latest_price_batch_response option) \<Rightarrow>
   (string \<Rightarrow> string option) \<Rightarrow> string list \<Rightarrow> string \<Rightarrow>
   (string \<Rightarrow> latest_asset_price option, price_lookup_error) result" where
  "latest_by_slug_chunk client send from_slice envelope_code slugs quote_currency =
     (if slugs = [] then Ok Map.empty
      else
        and_then (map_err price_map_reqwest_error
          (send (latest_price_batch_url client) \<lparr>bq_slugs = slugs, bq_quote_currency = quote_currency\<rparr>)) (\<lambda>response.
        and_then (map_err price_map_reqwest_error (hr_body response)) (\<lambda>body.
        if is_success (hr_status response)
        then and_then (ok_or (from_slice body) LookupMalformedResponse) (\<lambda>r.
          Ok (map_latest_price_batch_response r))
        else Err (price_map_error_response envelope_code (hr_status response) body))))"

definition latest_by_slugs ::
  "price_indexer_client \<Rightarrow> post_transport \<Rightarrow> (string \<Rightarrow> latest_price_batch_response option) \<Rightarrow>
   (string \<Rightarrow> string option) \<Rightarrow> string list \<Rightarrow> string \<Rightarrow> string \<Rightarrow> latest_asset_price option" where
  "latest_by_slugs client send from_slice envelope_code slugs quote_currency =
     (let normalized_slugs = normalize_slugs slugs;
          quote_currency = normalize_quote_currency quote_currency;
          prices = extend_map Map.empty (map (\<lambda>slug. (slug, unavailable_price)) normalized_slugs) in
      foldl (\<lambda>prices chunk.
          case latest_by_slug_chunk client send from_slice envelope_code chunk quote_currency of
            Ok chunk_prices \<Rightarrow> prices ++ chunk_prices
          | Err _ \<Rightarrow> prices)
        prices (chunks PRICE_BATCH_MAX_SLUGS normalized_slugs))"

definition latest_quotes_strict ::
  "price_indexer_client \<Rightarrow> post_transport \<Rightarrow> (string \<Rightarrow> latest_price_batch_response option) \<Rightarrow>
   (string \<Rightarrow> string option) \<Rightarrow> string list \<Rightarrow> string \<Rightarrow>
   (string \<Rightarrow> strict_latest_quote option, strict_price_batch_error) result" where
  "latest_quotes_strict client send from_slice envelope_code slugs quote_currency =
     (let normalized_slugs = normalize_slugs slugs in
      if length normalized_slugs \<noteq> length slugs \<or> normalized_slugs = []
         \<or> length normalized_slugs > PRICE_BATCH_MAX_SLUGS
      then Err StrictInvalidRequest
      else
        let quote_currency = normalize_quote_currency quote_currency in
        and_then (map_err map_strict_reqwest_error
          (send (latest_price_batch_url client)
             \<lparr>bq_slugs = normalized_slugs, bq_quote_currency = quote_currency\<rparr>)) (\<lambda>response.
        and_then (map_err map_strict_reqwest_error (hr_body response)) (\<lambda>body.
        if hr_status response \<noteq> 200 then
          (if is_success (hr_status response) then Err StrictMalformedResponse
           else Err (map_strict_error_response envelope_code (hr_status response) body))
        else
          and_then (ok_or (from_slice body) StrictMalformedResponse) (\<lambda>r.
          validate_strict_price_batch r normalized_slugs quote_currency))))"

definition get_signal ::
  "get_transport \<Rightarrow> (string \<Rightarrow> 'p option) \<Rightarrow> (string \<Rightarrow> string option) \<Rightarrow> price_url \<Rightarrow>
   ('p, price_signal_error) result" where
  "get_signal send from_slice envelope_code url =
     and_then (map_err map_signal_reqwest_error (send url)) (\<lambda>response.
     and_then (map_err map_signal_reqwest_error (hr_body response)) (\<lambda>body.
     if is_success (hr_status response) then ok_or (from_slice body) SignalMalformedResponse
     else Err (map_signal_error_response envelope_code (hr_status response) body)))"

definition get_signal_json ::
  "get_transport \<Rightarrow> (string \<Rightarrow> json option) \<Rightarrow> (string \<Rightarrow> string option) \<Rightarrow> price_url \<Rightarrow>
   (json, price_signal_error) result" where
  "get_signal_json send from_slice envelope_code url =
     and_then (map_err map_signal_reqwest_error (send url)) (\<lambda>response.
     and_then (map_err map_signal_reqwest_error (hr_body response)) (\<lambda>body.
     if is_success (hr_status response) then
       and_then (ok_or (from_slice body) SignalMalformedResponse) (\<lambda>v.
       if is_object v then Ok v else Err SignalMalformedResponse)
     else Err (map_signal_error_response envelope_code (hr_status response) body)))"

definition price_stats_raw ::
  "price_indexer_client \<Rightarrow> get_transport \<Rightarrow> (string \<Rightarrow> json option) \<Rightarrow> (string \<Rightarrow> string option) \<Rightarrow>
   price_signal_request \<Rightarrow> (json, price_signal_error) result" where
  "price_stats_raw client send from_slice envelope_code request =
     and_then (price_stats_url client request) (get_signal_json send from_slice envelope_code)"

definition price_trend_raw ::
  "price_indexer_client \<Rightarrow> get_transport \<Rightarrow> (string \<Rightarrow> json option) \<Rightarrow> (string \<Rightarrow> string option) \<Rightarrow>
   price_signal_request \<Rightarrow> (json, price_signal_error) result" where
  "price_trend_raw client send from_slice envelope_code request =
     and_then (price_trend_url client request) (get_signal_json send from_slice envelope_code)"

definition price_series_raw ::
  "price_indexer_client \<Rightarrow> get_transport \<Rightarrow> (string \<Rightarrow> json option) \<Rightarrow> (string \<Rightarrow> string option) \<Rightarrow>
   price_signal_request \<Rightarrow> (json, price_signal_error) result" where
  "price_series_raw client send from_slice envelope_code request =
     and_then (price_series_url client request) (get_signal_json send from_slice envelope_code)"

definition historical_price_series_of ::
  "price_indexer_client \<Rightarrow> get_transport \<Rightarrow> (string \<Rightarrow> historical_price_series option) \<Rightarrow>
   (string \<Rightarrow> string option) \<Rightarrow> string \<Rightarrow> string \<Rightarrow> string \<Rightarrow> string \<Rightarrow>
   (historical_price_series, price_signal_error) result" where
  "historical_price_series_of client send from_slice envelope_code slug quote_currency since to =
     (let slug = trim slug; quote_currency = trim quote_currency in
      if slug = [] \<or> quote_currency = [] \<or> since = [] \<or> to = [] then Err SignalInvalidRequest
      else get_signal send from_slice envelope_code
        (historical_price_series_url client slug quote_currency since to))"

definition create_price_indexer_client ::
  "(string \<Rightarrow> (string, string) result) \<Rightarrow> string option \<Rightarrow> string option \<Rightarrow> nat \<Rightarrow> price_indexer_client option" where
  "create_price_indexer_client url_parse price_indexer_url price_ql_internal_token timeout_ms =
     (case (price_indexer_url, price_ql_internal_token) of
        (Some url, Some token) \<Rightarrow>
          (case price_client_new url_parse url token timeout_ms of Ok client \<Rightarrow> Some client | Err _ \<Rightarrow> None)
      | _ \<Rightarrow> None)"

section \<open>The quote reader of the balance service\<close>

fun quote_resolution_of :: "strict_latest_quote \<Rightarrow> price_quote_resolution" where
  "quote_resolution_of (StrictAvailable unit_price quote_currency recorded_at) =
     PriceAvailable unit_price quote_currency recorded_at"
| "quote_resolution_of StrictUnavailable = PriceUnavailable"
| "quote_resolution_of StrictUnsupported = PriceUnsupported"

fun price_quote_error_of :: "strict_price_batch_error \<Rightarrow> price_quote_error" where
  "price_quote_error_of StrictUnauthorized = QuoteProviderUnavailable"
| "price_quote_error_of (StrictProviderUnavailable _ _) = QuoteProviderUnavailable"
| "price_quote_error_of StrictTimeout = QuoteProviderUnavailable"
| "price_quote_error_of StrictTransport = QuoteProviderUnavailable"
| "price_quote_error_of StrictInvalidRequest = QuoteInternalError"
| "price_quote_error_of StrictMalformedResponse = QuoteInternalError"

definition latest_quotes ::
  "price_indexer_client \<Rightarrow> post_transport \<Rightarrow> (string \<Rightarrow> latest_price_batch_response option) \<Rightarrow>
   (string \<Rightarrow> string option) \<Rightarrow> string list \<Rightarrow> string \<Rightarrow> quotes" where
  "latest_quotes client send from_slice envelope_code pricing_asset_slugs quote_currency =
     (case latest_quotes_strict client send from_slice envelope_code pricing_asset_slugs quote_currency of
        Ok quotes \<Rightarrow> Ok (\<lambda>slug. map_option quote_resolution_of (quotes slug))
      | Err error \<Rightarrow> Err (price_quote_error_of error))"

section \<open>Normalized slugs\<close>

abbreviation norm_slug :: "string \<Rightarrow> string" where
  "norm_slug s \<equiv> to_ascii_lowercase (trim s)"

lemma norm_slug_idem: "norm_slug (norm_slug s) = norm_slug s"
  by (simp add: trim_lower)

lemma normalize_loop_set:
  "set (normalize_loop seen slugs) = norm_slug ` set slugs - insert [] seen"
  by (induction slugs arbitrary: seen) (auto simp: Let_def)

lemma normalize_loop_distinct: "distinct (normalize_loop seen slugs)"
  by (induction slugs arbitrary: seen) (auto simp: Let_def normalize_loop_set)

lemma normalize_slugs_set: "set (normalize_slugs slugs) = norm_slug ` set slugs - {[]}"
  by (simp add: normalize_slugs_def normalize_loop_set)

lemma normalize_slugs_distinct: "distinct (normalize_slugs slugs)"
  by (simp add: normalize_slugs_def normalize_loop_distinct)

lemma normalize_loop_length: "length (normalize_loop seen slugs) \<le> length slugs"
proof (induction slugs arbitrary: seen)
  case (Cons s slugs)
  have "length (normalize_loop seen slugs) \<le> length slugs"
       "length (normalize_loop (insert (norm_slug s) seen) slugs) \<le> length slugs" by (rule Cons.IH)+
  then show ?case by (simp add: Let_def)
qed simp

text \<open>Nothing was dropped: the normalized slugs are the requested ones.\<close>

lemma normalize_loop_full:
  "length (normalize_loop seen slugs) = length slugs \<Longrightarrow> normalize_loop seen slugs = map norm_slug slugs"
proof (induction slugs arbitrary: seen)
  case (Cons s slugs)
  show ?case
  proof (cases "norm_slug s \<noteq> [] \<and> norm_slug s \<notin> seen")
    case True
    then show ?thesis using Cons by (simp add: Let_def)
  next
    case False
    then show ?thesis using Cons.prems normalize_loop_length[of seen slugs] by (auto simp: Let_def)
  qed
qed simp

section \<open>Accepted batches\<close>

definition result_slug :: "latest_price_batch_result \<Rightarrow> string" where
  "result_slug b = norm_slug (bt_normalized_slug b)"

text \<open>The quotes an answer gives, as a relation.\<close>

definition quoted_by :: "string \<Rightarrow> latest_price_batch_result list \<Rightarrow> string \<Rightarrow> strict_latest_quote option" where
  "quoted_by q bs slug =
     (case find (\<lambda>b. result_slug b = slug) bs of
        None \<Rightarrow> None
      | Some b \<Rightarrow> (case strict_quote q slug b of Ok x \<Rightarrow> Some x | Err _ \<Rightarrow> None))"

lemma quoted_by_Cons:
  "quoted_by q (b # bs) s =
     (if result_slug b = s then (case strict_quote q s b of Ok x \<Rightarrow> Some x | Err _ \<Rightarrow> None) else quoted_by q bs s)"
  by (simp add: quoted_by_def)

lemma quoted_by_None: "s \<notin> result_slug ` set bs \<Longrightarrow> quoted_by q bs s = None"
proof -
  assume "s \<notin> result_slug ` set bs"
  then have "find (\<lambda>b. result_slug b = s) bs = None" unfolding find_None_iff by (metis image_eqI)
  then show ?thesis by (simp add: quoted_by_def)
qed

text \<open>A result repeats the asset it was asked for, and its fields agree with its status.\<close>

definition consistent :: "string \<Rightarrow> latest_price_batch_result \<Rightarrow> bool" where
  "consistent q b \<longleftrightarrow> norm_slug (bt_requested_slug b) = result_slug b \<and> is_ok (strict_quote q (result_slug b) b)"

lemma strict_step_Ok:
  "strict_step requested q m b = Ok m' \<longleftrightarrow>
     consistent q b \<and> result_slug b \<in> requested \<and> m (result_slug b) = None \<and>
     (\<exists>x. strict_quote q (result_slug b) b = Ok x \<and> m' = m(result_slug b \<mapsto> x))"
  unfolding strict_step_def Let_def result_slug_def[symmetric] consistent_def by (auto simp: and_then_Ok_iff)

lemma strict_step_cases:
  assumes "consistent q b" "result_slug b \<in> requested" "m (result_slug b) = None"
  obtains x where "strict_quote q (result_slug b) b = Ok x" "strict_step requested q m b = Ok (m(result_slug b \<mapsto> x))"
  using assms by (cases "strict_quote q (result_slug b) b") (auto simp: strict_step_Ok consistent_def)

lemma quoted_step:
  assumes "strict_quote q (result_slug b) b = Ok x" "result_slug b \<notin> result_slug ` set bs"
  shows "(\<lambda>s. case quoted_by q bs s of Some y \<Rightarrow> Some y | None \<Rightarrow> (m(result_slug b \<mapsto> x)) s) =
    (\<lambda>s. case quoted_by q (b # bs) s of Some y \<Rightarrow> Some y | None \<Rightarrow> m s)"
proof
  fix s
  show "(case quoted_by q bs s of Some y \<Rightarrow> Some y | None \<Rightarrow> (m(result_slug b \<mapsto> x)) s) =
    (case quoted_by q (b # bs) s of Some y \<Rightarrow> Some y | None \<Rightarrow> m s)"
    using assms quoted_by_None[OF assms(2), of q]
    by (cases "result_slug b = s") (auto simp: quoted_by_Cons split: option.split)
qed

lemma strict_fold_Ok:
  "try_fold (strict_step requested q) m bs = Ok m' \<longleftrightarrow>
     (\<forall>b\<in>set bs. consistent q b \<and> result_slug b \<in> requested \<and> m (result_slug b) = None) \<and>
     distinct (map result_slug bs) \<and> m' = (\<lambda>s. case quoted_by q bs s of Some x \<Rightarrow> Some x | None \<Rightarrow> m s)"
proof (induction bs arbitrary: m)
  case Nil
  have "(\<lambda>s. case quoted_by q [] s of Some x \<Rightarrow> Some x | None \<Rightarrow> m s) = m" by (simp add: quoted_by_def)
  then show ?case by auto
next
  case (Cons b bs)
  show ?case
  proof (cases "consistent q b \<and> result_slug b \<in> requested \<and> m (result_slug b) = None")
    case True
    then obtain x where x: "strict_quote q (result_slug b) b = Ok x"
      and step: "strict_step requested q m b = Ok (m(result_slug b \<mapsto> x))" by (blast elim: strict_step_cases)
    have fresh: "(\<forall>c\<in>set bs. consistent q c \<and> result_slug c \<in> requested \<and> (m(result_slug b \<mapsto> x)) (result_slug c) = None) \<longleftrightarrow>
        result_slug b \<notin> result_slug ` set bs \<and>
        (\<forall>c\<in>set bs. consistent q c \<and> result_slug c \<in> requested \<and> m (result_slug c) = None)"
      by (auto split: if_splits) (metis image_eqI)
    have "try_fold (strict_step requested q) m (b # bs) = Ok m' \<longleftrightarrow>
        (result_slug b \<notin> result_slug ` set bs \<and>
         (\<forall>c\<in>set bs. consistent q c \<and> result_slug c \<in> requested \<and> m (result_slug c) = None)) \<and>
        distinct (map result_slug bs) \<and>
        m' = (\<lambda>s. case quoted_by q bs s of Some y \<Rightarrow> Some y | None \<Rightarrow> (m(result_slug b \<mapsto> x)) s)"
      unfolding try_fold.simps step and_then.simps Cons.IH fresh ..
    also have "\<dots> \<longleftrightarrow> result_slug b \<notin> result_slug ` set bs \<and>
         (\<forall>c\<in>set bs. consistent q c \<and> result_slug c \<in> requested \<and> m (result_slug c) = None) \<and>
        distinct (map result_slug bs) \<and>
        m' = (\<lambda>s. case quoted_by q (b # bs) s of Some y \<Rightarrow> Some y | None \<Rightarrow> m s)"
      using quoted_step[OF x] by metis
    finally show ?thesis using True by auto
  next
    case False
    then have "\<not> (\<exists>m'. strict_step requested q m b = Ok m')" by (auto simp: strict_step_Ok)
    then obtain e where "strict_step requested q m b = Err e" by (cases "strict_step requested q m b") auto
    then show ?thesis using False by auto
  qed
qed

lemma quoted_by_dom:
  assumes "\<forall>b\<in>set bs. consistent q b"
  shows "dom (quoted_by q bs) = result_slug ` set bs"
proof (intro set_eqI iffI)
  fix s
  assume "s \<in> dom (quoted_by q bs)"
  then have "quoted_by q bs s \<noteq> None" by blast
  then show "s \<in> result_slug ` set bs" by (metis quoted_by_None)
next
  fix s
  assume "s \<in> result_slug ` set bs"
  then obtain b where "b \<in> set bs" "result_slug b = s" by blast
  then obtain c where c: "find (\<lambda>b. result_slug b = s) bs = Some c"
    by (cases "find (\<lambda>b. result_slug b = s) bs") (auto simp: find_None_iff)
  then have "c \<in> set bs" "result_slug c = s" by (auto simp: find_Some_iff)
  then have "is_ok (strict_quote q s c)" using assms by (auto simp: consistent_def)
  then show "s \<in> dom (quoted_by q bs)" using c by (cases "strict_quote q s c") (auto simp: quoted_by_def)
qed

lemma quoted_byD:
  assumes "quoted_by q bs s = Some x"
  obtains b where "b \<in> set bs" "result_slug b = s" "strict_quote q s b = Ok x"
proof -
  from assms obtain b where b: "find (\<lambda>b. result_slug b = s) bs = Some b" "strict_quote q s b = Ok x"
    by (auto simp: quoted_by_def split: option.splits result.splits)
  then have "b \<in> set bs" "result_slug b = s" by (auto simp: find_Some_iff)
  then show thesis using b(2) that by blast
qed

lemma strict_fold_empty:
  "try_fold (strict_step (set slugs) q) Map.empty bs = Ok m \<longleftrightarrow>
     (\<forall>b\<in>set bs. consistent q b) \<and>
     result_slug ` set bs \<subseteq> set slugs \<and> distinct (map result_slug bs) \<and> m = quoted_by q bs"
proof -
  have eq: "(\<lambda>s. case quoted_by q bs s of Some x \<Rightarrow> Some x | None \<Rightarrow> None) = quoted_by q bs"
    by (rule ext) (simp split: option.split)
  show ?thesis unfolding strict_fold_Ok eq by auto
qed

text \<open>As many results as distinct requested assets, each for another one of them, are a permutation.\<close>

lemma permutation_iff:
  assumes "distinct ys"
  shows "length xs = length ys \<and> set xs \<subseteq> set ys \<and> distinct xs \<longleftrightarrow> mset xs = mset ys"
proof
  assume a: "length xs = length ys \<and> set xs \<subseteq> set ys \<and> distinct xs"
  then have "set xs = set ys" using assms by (intro card_subset_eq) (auto simp: distinct_card)
  then show "mset xs = mset ys" using a assms set_eq_iff_mset_eq_distinct by blast
next
  assume "mset xs = mset ys"
  then show "length xs = length ys \<and> set xs \<subseteq> set ys \<and> distinct xs"
    using assms mset_eq_setD mset_eq_length mset_eq_imp_distinct_iff by blast
qed

lemma validate_strict_iff:
  assumes "distinct slugs"
  shows "validate_strict_price_batch r slugs q = Ok quotes \<longleftrightarrow>
    to_ascii_uppercase (trim (bs_quote_currency r)) = q \<and>
    bs_requested_count r = length slugs \<and> bs_unique_count r = length slugs \<and>
    mset (map result_slug (bs_results r)) = mset slugs \<and>
    list_all (consistent q) (bs_results r) \<and>
    quotes = quoted_by q (bs_results r)"
proof -
  let ?bs = "bs_results r"
  let ?good = "\<forall>b\<in>set ?bs. consistent q b"
  have perm: "length ?bs = length slugs \<and> result_slug ` set ?bs \<subseteq> set slugs \<and> distinct (map result_slug ?bs) \<longleftrightarrow>
      mset (map result_slug ?bs) = mset slugs"
    using permutation_iff[OF assms, of "map result_slug ?bs"] by simp
  have count: "card (dom (quoted_by q ?bs)) = length slugs" if "?good" "mset (map result_slug ?bs) = mset slugs"
    using that quoted_by_dom[of ?bs q] mset_eq_setD[OF that(2)] distinct_card[OF assms] by auto
  have run: "validate_strict_price_batch r slugs q = Ok quotes \<longleftrightarrow>
      to_ascii_uppercase (trim (bs_quote_currency r)) = q \<and> bs_requested_count r = length slugs \<and>
      bs_unique_count r = length slugs \<and> length ?bs = length slugs \<and>
      ?good \<and> result_slug ` set ?bs \<subseteq> set slugs \<and> distinct (map result_slug ?bs) \<and> quotes = quoted_by q ?bs \<and>
      card (dom quotes) = length slugs"
    unfolding validate_strict_price_batch_def guard_Ok and_then_Ok_iff strict_fold_empty
    by (simp only: de_Morgan_disj not_not result.inject) blast
  show ?thesis unfolding run list_all_iff using perm count by blast
qed

lemma validate_strict_Ok:
  assumes "distinct slugs" "validate_strict_price_batch r slugs q = Ok quotes"
  shows "quotes = quoted_by q (bs_results r) \<and> dom quotes = set slugs"
proof -
  from validate_strict_iff[OF assms(1)] assms(2) have
    a: "mset (map result_slug (bs_results r)) = mset slugs" "quotes = quoted_by q (bs_results r)"
    "\<forall>b\<in>set (bs_results r). consistent q b" by (auto simp: list_all_iff)
  show ?thesis using a quoted_by_dom[OF a(3)] mset_eq_setD[of "map result_slug (bs_results r)" slugs] by simp
qed

text \<open>
  What a result of the price service has to say for a quote, written out: a price that was found is for the asset,
  in the requested currency, not blank, dated and of a freshness that the result repeats, and comes without an error;
  an unavailable, an unknown and a failed asset come without a price.
\<close>

inductive states_quote :: "string \<Rightarrow> string \<Rightarrow> latest_price_batch_result \<Rightarrow> strict_latest_quote \<Rightarrow> bool" for q s b where
  found: "bt_status b = BatchFound \<Longrightarrow> bt_error b = None \<Longrightarrow> bt_price b = Some price \<Longrightarrow>
    bt_freshness_status b = Some (bp_freshness_status price) \<Longrightarrow> bp_freshness_status price \<in> {Fresh, Stale, Degraded} \<Longrightarrow>
    bt_slug b = None \<or> map_option norm_slug (bt_slug b) = Some s \<Longrightarrow> norm_slug (bp_slug price) = s \<Longrightarrow>
    to_ascii_uppercase (trim (bp_quote_currency price)) = q \<Longrightarrow> trim (bp_price price) \<noteq> [] \<Longrightarrow> trim (bp_recorded_at price) \<noteq> [] \<Longrightarrow>
    states_quote q s b (StrictAvailable (bp_price price) (bp_quote_currency price) (bp_recorded_at price))"
| unavailable: "bt_status b = BatchUnavailable \<Longrightarrow> bt_price b = None \<Longrightarrow> bt_error b = None \<Longrightarrow>
    bt_freshness_status b = None \<or> bt_freshness_status b = Some FreshnessUnavailable \<Longrightarrow> states_quote q s b StrictUnavailable"
| unknown: "bt_status b = BatchUnknown \<Longrightarrow> bt_price b = None \<Longrightarrow> states_quote q s b StrictUnsupported"
| failed: "bt_status b = BatchError \<Longrightarrow> bt_price b = None \<Longrightarrow> states_quote q s b StrictUnavailable"

lemma strict_quote_iff: "strict_quote q s b = Ok x \<longleftrightarrow> states_quote q s b x"
proof (cases "bt_status b")
  case BatchFound
  then show ?thesis
    unfolding strict_quote_def strict_found_def states_quote.simps
    by (cases "bt_slug b") (auto simp: and_then_Ok_iff ok_or_Ok_iff)
qed (auto simp: strict_quote_def states_quote.simps)

lemma quoted_by_result:
  assumes "distinct (map result_slug bs)" "b \<in> set bs"
  shows "quoted_by q bs (result_slug b) = (case strict_quote q (result_slug b) b of Ok x \<Rightarrow> Some x | Err _ \<Rightarrow> None)"
  using assms
proof (induction bs)
  case (Cons c bs)
  then show ?case by (cases "c = b") (auto simp: quoted_by_Cons)
qed simp

text \<open>
  C30. \<open>validate_strict_price_batch\<close> accepts an answer exactly when it is in the requested currency, both
  counts are the number of requested assets, its results are a permutation of the requested assets,
  and every result repeats the asset it was asked for and states a quote: a price that was found is in the requested
  currency, not blank, dated and of a known freshness. The quotes are then those that the results state, one for
  each requested asset and none besides. In particular the final comparison of the number of quotes never fails.
\<close>

theorem strict_batch_exact:
  assumes "distinct slugs"
  shows "validate_strict_price_batch r slugs q = Ok quotes \<longleftrightarrow>
    to_ascii_uppercase (trim (bs_quote_currency r)) = q \<and>
    bs_requested_count r = length slugs \<and> bs_unique_count r = length slugs \<and>
    mset (map result_slug (bs_results r)) = mset slugs \<and> dom quotes = set slugs \<and>
    (\<forall>b\<in>set (bs_results r). norm_slug (bt_requested_slug b) = result_slug b \<and>
       (\<exists>x. quotes (result_slug b) = Some x \<and> states_quote q (result_slug b) b x))"
    (is "?run \<longleftrightarrow> ?head \<and> ?requested \<and> ?unique \<and> ?perm \<and> ?dom \<and> ?stated")
proof -
  let ?bs = "bs_results r"
  have "list_all (consistent q) ?bs \<and> quotes = quoted_by q ?bs \<longleftrightarrow> ?dom \<and> ?stated" if perm: ?perm
  proof -
    have d: "distinct (map result_slug ?bs)" "result_slug ` set ?bs = set slugs"
      using perm assms mset_eq_imp_distinct_iff mset_eq_setD by (metis, metis list.set_map)
    note q = quoted_by_result[OF d(1)]
    show ?thesis
    proof
      assume a: "list_all (consistent q) ?bs \<and> quotes = quoted_by q ?bs"
      then have "?stated" using q by (fastforce simp: list_all_iff consistent_def is_ok_iff strict_quote_iff[symmetric])
      moreover have ?dom using quoted_by_dom[of ?bs q] a d(2) by (simp add: list_all_iff)
      ultimately show "?dom \<and> ?stated" by blast
    next
      assume a: "?dom \<and> ?stated"
      then have "list_all (consistent q) ?bs"
        by (fastforce simp: list_all_iff consistent_def is_ok_iff strict_quote_iff)
      moreover have "quotes t = quoted_by q ?bs t" for t
      proof (cases "t \<in> set slugs")
        case True
        then obtain b where b: "b \<in> set ?bs" "t = result_slug b" using d(2) by blast
        then obtain x where "quotes t = Some x" "strict_quote q t b = Ok x" using a by (auto simp: strict_quote_iff)
        then show ?thesis using q[OF b(1), of q] b(2) by simp
      next
        case False
        then have "quotes t = None" using a by blast
        moreover have "quoted_by q ?bs t = None" using False d(2) quoted_by_None by blast
        ultimately show ?thesis by simp
      qed
      ultimately show "list_all (consistent q) ?bs \<and> quotes = quoted_by q ?bs" by blast
    qed
  qed
  then show ?thesis using validate_strict_iff[OF assms, of r q quotes] by blast
qed

text \<open>Two assets, answered in the other order.\<close>

definition example_batch :: latest_price_batch_response where
  "example_batch = \<lparr>bs_quote_currency = ''usd'', bs_requested_count = 2, bs_unique_count = 2, bs_results =
     [\<lparr>bt_requested_slug = ''usdc'', bt_normalized_slug = ''usdc'', bt_asset_id = None, bt_slug = None, bt_name = None,
       bt_status = BatchUnknown, bt_freshness_status = None, bt_price = None, bt_error = None\<rparr>,
      \<lparr>bt_requested_slug = ''ethereum'', bt_normalized_slug = ''ethereum'', bt_asset_id = None, bt_slug = Some ''ethereum'',
       bt_name = None, bt_status = BatchFound, bt_freshness_status = Some Fresh,
       bt_price = Some \<lparr>bp_asset_id = ''1'', bp_slug = ''ethereum'', bp_quote_currency = ''USD'', bp_price = ''2500'',
         bp_source_type = ''feed'', bp_published_at = None, bp_recorded_at = ''now'', bp_freshness_status = Fresh,
         bp_confidence_label = None, bp_is_fallback = False, bp_is_derived = False, bp_staleness = None\<rparr>,
       bt_error = None\<rparr>]\<rparr>"

theorem strict_batch_exact_witness:
  "\<exists>quotes. validate_strict_price_batch example_batch [''ethereum'', ''usdc''] ''USD'' = Ok quotes \<and>
     quotes ''ethereum'' = Some (StrictAvailable ''2500'' ''USD'' ''now'') \<and> quotes ''usdc'' = Some StrictUnsupported"
proof -
  let ?quotes = "[''ethereum'' \<mapsto> StrictAvailable ''2500'' ''USD'' ''now'', ''usdc'' \<mapsto> StrictUnsupported]"
  have a: "to_ascii_uppercase (trim (bs_quote_currency example_batch)) = ''USD''" by code_simp
  have b: "map result_slug (bs_results example_batch) = [''usdc'', ''ethereum'']" by code_simp
  have t: "to_ascii_uppercase (trim ''USD'') = ''USD''" "trim ''2500'' \<noteq> []" "trim ''now'' \<noteq> []"
    "norm_slug ''ethereum'' = ''ethereum''" "norm_slug ''usdc'' = ''usdc''" by code_simp+
  have "\<forall>b\<in>set (bs_results example_batch). norm_slug (bt_requested_slug b) = result_slug b \<and>
      (\<exists>x. ?quotes (result_slug b) = Some x \<and> states_quote ''USD'' (result_slug b) b x)"
    by (simp add: example_batch_def result_slug_def t states_quote.simps)
  moreover have "distinct [''ethereum'', ''usdc'']" by simp
  ultimately have "validate_strict_price_batch example_batch [''ethereum'', ''usdc''] ''USD'' = Ok ?quotes"
    using strict_batch_exact[of "[''ethereum'', ''usdc'']" example_batch "''USD''" ?quotes] a b
    by (auto simp: example_batch_def)
  then show ?thesis by auto
qed

section \<open>Quotes of balances\<close>

lemma strict_found_Ok:
  "strict_quote q s b = Ok (StrictAvailable p c t) \<Longrightarrow>
     bt_status b = BatchFound \<and> to_ascii_uppercase (trim c) = q \<and> trim p \<noteq> [] \<and> trim t \<noteq> [] \<and>
     (\<exists>price. bt_price b = Some price \<and> bp_price price = p \<and> norm_slug (bp_slug price) = s \<and>
        bp_freshness_status price \<in> {Fresh, Stale, Degraded})"
  by (auto simp: strict_quote_def strict_found_def and_then_Ok_iff ok_or_Ok_iff split: price_batch_result_status.splits if_splits)

text \<open>The answer the price service gave to the batch request for these assets.\<close>

definition batch_answer ::
  "price_indexer_client \<Rightarrow> post_transport \<Rightarrow> (string \<Rightarrow> latest_price_batch_response option) \<Rightarrow> string list \<Rightarrow> string \<Rightarrow>
   latest_price_batch_response \<Rightarrow> bool" where
  "batch_answer client send from_slice slugs currency r \<longleftrightarrow>
     (\<exists>response body. send (latest_price_batch_url client)
          \<lparr>bq_slugs = map norm_slug slugs, bq_quote_currency = normalize_quote_currency currency\<rparr> = Ok response \<and>
        hr_status response = 200 \<and> hr_body response = Ok body \<and> from_slice body = Some r)"

lemma latest_quotes_strict_Ok:
  assumes "latest_quotes_strict client send from_slice code slugs currency = Ok quotes"
  shows "\<exists>r. batch_answer client send from_slice slugs currency r \<and> distinct (map norm_slug slugs) \<and>
    validate_strict_price_batch r (map norm_slug slugs) (normalize_quote_currency currency) = Ok quotes"
proof -
  from assms have l: "length (normalize_slugs slugs) = length slugs"
    by (auto simp: latest_quotes_strict_def Let_def split: if_splits)
  then have n: "normalize_slugs slugs = map norm_slug slugs" by (simp add: normalize_slugs_def normalize_loop_full)
  then have d: "distinct (map norm_slug slugs)" using normalize_slugs_distinct[of slugs] by simp
  from assms obtain response body r where
    "send (latest_price_batch_url client)
       \<lparr>bq_slugs = map norm_slug slugs, bq_quote_currency = normalize_quote_currency currency\<rparr> = Ok response"
    "hr_body response = Ok body" "hr_status response = 200" "from_slice body = Some r"
    "validate_strict_price_batch r (map norm_slug slugs) (normalize_quote_currency currency) = Ok quotes"
    unfolding latest_quotes_strict_def Let_def n guard_Ok and_then_Ok_iff map_err_Ok_iff ok_or_Ok_iff
    by (auto simp: and_then_Ok_iff ok_or_Ok_iff split: if_splits)
  then show ?thesis using d unfolding batch_answer_def by blast
qed

lemma collected_slug:
  assumes "a \<in> set raw" "RawResolved t amount \<in> set (ra_items a)" "rt_pricing_asset_slug t = Some slug"
  shows "norm_slug slug \<in> set (collect_pricing_asset_slugs raw)"
proof -
  have "norm_slug slug \<in> set (item_pricing_slugs (RawResolved t amount))"
    using assms(3) by (simp add: normalize_pricing_asset_slug_def)
  then have "norm_slug slug \<in> set (concat (map (\<lambda>a. concat (map item_pricing_slugs (ra_items a))) raw))"
    using assms(1,2) by (auto intro!: bexI[of _ a] bexI[of _ "RawResolved t amount"])
  then show ?thesis
    using set_keep_unseen[of "\<lambda>s. s" "{}" "concat (map (\<lambda>a. concat (map item_pricing_slugs (ra_items a))) raw)"]
    by (simp add: collect_pricing_asset_slugs_def)
qed

text \<open>
  C15. When the price service answered at all, every resolved balance with a pricing asset finds a quote
  under that asset, and an available quote is in the requested currency, with the price that one result of
  the answer reports for the asset.
\<close>

theorem balance_quotes_complete:
  assumes reader: "sv_price_quotes sv = Some (latest_quotes client send from_slice code)"
    and latest: "gb_as_of request = Latest"
    and quotes: "load_quotes sv request raw = Ok quotes"
    and item: "a \<in> set raw" "RawResolved t amount \<in> set (ra_items a)" "rt_pricing_asset_slug t = Some slug"
  shows "\<exists>r x. batch_answer client send from_slice (collect_pricing_asset_slugs raw) (gb_quote_currency request) r \<and>
    quotes (normalize_pricing_asset_slug slug) = Some x \<and>
    (\<forall>p c ts. x = PriceAvailable p c ts \<longrightarrow>
       to_ascii_uppercase (trim c) = normalize_quote_currency (gb_quote_currency request) \<and> trim p \<noteq> [] \<and> trim ts \<noteq> [] \<and>
       (\<exists>b price. b \<in> set (bs_results r) \<and> result_slug b = norm_slug slug \<and> bt_status b = BatchFound \<and>
          bt_price b = Some price \<and> bp_price price = p \<and> norm_slug (bp_slug price) = norm_slug slug))"
proof -
  let ?slugs = "collect_pricing_asset_slugs raw" and ?q = "normalize_quote_currency (gb_quote_currency request)"
  have s: "norm_slug slug \<in> set ?slugs" using item by (rule collected_slug)
  then have "latest_quotes client send from_slice code ?slugs (gb_quote_currency request) = Ok quotes"
    using latest quotes by (cases "?slugs = []") (simp_all add: load_quotes_def Let_def reader)
  then obtain strict where
    strict: "latest_quotes_strict client send from_slice code ?slugs (gb_quote_currency request) = Ok strict"
    and q: "quotes = (\<lambda>slug. map_option quote_resolution_of (strict slug))"
    by (auto simp: latest_quotes_def split: result.splits)
  from latest_quotes_strict_Ok[OF strict] obtain r where
    r: "batch_answer client send from_slice ?slugs (gb_quote_currency request) r"
    and d: "distinct (map norm_slug ?slugs)"
    and v: "validate_strict_price_batch r (map norm_slug ?slugs) ?q = Ok strict" by blast
  note accepted = validate_strict_Ok[OF d v]
  have "norm_slug slug \<in> set (map norm_slug ?slugs)" using s norm_slug_idem by (metis image_eqI set_map)
  then have "norm_slug slug \<in> dom strict" using accepted by blast
  then obtain x where x: "strict (norm_slug slug) = Some x" by blast
  have "to_ascii_uppercase (trim c) = ?q \<and> trim p \<noteq> [] \<and> trim ts \<noteq> [] \<and>
      (\<exists>b price. b \<in> set (bs_results r) \<and> result_slug b = norm_slug slug \<and> bt_status b = BatchFound \<and>
        bt_price b = Some price \<and> bp_price price = p \<and> norm_slug (bp_slug price) = norm_slug slug)"
    if "quote_resolution_of x = PriceAvailable p c ts" for p c ts
  proof -
    have "x = StrictAvailable p c ts" using that by (cases x) auto
    then have "quoted_by ?q (bs_results r) (norm_slug slug) = Some (StrictAvailable p c ts)" using x accepted by simp
    then show ?thesis by (rule quoted_byD) (use strict_found_Ok in blast)
  qed
  then show ?thesis using r x q by (auto simp: normalize_pricing_asset_slug_def)
qed

text \<open>A service that knows the price of ether answers for one balance in ether.\<close>

definition ether_batch :: latest_price_batch_response where
  "ether_batch = \<lparr>bs_quote_currency = ''USD'', bs_requested_count = 1, bs_unique_count = 1,
     bs_results = tl (bs_results example_batch)\<rparr>"

definition ether_reader :: "string list \<Rightarrow> string \<Rightarrow> quotes" where
  "ether_reader = latest_quotes \<lparr>pc_base_path = ''/'', pc_token = ''t'', pc_timeout_ms = 2000\<rparr>
     (\<lambda>_ _. Ok \<lparr>hr_status = 200, hr_retry_after = None, hr_body = Ok ''body''\<rparr>) (\<lambda>_. Some ether_batch) (\<lambda>_. None)"

lemma ether_quotes: "ether_reader [''ethereum''] ''USD'' =
  Ok (\<lambda>slug. map_option quote_resolution_of (quoted_by ''USD'' (bs_results ether_batch) slug))"
proof -
  have "to_ascii_uppercase (trim (bs_quote_currency ether_batch)) = ''USD''"
    "map result_slug (bs_results ether_batch) = [''ethereum'']" "list_all (consistent ''USD'') (bs_results ether_batch)"
    by code_simp+
  then have "validate_strict_price_batch ether_batch [''ethereum''] ''USD'' = Ok (quoted_by ''USD'' (bs_results ether_batch))"
    using validate_strict_iff[of "[''ethereum'']" ether_batch "''USD''"] by (simp add: ether_batch_def)
  moreover have "normalize_slugs [''ethereum''] = [''ethereum'']" "normalize_quote_currency ''USD'' = ''USD''" by code_simp+
  ultimately show ?thesis
    by (simp add: ether_reader_def latest_quotes_def latest_quotes_strict_def Let_def PRICE_BATCH_MAX_SLUGS_def ok_or_def)
qed

theorem balance_quotes_complete_witness:
  "\<exists>quotes. load_quotes (snapshot_service\<lparr>sv_price_quotes := Some ether_reader\<rparr>) snapshot_request [snapshot_raw] = Ok quotes \<and>
     quotes ''ethereum'' \<noteq> None"
proof -
  let ?sv = "snapshot_service\<lparr>sv_price_quotes := Some ether_reader\<rparr>"
  have c: "collect_pricing_asset_slugs [snapshot_raw] = [''ethereum'']" by code_simp
  then obtain quotes where q: "load_quotes ?sv snapshot_request [snapshot_raw] = Ok quotes"
    using ether_quotes by (simp add: load_quotes_def snapshot_request_def)
  have "sv_price_quotes ?sv = Some (latest_quotes \<lparr>pc_base_path = ''/'', pc_token = ''t'', pc_timeout_ms = 2000\<rparr>
     (\<lambda>_ _. Ok \<lparr>hr_status = 200, hr_retry_after = None, hr_body = Ok ''body''\<rparr>) (\<lambda>_. Some ether_batch) (\<lambda>_. None))"
    by (simp add: ether_reader_def)
  moreover have "gb_as_of snapshot_request = Latest" by (simp add: snapshot_request_def)
  moreover have "snapshot_raw \<in> set [snapshot_raw]" by simp
  moreover have "RawResolved snapshot_target ''1234'' \<in> set (ra_items snapshot_raw)" by (simp add: snapshot_raw_def)
  moreover have "rt_pricing_asset_slug snapshot_target = Some ''ethereum''" by (simp add: snapshot_target_def)
  ultimately have "\<exists>x. quotes (normalize_pricing_asset_slug ''ethereum'') = Some x"
    using balance_quotes_complete[OF _ _ q] by blast
  then show ?thesis using q by auto
qed

end
