(* ===== verification/Simulation.thy ===== *)
theory Simulation
  imports Aave PriceIndexer
begin

text \<open>
  The portfolio simulation (\<open>src/application/portfolio_simulation.rs\<close>): the window of days, the three
  strategies, loading the price series and the Aave income indices, the simulation itself, and the digest over
  its canonical JSON. Parameters: the price client, the archive, the arithmetic of \<open>fastnum\<close> (record \<open>d512\<close>),
  \<open>serde_json::to_string\<close> and the hexadecimal SHA-256 digest. An outcome \<open>None\<close> is a panic of \<open>expect\<close>, of an
  index or of a decimal operation that traps; the block resolver, whose loop might not end, is proved to end in theory \<open>Blocks\<close>.
\<close>

section \<open>Data\<close>

definition REQUEST_SCHEMA_VERSION :: int where
  "REQUEST_SCHEMA_VERSION = 1"

definition ENGINE_VERSION :: string where
  "ENGINE_VERSION = ''v1''"

definition QUOTE_CURRENCY :: string where
  "QUOTE_CURRENCY = ''USD''"

definition MAX_DAYS :: int where
  "MAX_DAYS = 366"

record simulation_command =
  cmd_initial_capital :: string
  cmd_quote_currency :: string
  cmd_start_date :: string
  cmd_end_date :: string
  cmd_strategy_slug :: string

record completed_run =
  run_outcome :: string
  run_strategy_slug :: string
  run_strategy_version :: string
  run_engine_version :: string
  run_input :: json
  run_evidence :: json
  run_result :: json
  run_evidence_digest :: string

datatype strategy = BtcHold | EthHold | AaveUsdcSupply

definition strategy_parse :: "string \<Rightarrow> (strategy, simulation_error) result" where
  "strategy_parse v =
     (let s = to_ascii_lowercase (trim v) in
      if s = ''btc-hold'' then Ok BtcHold
      else if s = ''eth-hold'' then Ok EthHold
      else if s = ''aave-usdc-supply'' then Ok AaveUsdcSupply
      else Err UnsupportedStrategy)"

fun strategy_slug :: "strategy \<Rightarrow> string" where
  "strategy_slug BtcHold = ''btc-hold''"
| "strategy_slug EthHold = ''eth-hold''"
| "strategy_slug AaveUsdcSupply = ''aave-usdc-supply''"

definition strategy_version :: "strategy \<Rightarrow> string" where
  "strategy_version s = ''v1''"

fun price_asset :: "strategy \<Rightarrow> string" where
  "price_asset BtcHold = ''bitcoin''"
| "price_asset EthHold = ''ethereum''"
| "price_asset AaveUsdcSupply = ''usdc''"

fun position_kind :: "strategy \<Rightarrow> string" where
  "position_kind BtcHold = ''spot_asset''"
| "position_kind EthHold = ''spot_asset''"
| "position_kind AaveUsdcSupply = ''aave_usdc_supply''"

record price_observation =
  ob_timestamp :: string
  ob_price :: "string option"
  ob_status :: string
  ob_source_published_at :: "string option"
  ob_source_type :: "string option"
  ob_is_derived :: "bool option"
  ob_derivation_path :: "string list option"

definition observation_from_point :: "string \<Rightarrow> historical_price_point option \<Rightarrow> price_observation" where
  "observation_from_point timestamp point =
     (case point of
        Some p \<Rightarrow> \<lparr>ob_timestamp = timestamp, ob_price = hp_price p, ob_status = hp_status p,
            ob_source_published_at = hp_source_published_at p, ob_source_type = hp_source_type p,
            ob_is_derived = hp_is_derived p, ob_derivation_path = hp_derivation_path p\<rparr>
      | None \<Rightarrow> \<lparr>ob_timestamp = timestamp, ob_price = None, ob_status = ''missing'',
            ob_source_published_at = None, ob_source_type = None, ob_is_derived = None,
            ob_derivation_path = None\<rparr>)"

record aave_index_observation =
  ix_timestamp :: string
  ix_block_number :: string
  ix_block_hash :: string
  ix_block_timestamp :: string
  ix_income_index :: string
  ix_asset_symbol :: string
  ix_underlying_asset_address :: string

section \<open>The window\<close>

record simulation_window =
  sw_start_date :: string
  sw_end_date :: string
  sw_start_day :: int
  sw_days :: int

definition window_parse :: "string \<Rightarrow> string \<Rightarrow> (simulation_window, simulation_error) result" where
  "window_parse start stop =
     and_then (ok_or (sim_parse_date start) InvalidDateRange) (\<lambda>start_day.
     and_then (ok_or (sim_parse_date stop) InvalidDateRange) (\<lambda>end_day.
     let days = end_day - start_day + 1 in
     if \<not> (1 \<le> days \<and> days \<le> MAX_DAYS) then Err InvalidDateRange
     else Ok \<lparr>sw_start_date = start, sw_end_date = stop, sw_start_day = start_day, sw_days = days\<rparr>))"

definition start_timestamp :: "simulation_window \<Rightarrow> string" where
  "start_timestamp w = timestamp_for_day (sw_start_day w)"

definition end_timestamp :: "simulation_window \<Rightarrow> string" where
  "end_timestamp w = timestamp_for_day (sw_start_day w + sw_days w)"

definition window_timestamps :: "simulation_window \<Rightarrow> string list" where
  "window_timestamps w = map (\<lambda>offset. timestamp_for_day (sw_start_day w + offset)) [0..sw_days w]"

section \<open>Decimals\<close>

definition decimal :: "'d d512 \<Rightarrow> string \<Rightarrow> 'd option" where
  "decimal D v = d_from_str D v"

definition show_decimal :: "'d d512 \<Rightarrow> 'd \<Rightarrow> string" where
  "show_decimal D v = canonical (d_to_string D v)"

text \<open>\<open>None\<close> is the panic of \<open>expect("zero is valid")\<close>.\<close>

definition parse_positive_decimal :: "'d d512 \<Rightarrow> string \<Rightarrow> ('d, simulation_error) result option" where
  "parse_positive_decimal D v =
     (if v = [] \<or> list_ex (\<lambda>c. \<not> (is_ascii_digit c \<or> c = CHR ''.'')) v \<or> length (filter (\<lambda>c. c = CHR ''.'') v) > 1
      then Some (Err InvalidInitialCapital)
      else
        case decimal D v of
          None \<Rightarrow> Some (Err InvalidInitialCapital)
        | Some parsed \<Rightarrow> do {
            zero \<leftarrow> d_from_str D ''0'';
            Some (if d_less D zero parsed then Ok parsed else Err InvalidInitialCapital)
          })"

text \<open>A loop whose body may panic.\<close>

fun fold_panic :: "('s \<Rightarrow> 'a \<Rightarrow> 's option) \<Rightarrow> 's \<Rightarrow> 'a list \<Rightarrow> 's option" where
  "fold_panic f s [] = Some s"
| "fold_panic f s (x # xs) = f s x \<bind> (\<lambda>s'. fold_panic f s' xs)"

text \<open>The loop of \<open>max_drawdown\<close> over the values that are present: the peak and the drawdown so far.\<close>

definition drawdown_step :: "'d d512 \<Rightarrow> 'd \<times> 'd \<Rightarrow> 'd \<Rightarrow> ('d \<times> 'd) option" where
  "drawdown_step D s v =
     (let (peak, drawdown) = s;
          peak = (if d_less D peak v then v else peak)
      in do {
        difference \<leftarrow> d_sub D v peak;
        current \<leftarrow> d_div D difference peak;
        Some (peak, if d_less D current drawdown then current else drawdown)
      })"

definition max_drawdown :: "'d d512 \<Rightarrow> 'd option list \<Rightarrow> 'd option" where
  "max_drawdown D vals =
     (case vals of
        [] \<Rightarrow> None
      | v # _ \<Rightarrow> do {
          peak \<leftarrow> v;
          zero \<leftarrow> d_from_str D ''0'';
          s \<leftarrow> fold_panic (drawdown_step D) (peak, zero) (List.map_filter (\<lambda>x. x) vals);
          Some (snd s)
        })"

definition annualized_return :: "'d d512 \<Rightarrow> 'd \<Rightarrow> 'd \<Rightarrow> int \<Rightarrow> 'd option" where
  "annualized_return D final_value initial days = do {
     year \<leftarrow> d_from_str D ''365.2425'';
     days \<leftarrow> d_from_str D (show_int_pad 0 days);
     quotient \<leftarrow> d_div D final_value initial;
     periods \<leftarrow> d_div D year days;
     grown \<leftarrow> d_pow D quotient periods;
     one \<leftarrow> d_from_str D ''1'';
     d_sub D grown one
   }"

section \<open>Canonical JSON\<close>

fun join :: "string \<Rightarrow> string list \<Rightarrow> string" where
  "join sep [] = []"
| "join sep [x] = x"
| "join sep (x # xs) = x @ sep @ join sep xs"

text \<open>The keys of an object are distinct, so that \<open>map[key]\<close> is the value written beside the key.\<close>

fun canonical_json :: "(json \<Rightarrow> string) \<Rightarrow> json \<Rightarrow> string" where
  "canonical_json to_string (JObject entries) =
     ''{'' @ join '','' (map (\<lambda>(k, v). to_string (JString k) @ '':'' @ v)
       (sort_key fst (map (\<lambda>(k, v). (k, canonical_json to_string v)) entries))) @ ''}''"
| "canonical_json to_string (JArray xs) = ''['' @ join '','' (map (canonical_json to_string) xs) @ '']''"
| "canonical_json to_string v = to_string v"

section \<open>The simulation\<close>

abbreviation opt_string :: "string option \<Rightarrow> json" where
  "opt_string x \<equiv> (case x of Some s \<Rightarrow> JString s | None \<Rightarrow> JNull)"

definition strategy_json :: "strategy \<Rightarrow> json" where
  "strategy_json s = JObject [(''slug'', JString (strategy_slug s)), (''version'', JString (strategy_version s))]"

text \<open>The value of the portfolio at one point; \<open>Some None\<close> when the price or the index is absent.\<close>

definition value_at ::
  "'d d512 \<Rightarrow> strategy \<Rightarrow> 'd \<Rightarrow> 'd \<Rightarrow> 'd option \<Rightarrow> aave_index_observation list \<Rightarrow> nat \<times> price_observation \<Rightarrow>
   'd option option" where
  "value_at D strategy initial start_price start_index indexes x =
     (let (offset, point) = x in
      case ob_price point \<bind> decimal D of
        None \<Rightarrow> Some None
      | Some price \<Rightarrow> do {
          product \<leftarrow> d_mul D initial price;
          v \<leftarrow> d_div D product start_price;
          if strategy = AaveUsdcSupply then
            (case (if offset < length indexes then decimal D (ix_income_index (indexes ! offset)) else None) of
               None \<Rightarrow> Some None
             | Some factor \<Rightarrow> do {
                 grown \<leftarrow> d_mul D v factor;
                 index0 \<leftarrow> start_index;
                 w \<leftarrow> d_div D grown index0;
                 Some (Some w)
               })
          else Some (Some v)
        })"

definition incomplete :: "'d option \<Rightarrow> price_observation \<Rightarrow> bool" where
  "incomplete v point \<longleftrightarrow> v = None \<or> contains_str (ob_status point) ''carry'' \<or> ob_status point = ''missing''"

definition snapshot_json ::
  "'d d512 \<Rightarrow> strategy \<Rightarrow> aave_index_observation list \<Rightarrow> nat \<times> price_observation \<Rightarrow> 'd option \<Rightarrow> json" where
  "snapshot_json D strategy indexes x v =
     (let (offset, point) = x in
      JObject [(''timestamp'', JString (ob_timestamp point)),
        (''portfolio'', JObject [(''position_kind'', JString (position_kind strategy)),
                               (''asset_slug'', JString (price_asset strategy))]),
        (''value'', opt_string (map_option (show_decimal D) v)),
        (''quote_currency'', JString QUOTE_CURRENCY),
        (''price_status'', JString (ob_status point)),
        (''income_index'', if offset < length indexes then JString (ix_income_index (indexes ! offset)) else JNull)])"

definition component_json ::
  "'d d512 \<Rightarrow> strategy \<Rightarrow> 'd \<Rightarrow> 'd \<Rightarrow> 'd \<Rightarrow> 'd \<Rightarrow> 'd \<Rightarrow> json option" where
  "component_json D strategy initial start_price final_price final_value absolute =
     (if strategy = AaveUsdcSupply then do {
        product \<leftarrow> d_mul D initial final_price;
        principal_at_final_price \<leftarrow> d_div D product start_price;
        gross \<leftarrow> d_sub D final_value initial;
        yield_component \<leftarrow> d_sub D final_value principal_at_final_price;
        appreciation \<leftarrow> d_sub D principal_at_final_price initial;
        Some (JObject [(''price_appreciation'', JString (show_decimal D appreciation)),
                 (''yield'', JString (show_decimal D yield_component)),
                 (''gross_total'', JString (show_decimal D gross))])
      }
      else
        Some (JObject [(''price_appreciation'', JString (show_decimal D absolute)), (''yield'', JString ''0''),
                 (''gross_total'', JString (show_decimal D absolute))]))"

definition operation_json :: "string \<Rightarrow> string \<Rightarrow> string \<Rightarrow> string \<Rightarrow> string \<Rightarrow> string \<Rightarrow> json" where
  "operation_json timestamp kind from_position to_position amount reason =
     JObject [(''timestamp'', JString timestamp), (''operation_type'', JString kind),
       (''from_position'', JString from_position), (''to_position'', JString to_position),
       (''amount'', JString amount), (''fees'', JString ''unmodeled''), (''reason'', JString reason)]"

definition operations_json :: "'d d512 \<Rightarrow> simulation_window \<Rightarrow> strategy \<Rightarrow> 'd \<Rightarrow> json" where
  "operations_json D window strategy initial =
     (let amount = show_decimal D initial; since = start_timestamp window in
      JArray (if strategy = AaveUsdcSupply then
        [operation_json since ''buy'' ''usd_cash'' ''usdc'' amount ''aave-usdc-supply@v1 initial allocation'',
         operation_json since ''deposit'' ''usdc'' ''aave_usdc_supply'' amount ''aave-usdc-supply@v1 initial allocation'']
      else
        [operation_json since ''buy'' ''usd_cash'' (price_asset strategy) amount
           (strategy_slug strategy @ ''@v1 initial allocation'')]))"

definition report_json ::
  "'d d512 \<Rightarrow> simulation_window \<Rightarrow> strategy \<Rightarrow> 'd \<Rightarrow> 'd \<Rightarrow> 'd \<Rightarrow> 'd \<Rightarrow> bool \<Rightarrow> 'd option \<Rightarrow> 'd option \<Rightarrow> json \<Rightarrow> json list \<Rightarrow> json" where
  "report_json D window strategy initial final_value absolute percent partial annualized drawdown price_component snapshots =
     (JObject [(''status'', JString (if partial then ''partial'' else ''complete'')),
        (''strategy'', strategy_json strategy),
        (''initial_portfolio'', JObject [(''value'', JString (show_decimal D initial)),
                                       (''quote_currency'', JString QUOTE_CURRENCY)]),
        (''final_portfolio'', JObject [(''value'', JString (show_decimal D final_value)),
                                     (''quote_currency'', JString QUOTE_CURRENCY)]),
        (''metrics'', JObject [
          (''initial_value'', JString (show_decimal D initial)),
          (''final_value'', JString (show_decimal D final_value)),
          (''absolute_return'', JString (show_decimal D absolute)),
          (''percentage_return'', JString (show_decimal D percent)),
          (''annualized_return'', opt_string (map_option (show_decimal D) annualized)),
          (''maximum_drawdown'', opt_string (map_option (show_decimal D) drawdown)),
          (''components'', JObject [
            (''capital_gains_and_price_appreciation'', price_component),
            (''staking_rewards'', JString ''unsupported''), (''protocol_rewards'', JString ''unsupported''),
            (''fees'', JString ''not_separately_attributable''), (''transaction_costs'', JString ''unmodeled'')])]),
        (''operations'', operations_json D window strategy initial),
        (''snapshots'', JArray snapshots),
        (''limitations'', JArray [JString ''gross simulated return; transaction costs, gas, separately attributable protocol fees, and reward tokens are not modeled''])])"

text \<open>\<open>None\<close> is a panic; \<open>Some None\<close> and \<open>Some (Some x)\<close> are the two values of the option.\<close>

definition then_some :: "bool \<Rightarrow> 'a option \<Rightarrow> 'a option option" where
  "then_some b x = (if b then map_option Some x else Some None)"

definition simulate ::
  "'d d512 \<Rightarrow> simulation_window \<Rightarrow> strategy \<Rightarrow> 'd \<Rightarrow> price_observation list \<Rightarrow>
   aave_index_observation list option \<Rightarrow> json option" where
  "simulate D window strategy initial prices indexes =
     (let price_of = (\<lambda>p. ob_price p \<bind> decimal D);
          start_price = (if prices = [] then None else price_of (hd prices));
          final_price = (if prices = [] then None else price_of (last prices)) in
      case (start_price, final_price) of
        (Some start_price, Some final_price) \<Rightarrow>
          let indexes = (case indexes of Some xs \<Rightarrow> xs | None \<Rightarrow> []);
              start_index = (if indexes = [] then None else decimal D (ix_income_index (hd indexes))) in
          if strategy = AaveUsdcSupply \<and> start_index = None then
            Some (JObject [(''status'', JString ''unsupported''),
              (''reason'', JString ''required_aave_index_evidence_unavailable''),
              (''metrics'', JNull), (''snapshots'', JArray [])])
          else do {
            vals \<leftarrow> map_panic (value_at D strategy initial start_price start_index indexes) (enumerate 0 prices);
            let partial = list_ex (\<lambda>(v, point). incomplete v point) (zip vals prices);
            let snapshots = map2 (snapshot_json D strategy indexes) (enumerate 0 prices) vals;
            final_value \<leftarrow> last vals;
            absolute \<leftarrow> d_sub D final_value initial;
            percent \<leftarrow> d_div D absolute initial;
            drawdown \<leftarrow> then_some (\<not> partial) (max_drawdown D vals);
            annualized \<leftarrow> then_some (\<not> partial \<and> sw_days window \<ge> 30)
              (annualized_return D final_value initial (sw_days window));
            price_component \<leftarrow> component_json D strategy initial start_price final_price final_value absolute;
            Some (report_json D window strategy initial final_value absolute percent partial annualized drawdown
              price_component snapshots)
          }
      | _ \<Rightarrow>
          Some (JObject [(''status'', JString ''unsupported''),
            (''reason'', JString ''required_start_or_final_price_evidence_unavailable''),
            (''strategy'', strategy_json strategy), (''metrics'', JNull), (''snapshots'', JArray [])]))"

section \<open>The service\<close>

text \<open>\<open>ss_prices\<close> is \<open>historical_price_series\<close> of the price client, \<open>ss_bigwig\<close> is \<open>archive_rpc\<close> of the gateway client.\<close>

record simulation_service =
  ss_prices :: "(string \<Rightarrow> string \<Rightarrow> string \<Rightarrow> string \<Rightarrow> (historical_price_series, price_signal_error) result) option"
  ss_protocols :: verified_protocol_registry
  ss_bigwig :: "archive option"

fun map_price_error :: "price_signal_error \<Rightarrow> simulation_error" where
  "map_price_error SignalMalformedResponse = HistoricalPricesMalformed"
| "map_price_error _ = HistoricalPricesUnavailable"

definition index_point ::
  "(string \<Rightarrow> historical_price_point option) \<Rightarrow> historical_price_point \<Rightarrow>
   (string \<Rightarrow> historical_price_point option, simulation_error) result" where
  "index_point by_timestamp point =
     (if by_timestamp (hp_bucket_start point) \<noteq> None then Err HistoricalPricesMalformed
      else Ok (by_timestamp(hp_bucket_start point \<mapsto> point)))"

definition load_prices ::
  "simulation_service \<Rightarrow> string \<Rightarrow> simulation_window \<Rightarrow> (price_observation list, simulation_error) result" where
  "load_prices sv asset_slug window =
     and_then (ok_or (ss_prices sv) HistoricalPricesUnavailable) (\<lambda>client.
     and_then (map_err map_price_error
       (client asset_slug QUOTE_CURRENCY (start_timestamp window) (end_timestamp window))) (\<lambda>series.
     if to_ascii_uppercase (hs_quote_currency series) \<noteq> QUOTE_CURRENCY \<or> hs_granularity series \<noteq> ''1d''
     then Err HistoricalPricesMalformed
     else if hs_from series \<noteq> start_timestamp window \<or> hs_to series \<noteq> end_timestamp window
     then Err HistoricalPricesMalformed
     else and_then (try_fold index_point Map.empty (hs_points series)) (\<lambda>by_timestamp.
       Ok (map (\<lambda>timestamp. observation_from_point timestamp (by_timestamp timestamp)) (window_timestamps window)))))"

definition observe_index ::
  "archive \<Rightarrow> realized_yield_protocol \<Rightarrow> string \<Rightarrow> block_evidence \<Rightarrow> (aave_index_observation, simulation_error) result" where
  "observe_index rpc protocol timestamp b =
     and_then (map_err (\<lambda>_. AaveEvidenceUnavailable) (income_index_at rpc protocol ''usdc'' (bk_number b))) (\<lambda>index.
     Ok \<lparr>ix_timestamp = timestamp, ix_block_number = show_nat (bk_number b), ix_block_hash = bk_hash b,
         ix_block_timestamp = bk_timestamp b, ix_income_index = io_income_index index,
         ix_asset_symbol = io_asset_symbol index,
         ix_underlying_asset_address = io_underlying_asset_address index\<rparr>)"

definition load_aave_factors ::
  "simulation_service \<Rightarrow> ((nat \<times> block_evidence) list \<Rightarrow> block_evidence list) \<Rightarrow> simulation_window \<Rightarrow>
   (aave_index_observation list, simulation_error) result option" where
  "load_aave_factors sv cache_values window =
     (case ss_bigwig sv of
        None \<Rightarrow> Some (Err AaveEvidenceUnavailable)
      | Some rpc \<Rightarrow>
          (case realized_yield_protocol_of (ss_protocols sv) ''aave-v3'' of
             None \<Rightarrow> Some (Err AaveEvidenceUnavailable)
           | Some protocol \<Rightarrow>
               if rp_adapter_kind protocol \<noteq> ''aave_v3_realized_yield'' then Some (Err AaveEvidenceUnavailable)
               else load_observations rpc cache_values (observe_index rpc protocol) new_resolver
                      (window_timestamps window)))"

text \<open>The derived serialization of the observations.\<close>

definition price_observation_json :: "price_observation \<Rightarrow> json" where
  "price_observation_json p =
     JObject [(''timestamp'', JString (ob_timestamp p)), (''price'', opt_string (ob_price p)),
       (''status'', JString (ob_status p)), (''source_published_at'', opt_string (ob_source_published_at p)),
       (''source_type'', opt_string (ob_source_type p)),
       (''is_derived'', case ob_is_derived p of Some b \<Rightarrow> JBool b | None \<Rightarrow> JNull),
       (''derivation_path'', case ob_derivation_path p of Some xs \<Rightarrow> JArray (map JString xs) | None \<Rightarrow> JNull)]"

definition aave_index_json :: "aave_index_observation \<Rightarrow> json" where
  "aave_index_json x =
     JObject [(''timestamp'', JString (ix_timestamp x)), (''block_number'', JString (ix_block_number x)),
       (''block_hash'', JString (ix_block_hash x)), (''block_timestamp'', JString (ix_block_timestamp x)),
       (''income_index'', JString (ix_income_index x)), (''asset_symbol'', JString (ix_asset_symbol x)),
       (''underlying_asset_address'', JString (ix_underlying_asset_address x))]"

definition input_json :: "'d d512 \<Rightarrow> 'd \<Rightarrow> simulation_window \<Rightarrow> strategy \<Rightarrow> json" where
  "input_json D initial_capital window strategy =
     JObject [(''schema_version'', JInt REQUEST_SCHEMA_VERSION),
       (''initial_capital'', JString (show_decimal D initial_capital)), (''quote_currency'', JString QUOTE_CURRENCY),
       (''start_date'', JString (sw_start_date window)), (''end_date'', JString (sw_end_date window)),
       (''strategy_slug'', JString (strategy_slug strategy))]"

definition evidence_json ::
  "simulation_window \<Rightarrow> strategy \<Rightarrow> price_observation list \<Rightarrow> aave_index_observation list option \<Rightarrow> json" where
  "evidence_json window strategy prices factors =
     JObject ([(''schema_version'', JInt 1),
       (''price_series'', JObject [(''asset_slug'', JString (price_asset strategy)),
          (''quote_currency'', JString QUOTE_CURRENCY), (''from'', JString (start_timestamp window)),
          (''to'', JString (end_timestamp window)), (''points'', JArray (map price_observation_json prices))])] @
       (case factors of Some xs \<Rightarrow> [(''aave_income_indexes'', JArray (map aave_index_json xs))] | None \<Rightarrow> []))"

definition completed ::
  "(json \<Rightarrow> string) \<Rightarrow> (string \<Rightarrow> string) \<Rightarrow> string \<Rightarrow> strategy \<Rightarrow> json \<Rightarrow> json \<Rightarrow> json \<Rightarrow> completed_run" where
  "completed to_string digest outcome strategy input evidence result =
     \<lparr>run_outcome = outcome, run_strategy_slug = strategy_slug strategy,
      run_strategy_version = strategy_version strategy, run_engine_version = ENGINE_VERSION,
      run_input = input, run_evidence = evidence, run_result = result,
      run_evidence_digest = digest (canonical_json to_string
        (JObject [(''input'', input), (''evidence'', evidence), (''result'', result)]))\<rparr>"

definition load_factors ::
  "simulation_service \<Rightarrow> ((nat \<times> block_evidence) list \<Rightarrow> block_evidence list) \<Rightarrow> strategy \<Rightarrow> simulation_window \<Rightarrow>
   (aave_index_observation list option, simulation_error) result option" where
  "load_factors sv cache_values strategy window =
     (if strategy = AaveUsdcSupply
      then map_option (\<lambda>r. and_then r (\<lambda>xs. Ok (Some xs))) (load_aave_factors sv cache_values window)
      else Some (Ok None))"

definition simulation_outcome :: "json \<Rightarrow> string" where
  "simulation_outcome result = (case json_get result ''status'' \<bind> as_str of Some s \<Rightarrow> s | None \<Rightarrow> ''failed'')"

definition run ::
  "'d d512 \<Rightarrow> (json \<Rightarrow> string) \<Rightarrow> (string \<Rightarrow> string) \<Rightarrow> simulation_service \<Rightarrow>
   ((nat \<times> block_evidence) list \<Rightarrow> block_evidence list) \<Rightarrow> simulation_command \<Rightarrow>
   (completed_run, simulation_error) result option" where
  "run D to_string digest sv cache_values command =
     (case parse_positive_decimal D (cmd_initial_capital command) of
        None \<Rightarrow> None
      | Some (Err e) \<Rightarrow> Some (Err e)
      | Some (Ok initial_capital) \<Rightarrow>
        if to_ascii_uppercase (trim (cmd_quote_currency command)) \<noteq> QUOTE_CURRENCY
        then Some (Err UnsupportedSimulationCurrency)
        else
          case and_then (window_parse (cmd_start_date command) (cmd_end_date command)) (\<lambda>window.
               and_then (strategy_parse (cmd_strategy_slug command)) (\<lambda>strategy.
               and_then (load_prices sv (price_asset strategy) window) (\<lambda>prices. Ok (window, strategy, prices)))) of
            Err e \<Rightarrow> Some (Err e)
          | Ok (window, strategy, prices) \<Rightarrow>
              (case load_factors sv cache_values strategy window of
                 None \<Rightarrow> None
               | Some (Err e) \<Rightarrow> Some (Err e)
               | Some (Ok factors) \<Rightarrow> do {
                   result \<leftarrow> simulate D window strategy initial_capital prices factors;
                   Some (Ok (completed to_string digest (simulation_outcome result) strategy
                     (input_json D initial_capital window strategy)
                     (evidence_json window strategy prices factors) result))
                 }))"

fun failure_reason :: "simulation_error \<Rightarrow> string option" where
  "failure_reason HistoricalPricesUnavailable = Some ''historical_price_source_unavailable''"
| "failure_reason HistoricalPricesMalformed = Some ''historical_price_source_malformed''"
| "failure_reason AaveEvidenceUnavailable = Some ''aave_evidence_source_unavailable''"
| "failure_reason _ = None"

text \<open>The outer \<open>None\<close> is a panic, the inner one the answer that nothing is retained.\<close>

definition failed_run ::
  "'d d512 \<Rightarrow> (json \<Rightarrow> string) \<Rightarrow> (string \<Rightarrow> string) \<Rightarrow> simulation_command \<Rightarrow> simulation_error \<Rightarrow>
   completed_run option option" where
  "failed_run D to_string digest command error =
     (case failure_reason error of
        None \<Rightarrow> Some None
      | Some reason \<Rightarrow>
        (case parse_positive_decimal D (cmd_initial_capital command) of
           None \<Rightarrow> None
         | Some (Err _) \<Rightarrow> Some None
         | Some (Ok initial_capital) \<Rightarrow>
           (case (window_parse (cmd_start_date command) (cmd_end_date command),
                  strategy_parse (cmd_strategy_slug command)) of
              (Ok window, Ok strategy) \<Rightarrow>
                if to_ascii_uppercase (trim (cmd_quote_currency command)) \<noteq> QUOTE_CURRENCY then Some None
                else
                  let evidence = JObject [(''schema_version'', JInt 1), (''status'', JString ''failed''),
                        (''reason'', JString reason)];
                      result = JObject [(''status'', JString ''failed''), (''reason'', JString reason),
                        (''strategy'', strategy_json strategy), (''metrics'', JNull), (''operations'', JArray []),
                        (''snapshots'', JArray []),
                        (''limitations'', JArray [JString ''required historical evidence was unavailable; no performance result was calculated''])]
                  in Some (Some (completed to_string digest ''failed'' strategy
                       (input_json D initial_capital window strategy) evidence result))
            | _ \<Rightarrow> Some None)))"

section \<open>The window\<close>

lemma window_parse_Ok:
  assumes "window_parse start stop = Ok w"
  shows "sim_parse_date start = Some (sw_start_day w)" "sim_parse_date stop = Some (sw_start_day w + sw_days w - 1)"
    "1 \<le> sw_days w" "sw_days w \<le> 366" "sw_start_date w = start" "sw_end_date w = stop"
  using assms by (auto simp: window_parse_def and_then_Ok_iff ok_or_Ok_iff Let_def MAX_DAYS_def split: if_splits)

lemma window_timestamps_length: "0 \<le> sw_days w \<Longrightarrow> length (window_timestamps w) = nat (sw_days w) + 1"
  by (simp add: window_timestamps_def)

lemma window_timestamps_nth:
  "int i \<le> sw_days w \<Longrightarrow> window_timestamps w ! i = timestamp_for_day (sw_start_day w + int i)"
  using nth_upto[of 0 i "sw_days w"] by (simp add: window_timestamps_def)

lemma day_parsed:
  assumes "- 719528 \<le> d" "d \<le> 2932896"
  shows "parse_rfc3339_epoch (timestamp_for_day d) = Some (d * 86400)"
  unfolding timestamp_for_day_text using assms by (intro timestamp_for_epoch_parsed) linarith+

text \<open>
  An accepted pair of dates spans 1 to 366 days, and the window has the midnight of every one of its days and of
  the day after, in order: the timestamps are one day apart and each is read back to its instant. The dates are
  those of the years 0 to 9999 that have a next day in that range.
\<close>

theorem window_midnights:
  assumes "window_parse start stop = Ok w" "- 719528 \<le> sw_start_day w" "sw_start_day w + sw_days w \<le> 2932896"
  shows "sim_parse_date start = Some (sw_start_day w) \<and> sim_parse_date stop = Some (sw_start_day w + sw_days w - 1) \<and>
    1 \<le> sw_days w \<and> sw_days w \<le> 366 \<and>
    map parse_rfc3339_epoch (window_timestamps w) = map (\<lambda>i. Some ((sw_start_day w + i) * 86400)) [0..sw_days w] \<and>
    hd (window_timestamps w) = start_timestamp w \<and> last (window_timestamps w) = end_timestamp w"
proof -
  note w = window_parse_Ok[OF assms(1)]
  have "parse_rfc3339_epoch (timestamp_for_day (sw_start_day w + i)) = Some ((sw_start_day w + i) * 86400)"
    if "i \<in> set [0..sw_days w]" for i
    using that assms(2,3) by (intro day_parsed) auto
  then have "map parse_rfc3339_epoch (window_timestamps w) = map (\<lambda>i. Some ((sw_start_day w + i) * 86400)) [0..sw_days w]"
    by (simp add: window_timestamps_def)
  moreover have "hd (window_timestamps w) = start_timestamp w"
    using w(3) by (simp add: window_timestamps_def start_timestamp_def upto_rec1)
  moreover have "last (window_timestamps w) = end_timestamp w"
    using w(3) by (simp add: window_timestamps_def end_timestamp_def upto_rec2)
  ultimately show ?thesis using w by simp
qed

text \<open>The two days up to the end of February of a leap year.\<close>

lemma leap_window:
  "window_parse ''2024-02-28'' ''2024-02-29'' =
     Ok \<lparr>sw_start_date = ''2024-02-28'', sw_end_date = ''2024-02-29'', sw_start_day = 19781, sw_days = 2\<rparr>"
proof -
  have "sim_parse_date ''2024-02-28'' = Some 19781" "sim_parse_date ''2024-02-29'' = Some 19782"
    by (simp_all add: sim_parse_date_def parse_signed_def parse_unsigned_def sim_days_in_month_def
        sim_days_from_civil_def Let_def str_eval)
  then show ?thesis by (simp add: window_parse_def ok_or_def MAX_DAYS_def)
qed

theorem window_midnights_witness:
  "\<exists>w. window_parse ''2024-02-28'' ''2024-02-29'' = Ok w \<and> sw_days w = 2 \<and>
     map parse_rfc3339_epoch (window_timestamps w) = [Some 1709078400, Some 1709164800, Some 1709251200]"
  using window_midnights[OF leap_window] leap_window by (auto simp: upto_rec1)

section \<open>Price evidence\<close>

lemma index_point_new: "m (hp_bucket_start p) = None \<Longrightarrow> index_point m p = Ok (m(hp_bucket_start p \<mapsto> p))"
  by (simp add: index_point_def)

lemma index_points_Ok:
  "try_fold index_point m ps = Ok m' \<longleftrightarrow>
     distinct (map hp_bucket_start ps) \<and> (\<forall>p\<in>set ps. m (hp_bucket_start p) = None) \<and>
     m' = (\<lambda>t. case find (\<lambda>p. hp_bucket_start p = t) ps of Some p \<Rightarrow> Some p | None \<Rightarrow> m t)"
proof (induction ps arbitrary: m)
  case (Cons p ps)
  show ?case
  proof (cases "m (hp_bucket_start p) = None")
    case True
    have fresh: "(\<forall>x\<in>set ps. (m(hp_bucket_start p \<mapsto> p)) (hp_bucket_start x) = None) \<longleftrightarrow>
        hp_bucket_start p \<notin> hp_bucket_start ` set ps \<and> (\<forall>x\<in>set ps. m (hp_bucket_start x) = None)"
      by (auto split: if_splits) (metis image_eqI)
    have val: "(\<lambda>t. case find (\<lambda>p. hp_bucket_start p = t) ps of Some q \<Rightarrow> Some q | None \<Rightarrow> (m(hp_bucket_start p \<mapsto> p)) t) =
        (\<lambda>t. case find (\<lambda>p. hp_bucket_start p = t) (p # ps) of Some q \<Rightarrow> Some q | None \<Rightarrow> m t)"
      if "hp_bucket_start p \<notin> hp_bucket_start ` set ps"
    proof
      fix t
      have "find (\<lambda>q. hp_bucket_start q = hp_bucket_start p) ps = None"
        unfolding find_None_iff using that by (metis image_eqI)
      then show "(case find (\<lambda>p. hp_bucket_start p = t) ps of Some q \<Rightarrow> Some q | None \<Rightarrow> (m(hp_bucket_start p \<mapsto> p)) t) =
        (case find (\<lambda>p. hp_bucket_start p = t) (p # ps) of Some q \<Rightarrow> Some q | None \<Rightarrow> m t)"
        by (cases "hp_bucket_start p = t") (auto split: option.split)
    qed
    have "try_fold index_point m (p # ps) = Ok m' \<longleftrightarrow>
        distinct (map hp_bucket_start ps) \<and>
        (hp_bucket_start p \<notin> hp_bucket_start ` set ps \<and> (\<forall>x\<in>set ps. m (hp_bucket_start x) = None)) \<and>
        m' = (\<lambda>t. case find (\<lambda>p. hp_bucket_start p = t) ps of Some q \<Rightarrow> Some q | None \<Rightarrow> (m(hp_bucket_start p \<mapsto> p)) t)"
      unfolding try_fold.simps index_point_new[of m p, OF True] and_then.simps Cons.IH fresh ..
    also have "\<dots> \<longleftrightarrow> distinct (map hp_bucket_start ps) \<and>
        hp_bucket_start p \<notin> hp_bucket_start ` set ps \<and> (\<forall>x\<in>set ps. m (hp_bucket_start x) = None) \<and>
        m' = (\<lambda>t. case find (\<lambda>p. hp_bucket_start p = t) (p # ps) of Some q \<Rightarrow> Some q | None \<Rightarrow> m t)"
      using val by (cases "hp_bucket_start p \<in> hp_bucket_start ` set ps") (simp_all only: simp_thms)
    finally show ?thesis using True by auto
  next
    case False
    then show ?thesis by (auto simp: index_point_def)
  qed
qed auto

text \<open>
  The price evidence of a simulation is exact: it is loaded just when the price service answers with a daily
  series in US dollars over precisely the window and without two points for one day, and the observation of each
  midnight is then the point of the series for that midnight, or the record of a missing price.
\<close>

theorem price_evidence_exact:
  "load_prices sv asset_slug w = Ok observations \<longleftrightarrow>
     (\<exists>client series. ss_prices sv = Some client \<and>
        client asset_slug ''USD'' (start_timestamp w) (end_timestamp w) = Ok series \<and>
        to_ascii_uppercase (hs_quote_currency series) = ''USD'' \<and> hs_granularity series = ''1d'' \<and>
        hs_from series = start_timestamp w \<and> hs_to series = end_timestamp w \<and>
        distinct (map hp_bucket_start (hs_points series)) \<and>
        observations = map (\<lambda>t. observation_from_point t (find (\<lambda>p. hp_bucket_start p = t) (hs_points series)))
          (window_timestamps w))"
proof -
  have eq: "(\<lambda>t. case find (\<lambda>p. hp_bucket_start p = t) ps of Some p \<Rightarrow> Some p | None \<Rightarrow> None) =
      (\<lambda>t. find (\<lambda>p. hp_bucket_start p = t) ps)" for ps
    by (rule ext) (simp split: option.split)
  have points: "try_fold index_point Map.empty ps = Ok m \<longleftrightarrow>
      distinct (map hp_bucket_start ps) \<and> m = (\<lambda>t. find (\<lambda>p. hp_bucket_start p = t) ps)" for ps m
    unfolding index_points_Ok eq by simp
  show ?thesis
    unfolding load_prices_def QUOTE_CURRENCY_def and_then_Ok_iff ok_or_Ok_iff map_err_Ok_iff guard_Ok points by auto
qed

section \<open>Retained failures\<close>

text \<open>Every error on the way to a block is missing evidence.\<close>

lemma fetch_block_Err: "fetch_block rpc n = Err e \<Longrightarrow> e = AaveEvidenceUnavailable"
  unfolding fetch_block_def
  by (cases "rpc ''eth_getBlockByNumber'' (JArray [JString (''0x'' @ show_hex n), JBool False])")
     (auto simp: ok_or_def split: option.splits if_splits)

lemma block_Err: "block rpc s n = (Err e, s') \<Longrightarrow> e = AaveEvidenceUnavailable"
  by (auto simp: block_def dest: fetch_block_Err split: option.splits result.splits)

lemma block_search_Err:
  assumes "block_search rpc target s low high = Some (Err e, s')"
  shows "e = AaveEvidenceUnavailable"
proof -
  let ?P = "\<lambda>(rpc :: archive) (target :: int) (s :: block_resolver) (low :: block_evidence) (high :: block_evidence)
    (r :: (block_evidence, simulation_error) result \<times> block_resolver). fst r = Err e \<longrightarrow> e = AaveEvidenceUnavailable"
  have "?P rpc target s low high (Err e, s')"
  proof (rule block_search.raw_induct[where P = ?P, OF _ assms])
    fix search rpc target s low high r
    assume IH: "\<And>rpc target s low high r. search rpc target s low high = Some r \<Longrightarrow> ?P rpc target s low high r"
      and r: "(if min (bk_number low + 1) (2 ^ 64 - 1) < bk_number high
        then case block rpc s (interpolated_block_number target low high) of
             (Ok b, s') \<Rightarrow> if bk_epoch_seconds b \<le> target then search rpc target s' b high else search rpc target s' low b
           | (Err e, s') \<Rightarrow> Some (Err e, s')
        else Some (Ok low, s)) = Some r"
    obtain q s1 where b: "block rpc s (interpolated_block_number target low high) = (q, s1)" by fastforce
    then have "q = Err x \<Longrightarrow> x = AaveEvidenceUnavailable" for x using block_Err by blast
    then show "?P rpc target s low high r" using r[unfolded b] IH by (cases q) (auto split: if_splits)
  qed
  then show ?thesis by simp
qed

lemma resolve_head_Err: "resolve_head rpc s = (Err e, s') \<Longrightarrow> e = AaveEvidenceUnavailable"
  unfolding resolve_head_def
  by (cases "rpc ''eth_blockNumber'' (JArray [])")
     (auto simp: ok_or_def dest: block_Err split: option.splits result.splits prod.splits)

lemma resolve_genesis_Err: "resolve_genesis rpc s = (Err e, s') \<Longrightarrow> e = AaveEvidenceUnavailable"
  by (auto simp: resolve_genesis_def dest: block_Err split: option.splits result.splits prod.splits)

lemma at_or_before_Err: "at_or_before rpc cv s t = Some (Err e, s') \<Longrightarrow> e = AaveEvidenceUnavailable"
  by (auto simp: at_or_before_def Let_def dest: resolve_head_Err resolve_genesis_Err block_search_Err
      split: option.splits result.splits prod.splits if_splits)

lemma observe_index_Err: "observe_index rpc p t b = Err e \<Longrightarrow> e = AaveEvidenceUnavailable"
  by (cases "income_index_at rpc p ''usdc'' (bk_number b)") (auto simp: observe_index_def)

lemma load_observations_Err:
  assumes "\<And>t b e. observe t b = Err e \<Longrightarrow> e = AaveEvidenceUnavailable"
  shows "load_observations rpc cv observe s ts = Some (Err e) \<Longrightarrow> e = AaveEvidenceUnavailable"
proof (induction ts arbitrary: s)
  case (Cons t ts)
  then show ?case by (auto dest: at_or_before_Err assms split: option.splits result.splits prod.splits)
qed simp

lemma load_factors_Err: "load_factors sv cv strategy w = Some (Err e) \<Longrightarrow> e = AaveEvidenceUnavailable"
proof -
  assume a: "load_factors sv cv strategy w = Some (Err e)"
  then have "load_aave_factors sv cv w = Some (Err e)"
    by (auto simp: load_factors_def split: if_splits) (metis and_then.simps result.distinct(1) result.exhaust)
  then show ?thesis
    using load_observations_Err[OF observe_index_Err]
    by (auto simp: load_aave_factors_def split: option.splits if_splits)
qed

lemma index_points_Err: "try_fold index_point m ps = Err e \<Longrightarrow> e = HistoricalPricesMalformed"
  by (induction ps arbitrary: m) (auto simp: index_point_def split: if_splits)

lemma load_prices_Err:
  "load_prices sv slug w = Err e \<Longrightarrow> e = HistoricalPricesUnavailable \<or> e = HistoricalPricesMalformed"
proof -
  have "map_price_error x = HistoricalPricesUnavailable \<or> map_price_error x = HistoricalPricesMalformed" for x
    by (cases x) auto
  then have m: "map_err map_price_error r = Err e \<Longrightarrow> e = HistoricalPricesUnavailable \<or> e = HistoricalPricesMalformed" for r :: "('x, price_signal_error) result" and e
    by (cases r) auto
  assume "load_prices sv slug w = Err e"
  then show ?thesis
    unfolding load_prices_def
    by (auto simp: and_then_Err_iff ok_or_def dest!: m index_points_Err split: if_splits option.splits)
qed

text \<open>The inputs of a command are valid.\<close>

definition valid_command :: "'d d512 \<Rightarrow> simulation_command \<Rightarrow> bool" where
  "valid_command D c \<longleftrightarrow>
     (\<exists>x. parse_positive_decimal D (cmd_initial_capital c) = Some (Ok x)) \<and>
     to_ascii_uppercase (trim (cmd_quote_currency c)) = ''USD'' \<and>
     is_ok (window_parse (cmd_start_date c) (cmd_end_date c)) \<and> is_ok (strategy_parse (cmd_strategy_slug c))"

lemma strategy_parse_Err: "strategy_parse s = Err e \<Longrightarrow> e = UnsupportedStrategy"
  by (auto simp: strategy_parse_def Let_def split: if_splits)

lemma window_parse_Err: "window_parse s t = Err e \<Longrightarrow> e = InvalidDateRange"
  by (auto simp: window_parse_def ok_or_def Let_def split: option.splits if_splits)

lemma parse_positive_decimal_Err: "parse_positive_decimal D s = Some (Err e) \<Longrightarrow> e = InvalidInitialCapital"
  by (auto simp: parse_positive_decimal_def Option.bind_eq_Some_conv split: option.splits if_splits)

lemma run_Err:
  assumes "run D to_string digest sv cv c = Some (Err e)"
  shows "failure_reason e = None \<longleftrightarrow> \<not> valid_command D c"
proof (cases "valid_command D c")
  case True
  then obtain x w st where v: "parse_positive_decimal D (cmd_initial_capital c) = Some (Ok x)"
    "to_ascii_uppercase (trim (cmd_quote_currency c)) = QUOTE_CURRENCY"
    "window_parse (cmd_start_date c) (cmd_end_date c) = Ok w" "strategy_parse (cmd_strategy_slug c) = Ok st"
    by (auto simp: valid_command_def is_ok_iff QUOTE_CURRENCY_def)
  then have "load_prices sv (price_asset st) w = Err e \<or> load_factors sv cv st w = Some (Err e)"
    using assms by (cases "load_prices sv (price_asset st) w") (auto simp: run_def split: result.splits option.splits bind_splits)
  then show ?thesis using True load_prices_Err load_factors_Err by fastforce
next
  case False
  then have "e \<in> {InvalidInitialCapital, UnsupportedSimulationCurrency, InvalidDateRange, UnsupportedStrategy}"
    using assms
    by (auto simp: run_def valid_command_def is_ok_iff QUOTE_CURRENCY_def and_then_Err_iff and_then_Ok_iff
        dest: parse_positive_decimal_Err window_parse_Err strategy_parse_Err split: result.splits option.splits if_splits)
  then show ?thesis using False by auto
qed

lemma valid_commandD:
  assumes "valid_command D c"
  obtains x w st where "parse_positive_decimal D (cmd_initial_capital c) = Some (Ok x)"
    "to_ascii_uppercase (trim (cmd_quote_currency c)) = QUOTE_CURRENCY"
    "window_parse (cmd_start_date c) (cmd_end_date c) = Ok w" "strategy_parse (cmd_strategy_slug c) = Ok st"
  using assms by (auto simp: valid_command_def is_ok_iff QUOTE_CURRENCY_def)

text \<open>
  C18. When a simulation fails, a failed run is retained exactly if the inputs were valid, that is if evidence was missing:
  invalid form input is never persisted, and every failure for want of evidence is, with the outcome \<open>failed\<close>
  and the input the simulation was asked for.
\<close>

theorem failures_retained_exactly:
  assumes "run D to_string digest sv cache_values c = Some (Err e)"
  shows "failed_run D to_string digest c e \<noteq> None \<and>
    ((\<exists>f. failed_run D to_string digest c e = Some (Some f)) \<longleftrightarrow> valid_command D c) \<and>
    (valid_command D c \<longleftrightarrow> e \<in> {HistoricalPricesUnavailable, HistoricalPricesMalformed, AaveEvidenceUnavailable}) \<and>
    (\<forall>f. failed_run D to_string digest c e = Some (Some f) \<longrightarrow> run_outcome f = ''failed'' \<and>
       (\<exists>x w st. parse_positive_decimal D (cmd_initial_capital c) = Some (Ok x) \<and>
          window_parse (cmd_start_date c) (cmd_end_date c) = Ok w \<and> strategy_parse (cmd_strategy_slug c) = Ok st \<and>
          run_input f = input_json D x w st \<and> run_strategy_slug f = strategy_slug st))"
proof (cases "valid_command D c")
  case True
  then have r: "failure_reason e \<noteq> None" using run_Err[OF assms] by simp
  from True obtain x w st where v: "parse_positive_decimal D (cmd_initial_capital c) = Some (Ok x)"
    "to_ascii_uppercase (trim (cmd_quote_currency c)) = QUOTE_CURRENCY"
    "window_parse (cmd_start_date c) (cmd_end_date c) = Ok w" "strategy_parse (cmd_strategy_slug c) = Ok st"
    by (rule valid_commandD)
  from r obtain reason where "failure_reason e = Some reason" by blast
  with v have "\<exists>f. failed_run D to_string digest c e = Some (Some f) \<and> run_outcome f = ''failed'' \<and>
      run_input f = input_json D x w st \<and> run_strategy_slug f = strategy_slug st"
    by (simp add: failed_run_def completed_def Let_def)
  moreover have "e \<in> {HistoricalPricesUnavailable, HistoricalPricesMalformed, AaveEvidenceUnavailable}"
    using r by (cases e) auto
  ultimately show ?thesis using v True by auto
next
  case False
  then have "failure_reason e = None" using run_Err[OF assms] by simp
  moreover from this have "e \<notin> {HistoricalPricesUnavailable, HistoricalPricesMalformed, AaveEvidenceUnavailable}" by auto
  ultimately show ?thesis using False by (simp add: failed_run_def)
qed

definition hold_command :: simulation_command where
  "hold_command = \<lparr>cmd_initial_capital = ''100'', cmd_quote_currency = ''usd'', cmd_start_date = ''2024-02-28'',
     cmd_end_date = ''2024-02-29'', cmd_strategy_slug = ''btc-hold''\<rparr>"

definition idle_service :: simulation_service where
  "idle_service = \<lparr>ss_prices = None, ss_protocols = Map.empty, ss_bigwig = None\<rparr>"

text \<open>A bitcoin study without a price service.\<close>

lemma hold_inputs:
  "parse_positive_decimal rational_d512 ''100'' = Some (Ok 100)" "to_ascii_uppercase (trim ''usd'') = ''USD''"
  "strategy_parse ''btc-hold'' = Ok BtcHold"
proof -
  have "is_decimal ''100''" "dec_value ''100'' = 100" "is_decimal ''0''" "dec_value ''0'' = 0" by code_simp+
  then show "parse_positive_decimal rational_d512 ''100'' = Some (Ok 100)"
    by (simp add: parse_positive_decimal_def decimal_def rational_d512_def is_ascii_digit_def)
  show "to_ascii_uppercase (trim ''usd'') = ''USD''" "strategy_parse ''btc-hold'' = Ok BtcHold" by code_simp+
qed

theorem failures_retained_exactly_witness:
  "run rational_d512 (\<lambda>_. []) (\<lambda>_. []) idle_service (map snd) hold_command = Some (Err HistoricalPricesUnavailable) \<and>
   (\<exists>f. failed_run rational_d512 (\<lambda>_. []) (\<lambda>_. []) hold_command HistoricalPricesUnavailable = Some (Some f) \<and>
      run_outcome f = ''failed'')"
proof -
  from hold_inputs leap_window have r: "run rational_d512 (\<lambda>_. []) (\<lambda>_. []) idle_service (map snd) hold_command =
      Some (Err HistoricalPricesUnavailable)"
    by (simp add: run_def hold_command_def QUOTE_CURRENCY_def load_prices_def idle_service_def ok_or_def)
  from failures_retained_exactly[OF this] show ?thesis using r by auto
qed

section \<open>No panic\<close>

text \<open>The texts that the decimal library has to accept: the constants of the code and the integers of 256 bits.\<close>

definition reads_integers :: "'d d512 \<Rightarrow> bool" where
  "reads_integers D \<longleftrightarrow> d_from_str D ''365.2425'' \<noteq> None \<and> (\<forall>n < 2 ^ 256. d_from_str D (show_nat n) \<noteq> None)"

lemma reads_constants:
  assumes "reads_integers D"
  shows "d_from_str D ''0'' \<noteq> None" "d_from_str D ''1'' \<noteq> None" "d_from_str D ''365.2425'' \<noteq> None"
proof -
  have "show_nat 0 = ''0''" "show_nat 1 = ''1''" by code_simp+
  moreover have "d_from_str D (show_nat 0) \<noteq> None" "d_from_str D (show_nat 1) \<noteq> None"
    using assms unfolding reads_integers_def by simp_all
  ultimately show "d_from_str D ''0'' \<noteq> None" "d_from_str D ''1'' \<noteq> None" by simp_all
  show "d_from_str D ''365.2425'' \<noteq> None" using assms by (simp add: reads_integers_def)
qed

text \<open>
  What a simulation relies on of the decimal library. \<open>fits k x\<close> stands for a positive decimal from \<open>10 ^ - k\<close> to
  \<open>10 ^ k\<close>. Far from the limits of the exponent no operation on positive decimals traps: products and
  quotients are positive again, within the product of the bounds, a difference can be divided by a positive
  decimal, and the power of an annualized return (30 to 366 days) can be taken. A rounding context, which keeps
  powers of ten where they are, has these properties; a division by zero is not among them.
\<close>

definition sound_arithmetic :: "'d d512 \<Rightarrow> (nat \<Rightarrow> 'd \<Rightarrow> bool) \<Rightarrow> bool" where
  "sound_arithmetic D fits \<longleftrightarrow> reads_integers D \<and>
     (\<forall>n. 0 < n \<and> n < 2 ^ 256 \<longrightarrow> (\<exists>x. d_from_str D (show_nat n) = Some x \<and> fits 78 x)) \<and>
     (\<forall>k l x y. fits k x \<and> fits l y \<and> k \<le> 1000 \<and> l \<le> 1000 \<longrightarrow>
        (\<exists>z. d_mul D x y = Some z \<and> fits (k + l) z) \<and> (\<exists>z. d_div D x y = Some z \<and> fits (k + l) z) \<and>
        (\<exists>z. d_sub D x y = Some z \<and> (\<forall>m w. fits m w \<and> m \<le> 1000 \<longrightarrow> d_div D z w \<noteq> None))) \<and>
     (\<forall>n year days one. 30 \<le> n \<and> n \<le> 366 \<and> d_from_str D ''365.2425'' = Some year \<and> d_from_str D (show_nat n) = Some days \<and>
        d_from_str D ''1'' = Some one \<longrightarrow>
        (\<exists>periods. d_div D year days = Some periods \<and>
           (\<forall>k x. fits k x \<and> k \<le> 1000 \<longrightarrow> (\<exists>g. d_pow D x periods = Some g \<and> d_sub D g one \<noteq> None))))"

lemma sound_reads: "sound_arithmetic D fits \<Longrightarrow> reads_integers D"
  by (simp add: sound_arithmetic_def)

lemma sound_integer:
  "sound_arithmetic D fits \<Longrightarrow> 0 < n \<Longrightarrow> n < 2 ^ 256 \<Longrightarrow> \<exists>x. d_from_str D (show_nat n) = Some x \<and> fits 78 x"
  unfolding sound_arithmetic_def by blast

lemma sound_steps:
  assumes "sound_arithmetic D fits" "fits k x" "fits l y" "k \<le> 1000" "l \<le> 1000"
  shows "\<exists>z. d_mul D x y = Some z \<and> fits (k + l) z" "\<exists>z. d_div D x y = Some z \<and> fits (k + l) z"
    "\<exists>z. d_sub D x y = Some z \<and> (\<forall>m w. fits m w \<and> m \<le> 1000 \<longrightarrow> d_div D z w \<noteq> None)"
proof -
  from assms(1) have "\<forall>k l x y. fits k x \<and> fits l y \<and> k \<le> 1000 \<and> l \<le> 1000 \<longrightarrow>
      (\<exists>z. d_mul D x y = Some z \<and> fits (k + l) z) \<and> (\<exists>z. d_div D x y = Some z \<and> fits (k + l) z) \<and>
      (\<exists>z. d_sub D x y = Some z \<and> (\<forall>m w. fits m w \<and> m \<le> 1000 \<longrightarrow> d_div D z w \<noteq> None))"
    unfolding sound_arithmetic_def by (elim conjE)
  note this[rule_format, OF conjI[OF assms(2) conjI[OF assms(3) conjI[OF assms(4,5)]]]]
  then show "\<exists>z. d_mul D x y = Some z \<and> fits (k + l) z" "\<exists>z. d_div D x y = Some z \<and> fits (k + l) z"
    "\<exists>z. d_sub D x y = Some z \<and> (\<forall>m w. fits m w \<and> m \<le> 1000 \<longrightarrow> d_div D z w \<noteq> None)"
    by - (elim conjE, assumption)+
qed

lemma sound_power:
  assumes "sound_arithmetic D fits" "30 \<le> n" "n \<le> 366" "d_from_str D ''365.2425'' = Some year"
    "d_from_str D (show_nat n) = Some days" "d_from_str D ''1'' = Some one"
  obtains periods where "d_div D year days = Some periods"
    "\<And>k x. fits k x \<Longrightarrow> k \<le> 1000 \<Longrightarrow> \<exists>g. d_pow D x periods = Some g \<and> d_sub D g one \<noteq> None"
proof -
  from assms(1) have "\<forall>n year days one. 30 \<le> n \<and> n \<le> 366 \<and> d_from_str D ''365.2425'' = Some year \<and>
      d_from_str D (show_nat n) = Some days \<and> d_from_str D ''1'' = Some one \<longrightarrow>
      (\<exists>periods. d_div D year days = Some periods \<and>
         (\<forall>k x. fits k x \<and> k \<le> 1000 \<longrightarrow> (\<exists>g. d_pow D x periods = Some g \<and> d_sub D g one \<noteq> None)))"
    unfolding sound_arithmetic_def by (elim conjE)
  note this[rule_format, OF conjI[OF assms(2) conjI[OF assms(3) conjI[OF assms(4) conjI[OF assms(5,6)]]]]]
  then show ?thesis using that by blast
qed

text \<open>The values of a study.\<close>

definition moderate :: "(nat \<Rightarrow> 'd \<Rightarrow> bool) \<Rightarrow> 'd \<Rightarrow> bool" where
  "moderate fits x \<longleftrightarrow> (\<exists>k \<le> 456. fits k x)"

lemma value_at_total:
  assumes s: "sound_arithmetic D fits" and b: "fits 100 initial" "fits 100 start_price"
    and p: "\<And>p. ob_price point \<bind> decimal D = Some p \<Longrightarrow> fits 100 p"
    and i0: "strategy = AaveUsdcSupply \<Longrightarrow> \<exists>x. start_index = Some x \<and> fits 78 x"
    and ix: "\<And>x y. x \<in> set indexes \<Longrightarrow> decimal D (ix_income_index x) = Some y \<Longrightarrow> fits 78 y"
  shows "\<exists>v. value_at D strategy initial start_price start_index indexes (i, point) = Some v \<and>
    (\<forall>u. v = Some u \<longrightarrow> moderate fits u)"
proof (cases "ob_price point \<bind> decimal D")
  case None
  then show ?thesis by (simp add: value_at_def)
next
  case (Some price)
  then obtain m where m: "d_mul D initial price = Some m" "fits 200 m"
    using sound_steps(1)[OF s b(1) p] by auto
  then obtain v where v: "d_div D m start_price = Some v" "fits 300 v"
    using sound_steps(2)[OF s m(2) b(2)] by auto
  show ?thesis
  proof (cases "strategy = AaveUsdcSupply \<and> i < length indexes \<and> decimal D (ix_income_index (indexes ! i)) \<noteq> None")
    case True
    then obtain f where f: "decimal D (ix_income_index (indexes ! i)) = Some f" by blast
    then have fw: "fits 78 f" using ix True nth_mem by blast
    obtain x where x: "start_index = Some x" "fits 78 x" using i0 True by blast
    obtain g where g: "d_mul D v f = Some g" "fits 378 g" using sound_steps(1)[OF s v(2) fw] by auto
    obtain w where w: "d_div D g x = Some w" "fits 456 w" using sound_steps(2)[OF s g(2) x(2)] by auto
    then have "moderate fits w" unfolding moderate_def by blast
    then show ?thesis using Some m v f x g w True by (simp add: value_at_def)
  next
    case False
    have "moderate fits v" unfolding moderate_def using v(2) by (intro exI[of _ 300]) simp
    then show ?thesis using Some m v False by (auto simp: value_at_def)
  qed
qed

lemma value_at_present:
  assumes "ob_price point \<bind> decimal D = Some p"
    and "strategy = AaveUsdcSupply \<Longrightarrow> i < length indexes \<and> decimal D (ix_income_index (indexes ! i)) \<noteq> None"
    and "value_at D strategy initial start_price start_index indexes (i, point) = Some v"
  shows "v \<noteq> None"
  using assms by (auto simp: value_at_def Let_def Option.bind_eq_Some_conv split: option.splits if_splits)

lemma fold_panic_total:
  assumes "P s" "\<And>s x. P s \<Longrightarrow> x \<in> set xs \<Longrightarrow> \<exists>s'. f s x = Some s' \<and> P s'"
  shows "\<exists>s'. fold_panic f s xs = Some s' \<and> P s'"
  using assms
proof (induction xs arbitrary: s)
  case (Cons x xs)
  then obtain s1 where "f s x = Some s1" "P s1" by fastforce
  then show ?case using Cons.IH[of s1] Cons.prems(2) by auto
qed simp

lemma set_present: "set (List.map_filter (\<lambda>x. x) vals) = {v. Some v \<in> set vals}"
  by (induction vals) (auto simp: List.map_filter_simps split: option.splits)

lemma max_drawdown_Cons:
  "max_drawdown D (Some peak # rest) = d_from_str D ''0'' \<bind> (\<lambda>zero.
     fold_panic (drawdown_step D) (peak, zero) (List.map_filter (\<lambda>x. x) (Some peak # rest)) \<bind> (\<lambda>s. Some (snd s)))"
  by (simp add: max_drawdown_def)

lemma max_drawdown_total:
  assumes s: "sound_arithmetic D fits" and ne: "vals \<noteq> []" "hd vals \<noteq> None"
    and m: "\<And>v. Some v \<in> set vals \<Longrightarrow> moderate fits v"
  shows "max_drawdown D vals \<noteq> None"
proof -
  obtain zero where z: "d_from_str D ''0'' = Some zero" using reads_constants(1)[OF sound_reads[OF s]] by blast
  obtain peak rest where v: "vals = Some peak # rest" using ne by (cases vals) auto
  have "\<exists>t. drawdown_step D (p, d) x = Some t \<and> moderate fits (fst t)"
    if p: "moderate fits p" and x: "moderate fits x" for p d x
  proof -
    define q where "q = (if d_less D p x then x else p)"
    obtain k l where kl: "fits k q" "k \<le> 456" "fits l x" "l \<le> 456"
      using p x unfolding q_def moderate_def by (metis (full_types))
    then obtain df where "d_sub D x q = Some df" "\<forall>m w. fits m w \<and> m \<le> 1000 \<longrightarrow> d_div D df w \<noteq> None"
      using sound_steps(3)[OF s kl(3,1)] by auto
    moreover from this obtain cur where "d_div D df q = Some cur" using kl(1,2) by fastforce
    ultimately show ?thesis
      using kl(1,2) unfolding drawdown_step_def Let_def q_def[symmetric] by (auto simp: q_def[symmetric] moderate_def)
  qed
  then have "\<exists>t. fold_panic (drawdown_step D) (peak, zero) (List.map_filter (\<lambda>x. x) vals) = Some t \<and> moderate fits (fst t)"
    by (intro fold_panic_total[where P = "\<lambda>s. moderate fits (fst s)"]) (use m v in \<open>auto simp: set_present\<close>)
  then show ?thesis using z v max_drawdown_Cons[of D peak rest] by (metis bind.bind_lunit option.distinct(1))
qed

lemma show_days: "0 \<le> days \<Longrightarrow> show_int_pad 0 days = show_nat (nat days)"
  by (simp add: show_int_pad_def pad_left_def)

lemma annualized_return_total:
  assumes s: "sound_arithmetic D fits" and d: "30 \<le> days" "days \<le> 366"
    and v: "moderate fits v" "fits 100 initial"
  shows "annualized_return D v initial days \<noteq> None"
proof -
  have "nat days < 2 ^ 256" using d(2) by simp
  then obtain dd where dd: "d_from_str D (show_nat (nat days)) = Some dd"
    using sound_reads[OF s] by (auto simp: reads_integers_def)
  obtain year one where c: "d_from_str D ''365.2425'' = Some year" "d_from_str D ''1'' = Some one"
    using reads_constants[OF sound_reads[OF s]] by blast
  obtain k where k: "fits k v" "k \<le> 456" using v(1) by (auto simp: moderate_def)
  then obtain q where q: "d_div D v initial = Some q" "fits (k + 100) q" using sound_steps(2)[OF s k(1) v(2)] by auto
  have n: "30 \<le> nat days" "nat days \<le> 366" using d by simp_all
  obtain periods where p: "d_div D year dd = Some periods"
    "\<And>k x. fits k x \<Longrightarrow> k \<le> 1000 \<Longrightarrow> \<exists>g. d_pow D x periods = Some g \<and> d_sub D g one \<noteq> None"
    using sound_power[OF s n c(1) dd c(2)] by blast
  then obtain g where "d_pow D q periods = Some g" "d_sub D g one \<noteq> None" using q(2) k(2) by fastforce
  then show ?thesis using c dd q p(1) d(1) by (auto simp: annualized_return_def show_days)
qed

lemma component_json_total:
  assumes s: "sound_arithmetic D fits" and b: "fits 100 initial" "fits 100 p0" "fits 100 p1" "moderate fits v"
  shows "component_json D strategy initial p0 p1 v absolute \<noteq> None"
proof -
  obtain m where m: "d_mul D initial p1 = Some m" "fits 200 m" using sound_steps(1)[OF s b(1,3)] by auto
  obtain q where q: "d_div D m p0 = Some q" "fits 300 q" using sound_steps(2)[OF s m(2) b(2)] by auto
  obtain k where k: "fits k v" "k \<le> 1000" using b(4) by (auto simp: moderate_def)
  have "d_sub D v initial \<noteq> None" "d_sub D v q \<noteq> None" "d_sub D q initial \<noteq> None"
    using sound_steps(3)[OF s k(1) b(1)] sound_steps(3)[OF s k(1) q(2)] sound_steps(3)[OF s q(2) b(1)] k(2) by auto
  then show ?thesis using m(1) q(1) by (auto simp: component_json_def)
qed

lemma then_some_total: "(b \<Longrightarrow> x \<noteq> None) \<Longrightarrow> then_some b x \<noteq> None"
  by (simp add: then_some_def)

lemma simulate_total:
  assumes s: "sound_arithmetic D fits" and w: "sw_days w \<le> 366" and initial: "fits 100 initial"
    and pr: "\<And>point p. point \<in> set prices \<Longrightarrow> ob_price point \<bind> decimal D = Some p \<Longrightarrow> fits 100 p"
    and ix: "strategy = AaveUsdcSupply \<Longrightarrow> \<exists>xs. indexes = Some xs \<and> length xs = length prices \<and>
      (\<forall>x\<in>set xs. \<exists>y. decimal D (ix_income_index x) = Some y \<and> fits 78 y)"
    and none: "strategy \<noteq> AaveUsdcSupply \<Longrightarrow> indexes = None"
  shows "simulate D w strategy initial prices indexes \<noteq> None"
proof (cases "prices = [] \<or> ob_price (hd prices) \<bind> decimal D = None \<or> ob_price (last prices) \<bind> decimal D = None")
  case True
  then show ?thesis by (auto simp: simulate_def Let_def split: option.splits)
next
  case False
  then obtain p0 p1 where p: "ob_price (hd prices) \<bind> decimal D = Some p0" "ob_price (last prices) \<bind> decimal D = Some p1"
    and ne: "prices \<noteq> []" by auto
  have pw: "fits 100 p0" "fits 100 p1" using p pr ne by (meson hd_in_set last_in_set)+
  define ixs where "ixs = (case indexes of Some xs \<Rightarrow> xs | None \<Rightarrow> [])"
  define i0 where "i0 = (if ixs = [] then None else decimal D (ix_income_index (hd ixs)))"
  have aave: "length ixs = length prices" "i0 \<noteq> None" "\<exists>x. i0 = Some x \<and> fits 78 x"
    "\<forall>x\<in>set ixs. \<exists>y. decimal D (ix_income_index x) = Some y \<and> fits 78 y" if "strategy = AaveUsdcSupply"
    using ix[OF that] ne by (auto simp: ixs_def i0_def)
  have iw: "fits 78 y" if "x \<in> set ixs" "decimal D (ix_income_index x) = Some y" for x y
  proof (cases "strategy = AaveUsdcSupply")
    case True
    then show ?thesis using aave(4) that by force
  qed (use none that in \<open>simp add: ixs_def\<close>)
  let ?f = "value_at D strategy initial p0 i0 ixs"
  have f: "\<exists>v. ?f x = Some v \<and> (\<forall>u. v = Some u \<longrightarrow> moderate fits u)" if "x \<in> set (enumerate 0 prices)" for x
  proof -
    have "snd x \<in> set prices" using that in_set_enumerate_eq[of x 0 prices] nth_mem[of "fst x" prices] by simp
    then show ?thesis
      using value_at_total[OF s initial pw(1), of "snd x" strategy i0 ixs "fst x"] pr[of "snd x"] aave(3) iw by simp
  qed
  obtain vals where vals: "map_panic ?f (enumerate 0 prices) = Some vals"
    using map_panic_SomeI[of "enumerate 0 prices" ?f] f by blast
  then have all2: "list_all2 (\<lambda>x y. ?f x = Some y) (enumerate 0 prices) vals" by (rule map_panic_SomeD)
  have len: "length vals = length prices" using list_all2_lengthD[OF all2] by simp
  have nth: "?f (i, prices ! i) = Some (vals ! i)" if "i < length prices" for i
    using list_all2_nthD[OF all2, of i] that by (simp add: nth_enumerate_eq)
  have mod: "moderate fits u" if u: "Some u \<in> set vals" for u
  proof -
    obtain i where "i < length prices" "vals ! i = Some u" using u len by (metis in_set_conv_nth)
    moreover from this have "(i, prices ! i) \<in> set (enumerate 0 prices)" by (simp add: in_set_enumerate_eq)
    ultimately show ?thesis using f nth by fastforce
  qed
  have present: "vals ! i \<noteq> None" if "i < length prices" "ob_price (prices ! i) \<bind> decimal D = Some q" for i q
    using value_at_present[OF that(2) _ nth[OF that(1)]] aave(1,4) that(1) nth_mem[of i ixs] by fastforce
  have "vals ! (length prices - 1) \<noteq> None" "vals ! 0 \<noteq> None"
    using present[of "length prices - 1" p1] present[of 0 p0] p ne by (auto simp: last_conv_nth hd_conv_nth)
  then obtain fv where fv: "last vals = Some fv" and hd: "hd vals \<noteq> None" and vne: "vals \<noteq> []"
    using len ne by (cases "vals = []") (auto simp: last_conv_nth hd_conv_nth)
  have fm: "moderate fits fv" using mod fv last_in_set[OF vne] by simp
  then obtain k where k: "fits k fv" "k \<le> 1000" by (auto simp: moderate_def)
  obtain ab where ab: "d_sub D fv initial = Some ab" "\<forall>m w. fits m w \<and> m \<le> 1000 \<longrightarrow> d_div D ab w \<noteq> None"
    using sound_steps(3)[OF s k(1) initial k(2)] by auto
  moreover have "(100 :: nat) \<le> 1000" by simp
  ultimately obtain pc where pc: "d_div D ab initial = Some pc" using initial by blast
  let ?partial = "list_ex (\<lambda>(v, point). incomplete v point) (zip vals prices)"
  obtain dd where dd: "then_some (\<not> ?partial) (max_drawdown D vals) = Some dd"
    using then_some_total[OF max_drawdown_total[OF s vne hd mod]] by blast
  have "then_some (\<not> ?partial \<and> 30 \<le> sw_days w) (annualized_return D fv initial (sw_days w)) \<noteq> None"
    by (rule then_some_total, rule annualized_return_total[OF s _ w fm initial]) simp
  then obtain ar where ar: "then_some (\<not> ?partial \<and> 30 \<le> sw_days w) (annualized_return D fv initial (sw_days w)) = Some ar"
    by blast
  obtain co where co: "component_json D strategy initial p0 p1 fv ab = Some co"
    using component_json_total[OF s initial pw fm] by blast
  show ?thesis
    using p ne aave(2) unfolding simulate_def Let_def ixs_def[symmetric] i0_def[symmetric]
    by (simp add: vals fv dd ar ab(1) pc co)
qed

lemma hex_value_bound: "is_ascii_hexdigit c \<Longrightarrow> hex_value c < 16"
  by (auto simp: is_ascii_hexdigit_def hex_value_def is_ascii_digit_def is_ascii_lowercase_def)

lemma number_of_hex_bound: "list_all is_ascii_hexdigit s \<Longrightarrow> number_of_hex s < 16 ^ length s"
proof (induction s rule: rev_induct)
  case (snoc c s)
  then have a: "number_of_hex s < 16 ^ length s" and c: "hex_value c < 16" by (auto simp: hex_value_bound)
  have "number_of_hex (s @ [c]) = number_of_hex s * 16 + hex_value c" by (simp add: number_of_hex_def)
  also have "\<dots> < (number_of_hex s + 1) * 16" using c by simp
  also have "\<dots> \<le> 16 ^ length s * 16" using a by (intro mult_right_mono) simp_all
  finally show ?case by simp
qed (simp add: number_of_hex_def)

lemma decode_uint256_bound: "decode_uint256 v = Ok n \<Longrightarrow> n < 2 ^ 256"
proof -
  assume "decode_uint256 v = Ok n"
  then obtain hex where "length hex = 64" "list_all is_ascii_hexdigit hex" "n = number_of_hex hex"
    by (auto simp: decode_uint256_def and_then_Ok_iff split: if_splits)
  then have "n < 16 ^ 64" using number_of_hex_bound by metis
  then show "n < 2 ^ 256" by simp
qed

lemma load_observations_shape:
  assumes "\<And>t b x. observe t b = Ok x \<Longrightarrow> P t x"
  shows "load_observations rpc cv observe s ts = Some (Ok xs) \<Longrightarrow> list_all2 P ts xs"
proof (induction ts arbitrary: s xs)
  case (Cons t ts)
  then show ?case using assms by (fastforce split: option.splits result.splits prod.splits)
qed simp

text \<open>The indices that were loaded are positive integers of 256 bits, one for each timestamp of the window.\<close>

lemma observe_index_Ok:
  "observe_index rpc p t b = Ok x \<Longrightarrow> ix_timestamp x = t \<and> (\<exists>n. 0 < n \<and> n < 2 ^ 256 \<and> ix_income_index x = show_nat n)"
  by (auto simp: observe_index_def and_then_Ok_iff map_err_Ok_iff income_index_at_Ok reported_index_def
      dest!: decode_uint256_bound)

lemma load_factors_Ok:
  assumes "load_factors sv cv strategy w = Some (Ok factors)" "strategy = AaveUsdcSupply"
  shows "\<exists>xs. factors = Some xs \<and> length xs = length (window_timestamps w) \<and>
    (\<forall>x\<in>set xs. \<exists>n. 0 < n \<and> n < 2 ^ 256 \<and> ix_income_index x = show_nat n)"
proof -
  from assms obtain xs where xs: "load_aave_factors sv cv w = Some (Ok xs)" "factors = Some xs"
    by (auto simp: load_factors_def and_then_Ok_iff)
  then obtain rpc p where "load_observations rpc cv (observe_index rpc p) new_resolver (window_timestamps w) = Some (Ok xs)"
    by (auto simp: load_aave_factors_def split: option.splits if_splits)
  then have "list_all2 (\<lambda>t x. ix_timestamp x = t \<and> (\<exists>n. 0 < n \<and> n < 2 ^ 256 \<and> ix_income_index x = show_nat n)) (window_timestamps w) xs"
    by (rule load_observations_shape[rotated]) (rule observe_index_Ok)
  then show ?thesis using xs(2) by (fastforce simp: list_all2_conv_all_nth in_set_conv_nth)
qed

lemma load_factors_None: "load_factors sv cv strategy w = Some (Ok factors) \<Longrightarrow> strategy \<noteq> AaveUsdcSupply \<Longrightarrow> factors = None"
  by (simp add: load_factors_def)

lemma load_factors_total: "visits_values cv \<Longrightarrow> load_factors sv cv strategy w \<noteq> None"
  using load_observations_total[OF new_resolver_sane]
  by (auto simp: load_factors_def load_aave_factors_def split: option.splits)

lemma parse_positive_decimal_total: "reads_integers D \<Longrightarrow> parse_positive_decimal D v \<noteq> None"
  using reads_constants[of D] by (auto simp: parse_positive_decimal_def split: option.splits)

lemma load_prices_length: "load_prices sv slug w = Ok prices \<Longrightarrow> length prices = length (window_timestamps w)"
  by (auto simp: load_prices_def and_then_Ok_iff guard_Ok split: if_splits)

text \<open>Every price of the service that can be read is positive and from \<open>10 ^ - 100\<close> to \<open>10 ^ 100\<close>.\<close>

definition prices_fit :: "'d d512 \<Rightarrow> (nat \<Rightarrow> 'd \<Rightarrow> bool) \<Rightarrow> simulation_service \<Rightarrow> bool" where
  "prices_fit D fits sv \<longleftrightarrow>
     (\<forall>client slug currency since until series point price x. ss_prices sv = Some client \<longrightarrow>
        client slug currency since until = Ok series \<longrightarrow> point \<in> set (hs_points series) \<longrightarrow>
        hp_price point = Some price \<longrightarrow> decimal D price = Some x \<longrightarrow> fits 100 x)"

lemma loaded_prices_fit:
  assumes "prices_fit D fits sv" "load_prices sv slug w = Ok prices" "point \<in> set prices"
    "ob_price point \<bind> decimal D = Some x"
  shows "fits 100 x"
proof -
  obtain client series where c: "ss_prices sv = Some client"
    "client slug ''USD'' (start_timestamp w) (end_timestamp w) = Ok series"
    and "prices = map (\<lambda>t. observation_from_point t (find (\<lambda>p. hp_bucket_start p = t) (hs_points series))) (window_timestamps w)"
    using assms(2) unfolding price_evidence_exact by blast
  then obtain t where "point = observation_from_point t (find (\<lambda>p. hp_bucket_start p = t) (hs_points series))"
    using assms(3) by auto
  moreover obtain price where price: "ob_price point = Some price" "decimal D price = Some x"
    using assms(4) by (auto simp: Option.bind_eq_Some_conv)
  ultimately obtain p where "find (\<lambda>p. hp_bucket_start p = t) (hs_points series) = Some p" "hp_price p = Some price"
    by (auto simp: observation_from_point_def split: option.splits)
  then have "p \<in> set (hs_points series)" by (auto simp: find_Some_iff)
  then show ?thesis using assms(1) c price(2) \<open>hp_price p = Some price\<close> unfolding prices_fit_def by blast
qed

lemma loaded_evidence_simulates:
  assumes s: "sound_arithmetic D fits" and sv: "prices_fit D fits sv" and x: "fits 100 x"
    and w: "window_parse start stop = Ok w" and p: "load_prices sv slug w = Ok prices"
    and f: "load_factors sv cv strategy w = Some (Ok factors)"
  shows "simulate D w strategy x prices factors \<noteq> None"
proof (rule simulate_total[OF s _ x])
  show "sw_days w \<le> 366" using window_parse_Ok(4)[OF w] .
  show "fits 100 q" if "point \<in> set prices" "ob_price point \<bind> decimal D = Some q" for point q
    using loaded_prices_fit[OF sv p that] .
  show "factors = None" if "strategy \<noteq> AaveUsdcSupply" using load_factors_None[OF f that] .
  show "\<exists>xs. factors = Some xs \<and> length xs = length prices \<and> (\<forall>x\<in>set xs. \<exists>y. decimal D (ix_income_index x) = Some y \<and> fits 78 y)"
    if st: "strategy = AaveUsdcSupply"
    using load_factors_Ok[OF f st] load_prices_length[OF p] sound_integer[OF s] unfolding decimal_def by metis
qed

text \<open>A result that is returned carries one of three outcomes.\<close>

lemma report_outcome:
  "simulation_outcome (report_json D w strategy x fv ab pc partial ar dd co ss) = (if partial then ''partial'' else ''complete'')"
  by (simp add: report_json_def simulation_outcome_def)

lemma other_outcome: "simulation_outcome (JObject ((''status'', JString s) # es)) = s"
  by (simp add: simulation_outcome_def)

lemma simulate_status:
  assumes "simulate D w strategy x prices factors = Some j"
  shows "simulation_outcome j \<in> {''complete'', ''partial'', ''unsupported''}"
  using assms unfolding simulate_def Let_def
  by (auto simp: Option.bind_eq_Some_conv report_outcome other_outcome split: option.splits if_splits)

lemma run_Ok:
  assumes "run D to_string digest sv cv c = Some (Ok study)"
  obtains x w strategy prices factors result where "simulate D w strategy x prices factors = Some result"
    "study = completed to_string digest (simulation_outcome result) strategy (input_json D x w strategy)
       (evidence_json w strategy prices factors) result"
  using assms by (auto simp: run_def Option.bind_eq_Some_conv split: option.splits result.splits if_splits)

text \<open>
  C17. A simulation returns whatever the archive node answers: when the capital and the prices that can be read are
  positive and of a moderate size, the search for blocks ends, no decimal operation traps and no \<open>expect\<close> fails,
  the one on the final value of an Aave study included. A run that succeeds is complete, partial or unsupported.
  The arithmetic is that of the decimal library with its traps, under the laws of \<open>sound_arithmetic\<close>.
\<close>

theorem simulation_returns:
  assumes "sound_arithmetic D fits" "visits_values cache_values"
    and "\<And>x. parse_positive_decimal D (cmd_initial_capital c) = Some (Ok x) \<Longrightarrow> fits 100 x"
    and "prices_fit D fits sv"
  shows "\<exists>r. run D to_string digest sv cache_values c = Some r \<and>
    (\<forall>study. r = Ok study \<longrightarrow> run_outcome study \<in> {''complete'', ''partial'', ''unsupported''})"
proof -
  have "run D to_string digest sv cache_values c \<noteq> None"
  proof
    assume "run D to_string digest sv cache_values c = None"
    then obtain x w st prices factors where "parse_positive_decimal D (cmd_initial_capital c) = Some (Ok x)"
      "window_parse (cmd_start_date c) (cmd_end_date c) = Ok w" "load_prices sv (price_asset st) w = Ok prices"
      "load_factors sv cache_values st w = Some (Ok factors)" "simulate D w st x prices factors = None"
      by (auto simp: run_def and_then_Ok_iff parse_positive_decimal_total[OF sound_reads[OF assms(1)]]
          load_factors_total[OF assms(2)] split: option.splits result.splits if_splits bind_splits)
    then show False using loaded_evidence_simulates[OF assms(1,4)] assms(3) by blast
  qed
  moreover have "run_outcome study \<in> {''complete'', ''partial'', ''unsupported''}"
    if "run D to_string digest sv cache_values c = Some (Ok study)" for study
    using that by (rule run_Ok) (use simulate_status in \<open>simp add: completed_def\<close>)
  ultimately show ?thesis by blast
qed

text \<open>Exact rational numbers, which trap a division by zero, and a service that reports the price 2 on every day.\<close>

definition rational_fits :: "nat \<Rightarrow> rat \<Rightarrow> bool" where
  "rational_fits k x \<longleftrightarrow> 1 / 10 ^ k \<le> x \<and> x \<le> 10 ^ k"

definition daily_point :: "string \<Rightarrow> string \<Rightarrow> historical_price_point" where
  "daily_point price t = \<lparr>hp_bucket_start = t, hp_price = Some price, hp_status = ''priced'', hp_source_published_at = None,
     hp_source_type = None, hp_is_derived = None, hp_derivation_path = None\<rparr>"

definition daily_service :: "string \<Rightarrow> simulation_service" where
  "daily_service price = \<lparr>ss_prices = Some (\<lambda>slug currency since until.
       Ok \<lparr>hs_asset_id = slug, hs_quote_currency = currency, hs_from = since, hs_to = until, hs_granularity = ''1d'',
           hs_points = map (\<lambda>i. daily_point price (timestamp_for_day (19781 + i))) [0..2], 
           hs_meta = \<lparr>sm_expected_bucket_count = 3, sm_sample_count = 3, sm_carry_forward_bucket_count = 0,
             sm_missing_bucket_count = 0, sm_latest_tick_published_at_used = None\<rparr>\<rparr>),
     ss_protocols = Map.empty, ss_bigwig = None\<rparr>"

lemma rational_reads: "reads_integers rational_d512"
proof -
  have "is_decimal ''365.2425''" by code_simp
  moreover have "is_decimal (show_nat n)" for n using plain_digits(1)[of "show_nat n"] by simp
  ultimately show ?thesis by (simp add: reads_integers_def rational_d512_def)
qed

lemma rational_sound: "sound_arithmetic rational_d512 rational_fits"
proof -
  have int: "\<exists>x. d_from_str rational_d512 (show_nat n) = Some x \<and> rational_fits 78 x" if "0 < n" "n < 2 ^ 256" for n
  proof -
    have "is_decimal (show_nat n)" "dec_value (show_nat n) = of_nat n"
      using plain_digits[of "show_nat n"] by (simp_all add: dec_value_def)
    moreover have "(of_nat n :: rat) \<le> 10 ^ 78"
    proof -
      have "n \<le> 10 ^ 78" using that(2) by simp
      then have "(of_nat n :: rat) \<le> of_nat (10 ^ 78)" by (rule of_nat_mono)
      then show ?thesis by simp
    qed
    moreover have "(1 :: rat) / 10 ^ 78 \<le> 1" "(1 :: rat) \<le> of_nat n" using that(1) by simp_all
    ultimately show ?thesis by (simp add: rational_d512_def rational_fits_def)
  qed
  have pos: "rational_fits k x \<Longrightarrow> 0 < x" for k x
    unfolding rational_fits_def by (metis less_le_trans zero_less_divide_1_iff zero_less_numeral zero_less_power)
  have mul: "rational_fits (k + l) (x * y)" if "rational_fits k x" "rational_fits l y" for k l x y
    using that pos[OF that(1)] mult_mono[of "1 / 10 ^ k" x "1 / 10 ^ l" y] mult_mono[of x "10 ^ k" y "10 ^ l"] pos[OF that(2)]
    by (simp add: rational_fits_def power_add)
  have inv: "rational_fits l (1 / y)" if "rational_fits l y" for l y
    using that pos[OF that] by (simp add: rational_fits_def field_simps)
  have div: "rational_fits (k + l) (x / y)" if "rational_fits k x" "rational_fits l y" for k l x y
    using mul[OF that(1) inv[OF that(2)]] by simp
  have "dec_value (show_nat n) = of_nat n" for n using plain_digits[of "show_nat n"] by (simp add: dec_value_def)
  then show ?thesis
    unfolding sound_arithmetic_def using rational_reads int mul div pos
    by (auto simp: rational_d512_def dest: pos split: if_splits)
qed

lemma leap_timestamps:
  assumes "window_parse ''2024-02-28'' ''2024-02-29'' = Ok w"
  shows "window_timestamps w = map (\<lambda>i. timestamp_for_day (19781 + i)) [0..2]" "distinct (window_timestamps w)"
proof -
  have w: "sw_start_day w = 19781" "sw_days w = 2" using assms leap_window by auto
  then show t: "window_timestamps w = map (\<lambda>i. timestamp_for_day (19781 + i)) [0..2]" by (simp add: window_timestamps_def)
  have "inj_on (\<lambda>i. timestamp_for_day (19781 + i)) {0..2}"
    by (rule inj_on_inverseI[where g = "\<lambda>t. the (parse_rfc3339_epoch t) div 86400 - 19781"]) (simp add: day_parsed)
  then show "distinct (window_timestamps w)" unfolding t by (simp add: distinct_map)
qed

lemma daily_prices:
  assumes w: "window_parse ''2024-02-28'' ''2024-02-29'' = Ok w"
  shows "load_prices (daily_service price) slug w =
    Ok (map (\<lambda>t. observation_from_point t (Some (daily_point price t))) (window_timestamps w))"
proof -
  let ?ps = "map (daily_point price) (window_timestamps w)"
  have b: "map hp_bucket_start ?ps = window_timestamps w" by (simp add: daily_point_def comp_def)
  have f: "find (\<lambda>p. hp_bucket_start p = t) (map (daily_point price) ts) = Some (daily_point price t)" if "t \<in> set ts" for t ts
    using that by (induction ts) (auto simp: daily_point_def)
  have p: "map (\<lambda>i. daily_point price (timestamp_for_day (19781 + i))) [0..2] = ?ps"
    unfolding leap_timestamps(1)[OF w] by simp
  have u: "to_ascii_uppercase ''USD'' = ''USD''" by code_simp
  show ?thesis
    unfolding price_evidence_exact
    by (rule exI, rule exI, intro conjI)
       (auto simp: daily_service_def p b[unfolded map_map comp_def] u leap_timestamps(2)[OF w] f comp_def simp del: upto.simps)
qed

lemma hold_run:
  assumes "window_parse ''2024-02-28'' ''2024-02-29'' = Ok w" "load_prices sv (price_asset BtcHold) w = Ok prices"
  shows "run rational_d512 ts dg sv cv hold_command =
    simulate rational_d512 w BtcHold 100 prices None \<bind> (\<lambda>result.
      Some (Ok (completed ts dg (simulation_outcome result) BtcHold (input_json rational_d512 100 w BtcHold)
        (evidence_json w BtcHold prices None) result)))"
  using assms hold_inputs by (simp add: run_def hold_command_def QUOTE_CURRENCY_def load_factors_def)

lemma small_decimals: "is_decimal ''2''" "dec_value ''2'' = 2" "is_decimal ''0''" "dec_value ''0'' = 0"
  by code_simp+

theorem simulation_returns_witness:
  "\<exists>study. run rational_d512 (\<lambda>_. []) (\<lambda>_. []) (daily_service ''2'') (map snd) hold_command = Some (Ok study) \<and>
     run_outcome study \<in> {''complete'', ''partial'', ''unsupported''}"
proof -
  have "prices_fit rational_d512 rational_fits (daily_service ''2'')"
    using small_decimals
    by (auto simp: prices_fit_def daily_service_def daily_point_def decimal_def rational_d512_def rational_fits_def)
  moreover have "x = 100" if "parse_positive_decimal rational_d512 (cmd_initial_capital hold_command) = Some (Ok x)" for x
    using that hold_inputs(1) by (simp add: hold_command_def)
  then have "rational_fits 100 x" if "parse_positive_decimal rational_d512 (cmd_initial_capital hold_command) = Some (Ok x)" for x
    using that by (auto simp: rational_fits_def)
  moreover have "visits_values (map snd)" by (simp add: visits_values_def)
  ultimately obtain r where r: "run rational_d512 (\<lambda>_. []) (\<lambda>_. []) (daily_service ''2'') (map snd) hold_command = Some r"
    "\<forall>study. r = Ok study \<longrightarrow> run_outcome study \<in> {''complete'', ''partial'', ''unsupported''}"
    using simulation_returns[OF rational_sound] by meson
  have "\<exists>study. r = Ok study"
    using r(1) unfolding hold_run[OF leap_window daily_prices[OF leap_window]]
    by (auto simp: Option.bind_eq_Some_conv)
  then show ?thesis using r by auto
qed

text \<open>
  A start price of zero makes the simulation panic: when the first price is read as a decimal by which the library
  refuses to divide, and the rest of the evidence is there, no result is returned. The code asks only whether the
  start price can be read, not whether it is zero.
\<close>

theorem zero_start_price_panics:
  assumes "reads_integers D" "parse_positive_decimal D (cmd_initial_capital c) = Some (Ok x)"
    "to_ascii_uppercase (trim (cmd_quote_currency c)) = ''USD''"
    "window_parse (cmd_start_date c) (cmd_end_date c) = Ok w" "strategy_parse (cmd_strategy_slug c) = Ok strategy"
    "load_prices sv (price_asset strategy) w = Ok prices" "load_factors sv cache_values strategy w = Some (Ok factors)"
    and "ob_price (hd prices) \<bind> decimal D = Some zero" "\<And>y. d_div D y zero = None"
    and "ob_price (last prices) \<bind> decimal D \<noteq> None"
  shows "run D to_string digest sv cache_values c = None"
proof -
  have "prices \<noteq> []" using load_prices_length[OF assms(6)] window_parse_Ok(3)[OF assms(4)]
    by (auto simp: window_timestamps_length)
  then have e: "enumerate 0 prices = (0, hd prices) # enumerate 1 (tl prices)" by (cases prices) (simp_all add: enumerate_simps)
  have v: "value_at D strategy x zero i0 ixs (0, hd prices) = None" for i0 ixs
    using assms(8,9) by (auto simp: value_at_def split: bind_splits)
  have n: "map_panic (value_at D strategy x zero i0 ixs) (enumerate 0 prices) = None" for i0 ixs
    unfolding e by (simp add: v)
  obtain final where final: "ob_price (last prices) \<bind> decimal D = Some final" using assms(10) by blast
  have "simulate D w strategy x prices factors = None"
  proof (cases "strategy = AaveUsdcSupply")
    case True
    then obtain xs where xs: "factors = Some xs" "length xs = length (window_timestamps w)"
      "\<forall>y\<in>set xs. \<exists>n. 0 < n \<and> n < 2 ^ 256 \<and> ix_income_index y = show_nat n" using load_factors_Ok[OF assms(7)] by blast
    then obtain y ys where y: "xs = y # ys" using load_prices_length[OF assms(6)] \<open>prices \<noteq> []\<close> by (cases xs) auto
    then obtain i where "decimal D (ix_income_index y) = Some i"
      using xs(3) assms(1) by (auto simp: reads_integers_def decimal_def)
    then show ?thesis using assms(8) final \<open>prices \<noteq> []\<close> y xs(1) by (simp add: simulate_def n)
  next
    case False
    then show ?thesis using assms(8) final \<open>prices \<noteq> []\<close> by (simp add: simulate_def n)
  qed
  then show ?thesis using assms(2-7) by (simp add: run_def QUOTE_CURRENCY_def)
qed

theorem zero_start_price_panics_witness:
  "run rational_d512 (\<lambda>_. []) (\<lambda>_. []) (daily_service ''0'') (map snd) hold_command = None"
proof -
  obtain w where w: "window_parse ''2024-02-28'' ''2024-02-29'' = Ok w" using leap_window by blast
  let ?ps = "map (\<lambda>t. observation_from_point t (Some (daily_point ''0'' t))) (window_timestamps w)"
  have ne: "window_timestamps w \<noteq> []" unfolding leap_timestamps(1)[OF w] by simp
  have "ob_price (hd ?ps) \<bind> decimal rational_d512 = Some 0" "ob_price (last ?ps) \<bind> decimal rational_d512 \<noteq> None"
    using ne small_decimals
    by (simp_all add: hd_map last_map observation_from_point_def daily_point_def decimal_def rational_d512_def)
  moreover have "d_div rational_d512 y 0 = None" for y by (simp add: rational_d512_def)
  moreover have "load_factors (daily_service ''0'') (map snd) BtcHold w = Some (Ok None)" by (simp add: load_factors_def)
  ultimately show ?thesis
    using zero_start_price_panics[OF rational_reads, of hold_command 100 w BtcHold "daily_service ''0''" ?ps "map snd" None 0
        "\<lambda>_. []" "\<lambda>_. []"] hold_inputs w daily_prices[OF w] by (simp add: hold_command_def)
qed

section \<open>The drawdown\<close>

text \<open>The fall from a peak to a value as the library computes it, and the peak up to a position.\<close>

definition fall :: "'d d512 \<Rightarrow> 'd \<Rightarrow> 'd \<Rightarrow> 'd option" where
  "fall D peak v = d_sub D v peak \<bind> (\<lambda>difference. d_div D difference peak)"

definition is_peak :: "('d \<Rightarrow> rat) \<Rightarrow> 'd list \<Rightarrow> 'd \<Rightarrow> bool" where
  "is_peak val vs p \<longleftrightarrow> p \<in> set vs \<and> (\<forall>u\<in>set vs. val u \<le> val p)"

lemma fold_panic_append: "fold_panic f s (xs @ ys) = fold_panic f s xs \<bind> (\<lambda>s'. fold_panic f s' ys)"
  by (induction xs arbitrary: s) simp_all

text \<open>What the loop keeps: the peak so far, and the least of zero and the falls from the peaks.\<close>

definition least_fall :: "'d d512 \<Rightarrow> ('d \<Rightarrow> rat) \<Rightarrow> 'd \<Rightarrow> 'd list \<Rightarrow> 'd \<Rightarrow> bool" where
  "least_fall D val zero vs d \<longleftrightarrow> val d \<le> val zero \<and>
     (d = zero \<or> (\<exists>j < length vs. \<exists>p. is_peak val (take (Suc j) vs) p \<and> fall D p (vs ! j) = Some d)) \<and>
     (\<forall>j < length vs. \<exists>p f. is_peak val (take (Suc j) vs) p \<and> fall D p (vs ! j) = Some f \<and> val d \<le> val f)"

lemma least_fall_snoc:
  assumes d: "least_fall D val zero vs d" and p: "is_peak val (vs @ [v]) p" "fall D p v = Some f"
  shows "least_fall D val zero (vs @ [v]) (if val f < val d then f else d)" (is "least_fall D val zero _ ?e")
proof -
  have le: "val ?e \<le> val d" "val ?e \<le> val f" by simp_all
  have old: "take (Suc j) (vs @ [v]) = take (Suc j) vs" "(vs @ [v]) ! j = vs ! j" if "j < length vs" for j
    using that by (simp_all add: nth_append)
  have new: "take (Suc (length vs)) (vs @ [v]) = vs @ [v]" "(vs @ [v]) ! length vs = v" by simp_all
  have all: "\<exists>p f. is_peak val (take (Suc j) (vs @ [v])) p \<and> fall D p ((vs @ [v]) ! j) = Some f \<and> val ?e \<le> val f"
    if "j < length (vs @ [v])" for j
  proof (cases "j < length vs")
    case True
    then obtain q g where "is_peak val (take (Suc j) vs) q" "fall D q (vs ! j) = Some g" "val d \<le> val g"
      using d unfolding least_fall_def by blast
    then show ?thesis using old[OF True] le(1) by (metis order_trans)
  next
    case False
    then have "j = length vs" using that by simp
    then show ?thesis using new p le(2) by metis
  qed
  have "?e = zero \<or> (\<exists>j < length (vs @ [v]). \<exists>p. is_peak val (take (Suc j) (vs @ [v])) p \<and> fall D p ((vs @ [v]) ! j) = Some ?e)"
  proof (cases "val f < val d")
    case True
    then show ?thesis using new p by (intro disjI2 exI[of _ "length vs"] conjI exI[of _ p]) simp_all
  next
    case False
    consider "d = zero" | j q where "j < length vs" "is_peak val (take (Suc j) vs) q" "fall D q (vs ! j) = Some d"
      using d unfolding least_fall_def by blast
    then show ?thesis
    proof cases
      case 2
      then show ?thesis using old[OF 2(1)] False by (intro disjI2 exI[of _ j] conjI exI[of _ q]) simp_all
    qed (use False in simp)
  qed
  moreover have "val ?e \<le> val zero" using d le(1) unfolding least_fall_def by linarith
  ultimately show ?thesis using all unfolding least_fall_def by blast
qed

lemma drawdown_fold:
  assumes less: "\<And>x y. d_less D x y \<longleftrightarrow> val x < val y" and ne: "vs \<noteq> []"
    and no_trap: "\<And>p v. p \<in> set vs \<Longrightarrow> v \<in> set vs \<Longrightarrow> fall D p v \<noteq> None"
  shows "\<exists>p d. fold_panic (drawdown_step D) (hd vs, zero) vs = Some (p, d) \<and> is_peak val vs p \<and> least_fall D val zero vs d"
  using ne no_trap
proof (induction vs rule: rev_induct)
  case (snoc v vs)
  have start: "\<exists>p d. fold_panic (drawdown_step D) (hd (vs @ [v]), zero) vs = Some (p, d) \<and>
      (vs = [] \<and> p = v \<or> is_peak val vs p) \<and> least_fall D val zero vs d"
  proof (cases "vs = []")
    case False
    then show ?thesis using snoc.IH[OF False] snoc.prems(2) by auto
  qed (simp add: least_fall_def)
  then obtain p d where pd: "fold_panic (drawdown_step D) (hd (vs @ [v]), zero) vs = Some (p, d)"
    "vs = [] \<and> p = v \<or> is_peak val vs p" "least_fall D val zero vs d" by blast
  define q where "q = (if val p < val v then v else p)"
  have q: "is_peak val (vs @ [v]) q" using pd(2) unfolding q_def is_peak_def by force
  then have "q \<in> set (vs @ [v])" unfolding is_peak_def by blast
  then obtain f where f: "fall D q v = Some f" using snoc.prems(2)[of q v] by auto
  then obtain df where df: "d_sub D v q = Some df" "d_div D df q = Some f" by (auto simp: fall_def Option.bind_eq_Some_conv)
  have "drawdown_step D (p, d) v = Some (q, if val f < val d then f else d)"
    using df unfolding drawdown_step_def Let_def less prod.case q_def[symmetric] by simp
  then show ?case using pd(1) q least_fall_snoc[OF pd(3) q f] by (simp add: fold_panic_append)
qed simp

text \<open>
  C31. The maximum drawdown of a complete study: whatever way the library rounds, one pass over the values finds the
  least of zero and the falls, as the library computes them, of every value from the highest value up to it. The
  comparison of the library is an order by some numeric value, and none of the differences and quotients of the
  study traps.
\<close>

theorem max_drawdown_is_least_fall:
  assumes "\<And>x y. d_less D x y \<longleftrightarrow> val x < (val y :: rat)" "d_from_str D ''0'' = Some zero" "vs \<noteq> []"
    and "\<And>p v. p \<in> set vs \<Longrightarrow> v \<in> set vs \<Longrightarrow> fall D p v \<noteq> None"
  shows "\<exists>d. max_drawdown D (map Some vs) = Some d \<and> val d \<le> val zero \<and>
    (d = zero \<or> (\<exists>j < length vs. \<exists>p. is_peak val (take (Suc j) vs) p \<and> fall D p (vs ! j) = Some d)) \<and>
    (\<forall>j < length vs. \<exists>p f. is_peak val (take (Suc j) vs) p \<and> fall D p (vs ! j) = Some f \<and> val d \<le> val f)"
proof -
  have m: "List.map_filter (\<lambda>x. x) (map Some vs) = vs" by (induction vs) (simp_all add: List.map_filter_simps)
  obtain v ws where vs: "vs = v # ws" using assms(3) by (cases vs) auto
  obtain p d where pd: "fold_panic (drawdown_step D) (hd vs, zero) vs = Some (p, d)" "least_fall D val zero vs d"
    using drawdown_fold[OF assms(1,3,4)] by blast
  have "map Some vs = Some v # map Some ws" by (simp add: vs)
  then have "max_drawdown D (map Some vs) = Some d"
    using max_drawdown_Cons[of D v "map Some ws"] assms(2) m pd(1) vs by (metis bind.bind_lunit list.sel(1) snd_conv)
  then show ?thesis using pd(2) unfolding least_fall_def by blast
qed

theorem max_drawdown_is_least_fall_witness:
  "max_drawdown rational_d512 (map Some [100, 50, 80, 120, 90]) = Some (- 1 / 2) \<and>
   (\<exists>d. max_drawdown rational_d512 (map Some [100, 50, 80, 120, 90]) = Some d \<and> d \<le> 0 \<and>
      (\<forall>j < 5. \<exists>p f. is_peak id (take (Suc j) [100, 50, 80, 120, 90]) p \<and>
         fall rational_d512 p ([100, 50, 80, 120, 90] ! j) = Some f \<and> d \<le> f))"
proof
  have z: "d_from_str rational_d512 ''0'' = Some 0" using small_decimals by (simp add: rational_d512_def)
  show "max_drawdown rational_d512 (map Some [100, 50, 80, 120, 90]) = Some (- 1 / 2)"
    using small_decimals by (simp add: max_drawdown_def rational_d512_def drawdown_step_def List.map_filter_simps)
  have "fall rational_d512 p v \<noteq> None" if "p \<in> set [100, 50, 80, 120, 90]" for p v
    using that by (auto simp: fall_def rational_d512_def)
  then show "\<exists>d. max_drawdown rational_d512 (map Some [100, 50, 80, 120, 90]) = Some d \<and> d \<le> 0 \<and>
      (\<forall>j < 5. \<exists>p f. is_peak id (take (Suc j) [100, 50, 80, 120, 90]) p \<and>
         fall rational_d512 p ([100, 50, 80, 120, 90] ! j) = Some f \<and> d \<le> f)"
    using max_drawdown_is_least_fall[of rational_d512 id 0 "[100, 50, 80, 120, 90]", OF _ z]
    by (fastforce simp: rational_d512_def)
qed

section \<open>Canonical JSON\<close>

text \<open>Values that differ in the order of object keys only, at any depth.\<close>

inductive same_json :: "json \<Rightarrow> json \<Rightarrow> bool" where
  same_refl: "same_json v v"
| same_array: "list_all2 same_json xs ys \<Longrightarrow> same_json (JArray xs) (JArray ys)"
| same_object: "list_all2 (\<lambda>e f. fst e = fst f \<and> same_json (snd e) (snd f)) es fs \<Longrightarrow> distinct (map fst fs) \<Longrightarrow>
    mset fs = mset gs \<Longrightarrow> same_json (JObject es) (JObject gs)"

lemma filter_singleton: "distinct zs \<Longrightarrow> k \<in> set zs \<Longrightarrow> filter (\<lambda>x. x = k) zs = [k]"
proof (induction zs)
  case (Cons z zs)
  show ?case
  proof (cases "z = k")
    case True
    then have "filter (\<lambda>x. x = k) zs = []" using Cons.prems(1) by (auto simp: filter_empty_conv)
    then show ?thesis using True by simp
  qed (use Cons in auto)
qed simp

lemma sort_key_permuted:
  assumes "mset xs = mset ys" "distinct (map f xs)"
  shows "sort_key f xs = sort_key f ys"
proof (rule properties_for_sort_key)
  show "mset (sort_key f ys) = mset xs" using assms(1) by simp
  show "sorted (map f (sort_key f ys))" by simp
  have inj: "inj_on f (set xs)" "distinct xs" using assms(2) by (auto simp: distinct_map)
  have "distinct ys" "set ys = set xs" using assms(1) inj(2) mset_eq_imp_distinct_iff mset_eq_setD by metis+
  fix k
  assume "k \<in> set (sort_key f ys)"
  then have k: "k \<in> set xs" using \<open>set ys = set xs\<close> by simp
  have "filter (\<lambda>x. f k = f x) zs = [k]" if "distinct zs" "set zs = set xs" for zs
  proof -
    have "filter (\<lambda>x. f k = f x) zs = filter (\<lambda>x. x = k) zs"
      using inj(1) k that(2) by (intro filter_cong) (auto dest: inj_onD)
    then show ?thesis using that k by (simp add: filter_singleton)
  qed
  then show "filter (\<lambda>x. f k = f x) (sort_key f ys) = filter (\<lambda>x. f k = f x) xs"
    using inj(2) \<open>distinct ys\<close> \<open>set ys = set xs\<close> by simp
qed

lemma canonical_json_entries:
  assumes "list_all2 (\<lambda>e f. fst e = fst f \<and> canonical_json to_string (snd e) = canonical_json to_string (snd f)) es fs"
  shows "map (\<lambda>(k, v). (k, canonical_json to_string v)) es = map (\<lambda>(k, v). (k, canonical_json to_string v)) fs"
  using assms by (induction rule: list_all2_induct) auto

text \<open>
  The digest of a run does not depend on the order in which objects keep their keys, at any depth: values that
  differ in nothing else have the same canonical text.
\<close>

theorem canonical_json_order_irrelevant:
  assumes "same_json v u"
  shows "canonical_json to_string v = canonical_json to_string u"
  using assms
proof (induction rule: same_json.induct)
  case (same_array xs ys)
  then have "map (canonical_json to_string) xs = map (canonical_json to_string) ys"
    by (auto simp: list_all2_conv_all_nth intro: nth_equalityI)
  then show ?case by simp
next
  case (same_object es fs gs)
  let ?c = "map (\<lambda>(k, v). (k, canonical_json to_string v))"
  have "list_all2 (\<lambda>e f. fst e = fst f \<and> canonical_json to_string (snd e) = canonical_json to_string (snd f)) es fs"
    using same_object(1) by (rule list_all2_mono) blast
  then have "?c es = ?c fs" by (rule canonical_json_entries)
  moreover have "sort_key fst (?c fs) = sort_key fst (?c gs)"
  proof (rule sort_key_permuted)
    show "mset (?c fs) = mset (?c gs)" using same_object(3) by simp
    have "map fst (?c fs) = map fst fs" by (induction fs) auto
    then show "distinct (map fst (?c fs))" using same_object(2) by (simp only:)
  qed
  ultimately show ?case by simp
qed simp

theorem canonical_json_order_irrelevant_witness:
  "canonical_json (\<lambda>_. ''x'') (JArray [JObject [(''b'', JNull), (''a'', JNull)]]) =
     canonical_json (\<lambda>_. ''x'') (JArray [JObject [(''a'', JNull), (''b'', JNull)]]) \<and>
   canonical_json (\<lambda>_. ''x'') (JArray [JObject [(''b'', JNull), (''a'', JNull)]]) = ''[{x:x,x:x}]''"
proof
  have "same_json (JArray [JObject [(''b'', JNull), (''a'', JNull)]]) (JArray [JObject [(''a'', JNull), (''b'', JNull)]])"
    by (auto intro!: same_array same_object[where fs = "[(''b'', JNull), (''a'', JNull)]"] same_refl)
  then show "canonical_json (\<lambda>_. ''x'') (JArray [JObject [(''b'', JNull), (''a'', JNull)]]) =
     canonical_json (\<lambda>_. ''x'') (JArray [JObject [(''a'', JNull), (''b'', JNull)]])"
    by (rule canonical_json_order_irrelevant)
  show "canonical_json (\<lambda>_. ''x'') (JArray [JObject [(''b'', JNull), (''a'', JNull)]]) = ''[{x:x,x:x}]''" by code_simp
qed

end
