(* ===== verification/ApiErrors.thy ===== *)
theory ApiErrors
  imports Calendar
begin

text \<open>
  Errors of the HTTP interface (\<open>src/adapters/http/error.rs\<close>): status, code and message of every error the
  handlers answer with, and the windows of on-chain time (\<open>src/domain/onchain_time/onchain_window.rs\<close>) with
  the error they are rejected with. A status is its number.
\<close>

section \<open>Errors\<close>

record api_error =
  ae_status :: nat
  ae_code :: string
  ae_message :: string

definition api_invalid_json :: api_error where
  "api_invalid_json = \<lparr>ae_status = 400, ae_code = ''invalid_json'',
     ae_message = ''Request body must be valid JSON.''\<rparr>"

definition api_unknown_field :: api_error where
  "api_unknown_field = \<lparr>ae_status = 400, ae_code = ''unknown_field'',
     ae_message = ''Request contains an unknown field.''\<rparr>"

definition api_missing_query :: "string \<Rightarrow> api_error" where
  "api_missing_query message = \<lparr>ae_status = 400, ae_code = ''missing_query'', ae_message = message\<rparr>"

definition api_endpoint_disabled :: api_error where
  "api_endpoint_disabled = \<lparr>ae_status = 403, ae_code = ''endpoint_disabled'',
     ae_message = ''This endpoint is currently disabled for the Beta release.''\<rparr>"

definition api_unauthorized :: api_error where
  "api_unauthorized = \<lparr>ae_status = 401, ae_code = ''unauthorized'',
     ae_message = ''The request lacks a valid active API key.''\<rparr>"

definition api_internal_unauthorized :: api_error where
  "api_internal_unauthorized = \<lparr>ae_status = 401, ae_code = ''unauthorized'',
     ae_message = ''The request lacks valid internal credentials.''\<rparr>"

definition api_rate_limited :: api_error where
  "api_rate_limited = \<lparr>ae_status = 429, ae_code = ''rate_limited'',
     ae_message = ''The valid API key exceeded a request limit.''\<rparr>"

definition api_capability_not_granted :: api_error where
  "api_capability_not_granted = \<lparr>ae_status = 403, ae_code = ''capability_not_granted'',
     ae_message = ''The API key is not authorized for this operation.''\<rparr>"

definition api_idempotency_key_required :: api_error where
  "api_idempotency_key_required = \<lparr>ae_status = 400, ae_code = ''idempotency_key_required'',
     ae_message = ''Idempotency-Key is required.''\<rparr>"

definition api_invalid_idempotency_key :: api_error where
  "api_invalid_idempotency_key = \<lparr>ae_status = 400, ae_code = ''invalid_idempotency_key'',
     ae_message = ''Idempotency-Key is invalid.''\<rparr>"

definition api_idempotency_conflict :: api_error where
  "api_idempotency_conflict = \<lparr>ae_status = 409, ae_code = ''idempotency_conflict'',
     ae_message = ''Idempotency-Key was already used for a different report request.''\<rparr>"

definition api_unsupported_report_type :: api_error where
  "api_unsupported_report_type = \<lparr>ae_status = 404, ae_code = ''unsupported_report_type'',
     ae_message = ''Report type or version is not supported.''\<rparr>"

definition api_report_not_found :: api_error where
  "api_report_not_found = \<lparr>ae_status = 404, ae_code = ''report_not_found'',
     ae_message = ''Report was not found.''\<rparr>"

definition api_report_execution_unavailable :: api_error where
  "api_report_execution_unavailable = \<lparr>ae_status = 503, ae_code = ''report_execution_unavailable'',
     ae_message = ''Report execution is temporarily unavailable.''\<rparr>"

definition api_report_too_large :: api_error where
  "api_report_too_large = \<lparr>ae_status = 413, ae_code = ''report_too_large'',
     ae_message = ''Report exceeds the maximum accepted size.''\<rparr>"

definition api_query_too_long :: api_error where
  "api_query_too_long = \<lparr>ae_status = 400, ae_code = ''query_too_long'',
     ae_message = ''Query parameter `q` must be 128 characters or fewer.''\<rparr>"

definition api_invalid_limit :: api_error where
  "api_invalid_limit = \<lparr>ae_status = 400, ae_code = ''invalid_limit'',
     ae_message = ''Query parameter `limit` must be a positive integer.''\<rparr>"

definition api_invalid_request :: api_error where
  "api_invalid_request = \<lparr>ae_status = 400, ae_code = ''invalid_request'',
     ae_message = ''Request parameters are invalid.''\<rparr>"

definition api_missing_network_slug :: api_error where
  "api_missing_network_slug = \<lparr>ae_status = 400, ae_code = ''missing_network_slug'',
     ae_message = ''Network slug is required.''\<rparr>"

definition api_invalid_account :: api_error where
  "api_invalid_account = \<lparr>ae_status = 400, ae_code = ''invalid_account'',
     ae_message = ''Account address is invalid.''\<rparr>"

definition api_invalid_address :: api_error where
  "api_invalid_address = \<lparr>ae_status = 400, ae_code = ''invalid_address'',
     ae_message = ''Wallet address is invalid.''\<rparr>"

definition api_unsupported_network :: api_error where
  "api_unsupported_network = \<lparr>ae_status = 400, ae_code = ''unsupported_network'',
     ae_message = ''Network is not supported.''\<rparr>"

definition api_unsupported_asset :: api_error where
  "api_unsupported_asset = \<lparr>ae_status = 400, ae_code = ''unsupported_asset'',
     ae_message = ''Asset is not supported.''\<rparr>"

definition api_unsupported_quote_currency :: api_error where
  "api_unsupported_quote_currency = \<lparr>ae_status = 400, ae_code = ''unsupported_quote_currency'',
     ae_message = ''Quote currency is not supported.''\<rparr>"

definition api_unsupported_as_of :: api_error where
  "api_unsupported_as_of = \<lparr>ae_status = 400, ae_code = ''unsupported_as_of'',
     ae_message = ''Balance as_of kind is not supported.''\<rparr>"

definition api_invalid_direction :: api_error where
  "api_invalid_direction = \<lparr>ae_status = 400, ae_code = ''invalid_direction'',
     ae_message = ''Direction is invalid.''\<rparr>"

definition api_invalid_window :: api_error where
  "api_invalid_window = \<lparr>ae_status = 400, ae_code = ''invalid_window'',
     ae_message = ''Window is invalid.''\<rparr>"

definition api_invalid_window_with_message :: "string \<Rightarrow> api_error" where
  "api_invalid_window_with_message message = \<lparr>ae_status = 400, ae_code = ''invalid_window'', ae_message = message\<rparr>"

definition api_window_too_large :: api_error where
  "api_window_too_large = \<lparr>ae_status = 422, ae_code = ''window_too_large'',
     ae_message = ''Transfer search window exceeds the public limit.''\<rparr>"

definition api_invalid_asset_slug :: api_error where
  "api_invalid_asset_slug = \<lparr>ae_status = 400, ae_code = ''invalid_asset_slug'',
     ae_message = ''Asset slug is invalid.''\<rparr>"

definition api_invalid_contract_address :: api_error where
  "api_invalid_contract_address = \<lparr>ae_status = 400, ae_code = ''invalid_contract_address'',
     ae_message = ''Contract address is invalid.''\<rparr>"

definition api_too_many_token_filters :: api_error where
  "api_too_many_token_filters = \<lparr>ae_status = 422, ae_code = ''too_many_token_filters'',
     ae_message = ''Too many token filters were requested.''\<rparr>"

definition api_empty_accounts :: api_error where
  "api_empty_accounts = \<lparr>ae_status = 400, ae_code = ''empty_accounts'',
     ae_message = ''At least one account is required.''\<rparr>"

definition api_empty_tokens :: api_error where
  "api_empty_tokens = \<lparr>ae_status = 400, ae_code = ''empty_tokens'',
     ae_message = ''At least one token selector is required.''\<rparr>"

definition api_duplicate_account :: api_error where
  "api_duplicate_account = \<lparr>ae_status = 400, ae_code = ''duplicate_account'',
     ae_message = ''Each network-scoped account must be unique.''\<rparr>"

definition api_duplicate_asset :: api_error where
  "api_duplicate_asset = \<lparr>ae_status = 400, ae_code = ''duplicate_asset'',
     ae_message = ''Each asset slug must be unique.''\<rparr>"

definition api_request_too_large :: api_error where
  "api_request_too_large = \<lparr>ae_status = 413, ae_code = ''request_too_large'',
     ae_message = ''Balance request exceeds the public limits.''\<rparr>"

definition api_asset_network_map_unavailable :: api_error where
  "api_asset_network_map_unavailable = \<lparr>ae_status = 503, ae_code = ''asset_network_map_unavailable'',
     ae_message = ''Balance catalog is temporarily unavailable.''\<rparr>"

definition api_asset_not_found :: api_error where
  "api_asset_not_found = \<lparr>ae_status = 404, ae_code = ''asset_not_found'',
     ae_message = ''Asset was not found.''\<rparr>"

definition api_asset_not_available_on_network :: api_error where
  "api_asset_not_available_on_network = \<lparr>ae_status = 422, ae_code = ''asset_not_available_on_network'',
     ae_message = ''Asset is not available on the requested network.''\<rparr>"

definition api_asset_not_erc20_on_network :: api_error where
  "api_asset_not_erc20_on_network = \<lparr>ae_status = 422, ae_code = ''asset_not_erc20_on_network'',
     ae_message = ''Asset is not an ERC-20 token on the requested network.''\<rparr>"

definition api_asset_contract_mapping_unavailable :: api_error where
  "api_asset_contract_mapping_unavailable = \<lparr>ae_status = 503, ae_code = ''asset_contract_mapping_unavailable'',
     ae_message = ''Asset contract mapping is temporarily unavailable.''\<rparr>"

definition api_database_unavailable :: api_error where
  "api_database_unavailable = \<lparr>ae_status = 503, ae_code = ''database_unavailable'',
     ae_message = ''Asset resolution is temporarily unavailable.''\<rparr>"

definition api_database_unavailable_for_auth :: api_error where
  "api_database_unavailable_for_auth = \<lparr>ae_status = 503, ae_code = ''database_unavailable'',
     ae_message = ''API-key authentication is temporarily unavailable.''\<rparr>"

definition api_price_indexer_unavailable :: api_error where
  "api_price_indexer_unavailable = \<lparr>ae_status = 503, ae_code = ''price_indexer_unavailable'',
     ae_message = ''Price signals are temporarily unavailable.''\<rparr>"

definition api_extraction_unavailable :: api_error where
  "api_extraction_unavailable = \<lparr>ae_status = 503, ae_code = ''extraction_unavailable'',
     ae_message = ''ERC-20 transfer extraction is temporarily unavailable.''\<rparr>"

definition api_extraction_timeout :: api_error where
  "api_extraction_timeout = \<lparr>ae_status = 504, ae_code = ''extraction_timeout'',
     ae_message = ''ERC-20 transfer extraction timed out.''\<rparr>"

definition api_upstream_provider_error :: api_error where
  "api_upstream_provider_error = \<lparr>ae_status = 502, ae_code = ''upstream_provider_error'',
     ae_message = ''ERC-20 transfer provider failed.''\<rparr>"

definition api_upstream_provider_timeout :: api_error where
  "api_upstream_provider_timeout = \<lparr>ae_status = 504, ae_code = ''upstream_provider_timeout'',
     ae_message = ''ERC-20 transfer provider timed out.''\<rparr>"

definition api_upstream_auth_failed :: api_error where
  "api_upstream_auth_failed = \<lparr>ae_status = 502, ae_code = ''upstream_auth_failed'',
     ae_message = ''Price signals are temporarily unavailable.''\<rparr>"

definition api_price_indexer_error :: api_error where
  "api_price_indexer_error = \<lparr>ae_status = 502, ae_code = ''price_indexer_error'',
     ae_message = ''Price signals are temporarily unavailable.''\<rparr>"

definition api_upstream_invalid_response :: api_error where
  "api_upstream_invalid_response = \<lparr>ae_status = 502, ae_code = ''upstream_invalid_response'',
     ae_message = ''Price signals are temporarily unavailable.''\<rparr>"

definition api_internal_error :: api_error where
  "api_internal_error = \<lparr>ae_status = 500, ae_code = ''internal_error'',
     ae_message = ''Mother API encountered an unexpected error.''\<rparr>"

section \<open>Windows of on-chain time\<close>

record block_window =
  bw_from_block :: nat
  bw_to_block :: nat

record timestamp_window =
  tw_from_timestamp :: string
  tw_to_timestamp :: string

datatype lookback_target = LookbackLatest

record lookback_window =
  lw_lookback_seconds :: nat
  lw_to :: lookback_target

datatype onchain_window =
    BlockRange block_window
  | TimestampRange timestamp_window
  | Lookback lookback_window

datatype timestamp_field = FromTimestamp | ToTimestamp

fun timestamp_field_text :: "timestamp_field \<Rightarrow> string" where
  "timestamp_field_text FromTimestamp = ''from_timestamp''"
| "timestamp_field_text ToTimestamp = ''to_timestamp''"

datatype invalid_onchain_window_error =
    BadBlockRange nat nat
  | BadTimestamp timestamp_field string
  | BadTimestampRange string string
  | BadLookbackSeconds nat

definition block_window_new :: "nat \<Rightarrow> nat \<Rightarrow> (block_window, invalid_onchain_window_error) result" where
  "block_window_new from_block to_block =
     (if from_block > to_block then Err (BadBlockRange from_block to_block)
      else Ok \<lparr>bw_from_block = from_block, bw_to_block = to_block\<rparr>)"

definition timestamp_window_new ::
  "string \<Rightarrow> string \<Rightarrow> (timestamp_window, invalid_onchain_window_error) result" where
  "timestamp_window_new from_timestamp to_timestamp =
     (case parse_rfc3339 from_timestamp of
        None \<Rightarrow> Err (BadTimestamp FromTimestamp from_timestamp)
      | Some since \<Rightarrow>
          (case parse_rfc3339 to_timestamp of
             None \<Rightarrow> Err (BadTimestamp ToTimestamp to_timestamp)
           | Some to \<Rightarrow>
               if compare_rfc3339 since to = Greater then Err (BadTimestampRange from_timestamp to_timestamp)
               else Ok \<lparr>tw_from_timestamp = from_timestamp, tw_to_timestamp = to_timestamp\<rparr>))"

definition lookback_window_latest :: "nat \<Rightarrow> (lookback_window, invalid_onchain_window_error) result" where
  "lookback_window_latest lookback_seconds =
     (if lookback_seconds = 0 then Err (BadLookbackSeconds lookback_seconds)
      else Ok \<lparr>lw_lookback_seconds = lookback_seconds, lw_to = LookbackLatest\<rparr>)"

fun api_error_of_window :: "invalid_onchain_window_error \<Rightarrow> api_error" where
  "api_error_of_window (BadBlockRange a b) = api_invalid_window_with_message
     (''from_block must be less than or equal to to_block: from_block='' @ show_nat a @ '', to_block='' @ show_nat b)"
| "api_error_of_window (BadTimestampRange a b) = api_invalid_window_with_message
     (''from_timestamp must be less than or equal to to_timestamp: from_timestamp='' @ a @ '', to_timestamp='' @ b)"
| "api_error_of_window (BadLookbackSeconds n) = api_invalid_window_with_message
     (''lookback_seconds must be greater than zero: lookback_seconds='' @ show_nat n)"
| "api_error_of_window (BadTimestamp field v) = api_invalid_window_with_message
     (timestamp_field_text field @ '' must be a valid RFC3339 timestamp: '' @ v)"

end
