(* ===== verification/Requests.thy ===== *)
theory Requests
  imports ApiErrors BalanceResults
begin

text \<open>
  Validation of request bodies: \<open>src/adapters/http/validation.rs\<close>, \<open>json_body.rs\<close> and the request types under
  \<open>src/adapters/http/dto\<close> (accounts, token selectors, \<open>as_of\<close>, windows, directions, balance and transfer
  requests), with the construction of a balance command. Reading the JSON text is a parameter; a JSON object
  is the list of its entries, whose keys are distinct. The lemmas show what every accepted request satisfies.
\<close>

type_synonym json_object = "(string \<times> json) list"

section \<open>Fields\<close>

definition is_json_content_type :: "string \<Rightarrow> bool" where
  "is_json_content_type v =
     (let mime = to_ascii_lowercase (trim (hd (split_on CHR '';'' v))) in
      case strip_prefix_str ''application/'' mime of
        None \<Rightarrow> False
      | Some subtype \<Rightarrow> subtype = ''json'' \<or> ends_with subtype ''+json'')"

text \<open>The argument is the value of the header as a text, if it is one.\<close>

definition ensure_json_content_type :: "string option \<Rightarrow> (unit, api_error) result" where
  "ensure_json_content_type content_type =
     (case content_type of
        Some v \<Rightarrow> if is_json_content_type v then Ok () else Err api_invalid_json
      | None \<Rightarrow> Err api_invalid_json)"

definition parse_json_object_body :: "(string \<Rightarrow> json option) \<Rightarrow> string \<Rightarrow> (json_object, api_error) result" where
  "parse_json_object_body from_slice body =
     and_then (ok_or (from_slice body) api_invalid_json) (\<lambda>v.
     case v of JObject object \<Rightarrow> Ok object | _ \<Rightarrow> Err api_invalid_json)"

definition reject_unknown_fields :: "json_object \<Rightarrow> string list \<Rightarrow> (unit, api_error) result" where
  "reject_unknown_fields object allowed_fields =
     (if list_ex (\<lambda>field. field \<notin> set allowed_fields) (map fst object) then Err api_unknown_field else Ok ())"

definition validate_address :: "json option \<Rightarrow> (string, api_error) result" where
  "validate_address v =
     (case v of
        Some (JString address) \<Rightarrow>
          if trim address = [] \<or> \<not> is_evm_address address then Err api_invalid_address
          else Ok (to_ascii_lowercase address)
      | _ \<Rightarrow> Err api_invalid_address)"

definition validate_asset_slugs :: "json option \<Rightarrow> (string list, api_error) result" where
  "validate_asset_slugs v =
     (case v of
        None \<Rightarrow> Ok []
      | Some (JArray asset_slugs) \<Rightarrow>
          try_map (\<lambda>x. case x of
              JString asset_slug \<Rightarrow> if is_asset_slug asset_slug then Ok asset_slug else Err api_invalid_asset_slug
            | _ \<Rightarrow> Err api_invalid_asset_slug) asset_slugs
      | Some _ \<Rightarrow> Err api_invalid_asset_slug)"

definition validate_contract_addresses :: "json option \<Rightarrow> (string list, api_error) result" where
  "validate_contract_addresses v =
     (case v of
        None \<Rightarrow> Ok []
      | Some (JArray contract_addresses) \<Rightarrow>
          try_map (\<lambda>x. case x of
              JString a \<Rightarrow> if is_evm_address a then Ok (to_ascii_lowercase a) else Err api_invalid_contract_address
            | _ \<Rightarrow> Err api_invalid_contract_address) contract_addresses
      | Some _ \<Rightarrow> Err api_invalid_contract_address)"

definition validate_required_string :: "json option \<Rightarrow> (string, api_error) result" where
  "validate_required_string v =
     (case v of
        Some (JString s) \<Rightarrow> if trim s = [] then Err api_invalid_request else Ok (trim s)
      | _ \<Rightarrow> Err api_invalid_request)"

definition validate_optional_string :: "json option \<Rightarrow> (string option, api_error) result" where
  "validate_optional_string v =
     (case v of
        None \<Rightarrow> Ok None
      | Some (JString s) \<Rightarrow> if trim s = [] then Err api_invalid_request else Ok (Some (trim s))
      | Some _ \<Rightarrow> Err api_invalid_request)"

section \<open>Accounts\<close>

definition ACCOUNT_FIELDS :: "string list" where
  "ACCOUNT_FIELDS = [''network_slug'', ''address'', ''client_ref'']"

record onchain_account_request =
  oq_network_slug :: string
  oq_address :: string
  oq_client_ref :: "string option"

definition validate_account_network_slug :: "json option \<Rightarrow> string list \<Rightarrow> (string, api_error) result" where
  "validate_account_network_slug v supported_network_slugs =
     (case v of
        Some (JString s) \<Rightarrow>
          (let network_slug = trim s in
           if network_slug = [] then Err api_missing_network_slug
           else if network_slug \<in> set supported_network_slugs then Ok network_slug
           else Err api_unsupported_network)
      | _ \<Rightarrow> Err api_missing_network_slug)"

definition validate_client_ref :: "json option \<Rightarrow> (string option, api_error) result" where
  "validate_client_ref v =
     (case v of
        None \<Rightarrow> Ok None
      | Some JNull \<Rightarrow> Ok None
      | Some (JString client_ref) \<Rightarrow> Ok (Some client_ref)
      | Some _ \<Rightarrow> Err api_invalid_request)"

definition validate_account_object :: "json option \<Rightarrow> string list \<Rightarrow> (onchain_account_request, api_error) result" where
  "validate_account_object v supported_network_slugs =
     (case v of
        Some (JObject account) \<Rightarrow>
          and_then (reject_unknown_fields account ACCOUNT_FIELDS) (\<lambda>_.
          and_then (validate_account_network_slug (map_of account ''network_slug'') supported_network_slugs) (\<lambda>network_slug.
          and_then (validate_address (map_of account ''address'')) (\<lambda>address.
          and_then (validate_client_ref (map_of account ''client_ref'')) (\<lambda>client_ref.
          Ok \<lparr>oq_network_slug = network_slug, oq_address = address, oq_client_ref = client_ref\<rparr>))))
      | _ \<Rightarrow> Err api_invalid_request)"

definition validate_account_array :: "json option \<Rightarrow> string list \<Rightarrow> (onchain_account_request list, api_error) result" where
  "validate_account_array v supported_network_slugs =
     (case v of
        Some (JArray accounts) \<Rightarrow> try_map (\<lambda>a. validate_account_object (Some a) supported_network_slugs) accounts
      | _ \<Rightarrow> Err api_invalid_request)"

section \<open>Token selectors\<close>

definition TOKEN_FIELDS :: "string list" where
  "TOKEN_FIELDS = [''asset_slugs'', ''contract_addresses'']"

definition validate_required_non_empty_tokens_object :: "json option \<Rightarrow> (token_selector, api_error) result" where
  "validate_required_non_empty_tokens_object v =
     (case v of
        None \<Rightarrow> Err api_empty_tokens
      | Some (JObject tokens) \<Rightarrow>
          and_then (reject_unknown_fields tokens TOKEN_FIELDS) (\<lambda>_.
          and_then (validate_asset_slugs (map_of tokens ''asset_slugs'')) (\<lambda>asset_slugs.
          and_then (validate_contract_addresses (map_of tokens ''contract_addresses'')) (\<lambda>contract_addresses.
          if asset_slugs = [] \<and> contract_addresses = [] then Err api_empty_tokens
          else Ok \<lparr>ts_asset_slugs = asset_slugs, ts_contract_addresses = contract_addresses\<rparr>)))
      | Some _ \<Rightarrow> Err api_invalid_request)"

definition validate_optional_token_filters :: "json option \<Rightarrow> (token_selector option, api_error) result" where
  "validate_optional_token_filters v =
     (case v of
        None \<Rightarrow> Ok None
      | Some JNull \<Rightarrow> Ok None
      | Some (JObject tokens) \<Rightarrow>
          and_then (reject_unknown_fields tokens TOKEN_FIELDS) (\<lambda>_.
          and_then (validate_asset_slugs (map_of tokens ''asset_slugs'')) (\<lambda>asset_slugs.
          and_then (validate_contract_addresses (map_of tokens ''contract_addresses'')) (\<lambda>contract_addresses.
          Ok (Some \<lparr>ts_asset_slugs = asset_slugs, ts_contract_addresses = contract_addresses\<rparr>))))
      | Some _ \<Rightarrow> Err api_invalid_json)"

section \<open>Points in time\<close>

definition AS_OF_FIELDS :: "string list" where
  "AS_OF_FIELDS = [''kind'', ''timestamp'', ''block_number'']"

record as_of_request =
  aor_kind :: string
  aor_timestamp :: "string option"
  aor_block_number :: "string option"

definition validate_as_of_object :: "json option \<Rightarrow> (as_of_request, api_error) result" where
  "validate_as_of_object v =
     (case v of
        Some (JObject as_of) \<Rightarrow>
          and_then (reject_unknown_fields as_of AS_OF_FIELDS) (\<lambda>_.
          and_then (validate_required_string (map_of as_of ''kind'')) (\<lambda>kind.
          and_then (validate_optional_string (map_of as_of ''timestamp'')) (\<lambda>timestamp.
          and_then (validate_optional_string (map_of as_of ''block_number'')) (\<lambda>block_number.
          Ok \<lparr>aor_kind = kind, aor_timestamp = timestamp, aor_block_number = block_number\<rparr>))))
      | _ \<Rightarrow> Err api_invalid_request)"

definition as_of_try_from :: "as_of_request \<Rightarrow> (as_of, api_error) result" where
  "as_of_try_from a =
     (if aor_kind a = ''latest'' \<and> aor_timestamp a = None \<and> aor_block_number a = None then Ok Latest
      else if aor_kind a = ''timestamp'' \<and> aor_block_number a = None then
        (case aor_timestamp a of
           None \<Rightarrow> Err api_invalid_request
         | Some timestamp \<Rightarrow>
             if parse_rfc3339 timestamp = None then Err api_invalid_request else Ok (AsOfTimestamp timestamp))
      else if aor_kind a = ''block_number'' \<and> aor_timestamp a = None then
        (case aor_block_number a of
           None \<Rightarrow> Err api_invalid_request
         | Some block_number \<Rightarrow>
             if \<not> list_all is_ascii_digit block_number then Err api_invalid_request
             else Ok (AsOfBlockNumber block_number))
      else if aor_kind a \<in> {''latest'', ''timestamp'', ''block_number''} then Err api_invalid_request
      else Err api_unsupported_as_of)"

section \<open>Windows\<close>

datatype onchain_window_dto =
    DtoBlock nat nat
  | DtoTimestamps string string
  | DtoLookback nat

definition WINDOW_FIELDS :: "string list" where
  "WINDOW_FIELDS = [''from_block'', ''to_block'', ''from_timestamp'', ''to_timestamp'', ''lookback_seconds'']"

fun as_u64 :: "json \<Rightarrow> nat option" where
  "as_u64 (JInt n) = (if 0 \<le> n \<and> n < 2 ^ 64 then Some (nat n) else None)"
| "as_u64 _ = None"

fun json_str :: "json \<Rightarrow> string option" where
  "json_str (JString s) = Some s"
| "json_str _ = None"

definition reject_unknown_window_fields :: "json_object \<Rightarrow> (unit, api_error) result" where
  "reject_unknown_window_fields window =
     try_all (\<lambda>field. if field \<in> set WINDOW_FIELDS \<or> field = ''to'' then Ok () else Err api_unknown_field)
       (map fst window)"

definition validate_block_window :: "json_object \<Rightarrow> (onchain_window_dto, api_error) result" where
  "validate_block_window window =
     (if length window \<noteq> 2 then Err api_invalid_window
      else
        and_then (ok_or (map_of window ''from_block'' \<bind> as_u64) api_invalid_window) (\<lambda>from_block.
        and_then (ok_or (map_of window ''to_block'' \<bind> as_u64) api_invalid_window) (\<lambda>to_block.
        if from_block > to_block then Err api_invalid_window else Ok (DtoBlock from_block to_block))))"

definition validate_timestamp_window :: "json_object \<Rightarrow> (onchain_window_dto, api_error) result" where
  "validate_timestamp_window window =
     (if length window \<noteq> 2 then Err api_invalid_window
      else
        and_then (ok_or (map_of window ''from_timestamp'' \<bind> json_str) api_invalid_window) (\<lambda>from_timestamp.
        and_then (ok_or (map_of window ''to_timestamp'' \<bind> json_str) api_invalid_window) (\<lambda>to_timestamp.
        and_then (ok_or (parse_rfc3339 from_timestamp) api_invalid_window) (\<lambda>from_parsed.
        and_then (ok_or (parse_rfc3339 to_timestamp) api_invalid_window) (\<lambda>to_parsed.
        if compare_rfc3339 from_parsed to_parsed = Greater then Err api_invalid_window
        else Ok (DtoTimestamps from_timestamp to_timestamp))))))"

definition validate_lookback_window :: "json_object \<Rightarrow> (onchain_window_dto, api_error) result" where
  "validate_lookback_window window =
     (if length window \<noteq> 2 then Err api_invalid_window
      else
        and_then (ok_or (map_of window ''lookback_seconds'' \<bind> as_u64) api_invalid_window) (\<lambda>lookback_seconds.
        and_then (ok_or (map_of window ''to'' \<bind> json_str) api_invalid_window) (\<lambda>to.
        if lookback_seconds = 0 \<or> to \<noteq> ''latest'' then Err api_invalid_window
        else Ok (DtoLookback lookback_seconds))))"

definition validate_window :: "json option \<Rightarrow> (onchain_window_dto, api_error) result" where
  "validate_window v =
     (case v of
        Some (JObject window) \<Rightarrow>
          and_then (reject_unknown_window_fields window) (\<lambda>_.
          let has = (\<lambda>field. map_of window field \<noteq> None);
              block_fields_present = has ''from_block'' \<or> has ''to_block'';
              timestamp_fields_present = has ''from_timestamp'' \<or> has ''to_timestamp'';
              lookback_fields_present = has ''lookback_seconds'' \<or> has ''to'' in
          if of_bool block_fields_present + of_bool timestamp_fields_present + of_bool lookback_fields_present \<noteq> (1 :: nat)
          then Err api_invalid_window
          else if block_fields_present then validate_block_window window
          else if timestamp_fields_present then validate_timestamp_window window
          else validate_lookback_window window)
      | _ \<Rightarrow> Err api_invalid_window)"

fun window_dto_of :: "onchain_window \<Rightarrow> onchain_window_dto" where
  "window_dto_of (BlockRange w) = DtoBlock (bw_from_block w) (bw_to_block w)"
| "window_dto_of (TimestampRange w) = DtoTimestamps (tw_from_timestamp w) (tw_to_timestamp w)"
| "window_dto_of (Lookback w) = DtoLookback (lw_lookback_seconds w)"

fun window_try_from :: "onchain_window_dto \<Rightarrow> (onchain_window, api_error) result" where
  "window_try_from (DtoBlock a b) =
     and_then (map_err api_error_of_window (block_window_new a b)) (\<lambda>w. Ok (BlockRange w))"
| "window_try_from (DtoTimestamps a b) =
     and_then (map_err api_error_of_window (timestamp_window_new a b)) (\<lambda>w. Ok (TimestampRange w))"
| "window_try_from (DtoLookback n) =
     and_then (map_err api_error_of_window (lookback_window_latest n)) (\<lambda>w. Ok (Lookback w))"

section \<open>Directions\<close>

datatype transfer_direction = DirectionAny | DirectionFrom | DirectionTo

definition direction_try_from :: "json option \<Rightarrow> (transfer_direction, api_error) result" where
  "direction_try_from v =
     (case v of
        Some (JString direction) \<Rightarrow>
          if direction = ''any'' then Ok DirectionAny
          else if direction = ''from'' then Ok DirectionFrom
          else if direction = ''to'' then Ok DirectionTo
          else Err api_invalid_direction
      | _ \<Rightarrow> Err api_invalid_direction)"

section \<open>Balance requests\<close>

definition RESERVED_NETWORK_ALIAS_FIELDS :: "string list" where
  "RESERVED_NETWORK_ALIAS_FIELDS = [''chain'', ''chain_id'', ''chain_slug'']"

definition SUPPORTED_BALANCE_NETWORK_SLUGS :: "string list" where
  "SUPPORTED_BALANCE_NETWORK_SLUGS = [''eth-mainnet'', ''base-mainnet'']"

definition SINGLE_BALANCE_FIELDS :: "string list" where
  "SINGLE_BALANCE_FIELDS = [''as_of'', ''account'', ''quote_currency'', ''tokens'']"

definition BULK_BALANCE_FIELDS :: "string list" where
  "BULK_BALANCE_FIELDS = [''as_of'', ''accounts'', ''quote_currency'', ''tokens'']"

lemma try_all_cong [fundef_cong]:
  "xs = ys \<Longrightarrow> (\<And>x. x \<in> set ys \<Longrightarrow> f x = g x) \<Longrightarrow> try_all f xs = try_all g ys"
proof (induction xs arbitrary: ys)
  case (Cons x xs)
  then show ?case by (cases "g x") auto
qed simp

fun reject_reserved_alias_fields :: "json \<Rightarrow> (unit, api_error) result" where
  "reject_reserved_alias_fields (JObject object) =
     (if list_ex (\<lambda>field. field \<in> set (map fst object)) RESERVED_NETWORK_ALIAS_FIELDS then Err api_invalid_request
      else try_all (\<lambda>(k, v). reject_reserved_alias_fields v) object)"
| "reject_reserved_alias_fields (JArray vs) = try_all reject_reserved_alias_fields vs"
| "reject_reserved_alias_fields _ = Ok ()"

record single_balance_request =
  sb_as_of :: as_of_request
  sb_account :: onchain_account_request
  sb_quote_currency :: string
  sb_tokens :: token_selector

record bulk_balance_request =
  bb_as_of :: as_of_request
  bb_accounts :: "onchain_account_request list"
  bb_quote_currency :: string
  bb_tokens :: token_selector

definition single_request_of :: "json_object \<Rightarrow> (single_balance_request, api_error) result" where
  "single_request_of request =
     and_then (reject_reserved_alias_fields (JObject request)) (\<lambda>_.
     and_then (reject_unknown_fields request SINGLE_BALANCE_FIELDS) (\<lambda>_.
     and_then (validate_as_of_object (map_of request ''as_of'')) (\<lambda>as_of.
     and_then (validate_account_object (map_of request ''account'') SUPPORTED_BALANCE_NETWORK_SLUGS) (\<lambda>account.
     and_then (validate_required_string (map_of request ''quote_currency'')) (\<lambda>quote_currency.
     and_then (validate_required_non_empty_tokens_object (map_of request ''tokens'')) (\<lambda>tokens.
     Ok \<lparr>sb_as_of = as_of, sb_account = account, sb_quote_currency = quote_currency, sb_tokens = tokens\<rparr>))))))"

definition bulk_request_of :: "json_object \<Rightarrow> (bulk_balance_request, api_error) result" where
  "bulk_request_of request =
     and_then (reject_reserved_alias_fields (JObject request)) (\<lambda>_.
     and_then (reject_unknown_fields request BULK_BALANCE_FIELDS) (\<lambda>_.
     and_then (validate_as_of_object (map_of request ''as_of'')) (\<lambda>as_of.
     and_then (validate_account_array (map_of request ''accounts'') SUPPORTED_BALANCE_NETWORK_SLUGS) (\<lambda>accounts.
     and_then (validate_required_string (map_of request ''quote_currency'')) (\<lambda>quote_currency.
     and_then (validate_required_non_empty_tokens_object (map_of request ''tokens'')) (\<lambda>tokens.
     Ok \<lparr>bb_as_of = as_of, bb_accounts = accounts, bb_quote_currency = quote_currency, bb_tokens = tokens\<rparr>))))))"

definition single_request_from ::
  "(string \<Rightarrow> json option) \<Rightarrow> string option \<Rightarrow> string \<Rightarrow> (single_balance_request, api_error) result" where
  "single_request_from from_slice content_type body =
     and_then (map_err (\<lambda>_. api_invalid_request) (ensure_json_content_type content_type)) (\<lambda>_.
     and_then (map_err (\<lambda>_. api_invalid_request) (parse_json_object_body from_slice body)) single_request_of)"

definition bulk_request_from ::
  "(string \<Rightarrow> json option) \<Rightarrow> string option \<Rightarrow> string \<Rightarrow> (bulk_balance_request, api_error) result" where
  "bulk_request_from from_slice content_type body =
     and_then (map_err (\<lambda>_. api_invalid_request) (ensure_json_content_type content_type)) (\<lambda>_.
     and_then (map_err (\<lambda>_. api_invalid_request) (parse_json_object_body from_slice body)) bulk_request_of)"

fun command_error_to_api_error :: "get_balances_command_error \<Rightarrow> api_error" where
  "command_error_to_api_error EmptyAccounts = api_empty_accounts"
| "command_error_to_api_error EmptyTokens = api_empty_tokens"
| "command_error_to_api_error CommandTooLarge = api_request_too_large"
| "command_error_to_api_error UnsupportedQuoteCurrency = api_unsupported_quote_currency"
| "command_error_to_api_error InvalidAccount = api_invalid_account"
| "command_error_to_api_error DuplicateAccount = api_duplicate_account"
| "command_error_to_api_error DuplicateAsset = api_duplicate_asset"

definition account_of_request :: "onchain_account_request \<Rightarrow> onchain_account" where
  "account_of_request a =
     \<lparr>oa_network_slug = oq_network_slug a, oa_address = oq_address a, oa_client_ref = oq_client_ref a\<rparr>"

definition command_from_request_parts ::
  "as_of_request \<Rightarrow> onchain_account_request list \<Rightarrow> string \<Rightarrow> token_selector \<Rightarrow>
   (get_balances_command, api_error) result" where
  "command_from_request_parts as_of accounts quote_currency tokens =
     and_then (as_of_try_from as_of) (\<lambda>as_of.
     map_err command_error_to_api_error (try_new as_of (map account_of_request accounts) quote_currency tokens))"

definition single_command :: "single_balance_request \<Rightarrow> (get_balances_command, api_error) result" where
  "single_command request =
     command_from_request_parts (sb_as_of request) [sb_account request] (sb_quote_currency request) (sb_tokens request)"

definition bulk_command :: "bulk_balance_request \<Rightarrow> (get_balances_command, api_error) result" where
  "bulk_command request =
     command_from_request_parts (bb_as_of request) (bb_accounts request) (bb_quote_currency request) (bb_tokens request)"

section \<open>Transfer requests\<close>

definition SUPPORTED_ERC20_TRANSFER_NETWORK_SLUGS :: "string list" where
  "SUPPORTED_ERC20_TRANSFER_NETWORK_SLUGS = [''eth-mainnet'']"

definition TOP_LEVEL_FIELDS :: "string list" where
  "TOP_LEVEL_FIELDS = [''account'', ''direction'', ''tokens'', ''window'']"

record erc20_transfer_search_request =
  tr_account :: onchain_account_request
  tr_direction :: transfer_direction
  tr_tokens :: "token_selector option"
  tr_window :: onchain_window_dto

definition transfer_request_of :: "json_object \<Rightarrow> (erc20_transfer_search_request, api_error) result" where
  "transfer_request_of request =
     and_then (reject_unknown_fields request TOP_LEVEL_FIELDS) (\<lambda>_.
     and_then (validate_account_object (map_of request ''account'') SUPPORTED_ERC20_TRANSFER_NETWORK_SLUGS) (\<lambda>account.
     and_then (direction_try_from (map_of request ''direction'')) (\<lambda>direction.
     and_then (validate_optional_token_filters (map_of request ''tokens'')) (\<lambda>tokens.
     and_then (validate_window (map_of request ''window'')) (\<lambda>window.
     Ok \<lparr>tr_account = account, tr_direction = direction, tr_tokens = tokens, tr_window = window\<rparr>)))))"

section \<open>Reserved keys\<close>

text \<open>The keys of all objects inside a value.\<close>

fun json_keys :: "json \<Rightarrow> string set" where
  "json_keys (JObject entries) = set (map fst entries) \<union> \<Union> (set (map (\<lambda>(k, v). json_keys v) entries))"
| "json_keys (JArray xs) = \<Union> (set (map json_keys xs))"
| "json_keys _ = {}"

lemma reject_reserved_iff:
  "reject_reserved_alias_fields j = Ok u \<longleftrightarrow> json_keys j \<inter> {''chain'', ''chain_id'', ''chain_slug''} = {}"
proof (induction j rule: reject_reserved_alias_fields.induct)
  case (1 object)
  have "try_all (\<lambda>(k, v). reject_reserved_alias_fields v) object = Ok u \<longleftrightarrow>
      (\<forall>(k, v)\<in>set object. json_keys v \<inter> {''chain'', ''chain_id'', ''chain_slug''} = {})"
    if "\<not> list_ex (\<lambda>field. field \<in> set (map fst object)) RESERVED_NETWORK_ALIAS_FIELDS"
    using 1[OF that] by (auto simp: try_all_Ok_iff)
  then show ?case by (auto simp: RESERVED_NETWORK_ALIAS_FIELDS_def)
next
  case (2 vs)
  then show ?case by (auto simp: try_all_Ok_iff)
qed auto

section \<open>Accepted requests\<close>

definition lowercase_address :: "string \<Rightarrow> bool" where
  "lowercase_address a \<longleftrightarrow> is_evm_address a \<and> to_ascii_lowercase a = a"

lemma hexdigit_lower: "is_ascii_hexdigit c \<Longrightarrow> is_ascii_hexdigit (ascii_lower c)"
  by (auto simp: is_ascii_hexdigit_def is_ascii_digit_def ascii_lower_byte)

lemma evm_address_lower:
  assumes "is_evm_address a"
  shows "lowercase_address (to_ascii_lowercase a)"
proof -
  obtain b where b: "a = ''0x'' @ b" using assms by (auto simp: is_evm_address_def starts_with_iff)
  have "to_ascii_lowercase a = ''0x'' @ to_ascii_lowercase b" "length (to_ascii_lowercase b) = length b"
    by (simp_all add: b to_ascii_lowercase_def ascii_lower_def)
  moreover have "to_ascii_lowercase (to_ascii_lowercase a) = to_ascii_lowercase a" by (rule to_ascii_lowercase_idem)
  moreover have "list_all is_ascii_hexdigit (to_ascii_lowercase b)" if "list_all is_ascii_hexdigit b"
    using that hexdigit_lower by (auto simp: to_ascii_lowercase_def list_all_iff)
  ultimately show ?thesis
    using assms by (auto simp: b lowercase_address_def is_evm_address_def starts_with_def)
qed

lemma validate_address_Ok: "validate_address v = Ok a \<Longrightarrow> lowercase_address a"
  by (auto simp: validate_address_def evm_address_lower split: option.splits json.splits if_splits)

lemma validate_account_Ok:
  "validate_account_object v networks = Ok a \<Longrightarrow> oq_network_slug a \<in> set networks \<and> lowercase_address (oq_address a)"
  by (auto simp: validate_account_object_def and_then_Ok_iff validate_account_network_slug_def Let_def
      dest: validate_address_Ok split: option.splits json.splits if_splits)

lemma try_map_Ok_set: "try_map f xs = Ok ys \<Longrightarrow> y \<in> set ys \<Longrightarrow> \<exists>x\<in>set xs. f x = Ok y"
  by (metis try_map_Ok_length try_map_Ok_nth in_set_conv_nth)

lemma validate_accounts_Ok:
  "validate_account_array v networks = Ok accounts \<Longrightarrow>
     \<forall>a\<in>set accounts. oq_network_slug a \<in> set networks \<and> lowercase_address (oq_address a)"
  by (fastforce simp: validate_account_array_def dest: try_map_Ok_set validate_account_Ok
      split: option.splits json.splits)

lemma validate_asset_slugs_Ok: "validate_asset_slugs v = Ok slugs \<Longrightarrow> s \<in> set slugs \<Longrightarrow> is_asset_slug s"
  by (fastforce simp: validate_asset_slugs_def dest!: try_map_Ok_set split: option.splits json.splits if_splits)

lemma validate_contracts_Ok:
  "validate_contract_addresses v = Ok contracts \<Longrightarrow> c \<in> set contracts \<Longrightarrow> lowercase_address c"
  by (fastforce simp: validate_contract_addresses_def dest!: try_map_Ok_set intro: evm_address_lower
      split: option.splits json.splits if_splits)

lemma validate_tokens_Ok:
  assumes "validate_required_non_empty_tokens_object v = Ok tokens"
  shows "\<forall>s\<in>set (ts_asset_slugs tokens). is_asset_slug s"
    and "\<forall>c\<in>set (ts_contract_addresses tokens). lowercase_address c"
  using assms
  by (auto simp: validate_required_non_empty_tokens_object_def and_then_Ok_iff
      dest: validate_asset_slugs_Ok validate_contracts_Ok split: option.splits json.splits if_splits)

fun as_of_well_formed :: "as_of \<Rightarrow> bool" where
  "as_of_well_formed Latest = True"
| "as_of_well_formed (AsOfTimestamp t) = (parse_rfc3339 t \<noteq> None)"
| "as_of_well_formed (AsOfBlockNumber n) = (n \<noteq> [] \<and> list_all is_ascii_digit n)"

lemma validate_optional_string_Ok: "validate_optional_string v \<noteq> Ok (Some [])"
  by (auto simp: validate_optional_string_def split: option.splits json.splits if_splits)

lemma as_of_Ok:
  assumes "validate_as_of_object v = Ok r" "as_of_try_from r = Ok a"
  shows "as_of_well_formed a"
proof -
  have "aor_block_number r \<noteq> Some []"
    using assms(1) validate_optional_string_Ok
    by (auto simp: validate_as_of_object_def and_then_Ok_iff split: option.splits json.splits)
  then show ?thesis using assms(2) by (auto simp: as_of_try_from_def split: if_splits option.splits)
qed

text \<open>What the balance service may rely on.\<close>

definition well_formed_command :: "get_balances_command \<Rightarrow> bool" where
  "well_formed_command c \<longleftrightarrow>
     as_of_well_formed (gb_as_of c) \<and>
     0 < length (gb_accounts c) \<and> length (gb_accounts c) \<le> MAX_ACCOUNTS \<and>
     (\<forall>a\<in>set (gb_accounts c). oa_network_slug a \<in> set SUPPORTED_BALANCE_NETWORK_SLUGS \<and> lowercase_address (oa_address a)) \<and>
     distinct (map (\<lambda>a. (oa_network_slug a, oa_address a)) (gb_accounts c)) \<and>
     0 < token_selector_len (gb_tokens c) \<and> token_selector_len (gb_tokens c) \<le> MAX_TOKENS \<and>
     distinct (ts_asset_slugs (gb_tokens c)) \<and> (\<forall>s\<in>set (ts_asset_slugs (gb_tokens c)). is_asset_slug s) \<and>
     distinct (ts_contract_addresses (gb_tokens c)) \<and> (\<forall>a\<in>set (ts_contract_addresses (gb_tokens c)). lowercase_address a) \<and>
     gb_quote_currency c \<in> {''USD'', ''MXN'', ''USDC'', ''BTC''}"

lemma lowercase_map: "\<forall>x\<in>set xs. lowercase_address x \<Longrightarrow> map to_ascii_lowercase xs = xs"
  by (simp add: lowercase_address_def map_idI)

lemma command_parts_well_formed:
  assumes c: "command_from_request_parts as_of accounts quote_currency tokens = Ok c"
    and as_of: "validate_as_of_object v = Ok as_of"
    and accounts: "\<forall>a\<in>set accounts. oq_network_slug a \<in> set SUPPORTED_BALANCE_NETWORK_SLUGS \<and> lowercase_address (oq_address a)"
    and tokens: "validate_required_non_empty_tokens_object t = Ok tokens"
  shows "well_formed_command c" "gb_accounts c = map account_of_request accounts"
    "ts_asset_slugs (gb_tokens c) = ts_asset_slugs tokens"
    "set (ts_contract_addresses (gb_tokens c)) = set (ts_contract_addresses tokens)"
proof -
  note t = validate_tokens_Ok[OF tokens]
  obtain a where a: "as_of_try_from as_of = Ok a"
    and n: "try_new a (map account_of_request accounts) quote_currency tokens = Ok c"
    using c by (auto simp: command_from_request_parts_def and_then_Ok_iff map_err_Ok_iff)
  have lower: "map (\<lambda>a. (oa_network_slug a, to_ascii_lowercase (oa_address a))) (map account_of_request accounts) =
      map (\<lambda>a. (oa_network_slug a, oa_address a)) (map account_of_request accounts)"
    using accounts by (simp add: account_of_request_def lowercase_address_def)
  have sel: "gb_tokens c = \<lparr>ts_asset_slugs = ts_asset_slugs tokens,
      ts_contract_addresses = keep_unseen (\<lambda>a. a) {} (ts_contract_addresses tokens)\<rparr>"
    using n lowercase_map[OF t(2)] by (auto simp: try_new_def Let_def and_then_Ok_iff split: if_splits)
  show acc: "gb_accounts c = map account_of_request accounts"
    using n by (auto simp: try_new_def Let_def and_then_Ok_iff split: if_splits)
  show "ts_asset_slugs (gb_tokens c) = ts_asset_slugs tokens" by (simp add: sel)
  show cs: "set (ts_contract_addresses (gb_tokens c)) = set (ts_contract_addresses tokens)"
    using set_keep_unseen[of "\<lambda>a. a" "{}" "ts_contract_addresses tokens"] by (simp add: sel)
  have "distinct (map (\<lambda>a. (oa_network_slug a, to_ascii_lowercase (oa_address a))) (map account_of_request accounts))"
    using n by (auto simp: try_new_def Let_def and_then_Ok_iff all_unseen_iff split: if_splits)
  then have "distinct (map (\<lambda>a. (oa_network_slug a, oa_address a)) (map account_of_request accounts))"
    unfolding lower .
  moreover have "gb_as_of c = a" "accounts \<noteq> []" "length accounts \<le> MAX_ACCOUNTS" "token_selector_len (gb_tokens c) \<le> MAX_TOKENS"
    "gb_quote_currency c \<in> {''USD'', ''MXN'', ''USDC'', ''BTC''}" "distinct (ts_asset_slugs tokens)"
    using n by (auto simp: try_new_def Let_def and_then_Ok_iff all_unseen_iff token_selector_len_def split: if_splits)
  moreover have "0 < token_selector_len (gb_tokens c)"
    using n cs by (auto simp: try_new_def Let_def and_then_Ok_iff token_selector_len_def sel split: if_splits)
  moreover have "distinct (keep_unseen (\<lambda>a. a) {} (ts_contract_addresses tokens))"
    using distinct_keep_unseen[of "\<lambda>a. a"] by simp
  ultimately show "well_formed_command c"
    using as_of_Ok[OF as_of a] accounts t cs
    by (auto simp: well_formed_command_def acc sel account_of_request_def)
qed

lemma bulk_request_Ok:
  assumes "bulk_request_from from_slice content_type body = Ok request"
  obtains object where "from_slice body = Some (JObject object)" "bulk_request_of object = Ok request"
proof -
  obtain object where "parse_json_object_body from_slice body = Ok object" "bulk_request_of object = Ok request"
    using assms by (auto simp: bulk_request_from_def and_then_Ok_iff map_err_Ok_iff)
  moreover from this(1) obtain j where "from_slice body = Some j" "j = JObject object"
    by (cases "from_slice body") (auto simp: parse_json_object_body_def and_then_Ok_iff ok_or_Ok_iff split: json.splits)
  ultimately show thesis using that by blast
qed

text \<open>
  C35. A balance request that is accepted gives the balance service a well-formed command: a point in time that
  can be read, 1 to 50 accounts on supported networks with lower-case addresses that are distinct, 1 to 20
  tokens with valid and distinct slugs and lower-case contract addresses, and a supported currency; the accounts
  are those of the request, and no object of the body, at any depth, has one of the reserved keys.
\<close>

theorem accepted_requests_well_formed:
  assumes "bulk_request_from from_slice content_type body = Ok request"
    and "bulk_command request = Ok c"
  shows "well_formed_command c \<and> gb_accounts c = map account_of_request (bb_accounts request) \<and>
    (\<exists>object. from_slice body = Some (JObject object) \<and>
       json_keys (JObject object) \<inter> {''chain'', ''chain_id'', ''chain_slug''} = {})"
proof -
  obtain object where o: "from_slice body = Some (JObject object)" "bulk_request_of object = Ok request"
    using bulk_request_Ok[OF assms(1)] .
  then have "reject_reserved_alias_fields (JObject object) = Ok ()"
    and v: "validate_as_of_object (map_of object ''as_of'') = Ok (bb_as_of request)"
      "validate_account_array (map_of object ''accounts'') SUPPORTED_BALANCE_NETWORK_SLUGS = Ok (bb_accounts request)"
      "validate_required_non_empty_tokens_object (map_of object ''tokens'') = Ok (bb_tokens request)"
    by (auto simp: bulk_request_of_def and_then_Ok_iff simp del: reject_reserved_alias_fields.simps)
  then have "json_keys (JObject object) \<inter> {''chain'', ''chain_id'', ''chain_slug''} = {}"
    using reject_reserved_iff by blast
  then show ?thesis
    using command_parts_well_formed(1,2)[OF assms(2)[unfolded bulk_command_def] v(1) validate_accounts_Ok[OF v(2)] v(3)] o(1)
    by blast
qed

definition bulk_object :: json_object where
  "bulk_object =
     [(''as_of'', JObject [(''kind'', JString ''block_number''), (''block_number'', JString ''123'')]),
      (''accounts'', JArray [JObject [(''network_slug'', JString ''eth-mainnet''),
         (''address'', JString ''0xABCDEF0123456789abcdef0123456789ABCDEF01'')]]),
      (''quote_currency'', JString ''usd''),
      (''tokens'', JObject [(''asset_slugs'', JArray [JString ''ethereum''])])]"

theorem accepted_requests_well_formed_witness:
  "\<exists>request c.
     bulk_request_from (\<lambda>_. Some (JObject bulk_object)) (Some ''Application/JSON; charset=utf-8'') [] = Ok request \<and>
     bulk_command request = Ok c \<and> well_formed_command c \<and>
     map oa_address (gb_accounts c) = [''0xabcdef0123456789abcdef0123456789abcdef01''] \<and>
     gb_as_of c = AsOfBlockNumber ''123''"
proof -
  let ?request = "\<lparr>bb_as_of = \<lparr>aor_kind = ''block_number'', aor_timestamp = None, aor_block_number = Some ''123''\<rparr>,
    bb_accounts = [\<lparr>oq_network_slug = ''eth-mainnet'', oq_address = ''0xabcdef0123456789abcdef0123456789abcdef01'', oq_client_ref = None\<rparr>],
    bb_quote_currency = ''usd'', bb_tokens = \<lparr>ts_asset_slugs = [''ethereum''], ts_contract_addresses = []\<rparr>\<rparr>"
  let ?c = "\<lparr>gb_as_of = AsOfBlockNumber ''123'',
    gb_accounts = [\<lparr>oa_network_slug = ''eth-mainnet'', oa_address = ''0xabcdef0123456789abcdef0123456789abcdef01'', oa_client_ref = None\<rparr>],
    gb_tokens = \<lparr>ts_asset_slugs = [''ethereum''], ts_contract_addresses = []\<rparr>, gb_quote_currency = ''USD''\<rparr>"
  have r: "bulk_request_from (\<lambda>_. Some (JObject bulk_object)) (Some ''Application/JSON; charset=utf-8'') [] = Ok ?request"
    by code_simp
  have addr: "is_evm_address ''0xabcdef0123456789abcdef0123456789abcdef01''" by code_simp
  have cur: "to_ascii_uppercase (trim ''usd'') = ''USD''" "list_all is_ascii_digit ''123''" by code_simp+
  have c: "bulk_command ?request = Ok ?c"
    by (simp add: bulk_command_def command_from_request_parts_def as_of_try_from_def try_new_def addr cur
        is_ascii_digit_def checked_mul_usize_def account_of_request_def MAX_ACCOUNTS_def MAX_TOKENS_def MAX_RESOLUTION_ITEMS_def)
  have "well_formed_command ?c" using accepted_requests_well_formed[OF r c] by blast
  then show ?thesis using r c by (intro exI[of _ ?request] exI[of _ ?c] conjI) simp_all
qed

section \<open>Accepted windows\<close>

text \<open>The three shapes of a window: the keys, in either order, and their values.\<close>

definition two_entries :: "json_object \<Rightarrow> string \<Rightarrow> json \<Rightarrow> string \<Rightarrow> json \<Rightarrow> bool" where
  "two_entries window k v l w \<longleftrightarrow> window = [(k, v), (l, w)] \<or> window = [(l, w), (k, v)]"

fun window_denotes :: "json_object \<Rightarrow> onchain_window_dto \<Rightarrow> bool" where
  "window_denotes window (DtoBlock a b) \<longleftrightarrow>
     two_entries window ''from_block'' (JInt (int a)) ''to_block'' (JInt (int b)) \<and> b < 2 ^ 64 \<and> a \<le> b"
| "window_denotes window (DtoTimestamps a b) \<longleftrightarrow>
     two_entries window ''from_timestamp'' (JString a) ''to_timestamp'' (JString b) \<and>
     (\<exists>s t. parse_rfc3339 a = Some s \<and> parse_rfc3339 b = Some t \<and> compare_rfc3339 s t \<noteq> Greater)"
| "window_denotes window (DtoLookback n) \<longleftrightarrow>
     two_entries window ''lookback_seconds'' (JInt (int n)) ''to'' (JString ''latest'') \<and> 0 < n \<and> n < 2 ^ 64"

lemma two_entries_iff:
  assumes "distinct (map fst window)" "k \<noteq> l"
  shows "two_entries window k v l w \<longleftrightarrow> length window = 2 \<and> map_of window k = Some v \<and> map_of window l = Some w"
proof
  assume "length window = 2 \<and> map_of window k = Some v \<and> map_of window l = Some w"
  moreover from this obtain x y where "window = [x, y]" by (auto simp: length_Suc_conv numeral_2_eq_2)
  ultimately show "two_entries window k v l w" using assms by (cases x; cases y) (auto simp: two_entries_def split: if_splits)
qed (use assms in \<open>auto simp: two_entries_def\<close>)

lemma as_u64_iff: "as_u64 j = Some n \<longleftrightarrow> j = JInt (int n) \<and> n < 2 ^ 64"
  by (cases j) auto

lemma json_str_iff: "json_str j = Some s \<longleftrightarrow> j = JString s"
  by (cases j) auto

lemma block_window_iff:
  assumes "distinct (map fst window)"
  shows "validate_block_window window = Ok d \<longleftrightarrow> (\<exists>a b. d = DtoBlock a b) \<and> window_denotes window d"
  using assms
  by (cases d) (auto simp: validate_block_window_def and_then_Ok_iff ok_or_Ok_iff bind_eq_Some_conv as_u64_iff
      two_entries_iff not_less intro!: exI intro: le_less_trans)

lemma timestamp_window_iff:
  assumes "distinct (map fst window)"
  shows "validate_timestamp_window window = Ok d \<longleftrightarrow> (\<exists>a b. d = DtoTimestamps a b) \<and> window_denotes window d"
  using assms
  by (cases d) (auto simp: validate_timestamp_window_def and_then_Ok_iff ok_or_Ok_iff bind_eq_Some_conv json_str_iff two_entries_iff)

lemma lookback_window_iff:
  assumes "distinct (map fst window)"
  shows "validate_lookback_window window = Ok d \<longleftrightarrow> (\<exists>n. d = DtoLookback n) \<and> window_denotes window d"
  using assms
  by (cases d) (auto simp: validate_lookback_window_def and_then_Ok_iff ok_or_Ok_iff bind_eq_Some_conv json_str_iff as_u64_iff two_entries_iff)

lemma denotes_fields:
  "window_denotes window d \<Longrightarrow> reject_unknown_window_fields window = Ok ()"
  by (cases d) (auto simp: two_entries_def reject_unknown_window_fields_def WINDOW_FIELDS_def)

text \<open>
  C36. The windows that a transfer search accepts are exactly these: an object with the two keys of a range of
  blocks, of a range of timestamps that are not reversed, or of a positive number of seconds back from the
  latest block; and an accepted window becomes the window of the domain with the same bounds, never an error.
\<close>

theorem window_grammar:
  assumes "distinct (map fst window)"
  shows "(validate_window (Some (JObject window)) = Ok d \<longleftrightarrow> window_denotes window d) \<and>
    (window_denotes window d \<longrightarrow> (\<exists>w. window_try_from d = Ok w \<and> window_dto_of w = d))"
proof -
  have "window_denotes window d" if "validate_window (Some (JObject window)) = Ok d"
    using that block_window_iff[OF assms] timestamp_window_iff[OF assms] lookback_window_iff[OF assms]
    by (auto simp: validate_window_def and_then_Ok_iff Let_def split: if_splits)
  moreover have "validate_window (Some (JObject window)) = Ok d" if d: "window_denotes window d"
  proof -
    note fields = denotes_fields[OF d]
    consider "\<exists>a b. d = DtoBlock a b" "validate_window (Some (JObject window)) = validate_block_window window"
      | "\<exists>a b. d = DtoTimestamps a b" "validate_window (Some (JObject window)) = validate_timestamp_window window"
      | "\<exists>n. d = DtoLookback n" "validate_window (Some (JObject window)) = validate_lookback_window window"
      using d fields by (cases d) (auto simp: validate_window_def two_entries_def)
    then show ?thesis
      using block_window_iff[OF assms, of d] timestamp_window_iff[OF assms, of d] lookback_window_iff[OF assms, of d] d
      by cases simp_all
  qed
  moreover have "\<exists>w. window_try_from d = Ok w \<and> window_dto_of w = d" if "window_denotes window d"
    using that
    by (cases d) (auto simp: block_window_new_def timestamp_window_new_def lookback_window_latest_def)
  ultimately show ?thesis by blast
qed

theorem window_grammar_witness:
  "validate_window (Some (JObject [(''to'', JString ''latest''), (''lookback_seconds'', JInt 86400)])) = Ok (DtoLookback 86400) \<and>
   \<not> (\<exists>n. validate_window (Some (JObject [(''to'', JString ''latest''), (''lookback_seconds'', JInt 0)])) = Ok n)"
proof -
  have "distinct (map fst [(''to'', JString ''latest''), (''lookback_seconds'', JInt n)])" for n by simp
  note g = window_grammar[OF this]
  have "window_denotes [(''to'', JString ''latest''), (''lookback_seconds'', JInt 86400)] (DtoLookback 86400)"
    by (simp add: two_entries_def)
  moreover have "\<not> window_denotes [(''to'', JString ''latest''), (''lookback_seconds'', JInt 0)] d" for d
    by (cases d) (auto simp: two_entries_def)
  ultimately show ?thesis using g by blast
qed

end
