(* ===== verification/Access.thy ===== *)
theory Access
  imports Prelude
begin

text \<open>
  API keys and product authorization: \<open>src/domain/api_keys.rs\<close> and \<open>src/domain/capabilities.rs\<close>.
  The random source and the hexadecimal encoder of the \<open>hex\<close> crate are parameters. The lemmas give
  the exact grammar of a presented key, that generated keys satisfy it, and that a request is
  allowed exactly when every layer of grants permits it.
\<close>

section \<open>\<open>src/domain/api_keys.rs\<close>\<close>

definition KEY_PREFIX_MARKER :: string where
  "KEY_PREFIX_MARKER = ''ib_live_''"

definition RANDOM_PREFIX_BYTES :: nat where
  "RANDOM_PREFIX_BYTES = 8"

definition RANDOM_SECRET_BYTES :: nat where
  "RANDOM_SECRET_BYTES = 32"

definition RANDOM_PREFIX_HEX_LEN :: nat where
  "RANDOM_PREFIX_HEX_LEN = RANDOM_PREFIX_BYTES * 2"

definition RANDOM_SECRET_HEX_LEN :: nat where
  "RANDOM_SECRET_HEX_LEN = RANDOM_SECRET_BYTES * 2"

record raw_api_key =
  rk_value :: string

record parsed_api_key =
  pk_key_prefix :: string

datatype api_key_format_error =
    MissingSeparator
  | MultipleSeparators
  | UnsupportedPrefix
  | InvalidRandomPrefix
  | InvalidSecret

record api_key_generation_error =
  kg_message :: string

definition is_lower_hex :: "string \<Rightarrow> bool" where
  "is_lower_hex s \<longleftrightarrow> list_all (\<lambda>c. is_ascii_digit c \<or> (97 \<le> byte c \<and> byte c \<le> 102)) s"

definition parse_presented_api_key ::
  "string \<Rightarrow> (parsed_api_key, api_key_format_error) result" where
  "parse_presented_api_key s =
     and_then (ok_or (split_once CHR ''.'' s) MissingSeparator) (\<lambda>(key_prefix, secret).
       if CHR ''.'' \<in> set secret then Err MultipleSeparators
       else if \<not> starts_with key_prefix KEY_PREFIX_MARKER then Err UnsupportedPrefix
       else
         let random_prefix = drop (length KEY_PREFIX_MARKER) key_prefix
         in if length random_prefix \<noteq> RANDOM_PREFIX_HEX_LEN \<or> \<not> is_lower_hex random_prefix
            then Err InvalidRandomPrefix
            else if length secret \<noteq> RANDOM_SECRET_HEX_LEN \<or> \<not> is_lower_hex secret
            then Err InvalidSecret
            else Ok \<lparr>pk_key_prefix = key_prefix\<rparr>)"

text \<open>
  \<open>RawApiKey::generate\<close>: \<open>prefix\<close> and \<open>secret\<close> are the outcomes of the two calls of
  \<open>getrandom::fill\<close> on buffers of 8 and 32 bytes (an error carries its message), \<open>hex_encode\<close> is
  \<open>hex::encode\<close>.
\<close>

definition generate ::
  "(nat list \<Rightarrow> string) \<Rightarrow> (nat list, string) result \<Rightarrow> (nat list, string) result \<Rightarrow>
   (raw_api_key, api_key_generation_error) result" where
  "generate hex_encode prefix_fill secret_fill =
     and_then (map_err (\<lambda>message. \<lparr>kg_message = message\<rparr>) prefix_fill) (\<lambda>prefix_bytes.
     and_then (map_err (\<lambda>message. \<lparr>kg_message = message\<rparr>) secret_fill) (\<lambda>secret.
       Ok \<lparr>rk_value = KEY_PREFIX_MARKER @ hex_encode prefix_bytes @ ''.'' @ hex_encode secret\<rparr>))"

definition parse_raw :: "raw_api_key \<Rightarrow> (parsed_api_key, api_key_format_error) result" where
  "parse_raw key = parse_presented_api_key (rk_value key)"

definition key_prefix_of :: "raw_api_key \<Rightarrow> (string, api_key_format_error) result" where
  "key_prefix_of key = and_then (parse_raw key) (\<lambda>parsed. Ok (pk_key_prefix parsed))"

section \<open>\<open>src/domain/capabilities.rs\<close>\<close>

datatype capability =
    BalancesRead
  | Erc20TransfersRead
  | WorkspaceActivityRead
  | CatalogRead
  | PricesRead
  | ScanRead
  | LabRead
  | TreasuryRead
  | TreasurySnapshotWrite
  | ReportsRead
  | ReportsWrite

definition ALL_CAPABILITIES :: "capability list" where
  "ALL_CAPABILITIES =
    [BalancesRead, Erc20TransfersRead, WorkspaceActivityRead, CatalogRead, PricesRead, ScanRead,
     LabRead, TreasuryRead, TreasurySnapshotWrite, ReportsRead, ReportsWrite]"

definition LEGACY_BASELINE :: "capability list" where
  "LEGACY_BASELINE = [BalancesRead, Erc20TransfersRead]"

definition ACCOUNT_BASELINE :: "capability list" where
  "ACCOUNT_BASELINE = [BalancesRead, Erc20TransfersRead, WorkspaceActivityRead]"

definition DATALAB_BROWSER_BASELINE :: "capability list" where
  "DATALAB_BROWSER_BASELINE =
    [CatalogRead, PricesRead, ScanRead, LabRead, TreasuryRead, TreasurySnapshotWrite]"

fun capability_id :: "capability \<Rightarrow> string" where
  "capability_id BalancesRead = ''balances.read''"
| "capability_id Erc20TransfersRead = ''transfers.read''"
| "capability_id WorkspaceActivityRead = ''workspace.activity.read''"
| "capability_id CatalogRead = ''catalog.read''"
| "capability_id PricesRead = ''prices.read''"
| "capability_id ScanRead = ''scan.read''"
| "capability_id LabRead = ''lab.read''"
| "capability_id TreasuryRead = ''treasury.read''"
| "capability_id TreasurySnapshotWrite = ''treasury.snapshot.write''"
| "capability_id ReportsRead = ''reports.read''"
| "capability_id ReportsWrite = ''reports.write''"

definition capability_parse :: "string \<Rightarrow> capability option" where
  "capability_parse s = find (\<lambda>c. capability_id c = s) ALL_CAPABILITIES"

datatype network_scope = Any | Exact string

definition network_scope_parse :: "string \<Rightarrow> network_scope option" where
  "network_scope_parse s = (if s = ''*'' then Some Any else if s = [] then None else Some (Exact s))"

fun scope_permits :: "network_scope \<Rightarrow> string option \<Rightarrow> bool" where
  "scope_permits Any _ = True"
| "scope_permits (Exact _) None = True"
| "scope_permits (Exact granted) (Some requested) = (granted = requested)"

datatype grant_status = GrantActive | GrantExpired | GrantRevoked

record capability_grant =
  cg_capability :: capability
  cg_network_scope :: network_scope
  cg_status :: grant_status

definition active_grant :: "capability \<Rightarrow> network_scope \<Rightarrow> capability_grant" where
  "active_grant c scope = \<lparr>cg_capability = c, cg_network_scope = scope, cg_status = GrantActive\<rparr>"

record authorization_request =
  ar_capability :: capability
  ar_network_slug :: "string option"

definition route_request :: "capability \<Rightarrow> authorization_request" where
  "route_request c = \<lparr>ar_capability = c, ar_network_slug = None\<rparr>"

definition network_request :: "capability \<Rightarrow> string \<Rightarrow> authorization_request" where
  "network_request c slug = \<lparr>ar_capability = c, ar_network_slug = Some slug\<rparr>"

definition grant_permits :: "capability_grant \<Rightarrow> authorization_request \<Rightarrow> bool" where
  "grant_permits g request \<longleftrightarrow>
     cg_status g = GrantActive \<and> cg_capability g = ar_capability request \<and>
     scope_permits (cg_network_scope g) (ar_network_slug request)"

record authorization_context =
  ac_owner_grants :: "capability_grant list"
  ac_key_grants :: "capability_grant list"
  ac_client_grants :: "capability_grant list option"

datatype authorization_deny = DenyOwner | DenyClient | DenyKey

datatype authorization_decision = Allow | Deny authorization_deny

definition evaluate_authorization ::
  "authorization_context \<Rightarrow> authorization_request \<Rightarrow> authorization_decision" where
  "evaluate_authorization ctx request =
     (if \<not> list_ex (\<lambda>g. grant_permits g request) (ac_owner_grants ctx) then Deny DenyOwner
      else if (case ac_client_grants ctx of
                 Some grants \<Rightarrow> \<not> list_ex (\<lambda>g. grant_permits g request) grants
               | None \<Rightarrow> False) then Deny DenyClient
      else if \<not> list_ex (\<lambda>g. grant_permits g request) (ac_key_grants ctx) then Deny DenyKey
      else Allow)"

section \<open>Keys\<close>

text \<open>The shape of a key: the marker, 16 hexadecimal characters, a dot, 64 hexadecimal characters.\<close>

definition well_formed_key :: "string \<Rightarrow> string \<Rightarrow> bool" where
  "well_formed_key random_prefix secret \<longleftrightarrow>
     length random_prefix = 16 \<and> is_lower_hex random_prefix \<and>
     length secret = 64 \<and> is_lower_hex secret"

definition key_text :: "string \<Rightarrow> string \<Rightarrow> string" where
  "key_text random_prefix secret = ''ib_live_'' @ random_prefix @ ''.'' @ secret"

lemma lower_hex_no_dot: "is_lower_hex s \<Longrightarrow> CHR ''.'' \<notin> set s"
  by (auto simp: is_lower_hex_def list_all_iff is_ascii_digit_def)

lemma marker_no_dot: "CHR ''.'' \<notin> set KEY_PREFIX_MARKER"
  by (simp add: KEY_PREFIX_MARKER_def)

lemma parse_key_text:
  assumes "well_formed_key r s"
  shows "parse_presented_api_key (key_text r s) = Ok \<lparr>pk_key_prefix = ''ib_live_'' @ r\<rparr>"
proof -
  have nd: "CHR ''.'' \<notin> set (''ib_live_'' @ r)" "CHR ''.'' \<notin> set s"
    using assms lower_hex_no_dot by (auto simp: well_formed_key_def)
  have "split_once CHR ''.'' (key_text r s) = Some (''ib_live_'' @ r, s)"
    using split_once_append[OF nd(1), of s] by (simp add: key_text_def)
  with nd(2) assms show ?thesis
    by (simp add: parse_presented_api_key_def KEY_PREFIX_MARKER_def starts_with_def well_formed_key_def
        RANDOM_PREFIX_HEX_LEN_def RANDOM_SECRET_HEX_LEN_def RANDOM_PREFIX_BYTES_def RANDOM_SECRET_BYTES_def)
qed

lemma parse_key_Ok:
  assumes "parse_presented_api_key s = Ok p"
  shows "\<exists>r t. well_formed_key r t \<and> s = key_text r t"
proof -
  obtain a t where a: "split_once CHR ''.'' s = Some (a, t)" "starts_with a KEY_PREFIX_MARKER"
    "length (drop (length KEY_PREFIX_MARKER) a) = 16" "is_lower_hex (drop (length KEY_PREFIX_MARKER) a)"
    "length t = 64" "is_lower_hex t"
    using assms by (auto simp: parse_presented_api_key_def and_then_Ok_iff ok_or_Ok_iff Let_def
        RANDOM_PREFIX_HEX_LEN_def RANDOM_SECRET_HEX_LEN_def RANDOM_PREFIX_BYTES_def RANDOM_SECRET_BYTES_def
        split: if_splits)
  then obtain r where "a = KEY_PREFIX_MARKER @ r" by (auto simp: starts_with_iff)
  with a show ?thesis
    using split_once_SomeD[OF a(1)]
    by (intro exI[of _ r] exI[of _ t]) (auto simp: well_formed_key_def key_text_def KEY_PREFIX_MARKER_def)
qed

section \<open>Properties\<close>

text \<open>
  A presented key is accepted exactly when it is the marker, 16 lower-case hexadecimal
  characters, one dot and 64 lower-case hexadecimal characters, and the part before the dot is
  the prefix under which the key is looked up.
\<close>

theorem presented_key_grammar:
  "parse_presented_api_key s = Ok p \<longleftrightarrow>
     (\<exists>r t. well_formed_key r t \<and> s = key_text r t \<and> p = \<lparr>pk_key_prefix = ''ib_live_'' @ r\<rparr>)"
proof
  assume p: "parse_presented_api_key s = Ok p"
  then obtain r t where "well_formed_key r t" "s = key_text r t" using parse_key_Ok by blast
  with p show "\<exists>r t. well_formed_key r t \<and> s = key_text r t \<and> p = \<lparr>pk_key_prefix = ''ib_live_'' @ r\<rparr>"
    using parse_key_text by (metis result.inject(1))
qed (auto simp: parse_key_text)

text \<open>
  Every key that \<open>RawApiKey::generate\<close> returns is accepted when it is presented, with the
  prefix that \<open>key_prefix\<close> stores for it, provided the hexadecimal encoder writes two lower-case
  hexadecimal characters for each byte and the random source fills the buffers.
\<close>

theorem generated_key_accepted:
  assumes enc: "\<And>bs. length (hex_encode bs) = 2 * length bs \<and> is_lower_hex (hex_encode bs)"
    and fill: "length p = 8" "length s = 32"
  shows "\<exists>key prefix. generate hex_encode (Ok p) (Ok s) = Ok key \<and> key_prefix_of key = Ok prefix \<and>
    parse_presented_api_key (rk_value key) = Ok \<lparr>pk_key_prefix = prefix\<rparr> \<and>
    prefix = ''ib_live_'' @ hex_encode p"
proof -
  have "well_formed_key (hex_encode p) (hex_encode s)"
    using enc[of p] enc[of s] fill by (simp add: well_formed_key_def)
  from parse_key_text[OF this] show ?thesis
    by (simp add: generate_def key_prefix_of_def parse_raw_def key_text_def KEY_PREFIX_MARKER_def)
qed

definition hex_digit_char :: "nat \<Rightarrow> char" where
  "hex_digit_char d = (if d < 10 then char_of (48 + d) else char_of (87 + d))"

theorem generated_key_accepted_witness:
  "\<exists>key prefix. generate (concat \<circ> map (\<lambda>b. [hex_digit_char (b div 16 mod 16), hex_digit_char (b mod 16)]))
      (Ok (replicate 8 171)) (Ok (replicate 32 205)) = Ok key \<and> key_prefix_of key = Ok prefix \<and>
    parse_presented_api_key (rk_value key) = Ok \<lparr>pk_key_prefix = prefix\<rparr> \<and>
    prefix = ''ib_live_'' @
      (concat \<circ> map (\<lambda>b. [hex_digit_char (b div 16 mod 16), hex_digit_char (b mod 16)])) (replicate 8 171)"
proof (rule generated_key_accepted)
  fix bs :: "nat list"
  let ?e = "concat \<circ> map (\<lambda>b. [hex_digit_char (b div 16 mod 16), hex_digit_char (b mod 16)])"
  have h: "is_ascii_digit (hex_digit_char d) \<or>
      (97 \<le> byte (hex_digit_char d) \<and> byte (hex_digit_char d) \<le> 102)" if "d < 16" for d
    using that by (auto simp: hex_digit_char_def is_ascii_digit_def)
  show "length (?e bs) = 2 * length bs \<and> is_lower_hex (?e bs)"
    by (induction bs) (simp_all add: is_lower_hex_def h)
qed simp_all

text \<open>
  A request is allowed exactly when the owner's, the key's and, for agent keys, the client's
  grants each contain an active grant for the capability whose network scope permits the request;
  otherwise the decision names the first layer that does not.
\<close>

theorem authorization_is_intersection:
  "case evaluate_authorization ctx request of
     Allow \<Rightarrow>
       (\<exists>g\<in>set (ac_owner_grants ctx). grant_permits g request) \<and>
       (case ac_client_grants ctx of None \<Rightarrow> True
        | Some grants \<Rightarrow> \<exists>g\<in>set grants. grant_permits g request) \<and>
       (\<exists>g\<in>set (ac_key_grants ctx). grant_permits g request)
   | Deny DenyOwner \<Rightarrow> \<not> (\<exists>g\<in>set (ac_owner_grants ctx). grant_permits g request)
   | Deny DenyClient \<Rightarrow>
       (\<exists>g\<in>set (ac_owner_grants ctx). grant_permits g request) \<and>
       (\<exists>grants. ac_client_grants ctx = Some grants \<and> \<not> (\<exists>g\<in>set grants. grant_permits g request))
   | Deny DenyKey \<Rightarrow>
       (\<exists>g\<in>set (ac_owner_grants ctx). grant_permits g request) \<and>
       (case ac_client_grants ctx of None \<Rightarrow> True
        | Some grants \<Rightarrow> \<exists>g\<in>set grants. grant_permits g request) \<and>
       \<not> (\<exists>g\<in>set (ac_key_grants ctx). grant_permits g request)"
  by (auto simp: evaluate_authorization_def list_ex_iff split: option.splits)

lemma grant_permits_network_route:
  "grant_permits g (network_request c n) \<Longrightarrow> grant_permits g (route_request c)"
  by (cases "cg_network_scope g") (auto simp: grant_permits_def network_request_def route_request_def)

lemma allow_iff:
  "evaluate_authorization ctx request = Allow \<longleftrightarrow>
     (\<exists>g\<in>set (ac_owner_grants ctx). grant_permits g request) \<and>
     (\<forall>grants. ac_client_grants ctx = Some grants \<longrightarrow> (\<exists>g\<in>set grants. grant_permits g request)) \<and>
     (\<exists>g\<in>set (ac_key_grants ctx). grant_permits g request)"
  by (auto simp: evaluate_authorization_def list_ex_iff split: option.splits)

text \<open>
  The check of the route before the body is read is implied by the later check of the
  network: what the middleware refuses would be refused for every network.
\<close>

theorem network_check_implies_route_check:
  assumes "evaluate_authorization ctx (network_request c n) = Allow"
  shows "evaluate_authorization ctx (route_request c) = Allow"
  using assms grant_permits_network_route unfolding allow_iff by blast

theorem network_check_implies_route_check_witness:
  "let g = [active_grant BalancesRead (Exact ''base'')];
       ctx = \<lparr>ac_owner_grants = g, ac_key_grants = g, ac_client_grants = Some g\<rparr>
   in evaluate_authorization ctx (network_request BalancesRead ''base'') = Allow \<and>
      evaluate_authorization ctx (route_request BalancesRead) = Allow"
  using network_check_implies_route_check[of
      "\<lparr>ac_owner_grants = [active_grant BalancesRead (Exact ''base'')],
        ac_key_grants = [active_grant BalancesRead (Exact ''base'')],
        ac_client_grants = Some [active_grant BalancesRead (Exact ''base'')]\<rparr>" BalancesRead "''base''"]
  by (simp add: evaluate_authorization_def active_grant_def grant_permits_def network_request_def
      route_request_def)

lemma capability_parse_id: "capability_parse (capability_id c) = Some c"
  by (cases c) (simp_all add: capability_parse_def ALL_CAPABILITIES_def)

text \<open>Capability ids and capabilities determine each other, and no other text is a capability.\<close>

theorem capability_id_round_trip:
  "capability_parse s = Some c \<longleftrightarrow> s = capability_id c"
proof
  assume "capability_parse s = Some c"
  then show "s = capability_id c" by (auto simp: capability_parse_def find_Some_iff)
next
  show "s = capability_id c \<Longrightarrow> capability_parse s = Some c" by (simp add: capability_parse_id)
qed

end
