(* ===== verification/RateLimit.thy ===== *)
theory RateLimit
  imports Prelude
begin

text \<open>
  The per-minute limiter of API keys: \<open>src/adapters/http/rate_limit.rs\<close>. The mutex-guarded hash
  map is a map, an operation on it is a state transformer (the mutex makes each of them atomic),
  and an \<open>Instant\<close> is a number of nanoseconds, so \<open>duration_since\<close>, which saturates at zero, is
  subtraction of naturals. The interface the request middleware relies on is the locale
  \<open>minute_limiter\<close>; the bound over whole runs is proved on a step relation.
\<close>

type_synonym uuid = nat
type_synonym instant_ns = nat

definition WINDOW :: nat where
  "WINDOW = 60 * 10 ^ 9"

record minute_window =
  mw_started_at :: instant_ns
  mw_used :: nat

record minute_reservation =
  mr_api_key_id :: uuid
  mr_window_started_at :: instant_ns

type_synonym minute_limiter_state = "uuid \<Rightarrow> minute_window option"

definition release :: "minute_limiter_state \<Rightarrow> minute_reservation \<Rightarrow> minute_limiter_state" where
  "release windows reservation =
     (case windows (mr_api_key_id reservation) of
        None \<Rightarrow> windows
      | Some window \<Rightarrow>
          if mw_started_at window = mr_window_started_at reservation \<and> mw_used window > 0
          then windows(mr_api_key_id reservation \<mapsto> window\<lparr>mw_used := mw_used window - 1\<rparr>)
          else windows)"

definition retain_live :: "minute_limiter_state \<Rightarrow> instant_ns \<Rightarrow> minute_limiter_state" where
  "retain_live windows now =
     (\<lambda>k. case windows k of
        None \<Rightarrow> None
      | Some window \<Rightarrow> if now - mw_started_at window < WINDOW then Some window else None)"

definition reserve_at ::
  "minute_limiter_state \<Rightarrow> uuid \<Rightarrow> int \<Rightarrow> instant_ns \<Rightarrow>
   minute_limiter_state \<times> minute_reservation option" where
  "reserve_at windows api_key_id requests_per_minute now =
     (if requests_per_minute < 0 then (windows, None)
      else
        let limit = nat requests_per_minute
        in if limit = 0 then (windows, None)
           else
             let windows1 = retain_live windows now;
                 window0 = (case windows1 api_key_id of
                     Some window \<Rightarrow> window
                   | None \<Rightarrow> \<lparr>mw_started_at = now, mw_used = 0\<rparr>);
                 window = (if now - mw_started_at window0 \<ge> WINDOW
                           then \<lparr>mw_started_at = now, mw_used = 0\<rparr> else window0)
             in if mw_used window \<ge> limit then (windows1(api_key_id \<mapsto> window), None)
                else
                  (windows1(api_key_id \<mapsto> window\<lparr>mw_used := mw_used window + 1\<rparr>),
                   Some \<lparr>mr_api_key_id = api_key_id,
                         mr_window_started_at = mw_started_at window\<rparr>))"

section \<open>The interface\<close>

text \<open>
  What a client sees of a limiter: the number of slots a key has used in its window at a moment.
  A reservation that is granted takes one slot of a key with a free one, a refused one takes none,
  and releasing the reservation just granted gives the slot back; no other key is touched.
\<close>

locale minute_limiter =
  fixes reserve :: "'s \<Rightarrow> uuid \<Rightarrow> int \<Rightarrow> instant_ns \<Rightarrow> 's \<times> 'r option"
    and give_back :: "'s \<Rightarrow> 'r \<Rightarrow> 's"
    and used :: "'s \<Rightarrow> uuid \<Rightarrow> instant_ns \<Rightarrow> nat"
  assumes reserve_granted:
    "reserve st k rpm now = (st', Some r) \<Longrightarrow>
       int (used st k now) < rpm \<and> used st' k now = used st k now + 1 \<and>
       (\<forall>k'. k' \<noteq> k \<longrightarrow> used st' k' now = used st k' now)"
    and reserve_refused:
    "reserve st k rpm now = (st', None) \<Longrightarrow>
       rpm \<le> int (used st k now) \<and> (\<forall>k'. used st' k' now = used st k' now)"
    and give_back_granted:
    "reserve st k rpm now = (st', Some r) \<Longrightarrow> used (give_back st' r) k' now = used st k' now"
begin

text \<open>The number of slots in use never grows beyond the limit by a reservation.\<close>

lemma reserve_within_limit:
  "reserve st k rpm now = (st', out) \<Longrightarrow> int (used st k now) \<le> max 0 rpm \<Longrightarrow>
     int (used st' k now) \<le> max 0 rpm"
  by (cases out) (auto dest!: reserve_granted reserve_refused)

text \<open>A request that reserves and then gives the slot back, or is refused, leaves every key as it was.\<close>

lemma reserve_give_back_unchanged:
  assumes "reserve st k rpm now = (st', out)"
    and "st'' = (case out of None \<Rightarrow> st' | Some r \<Rightarrow> give_back st' r)"
  shows "used st'' k' now = used st k' now"
  using assms by (cases out) (auto dest: reserve_refused give_back_granted)

end

definition used_at :: "minute_limiter_state \<Rightarrow> uuid \<Rightarrow> instant_ns \<Rightarrow> nat" where
  "used_at windows k now =
     (case windows k of
        None \<Rightarrow> 0
      | Some window \<Rightarrow> if now - mw_started_at window < WINDOW then mw_used window else 0)"

lemma WINDOW_pos [simp]: "0 < WINDOW"
  by (simp add: WINDOW_def)

lemma retain_live_Some:
  "retain_live windows now k = Some w \<longleftrightarrow> windows k = Some w \<and> now - mw_started_at w < WINDOW"
  by (auto simp: retain_live_def split: option.splits)

lemma retain_live_None:
  "retain_live windows now k = None \<longleftrightarrow>
     (\<forall>w. windows k = Some w \<longrightarrow> WINDOW \<le> now - mw_started_at w)"
  by (auto simp: retain_live_def split: option.splits)

text \<open>The window that \<open>reserve_at\<close> works on: the live one or a fresh one.\<close>

definition current_window :: "minute_limiter_state \<Rightarrow> uuid \<Rightarrow> instant_ns \<Rightarrow> minute_window" where
  "current_window windows k now =
     (case retain_live windows now k of
        Some w \<Rightarrow> w | None \<Rightarrow> \<lparr>mw_started_at = now, mw_used = 0\<rparr>)"

lemma current_window_live: "now - mw_started_at (current_window windows k now) < WINDOW"
  by (auto simp: current_window_def retain_live_Some split: option.splits)

lemma current_window_used: "mw_used (current_window windows k now) = used_at windows k now"
  by (auto simp: current_window_def retain_live_def used_at_def split: option.splits if_splits)

lemma reserve_at_eq:
  "reserve_at windows k rpm now =
     (if rpm \<le> 0 then (windows, None)
      else
        let w = current_window windows k now
        in if nat rpm \<le> mw_used w then ((retain_live windows now)(k \<mapsto> w), None)
           else ((retain_live windows now)(k \<mapsto> w\<lparr>mw_used := mw_used w + 1\<rparr>),
                 Some \<lparr>mr_api_key_id = k, mr_window_started_at = mw_started_at w\<rparr>))"
  using current_window_live[of now windows k]
  by (auto simp: reserve_at_def current_window_def Let_def split: option.splits)

lemma used_at_retain: "used_at (retain_live windows now) k now = used_at windows k now"
  by (auto simp: used_at_def retain_live_def split: option.splits)

lemma used_at_update:
  "used_at (m(k \<mapsto> w)) k' now =
     (if k' = k then (if now - mw_started_at w < WINDOW then mw_used w else 0) else used_at m k' now)"
  by (auto simp: used_at_def)

interpretation limiter: minute_limiter reserve_at release used_at
proof
  fix st k rpm now st' r
  assume "reserve_at st k rpm now = (st', Some r)"
  then show "int (used_at st k now) < rpm \<and> used_at st' k now = used_at st k now + 1 \<and>
      (\<forall>k'. k' \<noteq> k \<longrightarrow> used_at st' k' now = used_at st k' now)"
    using current_window_live[of now st k]
    by (auto simp: reserve_at_eq Let_def used_at_update used_at_retain current_window_used split: if_splits)
next
  fix st k rpm now st'
  assume "reserve_at st k rpm now = (st', None)"
  then show "rpm \<le> int (used_at st k now) \<and> (\<forall>k'. used_at st' k' now = used_at st k' now)"
    using current_window_live[of now st k]
    by (auto simp: reserve_at_eq Let_def used_at_update used_at_retain current_window_used split: if_splits)
next
  fix st k rpm now st' r k'
  assume "reserve_at st k rpm now = (st', Some r)"
  then show "used_at (release st' r) k' now = used_at st k' now"
    using current_window_live[of now st k]
    by (auto simp: reserve_at_eq release_def Let_def used_at_update used_at_retain current_window_used
        split: if_splits)
qed

section \<open>Runs\<close>

text \<open>
  A run interleaves reservations and releases of many requests. The history holds the accepted
  reservations that were not released: the key, the start of the window and the moment of
  acceptance. A key is always presented with the limit of its policy, and a reservation is released at
  most once. The instants are in the order in which the requests take the lock: the clock does not go
  backwards, and no request is overtaken between reading it (\<open>reserve\<close> reads it before the lock) and the lock. A
  request that is overtaken by more than a window may open a window with an old start.
\<close>

record limiter_run =
  lr_windows :: minute_limiter_state
  lr_accepted :: "(uuid \<times> instant_ns \<times> instant_ns) multiset"
  lr_clock :: instant_ns

inductive limiter_reachable :: "(uuid \<Rightarrow> int) \<Rightarrow> limiter_run \<Rightarrow> bool" for limit where
  start: "limiter_reachable limit \<lparr>lr_windows = Map.empty, lr_accepted = {#}, lr_clock = 0\<rparr>"
| accept: "limiter_reachable limit s \<Longrightarrow> lr_clock s \<le> now \<Longrightarrow>
    reserve_at (lr_windows s) k (limit k) now = (windows', Some r) \<Longrightarrow>
    limiter_reachable limit
      \<lparr>lr_windows = windows',
       lr_accepted = add_mset (k, mr_window_started_at r, now) (lr_accepted s), lr_clock = now\<rparr>"
| refuse: "limiter_reachable limit s \<Longrightarrow> lr_clock s \<le> now \<Longrightarrow>
    reserve_at (lr_windows s) k (limit k) now = (windows', None) \<Longrightarrow>
    limiter_reachable limit (s\<lparr>lr_windows := windows', lr_clock := now\<rparr>)"
| give_back: "limiter_reachable limit s \<Longrightarrow> (k, started, moment) \<in># lr_accepted s \<Longrightarrow>
    limiter_reachable limit
      (s\<lparr>lr_windows := release (lr_windows s) \<lparr>mr_api_key_id = k, mr_window_started_at = started\<rparr>,
         lr_accepted := lr_accepted s - {#(k, started, moment)#}\<rparr>)"

text \<open>The accepted reservations of a key that belong to the window with a given start.\<close>

definition in_window :: "limiter_run \<Rightarrow> uuid \<Rightarrow> instant_ns \<Rightarrow> nat" where
  "in_window s k started =
     size (filter_mset (\<lambda>(k', started', moment). k' = k \<and> started' = started) (lr_accepted s))"

text \<open>
  The invariant: a window counts its accepted reservations; a reservation was accepted within its
  window; a reservation of another window than the current one of its key is older by a window's
  length at least; windows of a key do not overlap; no window holds more than the limit.
\<close>

definition inv_windows :: "limiter_run \<Rightarrow> bool" where
  "inv_windows s \<longleftrightarrow> (\<forall>k w. lr_windows s k = Some w \<longrightarrow>
     mw_started_at w \<le> lr_clock s \<and> mw_used w = in_window s k (mw_started_at w))"

definition inv_entries :: "limiter_run \<Rightarrow> bool" where
  "inv_entries s \<longleftrightarrow> (\<forall>k started moment. (k, started, moment) \<in># lr_accepted s \<longrightarrow>
     started \<le> moment \<and> moment < started + WINDOW \<and> moment \<le> lr_clock s)"

fun settled :: "minute_window option \<Rightarrow> instant_ns \<Rightarrow> instant_ns \<Rightarrow> bool" where
  "settled (Some w) clock started = (started = mw_started_at w \<or> started + WINDOW \<le> mw_started_at w)"
| "settled None clock started = (started + WINDOW \<le> clock)"

definition inv_current :: "limiter_run \<Rightarrow> bool" where
  "inv_current s \<longleftrightarrow> (\<forall>k started moment. (k, started, moment) \<in># lr_accepted s \<longrightarrow>
     settled (lr_windows s k) (lr_clock s) started)"

definition inv_apart :: "limiter_run \<Rightarrow> bool" where
  "inv_apart s \<longleftrightarrow> (\<forall>k s1 a1 s2 a2. (k, s1, a1) \<in># lr_accepted s \<longrightarrow> (k, s2, a2) \<in># lr_accepted s \<longrightarrow>
     s1 = s2 \<or> s1 + WINDOW \<le> s2 \<or> s2 + WINDOW \<le> s1)"

definition inv_limit :: "(uuid \<Rightarrow> int) \<Rightarrow> limiter_run \<Rightarrow> bool" where
  "inv_limit limit s \<longleftrightarrow> (\<forall>k started. int (in_window s k started) \<le> max 0 (limit k))"

definition limiter_inv :: "(uuid \<Rightarrow> int) \<Rightarrow> limiter_run \<Rightarrow> bool" where
  "limiter_inv limit s \<longleftrightarrow>
     inv_windows s \<and> inv_entries s \<and> inv_current s \<and> inv_apart s \<and> inv_limit limit s"

lemma in_window_simps [simp]:
  "in_window (s\<lparr>lr_windows := W\<rparr>) = in_window s"
  "in_window (s\<lparr>lr_clock := c\<rparr>) = in_window s"
  by (simp_all add: in_window_def fun_eq_iff)

lemma in_window_zero_iff: "in_window s k started = 0 \<longleftrightarrow> (\<forall>moment. (k, started, moment) \<notin># lr_accepted s)"
proof -
  let ?f = "filter_mset (\<lambda>(k', started', moment). k' = k \<and> started' = started) (lr_accepted s)"
  have "in_window s k started = 0 \<longleftrightarrow> ?f = {#}" by (simp add: in_window_def)
  also have "\<dots> \<longleftrightarrow> set_mset ?f = {}" by (simp only: set_mset_eq_empty_iff)
  also have "\<dots> \<longleftrightarrow> (\<forall>moment. (k, started, moment) \<notin># lr_accepted s)" by auto
  finally show ?thesis .
qed

lemma inv_current_retain:
  assumes "inv_current s" "inv_windows s" "lr_clock s \<le> now"
  shows "inv_current (s\<lparr>lr_windows := retain_live (lr_windows s) now, lr_clock := now\<rparr>)"
  unfolding inv_current_def
proof (intro allI impI)
  fix k started moment
  assume "(k, started, moment) \<in># lr_accepted (s\<lparr>lr_windows := retain_live (lr_windows s) now, lr_clock := now\<rparr>)"
  then have c: "settled (lr_windows s k) (lr_clock s) started"
    using assms(1) unfolding inv_current_def by fastforce
  show "settled (lr_windows (s\<lparr>lr_windows := retain_live (lr_windows s) now, lr_clock := now\<rparr>) k)
      (lr_clock (s\<lparr>lr_windows := retain_live (lr_windows s) now, lr_clock := now\<rparr>)) started"
  proof (cases "lr_windows s k")
    case None
    then show ?thesis using c assms(3) by (simp add: retain_live_def)
  next
    case (Some w)
    have "mw_started_at w \<le> now" using assms(2,3) Some by (fastforce simp: inv_windows_def)
    then show ?thesis
      using c Some WINDOW_pos by (cases "now - mw_started_at w < WINDOW") (auto simp: retain_live_def)
  qed
qed

lemma limiter_inv_retain:
  assumes "limiter_inv limit s" "lr_clock s \<le> now"
  shows "limiter_inv limit (s\<lparr>lr_windows := retain_live (lr_windows s) now, lr_clock := now\<rparr>)"
proof -
  have i: "inv_windows s" "inv_entries s" "inv_current s" "inv_apart s" "inv_limit limit s"
    using assms(1) by (auto simp: limiter_inv_def)
  let ?s = "s\<lparr>lr_windows := retain_live (lr_windows s) now, lr_clock := now\<rparr>"
  have "inv_windows ?s" using i(1) assms(2) by (fastforce simp: inv_windows_def retain_live_Some)
  moreover have "inv_entries ?s" using i(2) assms(2) by (fastforce simp: inv_entries_def)
  moreover have "inv_current ?s" using i(3,1) assms(2) by (rule inv_current_retain)
  moreover have "inv_apart ?s" "inv_limit limit ?s"
    using i(4,5) by (auto simp: inv_apart_def inv_limit_def)
  ultimately show ?thesis by (simp add: limiter_inv_def)
qed

lemma limiter_inv_open:
  assumes "limiter_inv limit s" "lr_windows s k = None"
  shows "limiter_inv limit
    (s\<lparr>lr_windows := (lr_windows s)(k \<mapsto> \<lparr>mw_started_at = lr_clock s, mw_used = 0\<rparr>)\<rparr>)"
proof -
  have i: "inv_windows s" "inv_entries s" "inv_current s" "inv_apart s" "inv_limit limit s"
    using assms(1) by (auto simp: limiter_inv_def)
  let ?s = "s\<lparr>lr_windows := (lr_windows s)(k \<mapsto> \<lparr>mw_started_at = lr_clock s, mw_used = 0\<rparr>)\<rparr>"
  have old: "started + WINDOW \<le> lr_clock s" if "(k, started, moment) \<in># lr_accepted s" for started moment
    using i(3) that assms(2) unfolding inv_current_def by fastforce
  have "in_window s k (lr_clock s) = 0"
    unfolding in_window_zero_iff using old[of "lr_clock s"] WINDOW_pos by fastforce
  then have "inv_windows ?s" using i(1) by (auto simp: inv_windows_def)
  moreover have "inv_current ?s"
    using i(3) old unfolding inv_current_def by auto
  moreover have "inv_entries ?s" "inv_apart ?s" "inv_limit limit ?s"
    using i(2,4,5) by (auto simp: inv_entries_def inv_apart_def inv_limit_def)
  ultimately show ?thesis by (simp add: limiter_inv_def)
qed

lemma limiter_inv_take:
  assumes inv: "limiter_inv limit s" and w: "lr_windows s k = Some w"
    and live: "lr_clock s - mw_started_at w < WINDOW" and free: "int (mw_used w) < limit k"
  shows "limiter_inv limit
    (s\<lparr>lr_windows := (lr_windows s)(k \<mapsto> w\<lparr>mw_used := mw_used w + 1\<rparr>),
       lr_accepted := add_mset (k, mw_started_at w, lr_clock s) (lr_accepted s)\<rparr>)"
proof -
  have i: "inv_windows s" "inv_entries s" "inv_current s" "inv_apart s" "inv_limit limit s"
    using inv by (auto simp: limiter_inv_def)
  let ?s = "s\<lparr>lr_windows := (lr_windows s)(k \<mapsto> w\<lparr>mw_used := mw_used w + 1\<rparr>),
       lr_accepted := add_mset (k, mw_started_at w, lr_clock s) (lr_accepted s)\<rparr>"
  have count: "in_window ?s k' st = in_window s k' st + (if k' = k \<and> st = mw_started_at w then 1 else 0)"
    for k' st by (auto simp: in_window_def)
  have wk: "mw_started_at w \<le> lr_clock s" "mw_used w = in_window s k (mw_started_at w)"
    using i(1) w by (auto simp: inv_windows_def)
  have cur: "started = mw_started_at w \<or> started + WINDOW \<le> mw_started_at w"
    if "(k, started, moment) \<in># lr_accepted s" for started moment
    using i(3) w that unfolding inv_current_def by fastforce
  have "inv_windows ?s" using i(1) wk unfolding inv_windows_def count by auto
  moreover have "inv_entries ?s" using i(2) wk live by (auto simp: inv_entries_def)
  moreover have "inv_current ?s" using i(3) w cur unfolding inv_current_def by auto
  moreover have "inv_apart ?s"
    unfolding inv_apart_def using i(4)[unfolded inv_apart_def] by (auto dest: cur)
  moreover have "inv_limit limit ?s" using i(5) wk free unfolding inv_limit_def count by auto
  ultimately show ?thesis by (simp add: limiter_inv_def)
qed

lemma limiter_inv_give_back:
  assumes inv: "limiter_inv limit s" and e: "(k, started, moment) \<in># lr_accepted s"
  shows "limiter_inv limit
    (s\<lparr>lr_windows := release (lr_windows s) \<lparr>mr_api_key_id = k, mr_window_started_at = started\<rparr>,
       lr_accepted := lr_accepted s - {#(k, started, moment)#}\<rparr>)"
proof -
  have i: "inv_windows s" "inv_entries s" "inv_current s" "inv_apart s" "inv_limit limit s"
    using inv by (auto simp: limiter_inv_def)
  let ?s = "s\<lparr>lr_windows := release (lr_windows s) \<lparr>mr_api_key_id = k, mr_window_started_at = started\<rparr>,
       lr_accepted := lr_accepted s - {#(k, started, moment)#}\<rparr>"
  have count: "in_window ?s k' st = in_window s k' st - (if k' = k \<and> st = started then 1 else 0)" for k' st
    using e by (auto simp: in_window_def size_Diff_singleton)
  have pos: "0 < in_window s k started"
    using e in_window_zero_iff[of s k started] by (cases "in_window s k started") auto
  have used: "0 < mw_used w" if "lr_windows s k = Some w" "mw_started_at w = started" for w
    using i(1) that pos by (auto simp: inv_windows_def)
  have rel: "lr_windows ?s k' = (case lr_windows s k' of None \<Rightarrow> None
    | Some w \<Rightarrow> Some (w\<lparr>mw_used := mw_used w - (if k' = k \<and> mw_started_at w = started then 1 else 0)\<rparr>))" for k'
  proof (cases "k' = k")
    case True
    show ?thesis
    proof (cases "lr_windows s k")
      case None
      then show ?thesis by (simp add: release_def True)
    next
      case (Some w)
      then show ?thesis using used[of w] by (simp add: release_def True)
    qed
  next
    case False
    then show ?thesis by (auto simp: release_def split: option.split)
  qed
  have win: "\<exists>w. lr_windows s k' = Some w \<and> mw_started_at w' = mw_started_at w \<and>
      mw_used w' = mw_used w - (if k' = k \<and> mw_started_at w = started then 1 else 0)"
    if "lr_windows ?s k' = Some w'" for k' w'
    using that unfolding rel by (cases "lr_windows s k'") auto
  have sub: "x \<in># lr_accepted ?s \<Longrightarrow> x \<in># lr_accepted s" for x by (auto dest: in_diffD)
  have "inv_windows ?s"
    unfolding inv_windows_def
  proof (intro allI impI)
    fix k' w'
    assume "lr_windows ?s k' = Some w'"
    from win[OF this] show "mw_started_at w' \<le> lr_clock ?s \<and> mw_used w' = in_window ?s k' (mw_started_at w')"
      using i(1) unfolding inv_windows_def count by auto
  qed
  moreover have "inv_entries ?s" using i(2) sub unfolding inv_entries_def by fastforce
  moreover have "inv_current ?s"
    unfolding inv_current_def
  proof (intro allI impI)
    fix k' st m
    assume "(k', st, m) \<in># lr_accepted ?s"
    then have c: "settled (lr_windows s k') (lr_clock s) st"
      using i(3) sub unfolding inv_current_def by blast
    then show "settled (lr_windows ?s k') (lr_clock ?s) st"
      unfolding rel by (cases "lr_windows s k'") simp_all
  qed
  moreover have "inv_apart ?s" using i(4) sub unfolding inv_apart_def by meson
  moreover have "inv_limit limit ?s"
    using i(5) unfolding inv_limit_def count by (metis diff_le_self of_nat_mono order_trans)
  ultimately show ?thesis by (simp add: limiter_inv_def)
qed

lemma limiter_inv_reserve:
  assumes inv: "limiter_inv limit s" and now: "lr_clock s \<le> now"
    and res: "reserve_at (lr_windows s) k (limit k) now = (windows', out)"
  shows "limiter_inv limit (case out of
      None \<Rightarrow> s\<lparr>lr_windows := windows', lr_clock := now\<rparr>
    | Some r \<Rightarrow> \<lparr>lr_windows = windows',
        lr_accepted = add_mset (k, mr_window_started_at r, now) (lr_accepted s), lr_clock = now\<rparr>)"
proof (cases "limit k \<le> 0")
  case True
  have "limiter_inv limit (s\<lparr>lr_clock := now\<rparr>)"
  proof -
    have i: "inv_windows s" "inv_entries s" "inv_current s" "inv_apart s" "inv_limit limit s"
      using inv by (auto simp: limiter_inv_def)
    have "inv_windows (s\<lparr>lr_clock := now\<rparr>)" "inv_entries (s\<lparr>lr_clock := now\<rparr>)"
      using i(1,2) now by (fastforce simp: inv_windows_def inv_entries_def)+
    moreover have "inv_current (s\<lparr>lr_clock := now\<rparr>)"
      unfolding inv_current_def
    proof (intro allI impI)
      fix ka started moment
      assume "(ka, started, moment) \<in># lr_accepted (s\<lparr>lr_clock := now\<rparr>)"
      then have "settled (lr_windows s ka) (lr_clock s) started" using i(3) unfolding inv_current_def by fastforce
      then show "settled (lr_windows (s\<lparr>lr_clock := now\<rparr>) ka) (lr_clock (s\<lparr>lr_clock := now\<rparr>)) started"
        using now by (cases "lr_windows s ka") auto
    qed
    moreover have "inv_apart (s\<lparr>lr_clock := now\<rparr>)" "inv_limit limit (s\<lparr>lr_clock := now\<rparr>)"
      using i(4,5) by (auto simp: inv_apart_def inv_limit_def)
    ultimately show ?thesis by (simp add: limiter_inv_def)
  qed
  then show ?thesis using res True by (auto simp: reserve_at_eq)
next
  case False
  let ?s = "s\<lparr>lr_windows := retain_live (lr_windows s) now, lr_clock := now\<rparr>"
  let ?w = "current_window (lr_windows s) k now"
  let ?o = "?s\<lparr>lr_windows := (lr_windows ?s)(k \<mapsto> ?w)\<rparr>"
  have o: "limiter_inv limit ?o"
  proof (cases "retain_live (lr_windows s) now k")
    case None
    then show ?thesis
      using limiter_inv_open[OF limiter_inv_retain[OF inv now], of k] by (simp add: current_window_def)
  next
    case (Some w)
    then have "(retain_live (lr_windows s) now)(k \<mapsto> ?w) = retain_live (lr_windows s) now"
      by (auto simp: current_window_def)
    then have "?o = ?s" by simp
    then show ?thesis using limiter_inv_retain[OF inv now] by (simp only:)
  qed
  show ?thesis
  proof (cases "nat (limit k) \<le> mw_used ?w")
    case True
    then have "windows' = lr_windows ?o" "out = None"
      using res False by (auto simp: reserve_at_eq Let_def)
    moreover have "s\<lparr>lr_windows := lr_windows ?o, lr_clock := now\<rparr> = ?o" by simp
    ultimately show ?thesis using o by (simp only: option.case)
  next
    case free: False
    have "limiter_inv limit (?o\<lparr>lr_windows := (lr_windows ?o)(k \<mapsto> ?w\<lparr>mw_used := mw_used ?w + 1\<rparr>),
        lr_accepted := add_mset (k, mw_started_at ?w, lr_clock ?o) (lr_accepted ?o)\<rparr>)"
      by (rule limiter_inv_take[OF o]) (use free False current_window_live in auto)
    then show ?thesis using res False free by (cases s) (auto simp: reserve_at_eq Let_def)
  qed
qed

lemma limiter_reachable_inv: "limiter_reachable limit s \<Longrightarrow> limiter_inv limit s"
proof (induction rule: limiter_reachable.induct)
  case start
  then show ?case
    by (simp add: limiter_inv_def inv_windows_def inv_entries_def inv_current_def inv_apart_def
        inv_limit_def in_window_def)
next
  case (accept s now k windows' r)
  then show ?case using limiter_inv_reserve[of limit s now k windows' "Some r"] by simp
next
  case (refuse s now k windows')
  then show ?case using limiter_inv_reserve[of limit s now k windows' None] by simp
next
  case (give_back s k started moment)
  then show ?case by (intro limiter_inv_give_back)
qed

section \<open>Properties\<close>

text \<open>
  C21. In every run whose requests read the clock in the order in which they take the lock, a window of a key never holds more accepted requests than the key's limit
  (counting a request until its reservation is released), and no two windows of a key overlap.
\<close>

theorem minute_limit_per_window:
  assumes "limiter_reachable limit s"
  shows "int (in_window s k started) \<le> max 0 (limit k) \<and>
    (\<forall>s1 a1 s2 a2. (k, s1, a1) \<in># lr_accepted s \<and> (k, s2, a2) \<in># lr_accepted s \<longrightarrow>
       s1 = s2 \<or> s1 + WINDOW \<le> s2 \<or> s2 + WINDOW \<le> s1)"
proof -
  have inv: "inv_limit limit s" "inv_apart s"
    using limiter_reachable_inv[OF assms] by (auto simp: limiter_inv_def)
  have "int (in_window s k started) \<le> max 0 (limit k)" using inv(1) unfolding inv_limit_def by blast
  moreover have "s1 = s2 \<or> s1 + WINDOW \<le> s2 \<or> s2 + WINDOW \<le> s1"
    if "(k, s1, a1) \<in># lr_accepted s" "(k, s2, a2) \<in># lr_accepted s" for s1 a1 s2 a2
    using inv(2) that unfolding inv_apart_def by blast
  ultimately show ?thesis by blast
qed

text \<open>One request is accepted, the limit of one is reached, the next request is refused.\<close>

lemma limiter_example:
  "limiter_reachable (\<lambda>_. 1)
     \<lparr>lr_windows = [7 \<mapsto> \<lparr>mw_started_at = 5, mw_used = 1\<rparr>],
      lr_accepted = {#(7, 5, 5)#}, lr_clock = 9\<rparr>"
proof -
  have "limiter_reachable (\<lambda>_. 1)
     \<lparr>lr_windows = [7 \<mapsto> \<lparr>mw_started_at = 5, mw_used = 1\<rparr>], lr_accepted = {#(7, 5, 5)#}, lr_clock = 5\<rparr>"
    using accept[OF start, of 5 7 "\<lambda>_. 1" "[7 \<mapsto> \<lparr>mw_started_at = 5, mw_used = 1\<rparr>]"
        "\<lparr>mr_api_key_id = 7, mr_window_started_at = 5\<rparr>"]
    by (simp add: reserve_at_def retain_live_def WINDOW_def)
  moreover have "reserve_at [7 \<mapsto> \<lparr>mw_started_at = 5, mw_used = 1\<rparr>] 7 1 9 =
      ([7 \<mapsto> \<lparr>mw_started_at = 5, mw_used = 1\<rparr>], None)"
    by (auto simp: reserve_at_eq current_window_def retain_live_def WINDOW_def Let_def fun_eq_iff)
  ultimately show ?thesis
    using refuse[of "\<lambda>_. 1" _ 9 7 "[7 \<mapsto> \<lparr>mw_started_at = 5, mw_used = 1\<rparr>]"] by fastforce
qed

theorem minute_limit_per_window_witness:
  "int (in_window \<lparr>lr_windows = [7 \<mapsto> \<lparr>mw_started_at = 5, mw_used = 1\<rparr>],
      lr_accepted = {#(7, 5, 5)#}, lr_clock = 9\<rparr> 7 5) \<le> 1"
  using minute_limit_per_window[OF limiter_example, of 7 5] by simp

text \<open>
  At most twice the limit of a key is accepted within any 60 seconds, whatever the
  interleaving of requests: the fixed windows of the limiter can be straddled at most once.
\<close>

theorem minute_limit_any_interval:
  assumes "limiter_reachable limit s"
  shows "int (size (filter_mset (\<lambda>(k', started, moment). k' = k \<and> T \<le> moment \<and> moment < T + WINDOW)
      (lr_accepted s))) \<le> 2 * max 0 (limit k)"
proof -
  let ?A = "lr_accepted s"
  let ?I = "filter_mset (\<lambda>(k', started, moment). k' = k \<and> T \<le> moment \<and> moment < T + WINDOW) ?A"
  have inv: "inv_entries s" "inv_apart s" "inv_limit limit s"
    using limiter_reachable_inv[OF assms] by (auto simp: limiter_inv_def)
  have I: "(k', st, m) \<in># ?I \<longleftrightarrow> (k', st, m) \<in># ?A \<and> k' = k \<and> T \<le> m \<and> m < T + WINDOW" for k' st m by auto
  have near: "st \<le> m" "m < st + WINDOW" if "(k, st, m) \<in># ?A" for st m
    using inv(1) that by (auto simp: inv_entries_def)
  have "\<exists>a b. \<forall>st m. (k, st, m) \<in># ?I \<longrightarrow> st = a \<or> st = b"
  proof (rule ccontr)
    assume no: "\<nexists>a b. \<forall>st m. (k, st, m) \<in># ?I \<longrightarrow> st = a \<or> st = b"
    then obtain a am where a: "(k, a, am) \<in># ?I" by blast
    from no obtain b bm where b: "(k, b, bm) \<in># ?I" "b \<noteq> a" by blast
    from no obtain c cm where c: "(k, c, cm) \<in># ?I" "c \<noteq> a" "c \<noteq> b" by blast
    have apart: "x = y \<or> x + WINDOW \<le> y \<or> y + WINDOW \<le> x"
      if "(k, x, xm) \<in># ?A" "(k, y, ym) \<in># ?A" for x y xm ym
      using inv(2) that unfolding inv_apart_def by blast
    have d: "a + WINDOW \<le> b \<or> b + WINDOW \<le> a" "a + WINDOW \<le> c \<or> c + WINDOW \<le> a"
      "b + WINDOW \<le> c \<or> c + WINDOW \<le> b"
      using apart a b c unfolding I by blast+
    have "x < T + WINDOW \<and> T < x + WINDOW" if "(k, x, xm) \<in># ?I" for x xm
      using that near[of x xm] unfolding I by linarith
    then have "a < T + WINDOW \<and> T < a + WINDOW" "b < T + WINDOW \<and> T < b + WINDOW"
      "c < T + WINDOW \<and> T < c + WINDOW"
      using a b(1) c(1) by blast+
    then show False using d by linarith
  qed
  then obtain a b where ab: "\<And>st m. (k, st, m) \<in># ?I \<Longrightarrow> st = a \<or> st = b" by blast
  let ?W = "\<lambda>st. filter_mset (\<lambda>(k', st', m). k' = k \<and> st' = st) ?A"
  have "?I \<subseteq># ?W a + ?W b"
  proof (rule mset_subset_eqI)
    fix e :: "uuid \<times> instant_ns \<times> instant_ns"
    obtain k' st m where e: "e = (k', st, m)" by (cases e)
    show "count ?I e \<le> count (?W a + ?W b) e"
    proof (cases "e \<in># ?I")
      case True
      then show ?thesis using ab[of st m] by (auto simp: e)
    next
      case False
      then have "count ?I e = 0" by (simp only: not_in_iff)
      then show ?thesis by (simp only: le0)
    qed
  qed
  from size_mset_mono[OF this] have "size ?I \<le> in_window s k a + in_window s k b"
    by (simp add: in_window_def)
  moreover have "int (in_window s k a) \<le> max 0 (limit k)" "int (in_window s k b) \<le> max 0 (limit k)"
    using inv(3) by (simp_all add: inv_limit_def)
  ultimately show ?thesis by linarith
qed

theorem minute_limit_any_interval_witness:
  "int (size (filter_mset (\<lambda>(k', started, moment). k' = 7 \<and> 1 \<le> moment \<and> moment < 1 + WINDOW)
      {#(7, 5, 5)#})) \<le> (2::int)"
  using minute_limit_any_interval[OF limiter_example, of 7 1] by simp

text \<open>
  A reservation is granted exactly when the key has a free slot in its current window; it then
  takes one slot of that key and no other, and giving it back at once restores every key.
\<close>

theorem reserve_release_contract:
  "case reserve_at windows k rpm now of
     (windows', Some r) \<Rightarrow> int (used_at windows k now) < rpm \<and>
       (\<forall>k'. used_at windows' k' now = used_at windows k' now + (if k' = k then 1 else 0)) \<and>
       (\<forall>k'. used_at (release windows' r) k' now = used_at windows k' now)
   | (windows', None) \<Rightarrow> rpm \<le> int (used_at windows k now) \<and>
       (\<forall>k'. used_at windows' k' now = used_at windows k' now)"
proof -
  obtain windows' out where r: "reserve_at windows k rpm now = (windows', out)" by fastforce
  show ?thesis
  proof (cases out)
    case None
    then show ?thesis using limiter.reserve_refused[of windows k rpm now windows'] r by simp
  next
    case (Some res)
    then show ?thesis
      using limiter.reserve_granted[of windows k rpm now windows' res]
        limiter.give_back_granted[of windows k rpm now windows' res] r by simp
  qed
qed

end
