(* ===== verification/KeyStore.thy ===== *)
theory KeyStore
  imports Access RateLimit
begin

text \<open>
  The repository of API keys: \<open>src/adapters/postgres/api_keys.rs\<close>, with the tables of
  \<open>migrations/\<close> it works on. A table is a list of rows (or a map from its primary key), a query a
  function of the tables, a statement a transformer of them that returns the rows of its
  \<open>returning\<close> clause; \<open>now()\<close> is an argument. A statement is atomic, and a transaction that
  fails leaves the tables as they were. Timestamps are seconds since the epoch; their text form is
  not modelled. Operations that the code compiles for tests only are left out.
\<close>

section \<open>Tables\<close>

type_synonym timestamp = int

record api_key_row =
  ak_id :: uuid
  ak_consumer_id :: "uuid option"
  ak_ib_account_id :: "uuid option"
  ak_client_id :: "uuid option"
  ak_kind :: string
  ak_label :: string
  ak_key_prefix :: string
  ak_key_hash :: "nat list"
  ak_hash_algorithm :: string
  ak_status :: string
  ak_expires_at :: "timestamp option"
  ak_revoked_at :: "timestamp option"
  ak_last_used_at :: "timestamp option"
  ak_created_at :: timestamp

record consumer_row =
  co_id :: uuid
  co_slug :: string
  co_display_name :: string
  co_category :: string
  co_status :: string

record account_row =
  ia_id :: uuid
  ia_public_id :: string
  ia_status :: string
  ia_closed_at :: "timestamp option"

record client_row =
  ic_id :: uuid
  ic_public_id :: string
  ic_ib_account_id :: uuid
  ic_status :: string

record session_row =
  bs_ib_account_id :: uuid
  bs_revoked_at :: "timestamp option"

record capability_grant_row =
  gr_holder :: uuid
  gr_capability_id :: string
  gr_network_scope :: string
  gr_status :: string
  gr_expires_at :: "timestamp option"

record api_key_policy =
  po_requests_per_minute :: int
  po_requests_per_day :: int

record usage_daily_row =
  us_accepted_requests :: int
  us_rate_limited_requests :: int
  us_successful_responses :: int
  us_client_error_responses :: int
  us_server_error_responses :: int
  us_last_used_at :: "timestamp option"

record database =
  db_api_key :: "api_key_row list"
  db_api_consumer :: "consumer_row list"
  db_ib_account :: "account_row list"
  db_ib_client :: "client_row list"
  db_browser_session :: "session_row list"
  db_consumer_grants :: "capability_grant_row list"
  db_account_grants :: "capability_grant_row list"
  db_client_grants :: "capability_grant_row list"
  db_key_grants :: "capability_grant_row list"
  db_policy :: "uuid \<Rightarrow> api_key_policy option"
  db_usage_daily :: "uuid \<times> int \<Rightarrow> usage_daily_row option"

datatype repository_error =
    DatabaseError
  | RowNotFound
  | UnexpectedNull
  | UnknownCapabilityId string
  | InvalidNetworkScope string
  | InvalidGrantStatus string
  | UnexpectedDailyOutcome string

text \<open>\<open>(now() at time zone 'utc')::date\<close>\<close>

definition utc_date :: "timestamp \<Rightarrow> int" where
  "utc_date now = now div 86400"

definition expired :: "timestamp option \<Rightarrow> timestamp \<Rightarrow> bool" where
  "expired expires_at now \<longleftrightarrow> (case expires_at of None \<Rightarrow> False | Some e \<Rightarrow> e \<le> now)"

section \<open>Lookups\<close>

record api_key_lookup =
  lu_api_key_id :: uuid
  lu_ib_account_id :: "uuid option"
  lu_client_id :: "uuid option"
  lu_key_kind :: string
  lu_consumer_id :: uuid
  lu_consumer_slug :: string
  lu_consumer_category :: string
  lu_consumer_status :: string
  lu_key_prefix :: string
  lu_key_label :: string
  lu_key_status :: string
  lu_hash_algorithm :: string
  lu_expires_at :: "timestamp option"
  lu_is_expired :: bool

text \<open>\<open>coalesce\<close>, and the columns of the lookup query that depend on the kind of the key.\<close>

definition coalesce :: "'a option \<Rightarrow> 'a option \<Rightarrow> 'a option" where
  "coalesce a b = (case a of Some x \<Rightarrow> Some x | None \<Rightarrow> b)"

definition lookup_category :: "api_key_row \<Rightarrow> consumer_row option \<Rightarrow> string option" where
  "lookup_category key api_consumer =
     (if ak_kind key = ''legacy'' then map_option co_category api_consumer else Some (ak_kind key))"

definition lookup_status ::
  "api_key_row \<Rightarrow> consumer_row option \<Rightarrow> account_row option \<Rightarrow> client_row option \<Rightarrow> string option" where
  "lookup_status key api_consumer ib_account ib_client =
     (if ak_kind key = ''legacy'' then map_option co_status api_consumer
      else if ak_kind key = ''account'' then map_option ia_status ib_account
      else if ak_kind key = ''anonymous_demo'' then Some ''active''
      else if ak_kind key = ''agent'' then
        (if map_option ia_status ib_account = Some ''active'' \<and>
            map_option ic_status ib_client = Some ''active''
         then Some ''active'' else Some ''revoked'')
      else None)"

definition lookup_row ::
  "database \<Rightarrow> timestamp \<Rightarrow> api_key_row \<Rightarrow> (api_key_lookup, repository_error) result" where
  "lookup_row db now key =
     (let api_consumer = find (\<lambda>c. Some (co_id c) = ak_consumer_id key) (db_api_consumer db);
          ib_client = find (\<lambda>c. Some (ic_id c) = ak_client_id key) (db_ib_client db);
          account_id = coalesce (ak_ib_account_id key) (map_option ic_ib_account_id ib_client);
          ib_account = find (\<lambda>a. Some (ia_id a) = account_id) (db_ib_account db);
          slug = coalesce (map_option co_slug api_consumer)
            (coalesce (map_option ia_public_id ib_account)
              (coalesce (map_option ic_public_id ib_client) (Some ''anonymous-demo'')))
      in case (slug, lookup_category key api_consumer,
               lookup_status key api_consumer ib_account ib_client) of
           (Some consumer_slug, Some consumer_category, Some consumer_status) \<Rightarrow>
             Ok \<lparr>lu_api_key_id = ak_id key,
                 lu_ib_account_id = account_id,
                 lu_client_id = ak_client_id key,
                 lu_key_kind = ak_kind key,
                 lu_consumer_id = (case ak_consumer_id key of Some c \<Rightarrow> c | None \<Rightarrow> 0),
                 lu_consumer_slug = consumer_slug,
                 lu_consumer_category = consumer_category,
                 lu_consumer_status = consumer_status,
                 lu_key_prefix = ak_key_prefix key,
                 lu_key_label = ak_label key,
                 lu_key_status = ak_status key,
                 lu_hash_algorithm = ak_hash_algorithm key,
                 lu_expires_at = ak_expires_at key,
                 lu_is_expired = expired (ak_expires_at key) now\<rparr>
         | _ \<Rightarrow> Err UnexpectedNull)"

definition find_key_by_prefix_and_hash ::
  "database \<Rightarrow> timestamp \<Rightarrow> string \<Rightarrow> nat list \<Rightarrow> (api_key_lookup option, repository_error) result" where
  "find_key_by_prefix_and_hash db now key_prefix key_hash =
     (case find (\<lambda>k. ak_key_prefix k = key_prefix \<and> ak_key_hash k = key_hash) (db_api_key db) of
        None \<Rightarrow> Ok None
      | Some key \<Rightarrow> and_then (lookup_row db now key) (\<lambda>row. Ok (Some row)))"

definition into_domain ::
  "timestamp \<Rightarrow> capability_grant_row \<Rightarrow> (capability_grant, repository_error) result" where
  "into_domain now row =
     and_then (ok_or (capability_parse (gr_capability_id row)) (UnknownCapabilityId (gr_capability_id row)))
       (\<lambda>capability.
     and_then (ok_or (network_scope_parse (gr_network_scope row)) (InvalidNetworkScope (gr_network_scope row)))
       (\<lambda>network_scope.
     and_then
       (if expired (gr_expires_at row) now then Ok GrantExpired
        else if gr_status row = ''active'' then Ok GrantActive
        else if gr_status row = ''revoked'' then Ok GrantRevoked
        else Err (InvalidGrantStatus (gr_status row)))
       (\<lambda>status. Ok ((active_grant capability network_scope)\<lparr>cg_status := status\<rparr>))))"

record api_key_authorization_grants =
  ag_owner_grants :: "capability_grant list"
  ag_key_grants :: "capability_grant list"
  ag_client_grants :: "capability_grant list option"

text \<open>The three branches of the \<open>union all\<close> query for the owner's grants.\<close>

definition owner_grant_rows :: "database \<Rightarrow> uuid \<Rightarrow> capability_grant_row list" where
  "owner_grant_rows db api_key_id =
     [g. g \<leftarrow> db_consumer_grants db, k \<leftarrow> db_api_key db,
         ak_consumer_id k = Some (gr_holder g), ak_id k = api_key_id, ak_kind k = ''legacy''] @
     [g. g \<leftarrow> db_account_grants db, k \<leftarrow> db_api_key db,
         ak_ib_account_id k = Some (gr_holder g), ak_id k = api_key_id, ak_kind k = ''account''] @
     [g. g \<leftarrow> db_account_grants db, c \<leftarrow> db_ib_client db, ic_ib_account_id c = gr_holder g,
         k \<leftarrow> db_api_key db, ak_client_id k = Some (ic_id c), ak_id k = api_key_id,
         ak_kind k = ''agent'']"

definition client_grant_rows :: "database \<Rightarrow> uuid \<Rightarrow> capability_grant_row list" where
  "client_grant_rows db api_key_id =
     [g. g \<leftarrow> db_client_grants db, k \<leftarrow> db_api_key db,
         ak_client_id k = Some (gr_holder g), ak_id k = api_key_id, ak_kind k = ''agent'']"

definition find_authorization_grants ::
  "database \<Rightarrow> timestamp \<Rightarrow> uuid \<Rightarrow> (api_key_authorization_grants, repository_error) result" where
  "find_authorization_grants db now api_key_id =
     and_then (ok_or (find (\<lambda>k. ak_id k = api_key_id) (db_api_key db)) RowNotFound) (\<lambda>key.
       let key_kind = ak_kind key
       in and_then
            (if key_kind = ''anonymous_demo''
             then Ok (map (\<lambda>c. active_grant c (Exact ''eth-mainnet'')) LEGACY_BASELINE)
             else try_map (into_domain now) (owner_grant_rows db api_key_id)) (\<lambda>owner_grants.
          and_then (try_map (into_domain now) (filter (\<lambda>g. gr_holder g = api_key_id) (db_key_grants db)))
            (\<lambda>key_grants.
          and_then
            (if key_kind = ''agent''
             then and_then (try_map (into_domain now) (client_grant_rows db api_key_id)) (\<lambda>gs. Ok (Some gs))
             else Ok None) (\<lambda>client_grants.
          Ok \<lparr>ag_owner_grants = owner_grants, ag_key_grants = key_grants,
              ag_client_grants = client_grants\<rparr>))))"

definition find_policy :: "database \<Rightarrow> uuid \<Rightarrow> (api_key_policy option, repository_error) result" where
  "find_policy db api_key_id = Ok (db_policy db api_key_id)"

section \<open>Usage counters\<close>

datatype daily_accepted_outcome = Accepted | LimitExceeded | MissingPolicy

definition daily_outcome_from_database_value ::
  "string \<Rightarrow> (daily_accepted_outcome, repository_error) result" where
  "daily_outcome_from_database_value s =
     (if s = ''accepted'' then Ok Accepted
      else if s = ''limit_exceeded'' then Ok LimitExceeded
      else if s = ''missing_policy'' then Ok MissingPolicy
      else Err (UnexpectedDailyOutcome s))"

definition empty_usage :: usage_daily_row where
  "empty_usage = \<lparr>us_accepted_requests = 0, us_rate_limited_requests = 0, us_successful_responses = 0,
     us_client_error_responses = 0, us_server_error_responses = 0, us_last_used_at = None\<rparr>"

text \<open>The statement of \<open>increment_daily_accepted\<close>: the inserted or updated usage row, if any.\<close>

definition accepted_update :: "database \<Rightarrow> timestamp \<Rightarrow> uuid \<Rightarrow> usage_daily_row option" where
  "accepted_update db now api_key_id =
     (case db_policy db api_key_id of
        None \<Rightarrow> None
      | Some policy \<Rightarrow>
          if po_requests_per_day policy > 0 then
            (case db_usage_daily db (api_key_id, utc_date now) of
               None \<Rightarrow> Some (empty_usage\<lparr>us_accepted_requests := 1, us_last_used_at := Some now\<rparr>)
             | Some usage \<Rightarrow>
                 if us_accepted_requests usage < po_requests_per_day policy
                 then Some (usage\<lparr>us_accepted_requests := us_accepted_requests usage + 1,
                                  us_last_used_at := Some now\<rparr>)
                 else None)
          else None)"

definition increment_daily_accepted ::
  "database \<Rightarrow> timestamp \<Rightarrow> uuid \<Rightarrow>
   (daily_accepted_outcome, repository_error) result \<times> database" where
  "increment_daily_accepted db now api_key_id =
     (let key_exists = list_ex (\<lambda>k. ak_id k = api_key_id) (db_api_key db);
          (updated, db') =
            (case accepted_update db now api_key_id of
               None \<Rightarrow> (False, db)
             | Some usage \<Rightarrow>
                 (True,
                  db\<lparr>db_usage_daily := (db_usage_daily db)((api_key_id, utc_date now) \<mapsto> usage),
                     db_api_key := map (\<lambda>k. if ak_id k = api_key_id
                                            then k\<lparr>ak_last_used_at := Some now\<rparr> else k) (db_api_key db)\<rparr>));
          outcome =
            (if db_policy db api_key_id = None then ''missing_policy''
             else if updated \<and> key_exists then ''accepted''
             else ''limit_exceeded'')
      in (daily_outcome_from_database_value outcome, db'))"

text \<open>The upserts of the other counters.\<close>

definition bump_usage ::
  "(usage_daily_row \<Rightarrow> usage_daily_row) \<Rightarrow> database \<Rightarrow> timestamp \<Rightarrow> uuid \<Rightarrow> database" where
  "bump_usage bump db now api_key_id =
     (let key = (api_key_id, utc_date now);
          usage = (case db_usage_daily db key of None \<Rightarrow> empty_usage | Some u \<Rightarrow> u)
      in db\<lparr>db_usage_daily := (db_usage_daily db)(key \<mapsto> (bump usage)\<lparr>us_last_used_at := Some now\<rparr>)\<rparr>)"

text \<open>The usage rows reference \<open>api_key\<close>: the upsert fails for a key that does not exist.\<close>

definition upsert_usage ::
  "(usage_daily_row \<Rightarrow> usage_daily_row) \<Rightarrow> database \<Rightarrow> timestamp \<Rightarrow> uuid \<Rightarrow>
   (unit, repository_error) result \<times> database" where
  "upsert_usage bump db now api_key_id =
     (if list_ex (\<lambda>k. ak_id k = api_key_id) (db_api_key db)
      then (Ok (), bump_usage bump db now api_key_id)
      else (Err DatabaseError, db))"

definition increment_daily_rate_limited ::
  "database \<Rightarrow> timestamp \<Rightarrow> uuid \<Rightarrow> (unit, repository_error) result \<times> database" where
  "increment_daily_rate_limited db now api_key_id =
     upsert_usage (\<lambda>u. u\<lparr>us_rate_limited_requests := us_rate_limited_requests u + 1\<rparr>) db now api_key_id"

datatype usage_response_class = Successful | ClientError | ServerError

definition increment_daily_response ::
  "database \<Rightarrow> timestamp \<Rightarrow> uuid \<Rightarrow> usage_response_class \<Rightarrow>
   (unit, repository_error) result \<times> database" where
  "increment_daily_response db now api_key_id response_class =
     (case response_class of
        Successful \<Rightarrow>
          upsert_usage (\<lambda>u. u\<lparr>us_successful_responses := us_successful_responses u + 1\<rparr>) db now api_key_id
      | ClientError \<Rightarrow>
          upsert_usage (\<lambda>u. u\<lparr>us_client_error_responses := us_client_error_responses u + 1\<rparr>) db now api_key_id
      | ServerError \<Rightarrow>
          upsert_usage (\<lambda>u. u\<lparr>us_server_error_responses := us_server_error_responses u + 1\<rparr>) db now api_key_id)"

section \<open>Issuing and revoking keys\<close>

text \<open>
  The \<open>check\<close> constraints of the tables that the inserts below can violate
  (\<open>migrations/0007\<close>, \<open>0008\<close>).
\<close>

definition lower_alnum_words :: "char \<Rightarrow> string \<Rightarrow> bool" where
  "lower_alnum_words sep s \<longleftrightarrow>
     list_all (\<lambda>w. w \<noteq> [] \<and> list_all (\<lambda>c. is_ascii_digit c \<or> is_ascii_lowercase c) w) (split_on sep s)"

definition non_blank :: "string \<Rightarrow> bool" where
  "non_blank s \<longleftrightarrow> list_ex (\<lambda>c. c \<noteq> CHR '' '') s"

definition consumer_checks :: "consumer_row \<Rightarrow> bool" where
  "consumer_checks c \<longleftrightarrow> lower_alnum_words CHR ''-'' (co_slug c) \<and> non_blank (co_display_name c) \<and>
     co_category c \<in> {''friend'', ''partner'', ''public'', ''internal''} \<and>
     co_status c \<in> {''active'', ''disabled'', ''archived''}"

definition api_key_checks :: "api_key_row \<Rightarrow> bool" where
  "api_key_checks k \<longleftrightarrow> non_blank (ak_label k) \<and> lower_alnum_words CHR ''_'' (ak_key_prefix k) \<and>
     ak_hash_algorithm k = ''sha256'' \<and> length (ak_key_hash k) = 32 \<and>
     (case ak_expires_at k of None \<Rightarrow> True | Some e \<Rightarrow> ak_created_at k < e)"

record issue_api_key_input =
  in_consumer_slug :: string
  in_display_name :: string
  in_category :: string
  in_label :: string
  in_key_prefix :: string
  in_key_hash :: "nat list"
  in_requests_per_minute :: int
  in_requests_per_day :: int
  in_expires_at :: "string option"

record issued_api_key =
  ik_api_key_id :: uuid
  ik_consumer_id :: uuid
  ik_consumer_slug :: string
  ik_consumer_reused :: bool
  ik_key_prefix :: string
  ik_label :: string
  ik_status :: string
  ik_expires_at :: "timestamp option"
  ik_created_at :: timestamp
  ik_requests_per_minute :: int
  ik_requests_per_day :: int

record issue_consumer_row =
  ir_consumer_id :: uuid
  ir_consumer_slug :: string
  ir_display_name :: string
  ir_category :: string
  ir_consumer_reused :: bool

datatype consumer_conflict =
  DifferentDisplayName string | DifferentCategory string | AccountNotActiveOrMissing

datatype api_key_issue_error =
    IssueRepository repository_error
  | GeneratedKeyCollision
  | ConsumerConflict consumer_conflict

text \<open>\<open>upsert_consumer_for_issue\<close>; \<open>new_id\<close> is the value of \<open>gen_random_uuid()\<close>.\<close>

definition upsert_consumer_for_issue ::
  "database \<Rightarrow> uuid \<Rightarrow> string \<Rightarrow> string \<Rightarrow> string \<Rightarrow>
   (issue_consumer_row \<times> database, api_key_issue_error) result" where
  "upsert_consumer_for_issue db new_id consumer_slug display_name category =
     (let row = \<lparr>co_id = new_id, co_slug = consumer_slug, co_display_name = display_name,
                 co_category = category, co_status = ''active''\<rparr>
      in if \<not> consumer_checks row then Err (IssueRepository DatabaseError)
         else case find (\<lambda>c. co_slug c = consumer_slug) (db_api_consumer db) of
           None \<Rightarrow>
             (if list_ex (\<lambda>c. co_id c = new_id) (db_api_consumer db)
              then Err (IssueRepository DatabaseError)
              else Ok (\<lparr>ir_consumer_id = new_id, ir_consumer_slug = consumer_slug,
                        ir_display_name = display_name, ir_category = category,
                        ir_consumer_reused = False\<rparr>,
                       db\<lparr>db_api_consumer := db_api_consumer db @ [row]\<rparr>))
         | Some existing \<Rightarrow>
             if co_display_name existing \<noteq> display_name
             then Err (ConsumerConflict (DifferentDisplayName consumer_slug))
             else if co_category existing \<noteq> category
             then Err (ConsumerConflict (DifferentCategory consumer_slug))
             else Ok (\<lparr>ir_consumer_id = co_id existing, ir_consumer_slug = co_slug existing,
                       ir_display_name = co_display_name existing, ir_category = co_category existing,
                       ir_consumer_reused = True\<rparr>, db))"

text \<open>
  The insert into \<open>api_key\<close> shared by both kinds of keys, with the mapping of its errors by
  \<open>map_issue_insert_error\<close>: a violated unique index on prefix or hash is a collision.
\<close>

definition map_issue_insert_error :: "bool \<Rightarrow> api_key_issue_error" where
  "map_issue_insert_error unique_prefix_or_hash =
     (if unique_prefix_or_hash then GeneratedKeyCollision else IssueRepository DatabaseError)"

definition insert_api_key_row ::
  "database \<Rightarrow> api_key_row \<Rightarrow> (database, api_key_issue_error) result" where
  "insert_api_key_row db row =
     (if \<not> api_key_checks row \<or> list_ex (\<lambda>k. ak_id k = ak_id row) (db_api_key db)
      then Err (map_issue_insert_error False)
      else if list_ex (\<lambda>k. ak_key_prefix k = ak_key_prefix row \<or> ak_key_hash k = ak_key_hash row)
                (db_api_key db)
      then Err (map_issue_insert_error True)
      else Ok (db\<lparr>db_api_key := db_api_key db @ [row]\<rparr>))"

text \<open>\<open>$5::timestamptz\<close>: the cast is a parameter, \<open>None\<close> where PostgreSQL rejects the text.\<close>

definition cast_expiry ::
  "(string \<Rightarrow> timestamp option) \<Rightarrow> string option \<Rightarrow> (timestamp option, api_key_issue_error) result" where
  "cast_expiry timestamptz expires_at =
     (case expires_at of
        None \<Rightarrow> Ok None
      | Some text \<Rightarrow>
          and_then (ok_or (timestamptz text) (map_issue_insert_error False)) (\<lambda>t. Ok (Some t)))"

definition insert_issued_key ::
  "(string \<Rightarrow> timestamp option) \<Rightarrow> database \<Rightarrow> timestamp \<Rightarrow> uuid \<Rightarrow> issue_consumer_row \<Rightarrow>
   issue_api_key_input \<Rightarrow> (issued_api_key \<times> database, api_key_issue_error) result" where
  "insert_issued_key timestamptz db now new_id consumer input =
     and_then (cast_expiry timestamptz (in_expires_at input)) (\<lambda>expires_at.
       let row = \<lparr>ak_id = new_id, ak_consumer_id = Some (ir_consumer_id consumer),
                  ak_ib_account_id = None, ak_client_id = None, ak_kind = ''legacy'',
                  ak_label = in_label input, ak_key_prefix = in_key_prefix input,
                  ak_key_hash = in_key_hash input, ak_hash_algorithm = ''sha256'',
                  ak_status = ''active'', ak_expires_at = expires_at, ak_revoked_at = None,
                  ak_last_used_at = None, ak_created_at = now\<rparr>
       in and_then (insert_api_key_row db row) (\<lambda>db'.
            Ok (\<lparr>ik_api_key_id = new_id, ik_consumer_id = ir_consumer_id consumer,
                 ik_consumer_slug = ir_consumer_slug consumer,
                 ik_consumer_reused = ir_consumer_reused consumer,
                 ik_key_prefix = ak_key_prefix row, ik_label = ak_label row,
                 ik_status = ak_status row, ik_expires_at = expires_at, ik_created_at = now,
                 ik_requests_per_minute = in_requests_per_minute input,
                 ik_requests_per_day = in_requests_per_day input\<rparr>, db')))"

definition insert_policy_for_issue ::
  "database \<Rightarrow> uuid \<Rightarrow> int \<Rightarrow> int \<Rightarrow> (database, api_key_issue_error) result" where
  "insert_policy_for_issue db api_key_id requests_per_minute requests_per_day =
     (if requests_per_minute < 0 \<or> requests_per_day < 0 \<or> db_policy db api_key_id \<noteq> None
      then Err (IssueRepository DatabaseError)
      else Ok (db\<lparr>db_policy := (db_policy db)(api_key_id \<mapsto>
             \<lparr>po_requests_per_minute = requests_per_minute,
              po_requests_per_day = requests_per_day\<rparr>)\<rparr>))"

text \<open>
  \<open>insert ... values (holder, capability, '*') on conflict do nothing\<close>: the primary key of a
  grant is the holder, the capability and the scope.
\<close>

definition insert_grant_or_nothing ::
  "uuid \<Rightarrow> capability \<Rightarrow> capability_grant_row list \<Rightarrow> capability_grant_row list" where
  "insert_grant_or_nothing holder c rows =
     (if list_ex (\<lambda>g. gr_holder g = holder \<and> gr_capability_id g = capability_id c \<and>
                      gr_network_scope g = ''*'') rows
      then rows
      else rows @ [\<lparr>gr_holder = holder, gr_capability_id = capability_id c, gr_network_scope = ''*'',
                    gr_status = ''active'', gr_expires_at = None\<rparr>])"

definition insert_legacy_grants_for_issue :: "database \<Rightarrow> uuid \<Rightarrow> uuid \<Rightarrow> database" where
  "insert_legacy_grants_for_issue db consumer_id api_key_id =
     foldl (\<lambda>d c.
       d\<lparr>db_consumer_grants := insert_grant_or_nothing consumer_id c (db_consumer_grants d),
         db_key_grants := insert_grant_or_nothing api_key_id c (db_key_grants d)\<rparr>)
       db LEGACY_BASELINE"

text \<open>A transaction: on an error every change is rolled back.\<close>

definition transact :: "database \<Rightarrow> ('a \<times> database, 'e) result \<Rightarrow> ('a, 'e) result \<times> database" where
  "transact db r = (case r of Ok (x, db') \<Rightarrow> (Ok x, db') | Err e \<Rightarrow> (Err e, db))"

definition issue_api_key ::
  "(string \<Rightarrow> timestamp option) \<Rightarrow> database \<Rightarrow> timestamp \<Rightarrow> uuid \<Rightarrow> uuid \<Rightarrow> issue_api_key_input \<Rightarrow>
   (issued_api_key, api_key_issue_error) result \<times> database" where
  "issue_api_key timestamptz db now new_consumer_id new_key_id input =
     transact db
       (and_then (upsert_consumer_for_issue db new_consumer_id (in_consumer_slug input)
                    (in_display_name input) (in_category input)) (\<lambda>(consumer, db1).
        and_then (insert_issued_key timestamptz db1 now new_key_id consumer input) (\<lambda>(api_key, db2).
        and_then (insert_policy_for_issue db2 (ik_api_key_id api_key)
                    (in_requests_per_minute input) (in_requests_per_day input)) (\<lambda>db3.
        Ok (api_key, insert_legacy_grants_for_issue db3 (ir_consumer_id consumer) (ik_api_key_id api_key))))))"

record issued_account_api_key =
  iak_api_key_id :: uuid
  iak_public_id :: string
  iak_key_prefix :: string
  iak_label :: string
  iak_status :: string
  iak_expires_at :: "timestamp option"
  iak_created_at :: timestamp
  iak_requests_per_minute :: int
  iak_requests_per_day :: int

text \<open>Here the grants are inserted without an \<open>on conflict\<close> clause.\<close>

fun insert_account_grants ::
  "database \<Rightarrow> uuid \<Rightarrow> capability list \<Rightarrow> (database, api_key_issue_error) result" where
  "insert_account_grants db api_key_id [] = Ok db"
| "insert_account_grants db api_key_id (c # cs) =
     (if insert_grant_or_nothing api_key_id c (db_key_grants db) = db_key_grants db
      then Err (IssueRepository DatabaseError)
      else insert_account_grants
             (db\<lparr>db_key_grants := insert_grant_or_nothing api_key_id c (db_key_grants db)\<rparr>) api_key_id cs)"

definition issue_account_api_key ::
  "(string \<Rightarrow> timestamp option) \<Rightarrow> database \<Rightarrow> timestamp \<Rightarrow> uuid \<Rightarrow> string \<Rightarrow> string \<Rightarrow> string \<Rightarrow>
   nat list \<Rightarrow> int \<Rightarrow> int \<Rightarrow> string option \<Rightarrow>
   (issued_account_api_key, api_key_issue_error) result \<times> database" where
  "issue_account_api_key timestamptz db now new_key_id public_id label key_prefix key_hash
     requests_per_minute requests_per_day expires_at =
     transact db
       (and_then (ok_or (find (\<lambda>a. ia_public_id a = public_id \<and> ia_status a = ''active'') (db_ib_account db))
                    (ConsumerConflict AccountNotActiveOrMissing)) (\<lambda>account.
        and_then (cast_expiry timestamptz expires_at) (\<lambda>expiry.
        let row = \<lparr>ak_id = new_key_id, ak_consumer_id = None, ak_ib_account_id = Some (ia_id account),
                   ak_client_id = None, ak_kind = ''account'', ak_label = label,
                   ak_key_prefix = key_prefix, ak_key_hash = key_hash, ak_hash_algorithm = ''sha256'',
                   ak_status = ''active'', ak_expires_at = expiry, ak_revoked_at = None,
                   ak_last_used_at = None, ak_created_at = now\<rparr>
        in and_then (insert_api_key_row db row) (\<lambda>db1.
        and_then (insert_policy_for_issue db1 new_key_id requests_per_minute requests_per_day) (\<lambda>db2.
        and_then (insert_account_grants db2 new_key_id ACCOUNT_BASELINE) (\<lambda>db3.
        Ok (\<lparr>iak_api_key_id = new_key_id, iak_public_id = ia_public_id account,
             iak_key_prefix = key_prefix, iak_label = label, iak_status = ''active'',
             iak_expires_at = expiry, iak_created_at = now,
             iak_requests_per_minute = requests_per_minute,
             iak_requests_per_day = requests_per_day\<rparr>, db3)))))))"

text \<open>
  \<open>set_account_status\<close>: a closed account stays closed; every change of status revokes the
  account's open browser sessions.
\<close>

definition set_account_status ::
  "database \<Rightarrow> timestamp \<Rightarrow> string \<Rightarrow> string \<Rightarrow> (bool, repository_error) result \<times> database" where
  "set_account_status db now public_id status =
     (case find (\<lambda>a. ia_public_id a = public_id \<and> ia_status a \<noteq> ''closed'') (db_ib_account db) of
        None \<Rightarrow> (Ok False, db)
      | Some account \<Rightarrow>
          if status \<notin> {''pending_verification'', ''active'', ''suspended'', ''closed''}
          then (Err DatabaseError, db)
          else
          (Ok True,
           db\<lparr>db_ib_account :=
                map (\<lambda>a. if ia_public_id a = public_id \<and> ia_status a \<noteq> ''closed''
                         then a\<lparr>ia_status := status,
                                ia_closed_at := (if status = ''closed''
                                  then coalesce (ia_closed_at a) (Some now) else ia_closed_at a)\<rparr>
                         else a) (db_ib_account db),
              db_browser_session :=
                map (\<lambda>s. if bs_ib_account_id s = ia_id account \<and> bs_revoked_at s = None
                         then s\<lparr>bs_revoked_at := Some now\<rparr> else s) (db_browser_session db)\<rparr>))"

record api_key_revocation =
  rv_api_key_id :: uuid
  rv_key_prefix :: string
  rv_status :: string
  rv_revoked_at :: "timestamp option"

definition revoke_row :: "timestamp \<Rightarrow> api_key_row \<Rightarrow> api_key_row" where
  "revoke_row now k = k\<lparr>ak_status := ''revoked'', ak_revoked_at := coalesce (ak_revoked_at k) (Some now)\<rparr>"

definition revoke_by_prefix ::
  "database \<Rightarrow> timestamp \<Rightarrow> string \<Rightarrow> (api_key_revocation option, repository_error) result \<times> database" where
  "revoke_by_prefix db now key_prefix =
     (let db' = db\<lparr>db_api_key := map (\<lambda>k. if ak_key_prefix k = key_prefix then revoke_row now k else k)
                                  (db_api_key db)\<rparr>
      in (Ok (map_option (\<lambda>k. \<lparr>rv_api_key_id = ak_id k, rv_key_prefix = ak_key_prefix k,
                              rv_status = ak_status k, rv_revoked_at = ak_revoked_at k\<rparr>)
               (find (\<lambda>k. ak_key_prefix k = key_prefix) (db_api_key db'))),
          db'))"

section \<open>Integrity\<close>

text \<open>The uniqueness and reference constraints that the schema declares and the operations rely on.\<close>

definition key_ids :: "database \<Rightarrow> uuid set" where
  "key_ids db = ak_id ` set (db_api_key db)"

definition counters_ok :: "(uuid \<times> int \<Rightarrow> usage_daily_row option) \<Rightarrow> bool" where
  "counters_ok usage \<longleftrightarrow> (\<forall>key u. usage key = Some u \<longrightarrow> 0 \<le> us_accepted_requests u)"

lemma counters_ok_update [simp]:
  "counters_ok usage \<Longrightarrow> 0 \<le> us_accepted_requests u \<Longrightarrow> counters_ok (usage(key \<mapsto> u))"
  by (simp add: counters_ok_def)

definition db_wf :: "database \<Rightarrow> bool" where
  "db_wf db \<longleftrightarrow>
     distinct (map ak_id (db_api_key db)) \<and>
     distinct (map ak_key_prefix (db_api_key db)) \<and>
     distinct (map ak_key_hash (db_api_key db)) \<and>
     distinct (map co_id (db_api_consumer db)) \<and>
     distinct (map co_slug (db_api_consumer db)) \<and>
     dom (db_policy db) \<subseteq> key_ids db \<and>
     fst ` dom (db_usage_daily db) \<subseteq> key_ids db \<and>
     gr_holder ` set (db_key_grants db) \<subseteq> key_ids db \<and>
     gr_holder ` set (db_consumer_grants db) \<subseteq> co_id ` set (db_api_consumer db) \<and>
     counters_ok (db_usage_daily db)"

lemma db_wf_keys:
  assumes "db_wf db"
  shows "dom (db_policy db) \<subseteq> key_ids db" "fst ` dom (db_usage_daily db) \<subseteq> key_ids db"
    "gr_holder ` set (db_key_grants db) \<subseteq> key_ids db" "counters_ok (db_usage_daily db)"
    "gr_holder ` set (db_consumer_grants db) \<subseteq> co_id ` set (db_api_consumer db)"
  using assms by (simp_all add: db_wf_def)

definition mark_used :: "timestamp \<Rightarrow> uuid \<Rightarrow> api_key_row list \<Rightarrow> api_key_row list" where
  "mark_used now api_key_id =
     map (\<lambda>k. if ak_id k = api_key_id then k\<lparr>ak_last_used_at := Some now\<rparr> else k)"

lemma mark_used_simps [simp]:
  "map ak_id (mark_used now i ks) = map ak_id ks"
  "map ak_key_prefix (mark_used now i ks) = map ak_key_prefix ks"
  "map ak_key_hash (mark_used now i ks) = map ak_key_hash ks"
  "ak_id ` set (mark_used now i ks) = ak_id ` set ks"
  by (induction ks) (auto simp: mark_used_def)

lemma key_ids_simps [simp]:
  "key_ids (db\<lparr>db_usage_daily := u\<rparr>) = key_ids db"
  "key_ids (db\<lparr>db_policy := p\<rparr>) = key_ids db"
  "key_ids (db\<lparr>db_key_grants := g\<rparr>) = key_ids db"
  "key_ids (db\<lparr>db_consumer_grants := g\<rparr>) = key_ids db"
  "key_ids (db\<lparr>db_api_consumer := c\<rparr>) = key_ids db"
  "key_ids (db\<lparr>db_ib_account := a\<rparr>) = key_ids db"
  "key_ids (db\<lparr>db_browser_session := b\<rparr>) = key_ids db"
  "key_ids (db\<lparr>db_usage_daily := u, db_api_key := mark_used now i (db_api_key db)\<rparr>) = key_ids db"
  "key_ids (db\<lparr>db_api_key := db_api_key db @ [row]\<rparr>) = insert (ak_id row) (key_ids db)"
  by (simp_all add: key_ids_def)

lemma increment_daily_accepted_eq:
  "increment_daily_accepted db now k =
     (case accepted_update db now k of
        None \<Rightarrow> (Ok (if db_policy db k = None then MissingPolicy else LimitExceeded), db)
      | Some usage \<Rightarrow>
          (Ok (if k \<in> key_ids db then Accepted else LimitExceeded),
           db\<lparr>db_usage_daily := (db_usage_daily db)((k, utc_date now) \<mapsto> usage),
              db_api_key := mark_used now k (db_api_key db)\<rparr>))"
  by (auto simp: increment_daily_accepted_def accepted_update_def daily_outcome_from_database_value_def
      mark_used_def list_ex_iff Let_def key_ids_def split: option.splits)

lemma db_wf_increment_daily_accepted:
  assumes "db_wf db"
  shows "db_wf (snd (increment_daily_accepted db now k))"
proof (cases "accepted_update db now k")
  case None
  then show ?thesis using assms by (simp add: increment_daily_accepted_eq)
next
  case (Some usage)
  then have "k \<in> dom (db_policy db)" by (auto simp: accepted_update_def split: option.splits)
  then have "k \<in> key_ids db" using db_wf_keys(1)[OF assms] by blast
  moreover have "0 \<le> us_accepted_requests usage"
    using Some db_wf_keys(4)[OF assms]
    by (auto simp: accepted_update_def empty_usage_def counters_ok_def split: option.splits if_splits)
  ultimately show ?thesis using assms Some by (auto simp: increment_daily_accepted_eq db_wf_def)
qed

lemma db_wf_bump_usage:
  "db_wf db \<Longrightarrow> k \<in> key_ids db \<Longrightarrow> (\<And>u. us_accepted_requests (f u) = us_accepted_requests u) \<Longrightarrow>
     db_wf (bump_usage f db now k)"
  using db_wf_keys(4)[of db]
  by (auto simp: bump_usage_def db_wf_def Let_def empty_usage_def counters_ok_def split: option.splits)

lemma db_wf_upsert_usage:
  "db_wf db \<Longrightarrow> (\<And>u. us_accepted_requests (f u) = us_accepted_requests u) \<Longrightarrow>
     db_wf (snd (upsert_usage f db now k))"
  using db_wf_bump_usage by (simp add: upsert_usage_def list_ex_image key_ids_def)

section \<open>The daily quota\<close>

text \<open>
  What the middleware relies on: an accepted request uses one unit of the key's quota of the day,
  of which there was one left; a refused one uses nothing.
\<close>

locale daily_quota =
  fixes accept :: "'s \<Rightarrow> timestamp \<Rightarrow> uuid \<Rightarrow> bool \<times> 's"
    and used :: "'s \<Rightarrow> uuid \<Rightarrow> int \<Rightarrow> int"
    and quota :: "'s \<Rightarrow> uuid \<Rightarrow> int"
    and consistent :: "'s \<Rightarrow> bool"
  assumes accept_consistent: "consistent s \<Longrightarrow> consistent (snd (accept s now k))"
    and accept_granted: "consistent s \<Longrightarrow> accept s now k = (True, s') \<Longrightarrow>
      used s k (utc_date now) < quota s k \<and>
      used s' k' d = used s k' d + (if k' = k \<and> d = utc_date now then 1 else 0)"
    and accept_refused: "consistent s \<Longrightarrow> accept s now k = (False, s') \<Longrightarrow> used s' k' d = used s k' d"
    and accept_quota: "quota (snd (accept s now k)) = quota s"

text \<open>Any interleaving of requests of any keys; the outcome of each.\<close>

fun run_requests ::
  "('s \<Rightarrow> timestamp \<Rightarrow> uuid \<Rightarrow> bool \<times> 's) \<Rightarrow> 's \<Rightarrow> (timestamp \<times> uuid) list \<Rightarrow> bool list \<times> 's" where
  "run_requests acc s [] = ([], s)"
| "run_requests acc s ((now, k) # rs) =
     (let (b, s') = acc s now k; (bs, s'') = run_requests acc s' rs in (b # bs, s''))"

definition granted_on :: "uuid \<Rightarrow> int \<Rightarrow> (timestamp \<times> uuid) list \<Rightarrow> bool list \<Rightarrow> nat" where
  "granted_on k d rs bs =
     length (filter (\<lambda>((now, k'), b). b \<and> k' = k \<and> utc_date now = d) (zip rs bs))"

lemma granted_on_simps [simp]:
  "granted_on k d [] bs = 0"
  "granted_on k d ((now, k') # rs) (b # bs) =
     (if b \<and> k' = k \<and> utc_date now = d then 1 else 0) + granted_on k d rs bs"
  by (simp_all add: granted_on_def)

context daily_quota
begin

lemma run_requests_used:
  assumes "consistent s" "run_requests accept s rs = (bs, s')"
  shows "used s' k d = used s k d + int (granted_on k d rs bs) \<and> consistent s' \<and> quota s' = quota s \<and>
    (used s k d \<le> max 0 (quota s k) \<longrightarrow> used s' k d \<le> max 0 (quota s k))"
  using assms
proof (induction rs arbitrary: s bs)
  case (Cons r rs)
  obtain now k' where r: "r = (now, k')" by (cases r)
  obtain b s1 where a: "accept s now k' = (b, s1)" by fastforce
  obtain bs1 where rest: "run_requests accept s1 rs = (bs1, s')" and bs: "bs = b # bs1"
    using Cons.prems(2) by (auto simp: r a split: prod.splits)
  have c1: "consistent s1" and q1: "quota s1 = quota s"
    using accept_consistent[OF Cons.prems(1), of now k'] accept_quota[of s now k'] a by simp_all
  have u: "used s1 k d = used s k d + (if b \<and> k' = k \<and> utc_date now = d then 1 else 0)"
    "b \<and> k' = k \<and> utc_date now = d \<longrightarrow> used s k d < quota s k"
    using accept_granted[OF Cons.prems(1), of now k' s1 k d] accept_refused[OF Cons.prems(1), of now k' s1 k d]
      a by (cases b; auto)+
  show ?case using Cons.IH[OF c1 rest] u q1 by (auto simp: bs r)
qed simp

text \<open>The requests of a key accepted on a day never exceed its quota.\<close>

lemma granted_within_quota:
  assumes "consistent s" "used s k d = 0" "run_requests accept s rs = (bs, s')"
  shows "int (granted_on k d rs bs) \<le> max 0 (quota s k)"
  using run_requests_used[OF assms(1,3), of k d] assms(2) by auto

end

definition accept_daily :: "database \<Rightarrow> timestamp \<Rightarrow> uuid \<Rightarrow> bool \<times> database" where
  "accept_daily db now k =
     (let (r, db') = increment_daily_accepted db now k in (r = Ok Accepted, db'))"

definition accepted_on :: "database \<Rightarrow> uuid \<Rightarrow> int \<Rightarrow> int" where
  "accepted_on db k d =
     (case db_usage_daily db (k, d) of None \<Rightarrow> 0 | Some u \<Rightarrow> us_accepted_requests u)"

definition quota_of :: "database \<Rightarrow> uuid \<Rightarrow> int" where
  "quota_of db k = (case db_policy db k of None \<Rightarrow> 0 | Some p \<Rightarrow> po_requests_per_day p)"

lemma accept_daily_eq:
  assumes "db_wf db"
  shows "accept_daily db now k =
     (case accepted_update db now k of
        None \<Rightarrow> (False, db)
      | Some usage \<Rightarrow>
          (True, db\<lparr>db_usage_daily := (db_usage_daily db)((k, utc_date now) \<mapsto> usage),
                    db_api_key := mark_used now k (db_api_key db)\<rparr>))"
proof (cases "accepted_update db now k")
  case (Some usage)
  then have "k \<in> dom (db_policy db)" by (auto simp: accepted_update_def split: option.splits)
  then have "k \<in> key_ids db" using db_wf_keys(1)[OF assms] by blast
  then show ?thesis using Some by (simp add: accept_daily_def increment_daily_accepted_eq)
qed (simp add: accept_daily_def increment_daily_accepted_eq)

lemma accepted_update_count:
  assumes "accepted_update db now k = Some usage"
  shows "us_accepted_requests usage = accepted_on db k (utc_date now) + 1"
    "accepted_on db k (utc_date now) < quota_of db k"
  using assms
  by (auto simp: accepted_update_def accepted_on_def quota_of_def empty_usage_def
      split: option.splits if_splits)

interpretation quota: daily_quota accept_daily accepted_on quota_of db_wf
proof
  fix s now k
  assume "db_wf s"
  then show "db_wf (snd (accept_daily s now k))"
    using db_wf_increment_daily_accepted[of s now k] by (auto simp: accept_daily_def split: prod.splits)
next
  fix s now k s' k' d
  assume "db_wf s" "accept_daily s now k = (True, s')"
  then obtain usage where u: "accepted_update s now k = Some usage"
    "s' = s\<lparr>db_usage_daily := (db_usage_daily s)((k, utc_date now) \<mapsto> usage),
          db_api_key := mark_used now k (db_api_key s)\<rparr>"
    by (auto simp: accept_daily_eq split: option.splits)
  from accepted_update_count[OF u(1)] u(2)
  show "accepted_on s k (utc_date now) < quota_of s k \<and>
      accepted_on s' k' d = accepted_on s k' d + (if k' = k \<and> d = utc_date now then 1 else 0)"
    by (auto simp: accepted_on_def)
next
  fix s now k s' k' d
  assume "db_wf s" "accept_daily s now k = (False, s')"
  then show "accepted_on s' k' d = accepted_on s k' d"
    by (auto simp: accept_daily_eq split: option.splits)
next
  fix s now k
  show "quota_of (snd (accept_daily s now k)) = quota_of s"
    by (auto simp: accept_daily_def increment_daily_accepted_eq quota_of_def fun_eq_iff
        split: option.splits prod.splits)
qed

section \<open>Issued and revoked keys\<close>

lemma insert_api_key_row_Ok:
  "insert_api_key_row db row = Ok db' \<longleftrightarrow>
     api_key_checks row \<and> ak_id row \<notin> key_ids db \<and>
     ak_key_prefix row \<notin> ak_key_prefix ` set (db_api_key db) \<and>
     ak_key_hash row \<notin> ak_key_hash ` set (db_api_key db) \<and>
     db' = db\<lparr>db_api_key := db_api_key db @ [row]\<rparr>"
proof -
  have ex: "list_ex (\<lambda>k. f k = b \<or> g k = c) ks \<longleftrightarrow> b \<in> f ` set ks \<or> c \<in> g ` set ks"
    for f :: "api_key_row \<Rightarrow> 'x" and g :: "api_key_row \<Rightarrow> 'y" and b c ks
    by (force simp: list_ex_iff)
  show ?thesis
    unfolding insert_api_key_row_def ex list_ex_image key_ids_def by auto
qed

lemma db_wf_insert_key:
  "db_wf db \<Longrightarrow> insert_api_key_row db row = Ok db' \<Longrightarrow> db_wf db'"
proof -
  assume wf: "db_wf db" and "insert_api_key_row db row = Ok db'"
  then have i: "ak_id row \<notin> key_ids db" "ak_key_prefix row \<notin> ak_key_prefix ` set (db_api_key db)"
    "ak_key_hash row \<notin> ak_key_hash ` set (db_api_key db)"
    and db': "db' = db\<lparr>db_api_key := db_api_key db @ [row]\<rparr>"
    by (simp_all add: insert_api_key_row_Ok)
  have "dom (db_policy db) \<subseteq> insert (ak_id row) (key_ids db)"
    "fst ` dom (db_usage_daily db) \<subseteq> insert (ak_id row) (key_ids db)"
    "gr_holder ` set (db_key_grants db) \<subseteq> insert (ak_id row) (key_ids db)"
    using db_wf_keys[OF wf] by blast+
  with wf i show "db_wf db'" by (simp add: db_wf_def db') (simp add: key_ids_def)
qed

lemma db_wf_insert_policy:
  "db_wf db \<Longrightarrow> k \<in> key_ids db \<Longrightarrow> insert_policy_for_issue db k m d = Ok db' \<Longrightarrow> db_wf db'"
proof -
  assume "db_wf db" "k \<in> key_ids db" "insert_policy_for_issue db k m d = Ok db'"
  moreover from this(3) have "db' = db\<lparr>db_policy := (db_policy db)(k \<mapsto>
      \<lparr>po_requests_per_minute = m, po_requests_per_day = d\<rparr>)\<rparr>"
    by (simp add: insert_policy_for_issue_def split: if_splits)
  ultimately show "db_wf db'" by (simp add: db_wf_def)
qed

lemma db_wf_upsert_consumer:
  "db_wf db \<Longrightarrow> upsert_consumer_for_issue db i slug name cat = Ok (c, db') \<Longrightarrow> db_wf db'"
proof (cases "find (\<lambda>c. co_slug c = slug) (db_api_consumer db)")
  case None
  assume wf: "db_wf db" and "upsert_consumer_for_issue db i slug name cat = Ok (c, db')"
  then have db': "db' = db\<lparr>db_api_consumer := db_api_consumer db @
      [\<lparr>co_id = i, co_slug = slug, co_display_name = name, co_category = cat, co_status = ''active''\<rparr>]\<rparr>"
    and "i \<notin> co_id ` set (db_api_consumer db)"
    using None by (auto simp: upsert_consumer_for_issue_def Let_def list_ex_iff split: if_splits)
  moreover have "slug \<notin> co_slug ` set (db_api_consumer db)" using None by (auto simp: find_None_iff)
  moreover have "gr_holder ` set (db_consumer_grants db) \<subseteq> insert i (co_id ` set (db_api_consumer db))"
    using db_wf_keys(5)[OF wf] by blast
  ultimately show ?thesis using wf by (simp add: db_wf_def)
next
  case (Some e)
  assume "db_wf db" "upsert_consumer_for_issue db i slug name cat = Ok (c, db')"
  then show ?thesis
    using Some by (simp add: upsert_consumer_for_issue_def Let_def split: if_splits)
qed

lemma insert_grant_holders:
  "gr_holder ` set (insert_grant_or_nothing h c rows) \<subseteq> insert h (gr_holder ` set rows)"
  by (auto simp: insert_grant_or_nothing_def)

lemma db_wf_insert_grant:
  "db_wf db \<Longrightarrow> k \<in> key_ids db \<Longrightarrow>
     db_wf (db\<lparr>db_key_grants := insert_grant_or_nothing k c (db_key_grants db)\<rparr>)"
proof -
  assume wf: "db_wf db" and k: "k \<in> key_ids db"
  have "gr_holder ` set (db_key_grants db) \<subseteq> key_ids db" using wf by (simp add: db_wf_def)
  with k have "gr_holder ` set (insert_grant_or_nothing k c (db_key_grants db)) \<subseteq> key_ids db"
    using insert_grant_holders[of k c "db_key_grants db"] by (meson insert_subset subset_trans)
  with wf show ?thesis by (simp add: db_wf_def)
qed

lemma insert_legacy_grants_eq:
  "insert_legacy_grants_for_issue db co k =
     db\<lparr>db_consumer_grants := insert_grant_or_nothing co Erc20TransfersRead
          (insert_grant_or_nothing co BalancesRead (db_consumer_grants db)),
        db_key_grants := insert_grant_or_nothing k Erc20TransfersRead
          (insert_grant_or_nothing k BalancesRead (db_key_grants db))\<rparr>"
  by (simp add: insert_legacy_grants_for_issue_def LEGACY_BASELINE_def)

lemma db_wf_insert_consumer_grant:
  assumes "db_wf db" "h \<in> co_id ` set (db_api_consumer db)"
  shows "db_wf (db\<lparr>db_consumer_grants := insert_grant_or_nothing h c (db_consumer_grants db)\<rparr>)"
proof -
  have "gr_holder ` set (insert_grant_or_nothing h c (db_consumer_grants db)) \<subseteq> co_id ` set (db_api_consumer db)"
    using insert_grant_holders[of h c "db_consumer_grants db"] db_wf_keys(5)[OF assms(1)] assms(2)
    by (meson insert_subset subset_trans)
  with assms(1) show ?thesis by (simp add: db_wf_def)
qed

lemma db_wf_insert_legacy_grants:
  assumes "db_wf db" "k \<in> key_ids db" "h \<in> co_id ` set (db_api_consumer db)"
  shows "db_wf (insert_legacy_grants_for_issue db h k)"
proof -
  let ?g = "\<lambda>c d. d\<lparr>db_key_grants := insert_grant_or_nothing k c (db_key_grants d)\<rparr>"
  let ?h = "\<lambda>c d. d\<lparr>db_consumer_grants := insert_grant_or_nothing h c (db_consumer_grants d)\<rparr>"
  have "db_wf (?h Erc20TransfersRead (?h BalancesRead (?g Erc20TransfersRead (?g BalancesRead db))))"
    using assms by (intro db_wf_insert_grant db_wf_insert_consumer_grant) auto
  then show ?thesis by (simp add: insert_legacy_grants_eq db_wf_def)
qed

lemma upsert_consumer_exists:
  "upsert_consumer_for_issue db i slug name cat = Ok (c, db') \<Longrightarrow>
     ir_consumer_id c \<in> co_id ` set (db_api_consumer db') \<and> db_api_key db' = db_api_key db"
  by (auto simp: upsert_consumer_for_issue_def Let_def split: if_splits option.splits dest: find_SomeD)

lemma db_wf_insert_account_grants:
  "db_wf db \<Longrightarrow> k \<in> key_ids db \<Longrightarrow> insert_account_grants db k cs = Ok db' \<Longrightarrow> db_wf db'"
  by (induction db k cs rule: insert_account_grants.induct)
     (auto simp: db_wf_insert_grant split: if_splits)

text \<open>The successful path of \<open>issue_api_key\<close>.\<close>

lemma issue_api_key_Ok:
  assumes "issue_api_key tz db now ci ki input = (Ok key, db')"
  obtains consumer db1 expiry db2 db3 row where
    "upsert_consumer_for_issue db ci (in_consumer_slug input) (in_display_name input) (in_category input) =
       Ok (consumer, db1)"
    "cast_expiry tz (in_expires_at input) = Ok expiry"
    "row = \<lparr>ak_id = ki, ak_consumer_id = Some (ir_consumer_id consumer), ak_ib_account_id = None,
            ak_client_id = None, ak_kind = ''legacy'', ak_label = in_label input,
            ak_key_prefix = in_key_prefix input, ak_key_hash = in_key_hash input,
            ak_hash_algorithm = ''sha256'', ak_status = ''active'', ak_expires_at = expiry,
            ak_revoked_at = None, ak_last_used_at = None, ak_created_at = now\<rparr>"
    "insert_api_key_row db1 row = Ok db2"
    "insert_policy_for_issue db2 ki (in_requests_per_minute input) (in_requests_per_day input) = Ok db3"
    "db' = insert_legacy_grants_for_issue db3 (ir_consumer_id consumer) ki"
    "ik_api_key_id key = ki" "ik_key_prefix key = in_key_prefix input"
  using assms
  by (auto simp: issue_api_key_def transact_def insert_issued_key_def and_then_Ok_iff Let_def
      split: result.splits prod.splits)

lemma db_wf_issue_api_key:
  assumes "db_wf db"
  shows "db_wf (snd (issue_api_key tz db now ci ki input))"
proof -
  obtain r db' where r: "issue_api_key tz db now ci ki input = (r, db')" by fastforce
  show ?thesis
  proof (cases r)
    case (Ok key)
    with r have "issue_api_key tz db now ci ki input = (Ok key, db')" by simp
    then obtain consumer db1 expiry db2 db3 row where s:
      "upsert_consumer_for_issue db ci (in_consumer_slug input) (in_display_name input) (in_category input) =
         Ok (consumer, db1)" "insert_api_key_row db1 row = Ok db2" "ak_id row = ki"
      "insert_policy_for_issue db2 ki (in_requests_per_minute input) (in_requests_per_day input) = Ok db3"
      "db' = insert_legacy_grants_for_issue db3 (ir_consumer_id consumer) ki"
      by (rule issue_api_key_Ok) auto
    have k: "ki \<in> key_ids db2" using s(2,3) by (auto simp: insert_api_key_row_Ok)
    have "key_ids db3 = key_ids db2" using s(4) by (auto simp: insert_policy_for_issue_def split: if_splits)
    moreover have "db_wf db3"
      using db_wf_insert_policy[OF db_wf_insert_key[OF db_wf_upsert_consumer[OF assms s(1)] s(2)] k s(4)] .
    moreover have "ir_consumer_id consumer \<in> co_id ` set (db_api_consumer db3)"
      using upsert_consumer_exists[OF s(1)] s(2,4)
      by (auto simp: insert_api_key_row_Ok insert_policy_for_issue_def split: if_splits)
    ultimately show ?thesis using k db_wf_insert_legacy_grants by (simp add: r s(5))
  next
    case (Err e)
    then have "db' = db" using r by (auto simp: issue_api_key_def transact_def split: result.splits)
    with assms r show ?thesis by simp
  qed
qed

lemma db_wf_issue_account_api_key:
  assumes "db_wf db"
  shows "db_wf (snd (issue_account_api_key tz db now ki pub label kp kh m d e))"
proof -
  obtain r db' where r: "issue_account_api_key tz db now ki pub label kp kh m d e = (r, db')" by fastforce
  show ?thesis
  proof (cases r)
    case (Ok key)
    with r obtain row db1 db2 where s: "insert_api_key_row db row = Ok db1" "ak_id row = ki"
      "insert_policy_for_issue db1 ki m d = Ok db2" "insert_account_grants db2 ki ACCOUNT_BASELINE = Ok db'"
      by (auto simp: issue_account_api_key_def transact_def and_then_Ok_iff Let_def split: result.splits)
    have k: "ki \<in> key_ids db1" using s(1,2) by (auto simp: insert_api_key_row_Ok)
    have "key_ids db2 = key_ids db1" using s(3) by (auto simp: insert_policy_for_issue_def split: if_splits)
    moreover have "db_wf db2" using db_wf_insert_policy[OF db_wf_insert_key[OF assms s(1)] k s(3)] .
    ultimately show ?thesis using k db_wf_insert_account_grants[OF _ _ s(4)] by (simp add: r)
  next
    case (Err e)
    then have "db' = db" using r by (auto simp: issue_account_api_key_def transact_def split: result.splits)
    with assms r show ?thesis by simp
  qed
qed

lemma revoke_row_simps [simp]:
  "ak_id (revoke_row now k) = ak_id k" "ak_key_prefix (revoke_row now k) = ak_key_prefix k"
  "ak_key_hash (revoke_row now k) = ak_key_hash k" "ak_status (revoke_row now k) = ''revoked''"
  by (simp_all add: revoke_row_def)

lemma map_same: "(\<And>x. g (f x) = g x) \<Longrightarrow> map g (map f xs) = map g xs" for f :: "'a \<Rightarrow> 'a"
  by simp

lemma db_wf_revoke:
  assumes "db_wf db"
  shows "db_wf (snd (revoke_by_prefix db now p))"
proof -
  let ?f = "\<lambda>k. if ak_key_prefix k = p then revoke_row now k else k"
  let ?db = "db\<lparr>db_api_key := map ?f (db_api_key db)\<rparr>"
  have m: "map ak_id (map ?f ks) = map ak_id ks" "map ak_key_prefix (map ?f ks) = map ak_key_prefix ks"
    "map ak_key_hash (map ?f ks) = map ak_key_hash ks" for ks
    by (rule map_same, simp)+
  have "key_ids ?db = key_ids db"
    using arg_cong[OF m(1), of set "db_api_key db"] by (simp add: key_ids_def image_image del: map_map)
  with assms m show ?thesis by (simp add: revoke_by_prefix_def db_wf_def Let_def del: map_map)
qed

lemma db_wf_set_account_status: "db_wf db \<Longrightarrow> db_wf (snd (set_account_status db now p st))"
  by (auto simp: set_account_status_def db_wf_def split: option.splits)

section \<open>Properties\<close>

text \<open>
  C22. Whatever requests arrive in whatever order, the number of requests of a key that
  \<open>increment_daily_accepted\<close> accepts on one UTC day never exceeds the daily limit of its policy,
  and the stored counter is exactly the number accepted.
\<close>

theorem daily_limit_respected:
  assumes "db_wf db" "db_usage_daily db (k, d) = None" "run_requests accept_daily db rs = (bs, db')"
  shows "int (granted_on k d rs bs) \<le> max 0 (quota_of db k) \<and>
    accepted_on db' k d = int (granted_on k d rs bs)"
proof -
  have "accepted_on db k d = 0" using assms(2) by (simp add: accepted_on_def)
  then show ?thesis
    using quota.granted_within_quota[OF assms(1) _ assms(3), of k d]
      quota.run_requests_used[OF assms(1,3), of k d] by simp
qed

definition example_key :: api_key_row where
  "example_key = \<lparr>ak_id = 1, ak_consumer_id = None, ak_ib_account_id = None, ak_client_id = None,
     ak_kind = ''anonymous_demo'', ak_label = ''demo'', ak_key_prefix = ''ib_live_00'',
     ak_key_hash = [1], ak_hash_algorithm = ''sha256'', ak_status = ''active'',
     ak_expires_at = None, ak_revoked_at = None, ak_last_used_at = None, ak_created_at = 0\<rparr>"

definition empty_db :: database where
  "empty_db = \<lparr>db_api_key = [], db_api_consumer = [], db_ib_account = [], db_ib_client = [],
     db_browser_session = [], db_consumer_grants = [], db_account_grants = [], db_client_grants = [],
     db_key_grants = [], db_policy = Map.empty, db_usage_daily = Map.empty\<rparr>"

definition example_db :: database where
  "example_db = empty_db\<lparr>db_api_key := [example_key],
     db_policy := [1 \<mapsto> \<lparr>po_requests_per_minute = 5, po_requests_per_day = 1\<rparr>]\<rparr>"

lemma example_db_wf: "db_wf example_db" "db_wf empty_db"
  by (simp_all add: db_wf_def example_db_def empty_db_def key_ids_def example_key_def counters_ok_def)

theorem daily_limit_respected_witness:
  "int (granted_on 1 0 [(10, 1), (20, 1)] (fst (run_requests accept_daily example_db [(10, 1), (20, 1)]))) \<le> 1 \<and>
   fst (run_requests accept_daily example_db [(10, 1), (20, 1)]) = [True, False]"
proof -
  obtain bs db' where r: "run_requests accept_daily example_db [(10, 1), (20, 1)] = (bs, db')" by fastforce
  have b: "fst (run_requests accept_daily example_db [(10, 1), (20, 1)]) = [True, False]"
    by (simp add: accept_daily_def increment_daily_accepted_eq accepted_update_def example_db_def empty_db_def
        key_ids_def example_key_def utc_date_def empty_usage_def mark_used_def)
  have "db_usage_daily example_db (1, 0) = None" "quota_of example_db 1 = 1"
    by (simp_all add: example_db_def empty_db_def quota_of_def)
  with daily_limit_respected[OF example_db_wf(1) _ r, of 1 0] b r show ?thesis by simp
qed

end
