(* ===== verification/Auth.thy ===== *)
theory Auth
  imports KeyStore
begin

text \<open>
  The API-key middleware: \<open>src/adapters/http/auth.rs\<close>. A request passes authentication, the
  policy lookup, the grants lookup, the minute limiter and the daily counter before its handler
  runs; every failing stage answers at once. The SHA-256 hash and the conversion of a header to
  text are parameters; each database statement may fail before or after it took effect, as
  prescribed by the environment of the request. \<open>None\<close> is a panic of \<open>expect\<close>.
\<close>

section \<open>Requests and responses\<close>

datatype query = QLookup | QPolicy | QGrants | QAccepted | QRateLimited | QResponse

datatype fault = NoFault | FailsBefore | FailsAfter

record request_env =
  re_sha256 :: "string \<Rightarrow> nat list"
  re_to_str :: "string \<Rightarrow> string option"
  re_fault :: "query \<Rightarrow> fault"
  re_now :: "query \<Rightarrow> timestamp"
  re_instant :: instant_ns

record http_state =
  hs_api_key_repository :: "database option"
  hs_api_key_minute_limiter :: minute_limiter_state
  hs_bigwig_report_outcome_token :: "string option"

record api_key_principal =
  pr_api_key_id :: uuid
  pr_ib_account_id :: "uuid option"
  pr_client_id :: "uuid option"
  pr_key_kind :: string
  pr_consumer_id :: uuid
  pr_consumer_slug :: string
  pr_consumer_category :: string
  pr_key_prefix :: string
  pr_key_label :: string

datatype auth_error = AuthUnauthorized | AuthDatabaseUnavailable

datatype response =
    Unauthorized
  | DatabaseUnavailableForAuth
  | CapabilityNotGranted
  | RateLimited
  | InternalUnauthorized
  | Served api_key_principal nat

text \<open>A statement under a fault; a query of the tables fails without effect in both cases.\<close>

definition run_statement ::
  "fault \<Rightarrow> ('a, repository_error) result \<times> database \<Rightarrow> database \<Rightarrow>
   ('a, repository_error) result \<times> database" where
  "run_statement f outcome db =
     (case f of
        NoFault \<Rightarrow> outcome
      | FailsBefore \<Rightarrow> (Err DatabaseError, db)
      | FailsAfter \<Rightarrow> (Err DatabaseError, snd outcome))"

definition run_query :: "fault \<Rightarrow> ('a, repository_error) result \<Rightarrow> ('a, repository_error) result" where
  "run_query f outcome = (case f of NoFault \<Rightarrow> outcome | _ \<Rightarrow> Err DatabaseError)"

section \<open>Credentials\<close>

definition is_ascii_whitespace :: "char \<Rightarrow> bool" where
  "is_ascii_whitespace c \<longleftrightarrow> byte c \<in> {9, 10, 12, 13, 32}"

text \<open>\<open>split_ascii_whitespace\<close>: the maximal runs of other characters.\<close>

fun split_ascii_whitespace_from :: "string \<Rightarrow> string \<Rightarrow> string list" where
  "split_ascii_whitespace_from word [] = (if word = [] then [] else [word])"
| "split_ascii_whitespace_from word (c # s) =
     (if is_ascii_whitespace c
      then (if word = [] then split_ascii_whitespace_from [] s
            else word # split_ascii_whitespace_from [] s)
      else split_ascii_whitespace_from (word @ [c]) s)"

definition split_ascii_whitespace :: "string \<Rightarrow> string list" where
  "split_ascii_whitespace s = split_ascii_whitespace_from [] s"

text \<open>The values of the \<open>Authorization\<close> headers of the request, in order.\<close>

definition bearer_credential ::
  "(string \<Rightarrow> string option) \<Rightarrow> string list \<Rightarrow> (string, auth_error) result" where
  "bearer_credential to_str headers =
     (case headers of
        [h] \<Rightarrow>
          and_then (ok_or (to_str h) AuthUnauthorized) (\<lambda>text.
            case split_ascii_whitespace text of
              [scheme, credential] \<Rightarrow>
                (if \<not> eq_ignore_ascii_case scheme ''Bearer'' then Err AuthUnauthorized else Ok credential)
            | _ \<Rightarrow> Err AuthUnauthorized)
      | _ \<Rightarrow> Err AuthUnauthorized)"

definition bearer_token :: "(string \<Rightarrow> string option) \<Rightarrow> string list \<Rightarrow> string option" where
  "bearer_token to_str headers =
     (case headers of
        [] \<Rightarrow> None
      | h # _ \<Rightarrow> do {
          text \<leftarrow> to_str h;
          token \<leftarrow> strip_prefix_str ''Bearer '' text;
          if token = [] then None else Some token
        })"

text \<open>
  \<open>constant_time_eq\<close>: the lengths and the bytes as 64-bit and 8-bit words; a missing byte is 0.
\<close>

definition byte_at :: "8 word list \<Rightarrow> nat \<Rightarrow> 8 word" where
  "byte_at bs i = (if i < length bs then bs ! i else 0)"

unbundle bit_operations_syntax

definition constant_time_eq :: "8 word list \<Rightarrow> 8 word list \<Rightarrow> bool" where
  "constant_time_eq expected presented \<longleftrightarrow>
     (let max_len = max (length expected) (length presented);
          difference0 = (word_of_nat (length expected) :: 64 word) XOR word_of_nat (length presented)
      in foldl (\<lambda>difference index.
           difference OR ucast (byte_at expected index XOR byte_at presented index))
           difference0 [0..<max_len] = 0)"

definition bytes_of :: "string \<Rightarrow> 8 word list" where
  "bytes_of s = map (\<lambda>c. word_of_nat (byte c)) s"

definition require_bigwig_report_outcome_token ::
  "(string \<Rightarrow> string option) \<Rightarrow> http_state \<Rightarrow> string list \<Rightarrow> bool" where
  "require_bigwig_report_outcome_token to_str state headers \<longleftrightarrow>
     (case (hs_bigwig_report_outcome_token state, bearer_token to_str headers) of
        (Some expected, Some presented) \<Rightarrow> constant_time_eq (bytes_of expected) (bytes_of presented)
      | _ \<Rightarrow> False)"

section \<open>The middleware\<close>

definition principal_from_lookup :: "api_key_lookup \<Rightarrow> (api_key_principal, auth_error) result" where
  "principal_from_lookup lookup =
     (if lu_key_status lookup \<noteq> ''active'' \<or> lu_consumer_status lookup \<noteq> ''active'' \<or>
         lu_is_expired lookup \<or> lu_hash_algorithm lookup \<noteq> ''sha256''
      then Err AuthUnauthorized
      else Ok \<lparr>pr_api_key_id = lu_api_key_id lookup,
               pr_ib_account_id = lu_ib_account_id lookup,
               pr_client_id = lu_client_id lookup,
               pr_key_kind = lu_key_kind lookup,
               pr_consumer_id = lu_consumer_id lookup,
               pr_consumer_slug = lu_consumer_slug lookup,
               pr_consumer_category = lu_consumer_category lookup,
               pr_key_prefix = lu_key_prefix lookup,
               pr_key_label = lu_key_label lookup\<rparr>)"

definition authenticate ::
  "request_env \<Rightarrow> http_state \<Rightarrow> string list \<Rightarrow> (api_key_principal, auth_error) result" where
  "authenticate env state headers =
     and_then (bearer_credential (re_to_str env) headers) (\<lambda>presented_key.
     and_then (map_err (\<lambda>_. AuthUnauthorized) (parse_presented_api_key presented_key)) (\<lambda>parsed_key.
     let key_hash = re_sha256 env presented_key
     in and_then (ok_or (hs_api_key_repository state) AuthDatabaseUnavailable) (\<lambda>repository.
        and_then (map_err (\<lambda>_. AuthDatabaseUnavailable)
          (run_query (re_fault env QLookup)
            (find_key_by_prefix_and_hash repository (re_now env QLookup)
              (pk_key_prefix parsed_key) key_hash))) (\<lambda>found.
        and_then (ok_or found AuthUnauthorized) principal_from_lookup))))"

definition is_authorized_for_route :: "api_key_authorization_grants \<Rightarrow> capability \<Rightarrow> bool" where
  "is_authorized_for_route grants required_capability \<longleftrightarrow>
     evaluate_authorization
       \<lparr>ac_owner_grants = ag_owner_grants grants, ac_key_grants = ag_key_grants grants,
        ac_client_grants = ag_client_grants grants\<rparr>
       (route_request required_capability) = Allow"

definition record_rate_limited :: "request_env \<Rightarrow> database \<Rightarrow> api_key_principal \<Rightarrow> database" where
  "record_rate_limited env db caller =
     snd (run_statement (re_fault env QRateLimited)
       (increment_daily_rate_limited db (re_now env QRateLimited) (pr_api_key_id caller)) db)"

definition response_class_of :: "nat \<Rightarrow> usage_response_class option" where
  "response_class_of status =
     (if (200 \<le> status \<and> status < 300) \<or> (300 \<le> status \<and> status < 400) then Some Successful
      else if 400 \<le> status \<and> status < 500 then Some ClientError
      else if 500 \<le> status \<and> status < 600 then Some ServerError
      else None)"

definition record_response_class :: "request_env \<Rightarrow> database \<Rightarrow> api_key_principal \<Rightarrow> nat \<Rightarrow> database" where
  "record_response_class env db caller status =
     (case response_class_of status of
        None \<Rightarrow> db
      | Some response_class \<Rightarrow>
          snd (run_statement (re_fault env QResponse)
            (increment_daily_response db (re_now env QResponse) (pr_api_key_id caller) response_class) db))"

text \<open>
  \<open>require_api_key_for\<close>: the handler (\<open>next.run\<close>) is a function from the principal to the status
  of its response.
\<close>

definition require_api_key_for ::
  "request_env \<Rightarrow> capability \<Rightarrow> http_state \<Rightarrow> string list \<Rightarrow> (api_key_principal \<Rightarrow> nat) \<Rightarrow>
   (response \<times> http_state) option" where
  "require_api_key_for env required_capability state headers handler =
     (case authenticate env state headers of
        Err AuthUnauthorized \<Rightarrow> Some (Unauthorized, state)
      | Err AuthDatabaseUnavailable \<Rightarrow> Some (DatabaseUnavailableForAuth, state)
      | Ok caller \<Rightarrow>
          (case hs_api_key_repository state of
             None \<Rightarrow> None
           | Some repository \<Rightarrow>
               let key_id = pr_api_key_id caller in
               case run_query (re_fault env QPolicy) (find_policy repository key_id) of
                 Err _ \<Rightarrow> Some (DatabaseUnavailableForAuth, state)
               | Ok None \<Rightarrow> Some (DatabaseUnavailableForAuth, state)
               | Ok (Some policy) \<Rightarrow>
                 (case run_query (re_fault env QGrants)
                         (find_authorization_grants repository (re_now env QGrants) key_id) of
                    Err _ \<Rightarrow> Some (DatabaseUnavailableForAuth, state)
                  | Ok grants \<Rightarrow>
                    if \<not> is_authorized_for_route grants required_capability
                    then Some (CapabilityNotGranted, state)
                    else
                      (case reserve_at (hs_api_key_minute_limiter state) key_id
                              (po_requests_per_minute policy) (re_instant env) of
                         (limiter, None) \<Rightarrow>
                           Some (RateLimited,
                             state\<lparr>hs_api_key_minute_limiter := limiter,
                                   hs_api_key_repository := Some (record_rate_limited env repository caller)\<rparr>)
                       | (limiter, Some minute_reservation) \<Rightarrow>
                           (case run_statement (re_fault env QAccepted)
                                   (increment_daily_accepted repository (re_now env QAccepted) key_id)
                                   repository of
                              (Ok Accepted, repository') \<Rightarrow>
                                (let status = handler caller
                                 in Some (Served caller status,
                                      state\<lparr>hs_api_key_minute_limiter := limiter,
                                            hs_api_key_repository :=
                                              Some (record_response_class env repository' caller status)\<rparr>))
                            | (Ok LimitExceeded, repository') \<Rightarrow>
                                Some (RateLimited,
                                  state\<lparr>hs_api_key_minute_limiter := release limiter minute_reservation,
                                        hs_api_key_repository :=
                                          Some (record_rate_limited env repository' caller)\<rparr>)
                            | (Ok MissingPolicy, repository') \<Rightarrow>
                                Some (DatabaseUnavailableForAuth,
                                  state\<lparr>hs_api_key_minute_limiter := release limiter minute_reservation,
                                        hs_api_key_repository := Some repository'\<rparr>)
                            | (Err _, repository') \<Rightarrow>
                                Some (DatabaseUnavailableForAuth,
                                  state\<lparr>hs_api_key_minute_limiter := release limiter minute_reservation,
                                        hs_api_key_repository := Some repository'\<rparr>))))))"

text \<open>\<open>require_network_scopes\<close>, called by handlers once the networks of the body are known.\<close>

definition require_network_scopes ::
  "request_env \<Rightarrow> http_state \<Rightarrow> api_key_principal option \<Rightarrow> capability \<Rightarrow> string list \<Rightarrow>
   (unit, response) result" where
  "require_network_scopes env state caller required_capability network_slugs =
     (case caller of
        None \<Rightarrow> Ok ()
      | Some caller \<Rightarrow>
          and_then (ok_or (hs_api_key_repository state) DatabaseUnavailableForAuth) (\<lambda>repository.
          and_then (map_err (\<lambda>_. DatabaseUnavailableForAuth)
            (run_query (re_fault env QGrants)
              (find_authorization_grants repository (re_now env QGrants) (pr_api_key_id caller)))) (\<lambda>grants.
          let ctx = \<lparr>ac_owner_grants = ag_owner_grants grants, ac_key_grants = ag_key_grants grants,
                     ac_client_grants = ag_client_grants grants\<rparr>
          in try_all (\<lambda>network_slug.
               if evaluate_authorization ctx (network_request required_capability network_slug) \<noteq> Allow
               then Err CapabilityNotGranted else Ok ()) network_slugs)))"

text \<open>The middleware of each group of routes.\<close>

type_synonym route_guard =
  "http_state \<Rightarrow> string list \<Rightarrow> (api_key_principal \<Rightarrow> nat) \<Rightarrow> (response \<times> http_state) option"

definition require_api_key :: "request_env \<Rightarrow> route_guard" where
  "require_api_key env = require_api_key_for env BalancesRead"

definition require_transfer_api_key :: "request_env \<Rightarrow> route_guard" where
  "require_transfer_api_key env = require_api_key_for env Erc20TransfersRead"

definition require_workspace_activity_api_key :: "request_env \<Rightarrow> route_guard" where
  "require_workspace_activity_api_key env = require_api_key_for env WorkspaceActivityRead"

definition require_treasury_api_key :: "request_env \<Rightarrow> route_guard" where
  "require_treasury_api_key env = require_api_key_for env TreasuryRead"

definition require_catalog_api_key :: "request_env \<Rightarrow> route_guard" where
  "require_catalog_api_key env = require_api_key_for env CatalogRead"

definition require_prices_api_key :: "request_env \<Rightarrow> route_guard" where
  "require_prices_api_key env = require_api_key_for env PricesRead"

definition require_lab_api_key :: "request_env \<Rightarrow> route_guard" where
  "require_lab_api_key env = require_api_key_for env LabRead"

definition require_reports_read_api_key :: "request_env \<Rightarrow> route_guard" where
  "require_reports_read_api_key env = require_api_key_for env ReportsRead"

definition require_reports_write_api_key :: "request_env \<Rightarrow> route_guard" where
  "require_reports_write_api_key env = require_api_key_for env ReportsWrite"

section \<open>Comparison of tokens\<close>

lemma foldl_or_zero:
  "foldl (\<lambda>d i. d OR f i) a xs = (0 :: 64 word) \<longleftrightarrow> a = 0 \<and> (\<forall>i\<in>set xs. f i = 0)"
proof (induction xs arbitrary: a)
  case (Cons x xs)
  have "a OR f x = 0 \<longleftrightarrow> a = 0 \<and> f x = 0"
    by (metis or.right_neutral or_eq_0_iff)
  then show ?case using Cons by auto
qed simp

lemma xor_zero_iff: "a XOR b = 0 \<longleftrightarrow> a = b" for a b :: "'a::len word"
  by (metis bit.xor_self word_bw_same(3) xor_self_eq word_bw_lcs(3) xor.right_neutral)

lemma constant_time_eq_iff:
  assumes "length a < 2 ^ 64" "length b < 2 ^ 64"
  shows "constant_time_eq a b \<longleftrightarrow> a = b"
proof -
  have len: "(word_of_nat (length a) :: 64 word) XOR word_of_nat (length b) = 0 \<longleftrightarrow> length a = length b"
    unfolding xor_zero_iff using assms by (simp add: word_of_nat_eq_iff take_bit_nat_eq_self)
  have uc: "(ucast (x XOR y :: 8 word) :: 64 word) = 0 \<longleftrightarrow> x = y" for x y
  proof -
    have "w = 0" if "(ucast w :: 64 word) = 0" for w :: "8 word"
    proof (rule bit_word_eqI)
      fix n assume n: "n < LENGTH(8)"
      have "bit (ucast w :: 64 word) n = bit w n" using n by (simp add: bit_ucast_iff)
      then show "bit w n = bit 0 n" using that by simp
    qed
    then have "(ucast (x XOR y) :: 64 word) = 0 \<longleftrightarrow> x XOR y = 0" by auto
    then show ?thesis by (simp add: xor_zero_iff)
  qed
  have "constant_time_eq a b \<longleftrightarrow> length a = length b \<and>
      (\<forall>i<max (length a) (length b). byte_at a i = byte_at b i)"
    by (auto simp: constant_time_eq_def Let_def foldl_or_zero len uc)
  also have "\<dots> \<longleftrightarrow> a = b"
    by (auto simp: byte_at_def list_eq_iff_nth_eq)
  finally show ?thesis .
qed

section \<open>Admission\<close>

lemma run_statement_Ok:
  "run_statement f out db = (Ok x, db') \<longleftrightarrow> f = NoFault \<and> out = (Ok x, db')"
  by (cases f) (auto simp: run_statement_def)

lemma run_query_Ok [simp]: "run_query f r = Ok x \<longleftrightarrow> f = NoFault \<and> r = Ok x"
  by (cases f) (auto simp: run_query_def)

lemma authenticate_repository: "authenticate env st hs = Ok p \<Longrightarrow> hs_api_key_repository st \<noteq> None"
  by (auto simp: authenticate_def and_then_Ok_iff ok_or_Ok_iff Let_def)

lemma require_never_panics: "require_api_key_for env c st hs handler \<noteq> None"
proof (cases "authenticate env st hs")
  case (Ok p)
  with authenticate_repository obtain db where "hs_api_key_repository st = Some db" by blast
  with Ok show ?thesis
    by (auto simp: require_api_key_for_def Let_def
        split: result.splits option.splits prod.splits daily_accepted_outcome.splits)
next
  case (Err e)
  then show ?thesis by (cases e) (simp_all add: require_api_key_for_def)
qed

lemma require_served:
  assumes "require_api_key_for env c st hs handler = Some (Served p code, st')"
  obtains db policy grants limiter r db' where
    "authenticate env st hs = Ok p" "hs_api_key_repository st = Some db"
    "db_policy db (pr_api_key_id p) = Some policy"
    "find_authorization_grants db (re_now env QGrants) (pr_api_key_id p) = Ok grants"
    "is_authorized_for_route grants c"
    "reserve_at (hs_api_key_minute_limiter st) (pr_api_key_id p) (po_requests_per_minute policy) (re_instant env) =
       (limiter, Some r)"
    "increment_daily_accepted db (re_now env QAccepted) (pr_api_key_id p) = (Ok Accepted, db')"
    "code = handler p"
    "st' = st\<lparr>hs_api_key_minute_limiter := limiter,
       hs_api_key_repository := Some (record_response_class env db' p code)\<rparr>"
  using assms
  by (auto simp: require_api_key_for_def Let_def run_statement_Ok find_policy_def
      split: result.splits auth_error.splits option.splits if_splits prod.splits daily_accepted_outcome.splits
      intro: that)

lemma accepted_on_bump:
  "(\<And>u. us_accepted_requests (f u) = us_accepted_requests u) \<Longrightarrow>
     accepted_on (bump_usage f db now k) k' d = accepted_on db k' d"
  by (auto simp: bump_usage_def accepted_on_def Let_def empty_usage_def split: option.splits)

lemma accepted_on_record [simp]:
  "accepted_on (record_rate_limited env db p) k d = accepted_on db k d"
  "accepted_on (record_response_class env db p code) k d = accepted_on db k d"
  by (auto simp: record_rate_limited_def record_response_class_def run_statement_def
      increment_daily_rate_limited_def increment_daily_response_def upsert_usage_def accepted_on_bump
      split: fault.splits option.splits usage_response_class.splits)

lemma increment_accepted_iff:
  assumes "db_wf db"
  shows "increment_daily_accepted db now k = (Ok Accepted, db') \<longleftrightarrow> accept_daily db now k = (True, db')"
  by (cases "increment_daily_accepted db now k") (auto simp: accept_daily_def)

lemma accept_daily_iff:
  assumes "db_wf db"
  shows "fst (accept_daily db now k) \<longleftrightarrow> accepted_on db k (utc_date now) < quota_of db k"
proof -
  have "accepted_update db now k \<noteq> None \<longleftrightarrow> accepted_on db k (utc_date now) < quota_of db k"
    using accepted_update_count(2)[of db now k] db_wf_keys(4)[OF assms]
    by (fastforce simp: accepted_update_def accepted_on_def quota_of_def counters_ok_def split: option.splits if_splits)
  then show ?thesis by (auto simp: accept_daily_eq[OF assms] split: option.splits)
qed

text \<open>Everything that holds when a request is let through.\<close>

definition admissible ::
  "request_env \<Rightarrow> capability \<Rightarrow> http_state \<Rightarrow> database \<Rightarrow> api_key_principal \<Rightarrow> bool" where
  "admissible env c st db p \<longleftrightarrow>
     (\<exists>policy grants. db_policy db (pr_api_key_id p) = Some policy \<and>
        find_authorization_grants db (re_now env QGrants) (pr_api_key_id p) = Ok grants \<and>
        is_authorized_for_route grants c \<and>
        int (used_at (hs_api_key_minute_limiter st) (pr_api_key_id p) (re_instant env)) <
          po_requests_per_minute policy \<and>
        accepted_on db (pr_api_key_id p) (utc_date (re_now env QAccepted)) < po_requests_per_day policy)"

lemma served_admissible:
  assumes "db_wf db" "hs_api_key_repository st = Some db"
    and "require_api_key_for env c st hs handler = Some (Served p code, st')"
  shows "authenticate env st hs = Ok p" "admissible env c st db p" "code = handler p"
    "used_at (hs_api_key_minute_limiter st') (pr_api_key_id p) (re_instant env) =
       used_at (hs_api_key_minute_limiter st) (pr_api_key_id p) (re_instant env) + 1"
    "\<exists>db'. hs_api_key_repository st' = Some db' \<and>
       accepted_on db' (pr_api_key_id p) (utc_date (re_now env QAccepted)) =
       accepted_on db (pr_api_key_id p) (utc_date (re_now env QAccepted)) + 1"
proof -
  let ?k = "pr_api_key_id p" and ?d = "utc_date (re_now env QAccepted)"
  obtain policy grants limiter r db' where s: "authenticate env st hs = Ok p"
    "db_policy db ?k = Some policy"
    "find_authorization_grants db (re_now env QGrants) ?k = Ok grants" "is_authorized_for_route grants c"
    "reserve_at (hs_api_key_minute_limiter st) ?k (po_requests_per_minute policy) (re_instant env) = (limiter, Some r)"
    "increment_daily_accepted db (re_now env QAccepted) ?k = (Ok Accepted, db')" "code = handler p"
    "st' = st\<lparr>hs_api_key_minute_limiter := limiter,
       hs_api_key_repository := Some (record_response_class env db' p code)\<rparr>"
    using require_served[OF assms(3)] assms(2) by (metis option.inject)
  have a: "accept_daily db (re_now env QAccepted) ?k = (True, db')"
    using s(6) increment_accepted_iff[OF assms(1)] by simp
  note q = quota.accept_granted[OF assms(1) a, of ?k ?d] and l = limiter.reserve_granted[OF s(5)]
  show "authenticate env st hs = Ok p" "code = handler p" by (rule s(1), rule s(7))
  show "admissible env c st db p"
    unfolding admissible_def using s(2-4) q l by (auto simp: quota_of_def)
  show "used_at (hs_api_key_minute_limiter st') ?k (re_instant env) =
       used_at (hs_api_key_minute_limiter st) ?k (re_instant env) + 1" using l s(8) by simp
  show "\<exists>db'. hs_api_key_repository st' = Some db' \<and>
       accepted_on db' ?k ?d = accepted_on db ?k ?d + 1" using q s(8) by simp
qed

lemma admissible_served:
  assumes "db_wf db" "hs_api_key_repository st = Some db" "re_fault env = (\<lambda>_. NoFault)"
    and "authenticate env st hs = Ok p" "admissible env c st db p"
  shows "\<exists>st'. require_api_key_for env c st hs handler = Some (Served p (handler p), st')"
proof -
  let ?k = "pr_api_key_id p"
  obtain policy grants where g: "db_policy db ?k = Some policy"
    "find_authorization_grants db (re_now env QGrants) ?k = Ok grants" "is_authorized_for_route grants c"
    "int (used_at (hs_api_key_minute_limiter st) ?k (re_instant env)) < po_requests_per_minute policy"
    "accepted_on db ?k (utc_date (re_now env QAccepted)) < po_requests_per_day policy"
    using assms(5) unfolding admissible_def by blast
  obtain limiter out where r: "reserve_at (hs_api_key_minute_limiter st) ?k (po_requests_per_minute policy)
      (re_instant env) = (limiter, out)" by fastforce
  then obtain res where out: "out = Some res"
    using limiter.reserve_refused[of _ ?k _ "re_instant env"] g(4) by (cases out) fastforce+
  obtain db' where "accept_daily db (re_now env QAccepted) ?k = (True, db')"
    using accept_daily_iff[OF assms(1), of "re_now env QAccepted" ?k] g(1,5)
    by (cases "accept_daily db (re_now env QAccepted) ?k") (auto simp: quota_of_def)
  then have "increment_daily_accepted db (re_now env QAccepted) ?k = (Ok Accepted, db')"
    using increment_accepted_iff[OF assms(1)] by simp
  then show ?thesis
    using assms(2-4) g(1-3) r out
    by (simp add: require_api_key_for_def run_query_def run_statement_def find_policy_def Let_def)
qed

text \<open>The three ways a request is refused.\<close>

lemma require_refused:
  assumes "hs_api_key_repository st = Some db"
    and "require_api_key_for env c st hs handler = Some (resp, st')" "\<forall>p code. resp \<noteq> Served p code"
  shows "st' = st \<or>
    (\<exists>p rpm limiter.
       reserve_at (hs_api_key_minute_limiter st) (pr_api_key_id p) rpm (re_instant env) = (limiter, None) \<and>
       st' = st\<lparr>hs_api_key_minute_limiter := limiter,
         hs_api_key_repository := Some (record_rate_limited env db p)\<rparr>) \<or>
    (\<exists>p rpm limiter r out db'.
       reserve_at (hs_api_key_minute_limiter st) (pr_api_key_id p) rpm (re_instant env) = (limiter, Some r) \<and>
       run_statement (re_fault env QAccepted)
         (increment_daily_accepted db (re_now env QAccepted) (pr_api_key_id p)) db = (out, db') \<and>
       out \<noteq> Ok Accepted \<and>
       (st' = st\<lparr>hs_api_key_minute_limiter := release limiter r, hs_api_key_repository := Some db'\<rparr> \<or>
        st' = st\<lparr>hs_api_key_minute_limiter := release limiter r,
          hs_api_key_repository := Some (record_rate_limited env db' p)\<rparr>))"
proof (cases "authenticate env st hs")
  case (Err e)
  then show ?thesis using assms(2) by (cases e) (auto simp: require_api_key_for_def)
next
  case auth: (Ok p)
  let ?k = "pr_api_key_id p"
  show ?thesis
  proof (cases "\<exists>policy grants. run_query (re_fault env QPolicy) (find_policy db ?k) = Ok (Some policy) \<and>
      run_query (re_fault env QGrants) (find_authorization_grants db (re_now env QGrants) ?k) = Ok grants \<and>
      is_authorized_for_route grants c")
    case False
    then have "st' = st"
      using assms(1,2) auth
      by (auto simp: require_api_key_for_def Let_def simp del: run_query_Ok split: result.splits option.splits if_splits)
    then show ?thesis by blast
  next
    case True
    then obtain policy grants where g: "run_query (re_fault env QPolicy) (find_policy db ?k) = Ok (Some policy)"
      "run_query (re_fault env QGrants) (find_authorization_grants db (re_now env QGrants) ?k) = Ok grants"
      "is_authorized_for_route grants c" by blast
    obtain limiter o1 where r: "reserve_at (hs_api_key_minute_limiter st) ?k (po_requests_per_minute policy)
      (re_instant env) = (limiter, o1)" by fastforce
    obtain out db' where a: "run_statement (re_fault env QAccepted)
      (increment_daily_accepted db (re_now env QAccepted) ?k) db = (out, db')" by fastforce
    note eq = assms(2)[unfolded require_api_key_for_def auth assms(1) Let_def result.case option.case g r a prod.case]
    show ?thesis
    proof (cases o1)
      case None
      then show ?thesis using eq g(3) r by auto
    next
      case (Some res)
      have "out \<noteq> Ok Accepted" using eq g(3) Some assms(3) by (auto simp: Let_def)
      moreover have "st' = st\<lparr>hs_api_key_minute_limiter := release limiter res, hs_api_key_repository := Some db'\<rparr> \<or>
        st' = st\<lparr>hs_api_key_minute_limiter := release limiter res,
          hs_api_key_repository := Some (record_rate_limited env db' p)\<rparr>"
        using eq g(3) Some \<open>out \<noteq> Ok Accepted\<close>
        by (auto split: result.splits daily_accepted_outcome.splits)
      ultimately show ?thesis using r a Some by blast
    qed
  qed
qed

lemma refused_unchanged:
  assumes "db_wf db" "hs_api_key_repository st = Some db"
    and "require_api_key_for env c st hs handler = Some (resp, st')" "\<forall>p code. resp \<noteq> Served p code"
  shows "used_at (hs_api_key_minute_limiter st') k (re_instant env) =
      used_at (hs_api_key_minute_limiter st) k (re_instant env)"
    "re_fault env QAccepted \<noteq> FailsAfter \<Longrightarrow>
      \<exists>db'. hs_api_key_repository st' = Some db' \<and> accepted_on db' k d = accepted_on db k d"
proof -
  consider (same) "st' = st"
    | (minute) p rpm limiter where
        "reserve_at (hs_api_key_minute_limiter st) (pr_api_key_id p) rpm (re_instant env) = (limiter, None)"
        "st' = st\<lparr>hs_api_key_minute_limiter := limiter,
          hs_api_key_repository := Some (record_rate_limited env db p)\<rparr>"
    | (daily) p rpm limiter r out db' where
        "reserve_at (hs_api_key_minute_limiter st) (pr_api_key_id p) rpm (re_instant env) = (limiter, Some r)"
        "run_statement (re_fault env QAccepted)
          (increment_daily_accepted db (re_now env QAccepted) (pr_api_key_id p)) db = (out, db')" "out \<noteq> Ok Accepted"
        "st' = st\<lparr>hs_api_key_minute_limiter := release limiter r, hs_api_key_repository := Some db'\<rparr> \<or>
         st' = st\<lparr>hs_api_key_minute_limiter := release limiter r,
           hs_api_key_repository := Some (record_rate_limited env db' p)\<rparr>"
    using require_refused[OF assms(2-4)] by blast
  note cases = this
  show "used_at (hs_api_key_minute_limiter st') k (re_instant env) =
      used_at (hs_api_key_minute_limiter st) k (re_instant env)"
    using cases limiter.reserve_refused limiter.give_back_granted by cases fastforce+
  show "\<exists>db'. hs_api_key_repository st' = Some db' \<and> accepted_on db' k d = accepted_on db k d"
    if nf: "re_fault env QAccepted \<noteq> FailsAfter"
    using cases
  proof cases
    case (daily p rpm limiter r out db')
    have "accepted_on db' k d = accepted_on db k d"
    proof (cases "re_fault env QAccepted")
      case NoFault
      with daily(2,3) have "accept_daily db (re_now env QAccepted) (pr_api_key_id p) = (False, db')"
        by (auto simp: run_statement_def accept_daily_def)
      then show ?thesis by (rule quota.accept_refused[OF assms(1)])
    qed (use daily nf in \<open>auto simp: run_statement_def\<close>)
    then show ?thesis using daily(4) by auto
  qed (use assms(2) in auto)
qed

section \<open>Keys that are issued and revoked\<close>

lemma authenticate_Ok:
  assumes "authenticate env st hs = Ok p"
  obtains key parsed db lookup where
    "bearer_credential (re_to_str env) hs = Ok key" "parse_presented_api_key key = Ok parsed"
    "hs_api_key_repository st = Some db"
    "find_key_by_prefix_and_hash db (re_now env QLookup) (pk_key_prefix parsed) (re_sha256 env key) =
       Ok (Some lookup)"
    "principal_from_lookup lookup = Ok p"
  using assms by (auto simp: authenticate_def and_then_Ok_iff ok_or_Ok_iff map_err_Ok_iff Let_def)

text \<open>The words of a header: \<open>Bearer\<close>, a space and a key without white space.\<close>

lemma split_ascii_whitespace_word:
  "\<forall>c\<in>set w. \<not> is_ascii_whitespace c \<Longrightarrow>
     split_ascii_whitespace_from v (w @ s) = split_ascii_whitespace_from (v @ w) s"
  by (induction w arbitrary: v) auto

lemma bearer_credential_key:
  assumes "to_str h = Some (''Bearer '' @ key)" "\<forall>c\<in>set key. \<not> is_ascii_whitespace c" "key \<noteq> []"
  shows "bearer_credential to_str [h] = Ok key"
proof -
  have "split_ascii_whitespace (''Bearer '' @ key) = [''Bearer'', key]"
    using split_ascii_whitespace_word[OF assms(2), of "[]" "[]"] assms(3)
    by (simp add: split_ascii_whitespace_def is_ascii_whitespace_def)
  then show ?thesis using assms(1)
    by (simp add: bearer_credential_def eq_ignore_ascii_case_def)
qed

lemma key_text_no_whitespace:
  assumes "well_formed_key r t"
  shows "\<forall>c\<in>set (key_text r t). \<not> is_ascii_whitespace c"
proof -
  have "\<not> is_ascii_whitespace c" if "is_ascii_digit c \<or> (97 \<le> byte c \<and> byte c \<le> 102)" for c
    using that by (auto simp: is_ascii_whitespace_def is_ascii_digit_def)
  then show ?thesis
    using assms by (auto simp: well_formed_key_def is_lower_hex_def list_all_iff key_text_def
        is_ascii_whitespace_def)
qed

text \<open>A step of the store: one statement or transaction of the repository.\<close>

inductive store_step :: "database \<Rightarrow> database \<Rightarrow> bool" where
  step_issue: "store_step db (snd (issue_api_key tz db now ci ki input))"
| step_issue_account: "store_step db (snd (issue_account_api_key tz db now ki pub label kp kh m d e))"
| step_account_status: "store_step db (snd (set_account_status db now pub st))"
| step_revoke: "store_step db (snd (revoke_by_prefix db now kp))"
| step_accepted: "store_step db (snd (increment_daily_accepted db now k))"
| step_rate_limited: "store_step db (snd (increment_daily_rate_limited db now k))"
| step_response: "store_step db (snd (increment_daily_response db now k cls))"

definition revoked_in :: "string \<Rightarrow> database \<Rightarrow> bool" where
  "revoked_in p db \<longleftrightarrow> p \<in> ak_key_prefix ` set (db_api_key db) \<and>
     (\<forall>k\<in>set (db_api_key db). ak_key_prefix k = p \<longrightarrow> ak_status k = ''revoked'')"

lemma revoked_in_keys: "db_api_key db' = db_api_key db \<Longrightarrow> revoked_in p db' = revoked_in p db"
  by (simp add: revoked_in_def)

lemma revoked_in_insert_key:
  "revoked_in p db \<Longrightarrow> insert_api_key_row db row = Ok db' \<Longrightarrow> revoked_in p db'"
  by (auto simp: insert_api_key_row_Ok revoked_in_def)

lemma keys_insert_policy: "insert_policy_for_issue db k m d = Ok db' \<Longrightarrow> db_api_key db' = db_api_key db"
  by (auto simp: insert_policy_for_issue_def split: if_splits)

lemma keys_insert_account_grants: "insert_account_grants db k cs = Ok db' \<Longrightarrow> db_api_key db' = db_api_key db"
  by (induction db k cs rule: insert_account_grants.induct) (auto split: if_splits)

lemma revoked_in_map:
  assumes "\<And>k. ak_key_prefix (f k) = ak_key_prefix k"
    "\<And>k. ak_status k = ''revoked'' \<Longrightarrow> ak_status (f k) = ''revoked''" "revoked_in p db"
  shows "revoked_in p (db\<lparr>db_api_key := map f (db_api_key db)\<rparr>)"
  using assms(3) unfolding revoked_in_def by (auto simp: assms(1) image_image intro: assms(2))

lemma revoked_in_issue: "revoked_in p db \<Longrightarrow> revoked_in p (snd (issue_api_key tz db now ci ki input))"
proof -
  assume rv: "revoked_in p db"
  obtain r db' where r: "issue_api_key tz db now ci ki input = (r, db')" by fastforce
  show ?thesis
  proof (cases r)
    case (Ok key)
    with r have "issue_api_key tz db now ci ki input = (Ok key, db')" by simp
    then obtain consumer db1 db2 db3 row where s:
      "upsert_consumer_for_issue db ci (in_consumer_slug input) (in_display_name input) (in_category input) =
         Ok (consumer, db1)" "insert_api_key_row db1 row = Ok db2"
      "insert_policy_for_issue db2 ki (in_requests_per_minute input) (in_requests_per_day input) = Ok db3"
      "db' = insert_legacy_grants_for_issue db3 (ir_consumer_id consumer) ki"
      by (rule issue_api_key_Ok) auto
    have "revoked_in p db1" using rv revoked_in_keys upsert_consumer_exists[OF s(1)] by blast
    then have "revoked_in p db2" using s(2) by (rule revoked_in_insert_key)
    moreover have "db_api_key db' = db_api_key db2"
      using keys_insert_policy[OF s(3)] by (simp add: s(4) insert_legacy_grants_eq)
    ultimately show ?thesis by (simp add: r revoked_in_def)
  next
    case (Err e)
    then have "db' = db" using r by (auto simp: issue_api_key_def transact_def split: result.splits)
    with rv r show ?thesis by simp
  qed
qed

lemma revoked_in_issue_account:
  "revoked_in p db \<Longrightarrow> revoked_in p (snd (issue_account_api_key tz db now ki pub label kp kh m d e))"
proof -
  assume rv: "revoked_in p db"
  obtain r db' where r: "issue_account_api_key tz db now ki pub label kp kh m d e = (r, db')" by fastforce
  show ?thesis
  proof (cases r)
    case (Ok key)
    with r obtain row db1 db2 where s: "insert_api_key_row db row = Ok db1"
      "insert_policy_for_issue db1 ki m d = Ok db2" "insert_account_grants db2 ki ACCOUNT_BASELINE = Ok db'"
      by (auto simp: issue_account_api_key_def transact_def and_then_Ok_iff Let_def split: result.splits)
    have "revoked_in p db1" using rv s(1) by (rule revoked_in_insert_key)
    moreover have "db_api_key db' = db_api_key db1"
      using keys_insert_policy[OF s(2)] keys_insert_account_grants[OF s(3)] by simp
    ultimately show ?thesis by (simp add: r revoked_in_def)
  next
    case (Err e)
    then have "db' = db" using r by (auto simp: issue_account_api_key_def transact_def split: result.splits)
    with rv r show ?thesis by simp
  qed
qed

lemma keys_upsert_usage [simp]: "db_api_key (snd (upsert_usage f db now k)) = db_api_key db"
  by (simp add: upsert_usage_def bump_usage_def Let_def)

lemma revoked_in_step: "store_step db db' \<Longrightarrow> revoked_in p db \<Longrightarrow> revoked_in p db'"
proof (induction rule: store_step.induct)
  case (step_issue db)
  then show ?case by (rule revoked_in_issue)
next
  case (step_issue_account db)
  then show ?case by (rule revoked_in_issue_account)
next
  case (step_account_status db now pub st)
  moreover have "db_api_key (snd (set_account_status db now pub st)) = db_api_key db"
    by (simp add: set_account_status_def split: option.split)
  ultimately show ?case by (simp add: revoked_in_def)
next
  case (step_revoke db now kp)
  then show ?case by (simp add: revoke_by_prefix_def Let_def revoked_in_map)
next
  case (step_accepted db now k)
  show ?case
  proof (cases "accepted_update db now k")
    case None
    then show ?thesis using step_accepted by (simp add: increment_daily_accepted_eq)
  next
    case (Some u)
    let ?f = "\<lambda>row. if ak_id row = k then row\<lparr>ak_last_used_at := Some now\<rparr> else row"
    have "revoked_in p (db\<lparr>db_api_key := map ?f (db_api_key db)\<rparr>)"
      using step_accepted by (intro revoked_in_map) auto
    then show ?thesis
      by (rule revoked_in_keys[THEN iffD2, rotated]) (simp add: Some increment_daily_accepted_eq mark_used_def)
  qed
next
  case (step_rate_limited db)
  then show ?case by (simp add: increment_daily_rate_limited_def revoked_in_def)
next
  case (step_response db now k cls)
  then show ?case
    by (cases cls) (simp_all add: increment_daily_response_def revoked_in_def)
qed

lemma revoked_in_steps: "store_step\<^sup>*\<^sup>* db db' \<Longrightarrow> revoked_in p db \<Longrightarrow> revoked_in p db'"
  by (induction rule: rtranclp_induct) (auto intro: revoked_in_step)

lemma revoke_revoked_in:
  assumes "revoke_by_prefix db now p = (Ok (Some rv), db')"
  shows "revoked_in p db'"
proof -
  let ?f = "\<lambda>k. if ak_key_prefix k = p then revoke_row now k else k"
  have db': "db' = db\<lparr>db_api_key := map ?f (db_api_key db)\<rparr>"
    and "find (\<lambda>k. ak_key_prefix k = p) (map ?f (db_api_key db)) \<noteq> None"
    using assms by (auto simp: revoke_by_prefix_def Let_def)
  then have "p \<in> ak_key_prefix ` set (map ?f (db_api_key db))"
    unfolding find_None_iff by blast
  moreover have "ak_status k = ''revoked''" if k: "k \<in> set (map ?f (db_api_key db))" "ak_key_prefix k = p" for k
  proof -
    obtain k0 where "k = ?f k0" using k(1) unfolding set_map by (rule imageE)
    then show ?thesis using k(2) by (cases "ak_key_prefix k0 = p") simp_all
  qed
  ultimately show ?thesis unfolding revoked_in_def db' by (simp del: set_map)
qed

lemma revoked_in_lookup:
  assumes "revoked_in p db" "find_key_by_prefix_and_hash db now p h = Ok (Some lookup)"
  shows "lu_key_status lookup = ''revoked''"
proof -
  obtain key where k: "find (\<lambda>k. ak_key_prefix k = p \<and> ak_key_hash k = h) (db_api_key db) = Some key"
    "lookup_row db now key = Ok lookup"
    using assms(2) by (auto simp: find_key_by_prefix_and_hash_def and_then_Ok_iff split: option.splits)
  from find_SomeD[OF k(1)] assms(1) have "ak_status key = ''revoked''" by (auto simp: revoked_in_def)
  with k(2) show ?thesis by (auto simp: lookup_row_def Let_def split: option.splits)
qed

lemma revoked_not_authenticated:
  assumes "hs_api_key_repository st = Some db" "revoked_in p db" "bearer_credential (re_to_str env) hs = Ok key"
    "parse_presented_api_key key = Ok \<lparr>pk_key_prefix = p\<rparr>"
  shows "authenticate env st hs \<noteq> Ok caller"
proof
  assume "authenticate env st hs = Ok caller"
  then obtain lookup where
    "find_key_by_prefix_and_hash db (re_now env QLookup) p (re_sha256 env key) = Ok (Some lookup)"
    and pl: "principal_from_lookup lookup = Ok caller"
    using assms(1,3,4) by (auto elim!: authenticate_Ok)
  from revoked_in_lookup[OF assms(2) this(1)] pl show False by (simp add: principal_from_lookup_def)
qed

section \<open>A key that was just issued\<close>

definition legacy_rows :: "uuid \<Rightarrow> capability_grant_row list" where
  "legacy_rows holder = map (\<lambda>c. \<lparr>gr_holder = holder, gr_capability_id = capability_id c,
     gr_network_scope = ''*'', gr_status = ''active'', gr_expires_at = None\<rparr>) LEGACY_BASELINE"

lemma legacy_grants_fresh:
  assumes "h \<notin> gr_holder ` set rows"
  shows "filter (\<lambda>g. gr_holder g = h)
      (insert_grant_or_nothing h Erc20TransfersRead (insert_grant_or_nothing h BalancesRead rows)) = legacy_rows h"
proof -
  have n: "\<not> list_ex (\<lambda>g. gr_holder g = h \<and> Q g) rows" for Q using assms by (force simp: list_ex_iff)
  have "filter (\<lambda>g. gr_holder g = h) rows = []" using assms by (force intro: filter_empty)
  then show ?thesis
    by (simp add: insert_grant_or_nothing_def n legacy_rows_def LEGACY_BASELINE_def)
qed

lemma into_domain_active:
  "into_domain now \<lparr>gr_holder = h, gr_capability_id = capability_id c,
     gr_network_scope = ''*'', gr_status = ''active'', gr_expires_at = None\<rparr> = Ok (active_grant c Any)"
  by (simp add: into_domain_def capability_parse_id network_scope_parse_def expired_def active_grant_def)

lemma legacy_rows_into_domain:
  "try_map (into_domain now) (legacy_rows h) = Ok (map (\<lambda>c. active_grant c Any) LEGACY_BASELINE)"
  by (simp add: legacy_rows_def LEGACY_BASELINE_def into_domain_active del: capability_id.simps)

lemma grants_of_new_key:
  assumes keys: "db_api_key db = ks @ [row]" "ak_id row \<notin> ak_id ` set ks" "ak_kind row = ''legacy''"
      "ak_consumer_id row = Some co"
    and rows: "filter (\<lambda>g. gr_holder g = co) (db_consumer_grants db) = legacy_rows co"
      "filter (\<lambda>g. gr_holder g = ak_id row) (db_key_grants db) = legacy_rows (ak_id row)"
  shows "find_authorization_grants db now (ak_id row) =
    Ok \<lparr>ag_owner_grants = map (\<lambda>c. active_grant c Any) LEGACY_BASELINE,
        ag_key_grants = map (\<lambda>c. active_grant c Any) LEGACY_BASELINE, ag_client_grants = None\<rparr>"
proof -
  have f: "find (\<lambda>k. ak_id k = ak_id row) (ks @ [row]) = Some row" by (rule find_new[of ak_id, OF keys(2)])
  have "owner_grant_rows db (ak_id row) = filter (\<lambda>g. gr_holder g = co) (db_consumer_grants db)"
    unfolding owner_grant_rows_def keys(1) concat_last[of ak_id, OF keys(2)]
    by (auto simp: keys(3,4) concat_filter eq_commute[of co])
  then show ?thesis
    by (simp add: find_authorization_grants_def keys(1,3) f rows legacy_rows_into_domain Let_def)
qed

lemma legacy_baseline_allowed:
  "c \<in> set LEGACY_BASELINE \<Longrightarrow>
     is_authorized_for_route \<lparr>ag_owner_grants = map (\<lambda>c. active_grant c Any) LEGACY_BASELINE,
        ag_key_grants = map (\<lambda>c. active_grant c Any) LEGACY_BASELINE, ag_client_grants = None\<rparr> c"
  by (auto simp: is_authorized_for_route_def LEGACY_BASELINE_def evaluate_authorization_def grant_permits_def
      active_grant_def route_request_def)

text \<open>The tables after a key was issued to a consumer that did not exist.\<close>

lemma issued_tables:
  assumes "db_wf db" "in_consumer_slug input \<notin> co_slug ` set (db_api_consumer db)"
    and "issue_api_key tz db now ci ki input = (Ok key, db')"
  obtains row expiry where
    "cast_expiry tz (in_expires_at input) = Ok expiry"
    "row = \<lparr>ak_id = ki, ak_consumer_id = Some ci, ak_ib_account_id = None,
            ak_client_id = None, ak_kind = ''legacy'', ak_label = in_label input,
            ak_key_prefix = in_key_prefix input, ak_key_hash = in_key_hash input,
            ak_hash_algorithm = ''sha256'', ak_status = ''active'', ak_expires_at = expiry,
            ak_revoked_at = None, ak_last_used_at = None, ak_created_at = now\<rparr>"
    "db_api_key db' = db_api_key db @ [row]" "ki \<notin> key_ids db"
    "in_key_prefix input \<notin> ak_key_prefix ` set (db_api_key db)"
    "ci \<notin> co_id ` set (db_api_consumer db)"
    "db_api_consumer db' = db_api_consumer db @ [\<lparr>co_id = ci, co_slug = in_consumer_slug input,
       co_display_name = in_display_name input, co_category = in_category input, co_status = ''active''\<rparr>]"
    "db_policy db' = (db_policy db)(ki \<mapsto> \<lparr>po_requests_per_minute = in_requests_per_minute input,
       po_requests_per_day = in_requests_per_day input\<rparr>)"
    "db_usage_daily db' = db_usage_daily db"
    "filter (\<lambda>g. gr_holder g = ci) (db_consumer_grants db') = legacy_rows ci"
    "filter (\<lambda>g. gr_holder g = ki) (db_key_grants db') = legacy_rows ki"
proof -
  obtain consumer db1 expiry db2 db3 row where s:
    "upsert_consumer_for_issue db ci (in_consumer_slug input) (in_display_name input) (in_category input) =
       Ok (consumer, db1)"
    "cast_expiry tz (in_expires_at input) = Ok expiry"
    "row = \<lparr>ak_id = ki, ak_consumer_id = Some (ir_consumer_id consumer), ak_ib_account_id = None,
            ak_client_id = None, ak_kind = ''legacy'', ak_label = in_label input,
            ak_key_prefix = in_key_prefix input, ak_key_hash = in_key_hash input,
            ak_hash_algorithm = ''sha256'', ak_status = ''active'', ak_expires_at = expiry,
            ak_revoked_at = None, ak_last_used_at = None, ak_created_at = now\<rparr>"
    "insert_api_key_row db1 row = Ok db2"
    "insert_policy_for_issue db2 ki (in_requests_per_minute input) (in_requests_per_day input) = Ok db3"
    "db' = insert_legacy_grants_for_issue db3 (ir_consumer_id consumer) ki"
    using issue_api_key_Ok[OF assms(3)] by metis
  have "find (\<lambda>c. co_slug c = in_consumer_slug input) (db_api_consumer db) = None"
    using assms(2) by (simp add: find_image_None)
  with s(1) have db1: "ir_consumer_id consumer = ci" "ci \<notin> co_id ` set (db_api_consumer db)"
    "db1 = db\<lparr>db_api_consumer := db_api_consumer db @ [\<lparr>co_id = ci, co_slug = in_consumer_slug input,
       co_display_name = in_display_name input, co_category = in_category input, co_status = ''active''\<rparr>]\<rparr>"
    by (auto simp: upsert_consumer_for_issue_def Let_def list_ex_image split: if_splits)
  have k: "ki \<notin> key_ids db" "in_key_prefix input \<notin> ak_key_prefix ` set (db_api_key db)"
    "db2 = db1\<lparr>db_api_key := db_api_key db @ [row]\<rparr>"
    using s(4) by (simp_all add: insert_api_key_row_Ok s(3) db1(3))
  have db3: "db3 = db2\<lparr>db_policy := (db_policy db)(ki \<mapsto>
      \<lparr>po_requests_per_minute = in_requests_per_minute input, po_requests_per_day = in_requests_per_day input\<rparr>)\<rparr>"
    using s(5) by (simp add: insert_policy_for_issue_def k(3) db1(3) split: if_splits)
  note eqs = s(6) insert_legacy_grants_eq db3 k(3) db1(1,3)
  have h: "ci \<notin> gr_holder ` set (db_consumer_grants db)" "ki \<notin> gr_holder ` set (db_key_grants db)"
    using db_wf_keys(3,5)[OF assms(1)] db1(2) k(1) by blast+
  show ?thesis
    by (rule that[OF s(2) s(3)[unfolded db1(1)] _ k(1,2) db1(2)])
       (simp_all add: eqs legacy_grants_fresh[OF h(1)] legacy_grants_fresh[OF h(2)])
qed

lemma fresh_key_served:
  assumes wf: "db_wf db" and slug: "in_consumer_slug input \<notin> co_slug ` set (db_api_consumer db)"
    and issue: "issue_api_key tz db now ci ki input = (Ok ik, db')"
    and policy: "0 < in_requests_per_day input"
      "int (used_at (hs_api_key_minute_limiter st) ki (re_instant env)) < in_requests_per_minute input"
    and st: "hs_api_key_repository st = Some db'" and nf: "re_fault env = (\<lambda>_. NoFault)"
    and key: "bearer_credential (re_to_str env) hs = Ok key"
      "parse_presented_api_key key = Ok \<lparr>pk_key_prefix = in_key_prefix input\<rparr>"
      "in_key_hash input = re_sha256 env key"
    and expiry: "in_expires_at input = None"
    and c: "c \<in> set LEGACY_BASELINE"
  shows "\<exists>p st'. require_api_key_for env c st hs handler = Some (Served p (handler p), st') \<and>
     pr_api_key_id p = ki \<and> pr_consumer_slug p = in_consumer_slug input"
proof -
  obtain row where t:
    "row = \<lparr>ak_id = ki, ak_consumer_id = Some ci, ak_ib_account_id = None,
            ak_client_id = None, ak_kind = ''legacy'', ak_label = in_label input,
            ak_key_prefix = in_key_prefix input, ak_key_hash = in_key_hash input,
            ak_hash_algorithm = ''sha256'', ak_status = ''active'', ak_expires_at = None,
            ak_revoked_at = None, ak_last_used_at = None, ak_created_at = now\<rparr>"
    "db_api_key db' = db_api_key db @ [row]" "ki \<notin> key_ids db"
    "in_key_prefix input \<notin> ak_key_prefix ` set (db_api_key db)"
    "ci \<notin> co_id ` set (db_api_consumer db)"
    "db_api_consumer db' = db_api_consumer db @ [\<lparr>co_id = ci, co_slug = in_consumer_slug input,
       co_display_name = in_display_name input, co_category = in_category input, co_status = ''active''\<rparr>]"
    "db_policy db' = (db_policy db)(ki \<mapsto> \<lparr>po_requests_per_minute = in_requests_per_minute input,
       po_requests_per_day = in_requests_per_day input\<rparr>)"
    "db_usage_daily db' = db_usage_daily db"
    "filter (\<lambda>g. gr_holder g = ci) (db_consumer_grants db') = legacy_rows ci"
    "filter (\<lambda>g. gr_holder g = ki) (db_key_grants db') = legacy_rows ki"
    by (rule issued_tables[OF wf slug issue]) (simp add: cast_expiry_def expiry)
  have wf': "db_wf db'" using db_wf_issue_api_key[OF wf, of tz now ci ki input] issue by simp
  have r: "ak_id row = ki" "ak_kind row = ''legacy''" "ak_consumer_id row = Some ci"
    "ak_key_prefix row = in_key_prefix input" "ak_key_hash row = in_key_hash input" by (simp_all add: t(1))
  have "find (\<lambda>k. ak_key_prefix k = in_key_prefix input \<and> ak_key_hash k = in_key_hash input)
      (db_api_key db') = Some row"
  proof -
    have "find (\<lambda>k. ak_key_prefix k = in_key_prefix input \<and> ak_key_hash k = in_key_hash input)
      (db_api_key db) = None" using t(4) unfolding find_None_iff by (metis image_eqI)
    then show ?thesis by (simp add: t(2) find_append r)
  qed
  moreover have "find (\<lambda>x. Some (co_id x) = Some ci) (db_api_consumer db') =
      Some \<lparr>co_id = ci, co_slug = in_consumer_slug input,
       co_display_name = in_display_name input, co_category = in_category input, co_status = ''active''\<rparr>"
    using t(5) by (simp add: t(6) find_append find_image_None[THEN iffD2])
  ultimately obtain p where p: "authenticate env st hs = Ok p" "pr_api_key_id p = ki"
    "pr_consumer_slug p = in_consumer_slug input"
    using t(1) key st nf
    by (simp add: authenticate_def run_query_def find_key_by_prefix_and_hash_def lookup_row_def Let_def
        lookup_category_def lookup_status_def principal_from_lookup_def expired_def coalesce_def)
  have u: "accepted_on db' ki d = 0" for d
  proof -
    have "(ki, d) \<notin> dom (db_usage_daily db)" using db_wf_keys(2)[OF wf] t(3) by force
    then show ?thesis by (simp add: accepted_on_def t(8) domIff)
  qed
  have "find_authorization_grants db' (re_now env QGrants) ki =
    Ok \<lparr>ag_owner_grants = map (\<lambda>c. active_grant c Any) LEGACY_BASELINE,
        ag_key_grants = map (\<lambda>c. active_grant c Any) LEGACY_BASELINE, ag_client_grants = None\<rparr>"
    using grants_of_new_key[OF t(2) _ r(2,3) t(9)] t(3,10) r(1) by (simp add: key_ids_def)
  then have "admissible env c st db' p"
    unfolding admissible_def p(2) t(7) using policy u legacy_baseline_allowed[OF c] by simp
  from admissible_served[OF wf' st nf p(1) this] p(2,3) show ?thesis by blast
qed

section \<open>Provisioned keys\<close>

text \<open>A grant without a restriction or an end, and the grants of a list of capabilities for a holder.\<close>

definition full_grant :: "capability_grant_row \<Rightarrow> bool" where
  "full_grant g \<longleftrightarrow> gr_status g = ''active'' \<and> gr_expires_at g = None"

definition granted :: "uuid \<Rightarrow> capability list \<Rightarrow> capability_grant_row list \<Rightarrow> bool" where
  "granted holder cs rows \<longleftrightarrow>
     (\<forall>c\<in>set cs. \<exists>g\<in>set rows. gr_holder g = holder \<and> gr_capability_id g = capability_id c \<and>
        gr_network_scope g = ''*'' \<and> full_grant g)"

definition status_recorded :: "api_key_row \<Rightarrow> bool" where
  "status_recorded k \<longleftrightarrow>
     ak_status k = ''active'' \<and> ak_revoked_at k = None \<or> ak_status k = ''revoked'' \<and> ak_revoked_at k \<noteq> None"

text \<open>A key that can be used: it has a policy, an owner, the grants of its kind, and a status that is recorded.\<close>

definition provisioned :: "database \<Rightarrow> api_key_row \<Rightarrow> bool" where
  "provisioned db k \<longleftrightarrow> db_policy db (ak_id k) \<noteq> None \<and> status_recorded k \<and>
     (ak_kind k = ''legacy'' \<and>
      (\<exists>c\<in>set (db_api_consumer db). ak_consumer_id k = Some (co_id c) \<and>
         granted (co_id c) LEGACY_BASELINE (db_consumer_grants db)) \<and>
      granted (ak_id k) LEGACY_BASELINE (db_key_grants db) \<or>
      ak_kind k = ''account'' \<and> (\<exists>a\<in>set (db_ib_account db). ak_ib_account_id k = Some (ia_id a)) \<and>
      granted (ak_id k) ACCOUNT_BASELINE (db_key_grants db))"

text \<open>What a key keeps for good: who it is, whose it is, when it ends, and its revocation.\<close>

definition key_kept :: "api_key_row \<Rightarrow> api_key_row \<Rightarrow> bool" where
  "key_kept k k' \<longleftrightarrow> ak_id k' = ak_id k \<and> ak_key_prefix k' = ak_key_prefix k \<and> ak_key_hash k' = ak_key_hash k \<and>
     ak_kind k' = ak_kind k \<and> ak_consumer_id k' = ak_consumer_id k \<and> ak_ib_account_id k' = ak_ib_account_id k \<and>
     ak_label k' = ak_label k \<and> ak_expires_at k' = ak_expires_at k \<and> ak_created_at k' = ak_created_at k \<and>
     (ak_status k = ''revoked'' \<longrightarrow> ak_status k' = ''revoked'') \<and>
     (\<forall>t. ak_revoked_at k = Some t \<longrightarrow> ak_revoked_at k' = Some t)"

lemma key_kept_refl: "key_kept k k"
  by (simp add: key_kept_def)

lemma key_kept_trans: "key_kept a b \<Longrightarrow> key_kept b c \<Longrightarrow> key_kept a c"
  by (simp add: key_kept_def)

text \<open>The tables that an operation leaves or extends.\<close>

definition extends :: "database \<Rightarrow> database \<Rightarrow> bool" where
  "extends db db' \<longleftrightarrow> db_policy db \<subseteq>\<^sub>m db_policy db' \<and> co_id ` set (db_api_consumer db) \<subseteq> co_id ` set (db_api_consumer db') \<and>
     ia_id ` set (db_ib_account db) \<subseteq> ia_id ` set (db_ib_account db') \<and>
     set (db_consumer_grants db) \<subseteq> set (db_consumer_grants db') \<and> set (db_key_grants db) \<subseteq> set (db_key_grants db')"

definition all_full :: "database \<Rightarrow> bool" where
  "all_full db \<longleftrightarrow> (\<forall>g\<in>set (db_consumer_grants db) \<union> set (db_key_grants db). full_grant g)"

lemma granted_mono: "granted h cs rows \<Longrightarrow> set rows \<subseteq> set rows' \<Longrightarrow> granted h cs rows'"
  unfolding granted_def by blast

lemma provisioned_mono:
  assumes "provisioned db k" "extends db db'" "key_kept k k'" "status_recorded k'"
  shows "provisioned db' k'"
proof -
  have p: "db_policy db' (ak_id k) \<noteq> None"
    using assms(1,2) by (auto simp: provisioned_def extends_def map_le_def dom_def)
  have c: "\<exists>c\<in>set (db_api_consumer db'). i = Some (co_id c) \<and> granted (co_id c) LEGACY_BASELINE (db_consumer_grants db')"
    if "\<exists>c\<in>set (db_api_consumer db). i = Some (co_id c) \<and> granted (co_id c) LEGACY_BASELINE (db_consumer_grants db)" for i
  proof -
    from that obtain c where "c \<in> set (db_api_consumer db)" "i = Some (co_id c)"
      "granted (co_id c) LEGACY_BASELINE (db_consumer_grants db)" by blast
    moreover from this obtain c' where "c' \<in> set (db_api_consumer db')" "co_id c' = co_id c"
      using assms(2) unfolding extends_def by (metis (no_types, lifting) imageE image_eqI subsetD)
    ultimately show ?thesis using granted_mono assms(2) unfolding extends_def by metis
  qed
  have a: "\<exists>a\<in>set (db_ib_account db'). i = Some (ia_id a)" if "\<exists>a\<in>set (db_ib_account db). i = Some (ia_id a)" for i
    using that assms(2) unfolding extends_def by (metis (no_types, lifting) imageE image_eqI subsetD)
  have g: "granted (ak_id k) cs (db_key_grants db')" if "granted (ak_id k) cs (db_key_grants db)" for cs
    using that assms(2) granted_mono unfolding extends_def by blast
  have eq: "ak_id k' = ak_id k" "ak_kind k' = ak_kind k" "ak_consumer_id k' = ak_consumer_id k" "ak_ib_account_id k' = ak_ib_account_id k"
    using assms(3) by (simp_all add: key_kept_def)
  show ?thesis using assms(1,4) p c a g unfolding provisioned_def eq by blast
qed

text \<open>What every step does to the keys and the tables beside them.\<close>

definition advances :: "database \<Rightarrow> database \<Rightarrow> bool" where
  "advances db db' \<longleftrightarrow> extends db db' \<and> all_full db' \<and>
     (\<forall>k\<in>set (db_api_key db). \<exists>k'\<in>set (db_api_key db'). key_kept k k') \<and>
     (\<forall>k'\<in>set (db_api_key db'). provisioned db' k' \<or>
        (\<exists>k\<in>set (db_api_key db). key_kept k k' \<and> (status_recorded k \<longrightarrow> status_recorded k')))"

lemma extends_refl: "extends db db"
  by (simp add: extends_def)

text \<open>A step that only rewrites the keys in place.\<close>

lemma advances_map:
  assumes "all_full db" "extends db db'" "db_consumer_grants db' = db_consumer_grants db" "db_key_grants db' = db_key_grants db"
    and "db_api_key db' = map f (db_api_key db)" "\<And>k. key_kept k (f k)" "\<And>k. status_recorded k \<Longrightarrow> status_recorded (f k)"
  shows "advances db db'"
  using assms unfolding advances_def all_full_def by auto

lemma advances_same_keys:
  assumes "all_full db" "extends db db'" "db_consumer_grants db' = db_consumer_grants db" "db_key_grants db' = db_key_grants db"
    "db_api_key db' = db_api_key db"
  shows "advances db db'"
  using advances_map[of db db' "\<lambda>k. k"] assms key_kept_refl by simp

lemma insert_grant_full:
  assumes "\<forall>g\<in>set rows. full_grant g"
  shows "granted h [c] (insert_grant_or_nothing h c rows)" "\<forall>g\<in>set (insert_grant_or_nothing h c rows). full_grant g"
    "set rows \<subseteq> set (insert_grant_or_nothing h c rows)"
  using assms by (auto simp: insert_grant_or_nothing_def granted_def full_grant_def list_ex_iff)

lemma granted_both:
  fixes h :: uuid
  assumes "\<forall>g\<in>set rows. full_grant g"
  defines "rows' \<equiv> insert_grant_or_nothing h Erc20TransfersRead (insert_grant_or_nothing h BalancesRead rows)"
  shows "granted h LEGACY_BASELINE rows'" "\<forall>g\<in>set rows'. full_grant g" "set rows \<subseteq> set rows'"
proof -
  note a = insert_grant_full[OF assms(1), of h BalancesRead]
  note b = insert_grant_full[OF a(2), of h Erc20TransfersRead]
  show "granted h LEGACY_BASELINE rows'"
    using granted_mono[OF a(1) b(3)] b(1) unfolding rows'_def by (simp add: granted_def LEGACY_BASELINE_def)
  show "\<forall>g\<in>set rows'. full_grant g" "set rows \<subseteq> set rows'" using a b unfolding rows'_def by blast+
qed

lemma insert_policy_eq:
  "insert_policy_for_issue db k m d = Ok db' \<Longrightarrow> db_policy db k = None \<and>
     db' = db\<lparr>db_policy := (db_policy db)(k \<mapsto> \<lparr>po_requests_per_minute = m, po_requests_per_day = d\<rparr>)\<rparr>"
  by (simp add: insert_policy_for_issue_def split: if_splits)

lemma upsert_consumer_eq:
  assumes "upsert_consumer_for_issue db i slug name cat = Ok (c, db')"
  obtains cs where "db' = db\<lparr>db_api_consumer := cs\<rparr>" "set (db_api_consumer db) \<subseteq> set cs" "ir_consumer_id c \<in> co_id ` set cs"
proof (rule that[of "db_api_consumer db'"])
  show "db' = db\<lparr>db_api_consumer := db_api_consumer db'\<rparr>" "set (db_api_consumer db) \<subseteq> set (db_api_consumer db')"
    using assms by (auto simp: upsert_consumer_for_issue_def Let_def split: if_splits option.splits)
  show "ir_consumer_id c \<in> co_id ` set (db_api_consumer db')" using upsert_consumer_exists[OF assms] by blast
qed

lemma issue_advances:
  assumes "all_full db"
  shows "advances db (snd (issue_api_key tz db now ci ki input))"
proof -
  obtain r db' where r: "issue_api_key tz db now ci ki input = (r, db')" by fastforce
  show ?thesis
  proof (cases r)
    case (Ok key)
    with r have "issue_api_key tz db now ci ki input = (Ok key, db')" by simp
    then obtain consumer db1 expiry db2 db3 row where u: "upsert_consumer_for_issue db ci (in_consumer_slug input)
         (in_display_name input) (in_category input) = Ok (consumer, db1)"
      and row: "row = \<lparr>ak_id = ki, ak_consumer_id = Some (ir_consumer_id consumer), ak_ib_account_id = None,
            ak_client_id = None, ak_kind = ''legacy'', ak_label = in_label input,
            ak_key_prefix = in_key_prefix input, ak_key_hash = in_key_hash input,
            ak_hash_algorithm = ''sha256'', ak_status = ''active'', ak_expires_at = expiry,
            ak_revoked_at = None, ak_last_used_at = None, ak_created_at = now\<rparr>"
      and k: "insert_api_key_row db1 row = Ok db2"
      and p: "insert_policy_for_issue db2 ki (in_requests_per_minute input) (in_requests_per_day input) = Ok db3"
      and g: "db' = insert_legacy_grants_for_issue db3 (ir_consumer_id consumer) ki"
      by (rule issue_api_key_Ok) metis
    obtain cs where cs: "db1 = db\<lparr>db_api_consumer := cs\<rparr>" "set (db_api_consumer db) \<subseteq> set cs" "ir_consumer_id consumer \<in> co_id ` set cs"
      by (rule upsert_consumer_eq[OF u])
    have k': "db2 = db1\<lparr>db_api_key := db_api_key db1 @ [row]\<rparr>" using k by (simp add: insert_api_key_row_Ok)
    note p' = insert_policy_eq[OF p]
    define co where "co = ir_consumer_id consumer"
    have f: "\<forall>g\<in>set (db_consumer_grants db). full_grant g" "\<forall>g\<in>set (db_key_grants db). full_grant g"
      using assms by (auto simp: all_full_def)
    note gc = granted_both[OF f(1), of co] and gk = granted_both[OF f(2), of ki]
    have t: "db_api_key db' = db_api_key db @ [row]" "db_api_consumer db' = cs" "db_ib_account db' = db_ib_account db"
      "db_policy db' = (db_policy db)(ki \<mapsto> \<lparr>po_requests_per_minute = in_requests_per_minute input,
         po_requests_per_day = in_requests_per_day input\<rparr>)" "db_policy db ki = None"
      "db_consumer_grants db' = insert_grant_or_nothing co Erc20TransfersRead (insert_grant_or_nothing co BalancesRead (db_consumer_grants db))"
      "db_key_grants db' = insert_grant_or_nothing ki Erc20TransfersRead (insert_grant_or_nothing ki BalancesRead (db_key_grants db))"
      using g p' k' cs(1) by (simp_all add: insert_legacy_grants_eq co_def)
    have e: "extends db db'"
      using cs(2) gc(3) gk(3) t(5) unfolding extends_def t(2-4,6,7) by (auto simp: map_le_def)
    moreover have "all_full db'" unfolding all_full_def t(6,7) using gc(2) gk(2) by blast
    moreover obtain c where c: "c \<in> set cs" "co_id c = co" using cs(3) unfolding co_def by (metis imageE)
    have "\<exists>c\<in>set cs. Some co = Some (co_id c) \<and> granted (co_id c) LEGACY_BASELINE (db_consumer_grants db')"
      using gc(1) c unfolding t(6) by (intro bexI[of _ c]) simp_all
    then have "provisioned db' row"
      using gk(1) unfolding provisioned_def t(2,4,7) by (simp add: row co_def status_recorded_def)
    ultimately have "advances db db'" unfolding advances_def t(1) using key_kept_refl by auto
    then show ?thesis by (simp add: r)
  next
    case (Err e)
    then have "db' = db" using r by (auto simp: issue_api_key_def transact_def split: result.splits)
    then show ?thesis using advances_same_keys[OF assms extends_refl] by (simp add: r)
  qed
qed

lemma insert_account_grants_eq:
  assumes "insert_account_grants db k cs = Ok db'" "\<forall>g\<in>set (db_key_grants db). full_grant g"
  shows "\<exists>rows. db' = db\<lparr>db_key_grants := rows\<rparr> \<and> granted k cs rows \<and> (\<forall>g\<in>set rows. full_grant g) \<and>
    set (db_key_grants db) \<subseteq> set rows"
  using assms
proof (induction cs arbitrary: db)
  case Nil
  then show ?case by (intro exI[of _ "db_key_grants db"]) (simp add: granted_def)
next
  case (Cons c cs)
  let ?r = "insert_grant_or_nothing k c (db_key_grants db)"
  note i = insert_grant_full[OF Cons.prems(2), of k c]
  have "insert_account_grants (db\<lparr>db_key_grants := ?r\<rparr>) k cs = Ok db'" using Cons.prems(1) by (auto split: if_splits)
  from Cons.IH[OF this] i(2) obtain rows where rows: "db' = db\<lparr>db_key_grants := rows\<rparr>" "granted k cs rows"
    "\<forall>g\<in>set rows. full_grant g" "set ?r \<subseteq> set rows" by auto
  moreover have "granted k (c # cs) rows" using granted_mono[OF i(1) rows(4)] rows(2) by (simp add: granted_def)
  ultimately show ?case using i(3) by blast
qed

lemma issue_account_advances:
  assumes "all_full db"
  shows "advances db (snd (issue_account_api_key tz db now ki pub label kp kh m d e))"
proof -
  obtain r db' where r: "issue_account_api_key tz db now ki pub label kp kh m d e = (r, db')" by fastforce
  show ?thesis
  proof (cases r)
    case (Ok key)
    with r obtain account expiry db1 db2 where a: "find (\<lambda>a. ia_public_id a = pub \<and> ia_status a = ''active'') (db_ib_account db) = Some account"
      and k: "insert_api_key_row db \<lparr>ak_id = ki, ak_consumer_id = None, ak_ib_account_id = Some (ia_id account),
                   ak_client_id = None, ak_kind = ''account'', ak_label = label,
                   ak_key_prefix = kp, ak_key_hash = kh, ak_hash_algorithm = ''sha256'',
                   ak_status = ''active'', ak_expires_at = expiry, ak_revoked_at = None,
                   ak_last_used_at = None, ak_created_at = now\<rparr> = Ok db1" (is "insert_api_key_row db ?row = _")
      and p: "insert_policy_for_issue db1 ki m d = Ok db2" and g: "insert_account_grants db2 ki ACCOUNT_BASELINE = Ok db'"
      by (auto simp: issue_account_api_key_def transact_def and_then_Ok_iff ok_or_Ok_iff Let_def split: result.splits)
    have k': "db1 = db\<lparr>db_api_key := db_api_key db @ [?row]\<rparr>" using k by (simp add: insert_api_key_row_Ok)
    note p' = insert_policy_eq[OF p]
    have f: "\<forall>g\<in>set (db_consumer_grants db). full_grant g" "\<forall>g\<in>set (db_key_grants db2). full_grant g"
      using assms p' k' by (auto simp: all_full_def)
    obtain rows where rows: "db' = db2\<lparr>db_key_grants := rows\<rparr>" "granted ki ACCOUNT_BASELINE rows"
      "\<forall>g\<in>set rows. full_grant g" "set (db_key_grants db2) \<subseteq> set rows" using insert_account_grants_eq[OF g f(2)] by blast
    have t: "db_api_key db' = db_api_key db @ [?row]" "db_api_consumer db' = db_api_consumer db" "db_ib_account db' = db_ib_account db"
      "db_policy db' = (db_policy db)(ki \<mapsto> \<lparr>po_requests_per_minute = m, po_requests_per_day = d\<rparr>)" "db_policy db ki = None"
      "db_consumer_grants db' = db_consumer_grants db" "db_key_grants db' = rows" "set (db_key_grants db) \<subseteq> set rows"
      using rows(1,4) p' k' by simp_all
    have "extends db db'" using t(5,8) unfolding extends_def t(2-4,6,7) by (auto simp: map_le_def)
    moreover have "all_full db'" unfolding all_full_def t(6,7) using rows(3) f(1) by blast
    moreover have "account \<in> set (db_ib_account db)" using a by (auto simp: find_Some_iff)
    then have "provisioned db' ?row"
      using rows(2) unfolding provisioned_def t by (auto simp: status_recorded_def)
    ultimately have "advances db db'" unfolding advances_def t(1) using key_kept_refl by auto
    then show ?thesis by (simp add: r)
  next
    case (Err e)
    then have "db' = db" using r by (auto simp: issue_account_api_key_def transact_def split: result.splits)
    then show ?thesis using advances_same_keys[OF assms extends_refl] by (simp add: r)
  qed
qed

lemma upsert_usage_advances: "all_full db \<Longrightarrow> advances db (snd (upsert_usage f db now k))"
  by (rule advances_same_keys) (simp_all add: upsert_usage_def bump_usage_def Let_def extends_def)

lemma account_ids_status: "ia_id ` set (db_ib_account (snd (set_account_status db now p st))) = ia_id ` set (db_ib_account db)"
proof -
  have "map ia_id (db_ib_account (snd (set_account_status db now p st))) = map ia_id (db_ib_account db)"
    by (simp add: set_account_status_def split: option.split)
  then show ?thesis by (metis list.set_map)
qed

lemma step_advances:
  assumes "store_step db db'" "all_full db"
  shows "advances db db'"
  using assms
proof cases
  case (step_issue tz now ci ki input)
  then show ?thesis using issue_advances[OF assms(2)] by simp
next
  case (step_issue_account tz now ki pub label kp kh m d e)
  then show ?thesis using issue_account_advances[OF assms(2)] by simp
next
  case (step_account_status now pub st)
  have "db_policy db' = db_policy db" "db_api_consumer db' = db_api_consumer db" "db_consumer_grants db' = db_consumer_grants db"
    "db_key_grants db' = db_key_grants db" "db_api_key db' = db_api_key db"
    by (simp_all add: step_account_status set_account_status_def split: option.split)
  then show ?thesis using assms(2) account_ids_status[of db now pub st]
    by (intro advances_same_keys) (simp_all add: extends_def step_account_status)
next
  case (step_revoke now kp)
  then show ?thesis using assms(2)
    by (intro advances_map[where f = "\<lambda>k. if ak_key_prefix k = kp then revoke_row now k else k"])
       (auto simp: revoke_by_prefix_def Let_def extends_def revoke_row_def key_kept_def status_recorded_def coalesce_def split: option.splits)
next
  case (step_accepted now k)
  show ?thesis
  proof (cases "accepted_update db now k")
    case None
    then show ?thesis using step_accepted advances_same_keys[OF assms(2) extends_refl] by (simp add: increment_daily_accepted_eq)
  next
    case (Some u)
    then show ?thesis using assms(2) unfolding step_accepted
      by (intro advances_map[where f = "\<lambda>row. if ak_id row = k then row\<lparr>ak_last_used_at := Some now\<rparr> else row"])
         (auto simp: increment_daily_accepted_eq mark_used_def extends_def key_kept_def status_recorded_def)
  qed
next
  case (step_rate_limited now k)
  then show ?thesis using upsert_usage_advances[OF assms(2)] by (simp add: increment_daily_rate_limited_def)
next
  case (step_response now k cls)
  then show ?thesis using upsert_usage_advances[OF assms(2)] by (cases cls) (simp_all add: increment_daily_response_def)
qed

text \<open>Every key of the store is provisioned, and this is kept.\<close>

definition keys_provisioned :: "database \<Rightarrow> bool" where
  "keys_provisioned db \<longleftrightarrow> all_full db \<and> (\<forall>k\<in>set (db_api_key db). provisioned db k)"

lemma provisioned_status: "provisioned db k \<Longrightarrow> status_recorded k"
  by (simp add: provisioned_def)

lemma keys_provisioned_step:
  assumes "keys_provisioned db" "store_step db db'"
  shows "keys_provisioned db'"
proof -
  have a: "advances db db'" using step_advances[OF assms(2)] assms(1) by (simp add: keys_provisioned_def)
  have "provisioned db' k'" if "k' \<in> set (db_api_key db')" for k'
  proof -
    consider "provisioned db' k'" | k where "k \<in> set (db_api_key db)" "key_kept k k'" "status_recorded k \<longrightarrow> status_recorded k'"
      using a \<open>k' \<in> set (db_api_key db')\<close> unfolding advances_def by blast
    then show ?thesis
    proof cases
      case 2
      then have "provisioned db k" using assms(1) by (simp add: keys_provisioned_def)
      then show ?thesis using provisioned_mono[OF _ _ 2(2)] provisioned_status 2(3) a unfolding advances_def by blast
    qed
  qed
  then show ?thesis using a by (simp add: keys_provisioned_def advances_def)
qed

lemma keys_provisioned_steps: "store_step\<^sup>*\<^sup>* db db' \<Longrightarrow> keys_provisioned db \<Longrightarrow> keys_provisioned db'"
  by (induction rule: rtranclp_induct) (auto intro: keys_provisioned_step)

lemma keys_kept_steps:
  assumes "store_step\<^sup>*\<^sup>* db db'" "keys_provisioned db" "k \<in> set (db_api_key db)"
  shows "\<exists>k'\<in>set (db_api_key db'). key_kept k k' \<and> db_policy db' (ak_id k) = db_policy db (ak_id k)"
  using assms(1)
proof (induction rule: rtranclp_induct)
  case base
  then show ?case using assms(3) key_kept_refl by blast
next
  case (step y z)
  then obtain k' where k': "k' \<in> set (db_api_key y)" "key_kept k k'" "db_policy y (ak_id k) = db_policy db (ak_id k)" by blast
  have y: "keys_provisioned y" by (rule keys_provisioned_steps[OF step(1) assms(2)])
  then have a: "advances y z" using step_advances[OF step(2)] by (simp add: keys_provisioned_def)
  then obtain k'' where "k'' \<in> set (db_api_key z)" "key_kept k' k''" using k'(1) unfolding advances_def by blast
  moreover have "db_policy z (ak_id k) = db_policy y (ak_id k)"
  proof -
    have "db_policy db (ak_id k) \<noteq> None" using assms(2,3) by (simp add: keys_provisioned_def provisioned_def)
    then have "ak_id k \<in> dom (db_policy y)" using k'(3) by auto
    then show ?thesis using a unfolding advances_def extends_def map_le_def by auto
  qed
  ultimately show ?case using k'(2,3) key_kept_trans by metis
qed

section \<open>Properties\<close>

text \<open>
  C1. When no statement of the database fails, the handler runs for a caller exactly when the
  presented key authenticates that caller, a policy exists, the grants allow the route, and both
  the minute limit and the daily limit have room.
\<close>

theorem served_iff_admissible:
  assumes "db_wf db" "hs_api_key_repository st = Some db" "re_fault env = (\<lambda>_. NoFault)"
  shows "(\<exists>st'. require_api_key_for env c st hs handler = Some (Served p code, st')) \<longleftrightarrow>
    authenticate env st hs = Ok p \<and> admissible env c st db p \<and> code = handler p"
proof
  assume "\<exists>st'. require_api_key_for env c st hs handler = Some (Served p code, st')"
  then show "authenticate env st hs = Ok p \<and> admissible env c st db p \<and> code = handler p"
    using served_admissible(1-3)[OF assms(1,2)] by fast
next
  assume "authenticate env st hs = Ok p \<and> admissible env c st db p \<and> code = handler p"
  then show "\<exists>st'. require_api_key_for env c st hs handler = Some (Served p code, st')"
    using admissible_served[OF assms] by simp
qed

definition example_env :: request_env where
  "example_env = \<lparr>re_sha256 = (\<lambda>_. replicate 32 7), re_to_str = Some, re_fault = (\<lambda>_. NoFault),
     re_now = (\<lambda>_. 100), re_instant = 0\<rparr>"

definition example_secret :: string where
  "example_secret = key_text (replicate 16 CHR ''a'') (replicate 64 CHR ''b'')"

definition example_input :: issue_api_key_input where
  "example_input = \<lparr>in_consumer_slug = ''acme'', in_display_name = ''Acme'', in_category = ''partner'',
     in_label = ''first'', in_key_prefix = ''ib_live_aaaaaaaaaaaaaaaa'', in_key_hash = replicate 32 7,
     in_requests_per_minute = 1, in_requests_per_day = 1, in_expires_at = None\<rparr>"

definition issued_db :: database where
  "issued_db = snd (issue_api_key (\<lambda>_. None) empty_db 50 1 2 example_input)"

definition example_state :: http_state where
  "example_state = \<lparr>hs_api_key_repository = Some issued_db, hs_api_key_minute_limiter = Map.empty,
     hs_bigwig_report_outcome_token = None\<rparr>"

lemma example_issued:
  "\<exists>ik. issue_api_key (\<lambda>_. None) empty_db 50 1 2 example_input = (Ok ik, issued_db)"
  unfolding issued_db_def
  by (simp add: issue_api_key_def example_input_def empty_db_def upsert_consumer_for_issue_def Let_def
      consumer_checks_def lower_alnum_words_def non_blank_def insert_issued_key_def cast_expiry_def
      insert_api_key_row_def api_key_checks_def insert_policy_for_issue_def transact_def
      is_ascii_digit_def is_ascii_lowercase_def)

lemma example_credentials:
  "well_formed_key (replicate 16 CHR ''a'') (replicate 64 CHR ''b'')"
  "bearer_credential (re_to_str example_env) [''Bearer '' @ example_secret] = Ok example_secret"
  "parse_presented_api_key example_secret = Ok \<lparr>pk_key_prefix = in_key_prefix example_input\<rparr>"
proof -
  show w: "well_formed_key (replicate 16 CHR ''a'') (replicate 64 CHR ''b'')"
    by (simp add: well_formed_key_def is_lower_hex_def is_ascii_digit_def list_all_iff)
  show "bearer_credential (re_to_str example_env) [''Bearer '' @ example_secret] = Ok example_secret"
    using key_text_no_whitespace[OF w]
    by (intro bearer_credential_key) (simp_all add: example_env_def example_secret_def key_text_def)
  show "parse_presented_api_key example_secret = Ok \<lparr>pk_key_prefix = in_key_prefix example_input\<rparr>"
    using parse_key_text[OF w] by (simp add: example_secret_def example_input_def numeral_eq_Suc)
qed

lemma example_served:
  "\<exists>p st'. require_api_key_for example_env BalancesRead example_state [''Bearer '' @ example_secret] (\<lambda>_. 200) =
     Some (Served p 200, st') \<and> pr_api_key_id p = 2"
proof -
  obtain ik where "issue_api_key (\<lambda>_. None) empty_db 50 1 2 example_input = (Ok ik, issued_db)"
    using example_issued by blast
  from fresh_key_served[OF example_db_wf(2) _ this, where st = example_state and env = example_env
      and hs = "[''Bearer '' @ example_secret]" and key = example_secret and c = BalancesRead and handler = "\<lambda>_. 200"]
  show ?thesis
    using example_credentials(2,3)
    by (auto simp: empty_db_def example_state_def example_env_def example_input_def used_at_def LEGACY_BASELINE_def)
qed

lemma issued_db_wf: "db_wf issued_db"
  unfolding issued_db_def by (rule db_wf_issue_api_key[OF example_db_wf(2)])

theorem served_iff_admissible_witness:
  "\<exists>p. authenticate example_env example_state [''Bearer '' @ example_secret] = Ok p \<and>
     admissible example_env BalancesRead example_state issued_db p"
proof -
  have "hs_api_key_repository example_state = Some issued_db" "re_fault example_env = (\<lambda>_. NoFault)"
    by (simp_all add: example_state_def example_env_def)
  from served_iff_admissible[OF issued_db_wf this] example_served show ?thesis by blast
qed

text \<open>
  C2. A request that reaches its handler uses exactly one unit of the minute limit and one unit of
  the daily limit of its key. A request that is refused for whatever reason, also for a failure of
  the database, leaves the usage of the minute as it was, and leaves the daily counters as they
  were unless the statement that counts it took effect and its reply was lost.
\<close>

theorem requests_counted_once:
  assumes "db_wf db" "hs_api_key_repository st = Some db" "re_fault env QAccepted \<noteq> FailsAfter"
    and "require_api_key_for env c st hs handler = Some (resp, st')"
  shows "case resp of
      Served p code \<Rightarrow>
        used_at (hs_api_key_minute_limiter st') (pr_api_key_id p) (re_instant env) =
          used_at (hs_api_key_minute_limiter st) (pr_api_key_id p) (re_instant env) + 1 \<and>
        (\<exists>db'. hs_api_key_repository st' = Some db' \<and>
           accepted_on db' (pr_api_key_id p) (utc_date (re_now env QAccepted)) =
           accepted_on db (pr_api_key_id p) (utc_date (re_now env QAccepted)) + 1)
    | _ \<Rightarrow>
        used_at (hs_api_key_minute_limiter st') k (re_instant env) =
          used_at (hs_api_key_minute_limiter st) k (re_instant env) \<and>
        (\<exists>db'. hs_api_key_repository st' = Some db' \<and> accepted_on db' k d = accepted_on db k d)"
proof (cases resp)
  case (Served p code)
  then show ?thesis using served_admissible(4,5)[OF assms(1,2), of env c hs handler p code st'] assms(4) by simp
qed (use refused_unchanged(1,2)[OF assms(1,2,4), of k] assms(3) in auto)

theorem requests_counted_once_witness:
  "\<exists>p st' db'. require_api_key_for example_env BalancesRead example_state [''Bearer '' @ example_secret] (\<lambda>_. 200) =
     Some (Served p 200, st') \<and> used_at (hs_api_key_minute_limiter st') 2 0 = 1 \<and>
     hs_api_key_repository st' = Some db' \<and> accepted_on db' 2 0 = 1"
proof -
  have st: "hs_api_key_repository example_state = Some issued_db" "re_fault example_env QAccepted \<noteq> FailsAfter"
    by (simp_all add: example_state_def example_env_def)
  obtain p st' where s: "require_api_key_for example_env BalancesRead example_state
      [''Bearer '' @ example_secret] (\<lambda>_. 200) = Some (Served p 200, st')" "pr_api_key_id p = 2"
    using example_served by blast
  have "accepted_on issued_db 2 0 = 0"
  proof -
    obtain ik where i: "issue_api_key (\<lambda>_. None) empty_db 50 1 2 example_input = (Ok ik, issued_db)"
      using example_issued by blast
    have "db_usage_daily issued_db = db_usage_daily empty_db"
      by (rule issued_tables[OF example_db_wf(2) _ i]) (simp_all add: empty_db_def)
    then show ?thesis by (simp add: accepted_on_def empty_db_def)
  qed
  with requests_counted_once[OF issued_db_wf st s(1)] s show ?thesis
    by (auto simp: example_env_def example_state_def used_at_def utc_date_def)
qed

text \<open>
  The middleware never panics: its two uses of \<open>expect\<close> on the repository are safe, since a
  principal is only authenticated when there is a repository.
\<close>

theorem middleware_never_panics: "require_api_key_for env c st hs handler \<noteq> None"
  by (rule require_never_panics)



text \<open>
  C3. Revocation is final: after \<open>revoke_by_prefix\<close> has found the key, whatever operations the
  repository performs afterwards, a request that presents the key is answered without reaching
  its handler and without a change of the state.
\<close>

theorem revoked_key_never_served:
  assumes "revoke_by_prefix db now p = (Ok (Some rv), db1)" "store_step\<^sup>*\<^sup>* db1 db2"
    and "hs_api_key_repository st = Some db2" "bearer_credential (re_to_str env) hs = Ok key"
      "parse_presented_api_key key = Ok \<lparr>pk_key_prefix = p\<rparr>"
  shows "require_api_key_for env c st hs handler \<in>
    {Some (Unauthorized, st), Some (DatabaseUnavailableForAuth, st)}"
proof -
  have "revoked_in p db2" using revoked_in_steps[OF assms(2) revoke_revoked_in[OF assms(1)]] .
  note n = revoked_not_authenticated[OF assms(3) this assms(4,5)]
  show ?thesis
  proof (cases "authenticate env st hs")
    case (Ok caller)
    then show ?thesis using n by blast
  next
    case (Err e)
    then show ?thesis by (cases e) (simp_all add: require_api_key_for_def)
  qed
qed

theorem revoked_key_never_served_witness:
  "\<exists>rv db1. revoke_by_prefix issued_db 90 ''ib_live_aaaaaaaaaaaaaaaa'' = (Ok (Some rv), db1) \<and>
     (let st = example_state\<lparr>hs_api_key_repository := Some (snd (increment_daily_accepted db1 95 2))\<rparr>
      in require_api_key_for example_env BalancesRead st [''Bearer '' @ example_secret] (\<lambda>_. 200) \<in>
        {Some (Unauthorized, st), Some (DatabaseUnavailableForAuth, st)})"
proof -
  obtain ik where i: "issue_api_key (\<lambda>_. None) empty_db 50 1 2 example_input = (Ok ik, issued_db)"
    using example_issued by blast
  obtain row where "db_api_key issued_db = [row]" "ak_key_prefix row = ''ib_live_aaaaaaaaaaaaaaaa''"
    by (rule issued_tables[OF example_db_wf(2) _ i]) (simp_all add: empty_db_def example_input_def)
  then obtain rv db1 where r: "revoke_by_prefix issued_db 90 ''ib_live_aaaaaaaaaaaaaaaa'' = (Ok (Some rv), db1)"
    by (simp add: revoke_by_prefix_def Let_def)
  have "store_step\<^sup>*\<^sup>* db1 (snd (increment_daily_accepted db1 95 2))"
    using step_accepted by (rule r_into_rtranclp)
  from revoked_key_never_served[OF r this _ example_credentials(2)] example_credentials(3) r show ?thesis
    by (simp add: Let_def example_input_def)
qed

text \<open>
  C23. Whatever operations the repository of keys performs on a store that had no keys and no grants, every key is provisioned, never half
  issued: it has a policy, an owner of its kind that exists, the active grants of the baseline of its kind (for a
  legacy key its consumer too), and is either active or revoked with the time of its revocation. Later operations keep
  its identity, hash, owner, expiry and policy, and a revocation with its time; revoking a prefix revokes the keys
  with that prefix.
\<close>

theorem issued_keys_provisioned:
  assumes "db_api_key db = []" "db_consumer_grants db = []" "db_key_grants db = []"
    and "store_step\<^sup>*\<^sup>* db db1" "store_step\<^sup>*\<^sup>* db1 db2"
  shows "(\<forall>k\<in>set (db_api_key db1). provisioned db1 k) \<and>
    (\<forall>k\<in>set (db_api_key db1). \<exists>k'\<in>set (db_api_key db2). key_kept k k' \<and> db_policy db2 (ak_id k) = db_policy db1 (ak_id k)) \<and>
    (\<forall>now p. \<forall>k\<in>set (db_api_key (snd (revoke_by_prefix db1 now p))).
       ak_key_prefix k = p \<longrightarrow> ak_status k = ''revoked'' \<and> ak_revoked_at k \<noteq> None)"
proof -
  have "keys_provisioned db" using assms(1-3) by (simp add: keys_provisioned_def all_full_def)
  then have one: "keys_provisioned db1" by (rule keys_provisioned_steps[OF assms(4)])
  then have "\<forall>k\<in>set (db_api_key db1). provisioned db1 k" by (simp add: keys_provisioned_def)
  moreover have "\<forall>k\<in>set (db_api_key db1). \<exists>k'\<in>set (db_api_key db2). key_kept k k' \<and> db_policy db2 (ak_id k) = db_policy db1 (ak_id k)"
    using keys_kept_steps[OF assms(5) one] by blast
  moreover have "\<forall>now p. \<forall>k\<in>set (db_api_key (snd (revoke_by_prefix db1 now p))).
       ak_key_prefix k = p \<longrightarrow> ak_status k = ''revoked'' \<and> ak_revoked_at k \<noteq> None"
    by (auto simp: revoke_by_prefix_def Let_def revoke_row_def coalesce_def split: option.splits)
  ultimately show ?thesis by blast
qed

text \<open>The key of the example, issued and then revoked.\<close>

theorem issued_keys_provisioned_witness:
  "\<exists>ik row row'. issue_api_key (\<lambda>_. None) empty_db 50 1 2 example_input = (Ok ik, issued_db) \<and>
     db_api_key issued_db = [row] \<and> provisioned issued_db row \<and>
     row' \<in> set (db_api_key (snd (revoke_by_prefix issued_db 90 ''ib_live_aaaaaaaaaaaaaaaa''))) \<and> key_kept row row' \<and>
     ak_status row' = ''revoked''"
proof -
  obtain ik where i: "issue_api_key (\<lambda>_. None) empty_db 50 1 2 example_input = (Ok ik, issued_db)"
    using example_issued by blast
  obtain row where row: "db_api_key issued_db = [row]" "ak_key_prefix row = ''ib_live_aaaaaaaaaaaaaaaa''"
    by (rule issued_tables[OF example_db_wf(2) _ i]) (simp_all add: empty_db_def example_input_def)
  let ?db2 = "snd (revoke_by_prefix issued_db 90 ''ib_live_aaaaaaaaaaaaaaaa'')"
  have "store_step empty_db issued_db" unfolding issued_db_def by (rule step_issue)
  then have s: "store_step\<^sup>*\<^sup>* empty_db issued_db" by (rule r_into_rtranclp)
  have t: "store_step\<^sup>*\<^sup>* issued_db ?db2" using step_revoke by (rule r_into_rtranclp)
  note p = issued_keys_provisioned[OF _ _ _ s t]
  have e: "db_api_key empty_db = []" "db_consumer_grants empty_db = []" "db_key_grants empty_db = []" by (simp_all add: empty_db_def)
  then obtain row' where r: "row' \<in> set (db_api_key ?db2)" "key_kept row row'" using p row(1) by fastforce
  then have "ak_key_prefix row' = ''ib_live_aaaaaaaaaaaaaaaa''" using row(2) by (simp add: key_kept_def)
  then have "ak_status row' = ''revoked''" using p[OF e] r(1) by blast
  then show ?thesis using i row(1) r p[OF e] by auto
qed

text \<open>
  The comparison that takes the same time for all tokens decides equality: for slices whose
  length fits into 64 bits the accumulated difference is 0 exactly when they are equal.
\<close>

theorem constant_time_eq_is_equality:
  assumes "length expected < 2 ^ 64" "length presented < 2 ^ 64"
  shows "constant_time_eq expected presented \<longleftrightarrow> expected = presented"
  by (rule constant_time_eq_iff[OF assms])

theorem constant_time_eq_is_equality_witness:
  "constant_time_eq [1, 2] [1, 2] \<and> \<not> constant_time_eq [1, 2] [1, 3] \<and> \<not> constant_time_eq [1] [1, 0]"
  using constant_time_eq_is_equality[of "[1, 2]" "[1, 2]"] constant_time_eq_is_equality[of "[1, 2]" "[1, 3]"]
    constant_time_eq_is_equality[of "[1]" "[1, 0]"] by simp

end
