(* ===== verification/Transfers.thy ===== *)
theory Transfers
  imports Requests Auth Canonical
begin

text \<open>
  Search of ERC-20 transfers: \<open>src/application/erc20_transfers/service.rs\<close> (the plan of a search, its execution
  and the metadata of the tokens), \<open>src/adapters/bigwig/erc20_transfers.rs\<close> (the extractor on the gateway
  client) and \<open>src/adapters/http/routes/erc20_transfers.rs\<close> (the handler and its response). The extractor of
  the service is an argument, as the trait is; the gateway client of theory \<open>Bigwig\<close> provides one. A direction of
  the interface and of the domain is the same type.
\<close>

section \<open>Plans\<close>

record erc20_transfer_search_input =
  si_network_slug :: string
  si_address :: string
  si_direction :: transfer_direction
  si_window :: onchain_window
  si_asset_slugs :: "string list"
  si_contract_addresses :: "string list"

record erc20_transfer_search_token_filters =
  tf_asset_slugs :: "string list"
  tf_contract_addresses :: "string list"

datatype erc20_transfer_token_filter_source = SourceAssetSlug | SourceContractAddress

record resolved_erc20_transfer_token_filter =
  rf_contract_address :: string
  rf_asset_slug :: "string option"
  rf_symbol :: "string option"
  rf_decimals :: "nat option"
  rf_source :: erc20_transfer_token_filter_source

record erc20_transfer_extraction_request =
  er_network_slug :: string
  er_address :: string
  er_direction :: transfer_direction
  er_window :: onchain_window
  er_contract_addresses :: "string list"

record erc20_transfer_search_plan =
  sp_extraction_request :: erc20_transfer_extraction_request
  sp_requested_token_filters :: erc20_transfer_search_token_filters
  sp_resolved_token_filters :: "resolved_erc20_transfer_token_filter list"

record erc20_transfer_token_catalog_metadata =
  tm_contract_address :: string
  tm_asset_slug :: string
  tm_symbol :: string
  tm_decimals :: nat

record erc20_transfer_extraction_row =
  xr_block_number :: nat
  xr_tx_hash :: string
  xr_log_index :: nat
  xr_token :: string
  xr_from :: string
  xr_to :: string
  xr_value :: string

record erc20_transfer_extraction_result =
  xe_rows :: "erc20_transfer_extraction_row list"
  xe_truncated :: bool

record erc20_transfer_search_result =
  sr_plan :: erc20_transfer_search_plan
  sr_extraction :: erc20_transfer_extraction_result
  sr_token_metadata :: "erc20_transfer_token_catalog_metadata list"

datatype erc20_transfer_catalog_resolution_issue = ResolutionCountMismatch | ResolutionTargetMismatch

datatype erc20_transfer_extraction_error =
    XeWindowTooLarge
  | XeInvalidWindow
  | XeExtractionUnavailable
  | XeExtractionTimeout
  | XeUpstreamProviderError
  | XeUpstreamProviderTimeout
  | XeInternalError

datatype erc20_transfer_search_error =
    SeAssetNotFound
  | SeAssetNotAvailableOnNetwork
  | SeAssetNotErc20OnNetwork
  | SeTooManyTokenFilters
  | SeInvalidCatalogResolution erc20_transfer_catalog_resolution_issue
  | SeWindowTooLarge
  | SeInvalidWindow
  | SeExtractionUnavailable
  | SeExtractionTimeout
  | SeUpstreamProviderError
  | SeUpstreamProviderTimeout
  | SeInternalError

fun search_error_of_extraction :: "erc20_transfer_extraction_error \<Rightarrow> erc20_transfer_search_error" where
  "search_error_of_extraction XeWindowTooLarge = SeWindowTooLarge"
| "search_error_of_extraction XeInvalidWindow = SeInvalidWindow"
| "search_error_of_extraction XeExtractionUnavailable = SeExtractionUnavailable"
| "search_error_of_extraction XeExtractionTimeout = SeExtractionTimeout"
| "search_error_of_extraction XeUpstreamProviderError = SeUpstreamProviderError"
| "search_error_of_extraction XeUpstreamProviderTimeout = SeUpstreamProviderTimeout"
| "search_error_of_extraction XeInternalError = SeInternalError"

fun catalog_filter ::
  "string \<Rightarrow> string \<times> balance_target_resolution \<Rightarrow>
   (resolved_erc20_transfer_token_filter, erc20_transfer_search_error) result" where
  "catalog_filter network_slug (requested_asset_slug, ResolvedTarget target) =
     (if tg_network_slug target \<noteq> network_slug \<or> tg_asset_slug target \<noteq> requested_asset_slug
      then Err (SeInvalidCatalogResolution ResolutionTargetMismatch)
      else
        (case tg_kind target of
           Erc20 contract_address \<Rightarrow>
             Ok \<lparr>rf_contract_address = contract_address, rf_asset_slug = Some (tg_asset_slug target),
                 rf_symbol = Some (tg_symbol target), rf_decimals = Some (tg_decimals target),
                 rf_source = SourceAssetSlug\<rparr>
         | Native \<Rightarrow> Err SeAssetNotErc20OnNetwork))"
| "catalog_filter network_slug (requested_asset_slug, UnsupportedAssetTarget n a) = Err SeAssetNotFound"
| "catalog_filter network_slug (requested_asset_slug, UnsupportedNetworkTarget n a) = Err SeAssetNotAvailableOnNetwork"
| "catalog_filter network_slug (requested_asset_slug, UnsupportedPairTarget n a) = Err SeAssetNotAvailableOnNetwork"
| "catalog_filter network_slug (requested_asset_slug, UnsupportedTokenStandardTarget n a) = Err SeAssetNotErc20OnNetwork"

definition resolved_token_filters_from_catalog ::
  "string \<Rightarrow> string list \<Rightarrow> balance_target_resolution list \<Rightarrow>
   (resolved_erc20_transfer_token_filter list, erc20_transfer_search_error) result" where
  "resolved_token_filters_from_catalog network_slug requested_asset_slugs resolutions =
     (if length resolutions \<noteq> length requested_asset_slugs
      then Err (SeInvalidCatalogResolution ResolutionCountMismatch)
      else try_map (catalog_filter network_slug) (zip requested_asset_slugs resolutions))"

text \<open>The vector and the set of the addresses seen.\<close>

definition push_unique_token_filter ::
  "resolved_erc20_transfer_token_filter list \<times> string set \<Rightarrow> resolved_erc20_transfer_token_filter \<Rightarrow>
   resolved_erc20_transfer_token_filter list \<times> string set" where
  "push_unique_token_filter acc token_filter =
     (case acc of (token_filters, seen) \<Rightarrow>
        let address = to_ascii_lowercase (rf_contract_address token_filter) in
        if address \<in> seen then (token_filters, seen)
        else (token_filters @ [token_filter\<lparr>rf_contract_address := address\<rparr>], insert address seen))"

definition contract_filter :: "string \<Rightarrow> resolved_erc20_transfer_token_filter" where
  "contract_filter contract_address =
     \<lparr>rf_contract_address = contract_address, rf_asset_slug = None, rf_symbol = None, rf_decimals = None,
      rf_source = SourceContractAddress\<rparr>"

definition resolve_token_filters ::
  "canonical_registry \<Rightarrow> string \<Rightarrow> erc20_transfer_search_token_filters \<Rightarrow>
   (resolved_erc20_transfer_token_filter list, erc20_transfer_search_error) result" where
  "resolve_token_filters registry network_slug tokens =
     and_then
       (if tf_asset_slugs tokens \<noteq> []
        then resolved_token_filters_from_catalog network_slug (tf_asset_slugs tokens)
               (resolve_network registry network_slug (tf_asset_slugs tokens))
        else Ok []) (\<lambda>resolved_asset_filters.
     Ok (fst (foldl push_unique_token_filter
               (foldl push_unique_token_filter ([], {}) resolved_asset_filters)
               (map contract_filter (tf_contract_addresses tokens)))))"

definition enforce_token_filter_limit ::
  "resolved_erc20_transfer_token_filter list \<Rightarrow> nat \<Rightarrow> (unit, erc20_transfer_search_error) result" where
  "enforce_token_filter_limit token_filters max_token_filters =
     (if min (length token_filters) (2 ^ 64 - 1) > max_token_filters then Err SeTooManyTokenFilters else Ok ())"

definition build_search_plan ::
  "erc20_transfer_search_input \<Rightarrow> canonical_registry \<Rightarrow> nat \<Rightarrow>
   (erc20_transfer_search_plan, erc20_transfer_search_error) result" where
  "build_search_plan input registry max_token_filters =
     (let requested = \<lparr>tf_asset_slugs = si_asset_slugs input, tf_contract_addresses = si_contract_addresses input\<rparr> in
      and_then (resolve_token_filters registry (si_network_slug input) requested) (\<lambda>resolved_token_filters.
      and_then (enforce_token_filter_limit resolved_token_filters max_token_filters) (\<lambda>_.
      Ok \<lparr>sp_extraction_request =
            \<lparr>er_network_slug = si_network_slug input, er_address = to_ascii_lowercase (si_address input),
             er_direction = si_direction input, er_window = si_window input,
             er_contract_addresses = map rf_contract_address resolved_token_filters\<rparr>,
          sp_requested_token_filters = requested, sp_resolved_token_filters = resolved_token_filters\<rparr>)))"

section \<open>Execution\<close>

definition push_unique_address :: "string list \<times> string set \<Rightarrow> string \<Rightarrow> string list \<times> string set" where
  "push_unique_address acc address =
     (case acc of (addresses, seen) \<Rightarrow>
        let address = to_ascii_lowercase address in
        if address \<in> seen then (addresses, seen) else (addresses @ [address], insert address seen))"

definition collect_metadata_lookup_addresses ::
  "erc20_transfer_search_plan \<Rightarrow> erc20_transfer_extraction_result \<Rightarrow> string list" where
  "collect_metadata_lookup_addresses plan extraction =
     fst (foldl push_unique_address
            (foldl push_unique_address ([], {}) (map rf_contract_address (sp_resolved_token_filters plan)))
            (map xr_token (xe_rows extraction)))"

definition metadata_from_resolved_filter ::
  "resolved_erc20_transfer_token_filter \<Rightarrow> erc20_transfer_token_catalog_metadata option" where
  "metadata_from_resolved_filter token_filter = do {
     asset_slug \<leftarrow> rf_asset_slug token_filter;
     symbol \<leftarrow> rf_symbol token_filter;
     decimals \<leftarrow> rf_decimals token_filter;
     Some \<lparr>tm_contract_address = to_ascii_lowercase (rf_contract_address token_filter), tm_asset_slug = asset_slug,
           tm_symbol = symbol, tm_decimals = decimals\<rparr>
   }"

type_synonym metadata_map = "string \<Rightarrow> erc20_transfer_token_catalog_metadata option"

definition collect_metadata :: "erc20_transfer_token_catalog_metadata list \<Rightarrow> metadata_map" where
  "collect_metadata metadata = foldl (\<lambda>m md. m(tm_contract_address md \<mapsto> md)) Map.empty metadata"

definition add_metadata ::
  "canonical_registry \<Rightarrow> string \<Rightarrow> metadata_map \<Rightarrow> string \<Rightarrow> (metadata_map, erc20_transfer_search_error) result" where
  "add_metadata registry network_slug metadata_by_contract address =
     (case erc20_metadata registry network_slug address of
        None \<Rightarrow> Ok metadata_by_contract
      | Some metadata \<Rightarrow>
          and_then (ok_or (cm_decimals (em_mapping metadata) \<bind> u8_try_from) SeInternalError) (\<lambda>decimals.
          let md = \<lparr>tm_contract_address = address, tm_asset_slug = ca_slug (em_asset metadata),
                    tm_symbol = ca_symbol (em_asset metadata), tm_decimals = decimals\<rparr> in
          Ok (if metadata_by_contract address = None then metadata_by_contract(address \<mapsto> md)
              else metadata_by_contract)))"

definition enrich_filter :: "metadata_map \<Rightarrow> resolved_erc20_transfer_token_filter \<Rightarrow> resolved_erc20_transfer_token_filter" where
  "enrich_filter metadata_by_contract token_filter =
     (case metadata_by_contract (to_ascii_lowercase (rf_contract_address token_filter)) of
        None \<Rightarrow> token_filter
      | Some md \<Rightarrow> token_filter\<lparr>rf_asset_slug := Some (tm_asset_slug md), rf_symbol := Some (tm_symbol md),
                                rf_decimals := Some (tm_decimals md)\<rparr>)"

text \<open>The plan is updated in place: it is part of the result.\<close>

definition enrich_token_metadata ::
  "erc20_transfer_search_plan \<Rightarrow> erc20_transfer_extraction_result \<Rightarrow> canonical_registry \<Rightarrow>
   (erc20_transfer_token_catalog_metadata list \<times> erc20_transfer_search_plan, erc20_transfer_search_error) result" where
  "enrich_token_metadata plan extraction registry =
     (let lookup_addresses = collect_metadata_lookup_addresses plan extraction;
          known = collect_metadata (List.map_filter metadata_from_resolved_filter (sp_resolved_token_filters plan)) in
      and_then (try_fold (add_metadata registry (er_network_slug (sp_extraction_request plan))) known lookup_addresses)
        (\<lambda>metadata_by_contract.
      Ok (List.map_filter metadata_by_contract lookup_addresses,
          plan\<lparr>sp_resolved_token_filters := map (enrich_filter metadata_by_contract) (sp_resolved_token_filters plan)\<rparr>)))"

type_synonym erc20_transfer_extractor =
  "erc20_transfer_extraction_request \<Rightarrow> (erc20_transfer_extraction_result, erc20_transfer_extraction_error) result"

definition execute_search_plan ::
  "erc20_transfer_search_plan \<Rightarrow> canonical_registry \<Rightarrow> erc20_transfer_extractor \<Rightarrow>
   (erc20_transfer_search_result, erc20_transfer_search_error) result" where
  "execute_search_plan plan registry extractor =
     and_then (map_err search_error_of_extraction (extractor (sp_extraction_request plan))) (\<lambda>extraction.
     and_then (enrich_token_metadata plan extraction registry) (\<lambda>(token_metadata, plan).
     Ok \<lparr>sr_plan = plan, sr_extraction = extraction, sr_token_metadata = token_metadata\<rparr>))"

definition application_search_erc20_transfers ::
  "erc20_transfer_search_input \<Rightarrow> canonical_registry \<Rightarrow> nat \<Rightarrow> erc20_transfer_extractor \<Rightarrow>
   (erc20_transfer_search_result, erc20_transfer_search_error) result" where
  "application_search_erc20_transfers input registry max_token_filters extractor =
     and_then (build_search_plan input registry max_token_filters) (\<lambda>plan.
     execute_search_plan plan registry extractor)"

section \<open>The extractor on the gateway client\<close>

record bigwig_erc20_transfer_request =
  bt_network_slug :: string
  bt_address :: string
  bt_direction :: transfer_direction
  bt_contract_addresses :: "string list"
  bt_window :: onchain_window_dto

datatype onchain_window_kind_dto = KindBlock | KindTimestamp | KindLookback

datatype bigwig_erc20_transfer_extractor = EvmErc20TransfersByAddress

record bigwig_erc20_transfer_row =
  br_block_number :: nat
  br_tx_hash :: string
  br_log_index :: nat
  br_token :: string
  br_from :: string
  br_to :: string
  br_value :: string

record bigwig_erc20_transfer_response =
  bs_extractor :: bigwig_erc20_transfer_extractor
  bs_network_slug :: string
  bs_address :: string
  bs_direction :: transfer_direction
  bs_window_kind :: onchain_window_kind_dto
  bs_from_block :: "nat option"
  bs_to_block :: "nat option"
  bs_from_timestamp :: "string option"
  bs_to_timestamp :: "string option"
  bs_lookback_seconds :: "nat option"
  bs_truncated :: bool
  bs_rows_extracted :: nat
  bs_results :: "bigwig_erc20_transfer_row list"

definition bigwig_request_of_extraction :: "erc20_transfer_extraction_request \<Rightarrow> bigwig_erc20_transfer_request" where
  "bigwig_request_of_extraction request =
     \<lparr>bt_network_slug = er_network_slug request, bt_address = to_ascii_lowercase (er_address request),
      bt_direction = er_direction request,
      bt_contract_addresses = map to_ascii_lowercase (er_contract_addresses request),
      bt_window = window_dto_of (er_window request)\<rparr>"

definition extraction_row_of :: "bigwig_erc20_transfer_row \<Rightarrow> erc20_transfer_extraction_row" where
  "extraction_row_of row =
     \<lparr>xr_block_number = br_block_number row, xr_tx_hash = br_tx_hash row, xr_log_index = br_log_index row,
      xr_token = to_ascii_lowercase (br_token row), xr_from = to_ascii_lowercase (br_from row),
      xr_to = to_ascii_lowercase (br_to row), xr_value = br_value row\<rparr>"

definition extraction_result_try_from ::
  "bigwig_erc20_transfer_response \<Rightarrow> (erc20_transfer_extraction_result, erc20_transfer_extraction_error) result" where
  "extraction_result_try_from response =
     (if bs_rows_extracted response \<noteq> min (length (bs_results response)) (2 ^ 64 - 1) then Err XeInternalError
      else Ok \<lparr>xe_rows = map extraction_row_of (bs_results response), xe_truncated = bs_truncated response\<rparr>)"

fun map_bigwig_transfer_error :: "bigwig_error \<Rightarrow> erc20_transfer_extraction_error" where
  "map_bigwig_transfer_error BwReversedBlockRange = XeInvalidWindow"
| "map_bigwig_transfer_error BwBlockOutOfRange = XeInvalidWindow"
| "map_bigwig_transfer_error BwReversedTimestampRange = XeInvalidWindow"
| "map_bigwig_transfer_error BwTimestampOutOfRange = XeInvalidWindow"
| "map_bigwig_transfer_error BwLookbackTooLarge = XeWindowTooLarge"
| "map_bigwig_transfer_error BwRangeTooLarge = XeWindowTooLarge"
| "map_bigwig_transfer_error BwRpcError = XeUpstreamProviderError"
| "map_bigwig_transfer_error BwProviderTimeout = XeUpstreamProviderTimeout"
| "map_bigwig_transfer_error BwTimeout = XeExtractionTimeout"
| "map_bigwig_transfer_error BwExtractionTimeout = XeExtractionTimeout"
| "map_bigwig_transfer_error BwTransport = XeExtractionUnavailable"
| "map_bigwig_transfer_error BwUnauthorized = XeExtractionUnavailable"
| "map_bigwig_transfer_error BwUnsupportedNetwork = XeExtractionUnavailable"
| "map_bigwig_transfer_error BwNetworkNotEnabledForOperation = XeExtractionUnavailable"
| "map_bigwig_transfer_error BwNoRouteSatisfiesOperation = XeExtractionUnavailable"
| "map_bigwig_transfer_error (BwRateLimited r) = XeExtractionUnavailable"
| "map_bigwig_transfer_error (BwProviderUnavailable r) = XeExtractionUnavailable"
| "map_bigwig_transfer_error BwInternalError = XeExtractionUnavailable"
| "map_bigwig_transfer_error _ = XeInternalError"

definition bigwig_extractor ::
  "(bigwig_erc20_transfer_request \<Rightarrow> (bigwig_erc20_transfer_response, bigwig_error) result) \<Rightarrow> erc20_transfer_extractor" where
  "bigwig_extractor search request =
     and_then (map_err map_bigwig_transfer_error (search (bigwig_request_of_extraction request)))
       extraction_result_try_from"

section \<open>The handler\<close>

definition ERC20_TRANSFER_SEARCH_MAX_ROWS :: nat where
  "ERC20_TRANSFER_SEARCH_MAX_ROWS = 5000"

record resolved_token_selector_request =
  rv_contract_address :: string
  rv_asset_slug :: "string option"
  rv_symbol :: "string option"
  rv_decimals :: "nat option"
  rv_source :: erc20_transfer_token_filter_source

record token_filter_resolution_dto =
  fr_requested :: token_selector
  fr_resolved_contract_addresses :: "resolved_token_selector_request list"

record erc20_transfer_token =
  et_contract_address :: string
  et_asset_slug :: "string option"
  et_symbol :: "string option"
  et_decimals :: "nat option"

record erc20_transfer_amount =
  ea_raw :: string
  ea_decimal :: "string option"

record erc20_transfer_row =
  ew_block_number :: nat
  ew_tx_hash :: string
  ew_log_index :: nat
  ew_token :: erc20_transfer_token
  ew_from :: string
  ew_to :: string
  ew_amount :: erc20_transfer_amount
  ew_direction :: transfer_direction

record erc20_transfer_search_limits =
  el_max_rows :: nat
  el_truncated :: bool

record erc20_transfer_search_response =
  es_ok :: bool
  es_response_type :: string
  es_account :: onchain_account_request
  es_direction :: transfer_direction
  es_window :: onchain_window_dto
  es_token_filters :: token_filter_resolution_dto
  es_transfers :: "erc20_transfer_row list"
  es_limits :: erc20_transfer_search_limits

definition erc20_transfer_search_input_from_request ::
  "erc20_transfer_search_request \<Rightarrow> (erc20_transfer_search_input, api_error) result" where
  "erc20_transfer_search_input_from_request request =
     (let tokens = (case tr_tokens request of
                      Some tokens \<Rightarrow> tokens | None \<Rightarrow> \<lparr>ts_asset_slugs = [], ts_contract_addresses = []\<rparr>) in
      and_then (window_try_from (tr_window request)) (\<lambda>window.
      Ok \<lparr>si_network_slug = oq_network_slug (tr_account request), si_address = oq_address (tr_account request),
          si_direction = tr_direction request, si_window = window, si_asset_slugs = ts_asset_slugs tokens,
          si_contract_addresses = ts_contract_addresses tokens\<rparr>))"

definition resolved_token_filter_to_dto ::
  "resolved_erc20_transfer_token_filter \<Rightarrow> resolved_token_selector_request" where
  "resolved_token_filter_to_dto token_filter =
     \<lparr>rv_contract_address = rf_contract_address token_filter, rv_asset_slug = rf_asset_slug token_filter,
      rv_symbol = rf_symbol token_filter, rv_decimals = rf_decimals token_filter, rv_source = rf_source token_filter\<rparr>"

definition trim_trailing_fractional_zeros :: "string \<Rightarrow> string" where
  "trim_trailing_fractional_zeros amount =
     (case split_once CHR ''.'' amount of
        None \<Rightarrow> amount
      | Some (integer, fraction) \<Rightarrow>
          (let fraction = trim_end_matches CHR ''0'' fraction in
           if fraction = [] then integer else integer @ ''.'' @ fraction))"

definition decimal_amount :: "string \<Rightarrow> nat \<Rightarrow> string option" where
  "decimal_amount raw_amount decimals =
     (case format_amount raw_amount decimals of
        Ok amount \<Rightarrow> Some (trim_trailing_fractional_zeros amount)
      | Err _ \<Rightarrow> None)"

definition eq_ignore_ascii_case :: "string \<Rightarrow> string \<Rightarrow> bool" where
  "eq_ignore_ascii_case a b \<longleftrightarrow> to_ascii_lowercase a = to_ascii_lowercase b"

definition transfer_row_direction :: "erc20_transfer_extraction_row \<Rightarrow> string \<Rightarrow> transfer_direction" where
  "transfer_row_direction row watched_address =
     (if eq_ignore_ascii_case (xr_from row) watched_address then DirectionFrom
      else if eq_ignore_ascii_case (xr_to row) watched_address then DirectionTo
      else DirectionAny)"

definition erc20_transfer_row_to_dto ::
  "erc20_transfer_extraction_row \<Rightarrow> string \<Rightarrow> metadata_map \<Rightarrow> erc20_transfer_row" where
  "erc20_transfer_row_to_dto row watched_address token_metadata =
     (let contract_address = to_ascii_lowercase (xr_token row); metadata = token_metadata contract_address in
      \<lparr>ew_block_number = xr_block_number row, ew_tx_hash = xr_tx_hash row, ew_log_index = xr_log_index row,
       ew_token = \<lparr>et_contract_address = contract_address, et_asset_slug = map_option tm_asset_slug metadata,
                   et_symbol = map_option tm_symbol metadata, et_decimals = map_option tm_decimals metadata\<rparr>,
       ew_from = xr_from row, ew_to = xr_to row,
       ew_amount = \<lparr>ea_raw = xr_value row,
                    ea_decimal = metadata \<bind> (\<lambda>metadata. decimal_amount (xr_value row) (tm_decimals metadata))\<rparr>,
       ew_direction = transfer_row_direction row watched_address\<rparr>)"

definition erc20_transfer_search_response_from_result ::
  "erc20_transfer_search_result \<Rightarrow> string option \<Rightarrow> erc20_transfer_search_response" where
  "erc20_transfer_search_response_from_result result client_ref =
     (let plan = sr_plan result; extraction = sr_extraction result; request = sp_extraction_request plan;
          token_metadata = collect_metadata (sr_token_metadata result) in
      \<lparr>es_ok = True, es_response_type = ''erc20_transfer_search'',
       es_account = \<lparr>oq_network_slug = er_network_slug request, oq_address = er_address request, oq_client_ref = client_ref\<rparr>,
       es_direction = er_direction request, es_window = window_dto_of (er_window request),
       es_token_filters =
         \<lparr>fr_requested = \<lparr>ts_asset_slugs = tf_asset_slugs (sp_requested_token_filters plan),
                          ts_contract_addresses = tf_contract_addresses (sp_requested_token_filters plan)\<rparr>,
          fr_resolved_contract_addresses = map resolved_token_filter_to_dto (sp_resolved_token_filters plan)\<rparr>,
       es_transfers = map (\<lambda>row. erc20_transfer_row_to_dto row (er_address request) token_metadata) (xe_rows extraction),
       es_limits = \<lparr>el_max_rows = ERC20_TRANSFER_SEARCH_MAX_ROWS, el_truncated = xe_truncated extraction\<rparr>\<rparr>)"

fun erc20_transfer_search_error_to_api_error :: "erc20_transfer_search_error \<Rightarrow> api_error" where
  "erc20_transfer_search_error_to_api_error SeAssetNotFound = api_asset_not_found"
| "erc20_transfer_search_error_to_api_error SeAssetNotAvailableOnNetwork = api_asset_not_available_on_network"
| "erc20_transfer_search_error_to_api_error SeAssetNotErc20OnNetwork = api_asset_not_erc20_on_network"
| "erc20_transfer_search_error_to_api_error SeTooManyTokenFilters = api_too_many_token_filters"
| "erc20_transfer_search_error_to_api_error (SeInvalidCatalogResolution issue) = api_internal_error"
| "erc20_transfer_search_error_to_api_error SeWindowTooLarge = api_window_too_large"
| "erc20_transfer_search_error_to_api_error SeInvalidWindow = api_invalid_window"
| "erc20_transfer_search_error_to_api_error SeExtractionUnavailable = api_extraction_unavailable"
| "erc20_transfer_search_error_to_api_error SeExtractionTimeout = api_extraction_timeout"
| "erc20_transfer_search_error_to_api_error SeUpstreamProviderError = api_upstream_provider_error"
| "erc20_transfer_search_error_to_api_error SeUpstreamProviderTimeout = api_upstream_provider_timeout"
| "erc20_transfer_search_error_to_api_error SeInternalError = api_internal_error"

text \<open>The errors of the authorization stage as the interface answers them.\<close>

fun response_error :: "response \<Rightarrow> api_error" where
  "response_error Unauthorized = api_unauthorized"
| "response_error DatabaseUnavailableForAuth = api_database_unavailable_for_auth"
| "response_error CapabilityNotGranted = api_capability_not_granted"
| "response_error RateLimited = api_rate_limited"
| "response_error InternalUnauthorized = api_internal_unauthorized"
| "response_error (Served p n) = api_internal_error"

text \<open>The parts of the server's state that the handler reads.\<close>

record transfer_services =
  ts_registry :: canonical_registry
  ts_max_token_filters :: nat
  ts_bigwig :: "erc20_transfer_extractor option"

definition search_erc20_transfers ::
  "(string \<Rightarrow> json option) \<Rightarrow> request_env \<Rightarrow> http_state \<Rightarrow> transfer_services \<Rightarrow> api_key_principal option \<Rightarrow>
   string option \<Rightarrow> string \<Rightarrow> (erc20_transfer_search_response, api_error) result" where
  "search_erc20_transfers from_slice env state services caller content_type body =
     and_then (ensure_json_content_type content_type) (\<lambda>_.
     and_then (parse_json_object_body from_slice body) (\<lambda>object.
     and_then (transfer_request_of object) (\<lambda>request.
     let client_ref = oq_client_ref (tr_account request) in
     and_then (erc20_transfer_search_input_from_request request) (\<lambda>input.
     and_then (map_err response_error
       (require_network_scopes env state caller Erc20TransfersRead [si_network_slug input])) (\<lambda>_.
     and_then (map_err erc20_transfer_search_error_to_api_error
       (build_search_plan input (ts_registry services) (ts_max_token_filters services))) (\<lambda>plan.
     case ts_bigwig services of
       None \<Rightarrow> Err api_extraction_unavailable
     | Some extractor \<Rightarrow>
         and_then (map_err erc20_transfer_search_error_to_api_error
           (execute_search_plan plan (ts_registry services) extractor)) (\<lambda>result.
         Ok (erc20_transfer_search_response_from_result result client_ref))))))))"

section \<open>Filters\<close>

definition lower_filter :: "resolved_erc20_transfer_token_filter \<Rightarrow> resolved_erc20_transfer_token_filter" where
  "lower_filter f = f\<lparr>rf_contract_address := to_ascii_lowercase (rf_contract_address f)\<rparr>"

lemma push_filters:
  "foldl push_unique_token_filter (acc, seen) fs =
     (acc @ keep_unseen rf_contract_address seen (map lower_filter fs), seen \<union> rf_contract_address ` lower_filter ` set fs)"
  by (induction fs arbitrary: acc seen) (auto simp: push_unique_token_filter_def lower_filter_def insert_absorb Let_def)

lemma keep_unseen_append:
  "keep_unseen key seen (xs @ ys) = keep_unseen key seen xs @ keep_unseen key (seen \<union> key ` set xs) ys"
  by (induction xs arbitrary: seen) (auto simp: insert_absorb)

lemma resolve_token_filters_Ok:
  "resolve_token_filters r n tokens = Ok fs \<longleftrightarrow>
     (\<exists>afs. try_map (catalog_filter n) (zip (tf_asset_slugs tokens) (resolve_network r n (tf_asset_slugs tokens))) = Ok afs \<and>
       fs = keep_unseen rf_contract_address {} (map lower_filter (afs @ map contract_filter (tf_contract_addresses tokens))))"
proof -
  let ?slugs = "tf_asset_slugs tokens"
  have "resolved_token_filters_from_catalog n ?slugs (resolve_network r n ?slugs) =
      try_map (catalog_filter n) (zip ?slugs (resolve_network r n ?slugs))"
    by (simp add: resolved_token_filters_from_catalog_def resolver.by_slug_length)
  then show ?thesis
    by (cases "?slugs = []")
       (auto simp: resolve_token_filters_def and_then_Ok_iff push_filters keep_unseen_append image_image)
qed

section \<open>Metadata of the catalog\<close>

text \<open>What the catalog says of a contract address.\<close>

definition catalog_metadata ::
  "canonical_registry \<Rightarrow> string \<Rightarrow> string \<Rightarrow> erc20_transfer_token_catalog_metadata option" where
  "catalog_metadata r n address =
     map_option (\<lambda>md. \<lparr>tm_contract_address = address, tm_asset_slug = ca_slug (em_asset md),
         tm_symbol = ca_symbol (em_asset md), tm_decimals = nat (the (cm_decimals (em_mapping md)))\<rparr>)
       (erc20_metadata r n address)"

lemma catalog_metadata_address: "catalog_metadata r n a = Some m \<Longrightarrow> tm_contract_address m = a"
  by (auto simp: catalog_metadata_def)

lemma mapping_decimals:
  assumes "valid_catalog c" "m \<in> set (cat_asset_chain_maps c)"
  obtains d where "cm_decimals m = Some d" "0 \<le> d" "d \<le> 255"
proof -
  obtain n where "valid_mapping n m" by (rule mapping_references[OF assms])
  then show ?thesis using that by (auto simp: valid_mapping_def)
qed

lemma resolved_is_metadata:
  assumes c: "from_catalog c = Some (Ok r)" and t: "ResolvedTarget t \<in> set (resolve_network r n slugs)"
    and a: "tg_kind t = Erc20 a"
  shows "lowercase_address a"
    "catalog_metadata r n a = Some \<lparr>tm_contract_address = a, tm_asset_slug = tg_asset_slug t,
       tm_symbol = tg_symbol t, tm_decimals = tg_decimals t\<rparr>"
proof -
  have v: "valid_catalog c" using registry_fields(1)[OF c] .
  obtain slug net b m where x: "net \<in> set (cat_networks c)" "cn_slug net = to_ascii_lowercase n"
    "is_active (cn_status net)" "b \<in> set (cat_assets c)" "is_active (ca_status b)"
    "m \<in> set (cat_asset_chain_maps c)" "is_active (cm_status m)"
    "cm_asset_slug m = ca_slug b" "cm_network_slug m = cn_slug net"
    "target_from_mapping (cn_slug net) (cn_chain_id net) b m = Some t"
    by (rule resolved_rows[OF c t])
  note k = target_from_mapping_SomeD[OF x(10)]
  then have k': "cm_deployment_address m = Some a" "cm_token_standard m = ''erc20''" using a by auto
  then have l: "to_ascii_lowercase a = a" "is_evm_address a" using live_erc20_address[OF v x(6)] by auto
  then show "lowercase_address a" by (simp add: lowercase_address_def)
  have "live c m" using x by (auto simp: live_def)
  then have "erc20_metadata r n a = Some \<lparr>em_asset = b, em_network = net, em_mapping = m\<rparr>"
    using x l k' by (simp add: erc20_metadata_iff[OF c])
  moreover obtain d where "cm_decimals m = Some d" "0 \<le> d" by (rule mapping_decimals[OF v x(6)])
  ultimately show "catalog_metadata r n a = Some \<lparr>tm_contract_address = a, tm_asset_slug = tg_asset_slug t,
       tm_symbol = tg_symbol t, tm_decimals = tg_decimals t\<rparr>"
    using k by (auto simp: catalog_metadata_def)
qed

lemma metadata_resolves:
  assumes c: "from_catalog c = Some (Ok r)" and t: "ResolvedTarget t \<in> set (resolve_network r n [slug])"
    and b: "tg_kind t = Erc20 b" and m: "catalog_metadata r n a = Some m" "tm_asset_slug m = to_ascii_lowercase slug"
  shows "to_ascii_lowercase a = b"
proof -
  have v: "valid_catalog c" using registry_fields(1)[OF c] .
  obtain md where md: "erc20_metadata r n a = Some md" "ca_slug (em_asset md) = to_ascii_lowercase slug"
    using m by (auto simp: catalog_metadata_def)
  note row = md(1)[unfolded erc20_metadata_iff[OF c]]
  obtain s net d k where x: "s \<in> set [slug]" "net \<in> set (cat_networks c)" "cn_slug net = to_ascii_lowercase n"
    "d \<in> set (cat_assets c)" "ca_slug d = to_ascii_lowercase s"
    "k \<in> set (cat_asset_chain_maps c)" "cm_asset_slug k = ca_slug d" "cm_network_slug k = cn_slug net"
    "target_from_mapping (cn_slug net) (cn_chain_id net) d k = Some t"
    by (rule resolved_rows[OF c t])
  have "k = em_mapping md"
  proof (rule distinct_map_eq[OF valid_catalog_rows(3)[OF v] x(6)])
    show "em_mapping md \<in> set (cat_asset_chain_maps c)" using row by blast
    have "cm_asset_slug k = cm_asset_slug (em_mapping md)" using row x(1,5,7) md(2) by simp
    moreover have "cm_network_slug k = cm_network_slug (em_mapping md)" using row x(3,8) by simp
    ultimately show "identity_of k = identity_of (em_mapping md)" by (simp add: identity_of_def)
  qed
  moreover have "cm_deployment_address k = Some b" using target_from_mapping_SomeD[OF x(9)] b by auto
  ultimately show ?thesis using row by simp
qed

section \<open>Resolved filters\<close>

lemma catalog_filter_OkD:
  assumes "catalog_filter n (slug, q) = Ok f"
  shows "\<exists>t a. q = ResolvedTarget t \<and> tg_kind t = Erc20 a \<and> tg_asset_slug t = slug \<and>
    f = \<lparr>rf_contract_address = a, rf_asset_slug = Some slug, rf_symbol = Some (tg_symbol t),
       rf_decimals = Some (tg_decimals t), rf_source = SourceAssetSlug\<rparr>"
  using assms by (cases q) (auto split: if_splits balance_target_kind.splits)

lemma catalog_filter_Ok:
  assumes "registry_built r" "try_map (catalog_filter n) (zip slugs (resolve_network r n slugs)) = Ok afs"
    and "f \<in> set afs"
  shows "lowercase_address (rf_contract_address f) \<and>
    (\<exists>m. metadata_from_resolved_filter f = Some m \<and> catalog_metadata r n (rf_contract_address f) = Some m \<and>
       tm_asset_slug m \<in> set slugs)"
proof -
  obtain c where c: "from_catalog c = Some (Ok r)" using assms(1) by (auto simp: registry_built_def)
  obtain slug q where q: "(slug, q) \<in> set (zip slugs (resolve_network r n slugs))" "catalog_filter n (slug, q) = Ok f"
    using try_map_Ok_set[OF assms(2,3)] by auto
  then obtain t a where t: "q = ResolvedTarget t" "tg_kind t = Erc20 a" "tg_asset_slug t = slug"
    "f = \<lparr>rf_contract_address = a, rf_asset_slug = Some slug, rf_symbol = Some (tg_symbol t),
       rf_decimals = Some (tg_decimals t), rf_source = SourceAssetSlug\<rparr>"
    using catalog_filter_OkD by blast
  have "ResolvedTarget t \<in> set (resolve_network r n slugs)" using q(1) t(1) set_zip_rightD by metis
  note m = resolved_is_metadata[OF c this t(2)]
  have "slug \<in> set slugs" using q(1) set_zip_leftD by metis
  then show ?thesis using m t by (auto simp: metadata_from_resolved_filter_def lowercase_address_def)
qed

lemma lower_filter_id: "lowercase_address (rf_contract_address f) \<Longrightarrow> lower_filter f = f"
  by (simp add: lower_filter_def lowercase_address_def)

lemma resolved_filter_metadata:
  assumes "registry_built r" "resolve_token_filters r n tokens = Ok fs" "f \<in> set fs"
    "metadata_from_resolved_filter f = Some m"
  shows "catalog_metadata r n (rf_contract_address f) = Some m"
proof -
  obtain afs where afs: "try_map (catalog_filter n) (zip (tf_asset_slugs tokens) (resolve_network r n (tf_asset_slugs tokens))) = Ok afs"
    "fs = keep_unseen rf_contract_address {} (map lower_filter (afs @ map contract_filter (tf_contract_addresses tokens)))"
    using assms(2) by (auto simp: resolve_token_filters_Ok)
  have "f \<in> lower_filter ` set afs \<union> lower_filter ` contract_filter ` set (tf_contract_addresses tokens)"
    using assms(3) keep_unseen_subset unfolding afs(2) by (fastforce simp: image_Un)
  moreover have "f \<notin> lower_filter ` contract_filter ` set (tf_contract_addresses tokens)"
    using assms(4) by (auto simp: metadata_from_resolved_filter_def lower_filter_def contract_filter_def)
  ultimately obtain g where "g \<in> set afs" "f = lower_filter g" by blast
  then have "g \<in> set afs" "f = g" using catalog_filter_Ok[OF assms(1) afs(1)] lower_filter_id by auto
  then show ?thesis using catalog_filter_Ok[OF assms(1) afs(1), of g] assms(4) by auto
qed

section \<open>Enrichment\<close>

lemma push_addresses:
  "foldl push_unique_address (acc, seen) as =
     (acc @ keep_unseen (\<lambda>a. a) seen (map to_ascii_lowercase as), seen \<union> to_ascii_lowercase ` set as)"
  by (induction "as" arbitrary: acc seen) (auto simp: push_unique_address_def insert_absorb Let_def)

lemma set_lookup_addresses:
  "set (collect_metadata_lookup_addresses plan extraction) =
     to_ascii_lowercase ` (rf_contract_address ` set (sp_resolved_token_filters plan) \<union> xr_token ` set (xe_rows extraction))"
proof -
  have "set (keep_unseen (\<lambda>a. a) seen xs) = set xs - seen" for seen and xs :: "string list"
    using set_keep_unseen[of "\<lambda>a. a" seen xs] by simp
  then show ?thesis by (auto simp: collect_metadata_lookup_addresses_def push_addresses)
qed

lemma collect_metadata_SomeD:
  "collect_metadata ms a = Some m \<Longrightarrow> m \<in> set ms \<and> tm_contract_address m = a"
  by (induction ms rule: rev_induct) (auto simp: collect_metadata_def split: if_splits)

lemma collect_metadata_filter:
  assumes "\<And>a m. a \<in> set as \<Longrightarrow> M a = Some m \<Longrightarrow> tm_contract_address m = a"
  shows "collect_metadata (List.map_filter M as) x = (if x \<in> set as then M x else None)"
  using assms
proof (induction "as" rule: rev_induct)
  case Nil
  then show ?case by (simp add: collect_metadata_def map_filter_simps)
next
  case (snoc a as)
  then show ?case
    by (cases "M a") (auto simp: collect_metadata_def map_filter_def)
qed

lemma map_filter_agree: "(\<And>x. x \<in> set xs \<Longrightarrow> f x = g x) \<Longrightarrow> List.map_filter f xs = List.map_filter g xs"
  by (induction xs) (auto simp: map_filter_simps split: option.splits)

lemma add_metadata_catalog:
  assumes "registry_built r"
  shows "add_metadata r n M a = Ok (case M a of Some m \<Rightarrow> M | None \<Rightarrow> M(a := catalog_metadata r n a))"
proof (cases "erc20_metadata r n a")
  case None
  then show ?thesis by (auto simp: add_metadata_def catalog_metadata_def fun_upd_idem split: option.splits)
next
  case (Some md)
  obtain c where c: "from_catalog c = Some (Ok r)" using assms by (auto simp: registry_built_def)
  then have "em_mapping md \<in> set (cat_asset_chain_maps c)" using Some erc20_metadata_iff[OF c] by blast
  then obtain d where "cm_decimals (em_mapping md) = Some d" "0 \<le> d" "d \<le> 255"
    using mapping_decimals[OF registry_fields(1)[OF c]] by blast
  then show ?thesis using Some
    by (auto simp: add_metadata_def catalog_metadata_def u8_try_from_def split: option.splits)
qed

lemma add_all_metadata:
  assumes "registry_built r"
  shows "try_fold (add_metadata r n) M as =
    Ok (\<lambda>a. case M a of Some m \<Rightarrow> Some m | None \<Rightarrow> if a \<in> set as then catalog_metadata r n a else None)"
proof (induction "as" arbitrary: M)
  case Nil
  show ?case by (auto simp: fun_eq_iff split: option.splits)
next
  case (Cons b bs)
  have "try_fold (add_metadata r n) M (b # bs) =
      try_fold (add_metadata r n) (case M b of Some m \<Rightarrow> M | None \<Rightarrow> M(b := catalog_metadata r n b)) bs"
    by (subst try_fold.simps, subst add_metadata_catalog[OF assms]) simp
  then show ?case unfolding Cons.IH by (auto simp: fun_eq_iff split: option.splits)
qed

lemma enrich_catalog:
  assumes "registry_built r"
    and "\<And>f m. f \<in> set (sp_resolved_token_filters plan) \<Longrightarrow> metadata_from_resolved_filter f = Some m \<Longrightarrow>
      catalog_metadata r (er_network_slug (sp_extraction_request plan)) (rf_contract_address f) = Some m"
    and "\<And>f. f \<in> set (sp_resolved_token_filters plan) \<Longrightarrow> to_ascii_lowercase (rf_contract_address f) = rf_contract_address f"
  fixes extraction :: erc20_transfer_extraction_result
  defines "catalog \<equiv> catalog_metadata r (er_network_slug (sp_extraction_request plan))"
    and "lookups \<equiv> collect_metadata_lookup_addresses plan extraction"
  shows "enrich_token_metadata plan extraction r =
    Ok (List.map_filter catalog lookups,
        plan\<lparr>sp_resolved_token_filters := map (enrich_filter catalog) (sp_resolved_token_filters plan)\<rparr>)"
proof -
  let ?fs = "sp_resolved_token_filters plan"
  let ?known = "collect_metadata (List.map_filter metadata_from_resolved_filter ?fs)"
  let ?M = "\<lambda>a. case ?known a of Some m \<Rightarrow> Some m | None \<Rightarrow> if a \<in> set lookups then catalog a else None"
  have known: "catalog a = Some m" if k: "?known a = Some m" for a m
  proof -
    obtain f where "f \<in> set ?fs" "metadata_from_resolved_filter f = Some m" "tm_contract_address m = a"
      using collect_metadata_SomeD[OF k] by (auto simp: in_map_filter)
    moreover from this have "rf_contract_address f = a"
      using assms(3) by (auto simp: metadata_from_resolved_filter_def bind_eq_Some_conv)
    ultimately show ?thesis using assms(2)[of f m] unfolding catalog_def by simp
  qed
  then have M: "?M a = catalog a" if "a \<in> set lookups" for a
    using that by (auto split: option.splits)
  have "List.map_filter ?M lookups = List.map_filter catalog lookups"
    by (rule map_filter_agree) (use M in simp)
  moreover have "map (enrich_filter ?M) ?fs = map (enrich_filter catalog) ?fs"
  proof (rule map_cong[OF refl])
    fix f assume "f \<in> set ?fs"
    then have "to_ascii_lowercase (rf_contract_address f) \<in> set lookups"
      by (auto simp: lookups_def set_lookup_addresses)
    then show "enrich_filter ?M f = enrich_filter catalog f" using M by (simp add: enrich_filter_def)
  qed
  moreover have "enrich_token_metadata plan extraction r =
      Ok (List.map_filter ?M lookups, plan\<lparr>sp_resolved_token_filters := map (enrich_filter ?M) ?fs\<rparr>)"
    unfolding enrich_token_metadata_def Let_def add_all_metadata[OF assms(1)] catalog_def lookups_def by simp
  ultimately show ?thesis by (simp only:)
qed

section \<open>Decimal amounts\<close>

lemma trim_trailing_value:
  assumes "is_decimal s"
  shows "is_decimal (trim_trailing_fractional_zeros s)" "dec_value (trim_trailing_fractional_zeros s) = dec_value s"
    "CHR ''.'' \<in> set (trim_trailing_fractional_zeros s) \<Longrightarrow> last (trim_trailing_fractional_zeros s) \<noteq> CHR ''0''"
proof -
  have "is_decimal (trim_trailing_fractional_zeros s) \<and> dec_value (trim_trailing_fractional_zeros s) = dec_value s \<and>
    (CHR ''.'' \<in> set (trim_trailing_fractional_zeros s) \<longrightarrow> last (trim_trailing_fractional_zeros s) \<noteq> CHR ''0'')"
  proof (cases "split_once CHR ''.'' s")
    case None
    then have "trim_trailing_fractional_zeros s = s" "CHR ''.'' \<notin> set s"
      by (simp_all add: trim_trailing_fractional_zeros_def) (simp add: split_once_None_iff)
    then show ?thesis using assms by simp
  next
    case (Some p)
    obtain a b where p: "p = (a, b)" by (cases p)
    then have d: "all_digits a" "all_digits b" "a \<noteq> []" "b \<noteq> []" "s = a @ CHR ''.'' # b"
      using assms Some by (auto simp: is_decimal_def split_once_Some_iff)
    have "trim_trailing_fractional_zeros s =
        trim_end_matches CHR ''.'' (trim_end_matches CHR ''0'' (a @ CHR ''.'' # b))"
    proof (cases "trim_end_matches CHR ''0'' b = []")
      case True
      then show ?thesis
        using trim_end_append[of "CHR ''0''" "a @ ''.''" b] all_digits_last[OF d(1,3)]
        by (simp add: trim_trailing_fractional_zeros_def Some p trim_end_matches_last)
    next
      case False
      moreover obtain k where "b = trim_end_matches CHR ''0'' b @ replicate k CHR ''0''" using trim_zeros_decompose by metis
      then have "all_digits (trim_end_matches CHR ''0'' b)" using d(2) by (metis all_digits_simps(3))
      ultimately show ?thesis
        using trim_end_append[of "CHR ''0''" "a @ ''.''" b] all_digits_last
        by (simp add: trim_trailing_fractional_zeros_def Some p trim_end_matches_last)
    qed
    then show ?thesis using trim_fraction[OF d(1-4)] d(5) by simp
  qed
  then show "is_decimal (trim_trailing_fractional_zeros s)" "dec_value (trim_trailing_fractional_zeros s) = dec_value s"
    "CHR ''.'' \<in> set (trim_trailing_fractional_zeros s) \<Longrightarrow> last (trim_trailing_fractional_zeros s) \<noteq> CHR ''0''"
    by simp_all
qed

lemma decimal_amount_exact:
  "case decimal_amount raw decimals of
     None \<Rightarrow> \<not> is_unsigned_integer raw
   | Some s \<Rightarrow> is_unsigned_integer raw \<and> is_decimal s \<and> dec_value s * 10 ^ decimals = of_nat (number_of_digits raw) \<and>
       (CHR ''.'' \<in> set s \<longrightarrow> last s \<noteq> CHR ''0'')"
proof (cases "is_unsigned_integer raw")
  case True
  then obtain s where "format_amount raw decimals = Ok s" "is_decimal s" "dec_value s = of_nat (number_of_digits raw) / 10 ^ decimals"
    using format_amount_value by blast
  then show ?thesis using trim_trailing_value[of s] True by (simp add: decimal_amount_def)
next
  case False
  then show ?thesis by (simp add: decimal_amount_def format_amount_def)
qed

section \<open>Plans and answers\<close>

text \<open>The addresses that a selection of slugs and contracts stands for.\<close>

definition selected_addresses :: "canonical_registry \<Rightarrow> string \<Rightarrow> string list \<Rightarrow> string list \<Rightarrow> string set" where
  "selected_addresses r n slugs contracts =
     set contracts \<union> {a. lowercase_address a \<and> (\<exists>m. catalog_metadata r n a = Some m \<and> tm_asset_slug m \<in> set slugs)}"

text \<open>The active rows of the catalog for a network, an asset and a deployment.\<close>

definition network_row :: "catalog \<Rightarrow> string \<Rightarrow> canonical_network \<Rightarrow> bool" where
  "network_row c n net \<longleftrightarrow> net \<in> set (cat_networks c) \<and> cn_slug net = n \<and> is_active (cn_status net)"

definition asset_row :: "catalog \<Rightarrow> string \<Rightarrow> canonical_asset \<Rightarrow> bool" where
  "asset_row c slug a \<longleftrightarrow> a \<in> set (cat_assets c) \<and> ca_slug a = slug \<and> is_active (ca_status a)"

definition mapping_row :: "catalog \<Rightarrow> string \<Rightarrow> string \<Rightarrow> canonical_asset_chain_map \<Rightarrow> bool" where
  "mapping_row c slug n m \<longleftrightarrow>
     m \<in> set (cat_asset_chain_maps c) \<and> cm_asset_slug m = slug \<and> cm_network_slug m = n \<and> is_active (cm_status m)"

text \<open>Why an asset cannot be searched for, in the order of the checks.\<close>

inductive asset_refused :: "catalog \<Rightarrow> string \<Rightarrow> string \<Rightarrow> erc20_transfer_search_error \<Rightarrow> bool" for c n slug where
  no_network: "\<nexists>net. network_row c n net \<Longrightarrow> asset_refused c n slug SeAssetNotAvailableOnNetwork"
| no_asset: "network_row c n net \<Longrightarrow> \<nexists>a. asset_row c slug a \<Longrightarrow> asset_refused c n slug SeAssetNotFound"
| not_deployed: "network_row c n net \<Longrightarrow> asset_row c slug a \<Longrightarrow> \<nexists>m. mapping_row c slug n m \<Longrightarrow>
    asset_refused c n slug SeAssetNotAvailableOnNetwork"
| other_family: "network_row c n net \<Longrightarrow> asset_row c slug a \<Longrightarrow> mapping_row c slug n m \<Longrightarrow> cn_family net \<noteq> ''evm'' \<Longrightarrow>
    asset_refused c n slug SeAssetNotAvailableOnNetwork"
| not_a_token: "network_row c n net \<Longrightarrow> asset_row c slug a \<Longrightarrow> mapping_row c slug n m \<Longrightarrow> cn_family net = ''evm'' \<Longrightarrow>
    cm_token_standard m \<noteq> ''erc20'' \<Longrightarrow> asset_refused c n slug SeAssetNotErc20OnNetwork"

lemma active_rows:
  assumes c: "from_catalog c = Some (Ok r)" and n: "to_ascii_lowercase n = n" and slug: "to_ascii_lowercase slug = slug"
  shows "active_network r n = Some net \<longleftrightarrow> network_row c n net"
    "(case asset_by_slug r slug of Some asset \<Rightarrow> if is_active (ca_status asset) then Some asset else None | None \<Rightarrow> None) = Some a \<longleftrightarrow>
       asset_row c slug a"
    "(case mapping_for r slug n of Some m \<Rightarrow> if is_active (cm_status m) then Some m else None | None \<Rightarrow> None) = Some m \<longleftrightarrow>
       mapping_row c slug n m"
proof -
  have f: "(case v of Some x \<Rightarrow> if P x then Some x else None | None \<Rightarrow> None) = Some y \<longleftrightarrow> v = Some y \<and> P y"
    for v :: "'x option" and P y by (cases v) auto
  show "active_network r n = Some net \<longleftrightarrow> network_row c n net"
    unfolding active_network_def f network_by_slug_iff[OF c] network_row_def n by blast
  show "(case asset_by_slug r slug of Some asset \<Rightarrow> if is_active (ca_status asset) then Some asset else None | None \<Rightarrow> None) = Some a \<longleftrightarrow>
       asset_row c slug a"
    unfolding f asset_by_slug_iff[OF c] asset_row_def slug by blast
  show "(case mapping_for r slug n of Some m \<Rightarrow> if is_active (cm_status m) then Some m else None | None \<Rightarrow> None) = Some m \<longleftrightarrow>
       mapping_row c slug n m"
    unfolding f mapping_for_iff[OF c] mapping_row_def slug n by blast
qed

lemma row_slugs: "network_row c n net \<Longrightarrow> cn_slug net = n" "asset_row c slug a \<Longrightarrow> ca_slug a = slug"
  by (simp_all add: network_row_def asset_row_def)

text \<open>An active mapping on an EVM network has a target, and its kind is that of its token standard.\<close>

lemma mapping_target:
  assumes "valid_catalog c" "network_row c n net" "mapping_row c slug n m" "cn_family net = ''evm''"
  shows "if cm_token_standard m = ''erc20''
    then \<exists>t address. target_from_mapping k (cn_chain_id net) a m = Some t \<and> tg_kind t = Erc20 address
    else case target_from_mapping k (cn_chain_id net) a m of None \<Rightarrow> True | Some t \<Rightarrow> tg_kind t = Native"
proof -
  have "m \<in> set (cat_asset_chain_maps c)" using assms(3) by (simp add: mapping_row_def)
  then obtain n' where v: "valid_mapping n' m" using mapping_references[OF assms(1)] by metis
  have "valid_network net" using assms(1,2) valid_catalog_rows(7) by (simp add: network_row_def)
  then obtain i where i: "cn_chain_id net = Some i" "i > 0" using assms(4) by (auto simp: valid_network_def)
  show ?thesis
    using v i by (auto simp: valid_mapping_def valid_deployment_def target_from_mapping_def positive_chain_id_def u8_try_from_def
        split: if_splits option.splits bind_splits)
qed

text \<open>The reason is unique, as the rows are.\<close>

lemma refused_exact:
  "\<nexists>net. network_row c n net \<Longrightarrow> asset_refused c n slug e \<longleftrightarrow> e = SeAssetNotAvailableOnNetwork"
  "network_row c n net \<Longrightarrow> \<nexists>a. asset_row c slug a \<Longrightarrow> asset_refused c n slug e \<longleftrightarrow> e = SeAssetNotFound"
  "network_row c n net \<Longrightarrow> asset_row c slug a \<Longrightarrow> \<nexists>m. mapping_row c slug n m \<Longrightarrow>
     asset_refused c n slug e \<longleftrightarrow> e = SeAssetNotAvailableOnNetwork"
  by (auto simp: asset_refused.simps)

lemma refused_mapped:
  assumes "network_row c n net" "\<And>x. network_row c n x \<Longrightarrow> x = net" "asset_row c slug a"
    and "mapping_row c slug n m" "\<And>x. mapping_row c slug n x \<Longrightarrow> x = m"
  shows "asset_refused c n slug e \<longleftrightarrow>
    (if cn_family net \<noteq> ''evm'' then e = SeAssetNotAvailableOnNetwork
     else cm_token_standard m \<noteq> ''erc20'' \<and> e = SeAssetNotErc20OnNetwork)"
proof
  assume "asset_refused c n slug e"
  then show "if cn_family net \<noteq> ''evm'' then e = SeAssetNotAvailableOnNetwork
     else cm_token_standard m \<noteq> ''erc20'' \<and> e = SeAssetNotErc20OnNetwork"
    by cases (use assms in auto)
next
  assume "if cn_family net \<noteq> ''evm'' then e = SeAssetNotAvailableOnNetwork
     else cm_token_standard m \<noteq> ''erc20'' \<and> e = SeAssetNotErc20OnNetwork"
  then show "asset_refused c n slug e"
    using other_family[OF assms(1,3,4)] not_a_token[OF assms(1,3,4)] by (cases "cn_family net = ''evm''") simp_all
qed

text \<open>The resolution of one asset over the three rows.\<close>

lemma resolve_one:
  assumes "from_catalog c = Some (Ok r)" "to_ascii_lowercase n = n" "to_ascii_lowercase slug = slug"
  shows "\<nexists>net. network_row c n net \<Longrightarrow> hd (resolve_network r n [slug]) = UnsupportedNetworkTarget n slug"
    "network_row c n net \<Longrightarrow> \<nexists>a. asset_row c slug a \<Longrightarrow> hd (resolve_network r n [slug]) = UnsupportedAssetTarget n slug"
    "network_row c n net \<Longrightarrow> asset_row c slug a \<Longrightarrow> \<nexists>m. mapping_row c slug n m \<Longrightarrow>
       hd (resolve_network r n [slug]) = UnsupportedPairTarget n slug"
    "network_row c n net \<Longrightarrow> asset_row c slug a \<Longrightarrow> mapping_row c slug n m \<Longrightarrow>
       hd (resolve_network r n [slug]) =
         (if cn_family net \<noteq> ''evm'' then UnsupportedNetworkTarget n slug
          else case target_from_mapping n (cn_chain_id net) a m of
            Some t \<Rightarrow> ResolvedTarget t | None \<Rightarrow> UnsupportedTokenStandardTarget n slug)"
proof -
  define network where "network = active_network r n"
  define asset where "asset =
    (case asset_by_slug r slug of Some asset \<Rightarrow> if is_active (ca_status asset) then Some asset else None | None \<Rightarrow> None)"
  define mapping where "mapping s k =
    (case mapping_for r s k of Some m \<Rightarrow> if is_active (cm_status m) then Some m else None | None \<Rightarrow> None)" for s k
  have R: "hd (resolve_network r n [slug]) = resolve_balance_target n \<lparr>bt_requested_asset_slug = slug, bt_network = network,
      bt_asset = asset, bt_mapping = (case (network, asset) of
        (Some x, Some a) \<Rightarrow> mapping (ca_slug a) (cn_slug x) | _ \<Rightarrow> None)\<rparr>"
    by (cases "active_network r n"; cases "asset_by_slug r slug")
       (simp_all add: resolve_network_def ordered_balance_targets_def Let_def network_def asset_def mapping_def)
  note rows = active_rows[OF assms, folded network_def asset_def, folded mapping_def]
  have none: "\<nexists>net. network_row c n net \<Longrightarrow> network = None" "\<nexists>a. asset_row c slug a \<Longrightarrow> asset = None"
    "\<nexists>m. mapping_row c slug n m \<Longrightarrow> mapping slug n = None"
    using rows by (metis option.exhaust)+
  show "hd (resolve_network r n [slug]) = UnsupportedNetworkTarget n slug" if "\<nexists>net. network_row c n net"
    unfolding R none(1)[OF that] by (simp add: resolve_balance_target_def)
  assume net: "network_row c n net"
  then have network: "network = Some net" using rows(1) by blast
  show "hd (resolve_network r n [slug]) = UnsupportedAssetTarget n slug" if "\<nexists>a. asset_row c slug a"
    unfolding R network none(2)[OF that] by (simp add: resolve_balance_target_def)
  assume a: "asset_row c slug a"
  then have asset: "asset = Some a" using rows(2) by blast
  note slugs = row_slugs(1)[OF net] row_slugs(2)[OF a]
  show "hd (resolve_network r n [slug]) = UnsupportedPairTarget n slug" if "\<nexists>m. mapping_row c slug n m"
    unfolding R network asset using none(3)[OF that] by (simp add: resolve_balance_target_def slugs)
  assume "mapping_row c slug n m"
  then have "mapping slug n = Some m" using rows(3) by blast
  then show "hd (resolve_network r n [slug]) =
         (if cn_family net \<noteq> ''evm'' then UnsupportedNetworkTarget n slug
          else case target_from_mapping n (cn_chain_id net) a m of
            Some t \<Rightarrow> ResolvedTarget t | None \<Rightarrow> UnsupportedTokenStandardTarget n slug)"
    unfolding R network asset by (simp add: resolve_balance_target_def slugs)
qed

lemma catalog_filter_Err_iff:
  assumes c: "from_catalog c = Some (Ok r)" "to_ascii_lowercase n = n" "to_ascii_lowercase slug = slug"
  shows "catalog_filter n (slug, hd (resolve_network r n [slug])) = Err e \<longleftrightarrow> asset_refused c n slug e"
proof -
  note rows = active_rows[OF c]
  have unique: "\<And>x y. network_row c n x \<Longrightarrow> network_row c n y \<Longrightarrow> y = x" "\<And>x y. mapping_row c slug n x \<Longrightarrow> mapping_row c slug n y \<Longrightarrow> y = x"
    using rows(1,3) by (metis option.inject)+
  consider "\<nexists>net. network_row c n net" | net where "network_row c n net" "\<nexists>a. asset_row c slug a"
    | net a where "network_row c n net" "asset_row c slug a" "\<nexists>m. mapping_row c slug n m"
    | net a m where "network_row c n net" "asset_row c slug a" "mapping_row c slug n m" by blast
  then show ?thesis
  proof cases
    case (4 net a m)
    have echo: "tg_network_slug t = n \<and> tg_asset_slug t = slug" if "target_from_mapping n (cn_chain_id net) a m = Some t" for t
      using target_from_mapping_SomeD[OF that] row_slugs(2)[OF 4(2)] by simp
    note t = mapping_target[OF registry_fields(1)[OF c(1)] 4(1,3), of n a]
    have "asset_refused c n slug e \<longleftrightarrow> (if cn_family net \<noteq> ''evm'' then e = SeAssetNotAvailableOnNetwork
       else cm_token_standard m \<noteq> ''erc20'' \<and> e = SeAssetNotErc20OnNetwork)"
      by (rule refused_mapped[OF 4(1) _ 4(2,3)]) (use unique 4 in blast)+
    then show ?thesis
      using resolve_one(4)[OF c 4] t echo
      by (cases "cn_family net = ''evm''"; cases "cm_token_standard m = ''erc20''"; cases "target_from_mapping n (cn_chain_id net) a m") auto
  qed (auto simp: resolve_one[OF c] refused_exact)
qed

lemma catalog_filters_addresses:
  assumes r: "registry_built r"
    and q: "try_map (catalog_filter n) (zip slugs (resolve_network r n slugs)) = Ok afs"
    and slugs: "\<forall>s\<in>set slugs. to_ascii_lowercase s = s"
  shows "rf_contract_address ` set afs = {a. lowercase_address a \<and> (\<exists>m. catalog_metadata r n a = Some m \<and> tm_asset_slug m \<in> set slugs)}"
proof -
  obtain c where c: "from_catalog c = Some (Ok r)" using r by (auto simp: registry_built_def)
  have "a \<in> rf_contract_address ` set afs"
    if a: "lowercase_address a" "catalog_metadata r n a = Some m" "tm_asset_slug m \<in> set slugs" for a m
  proof -
    obtain i where i: "i < length slugs" "slugs ! i = tm_asset_slug m" using a(3) by (auto simp: in_set_conv_nth)
    have len: "length (resolve_network r n slugs) = length slugs" by (rule resolver.by_slug_length)
    have f: "catalog_filter n (slugs ! i, resolve_network r n slugs ! i) = Ok (afs ! i)" "i < length afs"
      using try_map_Ok_nth[OF q, of i] try_map_Ok_length[OF q] i(1) len by simp_all
    then obtain t b where t: "resolve_network r n slugs ! i = ResolvedTarget t" "tg_kind t = Erc20 b"
      "rf_contract_address (afs ! i) = b"
      using catalog_filter_OkD by fastforce
    have "ResolvedTarget t \<in> set (resolve_network r n [slugs ! i])"
      using t(1) resolve_network_nth[OF i(1)] by (simp add: resolve_network_def ordered_balance_targets_def Let_def)
    from metadata_resolves[OF c this t(2) a(2)] have "to_ascii_lowercase a = b" using i slugs nth_mem by fastforce
    then show ?thesis using a(1) t(3) f(2) by (auto simp: lowercase_address_def)
  qed
  then show ?thesis using catalog_filter_Ok[OF r q] by blast
qed

lemma try_map_Err_nth:
  "try_map f xs = Err e \<Longrightarrow> \<exists>i < length xs. f (xs ! i) = Err e \<and> (\<forall>j < i. \<exists>y. f (xs ! j) = Ok y)"
proof (induction xs)
  case (Cons x xs)
  show ?case
  proof (cases "f x")
    case (Ok y)
    then obtain i where i: "i < length xs" "f (xs ! i) = Err e" "\<forall>j < i. \<exists>y. f (xs ! j) = Ok y"
      using Cons by (auto simp: and_then_Err_iff)
    have "\<exists>y. f ((x # xs) ! j) = Ok y" if "j < Suc i" for j using that Ok i(3) by (cases j) auto
    then show ?thesis using i by (intro exI[of _ "Suc i"]) auto
  next
    case (Err e')
    then show ?thesis using Cons.prems by (intro exI[of _ 0]) (simp add: and_then_Err_iff)
  qed
qed simp

lemma slug_filters:
  assumes c: "from_catalog c = Some (Ok r)" and n: "to_ascii_lowercase n = n" and slugs: "\<forall>s\<in>set slugs. to_ascii_lowercase s = s"
  shows "try_map (catalog_filter n) (zip slugs (resolve_network r n slugs)) = Ok afs \<Longrightarrow> s \<in> set slugs \<Longrightarrow> \<not> asset_refused c n s e"
    and "try_map (catalog_filter n) (zip slugs (resolve_network r n slugs)) = Err e' \<Longrightarrow>
      \<exists>i < length slugs. asset_refused c n (slugs ! i) e' \<and> (\<forall>j < i. \<forall>d. \<not> asset_refused c n (slugs ! j) d)"
proof -
  have len: "length (resolve_network r n slugs) = length slugs" by (rule resolver.by_slug_length)
  have nth: "catalog_filter n (zip slugs (resolve_network r n slugs) ! i) = Err d \<longleftrightarrow> asset_refused c n (slugs ! i) d"
    if "i < length slugs" for i d
    using catalog_filter_Err_iff[OF c n, of "slugs ! i" d] that slugs len by (simp add: resolve_network_nth)
  show "\<not> asset_refused c n s e" if q: "try_map (catalog_filter n) (zip slugs (resolve_network r n slugs)) = Ok afs" "s \<in> set slugs"
  proof -
    obtain i where i: "i < length slugs" "slugs ! i = s" using q(2) unfolding in_set_conv_nth by blast
    then show ?thesis using try_map_Ok_nth[OF q(1), of i] nth[OF i(1), of e] len by simp
  qed
  show "\<exists>i < length slugs. asset_refused c n (slugs ! i) e' \<and> (\<forall>j < i. \<forall>d. \<not> asset_refused c n (slugs ! j) d)"
    if q: "try_map (catalog_filter n) (zip slugs (resolve_network r n slugs)) = Err e'"
  proof -
    obtain i where i: "i < length slugs" "catalog_filter n (zip slugs (resolve_network r n slugs) ! i) = Err e'"
      "\<forall>j < i. \<exists>y. catalog_filter n (zip slugs (resolve_network r n slugs) ! j) = Ok y"
      using try_map_Err_nth[OF q] len by auto
    have "\<not> asset_refused c n (slugs ! j) d" if "j < i" for j d
      using i(1,3) that nth[of j d] by (metis order_less_trans result.distinct(1))
    then show ?thesis using i nth by blast
  qed
qed

lemma resolved_filters:
  assumes r: "registry_built r" and slugs: "\<forall>s\<in>set (tf_asset_slugs tokens). to_ascii_lowercase s = s"
    and contracts: "\<forall>a\<in>set (tf_contract_addresses tokens). lowercase_address a"
    and fs: "resolve_token_filters r n tokens = Ok fs"
  shows "distinct (map rf_contract_address fs)" "\<forall>f\<in>set fs. lowercase_address (rf_contract_address f)"
    "rf_contract_address ` set fs = selected_addresses r n (tf_asset_slugs tokens) (tf_contract_addresses tokens)"
proof -
  obtain afs where q: "try_map (catalog_filter n) (zip (tf_asset_slugs tokens) (resolve_network r n (tf_asset_slugs tokens))) = Ok afs"
    and eq: "fs = keep_unseen rf_contract_address {} (map lower_filter (afs @ map contract_filter (tf_contract_addresses tokens)))"
    using fs by (auto simp: resolve_token_filters_Ok)
  show "distinct (map rf_contract_address fs)" unfolding eq by (rule distinct_keep_unseen)
  have "lower_filter f = f" if "f \<in> set (afs @ map contract_filter (tf_contract_addresses tokens))" for f
    using that catalog_filter_Ok[OF r q] contracts by (auto simp: contract_filter_def intro!: lower_filter_id)
  then have "map lower_filter (afs @ map contract_filter (tf_contract_addresses tokens)) =
      afs @ map contract_filter (tf_contract_addresses tokens)"
    by (rule map_idI)
  then show "rf_contract_address ` set fs = selected_addresses r n (tf_asset_slugs tokens) (tf_contract_addresses tokens)"
    using catalog_filters_addresses[OF r q slugs]
    by (auto simp: eq set_keep_unseen selected_addresses_def image_Un image_image contract_filter_def)
  then show "\<forall>f\<in>set fs. lowercase_address (rf_contract_address f)"
    using contracts by (auto simp: selected_addresses_def)
qed

lemma transfer_request_Ok:
  assumes "transfer_request_of object = Ok request" "erc20_transfer_search_input_from_request request = Ok input"
  shows "si_network_slug input = ''eth-mainnet''" "lowercase_address (si_address input)"
    "\<forall>s\<in>set (si_asset_slugs input). is_asset_slug s" "\<forall>a\<in>set (si_contract_addresses input). lowercase_address a"
proof -
  obtain account tokens where v: "validate_account_object (map_of object ''account'') SUPPORTED_ERC20_TRANSFER_NETWORK_SLUGS = Ok account"
    "validate_optional_token_filters (map_of object ''tokens'') = Ok tokens" "tr_account request = account" "tr_tokens request = tokens"
    using assms(1) by (auto simp: transfer_request_of_def and_then_Ok_iff)
  show "si_network_slug input = ''eth-mainnet''" "lowercase_address (si_address input)"
    using validate_account_Ok[OF v(1)] v(3) assms(2)
    by (auto simp: erc20_transfer_search_input_from_request_def Let_def and_then_Ok_iff SUPPORTED_ERC20_TRANSFER_NETWORK_SLUGS_def)
  have t: "\<forall>s\<in>set (ts_asset_slugs sel). is_asset_slug s" "\<forall>a\<in>set (ts_contract_addresses sel). lowercase_address a"
    if "tokens = Some sel" for sel
    using v(2) that
    by (auto simp: validate_optional_token_filters_def and_then_Ok_iff dest: validate_asset_slugs_Ok validate_contracts_Ok
        split: option.splits json.splits)
  then show "\<forall>s\<in>set (si_asset_slugs input). is_asset_slug s" "\<forall>a\<in>set (si_contract_addresses input). lowercase_address a"
    using assms(2) v(4)
    by (auto simp: erc20_transfer_search_input_from_request_def Let_def and_then_Ok_iff split: option.splits)
qed

text \<open>
  C37. A search that was accepted is planned for exactly the contracts the request selects, its own addresses and
  the deployments of its assets on the network, without repetition, in lower case and within the limit. The plan
  is refused exactly when the catalog refuses an asset or the limit is exceeded: the first asset that cannot be
  searched for gives the error, not found for an asset without an active row, not available on the network without
  an active deployment on an active EVM network, not an ERC-20 token for a deployment of another standard; and
  there are too many filters just if every asset can be searched for and the request selects more contracts than
  the limit. An inconsistency of the catalog is never reported.
\<close>

theorem transfer_plan_exact:
  assumes "from_catalog c = Some (Ok r)" "limit < 2 ^ 64 - 1"
    and "transfer_request_of object = Ok request" "erc20_transfer_search_input_from_request request = Ok input"
  shows "case build_search_plan input r limit of
      Ok plan \<Rightarrow>
        (let addresses = er_contract_addresses (sp_extraction_request plan) in
         distinct addresses \<and> length addresses \<le> limit \<and> (\<forall>a\<in>set addresses. lowercase_address a) \<and>
         set addresses = selected_addresses r (si_network_slug input) (si_asset_slugs input) (si_contract_addresses input)) \<and>
        (\<forall>s\<in>set (si_asset_slugs input). \<forall>e. \<not> asset_refused c (si_network_slug input) s e)
    | Err e \<Rightarrow>
        (\<exists>i < length (si_asset_slugs input). asset_refused c (si_network_slug input) (si_asset_slugs input ! i) e \<and>
           (\<forall>j < i. \<forall>d. \<not> asset_refused c (si_network_slug input) (si_asset_slugs input ! j) d)) \<or>
        (\<forall>s\<in>set (si_asset_slugs input). \<forall>d. \<not> asset_refused c (si_network_slug input) s d) \<and> e = SeTooManyTokenFilters \<and>
        limit < card (selected_addresses r (si_network_slug input) (si_asset_slugs input) (si_contract_addresses input))"
proof -
  note v = transfer_request_Ok[OF assms(3,4)]
  let ?n = "si_network_slug input" and ?slugs = "si_asset_slugs input"
  let ?tokens = "\<lparr>tf_asset_slugs = ?slugs, tf_contract_addresses = si_contract_addresses input\<rparr>"
  let ?selected = "selected_addresses r ?n ?slugs (si_contract_addresses input)"
  have r: "registry_built r" using assms(1) by (auto simp: registry_built_def)
  have lower: "\<forall>s\<in>set ?slugs. to_ascii_lowercase s = s" using v(3) asset_slug_lower by blast
  have n: "to_ascii_lowercase ?n = ?n" unfolding v(1) by code_simp
  show ?thesis
  proof (cases "resolve_token_filters r ?n ?tokens")
    case (Ok fs)
    note f = resolved_filters[OF r _ _ Ok, simplified, OF lower v(4)]
    have card: "card ?selected = length fs" using f(1,3) distinct_card[of "map rf_contract_address fs"] by simp
    obtain afs where "try_map (catalog_filter ?n) (zip ?slugs (resolve_network r ?n ?slugs)) = Ok afs"
      using Ok by (auto simp: resolve_token_filters_Ok)
    from slug_filters(1)[OF assms(1) n lower this] have all: "\<forall>s\<in>set ?slugs. \<forall>d. \<not> asset_refused c ?n s d" by blast
    show ?thesis
    proof (cases "length fs \<le> limit")
      case True
      then have "build_search_plan input r limit = Ok \<lparr>sp_extraction_request =
            \<lparr>er_network_slug = ?n, er_address = to_ascii_lowercase (si_address input), er_direction = si_direction input,
             er_window = si_window input, er_contract_addresses = map rf_contract_address fs\<rparr>,
          sp_requested_token_filters = ?tokens, sp_resolved_token_filters = fs\<rparr>"
        by (simp add: build_search_plan_def Ok enforce_token_filter_limit_def)
      moreover have "\<forall>a\<in>?selected. lowercase_address a" using f(2) unfolding f(3)[symmetric] by blast
      ultimately show ?thesis using f(1,3) True all by (simp add: Let_def)
    next
      case False
      then have "build_search_plan input r limit = Err SeTooManyTokenFilters"
        using assms(2) by (simp add: build_search_plan_def Ok enforce_token_filter_limit_def)
      then show ?thesis using all card False by simp
    qed
  next
    case (Err e)
    then have "try_map (catalog_filter ?n) (zip ?slugs (resolve_network r ?n ?slugs)) = Err e"
      by (auto simp: resolve_token_filters_def resolved_token_filters_from_catalog_def resolver.by_slug_length
          and_then_Err_iff split: if_splits)
    moreover have "build_search_plan input r limit = Err e" by (simp add: build_search_plan_def Err)
    ultimately show ?thesis using slug_filters(2)[OF assms(1) n lower] by simp
  qed
qed

definition search_object :: "json \<Rightarrow> json_object" where
  "search_object tokens =
     [(''account'', JObject [(''network_slug'', JString ''eth-mainnet''),
         (''address'', JString ''0xABCDEF0123456789abcdef0123456789ABCDEF01'')]),
      (''direction'', JString ''any''), (''tokens'', tokens),
      (''window'', JObject [(''from_block'', JInt 5), (''to_block'', JInt 9)])]"

definition search_input :: "string list \<Rightarrow> erc20_transfer_search_input" where
  "search_input contracts =
     \<lparr>si_network_slug = ''eth-mainnet'', si_address = ''0xabcdef0123456789abcdef0123456789abcdef01'',
      si_direction = DirectionAny, si_window = BlockRange \<lparr>bw_from_block = 5, bw_to_block = 9\<rparr>,
      si_asset_slugs = [], si_contract_addresses = contracts\<rparr>"

definition search_request :: "token_selector option \<Rightarrow> erc20_transfer_search_request" where
  "search_request tokens =
     \<lparr>tr_account = \<lparr>oq_network_slug = ''eth-mainnet'', oq_address = ''0xabcdef0123456789abcdef0123456789abcdef01'',
                    oq_client_ref = None\<rparr>,
      tr_direction = DirectionAny, tr_tokens = tokens, tr_window = DtoBlock 5 9\<rparr>"

lemma search_window: "validate_window (Some (JObject [(''from_block'', JInt 5), (''to_block'', JInt 9)])) = Ok (DtoBlock 5 9)"
  by (simp add: validate_window_def reject_unknown_window_fields_def WINDOW_FIELDS_def validate_block_window_def)

lemma search_request_of:
  "validate_optional_token_filters (Some j) = Ok tokens \<Longrightarrow> transfer_request_of (search_object j) = Ok (search_request tokens)"
proof -
  assume t: "validate_optional_token_filters (Some j) = Ok tokens"
  have a: "validate_account_object (Some (JObject [(''network_slug'', JString ''eth-mainnet''),
         (''address'', JString ''0xABCDEF0123456789abcdef0123456789ABCDEF01'')])) SUPPORTED_ERC20_TRANSFER_NETWORK_SLUGS =
      Ok (tr_account (search_request tokens))"
    unfolding search_request_def by code_simp
  show ?thesis
    using t a search_window
    by (simp add: transfer_request_of_def search_object_def reject_unknown_fields_def TOP_LEVEL_FIELDS_def
        direction_try_from_def) (simp add: search_request_def)
qed

text \<open>A search for an asset and its contract, which is one filter, and a search for an asset that is not a token.\<close>

lemma example_rows:
  "network_row example_catalog ''eth-mainnet'' example_network" "asset_row example_catalog ''usdc'' example_usdc"
  "asset_row example_catalog ''ethereum'' example_ether" "mapping_row example_catalog ''usdc'' ''eth-mainnet'' example_erc20"
  "mapping_row example_catalog ''ethereum'' ''eth-mainnet'' example_native"
proof -
  have s: "is_active ''active''" by (simp add: is_active_def)
  show "network_row example_catalog ''eth-mainnet'' example_network"
    unfolding network_row_def by (simp add: example_catalog_def) (simp add: example_network_def s)
  show "asset_row example_catalog ''usdc'' example_usdc" "asset_row example_catalog ''ethereum'' example_ether"
    unfolding asset_row_def by (simp_all add: example_catalog_def) (simp_all add: example_usdc_def example_ether_def s)
  show "mapping_row example_catalog ''usdc'' ''eth-mainnet'' example_erc20"
    "mapping_row example_catalog ''ethereum'' ''eth-mainnet'' example_native"
    unfolding mapping_row_def by (simp_all add: example_catalog_def) (simp_all add: example_erc20_def example_native_def s)
qed

lemma example_resolution:
  assumes r: "from_catalog example_catalog = Some (Ok r)"
  shows "resolve_network r ''eth-mainnet'' [''usdc''] = [ResolvedTarget \<lparr>tg_network_slug = ''eth-mainnet'', tg_chain_id = 1,
      tg_asset_slug = ''usdc'', tg_symbol = ca_symbol example_usdc, tg_name = ca_name example_usdc, tg_decimals = 6,
      tg_pricing_asset_slug = ''usdc'', tg_kind = Erc20 example_address\<rparr>]"
    "hd (resolve_network r ''eth-mainnet'' [''ethereum'']) = ResolvedTarget \<lparr>tg_network_slug = ''eth-mainnet'', tg_chain_id = 1,
      tg_asset_slug = ''ethereum'', tg_symbol = ca_symbol example_ether, tg_name = ca_name example_ether, tg_decimals = 18,
      tg_pricing_asset_slug = ''ethereum'', tg_kind = Native\<rparr>"
proof -
  have l: "to_ascii_lowercase ''eth-mainnet'' = ''eth-mainnet''" "to_ascii_lowercase ''usdc'' = ''usdc''"
    "to_ascii_lowercase ''ethereum'' = ''ethereum''" by code_simp+
  have t: "target_from_mapping ''eth-mainnet'' (cn_chain_id example_network) example_usdc example_erc20 =
      Some \<lparr>tg_network_slug = ''eth-mainnet'', tg_chain_id = 1,
      tg_asset_slug = ''usdc'', tg_symbol = ca_symbol example_usdc, tg_name = ca_name example_usdc, tg_decimals = 6,
      tg_pricing_asset_slug = ''usdc'', tg_kind = Erc20 example_address\<rparr>"
    "target_from_mapping ''eth-mainnet'' (cn_chain_id example_network) example_ether example_native =
      Some \<lparr>tg_network_slug = ''eth-mainnet'', tg_chain_id = 1,
      tg_asset_slug = ''ethereum'', tg_symbol = ca_symbol example_ether, tg_name = ca_name example_ether, tg_decimals = 18,
      tg_pricing_asset_slug = ''ethereum'', tg_kind = Native\<rparr>"
    by (simp_all add: target_from_mapping_def positive_chain_id_def u8_try_from_def example_network_def example_erc20_def
        example_native_def example_usdc_def example_ether_def)
  have e: "cn_family example_network = ''evm''" by (simp add: example_network_def)
  have "length (resolve_network r ''eth-mainnet'' [''usdc'']) = 1" by (simp add: resolver.by_slug_length)
  then have one: "resolve_network r ''eth-mainnet'' [''usdc''] = [hd (resolve_network r ''eth-mainnet'' [''usdc''])]"
    by (cases "resolve_network r ''eth-mainnet'' [''usdc'']") auto
  show "resolve_network r ''eth-mainnet'' [''usdc''] = [ResolvedTarget \<lparr>tg_network_slug = ''eth-mainnet'', tg_chain_id = 1,
      tg_asset_slug = ''usdc'', tg_symbol = ca_symbol example_usdc, tg_name = ca_name example_usdc, tg_decimals = 6,
      tg_pricing_asset_slug = ''usdc'', tg_kind = Erc20 example_address\<rparr>]"
    using one resolve_one(4)[OF r l(1,2) example_rows(1,2,4)] t(1) e by simp
  show "hd (resolve_network r ''eth-mainnet'' [''ethereum'']) = ResolvedTarget \<lparr>tg_network_slug = ''eth-mainnet'', tg_chain_id = 1,
      tg_asset_slug = ''ethereum'', tg_symbol = ca_symbol example_ether, tg_name = ca_name example_ether, tg_decimals = 18,
      tg_pricing_asset_slug = ''ethereum'', tg_kind = Native\<rparr>"
    using resolve_one(4)[OF r l(1,3) example_rows(1,3,5)] t(2) e by simp
qed

lemma asset_search_input:
  assumes "validate_optional_token_filters (Some j) = Ok (Some \<lparr>ts_asset_slugs = slugs, ts_contract_addresses = contracts\<rparr>)"
  shows "\<exists>request. transfer_request_of (search_object j) = Ok request \<and>
    erc20_transfer_search_input_from_request request = Ok ((search_input contracts)\<lparr>si_asset_slugs := slugs\<rparr>)"
  using search_request_of[OF assms]
  by (simp add: erc20_transfer_search_input_from_request_def search_request_def search_input_def block_window_new_def)

theorem transfer_plan_exact_witness:
  "\<exists>r request request' plan. from_catalog example_catalog = Some (Ok r) \<and>
     transfer_request_of (search_object (JObject [(''asset_slugs'', JArray [JString ''usdc'']),
       (''contract_addresses'', JArray [JString example_address])])) = Ok request \<and>
     erc20_transfer_search_input_from_request request = Ok ((search_input [example_address])\<lparr>si_asset_slugs := [''usdc'']\<rparr>) \<and>
     build_search_plan ((search_input [example_address])\<lparr>si_asset_slugs := [''usdc'']\<rparr>) r 1 = Ok plan \<and>
     er_contract_addresses (sp_extraction_request plan) = [example_address] \<and>
     selected_addresses r ''eth-mainnet'' [''usdc''] [example_address] = {example_address} \<and>
     transfer_request_of (search_object (JObject [(''asset_slugs'', JArray [JString ''ethereum''])])) = Ok request' \<and>
     erc20_transfer_search_input_from_request request' = Ok ((search_input [])\<lparr>si_asset_slugs := [''ethereum'']\<rparr>) \<and>
     build_search_plan ((search_input [])\<lparr>si_asset_slugs := [''ethereum'']\<rparr>) r 1 = Err SeAssetNotErc20OnNetwork \<and>
     asset_refused example_catalog ''eth-mainnet'' ''ethereum'' SeAssetNotErc20OnNetwork"
proof -
  let ?usdc = "(search_input [example_address])\<lparr>si_asset_slugs := [''usdc'']\<rparr>" and ?ether = "(search_input [])\<lparr>si_asset_slugs := [''ethereum'']\<rparr>"
  obtain r where r: "from_catalog example_catalog = Some (Ok r)" using from_catalog_valid[OF example_valid] by blast
  have t: "validate_optional_token_filters (Some (JObject [(''asset_slugs'', JArray [JString ''usdc'']),
       (''contract_addresses'', JArray [JString example_address])])) =
      Ok (Some \<lparr>ts_asset_slugs = [''usdc''], ts_contract_addresses = [example_address]\<rparr>)"
    "validate_optional_token_filters (Some (JObject [(''asset_slugs'', JArray [JString ''ethereum''])])) =
      Ok (Some \<lparr>ts_asset_slugs = [''ethereum''], ts_contract_addresses = []\<rparr>)" by code_simp+
  obtain request request' where q: "transfer_request_of (search_object (JObject [(''asset_slugs'', JArray [JString ''usdc'']),
       (''contract_addresses'', JArray [JString example_address])])) = Ok request"
    "erc20_transfer_search_input_from_request request = Ok ?usdc"
    "transfer_request_of (search_object (JObject [(''asset_slugs'', JArray [JString ''ethereum''])])) = Ok request'"
    "erc20_transfer_search_input_from_request request' = Ok ?ether"
    using asset_search_input[OF t(1)] asset_search_input[OF t(2)] by blast
  have l: "to_ascii_lowercase example_address = example_address" by code_simp
  let ?f = "\<lparr>rf_contract_address = example_address, rf_asset_slug = Some ''usdc'', rf_symbol = Some (ca_symbol example_usdc),
      rf_decimals = Some 6, rf_source = SourceAssetSlug\<rparr>"
  have "resolve_token_filters r ''eth-mainnet'' \<lparr>tf_asset_slugs = [''usdc''], tf_contract_addresses = [example_address]\<rparr> = Ok [?f]"
    by (simp add: resolve_token_filters_def resolved_token_filters_from_catalog_def example_resolution(1)[OF r]
        push_unique_token_filter_def contract_filter_def l)
  then obtain plan where p: "build_search_plan ?usdc r 1 = Ok plan"
    "er_contract_addresses (sp_extraction_request plan) = [example_address]"
    by (simp add: build_search_plan_def search_input_def enforce_token_filter_limit_def)
  have i: "si_network_slug ?usdc = ''eth-mainnet''" "si_network_slug ?ether = ''eth-mainnet''" "si_asset_slugs ?usdc = [''usdc'']"
    "si_asset_slugs ?ether = [''ethereum'']" "si_contract_addresses ?usdc = [example_address]" by (simp_all add: search_input_def)
  have sel: "selected_addresses r ''eth-mainnet'' [''usdc''] [example_address] = {example_address}"
    using transfer_plan_exact[OF r _ q(1,2), of 1] p by (simp add: Let_def i)
  have "resolve_network r ''eth-mainnet'' [''ethereum''] = [hd (resolve_network r ''eth-mainnet'' [''ethereum''])]"
    using resolver.by_slug_length[of r "''eth-mainnet''" "[''ethereum'']"] by (cases "resolve_network r ''eth-mainnet'' [''ethereum'']") auto
  then have "resolve_token_filters r ''eth-mainnet'' \<lparr>tf_asset_slugs = [''ethereum''], tf_contract_addresses = []\<rparr> = Err SeAssetNotErc20OnNetwork"
    using example_resolution(2)[OF r] by (simp add: resolve_token_filters_def resolved_token_filters_from_catalog_def)
  then have e: "build_search_plan ?ether r 1 = Err SeAssetNotErc20OnNetwork" by (simp add: build_search_plan_def search_input_def)
  have "asset_refused example_catalog ''eth-mainnet'' ''ethereum'' SeAssetNotErc20OnNetwork"
    using transfer_plan_exact[OF r _ q(3,4), of 1, unfolded e result.case i] by simp
  then show ?thesis using r q p sel e by blast
qed

text \<open>What the response says of a transfer.\<close>

definition amount_answers :: "string \<Rightarrow> nat \<Rightarrow> string option \<Rightarrow> bool" where
  "amount_answers raw decimals amount \<longleftrightarrow>
     (case amount of
        None \<Rightarrow> \<not> is_unsigned_integer raw
      | Some s \<Rightarrow> is_unsigned_integer raw \<and> is_decimal s \<and> dec_value s * 10 ^ decimals = of_nat (number_of_digits raw) \<and>
          (CHR ''.'' \<in> set s \<longrightarrow> last s \<noteq> CHR ''0''))"

definition row_answers ::
  "canonical_registry \<Rightarrow> string \<Rightarrow> string \<Rightarrow> erc20_transfer_extraction_row \<Rightarrow> erc20_transfer_row \<Rightarrow> bool" where
  "row_answers r n watched row dto \<longleftrightarrow>
     ew_block_number dto = xr_block_number row \<and> ew_tx_hash dto = xr_tx_hash row \<and> ew_log_index dto = xr_log_index row \<and>
     ew_from dto = xr_from row \<and> ew_to dto = xr_to row \<and> ea_raw (ew_amount dto) = xr_value row \<and>
     et_contract_address (ew_token dto) = to_ascii_lowercase (xr_token row) \<and>
     (case catalog_metadata r n (to_ascii_lowercase (xr_token row)) of
        None \<Rightarrow> et_asset_slug (ew_token dto) = None \<and> et_symbol (ew_token dto) = None \<and> et_decimals (ew_token dto) = None \<and>
          ea_decimal (ew_amount dto) = None
      | Some m \<Rightarrow> et_asset_slug (ew_token dto) = Some (tm_asset_slug m) \<and> et_symbol (ew_token dto) = Some (tm_symbol m) \<and>
          et_decimals (ew_token dto) = Some (tm_decimals m) \<and>
          amount_answers (xr_value row) (tm_decimals m) (ea_decimal (ew_amount dto))) \<and>
     (ew_direction dto = DirectionFrom \<longleftrightarrow> to_ascii_lowercase (xr_from row) = to_ascii_lowercase watched) \<and>
     (ew_direction dto = DirectionAny \<longleftrightarrow> to_ascii_lowercase watched \<notin> to_ascii_lowercase ` {xr_from row, xr_to row})"

lemma row_dto_answers:
  assumes "M (to_ascii_lowercase (xr_token row)) = catalog_metadata r n (to_ascii_lowercase (xr_token row))"
  shows "row_answers r n watched row (erc20_transfer_row_to_dto row watched M)"
  using decimal_amount_exact assms
  by (auto simp: row_answers_def amount_answers_def erc20_transfer_row_to_dto_def Let_def transfer_row_direction_def
      eq_ignore_ascii_case_def split: option.splits)

lemma execute_plan_exact:
  assumes r: "registry_built r" and plan: "build_search_plan input r limit = Ok plan"
    and x: "extractor (sp_extraction_request plan) = Ok extraction"
  defines "n \<equiv> er_network_slug (sp_extraction_request plan)"
  shows "\<exists>result. execute_search_plan plan r extractor = Ok result \<and> sr_extraction result = extraction \<and>
    sp_extraction_request (sr_plan result) = sp_extraction_request plan \<and>
    (\<forall>row\<in>set (xe_rows extraction).
       collect_metadata (sr_token_metadata result) (to_ascii_lowercase (xr_token row)) =
       catalog_metadata r n (to_ascii_lowercase (xr_token row)))"
proof -
  let ?lookups = "collect_metadata_lookup_addresses plan extraction"
  obtain tokens fs where fs: "resolve_token_filters r n tokens = Ok fs" "sp_resolved_token_filters plan = fs"
    using plan by (auto simp: build_search_plan_def Let_def and_then_Ok_iff n_def)
  then have "set fs \<subseteq> range lower_filter" using keep_unseen_subset by (fastforce simp: resolve_token_filters_Ok)
  then have lower: "to_ascii_lowercase (rf_contract_address f) = rf_contract_address f" if "f \<in> set fs" for f
    using that by (auto simp: lower_filter_def to_ascii_lowercase_idem)
  have e: "enrich_token_metadata plan extraction r =
      Ok (List.map_filter (catalog_metadata r n) ?lookups,
          plan\<lparr>sp_resolved_token_filters := map (enrich_filter (catalog_metadata r n)) fs\<rparr>)"
    using enrich_catalog[OF r] resolved_filter_metadata[OF r fs(1)] lower fs(2) unfolding n_def by blast
  have "collect_metadata (List.map_filter (catalog_metadata r n) ?lookups) (to_ascii_lowercase (xr_token row)) =
      catalog_metadata r n (to_ascii_lowercase (xr_token row))" if "row \<in> set (xe_rows extraction)" for row
    using that by (auto simp: collect_metadata_filter catalog_metadata_address set_lookup_addresses)
  then show ?thesis by (simp add: execute_search_plan_def x e)
qed

text \<open>
  C38. Once a search was accepted, authorized and planned, the answer depends on the extractor alone: its error is
  answered as the corresponding error, and its rows are all answered, in order, with the watched address's side
  of each transfer, the catalog's slug, symbol and decimals of the token and, when the raw amount is a number,
  the exact decimal amount without trailing zeros. The metadata never make the search fail.
\<close>

theorem transfers_answered:
  assumes "registry_built (ts_registry services)" "ts_bigwig services = Some extractor"
    and "ensure_json_content_type content_type = Ok ()" "parse_json_object_body from_slice body = Ok object"
    and "transfer_request_of object = Ok request" "erc20_transfer_search_input_from_request request = Ok input"
    and "require_network_scopes env state caller Erc20TransfersRead [si_network_slug input] = Ok ()"
    and "build_search_plan input (ts_registry services) (ts_max_token_filters services) = Ok plan"
  shows "case extractor (sp_extraction_request plan) of
      Err e \<Rightarrow> search_erc20_transfers from_slice env state services caller content_type body =
        Err (erc20_transfer_search_error_to_api_error (search_error_of_extraction e))
    | Ok extraction \<Rightarrow>
        \<exists>response. search_erc20_transfers from_slice env state services caller content_type body = Ok response \<and>
          list_all2 (row_answers (ts_registry services) (si_network_slug input) (si_address input))
            (xe_rows extraction) (es_transfers response) \<and>
          el_truncated (es_limits response) = xe_truncated extraction \<and>
          oq_client_ref (es_account response) = oq_client_ref (tr_account request)"
proof -
  have p: "er_network_slug (sp_extraction_request plan) = si_network_slug input"
    "er_address (sp_extraction_request plan) = si_address input"
    using assms(8) transfer_request_Ok(2)[OF assms(5,6)]
    by (auto simp: build_search_plan_def Let_def and_then_Ok_iff lowercase_address_def)
  show ?thesis
  proof (cases "extractor (sp_extraction_request plan)")
    case (Err e)
    then show ?thesis using assms by (simp add: search_erc20_transfers_def Let_def execute_search_plan_def)
  next
    case (Ok extraction)
    obtain result where result: "execute_search_plan plan (ts_registry services) extractor = Ok result"
      "sr_extraction result = extraction" "sp_extraction_request (sr_plan result) = sp_extraction_request plan"
      "\<And>row. row \<in> set (xe_rows extraction) \<Longrightarrow>
         collect_metadata (sr_token_metadata result) (to_ascii_lowercase (xr_token row)) =
         catalog_metadata (ts_registry services) (si_network_slug input) (to_ascii_lowercase (xr_token row))"
      using execute_plan_exact[OF assms(1,8), of extractor, OF Ok] p(1) by auto
    have "search_erc20_transfers from_slice env state services caller content_type body =
        Ok (erc20_transfer_search_response_from_result result (oq_client_ref (tr_account request)))"
      using assms result(1) by (simp add: search_erc20_transfers_def Let_def)
    then show ?thesis
      using result(2-4) p row_dto_answers
      by (simp add: Ok erc20_transfer_search_response_from_result_def Let_def list_all2_map2 list.rel_refl_strong)
  qed
qed

definition search_row :: erc20_transfer_extraction_row where
  "search_row = \<lparr>xr_block_number = 7, xr_tx_hash = ''0x01'', xr_log_index = 0, xr_token = example_address,
     xr_from = example_address, xr_to = ''0xABCDEF0123456789abcdef0123456789ABCDEF01'', xr_value = ''1500000''\<rparr>"

theorem transfers_answered_witness:
  "\<exists>r response. registry_built r \<and>
     search_erc20_transfers (\<lambda>_. Some (JObject (search_object JNull))) example_env example_state
       \<lparr>ts_registry = r, ts_max_token_filters = 10,
        ts_bigwig = Some (\<lambda>_. Ok \<lparr>xe_rows = [search_row], xe_truncated = True\<rparr>)\<rparr>
       None (Some ''application/json'') [] = Ok response \<and>
     list_all2 (row_answers r ''eth-mainnet'' ''0xabcdef0123456789abcdef0123456789abcdef01'') [search_row] (es_transfers response) \<and>
     el_truncated (es_limits response)"
proof -
  obtain r where r: "registry_built r" using from_catalog_valid[OF example_valid] by (auto simp: registry_built_def)
  let ?services = "\<lparr>ts_registry = r, ts_max_token_filters = 10,
        ts_bigwig = Some (\<lambda>_. Ok \<lparr>xe_rows = [search_row], xe_truncated = True\<rparr>)\<rparr>"
  have t: "validate_optional_token_filters (Some JNull) = Ok None" by code_simp
  have i: "erc20_transfer_search_input_from_request (search_request None) = Ok (search_input [])"
    by (simp add: erc20_transfer_search_input_from_request_def search_request_def search_input_def block_window_new_def)
  have h: "ensure_json_content_type (Some ''application/json'') = Ok ()" by code_simp
  have b: "parse_json_object_body (\<lambda>_. Some (JObject (search_object JNull))) [] = Ok (search_object JNull)"
    by (simp add: parse_json_object_body_def)
  obtain plan where p: "build_search_plan (search_input []) r 10 = Ok plan"
    by (simp add: build_search_plan_def search_input_def enforce_token_filter_limit_def resolve_token_filters_def)
  have s: "require_network_scopes example_env example_state None Erc20TransfersRead [si_network_slug (search_input [])] = Ok ()"
    by (simp add: require_network_scopes_def)
  show ?thesis
    using transfers_answered[of ?services "\<lambda>_. Ok \<lparr>xe_rows = [search_row], xe_truncated = True\<rparr>",
        OF _ _ h b search_request_of[OF t] i s, of plan] r p
    by (fastforce simp: search_input_def)
qed

end
