(* ===== verification/BalanceApi.thy ===== *)
theory BalanceApi
  imports Transfers
begin

text \<open>
  The balance endpoints: the presenter (\<open>src/adapters/http/presenters/balances.rs\<close>), the payloads
  (\<open>src/adapters/http/dto/balances.rs\<close>) and the handlers (\<open>src/adapters/http/routes/balances.rs\<close>), which chain the
  validation of theory \<open>Requests\<close>, the authorization of theory \<open>Auth\<close> and the balance service. \<open>None\<close> is a panic.
\<close>

section \<open>Payloads\<close>

datatype balance_response_status = StatusComplete | StatusPartial | StatusFailed

record balance_as_of_payload =
  ap_kind :: string
  ap_timestamp :: "string option"
  ap_block_number :: "string option"
  ap_observed_at :: "string option"

record balance_summary_payload =
  sm_requested_accounts :: nat
  sm_requested_assets :: nat
  sm_requested_resolution_items :: nat
  sm_positions_returned :: nat
  sm_skipped_items :: nat
  sm_failed_items :: nat

record balance_account_identity_payload =
  ip_network_slug :: string
  ip_address :: string
  ip_client_ref :: "string option"

record balance_block_payload =
  bk_number :: string
  bk_hash :: string
  bk_timestamp :: string

record balance_evidence_payload =
  ep_source :: string
  ep_network_slug :: string
  ep_block :: balance_block_payload
  ep_observed_at :: string

record balance_selector_payload =
  sl_kind :: string
  sl_value :: string

record balance_amount_payload =
  am_raw_amount :: string
  am_amount :: "string option"
  am_decimals :: "nat option"

datatype balance_quote_status = QuoteStatusAvailable | QuoteStatusUnavailable | QuoteStatusUnsupported

record balance_quote_payload =
  qp_status :: balance_quote_status
  qp_currency :: "string option"
  qp_unit_price :: "string option"
  qp_value :: "string option"
  qp_price_as_of :: "string option"

record balance_position_payload =
  po_selector :: balance_selector_payload
  po_network_slug :: string
  po_contract_address :: "string option"
  po_asset_slug :: "string option"
  po_symbol :: "string option"
  po_balance :: balance_amount_payload
  po_quote :: balance_quote_payload

record balance_skipped_payload =
  sk_network_slug :: string
  sk_asset_slug :: string
  sk_reason :: string

record balance_error_payload =
  ey_network_slug :: string
  ey_selector :: balance_selector_payload
  ey_contract_address :: "string option"
  ey_asset_slug :: "string option"
  ey_code :: string
  ey_message :: string

record balance_account_payload =
  pa_status :: balance_response_status
  pa_account :: balance_account_identity_payload
  pa_evidence :: "balance_evidence_payload option"
  pa_positions :: "balance_position_payload list"
  pa_skipped :: "balance_skipped_payload list"
  pa_errors :: "balance_error_payload list"

record single_balance_response =
  sn_ok :: bool
  sn_response_type :: string
  sn_status :: balance_response_status
  sn_as_of :: balance_as_of_payload
  sn_quote_currency :: string
  sn_account :: balance_account_identity_payload
  sn_evidence :: "balance_evidence_payload option"
  sn_positions :: "balance_position_payload list"
  sn_skipped :: "balance_skipped_payload list"
  sn_errors :: "balance_error_payload list"

record bulk_balance_response =
  bl_ok :: bool
  bl_response_type :: string
  bl_status :: balance_response_status
  bl_as_of :: balance_as_of_payload
  bl_quote_currency :: string
  bl_summary :: balance_summary_payload
  bl_accounts :: "balance_account_payload list"
  bl_errors :: "balance_error_payload list"

definition identity_payload_of :: "onchain_account \<Rightarrow> balance_account_identity_payload" where
  "identity_payload_of account =
     \<lparr>ip_network_slug = oa_network_slug account, ip_address = oa_address account, ip_client_ref = oa_client_ref account\<rparr>"

definition evidence_payload_of :: "balance_evidence \<Rightarrow> balance_evidence_payload" where
  "evidence_payload_of evidence =
     \<lparr>ep_source = ''bigwig'', ep_network_slug = ev_network_slug evidence,
      ep_block = \<lparr>bk_number = ev_block_number evidence, bk_hash = ev_block_hash evidence,
                  bk_timestamp = ev_block_timestamp evidence\<rparr>,
      ep_observed_at = ev_observed_at evidence\<rparr>"

fun selector_payload_of :: "balance_token_selector \<Rightarrow> balance_selector_payload" where
  "selector_payload_of (AssetSlug asset_slug) = \<lparr>sl_kind = ''asset_slug'', sl_value = asset_slug\<rparr>"
| "selector_payload_of (ContractAddress contract_address) =
     \<lparr>sl_kind = ''contract_address'', sl_value = contract_address\<rparr>"

section \<open>The presenter\<close>

fun target_contract_address :: "balance_target_kind \<Rightarrow> string option" where
  "target_contract_address Native = None"
| "target_contract_address (Erc20 contract_address) = Some contract_address"

fun error_text :: "balance_item_error_code \<Rightarrow> string \<times> string" where
  "error_text BalanceResolutionFailed =
     (''balance_resolution_failed'', ''Balance could not be resolved for this asset on this network.'')"
| "error_text BalanceProviderUnavailable =
     (''balance_provider_unavailable'', ''Balance is temporarily unavailable for this asset on this network.'')"
| "error_text PriceResolutionFailed = (''price_resolution_failed'', ''Quote could not be resolved for this asset.'')"
| "error_text PriceProviderUnavailable =
     (''price_provider_unavailable'', ''Quote is temporarily unavailable for this asset.'')"
| "error_text ItemInternalError = (''internal_error'', ''This balance item could not be processed.'')"

definition error_payload :: "resolved_balance_target \<Rightarrow> balance_item_error_code \<Rightarrow> balance_error_payload" where
  "error_payload target code =
     \<lparr>ey_network_slug = rt_network_slug target, ey_selector = selector_payload_of (rt_selector target),
      ey_contract_address = target_contract_address (rt_kind target), ey_asset_slug = rt_asset_slug target,
      ey_code = fst (error_text code), ey_message = snd (error_text code)\<rparr>"

definition empty_quote :: "balance_quote_status \<Rightarrow> balance_quote_payload" where
  "empty_quote status =
     \<lparr>qp_status = status, qp_currency = None, qp_unit_price = None, qp_value = None, qp_price_as_of = None\<rparr>"

fun present_quote ::
  "resolved_balance_target \<Rightarrow> balance_quote_outcome \<Rightarrow> balance_quote_payload \<times> balance_error_payload option" where
  "present_quote target (QuoteAvailable currency unit_price v price_as_of) =
     (\<lparr>qp_status = QuoteStatusAvailable, qp_currency = Some currency, qp_unit_price = Some unit_price,
       qp_value = Some v, qp_price_as_of = Some price_as_of\<rparr>, None)"
| "present_quote target (QuoteUnavailable code) = (empty_quote QuoteStatusUnavailable, Some (error_payload target code))"
| "present_quote target QuoteUnsupported = (empty_quote QuoteStatusUnsupported, None)"

fun present_as_of :: "as_of \<Rightarrow> balance_evidence_payload option \<Rightarrow> balance_as_of_payload" where
  "present_as_of Latest evidence =
     \<lparr>ap_kind = ''latest'', ap_timestamp = None, ap_block_number = None,
      ap_observed_at = map_option ep_observed_at evidence\<rparr>"
| "present_as_of (AsOfTimestamp timestamp) evidence =
     \<lparr>ap_kind = ''timestamp'', ap_timestamp = Some timestamp, ap_block_number = None, ap_observed_at = None\<rparr>"
| "present_as_of (AsOfBlockNumber block_number) evidence =
     \<lparr>ap_kind = ''block_number'', ap_timestamp = None, ap_block_number = Some block_number, ap_observed_at = None\<rparr>"

record account_presentation_stats =
  ast_supported_balance_items :: nat
  ast_resolved_balance_items :: nat
  ast_failed_balance_items :: nat
  ast_degraded_quote :: bool

definition no_stats :: account_presentation_stats where
  "no_stats = \<lparr>ast_supported_balance_items = 0, ast_resolved_balance_items = 0, ast_failed_balance_items = 0,
     ast_degraded_quote = False\<rparr>"

definition record_resolved :: "account_presentation_stats \<Rightarrow> bool \<Rightarrow> account_presentation_stats" where
  "record_resolved stats degraded_quote =
     stats\<lparr>ast_supported_balance_items := ast_supported_balance_items stats + 1,
           ast_resolved_balance_items := ast_resolved_balance_items stats + 1,
           ast_degraded_quote := ast_degraded_quote stats \<or> degraded_quote\<rparr>"

definition record_failed :: "account_presentation_stats \<Rightarrow> account_presentation_stats" where
  "record_failed stats =
     stats\<lparr>ast_supported_balance_items := ast_supported_balance_items stats + 1,
           ast_failed_balance_items := ast_failed_balance_items stats + 1\<rparr>"

definition account_status :: "account_presentation_stats \<Rightarrow> balance_response_status" where
  "account_status stats =
     (if ast_supported_balance_items stats = 0 then StatusComplete
      else if ast_resolved_balance_items stats = 0 then StatusFailed
      else if ast_failed_balance_items stats > 0 \<or> ast_degraded_quote stats then StatusPartial
      else StatusComplete)"

text \<open>The four variables of the loop of \<open>present_account\<close>.\<close>

record presentation =
  pn_positions :: "balance_position_payload list"
  pn_skipped :: "balance_skipped_payload list"
  pn_errors :: "balance_error_payload list"
  pn_stats :: account_presentation_stats

fun present_item :: "presentation \<Rightarrow> balance_item_outcome \<Rightarrow> presentation" where
  "present_item p (BalanceResolved target raw_amount amount quote) =
     (case present_quote target quote of (payload, error) \<Rightarrow>
        p\<lparr>pn_stats := record_resolved (pn_stats p) (qp_status payload \<noteq> QuoteStatusAvailable),
          pn_errors := pn_errors p @ (case error of Some e \<Rightarrow> [e] | None \<Rightarrow> []),
          pn_positions := pn_positions p @
            [\<lparr>po_selector = selector_payload_of (rt_selector target), po_network_slug = rt_network_slug target,
              po_contract_address = target_contract_address (rt_kind target), po_asset_slug = rt_asset_slug target,
              po_symbol = rt_symbol target,
              po_balance = \<lparr>am_raw_amount = raw_amount, am_amount = amount, am_decimals = rt_decimals target\<rparr>,
              po_quote = payload\<rparr>]\<rparr>)"
| "present_item p (BalanceSkipped network_slug asset_slug) =
     p\<lparr>pn_skipped := pn_skipped p @ [\<lparr>sk_network_slug = network_slug, sk_asset_slug = asset_slug,
                                      sk_reason = ''asset_not_supported_on_network''\<rparr>]\<rparr>"
| "present_item p (BalanceFailed target code) =
     p\<lparr>pn_stats := record_failed (pn_stats p), pn_errors := pn_errors p @ [error_payload target code]\<rparr>"

record presented_account =
  pc_payload :: balance_account_payload
  pc_stats :: account_presentation_stats

definition present_account :: "balances_account_result \<Rightarrow> presented_account" where
  "present_account account =
     (let p = foldl present_item \<lparr>pn_positions = [], pn_skipped = [], pn_errors = [], pn_stats = no_stats\<rparr> (ba_items account) in
      \<lparr>pc_payload =
         \<lparr>pa_status = account_status (pn_stats p), pa_account = identity_payload_of (ba_account account),
          pa_evidence = map_option evidence_payload_of (ba_evidence account), pa_positions = pn_positions p,
          pa_skipped = pn_skipped p, pa_errors = pn_errors p\<rparr>,
       pc_stats = pn_stats p\<rparr>)"

record bulk_presentation_stats =
  bst_supported_balance_items :: nat
  bst_resolved_balance_items :: nat
  bst_failed_balance_items :: nat
  bst_positions_returned :: nat
  bst_skipped_items :: nat
  bst_has_degraded_account :: bool

definition add_account :: "bulk_presentation_stats \<Rightarrow> presented_account \<Rightarrow> bulk_presentation_stats" where
  "add_account stats account =
     \<lparr>bst_supported_balance_items = bst_supported_balance_items stats + ast_supported_balance_items (pc_stats account),
      bst_resolved_balance_items = bst_resolved_balance_items stats + ast_resolved_balance_items (pc_stats account),
      bst_failed_balance_items = bst_failed_balance_items stats + ast_failed_balance_items (pc_stats account),
      bst_positions_returned = bst_positions_returned stats + length (pa_positions (pc_payload account)),
      bst_skipped_items = bst_skipped_items stats + length (pa_skipped (pc_payload account)),
      bst_has_degraded_account = bst_has_degraded_account stats \<or> pa_status (pc_payload account) \<noteq> StatusComplete\<rparr>"

definition bulk_stats_from_accounts :: "presented_account list \<Rightarrow> bulk_presentation_stats" where
  "bulk_stats_from_accounts accounts =
     foldl add_account
       \<lparr>bst_supported_balance_items = 0, bst_resolved_balance_items = 0, bst_failed_balance_items = 0,
        bst_positions_returned = 0, bst_skipped_items = 0, bst_has_degraded_account = False\<rparr> accounts"

definition bulk_status :: "bulk_presentation_stats \<Rightarrow> balance_response_status" where
  "bulk_status stats =
     (if bst_supported_balance_items stats = 0 then StatusComplete
      else if bst_resolved_balance_items stats = 0 then StatusFailed
      else if bst_has_degraded_account stats then StatusPartial
      else StatusComplete)"

definition bulk_summary :: "bulk_presentation_stats \<Rightarrow> nat \<Rightarrow> nat \<Rightarrow> balance_summary_payload" where
  "bulk_summary stats requested_accounts requested_assets =
     \<lparr>sm_requested_accounts = requested_accounts, sm_requested_assets = requested_assets,
      sm_requested_resolution_items = min (requested_accounts * requested_assets) (2 ^ 64 - 1),
      sm_positions_returned = bst_positions_returned stats, sm_skipped_items = bst_skipped_items stats,
      sm_failed_items = bst_failed_balance_items stats\<rparr>"

datatype balances_response_presenter_error = ExpectedSingleAccount

definition present_single ::
  "get_balances_result \<Rightarrow> (single_balance_response, balances_response_presenter_error) result" where
  "present_single res =
     (case br_accounts res of
        [account] \<Rightarrow>
          (let payload = pc_payload (present_account account) in
           Ok \<lparr>sn_ok = True, sn_response_type = ''balances'', sn_status = pa_status payload,
               sn_as_of = present_as_of (br_as_of res) (pa_evidence payload),
               sn_quote_currency = br_quote_currency res, sn_account = pa_account payload,
               sn_evidence = pa_evidence payload, sn_positions = pa_positions payload,
               sn_skipped = pa_skipped payload, sn_errors = pa_errors payload\<rparr>)
      | _ \<Rightarrow> Err ExpectedSingleAccount)"

definition present_bulk :: "get_balances_result \<Rightarrow> bulk_balance_response" where
  "present_bulk res =
     (let accounts = map present_account (br_accounts res); stats = bulk_stats_from_accounts accounts in
      \<lparr>bl_ok = True, bl_response_type = ''balances_bulk'', bl_status = bulk_status stats,
       bl_as_of = present_as_of (br_as_of res) None, bl_quote_currency = br_quote_currency res,
       bl_summary = bulk_summary stats (length (br_accounts res)) (br_requested_token_count res),
       bl_accounts = map pc_payload accounts, bl_errors = []\<rparr>)"

section \<open>The handlers\<close>

fun balance_service_error_to_api_error :: "balance_snapshot_service_error \<Rightarrow> api_error" where
  "balance_service_error_to_api_error (SnapshotUnsupportedNetwork n) = api_unsupported_network"
| "balance_service_error_to_api_error (SnapshotUnsupportedAsset n a) = api_unsupported_asset"
| "balance_service_error_to_api_error (SnapshotRequestTooLarge n) = api_request_too_large"
| "balance_service_error_to_api_error (InvalidPlan n issue) = api_internal_error"
| "balance_service_error_to_api_error ExecutionTaskFailed = api_internal_error"

fun balance_assembler_error_to_api_error :: "balances_response_presenter_error \<Rightarrow> api_error" where
  "balance_assembler_error_to_api_error ExpectedSingleAccount = api_internal_error"

definition resolve_balances ::
  "balance_service \<Rightarrow> (nat list \<Rightarrow> nat option list) \<Rightarrow> get_balances_command \<Rightarrow>
   (get_balances_result, api_error) result option" where
  "resolve_balances sv schedule command =
     map_option (map_err balance_service_error_to_api_error) (resolve sv schedule command)"

definition resolve_single_balance ::
  "(string \<Rightarrow> json option) \<Rightarrow> request_env \<Rightarrow> http_state \<Rightarrow> balance_service \<Rightarrow> (nat list \<Rightarrow> nat option list) \<Rightarrow>
   api_key_principal option \<Rightarrow> string option \<Rightarrow> string \<Rightarrow> (single_balance_response, api_error) result option" where
  "resolve_single_balance from_slice env state sv schedule caller content_type body =
     (case and_then (single_request_from from_slice content_type body) single_command of
        Err e \<Rightarrow> Some (Err e)
      | Ok command \<Rightarrow>
          (case map_err response_error (require_network_scopes env state caller BalancesRead
                  (map oa_network_slug (gb_accounts command))) of
             Err e \<Rightarrow> Some (Err e)
           | Ok _ \<Rightarrow>
               map_option (\<lambda>outcome. and_then outcome (\<lambda>res.
                 map_err balance_assembler_error_to_api_error (present_single res)))
                 (resolve_balances sv schedule command)))"

definition resolve_bulk_balances ::
  "(string \<Rightarrow> json option) \<Rightarrow> request_env \<Rightarrow> http_state \<Rightarrow> balance_service \<Rightarrow> (nat list \<Rightarrow> nat option list) \<Rightarrow>
   api_key_principal option \<Rightarrow> string option \<Rightarrow> string \<Rightarrow> (bulk_balance_response, api_error) result option" where
  "resolve_bulk_balances from_slice env state sv schedule caller content_type body =
     (case and_then (bulk_request_from from_slice content_type body) bulk_command of
        Err e \<Rightarrow> Some (Err e)
      | Ok command \<Rightarrow>
          (case map_err response_error (require_network_scopes env state caller BalancesRead
                  (map oa_network_slug (gb_accounts command))) of
             Err e \<Rightarrow> Some (Err e)
           | Ok _ \<Rightarrow>
               map_option (\<lambda>outcome. and_then outcome (\<lambda>res. Ok (present_bulk res)))
                 (resolve_balances sv schedule command)))"

section \<open>What an account and a bulk answer tally\<close>

fun item_resolved :: "balance_item_outcome \<Rightarrow> bool" where
  "item_resolved (BalanceResolved t r a q) = True"
| "item_resolved _ = False"

fun item_skipped :: "balance_item_outcome \<Rightarrow> bool" where
  "item_skipped (BalanceSkipped n a) = True"
| "item_skipped _ = False"

fun item_failed :: "balance_item_outcome \<Rightarrow> bool" where
  "item_failed (BalanceFailed t c) = True"
| "item_failed _ = False"

fun item_degraded :: "balance_item_outcome \<Rightarrow> bool" where
  "item_degraded (BalanceResolved t r a (QuoteAvailable c u v p)) = False"
| "item_degraded (BalanceResolved t r a q) = True"
| "item_degraded _ = False"

definition tally :: "('a \<Rightarrow> bool) \<Rightarrow> 'a list \<Rightarrow> nat" where
  "tally P xs = length (filter P xs)"

text \<open>The status of a set of items, whatever accounts they belong to.\<close>

definition items_status :: "balance_item_outcome list \<Rightarrow> balance_response_status" where
  "items_status items =
     (if \<forall>i\<in>set items. item_skipped i then StatusComplete
      else if \<forall>i\<in>set items. \<not> item_resolved i then StatusFailed
      else if \<exists>i\<in>set items. item_failed i \<or> item_degraded i then StatusPartial
      else StatusComplete)"

lemma tally_simps [simp]:
  "tally P [] = 0"
  "tally P (x # xs) = (if P x then Suc (tally P xs) else tally P xs)"
  "tally P (xs @ ys) = tally P xs + tally P ys"
  by (simp_all add: tally_def)

lemma tally_zero: "tally P xs = 0 \<longleftrightarrow> (\<forall>x\<in>set xs. \<not> P x)"
  by (induction xs) auto

lemma tally_pos: "0 < tally P xs \<longleftrightarrow> (\<exists>x\<in>set xs. P x)"
  using tally_zero[of P xs] by auto

lemma item_partition: "tally item_resolved items + tally item_skipped items + tally item_failed items = length items"
proof (induction items)
  case (Cons i items)
  then show ?case by (cases i) auto
qed simp

lemma present_items:
  defines "q \<equiv> \<lambda>p items. foldl present_item p items"
  shows "length (pn_positions (q p items)) = length (pn_positions p) + tally item_resolved items"
    "length (pn_skipped (q p items)) = length (pn_skipped p) + tally item_skipped items"
    "ast_supported_balance_items (pn_stats (q p items)) =
       ast_supported_balance_items (pn_stats p) + tally item_resolved items + tally item_failed items"
    "ast_resolved_balance_items (pn_stats (q p items)) = ast_resolved_balance_items (pn_stats p) + tally item_resolved items"
    "ast_failed_balance_items (pn_stats (q p items)) = ast_failed_balance_items (pn_stats p) + tally item_failed items"
    "ast_degraded_quote (pn_stats (q p items)) \<longleftrightarrow> ast_degraded_quote (pn_stats p) \<or> (\<exists>i\<in>set items. item_degraded i)"
proof -
  have step: "foldl present_item p (i # items) = foldl present_item (present_item p i) items" for p i items by simp
  have "length (pn_positions (q p items)) = length (pn_positions p) + tally item_resolved items \<and>
    length (pn_skipped (q p items)) = length (pn_skipped p) + tally item_skipped items \<and>
    ast_supported_balance_items (pn_stats (q p items)) =
       ast_supported_balance_items (pn_stats p) + tally item_resolved items + tally item_failed items \<and>
    ast_resolved_balance_items (pn_stats (q p items)) = ast_resolved_balance_items (pn_stats p) + tally item_resolved items \<and>
    ast_failed_balance_items (pn_stats (q p items)) = ast_failed_balance_items (pn_stats p) + tally item_failed items \<and>
    (ast_degraded_quote (pn_stats (q p items)) \<longleftrightarrow> ast_degraded_quote (pn_stats p) \<or> (\<exists>i\<in>set items. item_degraded i))"
    unfolding q_def
  proof (induction items arbitrary: p)
    case (Cons i items)
    show ?case
    proof (cases i)
      case (BalanceResolved t r a quote)
      then show ?thesis using Cons[of "present_item p i"] by (cases quote) (auto simp: record_resolved_def empty_quote_def)
    next
      case (BalanceFailed t c)
      then show ?thesis using Cons[of "present_item p i"] by (auto simp: record_failed_def)
    qed (use Cons[of "present_item p i"] in auto)
  qed simp
  then show "length (pn_positions (q p items)) = length (pn_positions p) + tally item_resolved items"
    "length (pn_skipped (q p items)) = length (pn_skipped p) + tally item_skipped items"
    "ast_supported_balance_items (pn_stats (q p items)) =
       ast_supported_balance_items (pn_stats p) + tally item_resolved items + tally item_failed items"
    "ast_resolved_balance_items (pn_stats (q p items)) = ast_resolved_balance_items (pn_stats p) + tally item_resolved items"
    "ast_failed_balance_items (pn_stats (q p items)) = ast_failed_balance_items (pn_stats p) + tally item_failed items"
    "ast_degraded_quote (pn_stats (q p items)) \<longleftrightarrow> ast_degraded_quote (pn_stats p) \<or> (\<exists>i\<in>set items. item_degraded i)"
    by blast+
qed

lemma not_skipped: "item_skipped i \<longleftrightarrow> \<not> item_resolved i \<and> \<not> item_failed i"
  by (cases i) auto

lemma degraded_resolved: "item_degraded i \<Longrightarrow> item_resolved i"
  by (cases i) auto

lemma present_account_counts:
  defines "p \<equiv> present_account"
  shows "length (pa_positions (pc_payload (p b))) = tally item_resolved (ba_items b)"
    "length (pa_skipped (pc_payload (p b))) = tally item_skipped (ba_items b)"
    "ast_supported_balance_items (pc_stats (p b)) = tally item_resolved (ba_items b) + tally item_failed (ba_items b)"
    "ast_resolved_balance_items (pc_stats (p b)) = tally item_resolved (ba_items b)"
    "ast_failed_balance_items (pc_stats (p b)) = tally item_failed (ba_items b)"
    "pa_status (pc_payload (p b)) = items_status (ba_items b)"
    "pa_account (pc_payload (p b)) = identity_payload_of (ba_account b)"
  by (auto simp: p_def present_account_def Let_def present_items no_stats_def account_status_def items_status_def tally_zero tally_pos
      not_skipped dest: degraded_resolved)

lemma bulk_counts:
  "foldl add_account s (map present_account bs) =
     (let items = concat (map ba_items bs) in
      \<lparr>bst_supported_balance_items = bst_supported_balance_items s + tally item_resolved items + tally item_failed items,
       bst_resolved_balance_items = bst_resolved_balance_items s + tally item_resolved items,
       bst_failed_balance_items = bst_failed_balance_items s + tally item_failed items,
       bst_positions_returned = bst_positions_returned s + tally item_resolved items,
       bst_skipped_items = bst_skipped_items s + tally item_skipped items,
       bst_has_degraded_account = bst_has_degraded_account s \<or> (\<exists>b\<in>set bs. items_status (ba_items b) \<noteq> StatusComplete)\<rparr>)"
  by (induction bs arbitrary: s) (simp_all add: Let_def add_account_def present_account_counts)

lemma bulk_status_items:
  "bulk_status (bulk_stats_from_accounts (map present_account bs)) = items_status (concat (map ba_items bs))"
proof -
  let ?items = "concat (map ba_items bs)"
  have "(\<exists>b\<in>set bs. items_status (ba_items b) \<noteq> StatusComplete) \<longleftrightarrow> (\<exists>i\<in>set ?items. item_failed i \<or> item_degraded i)"
    by (auto simp: items_status_def not_skipped dest: degraded_resolved split: if_splits)
  then show ?thesis
    by (auto simp: bulk_status_def bulk_stats_from_accounts_def bulk_counts Let_def items_status_def tally_zero not_skipped
        simp del: set_concat)
qed

lemma partition_per_account:
  assumes "\<forall>b\<in>set bs. length (ba_items b) = n"
  defines "items \<equiv> concat (map ba_items bs)"
  shows "tally item_resolved items + tally item_skipped items + tally item_failed items = length bs * n"
proof -
  have "length items = length bs * n" using assms(1) unfolding items_def by (induction bs) auto
  then show ?thesis using item_partition[of items] by simp
qed

lemma present_bulk_exact:
  assumes "\<forall>b\<in>set (br_accounts res). length (ba_items b) = br_requested_token_count res"
    and "length (br_accounts res) * br_requested_token_count res < 2 ^ 64"
  shows "sm_positions_returned (bl_summary (present_bulk res)) + sm_skipped_items (bl_summary (present_bulk res)) +
      sm_failed_items (bl_summary (present_bulk res)) = sm_requested_resolution_items (bl_summary (present_bulk res))"
    "sm_requested_resolution_items (bl_summary (present_bulk res)) = length (br_accounts res) * br_requested_token_count res"
proof -
  note part = partition_per_account[OF assms(1)]
  show n: "sm_requested_resolution_items (bl_summary (present_bulk res)) = length (br_accounts res) * br_requested_token_count res"
    using assms(2) by (simp add: present_bulk_def Let_def bulk_summary_def)
  show "sm_positions_returned (bl_summary (present_bulk res)) + sm_skipped_items (bl_summary (present_bulk res)) +
      sm_failed_items (bl_summary (present_bulk res)) = sm_requested_resolution_items (bl_summary (present_bulk res))"
    unfolding n using part
    by (simp add: present_bulk_def Let_def bulk_summary_def bulk_stats_from_accounts_def bulk_counts)
qed

lemma resolve_shape:
  assumes "reports_each_task schedule" "resolve sv schedule c = Some (Ok res)"
  shows "map ba_account (br_accounts res) = gb_accounts c" "br_requested_token_count res = token_selector_len (gb_tokens c)"
    "br_quote_currency res = gb_quote_currency c" "br_as_of res = gb_as_of c"
    "\<forall>b\<in>set (br_accounts res). length (ba_items b) = token_selector_len (gb_tokens c)"
    "b \<in> set (br_accounts res) \<Longrightarrow> j < token_selector_len (gb_tokens c) \<Longrightarrow>
      item_answers (oa_network_slug (ba_account b)) (gb_tokens c) j (ba_items b ! j)"
proof -
  obtain raw where raw: "length (br_accounts res) = length (gb_accounts c)"
    "\<forall>j<length (br_accounts res). account_answer sv c (load_quotes sv c raw) j (br_accounts res ! j)"
    using resolve_outcome[OF assms(1), of sv c] assms(2) by (auto split: result.splits if_splits)
  show "map ba_account (br_accounts res) = gb_accounts c"
    using raw account_answer_items(1) by (intro nth_equalityI) auto
  show "br_requested_token_count res = token_selector_len (gb_tokens c)" "br_quote_currency res = gb_quote_currency c"
    "br_as_of res = gb_as_of c"
    using assms(2) by (auto simp: resolve_def bind_eq_Some_conv split: result.splits)
  have at: "\<exists>j. j < length (br_accounts res) \<and> br_accounts res ! j = b" if "b \<in> set (br_accounts res)" for b
    using that by (auto simp: in_set_conv_nth)
  then show "\<forall>b\<in>set (br_accounts res). length (ba_items b) = token_selector_len (gb_tokens c)"
    using raw(2) account_answer_items(2) by metis
  show "b \<in> set (br_accounts res) \<Longrightarrow> j < token_selector_len (gb_tokens c) \<Longrightarrow>
      item_answers (oa_network_slug (ba_account b)) (gb_tokens c) j (ba_items b ! j)"
    using at raw(2) account_answer_items(3) by metis
qed

lemma resolve_total:
  assumes "reports_each_task schedule"
  shows "resolve sv schedule c \<noteq> None"
  using resolve_outcome[OF assms, of sv c] by (auto split: result.splits if_splits)

section \<open>The answers\<close>

text \<open>
  C8. The bulk endpoint never panics, and an answer accounts for everything that was asked: its accounts are the
  accounts of the request in their order; positions, skipped and failed items add up to the number of accounts
  times the number of tokens, which the summary reports without saturating; and the status, computed from counters
  per account, is the status of the items of all accounts together: failed when some token is supported but no
  balance resolved, partial when a balance failed or is not quoted, and complete otherwise.
\<close>

theorem bulk_answer_complete:
  assumes "reports_each_task schedule"
  shows "case resolve_bulk_balances from_slice env state sv schedule caller content_type body of
      None \<Rightarrow> False
    | Some (Err e) \<Rightarrow> True
    | Some (Ok response) \<Rightarrow>
        \<exists>command res. and_then (bulk_request_from from_slice content_type body) bulk_command = Ok command \<and>
          require_network_scopes env state caller BalancesRead (map oa_network_slug (gb_accounts command)) = Ok () \<and>
          resolve sv schedule command = Some (Ok res) \<and>
          map pa_account (bl_accounts response) = map identity_payload_of (gb_accounts command) \<and>
          sm_positions_returned (bl_summary response) + sm_skipped_items (bl_summary response) +
            sm_failed_items (bl_summary response) = sm_requested_resolution_items (bl_summary response) \<and>
          sm_requested_resolution_items (bl_summary response) =
            length (gb_accounts command) * token_selector_len (gb_tokens command) \<and>
          bl_status response = items_status (concat (map ba_items (br_accounts res)))"
proof (cases "\<exists>response. resolve_bulk_balances from_slice env state sv schedule caller content_type body = Some (Ok response)")
  case True
  then obtain command res where c: "and_then (bulk_request_from from_slice content_type body) bulk_command = Ok command"
    "require_network_scopes env state caller BalancesRead (map oa_network_slug (gb_accounts command)) = Ok ()"
    "resolve sv schedule command = Some (Ok res)"
    "resolve_bulk_balances from_slice env state sv schedule caller content_type body = Some (Ok (present_bulk res))"
    by (auto simp: resolve_bulk_balances_def resolve_balances_def and_then_Ok_iff map_err_Ok_iff split: result.splits)
  note shape = resolve_shape[OF assms c(3)]
  have "length (gb_accounts command) \<le> MAX_ACCOUNTS" "token_selector_len (gb_tokens command) \<le> MAX_TOKENS"
    using c(1) try_new_Ok
    by (fastforce simp: and_then_Ok_iff bulk_command_def command_from_request_parts_def map_err_Ok_iff)+
  then have "length (gb_accounts command) * token_selector_len (gb_tokens command) \<le> 50 * 20"
    by (intro mult_le_mono) (simp_all add: MAX_ACCOUNTS_def MAX_TOKENS_def)
  then have "length (br_accounts res) * br_requested_token_count res < 2 ^ 64"
    using shape(2) by (simp flip: shape(1))
  then have p: "sm_positions_returned (bl_summary (present_bulk res)) + sm_skipped_items (bl_summary (present_bulk res)) +
      sm_failed_items (bl_summary (present_bulk res)) = sm_requested_resolution_items (bl_summary (present_bulk res))"
    "sm_requested_resolution_items (bl_summary (present_bulk res)) =
      length (gb_accounts command) * token_selector_len (gb_tokens command)"
    using present_bulk_exact(1,2)[of res] shape(2,5) by (simp_all flip: shape(1))
  have "map pa_account (bl_accounts (present_bulk res)) = map identity_payload_of (gb_accounts command)"
    by (simp add: present_bulk_def Let_def present_account_counts flip: shape(1))
  moreover have "bl_status (present_bulk res) = items_status (concat (map ba_items (br_accounts res)))"
    by (simp add: present_bulk_def Let_def bulk_status_items)
  ultimately show ?thesis unfolding c(4) option.case result.case using c(1-3) p by blast
next
  case False
  then show ?thesis using resolve_total[OF assms, of sv]
    by (auto simp: resolve_bulk_balances_def resolve_balances_def split: result.splits option.splits)
qed

text \<open>
  The single endpoint never panics and never meets a result with another number of accounts than one.
\<close>

theorem single_answer_complete:
  assumes "reports_each_task schedule"
    and "and_then (single_request_from from_slice content_type body) single_command = Ok command"
    and "require_network_scopes env state caller BalancesRead (map oa_network_slug (gb_accounts command)) = Ok ()"
  shows "case resolve sv schedule command of
      None \<Rightarrow> False
    | Some (Err e) \<Rightarrow> resolve_single_balance from_slice env state sv schedule caller content_type body =
        Some (Err (balance_service_error_to_api_error e))
    | Some (Ok res) \<Rightarrow>
        \<exists>response b. resolve_single_balance from_slice env state sv schedule caller content_type body = Some (Ok response) \<and>
          br_accounts res = [b] \<and> sn_account response = identity_payload_of (ba_account b) \<and>
          sn_status response = items_status (ba_items b) \<and>
          length (sn_positions response) + length (sn_skipped response) + tally item_failed (ba_items b) =
            token_selector_len (gb_tokens command)"
proof (cases "resolve sv schedule command")
  case None
  then show ?thesis using resolve_total[OF assms(1)] by blast
next
  case (Some outcome)
  show ?thesis
  proof (cases outcome)
    case (Err e)
    then show ?thesis using Some assms(2,3) by (simp add: resolve_single_balance_def resolve_balances_def)
  next
    case (Ok res)
    have r: "resolve sv schedule command = Some (Ok res)" using Some Ok by simp
    note shape = resolve_shape[OF assms(1) r]
    have "length (gb_accounts command) = 1"
      using assms(2) try_new_Ok(1)
      by (fastforce simp: and_then_Ok_iff single_command_def command_from_request_parts_def map_err_Ok_iff)
    then have "length (br_accounts res) = 1" by (simp flip: shape(1))
    then obtain b where b: "br_accounts res = [b]" by (auto simp: length_Suc_conv)
    then show ?thesis
      using r assms(2,3) shape(5) item_partition[of "ba_items b"]
      by (simp add: resolve_single_balance_def resolve_balances_def present_single_def Let_def present_account_counts)
  qed
qed

definition offline_service :: balance_service where
  "offline_service = snapshot_service\<lparr>sv_bigwig := None\<rparr>"

definition offline_account :: onchain_account where
  "offline_account = \<lparr>oa_network_slug = ''eth-mainnet'', oa_address = ''0xabcdef0123456789abcdef0123456789abcdef01'',
     oa_client_ref = None\<rparr>"

definition offline_command :: get_balances_command where
  "offline_command = \<lparr>gb_as_of = AsOfBlockNumber ''123'', gb_accounts = [offline_account],
     gb_tokens = \<lparr>ts_asset_slugs = [''ethereum''], ts_contract_addresses = []\<rparr>, gb_quote_currency = ''USD''\<rparr>"

lemma offline_accepted:
  "and_then (bulk_request_from (\<lambda>_. Some (JObject bulk_object)) (Some ''application/json'') []) bulk_command = Ok offline_command"
proof -
  have r: "bulk_request_from (\<lambda>_. Some (JObject bulk_object)) (Some ''application/json'') [] =
    Ok \<lparr>bb_as_of = \<lparr>aor_kind = ''block_number'', aor_timestamp = None, aor_block_number = Some ''123''\<rparr>,
    bb_accounts = [\<lparr>oq_network_slug = ''eth-mainnet'', oq_address = ''0xabcdef0123456789abcdef0123456789abcdef01'', oq_client_ref = None\<rparr>],
    bb_quote_currency = ''usd'', bb_tokens = \<lparr>ts_asset_slugs = [''ethereum''], ts_contract_addresses = []\<rparr>\<rparr>"
    by code_simp
  have addr: "is_evm_address ''0xabcdef0123456789abcdef0123456789abcdef01''" by code_simp
  have cur: "to_ascii_uppercase (trim ''usd'') = ''USD''" by code_simp
  show ?thesis
    by (simp add: r bulk_command_def command_from_request_parts_def as_of_try_from_def try_new_def addr cur
        is_ascii_digit_def checked_mul_usize_def account_of_request_def MAX_ACCOUNTS_def MAX_TOKENS_def
        MAX_RESOLUTION_ITEMS_def offline_command_def offline_account_def)
qed

lemma offline_planned: "\<exists>plan. plan_groups snapshot_registry offline_command = Ok [plan]"
proof -
  have g: "group_accounts [offline_account] =
     [\<lparr>gp_network_slug = ''eth-mainnet'', gp_accounts = [\<lparr>ga_original_index = 0, ga_account = offline_account\<rparr>]\<rparr>]"
    by code_simp
  show ?thesis
    by (simp add: plan_groups_def offline_command_def g plan_group_def snapshot_targets
      plan_network_group_def Let_def adopt_chain_id_def push_supported_def push_planned_target_def
      resolved_target_from_asset_selector_def BIGWIG_MAX_ACCOUNTS_def BIGWIG_MAX_TARGETS_def BIGWIG_MAX_ITEMS_def)
qed

lemma offline_resolved: "\<exists>res. resolve offline_service (\<lambda>xs. map Some (rev xs)) offline_command = Some (Ok res)"
proof -
  obtain plan where p: "plan_groups snapshot_registry offline_command = Ok [plan]" using offline_planned by blast
  have "spawned_groups offline_service [plan] = []"
    by (auto simp: spawned_groups_def initial_execution_def offline_service_def)
  then show ?thesis
    using resolve_outcome[OF last_first_reports, of offline_service offline_command] p
    by (auto simp: offline_service_def snapshot_service_def)
qed

theorem bulk_answer_complete_witness:
  "\<exists>response. resolve_bulk_balances (\<lambda>_. Some (JObject bulk_object)) example_env example_state offline_service
       (\<lambda>xs. map Some (rev xs)) None (Some ''application/json'') [] = Some (Ok response) \<and>
     sm_positions_returned (bl_summary response) + sm_skipped_items (bl_summary response) +
       sm_failed_items (bl_summary response) = 1"
proof -
  obtain res where res: "resolve offline_service (\<lambda>xs. map Some (rev xs)) offline_command = Some (Ok res)"
    using offline_resolved by blast
  have "resolve_bulk_balances (\<lambda>_. Some (JObject bulk_object)) example_env example_state offline_service
       (\<lambda>xs. map Some (rev xs)) None (Some ''application/json'') [] = Some (Ok (present_bulk res))"
    by (simp add: resolve_bulk_balances_def offline_accepted require_network_scopes_def resolve_balances_def res)
  moreover have "length (gb_accounts offline_command) = 1" "token_selector_len (gb_tokens offline_command) = 1"
    by (simp_all add: offline_command_def token_selector_len_def)
  ultimately show ?thesis
    using bulk_answer_complete[OF last_first_reports, where from_slice = "\<lambda>_. Some (JObject bulk_object)" and
        env = example_env and state = example_state and sv = offline_service and caller = None and
        content_type = "Some ''application/json''" and body = "[]"]
    by (auto simp: offline_accepted)
qed

end
