(* ===== verification/Workspaces.thy ===== *)
theory Workspaces
  imports Requests KeyStore
begin

text \<open>
  Workspaces: the repository (\<open>src/adapters/postgres/workspaces.rs\<close>) with the constraints of its tables
  (\<open>migrations/0011\<close> to \<open>0013\<close>), and the service in front of it (\<open>src/application/workspaces/mod.rs\<close>). As in
  theory \<open>KeyStore\<close> a table is a list of rows, in the order of insertion, and a transaction transforms the tables
  or leaves them as they are. The identifiers that are drawn at random, the text of an identifier, the function
  \<open>lower\<close> of the database and the clock are arguments.
\<close>

section \<open>Tables\<close>

record workspace =
  w_id :: uuid
  w_public_id :: string
  w_name :: string
  w_description :: "string option"
  w_status :: string

record workspace_member_address =
  m_id :: uuid
  m_public_id :: string
  m_network_slug :: string
  m_address :: string
  m_client_ref :: "string option"
  m_labels :: "string list"

record workspace_activity_event =
  e_public_id :: string
  e_event_type :: string
  e_actor_kind :: string
  e_payload_version :: int
  e_payload :: json
  e_occurred_at :: timestamp

record workspace_treasury_snapshot =
  t_public_id :: string
  t_requested_as_of :: json
  t_quote_currency :: string
  t_asset_slugs :: json
  t_payload :: json
  t_captured_at :: timestamp

record workspace_row =
  wr_row :: workspace
  wr_owner :: uuid
  wr_archived_at :: "timestamp option"
  wr_updated_at :: timestamp

record member_row =
  mr_id :: uuid
  mr_public_id :: string
  mr_workspace_id :: uuid
  mr_network_slug :: string
  mr_address :: string
  mr_client_ref :: "string option"

record label_row =
  lr_member_address_id :: uuid
  lr_label :: string

record activity_row =
  vr_id :: uuid
  vr_workspace_id :: uuid
  vr_event :: workspace_activity_event

record snapshot_row =
  sr_id :: uuid
  sr_workspace_id :: uuid
  sr_snapshot :: workspace_treasury_snapshot

record workspace_db =
  wd_accounts :: "uuid set"
  wd_networks :: "string set"
  wd_workspaces :: "workspace_row list"
  wd_members :: "member_row list"
  wd_labels :: "label_row list"
  wd_events :: "activity_row list"
  wd_snapshots :: "snapshot_row list"

datatype add_member_outcome = Added | AlreadyPresent | Inactive | LimitReached

definition BALANCE_NETWORKS :: "string list" where
  "BALANCE_NETWORKS = [''eth-mainnet'', ''base-mainnet'']"

text \<open>What a transaction draws: the identifiers of the rows it may insert, and the current time.\<close>

record draw =
  dr_id :: uuid
  dr_event_id :: uuid
  dr_now :: timestamp

text \<open>The environment: the simple and hyphenated texts of an identifier, and \<open>lower\<close> of the database.\<close>

record text_env =
  te_simple :: "uuid \<Rightarrow> string"
  te_hyphenated :: "uuid \<Rightarrow> string"
  te_lower :: "string \<Rightarrow> string"

section \<open>Events\<close>

definition event_types :: "string set" where
  "event_types = {''workspace.created'', ''workspace.renamed'', ''workspace.archived'', ''workspace.restored'',
     ''member_address.added'', ''member_address.label_added'', ''member_address.label_removed'',
     ''balance.observed'', ''transfer.observed''}"

definition append_event ::
  "text_env \<Rightarrow> draw \<Rightarrow> uuid \<Rightarrow> string \<Rightarrow> json \<Rightarrow> workspace_db \<Rightarrow> (workspace_db, repository_error) result" where
  "append_event env d workspace_id event_type payload db =
     (if event_type \<notin> event_types \<or> \<not> is_object payload \<or>
         dr_event_id d \<in> vr_id ` set (wd_events db) \<or>
         ''wae_'' @ te_simple env (dr_event_id d) \<in> (\<lambda>v. e_public_id (vr_event v)) ` set (wd_events db) \<or>
         workspace_id \<notin> (\<lambda>w. w_id (wr_row w)) ` set (wd_workspaces db)
      then Err DatabaseError
      else Ok (db\<lparr>wd_events := wd_events db @
        [\<lparr>vr_id = dr_event_id d, vr_workspace_id = workspace_id,
          vr_event = \<lparr>e_public_id = ''wae_'' @ te_simple env (dr_event_id d), e_event_type = event_type,
                      e_actor_kind = ''browser_session'', e_payload_version = 1, e_payload = payload,
                      e_occurred_at = dr_now d\<rparr>\<rparr>]\<rparr>))"

definition json_of_option :: "string option \<Rightarrow> json" where
  "json_of_option v = (case v of Some s \<Rightarrow> JString s | None \<Rightarrow> JNull)"

text \<open>A transaction whose statements failed is rolled back.\<close>

definition commit :: "workspace_db \<Rightarrow> ('a \<times> workspace_db, repository_error) result \<Rightarrow>
  ('a, repository_error) result \<times> workspace_db" where
  "commit db outcome = (case outcome of Ok (v, db') \<Rightarrow> (Ok v, db') | Err e \<Rightarrow> (Err e, db))"

section \<open>The repository\<close>

definition owned :: "uuid \<Rightarrow> string \<Rightarrow> workspace_row \<Rightarrow> bool" where
  "owned account_id public_id w \<longleftrightarrow> wr_owner w = account_id \<and> w_public_id (wr_row w) = public_id"

definition list_active :: "workspace_db \<Rightarrow> uuid \<Rightarrow> workspace list" where
  "list_active db account_id =
     map wr_row (sort_key (\<lambda>w. - wr_updated_at w)
       (filter (\<lambda>w. wr_owner w = account_id \<and> w_status (wr_row w) = ''active'') (wd_workspaces db)))"

text \<open>\<open>btrim\<close> of the check constraints: unlike \<open>str::trim\<close> it strips spaces only.\<close>

definition btrim :: "string \<Rightarrow> string" where
  "btrim s = rev (dropWhile (\<lambda>c. c = CHR '' '') (rev (dropWhile (\<lambda>c. c = CHR '' '') s)))"

definition workspace_checks :: "workspace \<Rightarrow> bool" where
  "workspace_checks w \<longleftrightarrow>
     btrim (w_name w) \<noteq> [] \<and> chars_count (btrim (w_name w)) \<le> 120 \<and>
     (case w_description w of None \<Rightarrow> True | Some d \<Rightarrow> chars_count d \<le> 1000) \<and> w_status w \<in> {''active'', ''archived''}"

definition create_workspace ::
  "text_env \<Rightarrow> draw \<Rightarrow> uuid \<Rightarrow> string \<Rightarrow> string option \<Rightarrow> workspace_db \<Rightarrow>
   (workspace, repository_error) result \<times> workspace_db" where
  "create_workspace env d account_id name description db =
     (let w = \<lparr>w_id = dr_id d, w_public_id = ''wsp_'' @ te_simple env (dr_id d), w_name = name,
               w_description = description, w_status = ''active''\<rparr> in
      commit db
        (if account_id \<notin> wd_accounts db \<or> \<not> workspace_checks w \<or>
            w_id w \<in> (\<lambda>w. w_id (wr_row w)) ` set (wd_workspaces db) \<or>
            w_public_id w \<in> (\<lambda>w. w_public_id (wr_row w)) ` set (wd_workspaces db) then Err DatabaseError
         else and_then (append_event env d (w_id w) ''workspace.created''
             (JObject [(''workspace'', JObject [(''name'', JString name), (''description'', json_of_option description)])])
             (db\<lparr>wd_workspaces := wd_workspaces db @
                [\<lparr>wr_row = w, wr_owner = account_id, wr_archived_at = None, wr_updated_at = dr_now d\<rparr>]\<rparr>)) (\<lambda>db'.
         Ok (w, db'))))"

definition find_owned :: "workspace_db \<Rightarrow> uuid \<Rightarrow> string \<Rightarrow> workspace option" where
  "find_owned db account_id public_id =
     map_option wr_row (find (owned account_id public_id) (wd_workspaces db))"

text \<open>\<open>update ... where ... returning id\<close>: the public identifier is unique, so at most one row is updated.\<close>

definition update_workspaces ::
  "(workspace_row \<Rightarrow> bool) \<Rightarrow> (workspace_row \<Rightarrow> workspace_row) \<Rightarrow> workspace_db \<Rightarrow> uuid option \<times> workspace_db" where
  "update_workspaces P f db =
     (map_option (\<lambda>w. w_id (wr_row w)) (find P (wd_workspaces db)),
      db\<lparr>wd_workspaces := map (\<lambda>w. if P w then f w else w) (wd_workspaces db)\<rparr>)"

definition rename_workspace ::
  "text_env \<Rightarrow> draw \<Rightarrow> uuid \<Rightarrow> string \<Rightarrow> string \<Rightarrow> workspace_db \<Rightarrow> (bool, repository_error) result \<times> workspace_db" where
  "rename_workspace env d account_id public_id name db =
     commit db
       (case update_workspaces (\<lambda>w. owned account_id public_id w \<and> w_status (wr_row w) = ''active'')
               (\<lambda>w. w\<lparr>wr_row := (wr_row w)\<lparr>w_name := name\<rparr>, wr_updated_at := dr_now d\<rparr>) db of
          (None, db') \<Rightarrow> Ok (False, db')
        | (Some i, db') \<Rightarrow>
            if btrim name = [] \<or> chars_count (btrim name) > 120 then Err DatabaseError
            else and_then (append_event env d i ''workspace.renamed''
                   (JObject [(''workspace'', JObject [(''name'', JString name)])]) db') (\<lambda>db''.
                 Ok (True, db'')))"

definition set_archived ::
  "text_env \<Rightarrow> draw \<Rightarrow> uuid \<Rightarrow> string \<Rightarrow> bool \<Rightarrow> workspace_db \<Rightarrow> (bool, repository_error) result \<times> workspace_db" where
  "set_archived env d account_id public_id archived db =
     (let target = if archived then ''archived'' else ''active'' in
      commit db
        (case update_workspaces (\<lambda>w. owned account_id public_id w \<and> w_status (wr_row w) \<noteq> target)
                (\<lambda>w. w\<lparr>wr_row := (wr_row w)\<lparr>w_status := target\<rparr>,
                       wr_archived_at := (if archived then Some (dr_now d) else None), wr_updated_at := dr_now d\<rparr>) db of
           (None, db') \<Rightarrow> Ok (False, db')
         | (Some i, db') \<Rightarrow>
             and_then (append_event env d i (if archived then ''workspace.archived'' else ''workspace.restored'')
               (JObject [(''workspace'', JObject [(''status'', JString target)])]) db') (\<lambda>db''.
             Ok (True, db''))))"

definition labels_of :: "workspace_db \<Rightarrow> uuid \<Rightarrow> string list" where
  "labels_of db member_id = map lr_label (filter (\<lambda>l. lr_member_address_id l = member_id) (wd_labels db))"

text \<open>\<open>array_agg(label order by label)\<close>; \<open>sort_labels\<close> is the order of the database.\<close>

definition member_of_row :: "(string list \<Rightarrow> string list) \<Rightarrow> workspace_db \<Rightarrow> member_row \<Rightarrow> workspace_member_address" where
  "member_of_row sort_labels db m =
     \<lparr>m_id = mr_id m, m_public_id = mr_public_id m, m_network_slug = mr_network_slug m, m_address = mr_address m,
      m_client_ref = mr_client_ref m, m_labels = sort_labels (labels_of db (mr_id m))\<rparr>"

definition members :: "(string list \<Rightarrow> string list) \<Rightarrow> workspace_db \<Rightarrow> uuid \<Rightarrow> workspace_member_address list" where
  "members sort_labels db workspace_id =
     map (member_of_row sort_labels db) (filter (\<lambda>m. mr_workspace_id m = workspace_id) (wd_members db))"

definition find_owned_member ::
  "(string list \<Rightarrow> string list) \<Rightarrow> workspace_db \<Rightarrow> uuid \<Rightarrow> string \<Rightarrow> string \<Rightarrow>
   (workspace \<times> workspace_member_address) option" where
  "find_owned_member sort_labels db account_id workspace_public_id member_public_id =
     (case find_owned db account_id workspace_public_id of
        None \<Rightarrow> None
      | Some workspace \<Rightarrow>
          map_option (\<lambda>m. (workspace, member_of_row sort_labels db m))
            (find (\<lambda>m. mr_workspace_id m = w_id workspace \<and> mr_public_id m = member_public_id) (wd_members db)))"

definition members_in :: "workspace_db \<Rightarrow> uuid \<Rightarrow> member_row list" where
  "members_in db workspace_id = filter (\<lambda>m. mr_workspace_id m = workspace_id) (wd_members db)"

definition member_checks :: "workspace_db \<Rightarrow> member_row \<Rightarrow> bool" where
  "member_checks db m \<longleftrightarrow>
     mr_id m \<notin> mr_id ` set (wd_members db) \<and> mr_public_id m \<notin> mr_public_id ` set (wd_members db) \<and>
     mr_network_slug m \<in> wd_networks db \<and> lowercase_address (mr_address m) \<and>
     (case mr_client_ref m of None \<Rightarrow> True | Some r \<Rightarrow> chars_count r \<le> 120)"

definition add_member ::
  "text_env \<Rightarrow> draw \<Rightarrow> uuid \<Rightarrow> string \<Rightarrow> string \<Rightarrow> string option \<Rightarrow> nat \<Rightarrow> workspace_db \<Rightarrow>
   (add_member_outcome, repository_error) result \<times> workspace_db" where
  "add_member env d workspace_id network_slug address client_ref maximum_members db =
     (let status = map_option (\<lambda>w. w_status (wr_row w)) (find (\<lambda>w. w_id (wr_row w) = workspace_id) (wd_workspaces db)) in
      commit db
        (if status \<noteq> Some ''active'' then Ok (Inactive, db)
         else if \<exists>m\<in>set (members_in db workspace_id). mr_network_slug m = network_slug \<and> mr_address m = address
         then Ok (AlreadyPresent, db)
         else if length (members_in db workspace_id) \<ge> maximum_members then Ok (LimitReached, db)
         else
           (let m = \<lparr>mr_id = dr_id d, mr_public_id = ''wma_'' @ te_simple env (dr_id d), mr_workspace_id = workspace_id,
                     mr_network_slug = network_slug, mr_address = address, mr_client_ref = client_ref\<rparr> in
            if \<not> member_checks db m then Err DatabaseError
            else and_then (append_event env d workspace_id ''member_address.added''
                (JObject [(''member'', JObject [(''public_id'', JString (mr_public_id m)),
                   (''network_slug'', JString network_slug), (''address'', JString address),
                   (''client_ref'', json_of_option client_ref)])])
                (db\<lparr>wd_members := wd_members db @ [m]\<rparr>)) (\<lambda>db'.
              Ok (Added, db')))))"

definition member_workspace :: "workspace_db \<Rightarrow> uuid \<Rightarrow> (uuid, repository_error) result" where
  "member_workspace db member_id =
     ok_or (map_option mr_workspace_id (find (\<lambda>m. mr_id m = member_id) (wd_members db))) RowNotFound"

definition label_payload :: "text_env \<Rightarrow> uuid \<Rightarrow> string \<Rightarrow> json" where
  "label_payload env member_id label =
     JObject [(''member_address_id'', JString (te_hyphenated env member_id)), (''label'', JString label)]"

text \<open>\<open>on conflict do nothing\<close>, for the primary key and for the index on the lower-case label.\<close>

definition add_label ::
  "text_env \<Rightarrow> draw \<Rightarrow> uuid \<Rightarrow> string \<Rightarrow> workspace_db \<Rightarrow> (unit, repository_error) result \<times> workspace_db" where
  "add_label env d member_id label db =
     commit db
       (and_then (member_workspace db member_id) (\<lambda>workspace_id.
        if te_lower env label \<in> te_lower env ` set (labels_of db member_id) then Ok ((), db)
        else if btrim label = [] \<or> chars_count (btrim label) > 64 then Err DatabaseError
        else and_then (append_event env d workspace_id ''member_address.label_added'' (label_payload env member_id label)
               (db\<lparr>wd_labels := wd_labels db @ [\<lparr>lr_member_address_id = member_id, lr_label = label\<rparr>]\<rparr>)) (\<lambda>db'.
             Ok ((), db'))))"

definition label_matches :: "text_env \<Rightarrow> uuid \<Rightarrow> string \<Rightarrow> label_row \<Rightarrow> bool" where
  "label_matches env member_id label l \<longleftrightarrow>
     lr_member_address_id l = member_id \<and> te_lower env (lr_label l) = te_lower env label"

definition remove_label ::
  "text_env \<Rightarrow> draw \<Rightarrow> uuid \<Rightarrow> string \<Rightarrow> workspace_db \<Rightarrow> (unit, repository_error) result \<times> workspace_db" where
  "remove_label env d member_id label db =
     commit db
       (and_then (member_workspace db member_id) (\<lambda>workspace_id.
        let rows_affected = length (filter (label_matches env member_id label) (wd_labels db));
            db' = db\<lparr>wd_labels := filter (\<lambda>l. \<not> label_matches env member_id label l) (wd_labels db)\<rparr> in
        if rows_affected = 1
        then and_then (append_event env d workspace_id ''member_address.label_removed'' (label_payload env member_id label) db')
               (\<lambda>db''. Ok ((), db''))
        else Ok ((), db')))"

definition append_observation ::
  "text_env \<Rightarrow> draw \<Rightarrow> uuid \<Rightarrow> string \<Rightarrow> json \<Rightarrow> workspace_db \<Rightarrow> (unit, repository_error) result \<times> workspace_db" where
  "append_observation env d workspace_id event_type payload db =
     commit db (and_then (append_event env d workspace_id event_type payload db) (\<lambda>db'. Ok ((), db')))"

text \<open>The timeline, latest first; \<open>before\<close> is the public identifier of an event of the workspace.\<close>

definition timeline_key :: "workspace_activity_event \<Rightarrow> timestamp \<times> string" where
  "timeline_key e = (e_occurred_at e, e_public_id e)"

definition list_activity :: "workspace_db \<Rightarrow> uuid \<Rightarrow> string option \<Rightarrow> nat \<Rightarrow> workspace_activity_event list" where
  "list_activity db workspace_id before limit =
     (let events = map vr_event (filter (\<lambda>v. vr_workspace_id v = workspace_id) (wd_events db));
          kept = (case before of
                    None \<Rightarrow> events
                  | Some public_id \<Rightarrow>
                      (case find (\<lambda>e. e_public_id e = public_id) events of
                         None \<Rightarrow> []
                       | Some b \<Rightarrow> filter (\<lambda>e. timeline_key e < timeline_key b) events)) in
      take limit (rev (sort_key timeline_key kept)))"

fun is_array :: "json \<Rightarrow> bool" where
  "is_array (JArray _) = True"
| "is_array _ = False"

definition list_treasury_snapshots :: "workspace_db \<Rightarrow> uuid \<Rightarrow> workspace_treasury_snapshot list" where
  "list_treasury_snapshots db workspace_id =
     rev (sort_key (\<lambda>t. (t_captured_at t, t_public_id t))
       (map sr_snapshot (filter (\<lambda>s. sr_workspace_id s = workspace_id) (wd_snapshots db))))"

definition create_treasury_snapshot ::
  "text_env \<Rightarrow> draw \<Rightarrow> uuid \<Rightarrow> json \<Rightarrow> string \<Rightarrow> json \<Rightarrow> json \<Rightarrow> workspace_db \<Rightarrow>
   (workspace_treasury_snapshot, repository_error) result \<times> workspace_db" where
  "create_treasury_snapshot env d workspace_id requested_as_of quote_currency asset_slugs payload db =
     (let t = \<lparr>t_public_id = ''wts_'' @ te_simple env (dr_id d), t_requested_as_of = requested_as_of,
               t_quote_currency = quote_currency, t_asset_slugs = asset_slugs, t_payload = payload,
               t_captured_at = dr_now d\<rparr> in
      if workspace_id \<notin> (\<lambda>w. w_id (wr_row w)) ` set (wd_workspaces db) \<or> \<not> is_object payload \<or>
         \<not> is_array asset_slugs \<or> dr_id d \<in> sr_id ` set (wd_snapshots db) \<or>
         t_public_id t \<in> (\<lambda>s. t_public_id (sr_snapshot s)) ` set (wd_snapshots db)
      then (Err DatabaseError, db)
      else (Ok t, db\<lparr>wd_snapshots := wd_snapshots db @ [\<lparr>sr_id = dr_id d, sr_workspace_id = workspace_id, sr_snapshot = t\<rparr>]\<rparr>))"

section \<open>The service\<close>

definition MAX_WORKSPACE_ADDRESSES :: nat where
  "MAX_WORKSPACE_ADDRESSES = 100"

definition MAX_ADDRESS_LABELS :: nat where
  "MAX_ADDRESS_LABELS = 20"

datatype workspace_input_error =
    InvalidName
  | InvalidDescription
  | InvalidMemberAddress
  | UnsupportedWorkspaceNetwork
  | InvalidClientRef
  | InvalidLabel
  | AddressLimit
  | LabelLimit

datatype workspace_service_error = Input workspace_input_error | Repository repository_error

definition normalize_required :: "string \<Rightarrow> nat \<Rightarrow> string option" where
  "normalize_required v maximum =
     (if trim v \<noteq> [] \<and> chars_count (trim v) \<le> maximum then Some (trim v) else None)"

definition normalize_optional :: "string option \<Rightarrow> nat \<Rightarrow> string option option" where
  "normalize_optional v maximum =
     (case v of
        None \<Rightarrow> Some None
      | Some s \<Rightarrow>
          if trim s = [] then Some None
          else if chars_count (trim s) \<le> maximum then Some (Some (trim s)) else None)"

definition service_create ::
  "text_env \<Rightarrow> draw \<Rightarrow> uuid \<Rightarrow> string \<Rightarrow> string option \<Rightarrow> workspace_db \<Rightarrow>
   (workspace, workspace_service_error) result \<times> workspace_db" where
  "service_create env d account_id name description db =
     (case normalize_required name 120 of
        None \<Rightarrow> (Err (Input InvalidName), db)
      | Some name \<Rightarrow>
          (case normalize_optional description 1000 of
             None \<Rightarrow> (Err (Input InvalidDescription), db)
           | Some description \<Rightarrow> map_prod (map_err Repository) (\<lambda>db. db) (create_workspace env d account_id name description db)))"

definition service_rename ::
  "text_env \<Rightarrow> draw \<Rightarrow> uuid \<Rightarrow> string \<Rightarrow> string \<Rightarrow> workspace_db \<Rightarrow> (bool, workspace_service_error) result \<times> workspace_db" where
  "service_rename env d account_id workspace_id name db =
     (case normalize_required name 120 of
        None \<Rightarrow> (Err (Input InvalidName), db)
      | Some name \<Rightarrow> map_prod (map_err Repository) (\<lambda>db. db) (rename_workspace env d account_id workspace_id name db))"

definition service_archive ::
  "text_env \<Rightarrow> draw \<Rightarrow> uuid \<Rightarrow> string \<Rightarrow> bool \<Rightarrow> workspace_db \<Rightarrow> (bool, repository_error) result \<times> workspace_db" where
  "service_archive env d account_id workspace_id archived db = set_archived env d account_id workspace_id archived db"

definition service_add_member ::
  "text_env \<Rightarrow> draw \<Rightarrow> workspace \<Rightarrow> string \<Rightarrow> string \<Rightarrow> string option \<Rightarrow> workspace_db \<Rightarrow>
   (bool, workspace_service_error) result \<times> workspace_db" where
  "service_add_member env d workspace network_slug address client_ref db =
     (if network_slug \<notin> set BALANCE_NETWORKS then (Err (Input UnsupportedWorkspaceNetwork), db)
      else
        let address = to_ascii_lowercase (trim address) in
        if \<not> is_evm_address address then (Err (Input InvalidMemberAddress), db)
        else
          (case normalize_optional client_ref 120 of
             None \<Rightarrow> (Err (Input InvalidClientRef), db)
           | Some client_ref \<Rightarrow>
               (case add_member env d (w_id workspace) network_slug address client_ref MAX_WORKSPACE_ADDRESSES db of
                  (Err e, db') \<Rightarrow> (Err (Repository e), db')
                | (Ok Added, db') \<Rightarrow> (Ok True, db')
                | (Ok AlreadyPresent, db') \<Rightarrow> (Ok False, db')
                | (Ok Inactive, db') \<Rightarrow> (Ok False, db')
                | (Ok LimitReached, db') \<Rightarrow> (Err (Input AddressLimit), db'))))"

definition service_add_label ::
  "text_env \<Rightarrow> draw \<Rightarrow> workspace \<Rightarrow> workspace_member_address \<Rightarrow> string \<Rightarrow> workspace_db \<Rightarrow>
   (unit, workspace_service_error) result \<times> workspace_db" where
  "service_add_label env d workspace member label db =
     (if w_status workspace \<noteq> ''active'' then (Ok (), db)
      else
        (case normalize_required label 64 of
           None \<Rightarrow> (Err (Input InvalidLabel), db)
         | Some label \<Rightarrow>
             if \<not> list_ex (\<lambda>existing. to_ascii_lowercase existing = to_ascii_lowercase label) (m_labels member) \<and>
                length (m_labels member) \<ge> MAX_ADDRESS_LABELS
             then (Err (Input LabelLimit), db)
             else map_prod (map_err Repository) (\<lambda>db. db) (add_label env d (m_id member) label db)))"

definition service_remove_label ::
  "text_env \<Rightarrow> draw \<Rightarrow> workspace \<Rightarrow> workspace_member_address \<Rightarrow> string \<Rightarrow> workspace_db \<Rightarrow>
   (unit, workspace_service_error) result \<times> workspace_db" where
  "service_remove_label env d workspace member label db =
     (if w_status workspace \<noteq> ''active'' then (Ok (), db)
      else
        (case normalize_required label 64 of
           None \<Rightarrow> (Err (Input InvalidLabel), db)
         | Some label \<Rightarrow> map_prod (map_err Repository) (\<lambda>db. db) (remove_label env d (m_id member) label db)))"

section \<open>Histories\<close>

text \<open>
  A step is a call of the service or of the repository by the handlers, with arguments of the caller's choice:
  the workspaces and members passed in may have been read at any earlier time. An operation that fails
  after its commit has the same effect as one that succeeds.
\<close>

inductive workspace_step :: "text_env \<Rightarrow> workspace_db \<Rightarrow> workspace_db \<Rightarrow> bool" for env where
  Create: "snd (service_create env d account_id name description db) = db' \<Longrightarrow> workspace_step env db db'"
| Rename: "snd (service_rename env d account_id public_id name db) = db' \<Longrightarrow> workspace_step env db db'"
| Archive: "snd (service_archive env d account_id public_id archived db) = db' \<Longrightarrow> workspace_step env db db'"
| AddMember: "snd (service_add_member env d w network_slug address client_ref db) = db' \<Longrightarrow> workspace_step env db db'"
| AddLabel: "snd (service_add_label env d w m label db) = db' \<Longrightarrow> workspace_step env db db'"
| RemoveLabel: "snd (service_remove_label env d w m label db) = db' \<Longrightarrow> workspace_step env db db'"
| Observe: "event_type \<in> {''balance.observed'', ''transfer.observed''} \<Longrightarrow>
    snd (append_observation env d i event_type payload db) = db' \<Longrightarrow> workspace_step env db db'"
| Snapshot: "snd (create_treasury_snapshot env d i requested_as_of quote_currency asset_slugs payload db) = db' \<Longrightarrow>
    workspace_step env db db'"

inductive workspace_history :: "text_env \<Rightarrow> workspace_db \<Rightarrow> bool" for env where
  Empty: "workspace_history env
    \<lparr>wd_accounts = accounts, wd_networks = networks, wd_workspaces = [], wd_members = [], wd_labels = [],
     wd_events = [], wd_snapshots = []\<rparr>"
| Step: "workspace_history env db \<Longrightarrow> workspace_step env db db' \<Longrightarrow> workspace_history env db'"

section \<open>What a step changes\<close>

definition new_event :: "text_env \<Rightarrow> draw \<Rightarrow> uuid \<Rightarrow> string \<Rightarrow> json \<Rightarrow> activity_row" where
  "new_event env d i event_type payload =
     \<lparr>vr_id = dr_event_id d, vr_workspace_id = i,
      vr_event = \<lparr>e_public_id = ''wae_'' @ te_simple env (dr_event_id d), e_event_type = event_type,
                  e_actor_kind = ''browser_session'', e_payload_version = 1, e_payload = payload,
                  e_occurred_at = dr_now d\<rparr>\<rparr>"

definition event_fresh :: "text_env \<Rightarrow> draw \<Rightarrow> workspace_db \<Rightarrow> bool" where
  "event_fresh env d db \<longleftrightarrow> dr_event_id d \<notin> vr_id ` set (wd_events db) \<and>
     ''wae_'' @ te_simple env (dr_event_id d) \<notin> (\<lambda>v. e_public_id (vr_event v)) ` set (wd_events db)"

definition logged :: "text_env \<Rightarrow> draw \<Rightarrow> uuid \<Rightarrow> string \<Rightarrow> json \<Rightarrow> workspace_db \<Rightarrow> workspace_db" where
  "logged env d i event_type payload db =
     db\<lparr>wd_events := wd_events db @ [new_event env d i event_type payload]\<rparr>"

abbreviation ids :: "workspace_db \<Rightarrow> uuid list" where
  "ids db \<equiv> map (\<lambda>w. w_id (wr_row w)) (wd_workspaces db)"

lemma append_event_Ok:
  "append_event env d i event_type payload db = Ok db' \<longleftrightarrow>
     event_type \<in> event_types \<and> is_object payload \<and> event_fresh env d db \<and> i \<in> set (ids db) \<and>
     db' = logged env d i event_type payload db"
  by (auto simp: append_event_def event_fresh_def logged_def new_event_def)

lemma snd_commit: "snd (commit db outcome) = (case outcome of Ok (v, db') \<Rightarrow> db' | Err e \<Rightarrow> db)"
  by (simp add: commit_def split: result.splits prod.splits)

inductive change :: "text_env \<Rightarrow> workspace_db \<Rightarrow> workspace_db \<Rightarrow> bool" for env db where
  Created: "workspace_checks w \<Longrightarrow> w_status w = ''active'' \<Longrightarrow> w_id w \<notin> set (ids db) \<Longrightarrow>
    w_public_id w \<notin> (\<lambda>w. w_public_id (wr_row w)) ` set (wd_workspaces db) \<Longrightarrow> event_fresh env d db \<Longrightarrow>
    change env db (logged env d (w_id w) ''workspace.created''
      (JObject [(''workspace'', JObject [(''name'', JString (w_name w)), (''description'', json_of_option (w_description w))])])
      (db\<lparr>wd_workspaces := wd_workspaces db @
         [\<lparr>wr_row = w, wr_owner = account_id, wr_archived_at = None, wr_updated_at = now\<rparr>]\<rparr>))"
| Renamed: "i \<in> set (ids db) \<Longrightarrow> btrim name \<noteq> [] \<Longrightarrow> chars_count (btrim name) \<le> 120 \<Longrightarrow> event_fresh env d db \<Longrightarrow>
    change env db (logged env d i ''workspace.renamed'' (JObject [(''workspace'', JObject [(''name'', JString name)])])
      (db\<lparr>wd_workspaces := map (\<lambda>w. if w_id (wr_row w) = i
         then w\<lparr>wr_row := (wr_row w)\<lparr>w_name := name\<rparr>, wr_updated_at := now\<rparr> else w) (wd_workspaces db)\<rparr>))"
| Archived: "i \<in> set (ids db) \<Longrightarrow> status = (if archived then ''archived'' else ''active'') \<Longrightarrow> event_fresh env d db \<Longrightarrow>
    change env db (logged env d i (if archived then ''workspace.archived'' else ''workspace.restored'')
      (JObject [(''workspace'', JObject [(''status'', JString status)])])
      (db\<lparr>wd_workspaces := map (\<lambda>w. if w_id (wr_row w) = i
         then w\<lparr>wr_row := (wr_row w)\<lparr>w_status := status\<rparr>,
                wr_archived_at := (if archived then Some now else None), wr_updated_at := now\<rparr> else w) (wd_workspaces db)\<rparr>))"
| MemberAdded: "i \<in> set (ids db) \<Longrightarrow> mr_workspace_id m = i \<Longrightarrow> member_checks db m \<Longrightarrow>
    mr_network_slug m \<in> set BALANCE_NETWORKS \<Longrightarrow> length (members_in db i) < MAX_WORKSPACE_ADDRESSES \<Longrightarrow>
    \<forall>k\<in>set (members_in db i). (mr_network_slug k, mr_address k) \<noteq> (mr_network_slug m, mr_address m) \<Longrightarrow>
    event_fresh env d db \<Longrightarrow>
    change env db (logged env d i ''member_address.added''
      (JObject [(''member'', JObject [(''public_id'', JString (mr_public_id m)),
         (''network_slug'', JString (mr_network_slug m)), (''address'', JString (mr_address m)),
         (''client_ref'', json_of_option (mr_client_ref m))])])
      (db\<lparr>wd_members := wd_members db @ [m]\<rparr>))"
| LabelAdded: "m \<in> set (wd_members db) \<Longrightarrow> i = mr_workspace_id m \<Longrightarrow> i \<in> set (ids db) \<Longrightarrow>
    te_lower env label \<notin> te_lower env ` set (labels_of db (mr_id m)) \<Longrightarrow> event_fresh env d db \<Longrightarrow>
    change env db (logged env d i ''member_address.label_added'' (label_payload env (mr_id m) label)
      (db\<lparr>wd_labels := wd_labels db @ [\<lparr>lr_member_address_id = mr_id m, lr_label = label\<rparr>]\<rparr>))"
| LabelRemoved: "m \<in> set (wd_members db) \<Longrightarrow> i = mr_workspace_id m \<Longrightarrow> i \<in> set (ids db) \<Longrightarrow> event_fresh env d db \<Longrightarrow>
    change env db (logged env d i ''member_address.label_removed'' (label_payload env (mr_id m) label)
      (db\<lparr>wd_labels := filter (\<lambda>l. \<not> label_matches env (mr_id m) label l) (wd_labels db)\<rparr>))"
| Observed: "i \<in> set (ids db) \<Longrightarrow> event_type \<in> {''balance.observed'', ''transfer.observed''} \<Longrightarrow> event_fresh env d db \<Longrightarrow>
    change env db (logged env d i event_type payload db)"
| Captured: "change env db (db\<lparr>wd_snapshots := snapshots\<rparr>)"

section \<open>The invariant\<close>

definition workspace_row_ok :: "workspace_row \<Rightarrow> bool" where
  "workspace_row_ok w \<longleftrightarrow> workspace_checks (wr_row w) \<and> (w_status (wr_row w) = ''archived'' \<longleftrightarrow> wr_archived_at w \<noteq> None)"

definition workspace_rows_ok :: "workspace_row list \<Rightarrow> bool" where
  "workspace_rows_ok ws \<longleftrightarrow>
     distinct (map (\<lambda>w. w_id (wr_row w)) ws) \<and> distinct (map (\<lambda>w. w_public_id (wr_row w)) ws) \<and>
     (\<forall>w\<in>set ws. workspace_row_ok w)"

definition member_rows_ok :: "uuid set \<Rightarrow> member_row list \<Rightarrow> bool" where
  "member_rows_ok is ms \<longleftrightarrow>
     distinct (map mr_id ms) \<and> distinct (map (\<lambda>m. (mr_workspace_id m, mr_network_slug m, mr_address m)) ms) \<and>
     (\<forall>m\<in>set ms. mr_workspace_id m \<in> is \<and> mr_network_slug m \<in> set BALANCE_NETWORKS \<and> lowercase_address (mr_address m)) \<and>
     (\<forall>i. length (filter (\<lambda>m. mr_workspace_id m = i) ms) \<le> MAX_WORKSPACE_ADDRESSES)"

definition label_rows_ok :: "text_env \<Rightarrow> uuid set \<Rightarrow> label_row list \<Rightarrow> bool" where
  "label_rows_ok env ms ls \<longleftrightarrow>
     distinct (map (\<lambda>l. (lr_member_address_id l, te_lower env (lr_label l))) ls) \<and> lr_member_address_id ` set ls \<subseteq> ms"

definition event_rows_ok :: "uuid set \<Rightarrow> activity_row list \<Rightarrow> bool" where
  "event_rows_ok is vs \<longleftrightarrow>
     distinct (map vr_id vs) \<and> distinct (map (\<lambda>v. e_public_id (vr_event v)) vs) \<and> vr_workspace_id ` set vs \<subseteq> is"

definition workspaces_ok :: "text_env \<Rightarrow> workspace_db \<Rightarrow> bool" where
  "workspaces_ok env db \<longleftrightarrow>
     workspace_rows_ok (wd_workspaces db) \<and> member_rows_ok (set (ids db)) (wd_members db) \<and>
     label_rows_ok env (mr_id ` set (wd_members db)) (wd_labels db) \<and> event_rows_ok (set (ids db)) (wd_events db)"

lemma rows_mono:
  "member_rows_ok is ms \<Longrightarrow> is \<subseteq> js \<Longrightarrow> member_rows_ok js ms"
  "event_rows_ok is vs \<Longrightarrow> is \<subseteq> js \<Longrightarrow> event_rows_ok js vs"
  "label_rows_ok env is ls \<Longrightarrow> is \<subseteq> js \<Longrightarrow> label_rows_ok env js ls"
  by (fastforce simp: member_rows_ok_def event_rows_ok_def label_rows_ok_def)+

lemma event_rows_append:
  "event_rows_ok is (wd_events db) \<Longrightarrow> event_fresh env d db \<Longrightarrow> i \<in> is \<Longrightarrow>
   event_rows_ok is (wd_events db @ [new_event env d i t p])"
  by (auto simp: event_rows_ok_def event_fresh_def new_event_def)

lemma ids_updated [simp]:
  "map (\<lambda>w. w_id (wr_row w)) (map (\<lambda>w. if w_id (wr_row w) = i then w\<lparr>wr_row := (wr_row w)\<lparr>w_name := name\<rparr>, wr_updated_at := now\<rparr> else w) ws) =
   map (\<lambda>w. w_id (wr_row w)) ws"
  "map (\<lambda>w. w_public_id (wr_row w)) (map (\<lambda>w. if w_id (wr_row w) = i then w\<lparr>wr_row := (wr_row w)\<lparr>w_name := name\<rparr>, wr_updated_at := now\<rparr> else w) ws) =
   map (\<lambda>w. w_public_id (wr_row w)) ws"
  "map (\<lambda>w. w_id (wr_row w)) (map (\<lambda>w. if w_id (wr_row w) = i then w\<lparr>wr_row := (wr_row w)\<lparr>w_status := status\<rparr>, wr_archived_at := arch, wr_updated_at := now\<rparr> else w) ws) =
   map (\<lambda>w. w_id (wr_row w)) ws"
  "map (\<lambda>w. w_public_id (wr_row w)) (map (\<lambda>w. if w_id (wr_row w) = i then w\<lparr>wr_row := (wr_row w)\<lparr>w_status := status\<rparr>, wr_archived_at := arch, wr_updated_at := now\<rparr> else w) ws) =
   map (\<lambda>w. w_public_id (wr_row w)) ws"
  by (induction ws) auto

lemma members_in_append [simp]:
  "members_in (db\<lparr>wd_members := wd_members db @ [m]\<rparr>) i = members_in db i @ (if mr_workspace_id m = i then [m] else [])"
  by (simp add: members_in_def)

lemma logged_simps [simp]:
  "wd_workspaces (logged env d i t p db) = wd_workspaces db" "wd_members (logged env d i t p db) = wd_members db"
  "wd_labels (logged env d i t p db) = wd_labels db" "members_in (logged env d i t p db) j = members_in db j"
  "wd_events (logged env d i t p db) = wd_events db @ [new_event env d i t p]"
  "vr_id (new_event env d i t p) = dr_event_id d" "vr_workspace_id (new_event env d i t p) = i"
  by (simp_all add: logged_def new_event_def members_in_def)

lemma members_in_unchanged [simp]:
  "members_in (db\<lparr>wd_workspaces := ws\<rparr>) i = members_in db i" "members_in (db\<lparr>wd_labels := ls\<rparr>) i = members_in db i"
  "members_in (db\<lparr>wd_snapshots := ss\<rparr>) i = members_in db i"
  by (simp_all add: members_in_def)

lemma workspace_rows_append:
  assumes "workspace_rows_ok ws" "workspace_checks w" "w_status w = ''active''" "w_id w \<notin> (\<lambda>w. w_id (wr_row w)) ` set ws"
    "w_public_id w \<notin> (\<lambda>w. w_public_id (wr_row w)) ` set ws"
  shows "workspace_rows_ok (ws @ [\<lparr>wr_row = w, wr_owner = account_id, wr_archived_at = None, wr_updated_at = now\<rparr>])"
  using assms by (auto simp: workspace_rows_ok_def workspace_row_ok_def)

lemma workspace_rows_renamed:
  assumes "workspace_rows_ok ws" "btrim name \<noteq> []" "chars_count (btrim name) \<le> 120"
  shows "workspace_rows_ok (map (\<lambda>w. if w_id (wr_row w) = i
      then w\<lparr>wr_row := (wr_row w)\<lparr>w_name := name\<rparr>, wr_updated_at := now\<rparr> else w) ws)"
  using assms unfolding workspace_rows_ok_def ids_updated by (auto simp: workspace_row_ok_def workspace_checks_def)

lemma workspace_rows_archived:
  assumes "workspace_rows_ok ws" "status \<in> {''active'', ''archived''}" "status = ''archived'' \<longleftrightarrow> arch \<noteq> None"
  shows "workspace_rows_ok (map (\<lambda>w. if w_id (wr_row w) = i
      then w\<lparr>wr_row := (wr_row w)\<lparr>w_status := status\<rparr>, wr_archived_at := arch, wr_updated_at := now\<rparr> else w) ws)"
  using assms unfolding workspace_rows_ok_def ids_updated by (auto simp: workspace_row_ok_def workspace_checks_def)

lemma member_rows_append:
  assumes "member_rows_ok is (wd_members db)" "mr_workspace_id m \<in> is" "member_checks db m"
    "mr_network_slug m \<in> set BALANCE_NETWORKS" "length (members_in db (mr_workspace_id m)) < MAX_WORKSPACE_ADDRESSES"
    "\<forall>k\<in>set (members_in db (mr_workspace_id m)). (mr_network_slug k, mr_address k) \<noteq> (mr_network_slug m, mr_address m)"
  shows "member_rows_ok is (wd_members db @ [m])"
  using assms unfolding member_rows_ok_def by (auto simp: member_checks_def members_in_def)

lemma label_rows_append:
  assumes "label_rows_ok env ms (wd_labels db)" "i \<in> ms" "te_lower env label \<notin> te_lower env ` set (labels_of db i)"
  shows "label_rows_ok env ms (wd_labels db @ [\<lparr>lr_member_address_id = i, lr_label = label\<rparr>])"
  using assms by (auto simp: label_rows_ok_def labels_of_def)

lemma label_rows_filter: "label_rows_ok env ms ls \<Longrightarrow> label_rows_ok env ms (filter P ls)"
  by (auto simp: label_rows_ok_def distinct_map_filter)

lemma change_ok:
  assumes "change env db db'" "workspaces_ok env db"
  shows "workspaces_ok env db'"
proof -
  have ok: "workspace_rows_ok (wd_workspaces db)" "member_rows_ok (set (ids db)) (wd_members db)"
    "label_rows_ok env (mr_id ` set (wd_members db)) (wd_labels db)" "event_rows_ok (set (ids db)) (wd_events db)"
    using assms(2) by (simp_all add: workspaces_ok_def)
  from assms(1) show ?thesis
  proof cases
    case (Created w d account_id now)
    have "set (ids db) \<subseteq> insert (w_id w) (set (ids db))" by blast
    note ok' = rows_mono(1)[OF ok(2) this] event_rows_append[OF rows_mono(2)[OF ok(4) this] Created(6)]
    show ?thesis
      using Created ok'(1) ok'(2)[of "w_id w"] ok(3) workspace_rows_append[OF ok(1) Created(2,3)] by (simp add: workspaces_ok_def)
  next
    case (Renamed i name d now)
    then show ?thesis
      using ok event_rows_append[OF ok(4)] workspace_rows_renamed[OF ok(1)]
      by (simp add: workspaces_ok_def del: map_map)
  next
    case (Archived i status archived d now)
    then show ?thesis
      using ok event_rows_append[OF ok(4)]
        workspace_rows_archived[OF ok(1), of status "if archived then Some now else None" i now]
      by (cases archived) (simp_all add: workspaces_ok_def del: map_map)
  next
    case (MemberAdded i m d)
    have "mr_id ` set (wd_members db) \<subseteq> insert (mr_id m) (mr_id ` set (wd_members db))" by blast
    note ok' = rows_mono(3)[OF ok(3) this]
    show ?thesis
      using MemberAdded ok ok' event_rows_append[OF ok(4)] member_rows_append[OF ok(2)] by (simp add: workspaces_ok_def)
  next
    case (LabelAdded m i label d)
    then show ?thesis
      using ok event_rows_append[OF ok(4)] label_rows_append[OF ok(3)] by (simp add: workspaces_ok_def)
  next
    case (LabelRemoved m i d label)
    then show ?thesis
      using ok event_rows_append[OF ok(4)] label_rows_filter[OF ok(3)] by (simp add: workspaces_ok_def)
  next
    case (Observed i event_type d payload)
    then show ?thesis using ok event_rows_append[OF ok(4)] by (simp add: workspaces_ok_def)
  next
    case (Captured snapshots)
    then show ?thesis using ok by (simp add: workspaces_ok_def)
  qed
qed

lemma find_unique:
  assumes "distinct (map key xs)" "find P xs = Some x" "\<And>y. y \<in> set xs \<Longrightarrow> P y \<Longrightarrow> key y = k"
  shows "x \<in> set xs" "P x" "\<And>y. y \<in> set xs \<Longrightarrow> P y \<longleftrightarrow> y = x"
proof -
  show x: "x \<in> set xs" "P x" using assms(2) by (auto simp: find_Some_iff)
  show "P y \<longleftrightarrow> y = x" if "y \<in> set xs" for y
    using x assms(1,3) that by (metis distinct_map_eq)
qed

lemma update_unique:
  assumes "workspace_rows_ok (wd_workspaces db)"
    and "update_workspaces (\<lambda>w. owned account_id public_id w \<and> Q w) f db = (Some i, db')"
  shows "i \<in> set (ids db)"
    "db' = db\<lparr>wd_workspaces := map (\<lambda>w. if w_id (wr_row w) = i then f w else w) (wd_workspaces db)\<rparr>"
proof -
  let ?P = "\<lambda>w. owned account_id public_id w \<and> Q w"
  obtain x where x: "find ?P (wd_workspaces db) = Some x" "i = w_id (wr_row x)"
    "db' = db\<lparr>wd_workspaces := map (\<lambda>w. if ?P w then f w else w) (wd_workspaces db)\<rparr>"
    using assms(2) by (auto simp: update_workspaces_def)
  have d: "distinct (ids db)" "distinct (map (\<lambda>w. w_public_id (wr_row w)) (wd_workspaces db))"
    using assms(1) by (simp_all add: workspace_rows_ok_def)
  note u = find_unique[OF d(2) x(1), of public_id, unfolded owned_def]
  have "?P w \<longleftrightarrow> w_id (wr_row w) = i" if "w \<in> set (wd_workspaces db)" for w
    using u(1) u(3)[OF _ that] distinct_map_eq[OF d(1) that] x(2) unfolding owned_def by blast
  then show "db' = db\<lparr>wd_workspaces := map (\<lambda>w. if w_id (wr_row w) = i then f w else w) (wd_workspaces db)\<rparr>"
    using x(3) by (auto intro: map_cong)
  show "i \<in> set (ids db)" using u(1) x(2) by (simp add: owned_def)
qed

lemma update_none: "update_workspaces P f db = (None, db') \<Longrightarrow> db' = db"
  by (auto simp: update_workspaces_def find_None_iff map_idI)

lemma create_change:
  assumes "snd (create_workspace env d account_id name description db) = db'"
  shows "db' = db \<or> change env db db'"
proof -
  let ?w = "\<lparr>w_id = dr_id d, w_public_id = ''wsp_'' @ te_simple env (dr_id d), w_name = name,
      w_description = description, w_status = ''active''\<rparr>"
  let ?db = "db\<lparr>wd_workspaces := wd_workspaces db @
      [\<lparr>wr_row = ?w, wr_owner = account_id, wr_archived_at = None, wr_updated_at = dr_now d\<rparr>]\<rparr>"
  have "db' = db \<or> (workspace_checks ?w \<and> w_id ?w \<notin> set (ids db) \<and>
      w_public_id ?w \<notin> (\<lambda>w. w_public_id (wr_row w)) ` set (wd_workspaces db) \<and> event_fresh env d ?db \<and>
      db' = logged env d (w_id ?w) ''workspace.created''
        (JObject [(''workspace'', JObject [(''name'', JString name), (''description'', json_of_option description)])]) ?db)"
    using assms unfolding create_workspace_def Let_def snd_commit
    by (simp add: append_event_Ok and_then_Ok_iff split: result.splits prod.splits if_splits)
  then show ?thesis using Created[of ?w db env d account_id "dr_now d"] by (auto simp: event_fresh_def)
qed

lemma rename_change:
  assumes "snd (rename_workspace env d account_id public_id name db) = db'" "workspaces_ok env db"
  shows "db' = db \<or> change env db db'"
proof -
  let ?P = "\<lambda>w. owned account_id public_id w \<and> w_status (wr_row w) = ''active''"
  let ?f = "\<lambda>w. w\<lparr>wr_row := (wr_row w)\<lparr>w_name := name\<rparr>, wr_updated_at := dr_now d\<rparr>"
  have ok: "workspace_rows_ok (wd_workspaces db)" using assms(2) by (simp add: workspaces_ok_def)
  obtain found u where u: "update_workspaces ?P ?f db = (found, u)" by fastforce
  show ?thesis
  proof (cases found)
    case None
    then show ?thesis using assms(1) u update_none by (auto simp: rename_workspace_def snd_commit)
  next
    case (Some i)
    note eq = update_unique[OF ok u[unfolded Some]]
    have "db' = db \<or> (btrim name \<noteq> [] \<and> chars_count (btrim name) \<le> 120 \<and> event_fresh env d u \<and>
        db' = logged env d i ''workspace.renamed'' (JObject [(''workspace'', JObject [(''name'', JString name)])]) u)"
      using assms(1) u Some
      by (auto simp: rename_workspace_def snd_commit append_event_Ok and_then_Ok_iff split: result.splits prod.splits if_splits)
    then show ?thesis using eq Renamed[OF eq(1)] by (auto simp: event_fresh_def)
  qed
qed

lemma archive_change:
  assumes "snd (set_archived env d account_id public_id archived db) = db'" "workspaces_ok env db"
  shows "db' = db \<or> change env db db'"
proof -
  let ?target = "if archived then ''archived'' else ''active''"
  let ?P = "\<lambda>w. owned account_id public_id w \<and> w_status (wr_row w) \<noteq> ?target"
  let ?f = "\<lambda>w. w\<lparr>wr_row := (wr_row w)\<lparr>w_status := ?target\<rparr>,
      wr_archived_at := (if archived then Some (dr_now d) else None), wr_updated_at := dr_now d\<rparr>"
  have ok: "workspace_rows_ok (wd_workspaces db)" using assms(2) by (simp add: workspaces_ok_def)
  obtain found u where u: "update_workspaces ?P ?f db = (found, u)" by fastforce
  show ?thesis
  proof (cases found)
    case None
    then show ?thesis using assms(1) u update_none by (auto simp: set_archived_def Let_def snd_commit)
  next
    case (Some i)
    note eq = update_unique[OF ok u[unfolded Some]]
    have "db' = db \<or> (event_fresh env d u \<and>
        db' = logged env d i (if archived then ''workspace.archived'' else ''workspace.restored'')
          (JObject [(''workspace'', JObject [(''status'', JString ?target)])]) u)"
      using assms(1) unfolding set_archived_def Let_def u Some
      by (auto simp: snd_commit append_event_Ok and_then_Ok_iff split: result.splits prod.splits)
    then show ?thesis using eq Archived[OF eq(1), of ?target archived] by (auto simp: event_fresh_def)
  qed
qed

lemma member_change:
  assumes "snd (add_member env d i network_slug address client_ref MAX_WORKSPACE_ADDRESSES db) = db'"
    "network_slug \<in> set BALANCE_NETWORKS"
  shows "db' = db \<or> change env db db'"
proof -
  let ?m = "\<lparr>mr_id = dr_id d, mr_public_id = ''wma_'' @ te_simple env (dr_id d), mr_workspace_id = i,
      mr_network_slug = network_slug, mr_address = address, mr_client_ref = client_ref\<rparr>"
  let ?db = "db\<lparr>wd_members := wd_members db @ [?m]\<rparr>"
  have "db' = db \<or> (member_checks db ?m \<and> length (members_in db i) < MAX_WORKSPACE_ADDRESSES \<and>
      (\<forall>k\<in>set (members_in db i). (mr_network_slug k, mr_address k) \<noteq> (network_slug, address)) \<and>
      event_fresh env d ?db \<and> i \<in> set (ids ?db) \<and>
      db' = logged env d i ''member_address.added''
        (JObject [(''member'', JObject [(''public_id'', JString (mr_public_id ?m)),
           (''network_slug'', JString network_slug), (''address'', JString address),
           (''client_ref'', json_of_option client_ref)])]) ?db)"
    using assms(1) unfolding add_member_def Let_def snd_commit
    by (simp add: append_event_Ok and_then_Ok_iff split: result.splits prod.splits if_splits)
  then show ?thesis using MemberAdded[of i db ?m env d] assms(2) by (auto simp: event_fresh_def)
qed

lemma member_workspace_Ok:
  "member_workspace db k = Ok i \<Longrightarrow> \<exists>m\<in>set (wd_members db). mr_id m = k \<and> mr_workspace_id m = i"
  by (auto simp: member_workspace_def find_Some_iff ok_or_Ok_iff)

lemma add_label_change:
  assumes "snd (add_label env d k label db) = db'"
  shows "db' = db \<or> change env db db'"
proof (cases "member_workspace db k")
  case (Ok i)
  then obtain m where m: "m \<in> set (wd_members db)" "mr_id m = k" "mr_workspace_id m = i" using member_workspace_Ok by blast
  show ?thesis
    using assms LabelAdded[OF m(1), of i env label d] m(2,3)
    by (auto simp: add_label_def Ok snd_commit append_event_Ok and_then_Ok_iff event_fresh_def
        split: result.splits prod.splits if_splits)
qed (use assms in \<open>simp add: add_label_def snd_commit\<close>)

lemma matching_labels:
  assumes "label_rows_ok env ms ls"
  shows "length (filter (label_matches env k label) ls) \<le> 1"
proof -
  let ?xs = "filter (label_matches env k label) ls" and ?key = "\<lambda>l. (lr_member_address_id l, te_lower env (lr_label l))"
  have "distinct (map ?key ?xs)" using assms by (simp add: label_rows_ok_def distinct_map_filter)
  moreover have "set (map ?key ?xs) \<subseteq> {(k, te_lower env label)}" by (auto simp: label_matches_def)
  then have "card (set (map ?key ?xs)) \<le> card {(k, te_lower env label)}" by (intro card_mono) simp_all
  ultimately show ?thesis by (simp add: distinct_card del: set_map)
qed

lemma remove_label_change:
  assumes "snd (remove_label env d k label db) = db'" "workspaces_ok env db"
  shows "db' = db \<or> change env db db'"
proof (cases "member_workspace db k")
  case (Ok i)
  then obtain m where m: "m \<in> set (wd_members db)" "mr_id m = k" "mr_workspace_id m = i" using member_workspace_Ok by blast
  have le: "length (filter (label_matches env k label) (wd_labels db)) \<le> 1"
    using assms(2) matching_labels by (auto simp: workspaces_ok_def)
  show ?thesis
  proof (cases "length (filter (label_matches env k label) (wd_labels db)) = 1")
    case True
    then show ?thesis
      using assms(1) LabelRemoved[OF m(1), of i env d label] m(2,3)
      by (auto simp: remove_label_def Ok Let_def snd_commit append_event_Ok and_then_Ok_iff event_fresh_def
          split: result.splits prod.splits)
  next
    case False
    then have "filter (label_matches env k label) (wd_labels db) = []" using le by (cases "filter (label_matches env k label) (wd_labels db)") auto
    then have "filter (\<lambda>l. \<not> label_matches env k label l) (wd_labels db) = wd_labels db"
      by (auto simp: filter_empty_conv filter_id_conv)
    then show ?thesis using assms(1) False by (auto simp: remove_label_def Ok Let_def snd_commit)
  qed
qed (use assms in \<open>simp add: remove_label_def snd_commit\<close>)

lemma snd_map_prod_id [simp]: "snd (map_prod f (\<lambda>x. x) p) = snd p"
  by (cases p) simp

lemma step_change:
  assumes "workspace_step env db db'" "workspaces_ok env db"
  shows "db' = db \<or> change env db db'"
  using assms(1)
proof cases
  case (Create d account_id name description)
  then show ?thesis
    using create_change[of env d account_id _ _ db]
    by (auto simp: service_create_def split: option.splits)
next
  case (Rename d account_id public_id name)
  then show ?thesis
    using rename_change[OF _ assms(2)] by (auto simp: service_rename_def split: option.splits)
next
  case (Archive d account_id public_id archived)
  then show ?thesis using archive_change[OF _ assms(2)] by (auto simp: service_archive_def)
next
  case (AddMember d w network_slug address client_ref)
  have "db' = db \<or> (network_slug \<in> set BALANCE_NETWORKS \<and> (\<exists>address client_ref.
      snd (add_member env d (w_id w) network_slug address client_ref MAX_WORKSPACE_ADDRESSES db) = db'))"
    using AddMember
    by (auto simp: service_add_member_def Let_def split: if_splits option.splits prod.splits result.splits add_member_outcome.splits)
      (metis snd_conv)+
  then show ?thesis using member_change by blast
next
  case (AddLabel d w m label)
  then show ?thesis
    using add_label_change[of env d "m_id m" _ db]
    by (auto simp: service_add_label_def split: if_splits option.splits)
next
  case (RemoveLabel d w m label)
  then show ?thesis
    using remove_label_change[OF _ assms(2)] by (auto simp: service_remove_label_def split: if_splits option.splits)
next
  case (Observe event_type d i payload)
  then show ?thesis
    using change.Observed[of i db event_type env d payload]
    by (auto simp: append_observation_def snd_commit append_event_Ok and_then_Ok_iff split: result.splits prod.splits)
next
  case (Snapshot d i requested_as_of quote_currency asset_slugs payload)
  then show ?thesis using change.Captured[of env db] by (auto simp: create_treasury_snapshot_def Let_def split: if_splits)
qed

lemma history_ok:
  assumes "workspace_history env db"
  shows "workspaces_ok env db"
  using assms
proof induction
  case (Empty accounts networks)
  then show ?case
    by (simp add: workspaces_ok_def workspace_rows_ok_def member_rows_ok_def label_rows_ok_def event_rows_ok_def)
next
  case (Step db db')
  then show ?case using step_change change_ok by blast
qed

text \<open>
  C24. After any sequence of calls, in any interleaving and with workspaces and members that were read at any earlier
  time, the tables are sound: identifiers are unique, a workspace has at most 100 addresses, which are lower-case,
  on a supported network and not repeated, names are within their limits, a workspace is archived exactly
  when it has a time of archival, the labels of an address differ by more than their case, and every event
  belongs to a workspace.
\<close>

theorem workspaces_sound:
  assumes "workspace_history env db"
  shows "workspaces_ok env db"
  using assms by (rule history_ok)

definition sample_env :: text_env where
  "sample_env = \<lparr>te_simple = (\<lambda>i. replicate i CHR ''0''), te_hyphenated = (\<lambda>i. replicate i CHR ''0''),
     te_lower = to_ascii_lowercase\<rparr>"

definition sample_draw :: draw where
  "sample_draw = \<lparr>dr_id = 1, dr_event_id = 2, dr_now = 3\<rparr>"

definition sample_db :: workspace_db where
  "sample_db = \<lparr>wd_accounts = {7}, wd_networks = set BALANCE_NETWORKS, wd_workspaces = [], wd_members = [],
     wd_labels = [], wd_events = [], wd_snapshots = []\<rparr>"

lemma sample_created:
  "map (\<lambda>w. w_name (wr_row w))
     (wd_workspaces (snd (service_create sample_env sample_draw 7 '' Treasury '' None sample_db))) = [''Treasury'']"
  by code_simp

theorem workspaces_sound_witness:
  "map (\<lambda>w. w_name (wr_row w))
     (wd_workspaces (snd (service_create sample_env sample_draw 7 '' Treasury '' None sample_db))) = [''Treasury''] \<and>
   workspaces_ok sample_env (snd (service_create sample_env sample_draw 7 '' Treasury '' None sample_db))"
  using sample_created workspaces_sound[OF Step[OF Empty Create[OF refl]], of sample_env sample_draw 7 "'' Treasury ''" None "{7}" "set BALANCE_NETWORKS"]
  by (simp add: sample_db_def)

section \<open>The limit on labels\<close>

text \<open>
  The limit on the labels of an address is compared with the member that the request has read before; the
  transaction that inserts the label does not count again. Two requests that have both read 19 labels
  leave 21.
\<close>

lemma dropWhile_unpadded: "unpadded ws s \<Longrightarrow> [c] \<in> set ws \<Longrightarrow> dropWhile (\<lambda>x. x = c) s = s"
  by (cases s) (auto simp: unpadded_def find_None_iff starts_with_def)

lemma btrim_trim [simp]: "btrim (trim s) = trim s"
proof -
  have "trim_leading white_space (trim s) = trim s"
  proof -
    obtain p where "rev (trim_leading white_space s) = p @ rev (trim s)" using trim_leading_suffix by (metis rev_rev_ident trim_def)
    then have "trim_leading white_space s = trim s @ rev p" by (metis rev_append rev_rev_ident)
    then show ?thesis using unpadded_prefix unpadded_trim_leading trim_leading_unpadded by metis
  qed
  then have "unpadded white_space (trim s)" using unpadded_trim_leading by metis
  moreover have "unpadded (map rev white_space) (rev (trim s))" using unpadded_trim_leading by (simp add: trim_def)
  moreover have "[CHR '' ''] \<in> set white_space" "[CHR '' ''] \<in> set (map rev white_space)" by (simp_all add: white_space_def)
  ultimately show ?thesis by (simp add: btrim_def dropWhile_unpadded)
qed

lemma service_add_label_appends:
  assumes "w_status w = ''active''" "normalize_required label 64 = Some l" "length (m_labels m) < MAX_ADDRESS_LABELS"
    "member_workspace db (m_id m) = Ok i" "i \<in> set (ids db)"
    "te_lower env l \<notin> te_lower env ` set (labels_of db (m_id m))" "event_fresh env d db"
  shows "snd (service_add_label env d w m label db) =
    logged env d i ''member_address.label_added'' (label_payload env (m_id m) l)
      (db\<lparr>wd_labels := wd_labels db @ [\<lparr>lr_member_address_id = m_id m, lr_label = l\<rparr>]\<rparr>)"
proof -
  have l: "btrim l \<noteq> []" "chars_count (btrim l) \<le> 64"
    using assms(2) by (auto simp: normalize_required_def split: if_splits)
  have "append_event env d i ''member_address.label_added'' (label_payload env (m_id m) l)
      (db\<lparr>wd_labels := wd_labels db @ [\<lparr>lr_member_address_id = m_id m, lr_label = l\<rparr>]\<rparr>) = Ok (logged env d i ''member_address.label_added'' (label_payload env (m_id m) l)
      (db\<lparr>wd_labels := wd_labels db @ [\<lparr>lr_member_address_id = m_id m, lr_label = l\<rparr>]\<rparr>))"
    using assms(5,7) by (simp add: append_event_Ok event_fresh_def event_types_def label_payload_def)
  then show ?thesis using assms l by (simp add: service_add_label_def add_label_def snd_commit)
qed

theorem label_limit_race:
  assumes "w_status w = ''active''" "m = member_of_row sort_labels db r"
    "length (sort_labels (labels_of db (mr_id r))) = length (labels_of db (mr_id r))"
    "length (labels_of db (mr_id r)) = 19" "member_workspace db (mr_id r) = Ok i" "i \<in> set (ids db)"
    and labels: "normalize_required label 64 = Some l" "normalize_required label' 64 = Some l'"
    "te_lower env l \<notin> te_lower env ` set (labels_of db (mr_id r))"
    "te_lower env l' \<notin> te_lower env ` set (l # labels_of db (mr_id r))"
    and "event_fresh env d db" "event_fresh env d' (logged env d i ''member_address.label_added'' (label_payload env (mr_id r) l) db)"
  shows "length (labels_of (snd (service_add_label env d' w m label' (snd (service_add_label env d w m label db)))) (mr_id r)) =
    Suc MAX_ADDRESS_LABELS"
proof -
  have m: "m_id m = mr_id r" "length (m_labels m) < MAX_ADDRESS_LABELS"
    using assms(2-4) by (simp_all add: member_of_row_def MAX_ADDRESS_LABELS_def)
  note first = service_add_label_appends[OF assms(1) labels(1) m(2), unfolded m(1), OF assms(5,6) labels(3) assms(11)]
  have same: "labels_of (logged e d i t p u) k = labels_of u k" "member_workspace (logged e d i t p u) k = member_workspace u k"
    "member_workspace (u\<lparr>wd_labels := ls\<rparr>) k = member_workspace u k" for e d i t p u k ls
    by (simp_all add: labels_of_def member_workspace_def)
  have "labels_of (db\<lparr>wd_labels := wd_labels db @ [\<lparr>lr_member_address_id = mr_id r, lr_label = l\<rparr>]\<rparr>) (mr_id r) =
      labels_of db (mr_id r) @ [l]" by (simp add: labels_of_def)
  note second = service_add_label_appends[OF assms(1) labels(2) m(2), of "snd (service_add_label env d w m label db)" i env d',
      unfolded m(1) first same this]
  have "event_fresh env d' (logged env d i ''member_address.label_added'' (label_payload env (mr_id r) l)
      (db\<lparr>wd_labels := wd_labels db @ [\<lparr>lr_member_address_id = mr_id r, lr_label = l\<rparr>]\<rparr>))"
    using assms(12) by (simp add: event_fresh_def)
  then show ?thesis
    using second assms(4,5,6) labels(4) unfolding first by (simp add: same) (simp add: labels_of_def MAX_ADDRESS_LABELS_def)
qed

end
