(* ===== verification/Portfolio.thy ===== *)
theory Portfolio
  imports BalanceApi Workspaces
begin

text \<open>
  The current portfolio of a workspace (\<open>src/application/workspaces/portfolio.rs\<close>): the planner that turns the
  members of a workspace into commands for the balance service of theory \<open>Balances\<close>, and the composition of the
  answers into observations per member and totals per asset. An operation that may panic (an \<open>expect\<close>) returns an
  option, whose \<open>None\<close> is the panic. A \<open>BTreeMap\<close> that is only looked up is a map; one that is iterated
  is the list of its entries in the order of their keys.
\<close>

section \<open>Data\<close>

definition PORTFOLIO_QUOTE_CURRENCY :: string where
  "PORTFOLIO_QUOTE_CURRENCY = ''USD''"

datatype portfolio_observation_status = ObservationComplete | ObservationPartial | ObservationUnavailable

datatype portfolio_contribution_outcome =
    ContributionBalance balance_item_outcome
  | CommandUnavailable string

record portfolio_contribution =
  cb_member_id :: string
  cb_network_slug :: string
  cb_address :: string
  cb_labels :: "string list"
  cb_evidence :: "balance_evidence option"
  cb_outcome :: portfolio_contribution_outcome

record member_portfolio_observation =
  mo_member :: workspace_member_address
  mo_contributions :: "portfolio_contribution list"
  mo_observation_status :: portfolio_observation_status

record aggregated_asset_observation =
  ao_asset_slug :: string
  ao_total_amount :: "string option"
  ao_known_value :: string
  ao_contributions :: "portfolio_contribution list"
  ao_valuation_status :: portfolio_observation_status

record current_workspace_portfolio =
  cp_workspace :: workspace
  cp_resolved_at :: timestamp
  cp_quote_currency :: string
  cp_members :: "member_portfolio_observation list"
  cp_assets :: "aggregated_asset_observation list"
  cp_known_value :: string
  cp_valuation_status :: portfolio_observation_status

datatype workspace_portfolio_resolver_error =
    Planning get_balances_command_error
  | InconsistentBalanceResult
  | MissingCanonicalAssetIdentity
  | UnknownCanonicalAsset
  | InvalidDecimal

datatype command_resolution = Resolved get_balances_result | Unavailable

type_synonym member_key_type = "string \<times> string"

type_synonym contribution_collections = "member_key_type \<Rightarrow> portfolio_contribution list option"

section \<open>Keys and orders\<close>

definition account_key :: "string \<Rightarrow> string \<Rightarrow> member_key_type" where
  "account_key network_slug address = (to_ascii_lowercase network_slug, to_ascii_lowercase address)"

definition member_key :: "workspace_member_address \<Rightarrow> member_key_type" where
  "member_key m = account_key (m_network_slug m) (m_address m)"

definition member_order :: "workspace_member_address \<Rightarrow> string \<times> string \<times> string" where
  "member_order m = (m_network_slug m, to_ascii_lowercase (m_address m), m_public_id m)"

definition command_unavailable_contribution :: "workspace_member_address \<Rightarrow> string \<Rightarrow> portfolio_contribution" where
  "command_unavailable_contribution m asset_slug =
     \<lparr>cb_member_id = m_public_id m, cb_network_slug = m_network_slug m, cb_address = m_address m,
      cb_labels = m_labels m, cb_evidence = None, cb_outcome = CommandUnavailable asset_slug\<rparr>"

fun outcome_asset_slug :: "portfolio_contribution_outcome \<Rightarrow> string option" where
  "outcome_asset_slug (ContributionBalance (BalanceResolved t _ _ _)) = rt_asset_slug t"
| "outcome_asset_slug (ContributionBalance (BalanceFailed t _)) = rt_asset_slug t"
| "outcome_asset_slug (ContributionBalance (BalanceSkipped _ asset_slug)) = Some asset_slug"
| "outcome_asset_slug (CommandUnavailable asset_slug) = Some asset_slug"

definition contribution_asset_slug :: "portfolio_contribution \<Rightarrow> string option" where
  "contribution_asset_slug c = outcome_asset_slug (cb_outcome c)"

text \<open>\<open>None\<close> comes before every \<open>Some\<close>.\<close>

definition contribution_order :: "portfolio_contribution \<Rightarrow> string list \<times> string" where
  "contribution_order c =
     ((case contribution_asset_slug c of None \<Rightarrow> [] | Some s \<Rightarrow> [s]), cb_address c)"

fun canonical_asset_slug :: "portfolio_contribution_outcome \<Rightarrow> (string option, workspace_portfolio_resolver_error) result" where
  "canonical_asset_slug (ContributionBalance (BalanceResolved t _ _ _)) =
     (case rt_asset_slug t of Some slug \<Rightarrow> Ok (Some slug) | None \<Rightarrow> Err MissingCanonicalAssetIdentity)"
| "canonical_asset_slug _ = Ok None"

fun outcome_resolved :: "portfolio_contribution_outcome \<Rightarrow> bool" where
  "outcome_resolved (ContributionBalance (BalanceResolved _ _ _ _)) = True"
| "outcome_resolved _ = False"

definition balance_status :: "portfolio_contribution list \<Rightarrow> portfolio_observation_status" where
  "balance_status contributions =
     (let resolved = length (filter (\<lambda>c. outcome_resolved (cb_outcome c)) contributions) in
      if contributions = [] then ObservationComplete
      else if resolved = 0 then ObservationUnavailable
      else if resolved = length contributions then ObservationComplete
      else ObservationPartial)"

section \<open>Totals\<close>

definition sum_decimal_values :: "string list \<Rightarrow> (string, workspace_portfolio_resolver_error) result" where
  "sum_decimal_values values =
     try_fold (\<lambda>total v. map_err (\<lambda>_. InvalidDecimal) (add_unsigned_decimals total v)) ''0'' values"

fun outcome_amount :: "portfolio_contribution_outcome \<Rightarrow> string option" where
  "outcome_amount (ContributionBalance (BalanceResolved _ _ amount _)) = amount"
| "outcome_amount _ = None"

definition resolved_amount :: "portfolio_contribution \<Rightarrow> string option" where
  "resolved_amount c = outcome_amount (cb_outcome c)"

fun outcome_usd_value :: "portfolio_contribution_outcome \<Rightarrow> string option" where
  "outcome_usd_value (ContributionBalance (BalanceResolved _ _ _ (QuoteAvailable currency _ v _))) =
     (if eq_ignore_ascii_case currency PORTFOLIO_QUOTE_CURRENCY then Some v else None)"
| "outcome_usd_value _ = None"

definition available_usd_quote_value :: "portfolio_contribution \<Rightarrow> string option" where
  "available_usd_quote_value c = outcome_usd_value (cb_outcome c)"

definition aggregate_asset ::
  "string \<Rightarrow> portfolio_contribution list \<Rightarrow> (aggregated_asset_observation, workspace_portfolio_resolver_error) result" where
  "aggregate_asset asset_slug contributions =
     (let amounts = List.map_filter resolved_amount contributions;
          quote_values = List.map_filter available_usd_quote_value contributions in
      and_then (if length amounts = length contributions
                then and_then (sum_decimal_values amounts) (\<lambda>total. Ok (Some total)) else Ok None) (\<lambda>total_amount.
      and_then (sum_decimal_values quote_values) (\<lambda>known_value.
      Ok \<lparr>ao_asset_slug = asset_slug, ao_total_amount = total_amount, ao_known_value = known_value,
          ao_contributions = contributions,
          ao_valuation_status =
            (if total_amount \<noteq> None \<and> length quote_values = length contributions
             then ObservationComplete else ObservationPartial)\<rparr>)))"

text \<open>The comparison of \<open>canonical_asset_order\<close> panics on an asset that the registry does not have; sorting fewer
  than two assets compares nothing.\<close>

definition sort_assets ::
  "canonical_registry \<Rightarrow> aggregated_asset_observation list \<Rightarrow> aggregated_asset_observation list option" where
  "sort_assets r assets =
     (if length assets < 2 then Some assets
      else do {
        keys \<leftarrow> map_panic (\<lambda>a. asset_by_slug r (ao_asset_slug a)) assets;
        Some (map snd (sort_by (\<lambda>left right. asset_order (fst left) (fst right)) (zip keys assets)))
      })"

section \<open>Planning\<close>

definition account_of_member :: "workspace_member_address \<Rightarrow> onchain_account" where
  "account_of_member m =
     \<lparr>oa_network_slug = m_network_slug m, oa_address = m_address m, oa_client_ref = m_client_ref m\<rparr>"

text \<open>The entries of a \<open>BTreeMap\<close> from a key to the elements that have it, in their order.\<close>

definition grouped :: "('a \<Rightarrow> 'k::linorder) \<Rightarrow> 'a list \<Rightarrow> ('k \<times> 'a list) list" where
  "grouped key xs = map (\<lambda>k. (k, filter (\<lambda>x. key x = k) xs)) (sort (remdups (map key xs)))"

definition plan_command ::
  "string list \<Rightarrow> workspace_member_address list \<Rightarrow> (get_balances_command, get_balances_command_error) result" where
  "plan_command asset_chunk member_chunk =
     try_new Latest (map account_of_member member_chunk) PORTFOLIO_QUOTE_CURRENCY
       \<lparr>ts_asset_slugs = asset_chunk, ts_contract_addresses = []\<rparr>"

definition sorted_members :: "workspace_member_address list \<Rightarrow> workspace_member_address list" where
  "sorted_members ms = sort_key (\<lambda>m. (to_ascii_lowercase (m_address m), m_public_id m)) ms"

text \<open>A network without assets has no chunks of assets, and so no commands.\<close>

definition network_chunks ::
  "canonical_registry \<Rightarrow> string \<times> workspace_member_address list \<Rightarrow> (string list \<times> workspace_member_address list) list" where
  "network_chunks r = (\<lambda>(network_slug, ms).
     let asset_slugs = active_asset_slugs_mapped_to_network r network_slug in
     if asset_slugs = [] then []
     else List.product (chunks MAX_TOKENS asset_slugs) (chunks MAX_ACCOUNTS (sorted_members ms)))"

definition plan_members ::
  "canonical_registry \<Rightarrow> workspace_member_address list \<Rightarrow> (get_balances_command list, get_balances_command_error) result" where
  "plan_members r ms =
     try_map (\<lambda>(asset_chunk, member_chunk). plan_command asset_chunk member_chunk)
       (concat (map (network_chunks r) (grouped m_network_slug ms)))"

section \<open>Composition\<close>

definition push_contributions ::
  "contribution_collections \<Rightarrow> member_key_type \<Rightarrow> portfolio_contribution list \<Rightarrow> contribution_collections option" where
  "push_contributions collections key contributions =
     (case collections key of
        None \<Rightarrow> None
      | Some existing \<Rightarrow> Some (collections(key \<mapsto> existing @ contributions)))"

fun append_unavailable ::
  "(member_key_type \<Rightarrow> workspace_member_address option) \<Rightarrow> string list \<Rightarrow> contribution_collections \<Rightarrow>
   onchain_account list \<Rightarrow> (contribution_collections, workspace_portfolio_resolver_error) result option" where
  "append_unavailable member_lookup asset_slugs collections [] = Some (Ok collections)"
| "append_unavailable member_lookup asset_slugs collections (account # accounts) =
     (case member_lookup (account_key (oa_network_slug account) (oa_address account)) of
        None \<Rightarrow> Some (Err InconsistentBalanceResult)
      | Some m \<Rightarrow> do {
          collections' \<leftarrow> push_contributions collections (member_key m)
            (map (command_unavailable_contribution m) asset_slugs);
          append_unavailable member_lookup asset_slugs collections' accounts
        })"

definition balance_contribution ::
  "workspace_member_address \<Rightarrow> balance_evidence option \<Rightarrow> balance_item_outcome \<Rightarrow> portfolio_contribution" where
  "balance_contribution m evidence outcome =
     \<lparr>cb_member_id = m_public_id m, cb_network_slug = m_network_slug m, cb_address = m_address m,
      cb_labels = m_labels m, cb_evidence = evidence, cb_outcome = ContributionBalance outcome\<rparr>"

fun append_accounts ::
  "(member_key_type \<Rightarrow> workspace_member_address option) \<Rightarrow> nat \<Rightarrow> contribution_collections \<Rightarrow>
   (onchain_account \<times> balances_account_result) list \<Rightarrow>
   (contribution_collections, workspace_portfolio_resolver_error) result option" where
  "append_accounts member_lookup token_count collections [] = Some (Ok collections)"
| "append_accounts member_lookup token_count collections ((expected, actual) # accounts) =
     (let key = account_key (oa_network_slug (ba_account actual)) (oa_address (ba_account actual)) in
      if account_key (oa_network_slug expected) (oa_address expected) \<noteq> key \<or> length (ba_items actual) \<noteq> token_count
      then Some (Err InconsistentBalanceResult)
      else
        (case member_lookup key of
           None \<Rightarrow> Some (Err InconsistentBalanceResult)
         | Some m \<Rightarrow> do {
             collections' \<leftarrow> push_contributions collections (member_key m)
               (map (balance_contribution m (ba_evidence actual)) (ba_items actual));
             append_accounts member_lookup token_count collections' accounts
           }))"

definition append_balance_result ::
  "get_balances_command \<Rightarrow> get_balances_result \<Rightarrow> (member_key_type \<Rightarrow> workspace_member_address option) \<Rightarrow>
   contribution_collections \<Rightarrow> (contribution_collections, workspace_portfolio_resolver_error) result option" where
  "append_balance_result command outcome member_lookup collections =
     (if br_quote_currency outcome \<noteq> PORTFOLIO_QUOTE_CURRENCY \<or>
         br_requested_token_count outcome \<noteq> token_selector_len (gb_tokens command) \<or>
         length (br_accounts outcome) \<noteq> length (gb_accounts command)
      then Some (Err InconsistentBalanceResult)
      else append_accounts member_lookup (token_selector_len (gb_tokens command)) collections
        (zip (gb_accounts command) (br_accounts outcome)))"

definition append_outcome ::
  "(member_key_type \<Rightarrow> workspace_member_address option) \<Rightarrow> contribution_collections \<Rightarrow>
   get_balances_command \<times> command_resolution \<Rightarrow>
   (contribution_collections, workspace_portfolio_resolver_error) result option" where
  "append_outcome member_lookup collections = (\<lambda>(command, outcome).
     if ts_contract_addresses (gb_tokens command) \<noteq> [] then Some (Err InconsistentBalanceResult)
     else
       (case outcome of
          Resolved res \<Rightarrow> append_balance_result command res member_lookup collections
        | Unavailable \<Rightarrow>
            append_unavailable member_lookup (ts_asset_slugs (gb_tokens command)) collections (gb_accounts command)))"

fun append_outcomes ::
  "(member_key_type \<Rightarrow> workspace_member_address option) \<Rightarrow> contribution_collections \<Rightarrow>
   (get_balances_command \<times> command_resolution) list \<Rightarrow>
   (contribution_collections, workspace_portfolio_resolver_error) result option" where
  "append_outcomes member_lookup collections [] = Some (Ok collections)"
| "append_outcomes member_lookup collections (x # xs) =
     (case append_outcome member_lookup collections x of
        None \<Rightarrow> None
      | Some (Err e) \<Rightarrow> Some (Err e)
      | Some (Ok collections') \<Rightarrow> append_outcomes member_lookup collections' xs)"

fun observe_members ::
  "contribution_collections \<Rightarrow> workspace_member_address list \<Rightarrow> member_portfolio_observation list option" where
  "observe_members collections [] = Some []"
| "observe_members collections (m # ms) = do {
     contributions \<leftarrow> collections (member_key m);
     rest \<leftarrow> observe_members (collections(member_key m := None)) ms;
     let sorted = sort_key contribution_order contributions;
     Some (\<lparr>mo_member = m, mo_contributions = sorted, mo_observation_status = balance_status sorted\<rparr> # rest)
   }"

definition asset_entry ::
  "canonical_registry \<Rightarrow> portfolio_contribution \<Rightarrow>
   ((string \<times> portfolio_contribution) option, workspace_portfolio_resolver_error) result" where
  "asset_entry r c =
     and_then (canonical_asset_slug (cb_outcome c)) (\<lambda>slug.
       case slug of
         None \<Rightarrow> Ok None
       | Some asset_slug \<Rightarrow>
           if asset_by_slug r asset_slug = None then Err UnknownCanonicalAsset else Ok (Some (asset_slug, c)))"

definition aggregate_assets ::
  "canonical_registry \<Rightarrow> portfolio_contribution list \<Rightarrow>
   (aggregated_asset_observation list, workspace_portfolio_resolver_error) result" where
  "aggregate_assets r contributions =
     and_then (try_map (asset_entry r) contributions) (\<lambda>entries.
     try_map (\<lambda>(asset_slug, entries). aggregate_asset asset_slug (map snd entries))
       (grouped fst (List.map_filter (\<lambda>e. e) entries)))"

definition portfolio_status ::
  "member_portfolio_observation list \<Rightarrow> portfolio_contribution list \<Rightarrow> aggregated_asset_observation list \<Rightarrow>
   portfolio_observation_status" where
  "portfolio_status observations contributions assets =
     (if observations = [] then ObservationComplete
      else if balance_status contributions = ObservationUnavailable then ObservationUnavailable
      else if balance_status contributions = ObservationPartial \<or>
              list_ex (\<lambda>a. ao_valuation_status a \<noteq> ObservationComplete) assets then ObservationPartial
      else ObservationComplete)"

definition compose ::
  "canonical_registry \<Rightarrow> workspace \<Rightarrow> workspace_member_address list \<Rightarrow> get_balances_command list \<Rightarrow>
   command_resolution list \<Rightarrow> timestamp \<Rightarrow>
   (current_workspace_portfolio, workspace_portfolio_resolver_error) result option" where
  "compose r workspace ms commands outcomes resolved_at =
     (if length commands \<noteq> length outcomes then Some (Err InconsistentBalanceResult)
      else
        (let ms = sort_key member_order ms;
             member_lookup = map_of (rev (map (\<lambda>m. (member_key m, m)) ms));
             collections = map_of (map (\<lambda>m. (member_key m, [])) ms) in
         case append_outcomes member_lookup collections (zip commands outcomes) of
           None \<Rightarrow> None
         | Some (Err e) \<Rightarrow> Some (Err e)
         | Some (Ok collections) \<Rightarrow> do {
             observations \<leftarrow> observe_members collections ms;
             let contributions = concat (map mo_contributions observations);
             (case aggregate_assets r contributions of
                Err e \<Rightarrow> Some (Err e)
              | Ok assets \<Rightarrow> do {
                  assets \<leftarrow> sort_assets r assets;
                  (case sum_decimal_values (map ao_known_value assets) of
                     Err e \<Rightarrow> Some (Err e)
                   | Ok known_value \<Rightarrow>
                       Some (Ok \<lparr>cp_workspace = workspace, cp_resolved_at = resolved_at,
                         cp_quote_currency = PORTFOLIO_QUOTE_CURRENCY, cp_members = observations, cp_assets = assets,
                         cp_known_value = known_value,
                         cp_valuation_status = portfolio_status observations contributions assets\<rparr>))
                })
           }))"

definition command_outcome ::
  "balance_service \<Rightarrow> (nat list \<Rightarrow> nat option list) \<Rightarrow> get_balances_command \<Rightarrow> command_resolution option" where
  "command_outcome sv schedule command =
     map_option (\<lambda>outcome. case outcome of Ok res \<Rightarrow> Resolved res | Err _ \<Rightarrow> Unavailable) (resolve sv schedule command)"

definition resolve_workspace_portfolio ::
  "canonical_registry \<Rightarrow> balance_service \<Rightarrow> (nat list \<Rightarrow> nat option list) \<Rightarrow> workspace \<Rightarrow>
   workspace_member_address list \<Rightarrow> timestamp \<Rightarrow>
   (current_workspace_portfolio, workspace_portfolio_resolver_error) result option" where
  "resolve_workspace_portfolio r sv schedule workspace ms now =
     (case plan_members r ms of
        Err e \<Rightarrow> Some (Err (Planning e))
      | Ok commands \<Rightarrow> do {
          outcomes \<leftarrow> map_panic (command_outcome sv schedule) commands;
          compose r workspace ms commands outcomes now
        })"

section \<open>Exact totals\<close>

lemma add_unsigned_decimals_Ok: "add_unsigned_decimals l r = Ok s \<Longrightarrow> is_decimal l \<and> is_decimal r"
  by (cases "is_decimal l \<and> is_decimal r") (auto simp: add_unsigned_decimals_def parse_unsigned_decimal_iff split: if_splits)

lemma sum_decimal_values_from:
  assumes "try_fold (\<lambda>total v. map_err (\<lambda>_. InvalidDecimal) (add_unsigned_decimals total v)) z xs = Ok s" "is_decimal z"
  shows "(\<forall>x\<in>set xs. is_decimal x) \<and> is_decimal s \<and> dec_value s = dec_value z + sum_list (map dec_value xs)"
  using assms
proof (induction xs arbitrary: z)
  case (Cons x xs)
  then obtain z' where z': "add_unsigned_decimals z x = Ok z'"
    "try_fold (\<lambda>total v. map_err (\<lambda>_. InvalidDecimal) (add_unsigned_decimals total v)) z' xs = Ok s"
    by (auto simp: and_then_Ok_iff map_err_Ok_iff)
  then have "is_decimal x" using add_unsigned_decimals_Ok[OF z'(1)] by simp
  with z' add_unsigned_decimals_value[OF Cons.prems(2)] Cons.IH[OF z'(2)] show ?case by force
qed simp

lemma zero_text: "is_decimal ''0''" "dec_value ''0'' = 0"
  by (simp_all add: is_decimal_def is_ascii_digit_def dec_value_def dec_digits_def dec_scale_def number_of_digits_def digit_value_def)

lemma sum_decimal_values_Ok:
  assumes "sum_decimal_values xs = Ok s"
  shows "\<forall>x\<in>set xs. is_decimal x" "is_decimal s" "dec_value s = sum_list (map dec_value xs)"
  using sum_decimal_values_from[of "''0''" xs s] assms zero_text unfolding sum_decimal_values_def by auto

lemma sum_decimal_values_total:
  assumes "\<forall>x\<in>set xs. is_decimal x"
  shows "\<exists>s. sum_decimal_values xs = Ok s"
proof -
  have "\<exists>s. try_fold (\<lambda>total v. map_err (\<lambda>_. InvalidDecimal) (add_unsigned_decimals total v)) z xs = Ok s"
    if "is_decimal z" for z
    using assms that
  proof (induction xs arbitrary: z)
    case (Cons x xs)
    then obtain z' where "add_unsigned_decimals z x = Ok z'" "is_decimal z'"
      using add_unsigned_decimals_value[of z x] by auto
    then show ?case using Cons by simp
  qed simp
  then show ?thesis using zero_text(1) unfolding sum_decimal_values_def by blast
qed

lemma sum_list_at:
  fixes g :: "'k \<Rightarrow> 'b::comm_monoid_add"
  assumes "distinct ks" "a \<in> set ks"
  shows "sum_list (map (\<lambda>k. if k = a then c + g k else g k) ks) = c + sum_list (map g ks)"
  using assms
proof (induction ks)
  case (Cons k ks)
  show ?case
  proof (cases "k = a")
    case True
    then have "map (\<lambda>k. if k = a then c + g k else g k) ks = map g ks" using Cons.prems by (intro map_cong) auto
    then show ?thesis using True by (simp add: add.assoc del: map_eq_conv)
  next
    case False
    then show ?thesis using Cons by (auto simp: add.left_commute)
  qed
qed simp

lemma sum_by_key:
  fixes v :: "'a \<Rightarrow> 'b::comm_monoid_add"
  assumes "distinct ks" "key ` set xs \<subseteq> set ks"
  shows "sum_list (map (\<lambda>k. sum_list (map v (filter (\<lambda>x. key x = k) xs))) ks) = sum_list (map v xs)"
  using assms(2)
proof (induction xs)
  case (Cons x xs)
  have "(\<lambda>k. sum_list (map v (filter (\<lambda>x. key x = k) (x # xs)))) =
      (\<lambda>k. if k = key x then v x + sum_list (map v (filter (\<lambda>x. key x = k) xs))
           else sum_list (map v (filter (\<lambda>x. key x = k) xs)))" by (auto simp: fun_eq_iff)
  then show ?case using Cons sum_list_at[OF assms(1), of "key x" "v x"] by simp
qed simp

lemma sum_grouped:
  fixes v :: "'a \<Rightarrow> 'b::comm_monoid_add"
  shows "sum_list (map (\<lambda>(k, ys). sum_list (map v ys)) (grouped key xs)) = sum_list (map v xs)"
  unfolding grouped_def map_map comp_def prod.case by (intro sum_by_key) auto

text \<open>The value that a contribution adds to the portfolio.\<close>

definition usd_value :: "portfolio_contribution \<Rightarrow> rat" where
  "usd_value c = (case available_usd_quote_value c of None \<Rightarrow> 0 | Some v \<Rightarrow> dec_value v)"

lemma sum_map_filter:
  fixes v :: "'b \<Rightarrow> 'c::comm_monoid_add"
  shows "sum_list (map v (List.map_filter f xs)) = sum_list (map (\<lambda>x. case f x of None \<Rightarrow> 0 | Some y \<Rightarrow> v y) xs)"
  by (induction xs) (auto simp: map_filter_simps split: option.splits)

lemma length_map_filter: "length (List.map_filter f xs) = length xs \<longleftrightarrow> (\<forall>x\<in>set xs. f x \<noteq> None)"
proof (induction xs)
  case (Cons x xs)
  have "length (List.map_filter f xs) \<le> length xs" by (simp add: map_filter_def)
  then show ?case using Cons by (auto simp: map_filter_simps split: option.splits)
qed (simp add: map_filter_simps)

text \<open>What is asserted of the totals of one asset.\<close>

definition totals_exact :: "aggregated_asset_observation \<Rightarrow> bool" where
  "totals_exact a \<longleftrightarrow>
     is_decimal (ao_known_value a) \<and> dec_value (ao_known_value a) = sum_list (map usd_value (ao_contributions a)) \<and>
     (case ao_total_amount a of
        None \<Rightarrow> \<exists>c\<in>set (ao_contributions a). resolved_amount c = None
      | Some amount \<Rightarrow> (\<forall>c\<in>set (ao_contributions a). resolved_amount c \<noteq> None) \<and> is_decimal amount \<and>
          dec_value amount = sum_list (map (\<lambda>c. dec_value (the (resolved_amount c))) (ao_contributions a))) \<and>
     (ao_valuation_status a = ObservationComplete \<longleftrightarrow>
        (\<forall>c\<in>set (ao_contributions a). resolved_amount c \<noteq> None \<and> available_usd_quote_value c \<noteq> None))"

lemma aggregate_asset_exact:
  assumes "aggregate_asset slug cs = Ok a"
  shows "ao_asset_slug a = slug" "ao_contributions a = cs" "totals_exact a"
proof -
  obtain amount known where a: "a = \<lparr>ao_asset_slug = slug, ao_total_amount = amount, ao_known_value = known,
      ao_contributions = cs, ao_valuation_status =
        (if amount \<noteq> None \<and> length (List.map_filter available_usd_quote_value cs) = length cs
         then ObservationComplete else ObservationPartial)\<rparr>"
    and known: "sum_decimal_values (List.map_filter available_usd_quote_value cs) = Ok known"
    and total: "if \<forall>c\<in>set cs. resolved_amount c \<noteq> None
      then \<exists>t. amount = Some t \<and> sum_decimal_values (List.map_filter resolved_amount cs) = Ok t else amount = None"
    using assms unfolding aggregate_asset_def Let_def length_map_filter[of resolved_amount]
    by (auto simp: and_then_Ok_iff split: if_splits)
  show "ao_asset_slug a = slug" "ao_contributions a = cs" by (simp_all add: a)
  have "is_decimal known \<and> dec_value known = sum_list (map usd_value cs)"
    using sum_decimal_values_Ok[OF known] unfolding sum_map_filter usd_value_def by blast
  moreover have "case amount of None \<Rightarrow> \<exists>c\<in>set cs. resolved_amount c = None
      | Some t \<Rightarrow> (\<forall>c\<in>set cs. resolved_amount c \<noteq> None) \<and> is_decimal t \<and>
          dec_value t = sum_list (map (\<lambda>c. dec_value (the (resolved_amount c))) cs)"
  proof (cases "\<forall>c\<in>set cs. resolved_amount c \<noteq> None")
    case True
    then obtain t where t: "amount = Some t" "sum_decimal_values (List.map_filter resolved_amount cs) = Ok t"
      using total by auto
    have "map (\<lambda>c. case resolved_amount c of None \<Rightarrow> 0 | Some v \<Rightarrow> dec_value v) cs =
        map (\<lambda>c. dec_value (the (resolved_amount c))) cs" using True by (intro map_cong) auto
    then show ?thesis using sum_decimal_values_Ok[OF t(2)] True t(1) by (simp add: sum_map_filter del: map_eq_conv)
  next
    case False
    then show ?thesis using total by auto
  qed
  moreover have "amount \<noteq> None \<longleftrightarrow> (\<forall>c\<in>set cs. resolved_amount c \<noteq> None)" using total by (auto split: if_splits)
  ultimately show "totals_exact a" by (auto simp: totals_exact_def a length_map_filter)
qed

definition resolved_of :: "portfolio_contribution list \<Rightarrow> portfolio_contribution list" where
  "resolved_of cs = filter (\<lambda>c. outcome_resolved (cb_outcome c)) cs"

lemma asset_entry_Ok:
  "asset_entry r c = Ok e \<longleftrightarrow>
     (if outcome_resolved (cb_outcome c)
      then \<exists>s. contribution_asset_slug c = Some s \<and> asset_by_slug r s \<noteq> None \<and> e = Some (s, c)
      else e = None)"
  unfolding asset_entry_def contribution_asset_slug_def
  by (cases "cb_outcome c" rule: canonical_asset_slug.cases) (auto split: option.splits)

lemma asset_entries:
  assumes "try_map (asset_entry r) cs = Ok entries"
  shows "List.map_filter (\<lambda>e. e) entries = map (\<lambda>c. (the (contribution_asset_slug c), c)) (resolved_of cs)"
    "c \<in> set (resolved_of cs) \<Longrightarrow> \<exists>s. contribution_asset_slug c = Some s \<and> asset_by_slug r s \<noteq> None"
proof -
  show "List.map_filter (\<lambda>e. e) entries = map (\<lambda>c. (the (contribution_asset_slug c), c)) (resolved_of cs)"
    using assms
  proof (induction cs arbitrary: entries)
    case (Cons c cs)
    then show ?case
      by (cases "outcome_resolved (cb_outcome c)") (auto simp: and_then_Ok_iff asset_entry_Ok resolved_of_def map_filter_simps)
  qed (simp add: resolved_of_def map_filter_simps)
  show "c \<in> set (resolved_of cs) \<Longrightarrow> \<exists>s. contribution_asset_slug c = Some s \<and> asset_by_slug r s \<noteq> None"
    using assms by (auto simp: resolved_of_def try_map_Ok_iff in_set_conv_nth asset_entry_Ok dest!: list_all2_nthD)
qed

lemma resolved_values: "available_usd_quote_value c \<noteq> None \<Longrightarrow> outcome_resolved (cb_outcome c)"
  "resolved_amount c \<noteq> None \<Longrightarrow> outcome_resolved (cb_outcome c)"
  unfolding available_usd_quote_value_def resolved_amount_def
  by (cases "cb_outcome c" rule: outcome_resolved.cases; simp)+

lemma usd_of_resolved: "sum_list (map usd_value (resolved_of cs)) = sum_list (map usd_value cs)"
proof (induction cs)
  case (Cons c cs)
  then show ?case using resolved_values(1)[of c] by (auto simp: resolved_of_def usd_value_def split: option.splits)
qed (simp add: resolved_of_def)

text \<open>The contributions of an asset are the balances that resolved for it.\<close>

definition contributions_of :: "string \<Rightarrow> portfolio_contribution list \<Rightarrow> portfolio_contribution list" where
  "contributions_of slug cs = filter (\<lambda>c. contribution_asset_slug c = Some slug) (resolved_of cs)"

lemma list_all2_right: "list_all2 P xs ys \<Longrightarrow> y \<in> set ys \<Longrightarrow> \<exists>x\<in>set xs. P x y"
  by (metis in_set_conv_nth list_all2_conv_all_nth)

lemma list_all2_map_eq: "list_all2 P xs ys \<Longrightarrow> (\<And>x y. P x y \<Longrightarrow> g y = f x) \<Longrightarrow> map g ys = map f xs"
  by (induction rule: list_all2_induct) auto

lemma grouped_mem: "x \<in> set (grouped key xs) \<longleftrightarrow> (\<exists>k\<in>key ` set xs. x = (k, filter (\<lambda>y. key y = k) xs))"
  by (auto simp: grouped_def)

lemma aggregate_assets_exact:
  assumes "aggregate_assets r cs = Ok assets"
  shows "\<forall>a\<in>set assets. totals_exact a \<and> ao_contributions a = contributions_of (ao_asset_slug a) cs \<and>
      asset_by_slug r (ao_asset_slug a) \<noteq> None"
    "sum_list (map (\<lambda>a. dec_value (ao_known_value a)) assets) = sum_list (map usd_value cs)"
    "(\<forall>a\<in>set assets. ao_valuation_status a = ObservationComplete) \<longleftrightarrow>
      (\<forall>c\<in>set (resolved_of cs). resolved_amount c \<noteq> None \<and> available_usd_quote_value c \<noteq> None)"
    "map ao_asset_slug assets = sort (remdups (map (\<lambda>c. the (contribution_asset_slug c)) (resolved_of cs)))"
proof -
  let ?es = "map (\<lambda>c. (the (contribution_asset_slug c), c)) (resolved_of cs)"
  obtain entries where e: "try_map (asset_entry r) cs = Ok entries"
    "try_map (\<lambda>(slug, es). aggregate_asset slug (map snd es)) (grouped fst ?es) = Ok assets"
    using assms by (auto simp: aggregate_assets_def and_then_Ok_iff asset_entries(1))
  note slugs = asset_entries(2)[OF e(1)]
  have all: "list_all2 (\<lambda>x a. ao_asset_slug a = fst x \<and> ao_contributions a = map snd (snd x) \<and> totals_exact a)
      (grouped fst ?es) assets"
    by (rule list_all2_mono[OF e(2)[unfolded try_map_Ok_iff]]) (auto simp: aggregate_asset_exact)
  have grp: "map snd (snd x) = contributions_of (fst x) cs" "fst x \<in> fst ` set ?es" if x: "x \<in> set (grouped fst ?es)" for x
  proof -
    from x obtain k where k: "x = (k, filter (\<lambda>e. fst e = k) ?es)" "k \<in> fst ` set ?es"
      unfolding grouped_mem by blast
    have "map snd (filter (\<lambda>e. fst e = k) ?es) = filter (\<lambda>c. the (contribution_asset_slug c) = k) (resolved_of cs)"
      by (simp add: filter_map comp_def)
    also have "\<dots> = contributions_of k cs"
      unfolding contributions_of_def by (intro filter_cong refl) (auto dest!: slugs)
    finally show "map snd (snd x) = contributions_of (fst x) cs" "fst x \<in> fst ` set ?es" using k by simp_all
  qed
  have a: "totals_exact a \<and> ao_contributions a = contributions_of (ao_asset_slug a) cs \<and> ao_asset_slug a \<in> fst ` set ?es"
    if m: "a \<in> set assets" for a
  proof -
    obtain x where "x \<in> set (grouped fst ?es)" "ao_asset_slug a = fst x" "ao_contributions a = map snd (snd x)" "totals_exact a"
      using list_all2_right[OF all m] by blast
    then show ?thesis using grp by simp
  qed
  show "\<forall>a\<in>set assets. totals_exact a \<and> ao_contributions a = contributions_of (ao_asset_slug a) cs \<and>
      asset_by_slug r (ao_asset_slug a) \<noteq> None"
    using a slugs by fastforce
  have "map (\<lambda>a. dec_value (ao_known_value a)) assets = map (\<lambda>x. sum_list (map (\<lambda>e. usd_value (snd e)) (snd x))) (grouped fst ?es)"
    by (rule list_all2_map_eq[OF all]) (simp add: totals_exact_def comp_def)
  then show "sum_list (map (\<lambda>a. dec_value (ao_known_value a)) assets) = sum_list (map usd_value cs)"
    using sum_grouped[of "\<lambda>e. usd_value (snd e)" fst ?es] usd_of_resolved by (simp add: case_prod_unfold comp_def)
  show names: "map ao_asset_slug assets = sort (remdups (map (\<lambda>c. the (contribution_asset_slug c)) (resolved_of cs)))"
    using list_all2_map_eq[OF all, of ao_asset_slug fst] by (simp add: grouped_def comp_def)
  have "c \<in> (\<Union>a\<in>set assets. set (ao_contributions a))" if c: "c \<in> set (resolved_of cs)" for c
  proof -
    obtain s where s: "contribution_asset_slug c = Some s" using slugs[OF c] by blast
    then have "s \<in> set (map ao_asset_slug assets)" unfolding names using c by (force simp: image_iff)
    then show ?thesis using a c s by (auto simp: contributions_of_def)
  qed
  then show "(\<forall>a\<in>set assets. ao_valuation_status a = ObservationComplete) \<longleftrightarrow>
      (\<forall>c\<in>set (resolved_of cs). resolved_amount c \<noteq> None \<and> available_usd_quote_value c \<noteq> None)"
    using a by (fastforce simp: totals_exact_def contributions_of_def)
qed

lemma sort_assets_mset:
  assumes "sort_assets r assets = Some ordered"
  shows "mset ordered = mset assets"
proof (cases "length assets < 2")
  case False
  then obtain keys where k: "map_panic (\<lambda>a. asset_by_slug r (ao_asset_slug a)) assets = Some keys"
    "ordered = map snd (sort_by (\<lambda>left right. asset_order (fst left) (fst right)) (zip keys assets))"
    using assms by (auto simp: sort_assets_def bind_eq_Some_conv)
  have "length keys = length assets" using map_panic_SomeD[OF k(1)] by (simp add: list_all2_lengthD)
  then have "mset (map snd (zip keys assets)) = mset assets" by simp
  then show ?thesis by (simp add: k(2))
qed (use assms in \<open>simp add: sort_assets_def\<close>)

lemma sort_assets_total:
  assumes "\<forall>a\<in>set assets. asset_by_slug r (ao_asset_slug a) \<noteq> None"
  shows "\<exists>ordered. sort_assets r assets = Some ordered"
  using map_panic_SomeI[of assets "\<lambda>a. asset_by_slug r (ao_asset_slug a)"] assms by (auto simp: sort_assets_def)

lemma balance_status_iff:
  "balance_status cs = ObservationComplete \<longleftrightarrow> (\<forall>c\<in>set cs. outcome_resolved (cb_outcome c))"
  "balance_status cs = ObservationUnavailable \<longleftrightarrow> cs \<noteq> [] \<and> resolved_of cs = []"
proof -
  have "length (filter P cs) = length cs \<longleftrightarrow> (\<forall>c\<in>set cs. P c)" for P
    by (metis filter_True filter_id_conv length_filter_less less_irrefl)
  then show "balance_status cs = ObservationComplete \<longleftrightarrow> (\<forall>c\<in>set cs. outcome_resolved (cb_outcome c))"
    "balance_status cs = ObservationUnavailable \<longleftrightarrow> cs \<noteq> [] \<and> resolved_of cs = []"
    by (auto simp: balance_status_def Let_def resolved_of_def filter_empty_conv)
qed

lemma case_Ok:
  "(case x of Err e \<Rightarrow> Some (Err e) | Ok v \<Rightarrow> f v) = Some (Ok p) \<longleftrightarrow> (\<exists>v. x = Ok v \<and> f v = Some (Ok p))"
  "(case y of None \<Rightarrow> None | Some (Err e) \<Rightarrow> Some (Err e) | Some (Ok v) \<Rightarrow> g v) = Some (Ok p) \<longleftrightarrow>
     (\<exists>v. y = Some (Ok v) \<and> g v = Some (Ok p))"
  "(if b then Some (Err e) else z) = Some (Ok p) \<longleftrightarrow> \<not> b \<and> z = Some (Ok p)"
  by (auto split: result.splits option.splits)

lemma compose_Ok:
  assumes "compose r w ms commands outcomes now = Some (Ok p)"
  obtains collections assets where
    "append_outcomes (map_of (rev (map (\<lambda>m. (member_key m, m)) (sort_key member_order ms))))
       (map_of (map (\<lambda>m. (member_key m, [])) (sort_key member_order ms))) (zip commands outcomes) = Some (Ok collections)"
    "observe_members collections (sort_key member_order ms) = Some (cp_members p)"
    "aggregate_assets r (concat (map mo_contributions (cp_members p))) = Ok assets" "mset (cp_assets p) = mset assets"
    "sum_decimal_values (map ao_known_value (cp_assets p)) = Ok (cp_known_value p)"
    "cp_valuation_status p = portfolio_status (cp_members p) (concat (map mo_contributions (cp_members p))) (cp_assets p)"
proof -
  obtain collections observations assets ordered known where c:
    "append_outcomes (map_of (rev (map (\<lambda>m. (member_key m, m)) (sort_key member_order ms))))
       (map_of (map (\<lambda>m. (member_key m, [])) (sort_key member_order ms))) (zip commands outcomes) = Some (Ok collections)"
    "observe_members collections (sort_key member_order ms) = Some observations"
    "aggregate_assets r (concat (map mo_contributions observations)) = Ok assets" "sort_assets r assets = Some ordered"
    "sum_decimal_values (map ao_known_value ordered) = Ok known"
    "p = \<lparr>cp_workspace = w, cp_resolved_at = now, cp_quote_currency = PORTFOLIO_QUOTE_CURRENCY,
      cp_members = observations, cp_assets = ordered, cp_known_value = known,
      cp_valuation_status = portfolio_status observations (concat (map mo_contributions observations)) ordered\<rparr>"
    using assms unfolding compose_def Let_def case_Ok bind_eq_Some_conv by blast
  show thesis using c sort_assets_mset[OF c(4)] by (intro that[of collections assets]) simp_all
qed

text \<open>The contributions of all members.\<close>

definition portfolio_contributions :: "current_workspace_portfolio \<Rightarrow> portfolio_contribution list" where
  "portfolio_contributions p = concat (map mo_contributions (cp_members p))"

lemma compose_exact:
  assumes "compose r w ms commands outcomes now = Some (Ok p)"
  shows "is_decimal (cp_known_value p)" "dec_value (cp_known_value p) = sum_list (map usd_value (portfolio_contributions p))"
    "a \<in> set (cp_assets p) \<Longrightarrow> totals_exact a \<and> ao_contributions a = contributions_of (ao_asset_slug a) (portfolio_contributions p)"
    "cp_valuation_status p = ObservationComplete \<longleftrightarrow>
       (\<forall>c\<in>set (portfolio_contributions p). resolved_amount c \<noteq> None \<and> available_usd_quote_value c \<noteq> None)"
    "distinct (map ao_asset_slug (cp_assets p))"
proof -
  obtain assets where c: "aggregate_assets r (portfolio_contributions p) = Ok assets" "mset (cp_assets p) = mset assets"
    "sum_decimal_values (map ao_known_value (cp_assets p)) = Ok (cp_known_value p)"
    "cp_valuation_status p = portfolio_status (cp_members p) (portfolio_contributions p) (cp_assets p)"
    using compose_Ok[OF assms] unfolding portfolio_contributions_def by blast
  note exact = aggregate_assets_exact[OF c(1)] and same = mset_eq_setD[OF c(2)]
  have "sum_list (map (\<lambda>a. dec_value (ao_known_value a)) (cp_assets p)) =
      sum_list (map (\<lambda>a. dec_value (ao_known_value a)) assets)"
    unfolding sum_mset_sum_list[symmetric] mset_map c(2) ..
  then show "is_decimal (cp_known_value p)"
    "dec_value (cp_known_value p) = sum_list (map usd_value (portfolio_contributions p))"
    using sum_decimal_values_Ok[OF c(3)] exact(2) by (simp_all add: comp_def)
  show "a \<in> set (cp_assets p) \<Longrightarrow> totals_exact a \<and>
      ao_contributions a = contributions_of (ao_asset_slug a) (portfolio_contributions p)"
    using exact(1) same by blast
  have empty: "cp_members p = [] \<Longrightarrow> portfolio_contributions p = []" by (simp add: portfolio_contributions_def)
  have ex: "list_ex (\<lambda>a. ao_valuation_status a \<noteq> ObservationComplete) (cp_assets p) \<longleftrightarrow>
      \<not> (\<forall>c\<in>set (resolved_of (portfolio_contributions p)). resolved_amount c \<noteq> None \<and> available_usd_quote_value c \<noteq> None)"
    unfolding list_ex_iff same exact(3)[symmetric] by blast
  have "cp_valuation_status p = ObservationComplete \<longleftrightarrow> cp_members p = [] \<or>
      (balance_status (portfolio_contributions p) = ObservationComplete \<and>
       (\<forall>c\<in>set (resolved_of (portfolio_contributions p)). resolved_amount c \<noteq> None \<and> available_usd_quote_value c \<noteq> None))"
    unfolding c(4) portfolio_status_def ex by (cases "balance_status (portfolio_contributions p)") simp_all
  also have "\<dots> \<longleftrightarrow> (\<forall>c\<in>set (portfolio_contributions p). resolved_amount c \<noteq> None \<and> available_usd_quote_value c \<noteq> None)"
    unfolding balance_status_iff resolved_of_def set_filter using empty resolved_values(2) by (cases "cp_members p = []") (simp, blast)
  finally show "cp_valuation_status p = ObservationComplete \<longleftrightarrow>
       (\<forall>c\<in>set (portfolio_contributions p). resolved_amount c \<noteq> None \<and> available_usd_quote_value c \<noteq> None)" .
  have "distinct (map ao_asset_slug assets)" by (simp add: exact(4))
  then show "distinct (map ao_asset_slug (cp_assets p))" 
    using mset_eq_imp_distinct_iff[of "map ao_asset_slug (cp_assets p)" "map ao_asset_slug assets"] c(2) by simp
qed

section \<open>What the balance service answers\<close>

fun plan_named :: "token_plan \<Rightarrow> bool" where
  "plan_named (Supported i t) \<longleftrightarrow> (\<forall>a. rt_selector t = AssetSlug a \<longrightarrow> rt_asset_slug t = Some a)"
| "plan_named (Skipped n a) \<longleftrightarrow> True"

lemma plan_asset_named:
  assumes "plan_inv s" "plan_asset n s (requested, res) = Ok s'"
  shows "plan_inv s' \<and> (\<exists>p. ps_token_plans s' = ps_token_plans s @ [p] \<and> plan_named p)"
proof -
  obtain p where p: "plan_inv s'" "ps_token_plans s' = ps_token_plans s @ [p]" "plan_of_asset requested res p"
    using plan_asset_Ok[OF assms] by blast
  moreover have "plan_named p"
    using p(3) assms(2) by (cases res; cases p) (auto simp: resolved_target_from_asset_selector_def split: if_splits)
  ultimately show ?thesis by blast
qed

lemma plan_contract_named:
  assumes "plan_inv s" "plan_contract n s (requested, res) = Ok s'"
  shows "plan_inv s' \<and> (\<exists>p. ps_token_plans s' = ps_token_plans s @ [p] \<and> plan_named p)"
proof -
  obtain p where p: "plan_inv s'" "ps_token_plans s' = ps_token_plans s @ [p]" "plan_of_contract requested res p"
    using plan_contract_Ok[OF assms] by blast
  moreover have "plan_named p"
    using p(3) by (cases res; cases p) (auto simp: resolved_target_from_contract_selector_def unresolved_contract_target_def)
  ultimately show ?thesis by blast
qed

lemma plan_network_group_named:
  assumes "plan_network_group grp as_of tokens nr rs cs = Ok plan" "p \<in> set (np_token_plans plan)"
  shows "plan_named p"
proof -
  let ?n = "gp_network_slug grp" and ?as = "ts_asset_slugs tokens" and ?cs = "ts_contract_addresses tokens"
  let ?s0 = "\<lparr>ps_chain_id = map_option nr_chain_id nr, ps_targets = [], ps_target_indexes = Map.empty,
    ps_token_plans = []\<rparr>"
  obtain s1 s2 where s: "length rs = length ?as" "length cs = length ?cs"
    "try_fold (plan_asset ?n) ?s0 (zip ?as rs) = Ok s1" "try_fold (plan_contract ?n) s1 (zip ?cs cs) = Ok s2"
    and plan: "np_token_plans plan = ps_token_plans s2"
    using assms(1) by (auto simp: plan_network_group_def and_then_Ok_iff Let_def split: if_splits)
  have i0: "plan_inv ?s0" by (simp add: plan_inv_def fun_eq_iff)
  obtain ps where ps: "plan_inv s1" "ps_token_plans s1 = ps" "\<forall>p\<in>set ps. plan_named p"
    using plan_loop[OF s(3) i0 s(1), where Q = "\<lambda>k r p. plan_named p"] plan_asset_named
    by (auto simp: all_set_conv_all_nth)
  obtain qs where "ps_token_plans s2 = ps @ qs" "\<forall>p\<in>set qs. plan_named p"
    using plan_loop[OF s(4) ps(1) s(2), where Q = "\<lambda>k r p. plan_named p"] plan_contract_named ps(2)
    by (auto simp: all_set_conv_all_nth)
  then show ?thesis using ps(3) assms(2) by (auto simp: plan)
qed

text \<open>An item for a slug, with decimal texts for its amount and its value.\<close>

definition item_for :: "string \<Rightarrow> balance_item_outcome \<Rightarrow> bool" where
  "item_for a item \<longleftrightarrow> outcome_asset_slug (ContributionBalance item) = Some a \<and>
     (\<forall>v. outcome_amount (ContributionBalance item) = Some v \<longrightarrow> is_decimal v) \<and>
     (\<forall>v. outcome_usd_value (ContributionBalance item) = Some v \<longrightarrow> is_decimal v)"

lemma item_for_priced:
  assumes "plan_selects n tokens j p" "j < length (ts_asset_slugs tokens)" "plan_named p"
    "item_from plan e account p raw" "item_priced quotes raw item"
  shows "item_for (ts_asset_slugs tokens ! j) item"
proof (cases p)
  case (Supported i t)
  then have t: "rt_asset_slug t = Some (ts_asset_slugs tokens ! j)" using assms(1-3) by simp
  from Supported assms(4) consider r where "raw = RawResolved t r" | code where "raw = RawFailed t code" by auto
  then show ?thesis
  proof cases
    case 1
    then obtain amount quote where "item = BalanceResolved t r amount quote" "amount_exact (rt_decimals t) r amount"
      "quote_exact quotes t r quote" using assms(5) by auto
    then show ?thesis using t by (cases quote) (auto simp: item_for_def amount_exact_def split: option.splits)
  next
    case 2
    then show ?thesis using assms(5) t by (simp add: item_for_def)
  qed
next
  case (Skipped n' a)
  then show ?thesis using assms by (simp add: item_for_def)
qed

text \<open>A command for slugs only, and an outcome that answers it.\<close>

definition slug_command :: "string list \<Rightarrow> get_balances_command \<Rightarrow> bool" where
  "slug_command slugs c \<longleftrightarrow> gb_tokens c = \<lparr>ts_asset_slugs = slugs, ts_contract_addresses = []\<rparr> \<and>
     gb_quote_currency c = PORTFOLIO_QUOTE_CURRENCY"

fun outcome_answers :: "string list \<Rightarrow> get_balances_command \<Rightarrow> command_resolution \<Rightarrow> bool" where
  "outcome_answers slugs c Unavailable \<longleftrightarrow> True"
| "outcome_answers slugs c (Resolved res) \<longleftrightarrow>
     map ba_account (br_accounts res) = gb_accounts c \<and> br_quote_currency res = PORTFOLIO_QUOTE_CURRENCY \<and>
     br_requested_token_count res = length slugs \<and>
     (\<forall>b\<in>set (br_accounts res). list_all2 item_for slugs (ba_items b))"

lemma account_answer_item_for:
  assumes "account_answer sv c quotes j b" "slug_command slugs c"
  shows "list_all2 item_for slugs (ba_items b)"
proof -
  obtain r grp plan where r: "plan_group (sv_registry sv) c grp = Ok plan"
    "account_from plan (final_execution sv plan) (as_group_account (j, gb_accounts c ! j)) (j, r)"
    "list_all2 (item_priced quotes) (ra_items r) (ba_items b)"
    using assms(1) by (auto simp: account_answer_def raw_result_of_def)
  obtain nr rs cs where p: "plan_network_group grp (gb_as_of c) (gb_tokens c) nr rs cs = Ok plan"
    using plan_group_Ok[OF r(1)] by blast
  note sel = plan_network_group_Ok(4,5)[OF p]
  have it: "list_all2 (item_from plan (final_execution sv plan) (gb_accounts c ! j)) (np_token_plans plan) (ra_items r)"
    using r(2) by (simp add: account_from_def as_group_account_def)
  have n: "token_selector_len (gb_tokens c) = length slugs" "ts_asset_slugs (gb_tokens c) = slugs"
    using assms(2) by (simp_all add: slug_command_def token_selector_len_def)
  have len: "length (np_token_plans plan) = length slugs" "length (ra_items r) = length slugs" "length (ba_items b) = length slugs"
    using sel(1) n list_all2_lengthD[OF it] list_all2_lengthD[OF r(3)] by simp_all
  show ?thesis
  proof (rule list_all2_all_nthI)
    fix k assume k: "k < length slugs"
    have "plan_named (np_token_plans plan ! k)" using plan_network_group_named[OF p] k len(1) by simp
    from item_for_priced[OF sel(2) _ this list_all2_nthD[OF it] list_all2_nthD[OF r(3)]] show "item_for (slugs ! k) (ba_items b ! k)"
      using k n len by simp
  qed (use len in simp)
qed

lemma command_outcome_answers:
  assumes "reports_each_task schedule" "slug_command slugs c"
  shows "\<exists>out. command_outcome sv schedule c = Some out \<and> outcome_answers slugs c out"
proof -
  obtain outcome where o: "resolve sv schedule c = Some outcome" using resolve_total[OF assms(1)] by blast
  show ?thesis
  proof (cases outcome)
    case (Ok res)
    obtain raw where raw:
      "\<forall>j<length (br_accounts res). account_answer sv c (load_quotes sv c raw) j (br_accounts res ! j)"
      using resolve_outcome[OF assms(1), of sv c] o Ok by (auto split: result.splits if_splits)
    have "list_all2 item_for slugs (ba_items b)" if "b \<in> set (br_accounts res)" for b
      using that raw account_answer_item_for[OF _ assms(2)] by (auto simp: in_set_conv_nth)
    then have "outcome_answers slugs c (Resolved res)"
      using resolve_shape(1-3)[OF assms(1) o[unfolded Ok]] assms(2) by (simp add: slug_command_def token_selector_len_def)
    then show ?thesis using o Ok by (simp add: command_outcome_def)
  qed (use o in \<open>simp add: command_outcome_def\<close>)
qed

section \<open>Collecting the contributions\<close>

text \<open>Contributions of one member, for the given slugs in their order.\<close>

definition contribution_ok :: "workspace_member_address \<Rightarrow> portfolio_contribution \<Rightarrow> bool" where
  "contribution_ok m c \<longleftrightarrow> cb_member_id c = m_public_id m \<and> cb_network_slug c = m_network_slug m \<and>
     cb_address c = m_address m \<and> cb_labels c = m_labels m \<and>
     (\<forall>v. resolved_amount c = Some v \<longrightarrow> is_decimal v) \<and> (\<forall>v. available_usd_quote_value c = Some v \<longrightarrow> is_decimal v)"

definition covers :: "workspace_member_address \<Rightarrow> string list \<Rightarrow> portfolio_contribution list \<Rightarrow> bool" where
  "covers m slugs cs \<longleftrightarrow> map contribution_asset_slug cs = map Some slugs \<and> (\<forall>c\<in>set cs. contribution_ok m c)"

lemma covers_append: "covers m xs cs \<Longrightarrow> covers m ys ds \<Longrightarrow> covers m (xs @ ys) (cs @ ds)"
  by (auto simp: covers_def)

lemma covers_Nil [simp]: "covers m [] cs \<longleftrightarrow> cs = []"
  by (auto simp: covers_def)

lemma covers_unavailable: "covers m slugs (map (command_unavailable_contribution m) slugs)"
  by (auto simp: covers_def contribution_ok_def command_unavailable_contribution_def contribution_asset_slug_def
      resolved_amount_def available_usd_quote_value_def)

lemma covers_balance:
  assumes "list_all2 item_for slugs items"
  shows "covers m slugs (map (balance_contribution m evidence) items)"
  using assms
  by (induction rule: list_all2_induct)
     (auto simp: covers_def contribution_ok_def balance_contribution_def contribution_asset_slug_def
      resolved_amount_def available_usd_quote_value_def item_for_def)

text \<open>The collections of all members grow by contributions for the selected slugs.\<close>

definition extended ::
  "workspace_member_address list \<Rightarrow> (workspace_member_address \<Rightarrow> string list) \<Rightarrow> contribution_collections \<Rightarrow>
   contribution_collections \<Rightarrow> bool" where
  "extended ms sel C C' \<longleftrightarrow>
     (\<forall>m\<in>set ms. \<exists>old new. C (member_key m) = Some old \<and> C' (member_key m) = Some (old @ new) \<and> covers m (sel m) new)"

lemma extended_refl: "\<forall>m\<in>set ms. C (member_key m) \<noteq> None \<Longrightarrow> extended ms (\<lambda>_. []) C C"
  by (auto simp: extended_def)

lemma extended_trans:
  assumes "extended ms sel C C'" "extended ms sel' C' C''"
  shows "extended ms (\<lambda>m. sel m @ sel' m) C C''"
  unfolding extended_def
proof
  fix m assume m: "m \<in> set ms"
  obtain old new where o: "C (member_key m) = Some old" "C' (member_key m) = Some (old @ new)" "covers m (sel m) new"
    using assms(1) m unfolding extended_def by blast
  moreover obtain new' where "C'' (member_key m) = Some ((old @ new) @ new')" "covers m (sel' m) new'"
    using assms(2) m o(2) unfolding extended_def by force
  ultimately show "\<exists>old new. C (member_key m) = Some old \<and> C'' (member_key m) = Some (old @ new) \<and> covers m (sel m @ sel' m) new"
    using covers_append by (metis append_assoc)
qed

lemma extended_cong: "extended ms sel C C' \<Longrightarrow> (\<And>m. m \<in> set ms \<Longrightarrow> sel m = sel' m) \<Longrightarrow> extended ms sel' C C'"
  by (auto simp: extended_def)

lemma extended_defined: "extended ms sel C C' \<Longrightarrow> \<forall>m\<in>set ms. C' (member_key m) \<noteq> None"
  by (fastforce simp: extended_def)

lemma push_extended:
  assumes "distinct (map member_key ms)" "m \<in> set ms" "\<forall>m\<in>set ms. C (member_key m) \<noteq> None" "covers m slugs new"
  shows "\<exists>C'. push_contributions C (member_key m) new = Some C' \<and> extended ms (\<lambda>k. if k = m then slugs else []) C C'"
proof -
  obtain old where old: "C (member_key m) = Some old" using assms(2,3) by blast
  have "member_key k \<noteq> member_key m" if "k \<in> set ms" "k \<noteq> m" for k
    using distinct_map_eq[OF assms(1) that(1) assms(2)] that(2) by blast
  then have "extended ms (\<lambda>k. if k = m then slugs else []) C (C(member_key m \<mapsto> old @ new))"
    using old assms(3,4) by (auto simp: extended_def)
  then show ?thesis by (simp add: push_contributions_def old)
qed

definition chosen :: "workspace_member_address list \<Rightarrow> string list \<Rightarrow> workspace_member_address \<Rightarrow> string list" where
  "chosen mc slugs m = (if m \<in> set mc then slugs else [])"

lemma chosen_Cons: "m \<notin> set mc \<Longrightarrow> (if k = m then slugs else []) @ chosen mc slugs k = chosen (m # mc) slugs k"
  by (auto simp: chosen_def)

text \<open>The members of a workspace and the lookup of a member by the key of an account.\<close>

definition lookup_ok :: "workspace_member_address list \<Rightarrow> (member_key_type \<Rightarrow> workspace_member_address option) \<Rightarrow> bool" where
  "lookup_ok ms lookup \<longleftrightarrow> (\<forall>m\<in>set ms. lookup (member_key m) = Some m)"

lemma account_of_member_key: "account_key (oa_network_slug (account_of_member m)) (oa_address (account_of_member m)) = member_key m"
  by (simp add: account_of_member_def member_key_def)

lemma append_unavailable_extended:
  assumes "distinct (map member_key ms)" "lookup_ok ms lookup" "set mc \<subseteq> set ms" "distinct mc"
    "\<forall>m\<in>set ms. C (member_key m) \<noteq> None"
  shows "\<exists>C'. append_unavailable lookup slugs C (map account_of_member mc) = Some (Ok C') \<and> extended ms (chosen mc slugs) C C'"
  using assms(3-)
proof (induction mc arbitrary: C)
  case Nil
  then show ?case using extended_refl by (auto simp: chosen_def)
next
  case (Cons m mc)
  have m: "m \<in> set ms" using Cons.prems(1) by simp
  obtain C1 where C1: "push_contributions C (member_key m) (map (command_unavailable_contribution m) slugs) = Some C1"
    "extended ms (\<lambda>k. if k = m then slugs else []) C C1"
    using push_extended[OF assms(1) m Cons.prems(3) covers_unavailable] by blast
  obtain C2 where C2: "append_unavailable lookup slugs C1 (map account_of_member mc) = Some (Ok C2)"
    "extended ms (chosen mc slugs) C1 C2"
    using Cons.IH[OF _ _ extended_defined[OF C1(2)]] Cons.prems by auto
  have "lookup (member_key m) = Some m" using assms(2) m by (simp add: lookup_ok_def)
  then have "append_unavailable lookup slugs C (map account_of_member (m # mc)) = Some (Ok C2)"
    using C1(1) C2(1) by (simp add: account_of_member_key)
  moreover have "extended ms (chosen (m # mc) slugs) C C2"
    using extended_trans[OF C1(2) C2(2)] Cons.prems(2) by (simp add: chosen_Cons)
  ultimately show ?case by blast
qed

lemma append_accounts_extended:
  assumes "distinct (map member_key ms)" "lookup_ok ms lookup" "set mc \<subseteq> set ms" "distinct mc"
    "\<forall>m\<in>set ms. C (member_key m) \<noteq> None" "map ba_account bs = map account_of_member mc"
    "\<forall>b\<in>set bs. list_all2 item_for slugs (ba_items b)"
  shows "\<exists>C'. append_accounts lookup (length slugs) C (zip (map account_of_member mc) bs) = Some (Ok C') \<and>
    extended ms (chosen mc slugs) C C'"
  using assms(3-)
proof (induction mc arbitrary: C bs)
  case Nil
  then show ?case using extended_refl by (auto simp: chosen_def)
next
  case (Cons m mc)
  have m: "m \<in> set ms" using Cons.prems(1) by simp
  obtain b bs' where bs: "bs = b # bs'" using Cons.prems(4) by (cases bs) auto
  have b: "ba_account b = account_of_member m" "list_all2 item_for slugs (ba_items b)" using Cons.prems(4,5) by (simp_all add: bs)
  obtain C1 where C1: "push_contributions C (member_key m) (map (balance_contribution m (ba_evidence b)) (ba_items b)) = Some C1"
    "extended ms (\<lambda>k. if k = m then slugs else []) C C1"
    using push_extended[OF assms(1) m Cons.prems(3) covers_balance[OF b(2)]] by blast
  obtain C2 where C2: "append_accounts lookup (length slugs) C1 (zip (map account_of_member mc) bs') = Some (Ok C2)"
    "extended ms (chosen mc slugs) C1 C2"
    using Cons.IH[OF _ _ extended_defined[OF C1(2)], of bs'] Cons.prems by (auto simp: bs)
  have "lookup (member_key m) = Some m" using assms(2) m by (simp add: lookup_ok_def)
  then have "append_accounts lookup (length slugs) C (zip (map account_of_member (m # mc)) bs) = Some (Ok C2)"
    using C1(1) C2(1) b list_all2_lengthD[OF b(2)] by (simp add: account_of_member_key bs)
  moreover have "extended ms (chosen (m # mc) slugs) C C2"
    using extended_trans[OF C1(2) C2(2)] Cons.prems(2) by (simp add: chosen_Cons)
  ultimately show ?case by blast
qed

text \<open>A planned command: its chunk of assets and its chunk of members.\<close>

definition command_for :: "string list \<times> workspace_member_address list \<Rightarrow> get_balances_command \<Rightarrow> bool" where
  "command_for x c \<longleftrightarrow> slug_command (fst x) c \<and> gb_accounts c = map account_of_member (snd x)"

lemma append_outcome_extended:
  assumes "distinct (map member_key ms)" "lookup_ok ms lookup" "set (snd x) \<subseteq> set ms" "distinct (snd x)"
    "\<forall>m\<in>set ms. C (member_key m) \<noteq> None" "command_for x c" "outcome_answers (fst x) c out"
  shows "\<exists>C'. append_outcome lookup C (c, out) = Some (Ok C') \<and> extended ms (chosen (snd x) (fst x)) C C'"
proof -
  note c = assms(6)[unfolded command_for_def slug_command_def]
  show ?thesis
  proof (cases out)
    case (Resolved res)
    then have r: "map ba_account (br_accounts res) = map account_of_member (snd x)"
      "br_quote_currency res = PORTFOLIO_QUOTE_CURRENCY" "br_requested_token_count res = length (fst x)"
      "\<forall>b\<in>set (br_accounts res). list_all2 item_for (fst x) (ba_items b)"
      using assms(7) c by simp_all
    have "length (br_accounts res) = length (gb_accounts c)" using r(1) c by (metis length_map)
    then show ?thesis
      using append_accounts_extended[OF assms(1-5) r(1,4)] Resolved c r(2,3)
      by (simp add: append_outcome_def append_balance_result_def token_selector_len_def)
  next
    case Unavailable
    then show ?thesis using append_unavailable_extended[OF assms(1-5)] c by (simp add: append_outcome_def)
  qed
qed

lemma append_outcomes_extended:
  assumes "distinct (map member_key ms)" "lookup_ok ms lookup" "\<forall>m\<in>set ms. C (member_key m) \<noteq> None"
    "\<forall>x\<in>set xs. set (snd x) \<subseteq> set ms \<and> distinct (snd x)" "list_all2 command_for xs cs"
    "list_all2 (\<lambda>x (c, out). outcome_answers (fst x) c out) xs (zip cs outs)" "length outs = length cs"
  shows "\<exists>C'. append_outcomes lookup C (zip cs outs) = Some (Ok C') \<and>
    extended ms (\<lambda>m. concat (map (\<lambda>x. chosen (snd x) (fst x) m) xs)) C C'"
  using assms(3-)
proof (induction xs arbitrary: C cs outs)
  case Nil
  then show ?case using extended_refl by auto
next
  case (Cons x xs)
  then obtain c cs' out outs' where e: "cs = c # cs'" "outs = out # outs'" by (cases cs; cases outs) auto
  obtain C1 where C1: "append_outcome lookup C (c, out) = Some (Ok C1)" "extended ms (chosen (snd x) (fst x)) C C1"
    using append_outcome_extended[OF assms(1,2) _ _ Cons.prems(1), of x c out] Cons.prems(2-4) by (auto simp: e)
  obtain C2 where C2: "append_outcomes lookup C1 (zip cs' outs') = Some (Ok C2)"
    "extended ms (\<lambda>m. concat (map (\<lambda>x. chosen (snd x) (fst x) m) xs)) C1 C2"
    using Cons.IH[OF extended_defined[OF C1(2)], of cs' outs'] Cons.prems(2-) by (auto simp: e)
  show ?case using C1(1) C2(1) extended_trans[OF C1(2) C2(2)] by (simp add: e)
qed

section \<open>The plan\<close>

lemma active_slugs:
  assumes "registry_built r"
  shows "distinct (active_asset_slugs_mapped_to_network r n)"
    "s \<in> set (active_asset_slugs_mapped_to_network r n) \<Longrightarrow> asset_by_slug r s \<noteq> None"
proof -
  obtain c where c: "from_catalog c = Some (Ok r)" using assms by (auto simp: registry_built_def)
  note f = registry_fields[OF c] and rows = valid_catalog_rows[OF registry_fields(1)[OF c]]
  let ?i = "rg_active_asset_indexes r"
  have i: "distinct ?i" "\<forall>i\<in>set ?i. i < length (cat_assets c)"
    unfolding f(9) by (auto simp: in_set_enumerate_eq distinct_map_filter distinct_map[symmetric])
  have "distinct (map (\<lambda>i. ca_slug (rg_assets r ! i)) ?i)"
    using i rows(1) by (auto simp: distinct_map inj_on_def f(2) nth_eq_iff_index_eq distinct_conv_nth)
  then have d: "distinct (map ca_slug (map (\<lambda>i. rg_assets r ! i) ?i))" by (simp add: comp_def)
  show "distinct (active_asset_slugs_mapped_to_network r n)"
    unfolding active_asset_slugs_mapped_to_network_def using distinct_map_filter[OF d] by (auto split: option.splits)
  assume "s \<in> set (active_asset_slugs_mapped_to_network r n)"
  then obtain k where k: "k \<in> set ?i" "s = ca_slug (cat_assets c ! k)"
    by (auto simp: active_asset_slugs_mapped_to_network_def f(2) split: option.splits)
  then have a: "cat_assets c ! k \<in> set (cat_assets c)" using i(2) by simp
  then have "to_ascii_lowercase s = s" using rows(6)[OF a] k(2) asset_slug_lower by (simp add: valid_asset_def)
  then show "asset_by_slug r s \<noteq> None" using asset_by_slug_iff[OF c, of s "cat_assets c ! k"] a k(2) by simp
qed

text \<open>The members that the planner and the composition expect.\<close>

definition members_ok :: "workspace_member_address list \<Rightarrow> bool" where
  "members_ok ms \<longleftrightarrow> distinct (map member_key ms) \<and> (\<forall>m\<in>set ms. is_evm_address (m_address m))"

lemma plan_command_Ok:
  assumes "members_ok ms" "slugs \<noteq> []" "length slugs \<le> MAX_TOKENS" "distinct slugs"
    "mc \<noteq> []" "length mc \<le> MAX_ACCOUNTS" "set mc \<subseteq> set ms" "distinct mc"
  shows "\<exists>c. plan_command slugs mc = Ok c \<and> command_for (slugs, mc) c"
proof -
  have inj: "inj_on member_key (set mc)"
    using assms(1,7) inj_on_subset by (auto simp: members_ok_def distinct_map)
  then have "distinct (map (\<lambda>a. (oa_network_slug a, to_ascii_lowercase (oa_address a))) (map account_of_member mc))"
    using assms(8) by (auto simp: distinct_map inj_on_def account_of_member_def member_key_def account_key_def)
  moreover have "length mc * length slugs \<le> 1000"
    using mult_le_mono[OF assms(6,3)] by (simp add: MAX_ACCOUNTS_def MAX_TOKENS_def)
  moreover have "to_ascii_uppercase (trim PORTFOLIO_QUOTE_CURRENCY) = ''USD''" by code_simp
  moreover have "\<forall>m\<in>set mc. is_evm_address (m_address m)" using assms(1,7) by (auto simp: members_ok_def)
  ultimately show ?thesis
    using assms(2-6)
    by (auto simp: plan_command_def try_new_def Let_def all_unseen_iff assms(4) checked_mul_usize_def ok_or_def
        MAX_RESOLUTION_ITEMS_def list_ex_iff command_for_def slug_command_def account_of_member_def PORTFOLIO_QUOTE_CURRENCY_def)
qed

definition planned_chunks :: "canonical_registry \<Rightarrow> workspace_member_address list \<Rightarrow>
  (string list \<times> workspace_member_address list) list" where
  "planned_chunks r ms = concat (map (network_chunks r) (grouped m_network_slug ms))"

lemma sorted_members_props [simp]: "set (sorted_members ms) = set ms" "distinct (sorted_members ms) = distinct ms"
  by (simp_all add: sorted_members_def)

lemma distinct_chunks:
  assumes "distinct xs" "c \<in> set (chunks n xs)" "0 < n"
  shows "distinct c"
proof -
  have "distinct (concat (chunks n xs))" using assms concat_chunks by metis
  then show ?thesis using assms(2) by (simp add: distinct_concat_iff)
qed

lemma planned_chunk:
  assumes "registry_built r" "members_ok ms" "x \<in> set (planned_chunks r ms)"
  shows "fst x \<noteq> []" "length (fst x) \<le> MAX_TOKENS" "distinct (fst x)" "snd x \<noteq> []" "length (snd x) \<le> MAX_ACCOUNTS"
    "set (snd x) \<subseteq> set ms" "distinct (snd x)"
proof -
  have dm: "distinct ms" using assms(2) by (auto simp: members_ok_def distinct_map)
  obtain n where x: "fst x \<in> set (chunks MAX_TOKENS (active_asset_slugs_mapped_to_network r n))"
    "snd x \<in> set (chunks MAX_ACCOUNTS (sorted_members (filter (\<lambda>m. m_network_slug m = n) ms)))"
    using assms(3) by (auto simp: planned_chunks_def grouped_def network_chunks_def Let_def split: if_splits)
  have pos: "0 < MAX_TOKENS" "0 < MAX_ACCOUNTS" by (simp_all add: MAX_TOKENS_def MAX_ACCOUNTS_def)
  show "fst x \<noteq> []" "length (fst x) \<le> MAX_TOKENS" "snd x \<noteq> []" "length (snd x) \<le> MAX_ACCOUNTS"
    "set (snd x) \<subseteq> set ms"
    using chunks_props[OF x(1)] chunks_props[OF x(2)] by auto
  show "distinct (fst x)" using distinct_chunks[OF active_slugs(1)[OF assms(1)] x(1) pos(1)] .
  show "distinct (snd x)" using distinct_chunks[OF _ x(2) pos(2)] dm by simp
qed

lemma plan_members_Ok:
  assumes "registry_built r" "members_ok ms"
  shows "\<exists>cs. plan_members r ms = Ok cs \<and> list_all2 command_for (planned_chunks r ms) cs"
proof -
  have "\<exists>c. plan_command (fst x) (snd x) = Ok c \<and> command_for x c" if "x \<in> set (planned_chunks r ms)" for x
    using plan_command_Ok[OF assms(2), of "fst x" "snd x"] planned_chunk[OF assms that] by simp
  then obtain f where f: "\<forall>x\<in>set (planned_chunks r ms). plan_command (fst x) (snd x) = Ok (f x) \<and> command_for x (f x)"
    by metis
  then have "plan_members r ms = Ok (map f (planned_chunks r ms))"
    unfolding plan_members_def planned_chunks_def[symmetric] by (intro try_map_total) (auto simp: case_prod_unfold)
  moreover have "list_all2 command_for (planned_chunks r ms) (map f (planned_chunks r ms))"
    using f by (simp add: list_all2_conv_all_nth)
  ultimately show ?thesis by blast
qed

text \<open>Every member is in one command for every chunk of the assets of its network.\<close>

lemma concat_pick:
  assumes "distinct (concat L)" "x \<in> set (concat L)"
  shows "concat (map (\<lambda>c. if x \<in> set c then ys else []) L) = ys"
  using assms
proof (induction L)
  case (Cons c L)
  show ?case
  proof (cases "x \<in> set c")
    case True
    then have "concat (map (\<lambda>c. if x \<in> set c then ys else []) L) = []" using Cons.prems(1) by auto
    then show ?thesis using True by simp
  qed (use Cons in auto)
qed simp

lemma concat_only:
  assumes "distinct ks" "a \<in> set ks" "\<And>k. k \<in> set ks \<Longrightarrow> k \<noteq> a \<Longrightarrow> f k = []"
  shows "concat (map f ks) = f a"
  using assms
proof (induction ks)
  case (Cons k ks)
  show ?case
  proof (cases "k = a")
    case True
    then have "\<forall>k\<in>set ks. f k = []" using Cons.prems by auto
    then have "concat (map f ks) = []" by simp
    then show ?thesis using True by simp
  qed (use Cons in auto)
qed simp

lemma concat_product:
  "concat (map (\<lambda>x. f (fst x) (snd x)) (List.product as bs)) = concat (map (\<lambda>a. concat (map (f a) bs)) as)"
  by (induction as) (simp_all add: comp_def)

lemma network_chunks_chosen:
  assumes "distinct ms" "m \<in> set ms"
  shows "concat (map (\<lambda>x. chosen (snd x) (fst x) m) (network_chunks r (n, ms))) = active_asset_slugs_mapped_to_network r n"
proof -
  let ?s = "active_asset_slugs_mapped_to_network r n" and ?B = "chunks MAX_ACCOUNTS (sorted_members ms)"
  have B: "concat ?B = sorted_members ms" by (intro concat_chunks) (simp add: MAX_ACCOUNTS_def)
  have "concat (map (\<lambda>mc. chosen mc slugs m) ?B) = slugs" for slugs
    unfolding chosen_def by (rule concat_pick) (simp_all only: B sorted_members_props assms)
  then have "concat (map (\<lambda>x. chosen (snd x) (fst x) m) (List.product (chunks MAX_TOKENS ?s) ?B)) = concat (chunks MAX_TOKENS ?s)"
    unfolding concat_product[of "\<lambda>slugs mc. chosen mc slugs m"] by simp
  then show ?thesis by (simp add: network_chunks_def Let_def concat_chunks MAX_TOKENS_def)
qed

lemma concat_concat: "concat (concat xss) = concat (map concat xss)"
  by (induction xss) auto

lemma planned_chosen:
  assumes "distinct ms" "m \<in> set ms"
  shows "concat (map (\<lambda>x. chosen (snd x) (fst x) m) (planned_chunks r ms)) =
    active_asset_slugs_mapped_to_network r (m_network_slug m)"
proof -
  let ?f = "\<lambda>n. concat (map (\<lambda>x. chosen (snd x) (fst x) m) (network_chunks r (n, filter (\<lambda>k. m_network_slug k = n) ms)))"
  have "concat (map (\<lambda>x. chosen (snd x) (fst x) m) (planned_chunks r ms)) =
      concat (map ?f (sort (remdups (map m_network_slug ms))))"
    by (simp add: planned_chunks_def grouped_def map_concat comp_def concat_concat)
  also have "\<dots> = ?f (m_network_slug m)"
  proof (rule concat_only)
    fix n assume "n \<noteq> m_network_slug m"
    then show "?f n = []"
      using chunks_props[of _ MAX_ACCOUNTS "sorted_members (filter (\<lambda>k. m_network_slug k = n) ms)"]
      by (force simp: network_chunks_def Let_def chosen_def)
  qed (use assms in auto)
  also have "\<dots> = active_asset_slugs_mapped_to_network r (m_network_slug m)"
    using assms by (intro network_chunks_chosen) simp_all
  finally show ?thesis .
qed

section \<open>The portfolio\<close>

text \<open>An observation of a member: one contribution for every active asset on its network.\<close>

definition observed :: "canonical_registry \<Rightarrow> member_portfolio_observation \<Rightarrow> bool" where
  "observed r ob \<longleftrightarrow>
     mset (map contribution_asset_slug (mo_contributions ob)) =
       mset (map Some (active_asset_slugs_mapped_to_network r (m_network_slug (mo_member ob)))) \<and>
     (\<forall>c\<in>set (mo_contributions ob). contribution_ok (mo_member ob) c) \<and>
     mo_observation_status ob = balance_status (mo_contributions ob)"

lemma covers_observed:
  assumes "covers m (active_asset_slugs_mapped_to_network r (m_network_slug m)) cs"
  shows "observed r \<lparr>mo_member = m, mo_contributions = sort_key contribution_order cs,
    mo_observation_status = balance_status (sort_key contribution_order cs)\<rparr>"
proof -
  have "mset (map contribution_asset_slug cs) = mset (map Some (active_asset_slugs_mapped_to_network r (m_network_slug m)))"
    using assms unfolding covers_def by presburger
  then show ?thesis using assms by (simp add: covers_def observed_def)
qed

lemma observe_members_observed:
  assumes "distinct (map member_key ms)"
    "\<forall>m\<in>set ms. \<exists>cs. C (member_key m) = Some cs \<and> covers m (active_asset_slugs_mapped_to_network r (m_network_slug m)) cs"
  shows "\<exists>obs. observe_members C ms = Some obs \<and> map mo_member obs = ms \<and> (\<forall>ob\<in>set obs. observed r ob)"
  using assms
proof (induction ms arbitrary: C)
  case (Cons m ms)
  obtain cs where cs: "C (member_key m) = Some cs" "covers m (active_asset_slugs_mapped_to_network r (m_network_slug m)) cs"
    using Cons.prems(2) by auto
  have dm: "distinct (map member_key ms)" using Cons.prems(1) by simp
  have other: "member_key k \<noteq> member_key m" if "k \<in> set ms" for k
    using Cons.prems(1) that by (metis distinct.simps(2) image_eqI list.simps(9) list.set_map)
  have "\<forall>k\<in>set ms. \<exists>cs. (C(member_key m := None)) (member_key k) = Some cs \<and>
      covers k (active_asset_slugs_mapped_to_network r (m_network_slug k)) cs"
    using Cons.prems(2) other by simp
  then obtain obs where "observe_members (C(member_key m := None)) ms = Some obs" "map mo_member obs = ms"
    "\<forall>ob\<in>set obs. observed r ob"
    using Cons.IH dm by blast
  then show ?case using cs(1) covers_observed[OF cs(2)] by (simp add: Let_def)
qed simp

lemma try_map_ex: "(\<And>x. x \<in> set xs \<Longrightarrow> \<exists>y. f x = Ok y) \<Longrightarrow> \<exists>ys. try_map f xs = Ok ys"
proof (induction xs)
  case (Cons x xs)
  then obtain y ys where "f x = Ok y" "try_map f xs = Ok ys" by (metis list.set_intros)
  then show ?case by simp
qed simp

lemma aggregate_assets_total:
  assumes "\<forall>c\<in>set cs. \<exists>s m. contribution_asset_slug c = Some s \<and> asset_by_slug r s \<noteq> None \<and> contribution_ok m c"
  shows "\<exists>assets. aggregate_assets r cs = Ok assets"
proof -
  have "\<exists>e. asset_entry r c = Ok e" if "c \<in> set cs" for c
    using assms that by (cases "outcome_resolved (cb_outcome c)") (auto simp: asset_entry_Ok)
  then obtain entries where e: "try_map (asset_entry r) cs = Ok entries" using try_map_ex by blast
  let ?es = "map (\<lambda>c. (the (contribution_asset_slug c), c)) (resolved_of cs)"
  have ok: "\<forall>c\<in>set cs. (\<forall>v. resolved_amount c = Some v \<longrightarrow> is_decimal v) \<and> (\<forall>v. available_usd_quote_value c = Some v \<longrightarrow> is_decimal v)"
    using assms unfolding contribution_ok_def by blast
  have sums: "\<exists>a. aggregate_asset slug ds = Ok a" if "set ds \<subseteq> set cs" for slug ds
  proof -
    have d: "\<forall>v\<in>set (List.map_filter resolved_amount ds). is_decimal v"
      "\<forall>v\<in>set (List.map_filter available_usd_quote_value ds). is_decimal v"
      using ok that by (auto simp: map_filter_def subset_iff)
    then show ?thesis
      using sum_decimal_values_total[OF d(1)] sum_decimal_values_total[OF d(2)] by (auto simp: aggregate_asset_def Let_def)
  qed
  have "\<exists>assets. try_map (\<lambda>(slug, es). aggregate_asset slug (map snd es)) (grouped fst ?es) = Ok assets"
  proof (rule try_map_ex)
    fix x assume "x \<in> set (grouped fst ?es)"
    then have "set (snd x) \<subseteq> set ?es" unfolding grouped_mem by auto
    then have "set (map snd (snd x)) \<subseteq> set cs" by (auto simp: resolved_of_def)
    then show "\<exists>a. (case x of (slug, es) \<Rightarrow> aggregate_asset slug (map snd es)) = Ok a"
      using sums[of "map snd (snd x)" "fst x"] by (simp add: case_prod_unfold)
  qed
  then show ?thesis by (simp add: aggregate_assets_def e asset_entries(1)[OF e])
qed

lemma compose_total:
  assumes r: "registry_built r" and ms: "members_ok ms" and cs: "list_all2 command_for (planned_chunks r ms) cs"
    and outs: "list_all2 (\<lambda>x (c, out). outcome_answers (fst x) c out) (planned_chunks r ms) (zip cs outs)"
    and len: "length outs = length cs"
  shows "\<exists>p. compose r w ms cs outs now = Some (Ok p) \<and> map mo_member (cp_members p) = sort_key member_order ms \<and>
    (\<forall>ob\<in>set (cp_members p). observed r ob)"
proof -
  let ?ms = "sort_key member_order ms"
  let ?lookup = "map_of (rev (map (\<lambda>m. (member_key m, m)) ?ms))" and ?C = "map_of (map (\<lambda>m. (member_key m, [])) ?ms)"
  have d: "distinct (map member_key ms)" using ms by (simp add: members_ok_def)
  then have dm: "distinct ms" by (simp add: distinct_map)
  have d': "distinct (map member_key ?ms)" using d by (simp add: distinct_map)
  have look: "lookup_ok ms ?lookup"
    using d' by (auto simp: lookup_ok_def rev_map[symmetric] comp_def intro!: map_of_is_SomeI)
  have C: "\<forall>m\<in>set ms. ?C (member_key m) = Some []" using d' by (auto simp: comp_def intro!: map_of_is_SomeI)
  have some: "\<forall>m\<in>set ms. ?C (member_key m) \<noteq> None" using C by blast
  have sub: "\<forall>x\<in>set (planned_chunks r ms). set (snd x) \<subseteq> set ms \<and> distinct (snd x)"
    using planned_chunk(6,7)[OF r ms] by blast
  obtain C' where C': "append_outcomes ?lookup ?C (zip cs outs) = Some (Ok C')"
    "extended ms (\<lambda>m. concat (map (\<lambda>x. chosen (snd x) (fst x) m) (planned_chunks r ms))) ?C C'"
    using append_outcomes_extended[OF d look some sub cs outs len] by blast
  have "\<exists>cs. C' (member_key m) = Some cs \<and> covers m (active_asset_slugs_mapped_to_network r (m_network_slug m)) cs"
    if m: "m \<in> set ms" for m
  proof -
    obtain old new where o: "?C (member_key m) = Some old" "C' (member_key m) = Some (old @ new)"
      "covers m (concat (map (\<lambda>x. chosen (snd x) (fst x) m) (planned_chunks r ms))) new"
      using C'(2) m unfolding extended_def by blast
    have "old = []" using o(1) C m by (metis option.inject)
    then show ?thesis using o(2,3) unfolding planned_chosen[OF dm m] by simp
  qed
  then have "\<forall>m\<in>set ?ms. \<exists>cs. C' (member_key m) = Some cs \<and> covers m (active_asset_slugs_mapped_to_network r (m_network_slug m)) cs"
    by simp
  from observe_members_observed[OF d' this] obtain obs where
    obs: "observe_members C' ?ms = Some obs" "map mo_member obs = ?ms" "\<forall>ob\<in>set obs. observed r ob" by blast
  have "\<exists>s m. contribution_asset_slug c = Some s \<and> asset_by_slug r s \<noteq> None \<and> contribution_ok m c"
    if c: "c \<in> set (concat (map mo_contributions obs))" for c
  proof -
    obtain ob where ob: "ob \<in> set obs" "c \<in> set (mo_contributions ob)" using c by auto
    then have o: "observed r ob" using obs(3) by blast
    then have "set (map contribution_asset_slug (mo_contributions ob)) =
        set (map Some (active_asset_slugs_mapped_to_network r (m_network_slug (mo_member ob))))"
      unfolding observed_def using mset_eq_setD by blast
    then have "contribution_asset_slug c \<in> Some ` set (active_asset_slugs_mapped_to_network r (m_network_slug (mo_member ob)))"
      using ob(2) by auto
    moreover have "contribution_ok (mo_member ob) c" using o ob(2) by (simp add: observed_def)
    ultimately show ?thesis using active_slugs(2)[OF r] by blast
  qed
  then obtain assets where a: "aggregate_assets r (concat (map mo_contributions obs)) = Ok assets"
    using aggregate_assets_total by blast
  obtain ordered where so: "sort_assets r assets = Some ordered"
    using sort_assets_total aggregate_assets_exact(1)[OF a] by blast
  have "\<forall>v\<in>set (map ao_known_value ordered). is_decimal v"
    using aggregate_assets_exact(1)[OF a] mset_eq_setD[OF sort_assets_mset[OF so]] by (auto simp: totals_exact_def)
  then obtain known where "sum_decimal_values (map ao_known_value ordered) = Ok known" using sum_decimal_values_total by blast
  then show ?thesis using C'(1) obs a so len by (simp add: compose_def Let_def)
qed

lemma resolve_portfolio_total:
  assumes "registry_built r" "members_ok ms" "reports_each_task schedule"
  shows "\<exists>p. resolve_workspace_portfolio r sv schedule w ms now = Some (Ok p) \<and>
    map mo_member (cp_members p) = sort_key member_order ms \<and> (\<forall>ob\<in>set (cp_members p). observed r ob)"
proof -
  obtain cs where cs: "plan_members r ms = Ok cs" "list_all2 command_for (planned_chunks r ms) cs"
    using plan_members_Ok[OF assms(1,2)] by blast
  have "command_outcome sv schedule c \<noteq> None" if c: "c \<in> set cs" for c
  proof -
    obtain x where "command_for x c" using list_all2_right[OF cs(2) c] by blast
    then show ?thesis using command_outcome_answers[OF assms(3), of "fst x" c sv] by (auto simp: command_for_def)
  qed
  then obtain outs where outs: "map_panic (command_outcome sv schedule) cs = Some outs"
    using map_panic_SomeI[of cs "command_outcome sv schedule"] by blast
  note o = map_panic_SomeD[OF outs]
  then have len: "length outs = length cs" by (simp add: list_all2_lengthD)
  have "list_all2 (\<lambda>x (c, out). outcome_answers (fst x) c out) (planned_chunks r ms) (zip cs outs)"
  proof (rule list_all2_all_nthI)
    fix i assume i: "i < length (planned_chunks r ms)"
    then have "i < length cs" using list_all2_lengthD[OF cs(2)] by simp
    with list_all2_nthD[OF cs(2) i] list_all2_nthD[OF o, of i] command_outcome_answers[OF assms(3)]
    show "case zip cs outs ! i of (c, out) \<Rightarrow> outcome_answers (fst (planned_chunks r ms ! i)) c out"
      using len by (auto simp: command_for_def) (metis option.inject)
  qed (use len list_all2_lengthD[OF cs(2)] in simp)
  from compose_total[OF assms(1,2) cs(2) this len, of w now] show ?thesis
    by (simp add: resolve_workspace_portfolio_def cs(1) outs)
qed

lemma resolve_portfolio_compose:
  assumes "resolve_workspace_portfolio r sv schedule w ms now = Some (Ok p)"
  obtains cs outs where "compose r w ms cs outs now = Some (Ok p)"
  using assms by (auto simp: resolve_workspace_portfolio_def bind_eq_Some_conv split: result.splits)

text \<open>The members that are read from sound tables.\<close>

lemma members_of_sound_tables:
  assumes "workspaces_ok env db"
  shows "members_ok (Workspaces.members sort_labels db i)"
proof -
  let ?rows = "filter (\<lambda>m. mr_workspace_id m = i) (wd_members db)"
  have m: "distinct (map (\<lambda>m. (mr_workspace_id m, mr_network_slug m, mr_address m)) (wd_members db))"
    "\<forall>m\<in>set (wd_members db). mr_network_slug m \<in> set BALANCE_NETWORKS \<and> lowercase_address (mr_address m)"
    using assms by (simp_all add: workspaces_ok_def member_rows_ok_def)
  have low: "to_ascii_lowercase n = n" if "n \<in> set BALANCE_NETWORKS" for n
  proof -
    have "to_ascii_lowercase ''eth-mainnet'' = ''eth-mainnet''" "to_ascii_lowercase ''base-mainnet'' = ''base-mainnet''" by code_simp+
    then show ?thesis using that by (auto simp: BALANCE_NETWORKS_def)
  qed
  have "distinct (map (\<lambda>m. (mr_workspace_id m, mr_network_slug m, mr_address m)) ?rows)"
    using m(1) by (rule distinct_map_filter)
  moreover have "member_key (member_of_row sort_labels db m) = (mr_network_slug m, mr_address m)" if "m \<in> set ?rows" for m
    using that m(2) low by (simp add: member_key_def account_key_def member_of_row_def lowercase_address_def)
  ultimately have "distinct (map (\<lambda>m. member_key (member_of_row sort_labels db m)) ?rows)"
    by (auto simp: distinct_map inj_on_def)
  then show ?thesis
    using m(2) by (auto simp: members_ok_def members_def comp_def member_of_row_def lowercase_address_def)
qed

section \<open>Properties\<close>

text \<open>
  C9. The portfolio of a workspace can always be resolved. For the members of a workspace in any state of the tables that
  the services can reach, and whatever the gateway and the price reader answer, planning succeeds, nothing panics and
  no answer is found inconsistent. The members appear once each, in their order, and each of them has exactly one
  contribution for every active asset on its network, also for those whose command failed.
\<close>

theorem portfolio_complete:
  assumes "registry_built r" "reports_each_task schedule" "workspace_history env db"
  shows "\<exists>p. resolve_workspace_portfolio r sv schedule w (Workspaces.members sort_labels db i) now = Some (Ok p) \<and>
    map mo_member (cp_members p) = sort_key member_order (Workspaces.members sort_labels db i) \<and>
    (\<forall>ob\<in>set (cp_members p). observed r ob)"
  using resolve_portfolio_total[OF assms(1) members_of_sound_tables[OF history_ok[OF assms(3)]] assms(2)] .

definition sample_workspace :: workspace where
  "sample_workspace = \<lparr>w_id = 1, w_public_id = ''wsp_0'', w_name = ''Treasury'', w_description = None, w_status = ''active''\<rparr>"

definition sample_member_db :: workspace_db where
  "sample_member_db = snd (service_add_member sample_env \<lparr>dr_id = 4, dr_event_id = 5, dr_now = 6\<rparr> sample_workspace
     ''eth-mainnet'' example_address None (snd (service_create sample_env sample_draw 7 '' Treasury '' None sample_db)))"

lemma sample_member_history: "workspace_history sample_env sample_member_db"
proof -
  have "workspace_history sample_env sample_db" unfolding sample_db_def by (rule Empty)
  then have "workspace_history sample_env (snd (service_create sample_env sample_draw 7 '' Treasury '' None sample_db))"
    by (rule workspace_history.Step[OF _ Create[OF refl]])
  then show ?thesis unfolding sample_member_db_def by (rule workspace_history.Step[OF _ AddMember[OF refl]])
qed

lemma sample_members: "length (Workspaces.members (\<lambda>ls. ls) sample_member_db 1) = 1"
  by code_simp

theorem portfolio_complete_witness:
  "\<exists>r p. registry_built r \<and>
     resolve_workspace_portfolio r offline_service (\<lambda>xs. map Some (rev xs)) sample_workspace
       (Workspaces.members (\<lambda>ls. ls) sample_member_db 1) 8 = Some (Ok p) \<and> length (cp_members p) = 1"
proof -
  obtain r where r: "registry_built r" using from_catalog_valid[OF example_valid] by (auto simp: registry_built_def)
  from portfolio_complete[OF r last_first_reports sample_member_history, of offline_service sample_workspace "\<lambda>ls. ls" 1 8]
  obtain p where "resolve_workspace_portfolio r offline_service (\<lambda>xs. map Some (rev xs)) sample_workspace
       (Workspaces.members (\<lambda>ls. ls) sample_member_db 1) 8 = Some (Ok p)"
    "map mo_member (cp_members p) = sort_key member_order (Workspaces.members (\<lambda>ls. ls) sample_member_db 1)" by blast
  then show ?thesis using r sample_members by (metis length_map length_sort)
qed

text \<open>
  C10. The totals of a portfolio are exact and account for everything that is known: the known value is the sum, without
  rounding, of the USD values of the balances of all members; the contributions of an asset are the resolved
  balances that name it, its known value is the sum of their USD values, and its total amount is the sum of
  their amounts, given only when all of them have one; an asset, and the portfolio, is complete exactly when every balance
  has an amount and a value.
\<close>

theorem portfolio_values_exact:
  assumes "resolve_workspace_portfolio r sv schedule w ms now = Some (Ok p)"
  shows "is_decimal (cp_known_value p) \<and> dec_value (cp_known_value p) = sum_list (map usd_value (portfolio_contributions p)) \<and>
    (\<forall>a\<in>set (cp_assets p). totals_exact a \<and> ao_contributions a = contributions_of (ao_asset_slug a) (portfolio_contributions p)) \<and>
    distinct (map ao_asset_slug (cp_assets p)) \<and>
    (cp_valuation_status p = ObservationComplete \<longleftrightarrow>
       (\<forall>c\<in>set (portfolio_contributions p). resolved_amount c \<noteq> None \<and> available_usd_quote_value c \<noteq> None))"
proof -
  obtain cs outs where c: "compose r w ms cs outs now = Some (Ok p)" using resolve_portfolio_compose[OF assms] by blast
  show ?thesis using compose_exact[OF c] by blast
qed

theorem portfolio_values_exact_witness:
  "\<exists>r p. resolve_workspace_portfolio r offline_service (\<lambda>xs. map Some (rev xs)) sample_workspace
       (Workspaces.members (\<lambda>ls. ls) sample_member_db 1) 8 = Some (Ok p) \<and> is_decimal (cp_known_value p)"
proof -
  obtain r where r: "registry_built r" using from_catalog_valid[OF example_valid] by (auto simp: registry_built_def)
  from resolve_portfolio_total[OF r members_of_sound_tables[OF history_ok[OF sample_member_history]] last_first_reports,
      of offline_service sample_workspace "\<lambda>ls. ls" 1 8]
  obtain p where p: "resolve_workspace_portfolio r offline_service (\<lambda>xs. map Some (rev xs)) sample_workspace
       (Workspaces.members (\<lambda>ls. ls) sample_member_db 1) 8 = Some (Ok p)" by blast
  then show ?thesis using portfolio_values_exact[OF p] by blast
qed

end
