(* ===== verification/Accounts.thy ===== *)
theory Accounts
  imports Workspaces Auth Canonical
begin

text \<open>
  Accounts, browser sessions and demo keys: the repository (\<open>src/adapters/postgres/accounts.rs\<close>) with the constraints of
  its tables (\<open>migrations/0010\<close> and \<open>0014\<close>), passwords (\<open>src/domain/passwords.rs\<close>), and the handlers of
  the browser interface that change them (\<open>src/adapters/http/web.rs\<close>): sign-up, login, logout and the issue of a
  demo key. Argon2, SHA-256, the random generator and the rendering of pages are parameters; a page is the data
  it is rendered from. As in theory \<open>Workspaces\<close> a table is a list of rows and a transaction transforms the tables or
  leaves them.
\<close>

section \<open>Passwords\<close>

definition MIN_PASSWORD_CHARS :: nat where
  "MIN_PASSWORD_CHARS = 12"

definition MAX_PASSWORD_CHARS :: nat where
  "MAX_PASSWORD_CHARS = 128"

definition MEMORY_COST_KIB :: nat where
  "MEMORY_COST_KIB = 19456"

definition TIME_COST :: nat where
  "TIME_COST = 2"

definition PARALLELISM :: nat where
  "PARALLELISM = 1"

datatype password_error = PasswordInvalid | HashingUnavailable

definition validate_password :: "string \<Rightarrow> (unit, password_error) result" where
  "validate_password password =
     (let n = chars_count password in
      if MIN_PASSWORD_CHARS \<le> n \<and> n \<le> MAX_PASSWORD_CHARS then Ok () else Err PasswordInvalid)"

text \<open>
  What the code uses of Argon2: hashing with a fresh salt, the parser of a PHC string with its algorithm and its
  decimal parameters \<open>m\<close>, \<open>t\<close> and \<open>p\<close>, and verification against a parsed string.
\<close>

record parsed_hash =
  ph_algorithm :: string
  ph_m :: "nat option"
  ph_t :: "nat option"
  ph_p :: "nat option"

record argon2 =
  an_hash_unchecked :: "string \<Rightarrow> (string, password_error) result"
  an_parse :: "string \<Rightarrow> parsed_hash option"
  an_verify :: "string \<Rightarrow> string \<Rightarrow> bool"

definition hash_password :: "argon2 \<Rightarrow> string \<Rightarrow> (string, password_error) result" where
  "hash_password a password = and_then (validate_password password) (\<lambda>_. an_hash_unchecked a password)"

definition password_verify :: "argon2 \<Rightarrow> string \<Rightarrow> string \<Rightarrow> bool" where
  "password_verify a password encoded = (case an_parse a encoded of None \<Rightarrow> False | Some _ \<Rightarrow> an_verify a password encoded)"

definition is_none_or_less :: "nat option \<Rightarrow> nat \<Rightarrow> bool" where
  "is_none_or_less v n = (case v of None \<Rightarrow> True | Some k \<Rightarrow> k < n)"

definition needs_rehash :: "argon2 \<Rightarrow> string \<Rightarrow> bool" where
  "needs_rehash a encoded =
     (case an_parse a encoded of
        None \<Rightarrow> True
      | Some parsed \<Rightarrow>
          ph_algorithm parsed \<noteq> ''argon2id'' \<or> is_none_or_less (ph_m parsed) MEMORY_COST_KIB \<or>
          is_none_or_less (ph_t parsed) TIME_COST \<or> is_none_or_less (ph_p parsed) PARALLELISM)"

section \<open>Tables\<close>

definition SESSION_ABSOLUTE_TTL_SECONDS :: int where
  "SESSION_ABSOLUTE_TTL_SECONDS = 8 * 60 * 60"

definition SESSION_IDLE_TTL_SECONDS :: int where
  "SESSION_IDLE_TTL_SECONDS = 30 * 60"

definition DEMO_INTENT_TTL_SECONDS :: int where
  "DEMO_INTENT_TTL_SECONDS = 10 * 60"

definition DEMO_KEY_TTL_SECONDS :: int where
  "DEMO_KEY_TTL_SECONDS = 24 * 60 * 60"

definition INITIAL_WORKSPACE_NAME :: string where
  "INITIAL_WORKSPACE_NAME = ''Personal Workspace''"

record identity_row =
  di_id :: uuid
  di_ib_account_id :: uuid
  di_email_normalized :: string
  di_email_lookup_hash :: "nat list"
  di_password_hash :: "string option"
  di_status :: string

record browser_session_row =
  sn_ib_account_id :: uuid
  sn_account_identity_id :: uuid
  sn_session_hash :: "nat list"
  sn_csrf_hash :: "nat list"
  sn_expires_at :: timestamp
  sn_idle_expires_at :: timestamp
  sn_last_seen_at :: timestamp
  sn_revoked_at :: "timestamp option"
  sn_created_at :: timestamp

record demo_intent_row =
  nt_id :: uuid
  nt_secret_hash :: "nat list"
  nt_api_key_id :: "uuid option"
  nt_expires_at :: timestamp
  nt_consumed_at :: "timestamp option"

record account_db =
  ad_accounts :: "account_row list"
  ad_identities :: "identity_row list"
  ad_sessions :: "browser_session_row list"
  ad_grants :: "capability_grant_row list"
  ad_intents :: "demo_intent_row list"
  ad_api_keys :: "api_key_row list"
  ad_key_policies :: "(uuid \<times> api_key_policy) list"
  ad_key_grants :: "capability_grant_row list"
  ad_workspaces :: workspace_db

datatype signup_outcome = SignupCreated | AlreadyRegistered

record password_login_identity =
  pl_account_identity_id :: uuid
  pl_password_hash :: string
  pl_account_status :: string
  pl_identity_status :: string

record browser_session_lookup =
  sl_ib_account_id :: uuid
  sl_public_id :: string
  sl_csrf_hash :: "nat list"

record issued_demo_key =
  dk_api_key_id :: uuid
  dk_expires_at :: timestamp

text \<open>What a transaction draws at random, and the time of the transaction.\<close>

record account_draw =
  aw_account_id :: uuid
  aw_identity_id :: uuid
  aw_workspace :: draw
  aw_row_id :: uuid
  aw_now :: timestamp

section \<open>The repository\<close>

text \<open>The sessions of the account are revoked before the new one is inserted.\<close>

definition create_session ::
  "timestamp \<Rightarrow> uuid \<Rightarrow> uuid \<Rightarrow> nat list \<Rightarrow> nat list \<Rightarrow> account_db \<Rightarrow> (account_db, repository_error) result" where
  "create_session now account_id identity_id session_hash csrf_hash db =
     (let revoked = map (\<lambda>s. if sn_ib_account_id s = account_id \<and> sn_revoked_at s = None
                            then s\<lparr>sn_revoked_at := Some now\<rparr> else s) (ad_sessions db);
          s = \<lparr>sn_ib_account_id = account_id, sn_account_identity_id = identity_id, sn_session_hash = session_hash,
               sn_csrf_hash = csrf_hash, sn_expires_at = now + SESSION_ABSOLUTE_TTL_SECONDS,
               sn_idle_expires_at = now + SESSION_IDLE_TTL_SECONDS, sn_last_seen_at = now, sn_revoked_at = None,
               sn_created_at = now\<rparr> in
      if length session_hash \<noteq> 32 \<or> length csrf_hash \<noteq> 32 \<or>
         session_hash \<in> sn_session_hash ` set (ad_sessions db) \<or>
         account_id \<notin> ia_id ` set (ad_accounts db) \<or> identity_id \<notin> di_id ` set (ad_identities db)
      then Err DatabaseError
      else Ok (db\<lparr>ad_sessions := revoked @ [s]\<rparr>))"

definition grant_capability :: "uuid \<Rightarrow> account_db \<Rightarrow> capability \<Rightarrow> account_db" where
  "grant_capability account_id db capability =
     (if list_ex (\<lambda>g. gr_holder g = account_id \<and> gr_capability_id g = capability_id capability \<and>
                     gr_network_scope g = ''*'') (ad_grants db) then db
      else db\<lparr>ad_grants := ad_grants db @
        [\<lparr>gr_holder = account_id, gr_capability_id = capability_id capability, gr_network_scope = ''*'',
          gr_status = ''active'', gr_expires_at = None\<rparr>]\<rparr>)"

definition grant_baseline_capabilities :: "uuid \<Rightarrow> account_db \<Rightarrow> account_db" where
  "grant_baseline_capabilities account_id db =
     foldl (grant_capability account_id) db (ACCOUNT_BASELINE @ DATALAB_BROWSER_BASELINE)"

text \<open>The workspace and its first event are the rows that \<open>WorkspaceRepository::create\<close> inserts without a description.\<close>

definition create_initial_workspace ::
  "text_env \<Rightarrow> draw \<Rightarrow> uuid \<Rightarrow> account_db \<Rightarrow> (account_db, repository_error) result" where
  "create_initial_workspace env d account_id db =
     (case create_workspace env d account_id INITIAL_WORKSPACE_NAME None (ad_workspaces db) of
        (Err e, _) \<Rightarrow> Err e
      | (Ok _, workspaces) \<Rightarrow> Ok (db\<lparr>ad_workspaces := workspaces\<rparr>))"

definition commit_accounts :: "account_db \<Rightarrow> ('a \<times> account_db, repository_error) result \<Rightarrow>
  ('a, repository_error) result \<times> account_db" where
  "commit_accounts db outcome = (case outcome of Ok (v, db') \<Rightarrow> (Ok v, db') | Err e \<Rightarrow> (Err e, db))"

definition insert_account :: "text_env \<Rightarrow> uuid \<Rightarrow> account_db \<Rightarrow> (account_db, repository_error) result" where
  "insert_account env account_id db =
     (let a = \<lparr>ia_id = account_id, ia_public_id = ''iba_'' @ te_simple env account_id, ia_status = ''active'',
               ia_closed_at = None\<rparr> in
      if ia_id a \<in> ia_id ` set (ad_accounts db) \<or> ia_public_id a \<in> ia_public_id ` set (ad_accounts db)
      then Err DatabaseError
      else Ok (db\<lparr>ad_accounts := ad_accounts db @ [a],
                 ad_workspaces := (ad_workspaces db)\<lparr>wd_accounts := insert account_id (wd_accounts (ad_workspaces db))\<rparr>\<rparr>))"

definition insert_identity ::
  "uuid \<Rightarrow> uuid \<Rightarrow> string \<Rightarrow> nat list \<Rightarrow> string \<Rightarrow> account_db \<Rightarrow> (account_db, repository_error) result" where
  "insert_identity identity_id account_id email_normalized email_lookup_hash password_hash db =
     (if \<not> non_blank email_normalized \<or> length email_lookup_hash \<noteq> 32 \<or> \<not> non_blank password_hash \<or>
         identity_id \<in> di_id ` set (ad_identities db) \<or>
         email_lookup_hash \<in> di_email_lookup_hash ` set (ad_identities db) \<or>
         account_id \<notin> ia_id ` set (ad_accounts db)
      then Err DatabaseError
      else Ok (db\<lparr>ad_identities := ad_identities db @
        [\<lparr>di_id = identity_id, di_ib_account_id = account_id, di_email_normalized = email_normalized,
          di_email_lookup_hash = email_lookup_hash, di_password_hash = Some password_hash,
          di_status = ''pending_verification''\<rparr>]\<rparr>))"

definition signup_and_create_session ::
  "text_env \<Rightarrow> account_draw \<Rightarrow> string \<Rightarrow> nat list \<Rightarrow> string \<Rightarrow> nat list \<Rightarrow> nat list \<Rightarrow> account_db \<Rightarrow>
   (signup_outcome, repository_error) result \<times> account_db" where
  "signup_and_create_session env d email_normalized email_lookup_hash password_hash session_hash csrf_hash db =
     commit_accounts db
       (if email_lookup_hash \<in> di_email_lookup_hash ` set (ad_identities db) then Ok (AlreadyRegistered, db)
        else
          and_then (insert_account env (aw_account_id d) db) (\<lambda>db1.
          and_then (insert_identity (aw_identity_id d) (aw_account_id d) email_normalized email_lookup_hash password_hash db1) (\<lambda>db2.
          and_then (create_initial_workspace env (aw_workspace d) (aw_account_id d)
                     (grant_baseline_capabilities (aw_account_id d) db2)) (\<lambda>db3.
          and_then (create_session (aw_now d) (aw_account_id d) (aw_identity_id d) session_hash csrf_hash db3) (\<lambda>db4.
          Ok (SignupCreated, db4))))))"

definition account_of :: "account_db \<Rightarrow> uuid \<Rightarrow> account_row option" where
  "account_of db account_id = find (\<lambda>a. ia_id a = account_id) (ad_accounts db)"

definition find_password_login_identity :: "account_db \<Rightarrow> nat list \<Rightarrow> password_login_identity option" where
  "find_password_login_identity db email_lookup_hash =
     Option.bind (find (\<lambda>i. di_email_lookup_hash i = email_lookup_hash) (ad_identities db)) (\<lambda>i.
     map_option (\<lambda>a. \<lparr>pl_account_identity_id = di_id i,
         pl_password_hash = (case di_password_hash i of None \<Rightarrow> [] | Some h \<Rightarrow> h),
         pl_account_status = ia_status a, pl_identity_status = di_status i\<rparr>)
       (account_of db (di_ib_account_id i)))"

definition create_password_login_session ::
  "timestamp \<Rightarrow> uuid \<Rightarrow> nat list \<Rightarrow> nat list \<Rightarrow> account_db \<Rightarrow> (bool, repository_error) result \<times> account_db" where
  "create_password_login_session now identity_id session_hash csrf_hash db =
     commit_accounts db
       (case find (\<lambda>i. di_id i = identity_id) (ad_identities db) of
          None \<Rightarrow> Ok (False, db)
        | Some i \<Rightarrow>
            (case account_of db (di_ib_account_id i) of
               None \<Rightarrow> Ok (False, db)
             | Some a \<Rightarrow>
                 if di_status i \<noteq> ''disabled'' \<and> di_password_hash i \<noteq> None \<and> ia_status a = ''active''
                 then and_then (create_session now (ia_id a) identity_id session_hash csrf_hash db) (\<lambda>db'. Ok (True, db'))
                 else Ok (False, db)))"

definition update_password_hash ::
  "uuid \<Rightarrow> string \<Rightarrow> account_db \<Rightarrow> (unit, repository_error) result \<times> account_db" where
  "update_password_hash identity_id password_hash db =
     (if \<not> non_blank password_hash \<and> identity_id \<in> di_id ` set (ad_identities db) then (Err DatabaseError, db)
      else (Ok (), db\<lparr>ad_identities := map (\<lambda>i. if di_id i = identity_id
              then i\<lparr>di_password_hash := Some password_hash\<rparr> else i) (ad_identities db)\<rparr>))"

definition session_usable :: "account_db \<Rightarrow> timestamp \<Rightarrow> nat list \<Rightarrow> browser_session_row \<Rightarrow> bool" where
  "session_usable db now session_hash s \<longleftrightarrow>
     sn_session_hash s = session_hash \<and> sn_revoked_at s = None \<and> sn_expires_at s > now \<and> sn_idle_expires_at s > now \<and>
     (case account_of db (sn_ib_account_id s) of None \<Rightarrow> False | Some a \<Rightarrow> ia_status a = ''active'') \<and>
     (case find (\<lambda>i. di_id i = sn_account_identity_id s) (ad_identities db) of
        None \<Rightarrow> False | Some i \<Rightarrow> di_status i \<noteq> ''disabled'')"

text \<open>\<open>update ... returning\<close>: finding a session extends its idle time, but not past its absolute end.\<close>

definition find_session ::
  "timestamp \<Rightarrow> nat list \<Rightarrow> account_db \<Rightarrow> browser_session_lookup option \<times> account_db" where
  "find_session now session_hash db =
     (Option.bind (find (session_usable db now session_hash) (ad_sessions db)) (\<lambda>s.
        map_option (\<lambda>a. \<lparr>sl_ib_account_id = sn_ib_account_id s, sl_public_id = ia_public_id a,
            sl_csrf_hash = sn_csrf_hash s\<rparr>) (account_of db (sn_ib_account_id s))),
      db\<lparr>ad_sessions := map (\<lambda>s. if session_usable db now session_hash s
           then s\<lparr>sn_last_seen_at := now,
                  sn_idle_expires_at := min (sn_expires_at s) (now + SESSION_IDLE_TTL_SECONDS)\<rparr> else s) (ad_sessions db)\<rparr>)"

definition revoke_session :: "timestamp \<Rightarrow> nat list \<Rightarrow> account_db \<Rightarrow> account_db" where
  "revoke_session now session_hash db =
     db\<lparr>ad_sessions := map (\<lambda>s. if sn_session_hash s = session_hash \<and> sn_revoked_at s = None
          then s\<lparr>sn_revoked_at := Some now\<rparr> else s) (ad_sessions db)\<rparr>"

text \<open>A grant has been revoked exactly when its status says so (a constraint of the table).\<close>

definition has_active_capability :: "account_db \<Rightarrow> timestamp \<Rightarrow> uuid \<Rightarrow> capability \<Rightarrow> string \<Rightarrow> bool" where
  "has_active_capability db now account_id capability network_slug =
     list_ex (\<lambda>g. gr_holder g = account_id \<and> gr_capability_id g = capability_id capability \<and> gr_status g = ''active'' \<and>
       \<not> expired (gr_expires_at g) now \<and> gr_network_scope g \<in> {''*'', network_slug}) (ad_grants db)"

definition create_demo_intent ::
  "timestamp \<Rightarrow> uuid \<Rightarrow> nat list \<Rightarrow> account_db \<Rightarrow> (unit, repository_error) result \<times> account_db" where
  "create_demo_intent now intent_id secret_hash db =
     (if length secret_hash \<noteq> 32 \<or> intent_id \<in> nt_id ` set (ad_intents db) \<or>
         secret_hash \<in> nt_secret_hash ` set (ad_intents db)
      then (Err DatabaseError, db)
      else (Ok (), db\<lparr>ad_intents := ad_intents db @
        [\<lparr>nt_id = intent_id, nt_secret_hash = secret_hash, nt_api_key_id = None,
          nt_expires_at = now + DEMO_INTENT_TTL_SECONDS, nt_consumed_at = None\<rparr>]\<rparr>))"

definition demo_key_row :: "timestamp \<Rightarrow> uuid \<Rightarrow> string \<Rightarrow> nat list \<Rightarrow> api_key_row" where
  "demo_key_row now key_id key_prefix key_hash =
     \<lparr>ak_id = key_id, ak_consumer_id = None, ak_ib_account_id = None, ak_client_id = None, ak_kind = ''anonymous_demo'',
      ak_label = ''anonymous demo'', ak_key_prefix = key_prefix, ak_key_hash = key_hash, ak_hash_algorithm = ''sha256'',
      ak_status = ''active'', ak_expires_at = Some (now + DEMO_KEY_TTL_SECONDS), ak_revoked_at = None,
      ak_last_used_at = None, ak_created_at = now\<rparr>"

definition demo_grants :: "uuid \<Rightarrow> capability_grant_row list" where
  "demo_grants key_id =
     map (\<lambda>capability. \<lparr>gr_holder = key_id, gr_capability_id = capability_id capability,
       gr_network_scope = ''eth-mainnet'', gr_status = ''active'', gr_expires_at = None\<rparr>) LEGACY_BASELINE"

definition consume_demo_intent_and_issue_key ::
  "timestamp \<Rightarrow> uuid \<Rightarrow> nat list \<Rightarrow> string \<Rightarrow> nat list \<Rightarrow> account_db \<Rightarrow>
   (issued_demo_key option, repository_error) result \<times> account_db" where
  "consume_demo_intent_and_issue_key now key_id intent_hash key_prefix key_hash db =
     commit_accounts db
       (case find (\<lambda>i. nt_secret_hash i = intent_hash \<and> nt_consumed_at i = None \<and> nt_expires_at i > now) (ad_intents db) of
          None \<Rightarrow> Ok (None, db)
        | Some intent \<Rightarrow>
            if \<not> api_key_checks (demo_key_row now key_id key_prefix key_hash) \<or> key_id \<in> ak_id ` set (ad_api_keys db) \<or>
               key_prefix \<in> ak_key_prefix ` set (ad_api_keys db) \<or> key_hash \<in> ak_key_hash ` set (ad_api_keys db)
            then Err DatabaseError
            else Ok (Some \<lparr>dk_api_key_id = key_id, dk_expires_at = now + DEMO_KEY_TTL_SECONDS\<rparr>,
              db\<lparr>ad_api_keys := ad_api_keys db @ [demo_key_row now key_id key_prefix key_hash],
                 ad_key_policies := ad_key_policies db @
                   [(key_id, \<lparr>po_requests_per_minute = 10, po_requests_per_day = 100\<rparr>)],
                 ad_key_grants := ad_key_grants db @ demo_grants key_id,
                 ad_intents := map (\<lambda>i. if nt_id i = nt_id intent
                   then i\<lparr>nt_consumed_at := Some now, nt_api_key_id := Some key_id\<rparr> else i) (ad_intents db)\<rparr>))"

section \<open>Requests of a browser\<close>

text \<open>The first \<open>Cookie\<close> and \<open>Origin\<close> headers, where they are visible ASCII.\<close>

record web_headers =
  wh_cookie :: "string option"
  wh_origin :: "string option"

record web_config =
  wc_public_web_base_url :: string
  wc_account_email_lookup_pepper :: "string option"

text \<open>Third-party code, the tokens of the random generator, the draws and the faults of the statements of one request.\<close>

record web_env =
  we_text :: text_env
  we_argon2 :: argon2
  we_dummy_hash :: "string option"
  we_sha256 :: "string \<Rightarrow> nat list"
  we_session_token :: "string option"
  we_csrf_token :: "string option"
  we_page_token :: "string option"
  we_raw_key :: "raw_api_key option"
  we_draw :: account_draw
  we_lookup_fault :: fault
  we_update_fault :: fault
  we_statement_fault :: fault

datatype browser_principal = Anonymous | Authenticated uuid string "nat list"

datatype web_response =
    SeeOther string "string list"
  | StatusOnly nat
  | EntryPage nat string string "string option" string "string list"
  | AccessPage "string option"
  | DemoKeyPage string timestamp
  | MessagePage string string

definition SESSION_COOKIE :: string where
  "SESSION_COOKIE = ''__Host-ib_session''"

definition CSRF_COOKIE :: string where
  "CSRF_COOKIE = ''__Host-ib_csrf''"

definition web_hash :: "web_env \<Rightarrow> string \<Rightarrow> nat list" where
  "web_hash env v = we_sha256 env v"

definition hash_with_pepper :: "web_env \<Rightarrow> string \<Rightarrow> string \<Rightarrow> nat list" where
  "hash_with_pepper env v pepper = we_sha256 env (v @ [char_of (0 :: nat)] @ pepper)"

definition normalize_email :: "string \<Rightarrow> string option" where
  "normalize_email v =
     (let v = to_ascii_lowercase (trim v) in
      if length v \<le> 254 \<and> CHR ''@'' \<in> set v \<and> \<not> list_ex (contains_str v) white_space then Some v else None)"

definition cookie_value :: "web_headers \<Rightarrow> string \<Rightarrow> string option" where
  "cookie_value headers name =
     Option.bind (wh_cookie headers) (\<lambda>cookies.
       case List.map_filter (\<lambda>part. strip_prefix_str (name @ ''='') (trim part)) (split_on CHR '';'' cookies) of
         [] \<Rightarrow> None
       | v # _ \<Rightarrow> Some v)"

definition cookie_header :: "string \<Rightarrow> string \<Rightarrow> bool \<Rightarrow> string" where
  "cookie_header name v http_only =
     name @ ''='' @ v @ ''; Path=/; Secure; SameSite=Lax'' @ (if http_only then ''; HttpOnly'' else '''')"

definition expired_cookie :: "string \<Rightarrow> bool \<Rightarrow> string" where
  "expired_cookie name http_only =
     name @ ''=; Path=/; Secure; SameSite=Lax; Max-Age=0'' @ (if http_only then ''; HttpOnly'' else '''')"

definition same_origin :: "web_headers \<Rightarrow> string \<Rightarrow> bool" where
  "same_origin headers expected \<longleftrightarrow> wh_origin headers = Some (trim_end_matches CHR ''/'' expected)"

definition entry_csrf_valid :: "web_config \<Rightarrow> web_headers \<Rightarrow> string \<Rightarrow> bool" where
  "entry_csrf_valid config headers submitted \<longleftrightarrow>
     same_origin headers (wc_public_web_base_url config) \<and> cookie_value headers CSRF_COOKIE = Some submitted"

text \<open>A statement under a fault, as in theory \<open>Auth\<close>.\<close>

definition run_accounts ::
  "fault \<Rightarrow> ('a, repository_error) result \<times> account_db \<Rightarrow> account_db \<Rightarrow> ('a, repository_error) result \<times> account_db" where
  "run_accounts f outcome db =
     (case f of
        NoFault \<Rightarrow> outcome
      | FailsBefore \<Rightarrow> (Err DatabaseError, db)
      | FailsAfter \<Rightarrow> (Err DatabaseError, snd outcome))"

definition attach_browser_context ::
  "web_env \<Rightarrow> web_headers \<Rightarrow> account_db option \<Rightarrow> browser_principal \<times> account_db option" where
  "attach_browser_context env headers repository =
     (case (repository, cookie_value headers SESSION_COOKIE) of
        (Some db, Some v) \<Rightarrow>
          (case run_accounts (we_lookup_fault env)
                  (apfst Ok (find_session (aw_now (we_draw env)) (web_hash env v) db)) db of
             (Ok (Some session), db') \<Rightarrow>
               (Authenticated (sl_ib_account_id session) (sl_public_id session) (sl_csrf_hash session), Some db')
           | (_, db') \<Rightarrow> (Anonymous, Some db'))
      | _ \<Rightarrow> (Anonymous, repository))"

fun authenticated :: "browser_principal \<Rightarrow> bool" where
  "authenticated Anonymous = False"
| "authenticated (Authenticated _ _ _) = True"

definition account_entry_response ::
  "web_env \<Rightarrow> nat \<Rightarrow> string \<Rightarrow> string \<Rightarrow> string option \<Rightarrow> browser_principal \<Rightarrow> web_response" where
  "account_entry_response env status action heading error caller =
     (if authenticated caller then SeeOther ''/lab'' []
      else
        (case we_page_token env of
           None \<Rightarrow> StatusOnly 503
         | Some csrf \<Rightarrow> EntryPage status action heading error csrf [cookie_header CSRF_COOKIE csrf False]))"

text \<open>\<open>invalid_credentials_response\<close> overwrites the status, also that of a response without a page.\<close>

definition invalid_credentials_response :: "web_env \<Rightarrow> web_response" where
  "invalid_credentials_response env =
     (case account_entry_response env 401 ''/login'' ''Sign in'' (Some ''Invalid email or password.'') Anonymous of
        StatusOnly _ \<Rightarrow> StatusOnly 401
      | response \<Rightarrow> response)"

definition authenticated_redirect :: "string \<Rightarrow> string \<Rightarrow> web_response" where
  "authenticated_redirect session csrf =
     SeeOther ''/lab'' [cookie_header SESSION_COOKIE session True, cookie_header CSRF_COOKIE csrf False]"

record account_form =
  fm_email :: string
  fm_password :: string
  fm_csrf :: string

definition signup_submit ::
  "web_env \<Rightarrow> web_config \<Rightarrow> web_headers \<Rightarrow> browser_principal \<Rightarrow> account_form \<Rightarrow> account_db option \<Rightarrow>
   web_response \<times> account_db option" where
  "signup_submit env config headers caller form repository =
     (let page = \<lambda>message. account_entry_response env 200 ''/signup'' ''Create your account'' (Some message) Anonymous in
      if authenticated caller then (SeeOther ''/lab'' [], repository)
      else if \<not> entry_csrf_valid config headers (fm_csrf form) then (StatusOnly 403, repository)
      else
        (case normalize_email (fm_email form) of
           None \<Rightarrow> (page ''Enter a valid email address.'', repository)
         | Some email \<Rightarrow>
             (case hash_password (we_argon2 env) (fm_password form) of
                Err _ \<Rightarrow> (page ''Use a password between 12 and 128 characters.'', repository)
              | Ok password_hash \<Rightarrow>
                  (case (repository, wc_account_email_lookup_pepper config, we_session_token env, we_csrf_token env) of
                     (Some db, Some pepper, Some session, Some csrf) \<Rightarrow>
                       (case run_accounts (we_statement_fault env)
                               (signup_and_create_session (we_text env) (we_draw env) email
                                 (hash_with_pepper env email pepper) password_hash (web_hash env session) (web_hash env csrf) db) db of
                          (Ok SignupCreated, db') \<Rightarrow> (authenticated_redirect session csrf, Some db')
                        | (Ok AlreadyRegistered, db') \<Rightarrow>
                            (page ''We could not create an account with those credentials.'', Some db')
                        | (Err _, db') \<Rightarrow> (StatusOnly 503, Some db'))
                   | _ \<Rightarrow> (StatusOnly 503, repository)))))"

text \<open>The part of \<open>login_submit\<close> after the password has been verified.\<close>

definition start_session ::
  "web_env \<Rightarrow> password_login_identity \<Rightarrow> string \<Rightarrow> string \<Rightarrow> account_db \<Rightarrow> web_response \<times> account_db" where
  "start_session env identity session csrf db =
     (case run_accounts (we_statement_fault env)
             (create_password_login_session (aw_now (we_draw env)) (pl_account_identity_id identity)
               (web_hash env session) (web_hash env csrf) db) db of
        (Ok True, db') \<Rightarrow> (authenticated_redirect session csrf, db')
      | (Ok False, db') \<Rightarrow> (invalid_credentials_response env, db')
      | (Err _, db') \<Rightarrow> (StatusOnly 503, db'))"

definition upgrade_hash ::
  "web_env \<Rightarrow> password_login_identity \<Rightarrow> string \<Rightarrow> account_db \<Rightarrow> (unit, repository_error) result \<times> account_db" where
  "upgrade_hash env identity password db =
     (if needs_rehash (we_argon2 env) (pl_password_hash identity)
      then (case hash_password (we_argon2 env) password of
              Ok replacement \<Rightarrow>
                run_accounts (we_update_fault env) (update_password_hash (pl_account_identity_id identity) replacement db) db
            | Err _ \<Rightarrow> (Ok (), db))
      else (Ok (), db))"

text \<open>
  \<open>verify_dummy\<close> verifies the password against a hash that is computed once, and panics when it cannot be computed
  (\<open>None\<close>). Its result is not used.
\<close>

definition verify_dummy :: "web_env \<Rightarrow> string \<Rightarrow> unit option" where
  "verify_dummy env password =
     map_option (\<lambda>encoded. let _ = password_verify (we_argon2 env) password encoded in ()) (we_dummy_hash env)"

definition login_submit ::
  "web_env \<Rightarrow> web_config \<Rightarrow> web_headers \<Rightarrow> browser_principal \<Rightarrow> account_form \<Rightarrow> account_db option \<Rightarrow>
   (web_response \<times> account_db option) option" where
  "login_submit env config headers caller form repository =
     (let refuse = map_option (\<lambda>_. (invalid_credentials_response env, repository)) (verify_dummy env (fm_password form)) in
      if authenticated caller then Some (SeeOther ''/lab'' [], repository)
      else if \<not> entry_csrf_valid config headers (fm_csrf form) then Some (StatusOnly 403, repository)
      else
        (case normalize_email (fm_email form) of
           None \<Rightarrow> refuse
         | Some email \<Rightarrow>
             (case (repository, wc_account_email_lookup_pepper config) of
                (Some db, Some pepper) \<Rightarrow>
                  (case run_query (we_lookup_fault env)
                          (Ok (find_password_login_identity db (hash_with_pepper env email pepper))) of
                     Err _ \<Rightarrow> Some (StatusOnly 503, repository)
                   | Ok None \<Rightarrow> refuse
                   | Ok (Some identity) \<Rightarrow>
                       if pl_account_status identity \<noteq> ''active'' \<or> pl_identity_status identity = ''disabled'' \<or>
                          pl_password_hash identity = []
                       then refuse
                       else if \<not> password_verify (we_argon2 env) (fm_password form) (pl_password_hash identity)
                       then Some (invalid_credentials_response env, repository)
                       else
                         (case (we_session_token env, we_csrf_token env) of
                            (Some session, Some csrf) \<Rightarrow>
                              (case upgrade_hash env identity (fm_password form) db of
                                 (Err _, db') \<Rightarrow> Some (StatusOnly 503, Some db')
                               | (Ok _, db') \<Rightarrow> Some (apsnd Some (start_session env identity session csrf db')))
                          | _ \<Rightarrow> Some (StatusOnly 503, repository)))
              | _ \<Rightarrow> Some (StatusOnly 503, repository))))"

definition logout ::
  "web_env \<Rightarrow> web_config \<Rightarrow> web_headers \<Rightarrow> browser_principal \<Rightarrow> string \<Rightarrow> account_db option \<Rightarrow>
   web_response \<times> account_db option" where
  "logout env config headers caller form_csrf repository =
     (case (caller, cookie_value headers SESSION_COOKIE, cookie_value headers CSRF_COOKIE, repository) of
        (Authenticated _ _ csrf_hash, Some session, Some csrf, Some db) \<Rightarrow>
          if \<not> same_origin headers (wc_public_web_base_url config) \<or> csrf \<noteq> form_csrf \<or> web_hash env csrf \<noteq> csrf_hash
          then (StatusOnly 403, repository)
          else
            (SeeOther ''/'' [expired_cookie SESSION_COOKIE True, expired_cookie CSRF_COOKIE False],
             Some (snd (run_accounts (we_statement_fault env)
               (Ok (), revoke_session (aw_now (we_draw env)) (web_hash env session) db) db)))
      | _ \<Rightarrow> (SeeOther ''/'' [], repository))"

definition access_page :: "web_env \<Rightarrow> account_db option \<Rightarrow> web_response \<times> account_db option" where
  "access_page env repository =
     (case (we_page_token env, repository) of
        (Some token, Some db) \<Rightarrow>
          (case run_accounts (we_statement_fault env)
                  (create_demo_intent (aw_now (we_draw env)) (aw_row_id (we_draw env)) (web_hash env token) db) db of
             (Ok _, db') \<Rightarrow> (AccessPage (Some token), Some db')
           | (Err _, db') \<Rightarrow> (AccessPage None, Some db'))
      | _ \<Rightarrow> (AccessPage None, repository))"

definition issue_demo ::
  "web_env \<Rightarrow> web_config \<Rightarrow> web_headers \<Rightarrow> string \<Rightarrow> account_db option \<Rightarrow> web_response \<times> account_db option" where
  "issue_demo env config headers intent repository =
     (if \<not> same_origin headers (wc_public_web_base_url config) then (StatusOnly 403, repository)
      else
        (case (repository, we_raw_key env) of
           (Some db, Some raw_key) \<Rightarrow>
             (case key_prefix_of raw_key of
                Err _ \<Rightarrow> (StatusOnly 500, repository)
              | Ok key_prefix \<Rightarrow>
                  (case run_accounts (we_statement_fault env)
                          (consume_demo_intent_and_issue_key (aw_now (we_draw env)) (aw_row_id (we_draw env))
                            (web_hash env intent) key_prefix (we_sha256 env (rk_value raw_key)) db) db of
                     (Ok (Some issued), db') \<Rightarrow> (DemoKeyPage (rk_value raw_key) (dk_expires_at issued), Some db')
                   | (Ok None, db') \<Rightarrow>
                       (MessagePage ''Demo key unavailable'' ''Request a new demo key from the access page.'', Some db')
                   | (Err _, db') \<Rightarrow> (StatusOnly 503, Some db')))
         | _ \<Rightarrow> (StatusOnly 503, repository)))"

section \<open>Histories\<close>

text \<open>
  A step is a request of a browser, with any headers, form, principal, tokens and faults, or a change of the status of accounts
  and identities by an operator. A request is one step where the code issues one statement or transaction. A login issues three,
  which other requests may come between: a query, which changes nothing, the update of the hash, and the transaction of the session;
  each of the last two is a step of its own as well, for any identity that an earlier query may have returned, so that
  histories contain every interleaving of them.
\<close>

inductive account_step :: "account_db \<Rightarrow> account_db \<Rightarrow> bool" where
  SignupStep: "signup_submit env config headers caller form (Some db) = (response, Some db') \<Longrightarrow> account_step db db'"
| LoginStep: "login_submit env config headers caller form (Some db) = Some (response, Some db') \<Longrightarrow> account_step db db'"
| LogoutStep: "logout env config headers caller csrf (Some db) = (response, Some db') \<Longrightarrow> account_step db db'"
| AttachStep: "attach_browser_context env headers (Some db) = (caller, Some db') \<Longrightarrow> account_step db db'"
| AccessStep: "access_page env (Some db) = (response, Some db') \<Longrightarrow> account_step db db'"
| DemoStep: "issue_demo env config headers intent (Some db) = (response, Some db') \<Longrightarrow> account_step db db'"
| StatusStep: "account_step db (db\<lparr>ad_accounts := map (\<lambda>a. a\<lparr>ia_status := f a\<rparr>) (ad_accounts db),
    ad_identities := map (\<lambda>i. i\<lparr>di_status := g i\<rparr>) (ad_identities db)\<rparr>)"
| UpgradeStep: "run_accounts f (update_password_hash i h db) db = (r, db') \<Longrightarrow> account_step db db'"
| SessionStep: "run_accounts f (create_password_login_session now i sh ch db) db = (q, db') \<Longrightarrow> account_step db db'"

definition no_accounts :: "string set \<Rightarrow> account_db" where
  "no_accounts networks =
     \<lparr>ad_accounts = [], ad_identities = [], ad_sessions = [], ad_grants = [], ad_intents = [], ad_api_keys = [],
      ad_key_policies = [], ad_key_grants = [],
      ad_workspaces = \<lparr>wd_accounts = {}, wd_networks = networks, wd_workspaces = [], wd_members = [], wd_labels = [],
        wd_events = [], wd_snapshots = []\<rparr>\<rparr>"

definition account_history :: "account_db \<Rightarrow> bool" where
  "account_history db \<longleftrightarrow> (\<exists>networks. account_step\<^sup>*\<^sup>* (no_accounts networks) db)"

section \<open>The invariant\<close>

definition account_ids :: "account_db \<Rightarrow> uuid list" where
  "account_ids db = map ia_id (ad_accounts db)"

definition identity_keys :: "account_db \<Rightarrow> (uuid \<times> uuid) list" where
  "identity_keys db = map (\<lambda>i. (di_id i, di_ib_account_id i)) (ad_identities db)"

definition lookup_hashes :: "account_db \<Rightarrow> nat list list" where
  "lookup_hashes db = map di_email_lookup_hash (ad_identities db)"

definition live_sessions :: "account_db \<Rightarrow> browser_session_row list" where
  "live_sessions db = filter (\<lambda>s. sn_revoked_at s = None) (ad_sessions db)"

definition session_row_ok :: "browser_session_row \<Rightarrow> bool" where
  "session_row_ok s \<longleftrightarrow>
     sn_expires_at s = sn_created_at s + SESSION_ABSOLUTE_TTL_SECONDS \<and>
     sn_idle_expires_at s \<le> sn_last_seen_at s + SESSION_IDLE_TTL_SECONDS \<and> sn_idle_expires_at s \<le> sn_expires_at s"

definition sessions_ok :: "account_db \<Rightarrow> bool" where
  "sessions_ok db \<longleftrightarrow>
     distinct (map sn_session_hash (ad_sessions db)) \<and> distinct (map sn_ib_account_id (live_sessions db)) \<and>
     (\<forall>s\<in>set (ad_sessions db). session_row_ok s \<and>
        (sn_account_identity_id s, sn_ib_account_id s) \<in> set (identity_keys db))"

definition identities_ok :: "account_db \<Rightarrow> bool" where
  "identities_ok db \<longleftrightarrow>
     distinct (account_ids db) \<and> distinct (map fst (identity_keys db)) \<and> distinct (lookup_hashes db) \<and>
     snd ` set (identity_keys db) \<subseteq> set (account_ids db)"

text \<open>Every demo key belongs to its own intent.\<close>

definition intents_ok :: "account_db \<Rightarrow> bool" where
  "intents_ok db \<longleftrightarrow>
     distinct (map nt_id (ad_intents db)) \<and> distinct (map nt_secret_hash (ad_intents db)) \<and>
     (\<forall>i\<in>set (ad_intents db). nt_consumed_at i = None \<longleftrightarrow> nt_api_key_id i = None) \<and>
     mset (List.map_filter nt_api_key_id (ad_intents db)) = mset (map ak_id (ad_api_keys db)) \<and>
     distinct (map ak_id (ad_api_keys db))"

definition accounts_ok :: "account_db \<Rightarrow> bool" where
  "accounts_ok db \<longleftrightarrow> identities_ok db \<and> sessions_ok db \<and> intents_ok db"

lemma grant_capabilities_eq: "\<exists>gs. foldl (grant_capability i) db cs = db\<lparr>ad_grants := gs\<rparr>"
proof (induction cs arbitrary: db)
  case Nil
  show ?case by (rule exI[of _ "ad_grants db"]) simp
next
  case (Cons c cs)
  obtain gs where "foldl (grant_capability i) (grant_capability i db c) cs = (grant_capability i db c)\<lparr>ad_grants := gs\<rparr>"
    using Cons by blast
  moreover have "(grant_capability i db c)\<lparr>ad_grants := gs\<rparr> = db\<lparr>ad_grants := gs\<rparr>" by (simp add: grant_capability_def)
  ultimately show ?case by (metis foldl_Cons)
qed

lemma baseline_simps [simp]:
  "ad_accounts (grant_baseline_capabilities i db) = ad_accounts db" "ad_identities (grant_baseline_capabilities i db) = ad_identities db"
  "ad_sessions (grant_baseline_capabilities i db) = ad_sessions db" "ad_intents (grant_baseline_capabilities i db) = ad_intents db"
  "ad_api_keys (grant_baseline_capabilities i db) = ad_api_keys db" "ad_workspaces (grant_baseline_capabilities i db) = ad_workspaces db"
  using grant_capabilities_eq[of i db "ACCOUNT_BASELINE @ DATALAB_BROWSER_BASELINE"]
  by (auto simp: grant_baseline_capabilities_def)

text \<open>Only the listed tables matter to the invariant.\<close>

lemma accounts_ok_cong:
  assumes "account_ids db' = account_ids db" "identity_keys db' = identity_keys db" "lookup_hashes db' = lookup_hashes db"
    "ad_sessions db' = ad_sessions db" "ad_intents db' = ad_intents db" "ad_api_keys db' = ad_api_keys db"
  shows "accounts_ok db' \<longleftrightarrow> accounts_ok db"
  using assms by (simp add: accounts_ok_def identities_ok_def sessions_ok_def intents_ok_def live_sessions_def)

lemma insert_account_ok:
  assumes "insert_account env i db = Ok db'" "accounts_ok db"
  shows "accounts_ok db'" "identity_keys db' = identity_keys db"
proof -
  have k: "account_ids db' = account_ids db @ [i]" "i \<notin> set (account_ids db)" "identity_keys db' = identity_keys db"
    "lookup_hashes db' = lookup_hashes db" "ad_sessions db' = ad_sessions db" "ad_intents db' = ad_intents db"
    "ad_api_keys db' = ad_api_keys db"
    using assms(1) by (auto simp: insert_account_def Let_def account_ids_def identity_keys_def lookup_hashes_def split: if_splits)
  show "identity_keys db' = identity_keys db" using k(3) .
  show "accounts_ok db'"
    using assms(2) k(2) unfolding accounts_ok_def identities_ok_def sessions_ok_def intents_ok_def live_sessions_def k
    by auto
qed

lemma insert_identity_ok:
  assumes "insert_identity i a email h p db = Ok db'" "accounts_ok db"
  shows "accounts_ok db'" "(i, a) \<in> set (identity_keys db')"
proof -
  have k: "account_ids db' = account_ids db" "identity_keys db' = identity_keys db @ [(i, a)]"
    "lookup_hashes db' = lookup_hashes db @ [h]" "ad_sessions db' = ad_sessions db" "ad_intents db' = ad_intents db"
    "ad_api_keys db' = ad_api_keys db"
    and new: "i \<notin> fst ` set (identity_keys db)" "h \<notin> set (lookup_hashes db)" "a \<in> set (account_ids db)"
    using assms(1)
    by (auto simp: insert_identity_def account_ids_def identity_keys_def lookup_hashes_def image_image split: if_splits)
  show "(i, a) \<in> set (identity_keys db')" by (simp add: k(2))
  show "accounts_ok db'"
    using assms(2) new unfolding accounts_ok_def identities_ok_def sessions_ok_def intents_ok_def live_sessions_def k
    by auto
qed

text \<open>Revoking sessions.\<close>

definition revoke_where :: "(browser_session_row \<Rightarrow> bool) \<Rightarrow> timestamp \<Rightarrow> browser_session_row list \<Rightarrow> browser_session_row list" where
  "revoke_where P now ss = map (\<lambda>s. if P s \<and> sn_revoked_at s = None then s\<lparr>sn_revoked_at := Some now\<rparr> else s) ss"

lemma revoke_where_keys [simp]:
  "map sn_session_hash (revoke_where P now ss) = map sn_session_hash ss"
  "filter (\<lambda>s. sn_revoked_at s = None) (revoke_where P now ss) = filter (\<lambda>s. sn_revoked_at s = None \<and> \<not> P s) ss"
  by (induction ss) (auto simp: revoke_where_def)

lemma revoke_where_rows:
  "s \<in> set (revoke_where P now ss) \<Longrightarrow> \<exists>t\<in>set ss. session_row_ok s = session_row_ok t \<and>
     sn_account_identity_id s = sn_account_identity_id t \<and> sn_ib_account_id s = sn_ib_account_id t"
  by (auto simp: revoke_where_def session_row_ok_def)

lemma sessions_ok_revoke:
  assumes "sessions_ok db"
  shows "sessions_ok (db\<lparr>ad_sessions := revoke_where P now (ad_sessions db)\<rparr>)"
  unfolding sessions_ok_def live_sessions_def
proof (intro conjI ballI)
  show "distinct (map sn_session_hash (ad_sessions (db\<lparr>ad_sessions := revoke_where P now (ad_sessions db)\<rparr>)))"
    using assms by (simp add: sessions_ok_def)
  have "filter (\<lambda>s. sn_revoked_at s = None \<and> \<not> P s) (ad_sessions db) = filter (\<lambda>s. \<not> P s) (live_sessions db)"
    by (simp add: live_sessions_def conj_commute)
  then show "distinct (map sn_ib_account_id (filter (\<lambda>s. sn_revoked_at s = None)
      (ad_sessions (db\<lparr>ad_sessions := revoke_where P now (ad_sessions db)\<rparr>))))"
    using assms by (simp add: sessions_ok_def distinct_map_filter)
  fix s assume s: "s \<in> set (ad_sessions (db\<lparr>ad_sessions := revoke_where P now (ad_sessions db)\<rparr>))"
  then obtain t where t: "t \<in> set (ad_sessions db)" "session_row_ok s = session_row_ok t"
    "sn_account_identity_id s = sn_account_identity_id t" "sn_ib_account_id s = sn_ib_account_id t"
    using revoke_where_rows[of s P now "ad_sessions db"] by auto
  then show "session_row_ok s" "(sn_account_identity_id s, sn_ib_account_id s) \<in>
      set (identity_keys (db\<lparr>ad_sessions := revoke_where P now (ad_sessions db)\<rparr>))"
    using assms by (simp_all add: sessions_ok_def identity_keys_def)
qed

lemma revoke_session_eq:
  "revoke_session now h db = db\<lparr>ad_sessions := revoke_where (\<lambda>s. sn_session_hash s = h) now (ad_sessions db)\<rparr>"
  by (simp add: revoke_session_def revoke_where_def)

lemma create_session_Ok:
  assumes "create_session now a i h csrf db = Ok db'"
  shows "h \<notin> sn_session_hash ` set (ad_sessions db)"
    "db' = db\<lparr>ad_sessions := revoke_where (\<lambda>s. sn_ib_account_id s = a) now (ad_sessions db) @
       [\<lparr>sn_ib_account_id = a, sn_account_identity_id = i, sn_session_hash = h, sn_csrf_hash = csrf,
         sn_expires_at = now + SESSION_ABSOLUTE_TTL_SECONDS, sn_idle_expires_at = now + SESSION_IDLE_TTL_SECONDS,
         sn_last_seen_at = now, sn_revoked_at = None, sn_created_at = now\<rparr>]\<rparr>"
  using assms by (auto simp: create_session_def Let_def revoke_where_def split: if_splits)

lemma create_session_ok:
  assumes "create_session now a i h csrf db = Ok db'" "accounts_ok db"
    "(i, a) \<in> set (identity_keys db)"
  shows "accounts_ok db'"
proof -
  let ?R = "revoke_where (\<lambda>s. sn_ib_account_id s = a) now (ad_sessions db)"
  let ?s = "\<lparr>sn_ib_account_id = a, sn_account_identity_id = i, sn_session_hash = h, sn_csrf_hash = csrf,
         sn_expires_at = now + SESSION_ABSOLUTE_TTL_SECONDS, sn_idle_expires_at = now + SESSION_IDLE_TTL_SECONDS,
         sn_last_seen_at = now, sn_revoked_at = None, sn_created_at = now\<rparr>"
  note c = create_session_Ok[OF assms(1)]
  have r: "sessions_ok (db\<lparr>ad_sessions := ?R\<rparr>)" using sessions_ok_revoke assms(2) by (simp add: accounts_ok_def)
  have "sn_session_hash ` set ?R = sn_session_hash ` set (ad_sessions db)" by (metis revoke_where_keys(1) set_map)
  then have "distinct (map sn_session_hash (?R @ [?s]))" using r c(1) by (simp add: sessions_ok_def)
  moreover have "distinct (map sn_ib_account_id (filter (\<lambda>s. sn_revoked_at s = None) (?R @ [?s])))"
    using r by (auto simp: sessions_ok_def live_sessions_def)
  moreover have "session_row_ok ?s"
    by (simp add: session_row_ok_def SESSION_ABSOLUTE_TTL_SECONDS_def SESSION_IDLE_TTL_SECONDS_def)
  ultimately have "sessions_ok db'" using r assms(3) by (auto simp: c(2) sessions_ok_def live_sessions_def identity_keys_def)
  then show ?thesis
    using assms(2) by (simp add: accounts_ok_def identities_ok_def intents_ok_def c(2) identity_keys_def account_ids_def lookup_hashes_def)
qed

lemma find_session_ok:
  assumes "accounts_ok db"
  shows "accounts_ok (snd (find_session now h db))"
proof -
  let ?f = "\<lambda>s. if session_usable db now h s then s\<lparr>sn_last_seen_at := now,
      sn_idle_expires_at := min (sn_expires_at s) (now + SESSION_IDLE_TTL_SECONDS)\<rparr> else s"
  have live: "filter (\<lambda>s. sn_revoked_at s = None) (map ?f ss) = map ?f (filter (\<lambda>s. sn_revoked_at s = None) ss)" for ss
    by (induction ss) auto
  have "sessions_ok (db\<lparr>ad_sessions := map ?f (ad_sessions db)\<rparr>)"
    using assms unfolding accounts_ok_def sessions_ok_def live_sessions_def
    by (auto simp: identity_keys_def live comp_def if_distrib[of sn_ib_account_id] if_distrib[of sn_session_hash] session_row_ok_def cong: if_cong)
  then show ?thesis using assms 
    by (simp add: find_session_def accounts_ok_def identities_ok_def intents_ok_def identity_keys_def account_ids_def lookup_hashes_def)
qed

lemma update_password_ok:
  assumes "accounts_ok db"
  shows "accounts_ok (snd (update_password_hash i h db))" "identity_keys (snd (update_password_hash i h db)) = identity_keys db"
proof -
  let ?db = "snd (update_password_hash i h db)"
  have k: "identity_keys ?db = identity_keys db" "lookup_hashes ?db = lookup_hashes db"
    by (auto simp: update_password_hash_def identity_keys_def lookup_hashes_def)
  then show "identity_keys ?db = identity_keys db" by simp
  show "accounts_ok ?db"
    using accounts_ok_cong[OF _ k, THEN iffD2, OF _ _ _ _ assms] by (simp add: update_password_hash_def account_ids_def)
qed

lemma status_ok:
  assumes "accounts_ok db"
  shows "accounts_ok (db\<lparr>ad_accounts := map (\<lambda>a. a\<lparr>ia_status := f a\<rparr>) (ad_accounts db),
    ad_identities := map (\<lambda>i. i\<lparr>di_status := g i\<rparr>) (ad_identities db)\<rparr>)" (is "accounts_ok ?db")
proof -
  have "account_ids ?db = account_ids db" "identity_keys ?db = identity_keys db" "lookup_hashes ?db = lookup_hashes db"
    by (simp_all add: account_ids_def identity_keys_def lookup_hashes_def comp_def)
  from accounts_ok_cong[OF this, THEN iffD2, OF _ _ _ assms] show ?thesis by simp
qed

lemma create_intent_ok:
  assumes "accounts_ok db"
  shows "accounts_ok (snd (create_demo_intent now i h db))"
  using assms
  by (auto simp: create_demo_intent_def accounts_ok_def identities_ok_def sessions_ok_def intents_ok_def live_sessions_def
      account_ids_def identity_keys_def lookup_hashes_def map_filter_def)

lemma map_filter_update:
  assumes "distinct (map key xs)" "x \<in> set xs" "f x = None" "f (g x) = Some k"
  shows "mset (List.map_filter f (map (\<lambda>y. if key y = key x then g y else y) xs)) = add_mset k (mset (List.map_filter f xs))"
  using assms(1,2)
proof (induction xs)
  case (Cons y ys)
  show ?case
  proof (cases "y = x")
    case True
    then have "\<forall>z\<in>set ys. key z \<noteq> key x" using Cons.prems(1) by (metis distinct.simps(2) image_eqI list.simps(9) list.set_map)
    then have "map (\<lambda>y. if key y = key x then g y else y) ys = ys" by (intro map_idI) simp
    then show ?thesis using True assms(3,4) by (simp add: map_filter_simps)
  next
    case False
    then have "x \<in> set ys" "key y \<noteq> key x" using Cons.prems by auto
    then show ?thesis using Cons.IH Cons.prems(1) by (cases "f y") (simp_all add: map_filter_simps)
  qed
qed simp

lemma consume_intent_Ok:
  assumes "consume_demo_intent_and_issue_key now k h pfx kh db = (r, db')"
  shows "db' = db \<or> (\<exists>intent\<in>set (ad_intents db). nt_secret_hash intent = h \<and> nt_consumed_at intent = None \<and> now < nt_expires_at intent \<and>
    k \<notin> ak_id ` set (ad_api_keys db) \<and> account_ids db' = account_ids db \<and> identity_keys db' = identity_keys db \<and>
    lookup_hashes db' = lookup_hashes db \<and> ad_sessions db' = ad_sessions db \<and>
    ad_api_keys db' = ad_api_keys db @ [demo_key_row now k pfx kh] \<and>
    ad_intents db' = map (\<lambda>i. if nt_id i = nt_id intent then i\<lparr>nt_consumed_at := Some now, nt_api_key_id := Some k\<rparr> else i) (ad_intents db))"
proof -
  let ?P = "\<lambda>i. nt_secret_hash i = h \<and> nt_consumed_at i = None \<and> nt_expires_at i > now"
  show ?thesis
  proof (cases "find ?P (ad_intents db)")
    case None
    then show ?thesis using assms by (simp add: consume_demo_intent_and_issue_key_def commit_accounts_def)
  next
    case (Some intent)
    then have "intent \<in> set (ad_intents db)" "?P intent" by (auto simp: find_Some_iff)
    then show ?thesis
      using assms Some
      by (auto simp: consume_demo_intent_and_issue_key_def commit_accounts_def account_ids_def identity_keys_def lookup_hashes_def
          split: if_splits)
  qed
qed

lemma consume_intent_ok:
  assumes "consume_demo_intent_and_issue_key now k h pfx kh db = (r, db')" "accounts_ok db"
  shows "accounts_ok db'"
proof (cases "db' = db")
  case False
  then obtain intent where i: "intent \<in> set (ad_intents db)" "nt_consumed_at intent = None" "k \<notin> ak_id ` set (ad_api_keys db)"
    and same: "account_ids db' = account_ids db" "identity_keys db' = identity_keys db" "lookup_hashes db' = lookup_hashes db"
      "ad_sessions db' = ad_sessions db"
    and keys: "ad_api_keys db' = ad_api_keys db @ [demo_key_row now k pfx kh]"
    and intents: "ad_intents db' = map (\<lambda>i. if nt_id i = nt_id intent then i\<lparr>nt_consumed_at := Some now, nt_api_key_id := Some k\<rparr> else i) (ad_intents db)"
    using consume_intent_Ok[OF assms(1)] by auto
  have ok: "intents_ok db" using assms(2) by (simp add: accounts_ok_def)
  then have none: "nt_api_key_id intent = None" using i by (auto simp: intents_ok_def)
  have d: "distinct (map nt_id (ad_intents db))" using ok by (simp add: intents_ok_def)
  have "mset (List.map_filter nt_api_key_id (ad_intents db')) = add_mset k (mset (List.map_filter nt_api_key_id (ad_intents db)))"
    unfolding intents 
    by (rule map_filter_update[where f = nt_api_key_id and key = nt_id and x = intent and k = k and
          g = "\<lambda>i. i\<lparr>nt_consumed_at := Some now, nt_api_key_id := Some k\<rparr>", OF d i(1) none]) simp
  moreover have "map nt_id (ad_intents db') = map nt_id (ad_intents db)" "map nt_secret_hash (ad_intents db') = map nt_secret_hash (ad_intents db)"
    by (simp_all add: intents)
  moreover have "\<forall>i\<in>set (ad_intents db'). nt_consumed_at i = None \<longleftrightarrow> nt_api_key_id i = None"
    using ok by (auto simp: intents intents_ok_def)
  ultimately have "intents_ok db'"
    using ok i(3) by (simp add: intents_ok_def keys demo_key_row_def)
  then show ?thesis using assms(2) unfolding accounts_ok_def identities_ok_def sessions_ok_def live_sessions_def same by simp
qed (use assms in simp)

section \<open>Steps\<close>

lemma run_accounts_snd: "snd (run_accounts f outcome db) \<in> {db, snd outcome}"
  by (cases f) (auto simp: run_accounts_def)

lemma run_accounts_db: "run_accounts f outcome db = (r, db') \<Longrightarrow> db' = db \<or> db' = snd outcome"
  using run_accounts_snd[of f outcome db] by auto

lemma commit_accounts_cases:
  "snd (commit_accounts db outcome) = (case outcome of Ok (v, db') \<Rightarrow> db' | Err e \<Rightarrow> db)"
  by (simp add: commit_accounts_def split: result.splits prod.splits)

text \<open>What a request does to the tables, as a sequence of operations on the sessions and on the other tables.\<close>

lemma signup_cases:
  assumes "snd (signup_and_create_session env d email h p sh ch db) = db'"
  shows "db' = db \<or> (\<exists>db1 db2 db3. insert_account env (aw_account_id d) db = Ok db1 \<and>
    insert_identity (aw_identity_id d) (aw_account_id d) email h p db1 = Ok db2 \<and>
    account_ids db3 = account_ids db2 \<and> identity_keys db3 = identity_keys db2 \<and> lookup_hashes db3 = lookup_hashes db2 \<and>
    ad_sessions db3 = ad_sessions db2 \<and> ad_intents db3 = ad_intents db2 \<and> ad_api_keys db3 = ad_api_keys db2 \<and>
    ad_accounts db3 = ad_accounts db2 \<and> ad_identities db3 = ad_identities db2 \<and>
    create_session (aw_now d) (aw_account_id d) (aw_identity_id d) sh ch db3 = Ok db')"
proof -
  have w: "\<exists>ws. db3 = db2\<lparr>ad_workspaces := ws\<rparr>" if "create_initial_workspace env e i db2 = Ok db3" for e i db2 db3
    using that by (auto simp: create_initial_workspace_def split: prod.splits result.splits)
  show ?thesis
  proof (cases "signup_and_create_session env d email h p sh ch db = (Ok SignupCreated, db')")
    case True
    then obtain db1 db2 db3 where c: "insert_account env (aw_account_id d) db = Ok db1"
      "insert_identity (aw_identity_id d) (aw_account_id d) email h p db1 = Ok db2"
      "create_initial_workspace env (aw_workspace d) (aw_account_id d) (grant_baseline_capabilities (aw_account_id d) db2) = Ok db3"
      "create_session (aw_now d) (aw_account_id d) (aw_identity_id d) sh ch db3 = Ok db'"
      by (auto simp: signup_and_create_session_def commit_accounts_def and_then_Ok_iff split: if_splits result.splits prod.splits)
    obtain ws where ws: "db3 = (grant_baseline_capabilities (aw_account_id d) db2)\<lparr>ad_workspaces := ws\<rparr>" using w[OF c(3)] by blast
    have "account_ids db3 = account_ids db2" "identity_keys db3 = identity_keys db2" "lookup_hashes db3 = lookup_hashes db2"
      "ad_sessions db3 = ad_sessions db2" "ad_intents db3 = ad_intents db2" "ad_api_keys db3 = ad_api_keys db2"
      "ad_accounts db3 = ad_accounts db2" "ad_identities db3 = ad_identities db2"
      by (simp_all add: ws account_ids_def identity_keys_def lookup_hashes_def)
    then show ?thesis using c(1,2,4) by blast
  next
    case False
    then have "db' = db"
      using assms
      by (auto simp: signup_and_create_session_def commit_accounts_def and_then_Ok_iff split: if_splits result.splits prod.splits)
    then show ?thesis by blast
  qed
qed

lemma signup_ok:
  assumes "accounts_ok db" "snd (signup_and_create_session env d email h p sh ch db) = db'"
  shows "accounts_ok db'"
  using signup_cases[OF assms(2)]
proof (elim disjE exE conjE)
  fix db1 db2 db3
  assume s: "insert_account env (aw_account_id d) db = Ok db1"
    "insert_identity (aw_identity_id d) (aw_account_id d) email h p db1 = Ok db2"
    and same: "account_ids db3 = account_ids db2" "identity_keys db3 = identity_keys db2" "lookup_hashes db3 = lookup_hashes db2"
      "ad_sessions db3 = ad_sessions db2" "ad_intents db3 = ad_intents db2" "ad_api_keys db3 = ad_api_keys db2"
    and c: "create_session (aw_now d) (aw_account_id d) (aw_identity_id d) sh ch db3 = Ok db'"
  note i = insert_identity_ok[OF s(2) insert_account_ok(1)[OF s(1) assms(1)]]
  show ?thesis
    using create_session_ok[OF c] accounts_ok_cong[OF same] i same(2) by simp
qed (use assms in simp)

lemma login_session_cases:
  assumes "snd (create_password_login_session now i sh ch db) = db'"
  shows "db' = db \<or> (\<exists>a. (i, a) \<in> set (identity_keys db) \<and> create_session now a i sh ch db = Ok db')"
proof (cases "find (\<lambda>k. di_id k = i) (ad_identities db)")
  case None
  then show ?thesis using assms by (simp add: create_password_login_session_def commit_accounts_cases)
next
  case (Some k)
  then have k: "k \<in> set (ad_identities db)" "di_id k = i" by (auto simp: find_Some_iff)
  show ?thesis
  proof (cases "account_of db (di_ib_account_id k)")
    case None
    then show ?thesis using assms Some by (simp add: create_password_login_session_def commit_accounts_cases)
  next
    case (Some a)
    then have "ia_id a = di_ib_account_id k" by (auto simp: account_of_def find_Some_iff)
    then have "(i, ia_id a) \<in> set (identity_keys db)" using k by (force simp: identity_keys_def)
    moreover have "db' = db \<or> create_session now (ia_id a) i sh ch db = Ok db'"
      using assms Some \<open>find (\<lambda>k. di_id k = i) (ad_identities db) = Some k\<close>
      by (auto simp: create_password_login_session_def commit_accounts_cases and_then_Ok_iff split: if_splits result.splits prod.splits)
    ultimately show ?thesis by blast
  qed
qed

lemma login_session_ok:
  assumes "accounts_ok db" "snd (create_password_login_session now i sh ch db) = db'"
  shows "accounts_ok db'"
  using login_session_cases[OF assms(2)] create_session_ok[OF _ assms(1)] assms(1) by blast

text \<open>A session that has been revoked stays in the table, and so does an intent that has been consumed.\<close>

definition ended :: "nat list \<Rightarrow> account_db \<Rightarrow> bool" where
  "ended h db \<longleftrightarrow> (\<exists>s\<in>set (ad_sessions db). sn_session_hash s = h \<and> sn_revoked_at s \<noteq> None)"

definition spent :: "nat list \<Rightarrow> account_db \<Rightarrow> bool" where
  "spent h db \<longleftrightarrow> (\<exists>i\<in>set (ad_intents db). nt_secret_hash i = h \<and> nt_consumed_at i \<noteq> None)"

definition kept :: "account_db \<Rightarrow> account_db \<Rightarrow> bool" where
  "kept db db' \<longleftrightarrow>
     (accounts_ok db \<longrightarrow> accounts_ok db' \<and> (\<forall>h. ended h db \<longrightarrow> ended h db') \<and> (\<forall>h. spent h db \<longrightarrow> spent h db'))"

lemma kept_refl [simp]: "kept db db"
  by (simp add: kept_def)

lemma kept_trans: "kept db db1 \<Longrightarrow> kept db1 db2 \<Longrightarrow> kept db db2"
  by (auto simp: kept_def)

lemma ended_cong: "ad_sessions db' = ad_sessions db \<Longrightarrow> ended h db' = ended h db"
  by (simp add: ended_def)

lemma spent_cong: "ad_intents db' = ad_intents db \<Longrightarrow> spent h db' = spent h db"
  by (simp add: spent_def)

lemma ended_revoke_where: "s \<in> set ss \<Longrightarrow> sn_revoked_at s \<noteq> None \<Longrightarrow> s \<in> set (revoke_where P now ss)"
  by (force simp: revoke_where_def)

lemma ended_create_session:
  assumes "create_session now a i h csrf db = Ok db'" "ended k db"
  shows "ended k db'"
  using assms(2) unfolding create_session_Ok(2)[OF assms(1)] ended_def by (auto dest: ended_revoke_where)

lemma kept_revoke: "kept db (revoke_session now h db)"
proof -
  have "accounts_ok (revoke_session now h db)" if "accounts_ok db"
    using that sessions_ok_revoke unfolding revoke_session_eq accounts_ok_def
    by (simp add: identities_ok_def intents_ok_def account_ids_def identity_keys_def lookup_hashes_def)
  then show ?thesis unfolding kept_def revoke_session_eq ended_def spent_def by (auto dest: ended_revoke_where)
qed

lemma kept_find: "kept db (snd (find_session now h db))"
proof -
  have "ended k (snd (find_session now h db))" if "ended k db" for k
    using that by (force simp: ended_def find_session_def session_usable_def)
  then show ?thesis using find_session_ok by (simp add: kept_def spent_def find_session_def)
qed

lemma insert_sessions:
  "insert_account env i db = Ok db' \<Longrightarrow> ad_sessions db' = ad_sessions db \<and> ad_intents db' = ad_intents db"
  "insert_identity j i email h p db = Ok db' \<Longrightarrow> ad_sessions db' = ad_sessions db \<and> ad_intents db' = ad_intents db"
  "create_session now i j sh ch db = Ok db' \<Longrightarrow> ad_intents db' = ad_intents db"
  by (auto simp: insert_account_def insert_identity_def create_session_def Let_def split: if_splits)

lemma kept_signup: "kept db (snd (signup_and_create_session env d email h p sh ch db))"
proof -
  let ?db = "snd (signup_and_create_session env d email h p sh ch db)"
  have "ended k ?db" if e: "ended k db" for k
    using signup_cases[OF refl, of env d email h p sh ch db]
  proof (elim disjE exE conjE)
    fix db1 db2 db3
    assume s: "insert_account env (aw_account_id d) db = Ok db1"
      "insert_identity (aw_identity_id d) (aw_account_id d) email h p db1 = Ok db2" "ad_sessions db3 = ad_sessions db2"
      and c: "create_session (aw_now d) (aw_account_id d) (aw_identity_id d) sh ch db3 = Ok ?db"
    have "ad_sessions db3 = ad_sessions db" using insert_sessions(1)[OF s(1)] insert_sessions(2)[OF s(2)] s(3) by simp
    then have "ended k db3" using e ended_cong[of db3 db] by simp
    then show ?thesis by (rule ended_create_session[OF c])
  qed (use e in simp)
  moreover have "ad_intents ?db = ad_intents db"
    using signup_cases[OF refl, of env d email h p sh ch db] insert_sessions by metis
  ultimately show ?thesis using signup_ok spent_cong[of ?db db] by (simp add: kept_def)
qed

lemma kept_login_session: "kept db (snd (create_password_login_session now i sh ch db))"
proof -
  let ?db = "snd (create_password_login_session now i sh ch db)"
  have "ended k ?db" if e: "ended k db" for k
    using login_session_cases[OF refl, of now i sh ch db] ended_create_session[OF _ e] e by auto
  moreover have "ad_intents ?db = ad_intents db"
    using login_session_cases[OF refl, of now i sh ch db] insert_sessions(3) by metis
  ultimately show ?thesis using login_session_ok spent_cong[of ?db db] by (simp add: kept_def)
qed

lemma kept_update_password: "kept db (snd (update_password_hash i h db))"
  using update_password_ok(1) ended_cong[of "snd (update_password_hash i h db)" db] spent_cong[of "snd (update_password_hash i h db)" db]
  by (auto simp: kept_def update_password_hash_def)

lemma kept_intent: "kept db (snd (create_demo_intent now i h db))"
  using create_intent_ok ended_cong[of "snd (create_demo_intent now i h db)" db]
  by (auto simp: kept_def create_demo_intent_def spent_def)

lemma kept_consume: "kept db (snd (consume_demo_intent_and_issue_key now key h pfx kh db))"
proof -
  obtain r db' where c: "consume_demo_intent_and_issue_key now key h pfx kh db = (r, db')" by fastforce
  have "ad_sessions db' = ad_sessions db" using consume_intent_Ok[OF c] by auto
  moreover have "spent k db'" if sp: "spent k db" for k
  proof (cases "db' = db")
    case False
    then obtain j :: demo_intent_row where j: "ad_intents db' = map (\<lambda>i. if nt_id i = nt_id j
        then i\<lparr>nt_consumed_at := Some now, nt_api_key_id := Some key\<rparr> else i) (ad_intents db)"
      using consume_intent_Ok[OF c] by blast
    obtain i where "i \<in> set (ad_intents db)" "nt_secret_hash i = k" "nt_consumed_at i \<noteq> None"
      using sp by (auto simp: spent_def)
    then show ?thesis unfolding spent_def j by (intro bexI[of _ "if nt_id i = nt_id j
        then i\<lparr>nt_consumed_at := Some now, nt_api_key_id := Some key\<rparr> else i"]) auto
  qed (use sp in simp)
  ultimately show ?thesis using consume_intent_ok[OF c] ended_cong[of db' db] by (simp add: kept_def c)
qed

lemma kept_run: "kept db (snd outcome) \<Longrightarrow> run_accounts f outcome db = (r, db') \<Longrightarrow> kept db db'"
  using run_accounts_db[of f outcome db r db'] by auto

lemma kept_lookup: "run_accounts f (apfst Ok (find_session now h db)) db = (r, db') \<Longrightarrow> kept db db'"
  by (rule kept_run[of db "apfst Ok (find_session now h db)"]) (simp_all add: kept_find)

lemma kept_upgrade: "upgrade_hash env identity password db = (r, db') \<Longrightarrow> kept db db'"
  by (auto simp: upgrade_hash_def split: if_splits result.splits intro: kept_run[OF kept_update_password])

lemma kept_start: "start_session env identity session csrf db = (r, db') \<Longrightarrow> kept db db'"
  by (auto simp: start_session_def split: prod.splits result.splits bool.splits intro: kept_run[OF kept_login_session])

lemma kept_start_Some: "apsnd Some (start_session env identity session csrf db) = (r, Some db') \<Longrightarrow> kept db db'"
  using kept_start[of env identity session csrf db r db'] by (cases "start_session env identity session csrf db") auto

lemma step_kept:
  assumes "account_step db db'"
  shows "kept db db'"
  using assms
proof cases
  case (SignupStep env config headers caller form response)
  then show ?thesis
    by (auto simp: signup_submit_def Let_def split: if_splits option.splits result.splits prod.splits signup_outcome.splits
        intro: kept_run[OF kept_signup])
next
  case (LoginStep env config headers caller form response)
  then show ?thesis
    by (auto simp: login_submit_def Let_def map_option_case split: if_splits option.splits result.splits prod.splits
        intro: kept_upgrade kept_trans[OF kept_upgrade kept_start_Some])
next
  case (LogoutStep env config headers caller csrf response)
  then show ?thesis
    using kept_run[of db "(Ok (), revoke_session now h db)" for now h] kept_revoke
    by (auto simp: logout_def split: if_splits option.splits browser_principal.splits)
       (metis kept_run prod.collapse snd_conv)
next
  case (AttachStep env headers caller)
  then show ?thesis
    by (auto simp: attach_browser_context_def split: option.splits result.splits prod.splits intro: kept_lookup)
next
  case (AccessStep env response)
  then show ?thesis
    by (auto simp: access_page_def split: option.splits result.splits prod.splits intro: kept_run[OF kept_intent])
next
  case (DemoStep env config headers intent response)
  then show ?thesis
    by (auto simp: issue_demo_def split: if_splits option.splits result.splits prod.splits intro: kept_run[OF kept_consume])
next
  case (StatusStep f g)
  then have "ad_sessions db' = ad_sessions db" "ad_intents db' = ad_intents db" by simp_all
  then show ?thesis using status_ok ended_cong[of db' db] spent_cong[of db' db] StatusStep by (simp add: kept_def)
next
  case (UpgradeStep f i h r)
  then show ?thesis using kept_run[OF kept_update_password] by blast
next
  case (SessionStep f now i sh ch q)
  then show ?thesis using kept_run[OF kept_login_session] by blast
qed

lemma steps_kept: "account_step\<^sup>*\<^sup>* db db' \<Longrightarrow> kept db db'"
  by (induction rule: rtranclp_induct) (auto intro: kept_trans step_kept)

lemma account_history_ok:
  assumes "account_history db"
  shows "accounts_ok db"
proof -
  obtain networks where "account_step\<^sup>*\<^sup>* (no_accounts networks) db" using assms unfolding account_history_def by blast
  then have "kept (no_accounts networks) db" by (rule steps_kept)
  moreover have "accounts_ok (no_accounts networks)"
    by (simp add: no_accounts_def accounts_ok_def identities_ok_def sessions_ok_def intents_ok_def live_sessions_def
        account_ids_def identity_keys_def lookup_hashes_def map_filter_simps)
  ultimately show ?thesis by (simp add: kept_def)
qed

lemma ended_not_found:
  assumes "accounts_ok db" "ended h db"
  shows "fst (find_session now h db) = None"
proof -
  obtain s where s: "s \<in> set (ad_sessions db)" "sn_session_hash s = h" "sn_revoked_at s \<noteq> None"
    using assms(2) by (auto simp: ended_def)
  have "distinct (map sn_session_hash (ad_sessions db))" using assms(1) by (simp add: accounts_ok_def sessions_ok_def)
  then have "\<not> session_usable db now h t" if "t \<in> set (ad_sessions db)" for t
    using distinct_map_eq[OF _ that s(1)] s by (auto simp: session_usable_def)
  then have "find (session_usable db now h) (ad_sessions db) = None" by (simp add: find_None_iff)
  then show ?thesis by (simp add: find_session_def)
qed

section \<open>Sessions that end, and intents that are spent\<close>

text \<open>
  C25. After any sequence of requests, with any headers, forms, tokens and faults, the tables of accounts are sound:
  identifiers and lookup hashes are unique, an identity belongs to an account, a session to an account and one of its
  identities; an account has at most one session that is not revoked; a session ends at most 8 hours after its creation
  and 30 minutes after it was last seen; and the demo keys are exactly the keys of the consumed intents, one each.
\<close>

theorem account_tables_sound:
  assumes "account_history db"
  shows "accounts_ok db"
  using assms by (rule account_history_ok)

definition live_session_of :: "account_db \<Rightarrow> timestamp \<Rightarrow> nat list \<Rightarrow> uuid \<Rightarrow> browser_session_row \<Rightarrow> bool" where
  "live_session_of db now h account_id s \<longleftrightarrow>
     s \<in> set (ad_sessions db) \<and> sn_session_hash s = h \<and> sn_ib_account_id s = account_id \<and> sn_revoked_at s = None \<and>
     now < sn_created_at s + SESSION_ABSOLUTE_TTL_SECONDS \<and> now < sn_last_seen_at s + SESSION_IDLE_TTL_SECONDS \<and>
     (\<exists>a\<in>set (ad_accounts db). ia_id a = account_id \<and> ia_status a = ''active'') \<and>
     (\<exists>i\<in>set (ad_identities db). di_id i = sn_account_identity_id s \<and> di_ib_account_id i = account_id \<and> di_status i \<noteq> ''disabled'') \<and>
     (\<forall>t\<in>set (ad_sessions db). sn_revoked_at t = None \<and> sn_ib_account_id t = account_id \<longrightarrow> t = s)"

lemma find_session_live:
  assumes "accounts_ok db" "fst (find_session now h db) = Some l"
  shows "\<exists>s. live_session_of db now h (sl_ib_account_id l) s \<and> sl_csrf_hash l = sn_csrf_hash s"
proof -
  obtain s where s: "find (session_usable db now h) (ad_sessions db) = Some s" "sl_ib_account_id l = sn_ib_account_id s"
    "sl_csrf_hash l = sn_csrf_hash s"
    using assms(2) by (auto simp: find_session_def bind_eq_Some_conv)
  then have u: "s \<in> set (ad_sessions db)" "session_usable db now h s" by (auto simp: find_Some_iff)
  obtain a where a: "account_of db (sn_ib_account_id s) = Some a" "ia_status a = ''active''"
    using u(2) by (auto simp: session_usable_def split: option.splits)
  obtain i where i: "find (\<lambda>i. di_id i = sn_account_identity_id s) (ad_identities db) = Some i" "di_status i \<noteq> ''disabled''"
    using u(2) by (auto simp: session_usable_def split: option.splits)
  have ok: "identities_ok db" "sessions_ok db" using assms(1) by (simp_all add: accounts_ok_def)
  have a': "a \<in> set (ad_accounts db)" "ia_id a = sn_ib_account_id s" using a(1) by (auto simp: account_of_def find_Some_iff)
  have i': "i \<in> set (ad_identities db)" "di_id i = sn_account_identity_id s" using i(1) by (auto simp: find_Some_iff)
  obtain k where k: "k \<in> set (ad_identities db)" "di_id k = sn_account_identity_id s" "di_ib_account_id k = sn_ib_account_id s"
    using ok(2) u(1) by (auto simp: sessions_ok_def identity_keys_def)
  have d: "distinct (map di_id (ad_identities db))" using ok(1) by (simp add: identities_ok_def identity_keys_def comp_def)
  have "k = i" using distinct_map_eq[OF d k(1) i'(1)] k(2) i'(2) by simp
  moreover have row: "session_row_ok s" using ok(2) u(1) by (simp add: sessions_ok_def)
  moreover have "t = s" if "t \<in> set (ad_sessions db)" "sn_revoked_at t = None" "sn_ib_account_id t = sn_ib_account_id s" for t
  proof -
    have "t \<in> set (live_sessions db)" "s \<in> set (live_sessions db)" using that u by (simp_all add: live_sessions_def session_usable_def)
    then show ?thesis using ok(2) distinct_map_eq that(3) unfolding sessions_ok_def by metis
  qed
  ultimately have "live_session_of db now h (sn_ib_account_id s) s"
    using u a a' i' i(2) k(3) unfolding live_session_of_def session_usable_def session_row_ok_def by force
  then show ?thesis using s(2,3) by auto
qed

text \<open>The principal of a request, without the state.\<close>

lemma attach_outcome:
  "fst (attach_browser_context env headers (Some db)) =
     (case cookie_value headers SESSION_COOKIE of
        None \<Rightarrow> Anonymous
      | Some token \<Rightarrow>
          (case fst (find_session (aw_now (we_draw env)) (web_hash env token) db) of
             None \<Rightarrow> Anonymous
           | Some l \<Rightarrow> if we_lookup_fault env = NoFault
               then Authenticated (sl_ib_account_id l) (sl_public_id l) (sl_csrf_hash l) else Anonymous))"
proof (cases "cookie_value headers SESSION_COOKIE")
  case (Some token)
  then show ?thesis
    by (cases "find_session (aw_now (we_draw env)) (web_hash env token) db"; cases "we_lookup_fault env")
       (auto simp: attach_browser_context_def run_accounts_def split: option.splits)
qed (simp add: attach_browser_context_def)

lemma browser_sessions_found:
  assumes "account_history db" "fst (attach_browser_context env headers (Some db)) = Authenticated account_id public_id csrf_hash"
  shows "\<exists>token s. cookie_value headers SESSION_COOKIE = Some token \<and>
    live_session_of db (aw_now (we_draw env)) (web_hash env token) account_id s \<and> csrf_hash = sn_csrf_hash s"
proof -
  obtain token l where t: "cookie_value headers SESSION_COOKIE = Some token"
    "fst (find_session (aw_now (we_draw env)) (web_hash env token) db) = Some l"
    "account_id = sl_ib_account_id l" "csrf_hash = sl_csrf_hash l"
    using assms(2) attach_outcome[of env headers db] by (auto split: option.splits if_splits)
  then show ?thesis using find_session_live[OF account_history_ok[OF assms(1)] t(2)] by blast
qed

text \<open>
  C26. A browser is taken for an account only by a session of that account that is live at that moment: its hash is that
  of the cookie, it has not been revoked, it was created less than 8 hours ago and last seen less than 30 minutes ago,
  the account is active and the identity not disabled, and it is the only session of the account that is not revoked.
\<close>

theorem browser_sessions_live:
  assumes "account_history db" "attach_browser_context env headers (Some db) = (Authenticated account_id public_id csrf_hash, repository)"
  shows "\<exists>token s. cookie_value headers SESSION_COOKIE = Some token \<and>
    live_session_of db (aw_now (we_draw env)) (web_hash env token) account_id s \<and> csrf_hash = sn_csrf_hash s"
  using browser_sessions_found[OF assms(1)] assms(2) by simp

lemma attach_hashes:
  assumes "attach_browser_context env headers (Some db) = (caller, Some db1)"
  shows "sn_session_hash ` set (ad_sessions db1) = sn_session_hash ` set (ad_sessions db)"
proof -
  have f: "sn_session_hash ` set (ad_sessions (snd (find_session now h db))) = sn_session_hash ` set (ad_sessions db)" for now h
  proof -
    have "map sn_session_hash (ad_sessions (snd (find_session now h db))) = map sn_session_hash (ad_sessions db)"
      by (simp add: find_session_def)
    then show ?thesis by (metis set_map)
  qed
  have "db1 = db \<or> (\<exists>now h. db1 = snd (find_session now h db))"
    using assms
    by (auto simp: attach_browser_context_def run_accounts_def split: option.splits prod.splits result.splits fault.splits)
      (metis snd_apfst snd_conv)+
  then show ?thesis by (elim disjE exE) (simp_all only: f)
qed

lemma revoked_ended:
  assumes "h \<in> sn_session_hash ` set (ad_sessions db)"
  shows "ended h (revoke_session now h db)"
proof -
  obtain s where s: "s \<in> set (ad_sessions db)" "sn_session_hash s = h" using assms by auto
  let ?s = "if sn_session_hash s = h \<and> sn_revoked_at s = None then s\<lparr>sn_revoked_at := Some now\<rparr> else s"
  have "?s \<in> set (ad_sessions (revoke_session now h db))" using s by (simp add: revoke_session_def)
  moreover have "sn_session_hash ?s = h" "sn_revoked_at ?s \<noteq> None" using s by auto
  ultimately show ?thesis unfolding ended_def by blast
qed

lemma consume_spends:
  assumes "consume_demo_intent_and_issue_key now k h pfx kh db = (Ok (Some issued), db')"
  shows "spent h db'"
proof -
  let ?P = "\<lambda>i. nt_secret_hash i = h \<and> nt_consumed_at i = None \<and> nt_expires_at i > now"
  obtain i where i: "find ?P (ad_intents db) = Some i"
    "ad_intents db' = map (\<lambda>j. if nt_id j = nt_id i then j\<lparr>nt_consumed_at := Some now, nt_api_key_id := Some k\<rparr> else j) (ad_intents db)"
    using assms by (auto simp: consume_demo_intent_and_issue_key_def commit_accounts_def split: option.splits if_splits)
  then have "i \<in> set (ad_intents db)" "nt_secret_hash i = h" by (auto simp: find_Some_iff)
  then show ?thesis unfolding spent_def i(2)
    by (intro bexI[of _ "i\<lparr>nt_consumed_at := Some now, nt_api_key_id := Some k\<rparr>"]) (auto simp: image_iff)
qed

lemma spent_refused:
  assumes "accounts_ok db" "spent h db"
  shows "fst (consume_demo_intent_and_issue_key now k h pfx kh db) = Ok None"
proof -
  obtain s where s: "s \<in> set (ad_intents db)" "nt_secret_hash s = h" "nt_consumed_at s \<noteq> None" using assms(2) by (auto simp: spent_def)
  have d: "distinct (map nt_secret_hash (ad_intents db))" using assms(1) by (simp add: accounts_ok_def intents_ok_def)
  have "find (\<lambda>i. nt_secret_hash i = h \<and> nt_consumed_at i = None \<and> nt_expires_at i > now) (ad_intents db) = None"
    unfolding find_None_iff using distinct_map_eq[OF d _ s(1)] s by metis
  then show ?thesis by (simp add: consume_demo_intent_and_issue_key_def commit_accounts_def)
qed

lemma attach_ended:
  assumes "accounts_ok db" "cookie_value headers SESSION_COOKIE = Some token" "ended (web_hash env token) db"
  shows "fst (attach_browser_context env headers (Some db)) = Anonymous"
  using ended_not_found[OF assms(1,3)] assms(2) by (simp add: attach_outcome)

text \<open>
  C28. Logging out ends the session: when the request of an authenticated browser is answered by clearing the cookies and the database
  has not failed, its session cookie is never again taken for an account, whatever happens later.
\<close>

theorem logout_ends_session:
  assumes "account_history db" "attach_browser_context env headers (Some db) = (caller, Some db1)"
    and "logout env config headers caller csrf (Some db1) = (SeeOther ''/'' cookies, Some db2)" "cookies \<noteq> []"
    and "we_statement_fault env = NoFault" "account_step\<^sup>*\<^sup>* db2 db3" "we_sha256 env' = we_sha256 env"
  shows "fst (attach_browser_context env' headers (Some db3)) = Anonymous"
proof -
  have ok1: "accounts_ok db1"
    using step_kept[OF AttachStep[OF assms(2)]] account_history_ok[OF assms(1)] by (simp add: kept_def)
  obtain a p c token where l: "caller = Authenticated a p c" "cookie_value headers SESSION_COOKIE = Some token"
    "db2 = revoke_session (aw_now (we_draw env)) (web_hash env token) db1"
    using assms(3,4,5) by (auto simp: logout_def run_accounts_def split: browser_principal.splits option.splits if_splits)
  obtain s where "s \<in> set (ad_sessions db)" "sn_session_hash s = web_hash env token"
    using browser_sessions_found[OF assms(1), of env headers a p c] assms(2) l by (auto simp: live_session_of_def)
  then have "web_hash env token \<in> sn_session_hash ` set (ad_sessions db1)" using attach_hashes[OF assms(2)] by force
  then have "ended (web_hash env token) db2" unfolding l(3) by (rule revoked_ended)
  moreover have "kept db2 db3" "accounts_ok db2"
    using steps_kept[OF assms(6)] kept_revoke[of db1] ok1 by (simp_all add: l(3) kept_def)
  ultimately have "accounts_ok db3" "ended (web_hash env' token) db3"
    using assms(7) by (simp_all add: kept_def web_hash_def)
  then show ?thesis using attach_ended l(2) by blast
qed

text \<open>
  C29. An anonymous demo intent yields at most one key: once a request has been answered with a key, no later request with the same
  intent is.
\<close>

theorem demo_intent_single_use:
  assumes "account_history db" "issue_demo env config headers intent (Some db) = (DemoKeyPage raw_key expires_at, Some db1)"
    and "account_step\<^sup>*\<^sup>* db1 db2" "we_sha256 env' = we_sha256 env"
  shows "fst (issue_demo env' config' headers' intent (Some db2)) \<noteq> DemoKeyPage raw_key' expires_at'"
proof -
  let ?h = "web_hash env intent"
  obtain pfx kh issued where c: "consume_demo_intent_and_issue_key (aw_now (we_draw env)) (aw_row_id (we_draw env)) ?h pfx kh db =
      (Ok (Some issued), db1)"
    using assms(2) by (auto simp: issue_demo_def run_accounts_def split: if_splits option.splits result.splits prod.splits fault.splits)
  have "spent ?h db1" using consume_spends[OF c] .
  moreover have "accounts_ok db1" using consume_intent_ok[OF c account_history_ok[OF assms(1)]] .
  ultimately have "accounts_ok db2" "spent ?h db2" using steps_kept[OF assms(3)] by (simp_all add: kept_def)
  then have "fst (consume_demo_intent_and_issue_key now k ?h pfx kh db2) = Ok None" for now k pfx kh using spent_refused by blast
  then show ?thesis
    using assms(4)
    by (auto simp: issue_demo_def run_accounts_def web_hash_def split: option.splits result.splits prod.splits fault.splits)
       (metis fst_conv option.distinct(1) result.inject(1))+
qed

lemma login_session_True:
  assumes "create_password_login_session now i sh ch db = (Ok True, db')"
  obtains k a where "k \<in> set (ad_identities db)" "di_id k = i" "find (\<lambda>k. di_id k = i) (ad_identities db) = Some k"
    "account_of db (di_ib_account_id k) = Some a" "di_status k \<noteq> ''disabled''" "ia_status a = ''active''"
    "create_session now (ia_id a) i sh ch db = Ok db'"
proof -
  obtain k where k: "find (\<lambda>k. di_id k = i) (ad_identities db) = Some k"
    using assms by (auto simp: create_password_login_session_def commit_accounts_def split: option.splits)
  obtain a where a: "account_of db (di_ib_account_id k) = Some a"
    using assms k by (auto simp: create_password_login_session_def commit_accounts_def split: option.splits)
  have "di_status k \<noteq> ''disabled''" "ia_status a = ''active''" "create_session now (ia_id a) i sh ch db = Ok db'"
    using assms k a by (auto simp: create_password_login_session_def commit_accounts_def and_then_Ok_iff split: if_splits result.splits prod.splits)
  moreover have "k \<in> set (ad_identities db)" "di_id k = i" using k by (auto simp: find_Some_iff)
  ultimately show thesis using that k a by blast
qed

lemma upgrade_keeps:
  assumes "upgrade_hash env identity password db = (r, db')"
  shows "identity_keys db' = identity_keys db" "ad_accounts db' = ad_accounts db"
  using assms
  by (auto simp: upgrade_hash_def run_accounts_def update_password_hash_def identity_keys_def
      split: if_splits result.splits fault.splits)

text \<open>What a request for a login must have gone through when it is answered by a redirection.\<close>

definition login_identity :: "web_env \<Rightarrow> web_config \<Rightarrow> account_form \<Rightarrow> account_db \<Rightarrow> identity_row \<Rightarrow> bool" where
  "login_identity env config form db i \<longleftrightarrow>
     i \<in> set (ad_identities db) \<and> di_status i \<noteq> ''disabled'' \<and>
     (\<exists>email pepper. normalize_email (fm_email form) = Some email \<and> wc_account_email_lookup_pepper config = Some pepper \<and>
        di_email_lookup_hash i = hash_with_pepper env email pepper) \<and>
     (\<exists>h. di_password_hash i = Some h \<and> password_verify (we_argon2 env) (fm_password form) h) \<and>
     (\<exists>a\<in>set (ad_accounts db). ia_id a = di_ib_account_id i \<and> ia_status a = ''active'')"

lemma login_lookup:
  assumes "find_password_login_identity db h = Some l" "pl_account_status l = ''active''" "pl_identity_status l \<noteq> ''disabled''"
    "pl_password_hash l \<noteq> []"
  obtains i where "i \<in> set (ad_identities db)" "di_id i = pl_account_identity_id l" "di_email_lookup_hash i = h"
    "di_password_hash i = Some (pl_password_hash l)" "di_status i \<noteq> ''disabled''"
    "\<exists>a\<in>set (ad_accounts db). ia_id a = di_ib_account_id i \<and> ia_status a = ''active''"
proof -
  obtain i a where i: "find (\<lambda>i. di_email_lookup_hash i = h) (ad_identities db) = Some i"
    "account_of db (di_ib_account_id i) = Some a" "pl_account_identity_id l = di_id i" "pl_account_status l = ia_status a"
    "pl_identity_status l = di_status i" "pl_password_hash l = (case di_password_hash i of None \<Rightarrow> [] | Some h \<Rightarrow> h)"
    using assms(1) by (auto simp: find_password_login_identity_def bind_eq_Some_conv)
  have "i \<in> set (ad_identities db)" "di_email_lookup_hash i = h" "a \<in> set (ad_accounts db)" "ia_id a = di_ib_account_id i"
    using i(1,2) by (auto simp: account_of_def find_Some_iff)
  then show thesis using that[of i] i(3-6) assms(2-4) by (auto split: option.splits)
qed

lemma login_redirect:
  assumes "login_submit env config headers Anonymous form (Some db) = Some (SeeOther ''/lab'' cookies, Some db')"
  obtains email pepper l session csrf db1 where "entry_csrf_valid config headers (fm_csrf form)"
    "normalize_email (fm_email form) = Some email" "wc_account_email_lookup_pepper config = Some pepper"
    "find_password_login_identity db (hash_with_pepper env email pepper) = Some l"
    "pl_account_status l = ''active''" "pl_identity_status l \<noteq> ''disabled''" "pl_password_hash l \<noteq> []"
    "password_verify (we_argon2 env) (fm_password form) (pl_password_hash l)"
    "upgrade_hash env l (fm_password form) db = (Ok (), db1)"
    "start_session env l session csrf db1 = (SeeOther ''/lab'' cookies, db')"
    "we_session_token env = Some session" "we_csrf_token env = Some csrf"
proof -
  have r: "invalid_credentials_response env \<noteq> SeeOther ''/lab'' cookies"
    by (simp add: invalid_credentials_response_def account_entry_response_def split: option.splits)
  have f: "map_option (\<lambda>_. (invalid_credentials_response env, Some db)) x \<noteq> Some (SeeOther ''/lab'' cookies, Some db')" for x :: "unit option"
    using r by auto
  have v: "entry_csrf_valid config headers (fm_csrf form)"
    using assms by (auto simp: login_submit_def Let_def split: if_splits)
  obtain email where e: "normalize_email (fm_email form) = Some email"
    using assms v f by (cases "normalize_email (fm_email form)") (auto simp: login_submit_def Let_def)
  obtain pepper where p: "wc_account_email_lookup_pepper config = Some pepper"
    using assms v e by (cases "wc_account_email_lookup_pepper config") (auto simp: login_submit_def Let_def)
  obtain l where l: "find_password_login_identity db (hash_with_pepper env email pepper) = Some l" "we_lookup_fault env = NoFault"
    using assms v e p f by (cases "find_password_login_identity db (hash_with_pepper env email pepper)"; cases "we_lookup_fault env")
      (auto simp: login_submit_def Let_def run_query_def)
  note assms' = assms[unfolded login_submit_def Let_def, simplified, simplified v e p, simplified l run_query_def, simplified, simplified l, simplified]
  have s: "pl_account_status l = ''active''" "pl_identity_status l \<noteq> ''disabled''" "pl_password_hash l \<noteq> []"
    "password_verify (we_argon2 env) (fm_password form) (pl_password_hash l)"
    using assms' f r by (auto split: if_splits)
  obtain session csrf where t: "we_session_token env = Some session" "we_csrf_token env = Some csrf"
    using assms' s by (auto split: option.splits if_splits)
  obtain x db1 where u: "upgrade_hash env l (fm_password form) db = (x, db1)" by fastforce
  then have "x = Ok ()" using assms' s t by (cases x) (auto split: if_splits)
  moreover from this have "start_session env l session csrf db1 = (SeeOther ''/lab'' cookies, db')"
    using assms' s t u by (cases "start_session env l session csrf db1") (auto split: if_splits)
  ultimately show thesis using that v e p l(1) s t u by blast
qed

section \<open>Sessions that last\<close>

text \<open>The session of an account is there until a time: it is not revoked, the account is active, its identity not disabled.\<close>

definition alive_until :: "timestamp \<Rightarrow> uuid \<Rightarrow> nat list \<Rightarrow> nat list \<Rightarrow> string \<Rightarrow> account_db \<Rightarrow> bool" where
  "alive_until t a h ch public_id db \<longleftrightarrow>
     (\<exists>s\<in>set (ad_sessions db). \<exists>k. sn_session_hash s = h \<and> sn_ib_account_id s = a \<and> sn_csrf_hash s = ch \<and> sn_revoked_at s = None \<and>
        t \<le> sn_expires_at s \<and> t \<le> sn_idle_expires_at s \<and>
        find (\<lambda>k. di_id k = sn_account_identity_id s) (ad_identities db) = Some k \<and> di_status k \<noteq> ''disabled'' \<and> di_ib_account_id k = a) \<and>
     (\<exists>x. account_of db a = Some x \<and> ia_status x = ''active'' \<and> ia_public_id x = public_id)"

text \<open>
  The steps that leave the session with the hash \<open>h\<close> of account \<open>a\<close> alone: everybody else's requests, and those of its
  browser other than a logout. No one logs in to the account, the clock does not run backwards past the time \<open>since\<close> at which the session
  began, and an operator does not touch the account and its identities.
\<close>

inductive quiet_step :: "uuid \<Rightarrow> nat list \<Rightarrow> timestamp \<Rightarrow> account_db \<Rightarrow> account_db \<Rightarrow> bool" for a h since where
  QuietSignup: "signup_submit env config headers caller form (Some db) = (response, Some db') \<Longrightarrow> quiet_step a h since db db'"
| QuietLogin: "login_submit env config headers caller form (Some db) = Some (response, Some db') \<Longrightarrow>
    \<forall>i. login_identity env config form db i \<longrightarrow> di_ib_account_id i \<noteq> a \<Longrightarrow> quiet_step a h since db db'"
| QuietLogout: "logout env config headers caller csrf (Some db) = (response, Some db') \<Longrightarrow>
    \<forall>v. cookie_value headers SESSION_COOKIE = Some v \<longrightarrow> web_hash env v \<noteq> h \<Longrightarrow> quiet_step a h since db db'"
| QuietAttach: "attach_browser_context env headers (Some db) = (caller, Some db') \<Longrightarrow> since \<le> aw_now (we_draw env) \<Longrightarrow> quiet_step a h since db db'"
| QuietAccess: "access_page env (Some db) = (response, Some db') \<Longrightarrow> quiet_step a h since db db'"
| QuietDemo: "issue_demo env config headers intent (Some db) = (response, Some db') \<Longrightarrow> quiet_step a h since db db'"
| QuietStatus: "(\<And>x. ia_id x = a \<Longrightarrow> f x = ia_status x) \<Longrightarrow> (\<And>k. di_ib_account_id k = a \<Longrightarrow> g k = di_status k) \<Longrightarrow>
    quiet_step a h since db (db\<lparr>ad_accounts := map (\<lambda>a. a\<lparr>ia_status := f a\<rparr>) (ad_accounts db),
      ad_identities := map (\<lambda>i. i\<lparr>di_status := g i\<rparr>) (ad_identities db)\<rparr>)"
| QuietUpgrade: "run_accounts f (update_password_hash i p db) db = (r, db') \<Longrightarrow> quiet_step a h since db db'"
| QuietSession: "run_accounts f (create_password_login_session now i sh ch db) db = (q, db') \<Longrightarrow>
    \<forall>k\<in>set (ad_identities db). di_id k = i \<longrightarrow> di_ib_account_id k \<noteq> a \<Longrightarrow> quiet_step a h since db db'"

lemma quiet_account_step: "quiet_step a h since db db' \<Longrightarrow> account_step db db'"
  by (induction rule: quiet_step.induct) (auto intro: account_step.intros)

lemma alive_cong:
  assumes "alive_until t a h ch p db" "ad_sessions db' = ad_sessions db" "ad_accounts db' = ad_accounts db" "ad_identities db' = ad_identities db"
  shows "alive_until t a h ch p db'"
  using assms by (simp add: alive_until_def account_of_def)

lemma find_map_same: "(\<And>x. P (f x) \<longleftrightarrow> P x) \<Longrightarrow> find P (map f xs) = map_option f (find P xs)"
  by (induction xs) auto

lemma alive_map:
  assumes "alive_until t a h ch p db"
    and "ad_sessions db' = ad_sessions db" "ad_accounts db' = map f (ad_accounts db)" "ad_identities db' = map g (ad_identities db)"
    and "\<And>x. ia_id (f x) = ia_id x" "\<And>x. ia_public_id (f x) = ia_public_id x" "\<And>x. ia_id x = a \<Longrightarrow> ia_status (f x) = ia_status x"
    and "\<And>k. di_id (g k) = di_id k" "\<And>k. di_ib_account_id (g k) = di_ib_account_id k"
    and "\<And>k. di_ib_account_id k = a \<Longrightarrow> di_status (g k) = di_status k"
  shows "alive_until t a h ch p db'"
proof -
  obtain s k where s: "s \<in> set (ad_sessions db)" "sn_session_hash s = h" "sn_ib_account_id s = a" "sn_csrf_hash s = ch" "sn_revoked_at s = None"
    "t \<le> sn_expires_at s" "t \<le> sn_idle_expires_at s" "find (\<lambda>k. di_id k = sn_account_identity_id s) (ad_identities db) = Some k"
    "di_status k \<noteq> ''disabled''" "di_ib_account_id k = a"
    using assms(1) unfolding alive_until_def by blast
  obtain x where x: "find (\<lambda>x. ia_id x = a) (ad_accounts db) = Some x" "ia_status x = ''active''" "ia_public_id x = p"
    using assms(1) unfolding alive_until_def account_of_def by blast
  have "ia_id x = a" using x(1) by (auto simp: find_Some_iff)
  then have "account_of db' a = Some (f x)" "ia_status (f x) = ''active''" "ia_public_id (f x) = p"
    using x assms(6,7) unfolding account_of_def assms(3) by (simp_all add: find_map_same assms(5))
  moreover have "find (\<lambda>k. di_id k = sn_account_identity_id s) (ad_identities db') = Some (g k)" "di_status (g k) \<noteq> ''disabled''"
    "di_ib_account_id (g k) = a"
    using s(8-10) assms(9,10) unfolding assms(4) by (simp_all add: find_map_same assms(8))
  ultimately show ?thesis using s unfolding alive_until_def assms(2) by blast
qed

text \<open>Rows that are added do not matter, nor do changes to other sessions.\<close>

lemma alive_extend:
  assumes "alive_until t a h ch p db" "ad_accounts db' = ad_accounts db @ xs" "ad_identities db' = ad_identities db @ ks"
    and "\<And>s. s \<in> set (ad_sessions db) \<Longrightarrow> sn_session_hash s = h \<Longrightarrow> sn_ib_account_id s = a \<Longrightarrow> sn_revoked_at s = None \<Longrightarrow>
      t \<le> sn_expires_at s \<Longrightarrow> t \<le> sn_idle_expires_at s \<Longrightarrow>
      \<exists>s'\<in>set (ad_sessions db'). sn_session_hash s' = h \<and> sn_ib_account_id s' = a \<and> sn_csrf_hash s' = sn_csrf_hash s \<and> sn_revoked_at s' = None \<and>
        t \<le> sn_expires_at s' \<and> t \<le> sn_idle_expires_at s' \<and> sn_account_identity_id s' = sn_account_identity_id s"
  shows "alive_until t a h ch p db'"
proof -
  obtain s k where s: "s \<in> set (ad_sessions db)" "sn_session_hash s = h" "sn_ib_account_id s = a" "sn_csrf_hash s = ch" "sn_revoked_at s = None"
    "t \<le> sn_expires_at s" "t \<le> sn_idle_expires_at s" "find (\<lambda>k. di_id k = sn_account_identity_id s) (ad_identities db) = Some k"
    "di_status k \<noteq> ''disabled''" "di_ib_account_id k = a"
    using assms(1) unfolding alive_until_def by blast
  obtain s' where s': "s' \<in> set (ad_sessions db')" "sn_session_hash s' = h" "sn_ib_account_id s' = a" "sn_csrf_hash s' = ch" "sn_revoked_at s' = None"
    "t \<le> sn_expires_at s'" "t \<le> sn_idle_expires_at s'" "sn_account_identity_id s' = sn_account_identity_id s"
    using assms(4)[OF s(1-3,5-7)] s(4) by auto
  have "find (\<lambda>k. di_id k = sn_account_identity_id s') (ad_identities db') = Some k"
    using s(8) s'(8) by (simp add: assms(3) find_append)
  moreover obtain x where "account_of db a = Some x" "ia_status x = ''active''" "ia_public_id x = p"
    using assms(1) unfolding alive_until_def by blast
  then have "account_of db' a = Some x" "ia_status x = ''active''" "ia_public_id x = p" by (simp_all add: account_of_def assms(2) find_append)
  ultimately show ?thesis using s' s(9,10) unfolding alive_until_def by blast
qed

lemma alive_create_session:
  assumes "create_session now b i sh ch' db = Ok db'" "b \<noteq> a" "alive_until t a h ch p db"
  shows "alive_until t a h ch p db'"
proof (rule alive_extend[OF assms(3), of _ "[]" "[]"])
  note c = create_session_Ok(2)[OF assms(1)]
  show "ad_accounts db' = ad_accounts db @ []" "ad_identities db' = ad_identities db @ []" by (simp_all add: c)
  fix s
  assume s: "s \<in> set (ad_sessions db)" "sn_session_hash s = h" "sn_ib_account_id s = a" "sn_revoked_at s = None"
    "t \<le> sn_expires_at s" "t \<le> sn_idle_expires_at s"
  then have "s \<in> set (ad_sessions db')" using assms(2) by (force simp: c revoke_where_def)
  then show "\<exists>s'\<in>set (ad_sessions db'). sn_session_hash s' = h \<and> sn_ib_account_id s' = a \<and> sn_csrf_hash s' = sn_csrf_hash s \<and> sn_revoked_at s' = None \<and>
        t \<le> sn_expires_at s' \<and> t \<le> sn_idle_expires_at s' \<and> sn_account_identity_id s' = sn_account_identity_id s"
    using s by blast
qed

lemma alive_revoke:
  assumes "h' \<noteq> h" "alive_until t a h ch p db"
  shows "alive_until t a h ch p (revoke_session now h' db)"
proof (rule alive_extend[OF assms(2), of _ "[]" "[]"])
  fix s
  assume s: "s \<in> set (ad_sessions db)" "sn_session_hash s = h" "sn_ib_account_id s = a" "sn_revoked_at s = None"
    "t \<le> sn_expires_at s" "t \<le> sn_idle_expires_at s"
  then have "s \<in> set (ad_sessions (revoke_session now h' db))" using assms(1) by (force simp: revoke_session_def)
  then show "\<exists>s'\<in>set (ad_sessions (revoke_session now h' db)). sn_session_hash s' = h \<and> sn_ib_account_id s' = a \<and> sn_csrf_hash s' = sn_csrf_hash s \<and>
        sn_revoked_at s' = None \<and> t \<le> sn_expires_at s' \<and> t \<le> sn_idle_expires_at s' \<and> sn_account_identity_id s' = sn_account_identity_id s"
    using s by blast
qed (simp_all add: revoke_session_def)

text \<open>Finding any session extends idle times: not past the absolute end, and never below the time it was created plus 30 minutes.\<close>

lemma alive_find:
  assumes "alive_until t a h ch p db" "t \<le> now + SESSION_IDLE_TTL_SECONDS"
  shows "alive_until t a h ch p (snd (find_session now h' db))"
proof (rule alive_extend[OF assms(1), of _ "[]" "[]"])
  fix s
  assume s: "s \<in> set (ad_sessions db)" "sn_session_hash s = h" "sn_ib_account_id s = a" "sn_revoked_at s = None"
    "t \<le> sn_expires_at s" "t \<le> sn_idle_expires_at s"
  let ?f = "\<lambda>s. if session_usable db now h' s then s\<lparr>sn_last_seen_at := now,
      sn_idle_expires_at := min (sn_expires_at s) (now + SESSION_IDLE_TTL_SECONDS)\<rparr> else s"
  have "?f s \<in> set (ad_sessions (snd (find_session now h' db)))" using s(1) by (simp add: find_session_def)
  then show "\<exists>s'\<in>set (ad_sessions (snd (find_session now h' db))). sn_session_hash s' = h \<and> sn_ib_account_id s' = a \<and>
        sn_csrf_hash s' = sn_csrf_hash s \<and> sn_revoked_at s' = None \<and> t \<le> sn_expires_at s' \<and> t \<le> sn_idle_expires_at s' \<and>
        sn_account_identity_id s' = sn_account_identity_id s"
    by (rule bexI[rotated]) (use s assms(2) in simp)
qed (simp_all add: find_session_def)

lemma alive_signup:
  assumes "alive_until t a h ch p db"
  shows "alive_until t a h ch p (snd (signup_and_create_session env d email eh ph sh ch' db))"
  using signup_cases[OF refl, of env d email eh ph sh ch' db]
proof (elim disjE exE conjE)
  let ?db = "snd (signup_and_create_session env d email eh ph sh ch' db)"
  fix db1 db2 db3
  assume s: "insert_account env (aw_account_id d) db = Ok db1" "insert_identity (aw_identity_id d) (aw_account_id d) email eh ph db1 = Ok db2"
    and same: "ad_sessions db3 = ad_sessions db2" "ad_accounts db3 = ad_accounts db2" "ad_identities db3 = ad_identities db2"
    and c: "create_session (aw_now d) (aw_account_id d) (aw_identity_id d) sh ch' db3 = Ok ?db"
  have new: "aw_account_id d \<noteq> a"
  proof
    assume "aw_account_id d = a"
    moreover obtain x where "account_of db a = Some x" using assms unfolding alive_until_def by blast
    then have "x \<in> set (ad_accounts db)" "ia_id x = a" by (auto simp: account_of_def find_Some_iff)
    moreover have "aw_account_id d \<notin> ia_id ` set (ad_accounts db)"
      using s(1) by (simp add: insert_account_def Let_def split: if_splits)
    ultimately show False by (metis image_eqI)
  qed
  obtain xs ks where "ad_accounts db2 = ad_accounts db @ xs" "ad_identities db2 = ad_identities db @ ks" "ad_sessions db2 = ad_sessions db"
    using s by (auto simp: insert_account_def insert_identity_def Let_def split: if_splits)
  then have "alive_until t a h ch p db3" using same by (intro alive_extend[OF assms]) auto
  then show ?thesis by (rule alive_create_session[OF c new])
qed (use assms in simp)

lemma alive_session_statement:
  assumes "alive_until t a h ch p db" "accounts_ok db" "\<forall>k\<in>set (ad_identities db). di_id k = i \<longrightarrow> di_ib_account_id k \<noteq> a"
  shows "alive_until t a h ch p (snd (create_password_login_session now i sh ch' db))"
  using login_session_cases[OF refl, of now i sh ch' db]
proof (elim disjE exE conjE)
  fix b
  assume b: "(i, b) \<in> set (identity_keys db)" "create_session now b i sh ch' db = Ok (snd (create_password_login_session now i sh ch' db))"
  then have "b \<noteq> a" using assms(3) by (auto simp: identity_keys_def)
  then show ?thesis using alive_create_session[OF b(2) _ assms(1)] by blast
qed (use assms(1) in simp)

lemma alive_update_password:
  assumes "alive_until t a h ch p db"
  shows "alive_until t a h ch p (snd (update_password_hash i ph db))"
proof (cases "\<not> non_blank ph \<and> i \<in> di_id ` set (ad_identities db)")
  case True
  then show ?thesis using assms by (simp add: update_password_hash_def)
next
  case False
  then show ?thesis
    by (intro alive_map[OF assms, of _ "\<lambda>x. x" "\<lambda>k. if di_id k = i then k\<lparr>di_password_hash := Some ph\<rparr> else k"])
       (auto simp: update_password_hash_def)
qed

lemma alive_run:
  "run_accounts f outcome db = (r, db') \<Longrightarrow> alive_until t a h ch p db \<Longrightarrow> alive_until t a h ch p (snd outcome) \<Longrightarrow> alive_until t a h ch p db'"
  using run_accounts_db[of f outcome db r db'] by auto

text \<open>What the statements of a browser request can leave in the database.\<close>

lemma start_session_db:
  assumes "start_session env l session csrf db = (q, db')"
  shows "db' = db \<or> (\<exists>now sh ch. db' = snd (create_password_login_session now (pl_account_identity_id l) sh ch db))"
proof -
  obtain r db1 where r: "run_accounts (we_statement_fault env) (create_password_login_session (aw_now (we_draw env))
      (pl_account_identity_id l) (web_hash env session) (web_hash env csrf) db) db = (r, db1)" by fastforce
  then have "db' = db1" using assms by (simp add: start_session_def split: result.splits bool.splits)
  then show ?thesis using run_accounts_db[OF r] by blast
qed

lemma access_page_db:
  assumes "access_page env (Some db) = (response, Some db')"
  shows "db' = db \<or> (\<exists>now i v. db' = snd (create_demo_intent now i v db))"
proof (cases "we_page_token env")
  case None
  then show ?thesis using assms by (simp add: access_page_def)
next
  case (Some token)
  obtain r db1 where r: "run_accounts (we_statement_fault env)
      (create_demo_intent (aw_now (we_draw env)) (aw_row_id (we_draw env)) (web_hash env token) db) db = (r, db1)" by fastforce
  then have "db' = db1" using assms Some by (simp add: access_page_def split: result.splits)
  then show ?thesis using run_accounts_db[OF r] by blast
qed

lemma issue_demo_db:
  assumes "issue_demo env config headers intent (Some db) = (response, Some db')"
  shows "db' = db \<or> (\<exists>now k v kp kh. db' = snd (consume_demo_intent_and_issue_key now k v kp kh db))"
proof (cases "same_origin headers (wc_public_web_base_url config) \<and> (\<exists>raw kp. we_raw_key env = Some raw \<and> key_prefix_of raw = Ok kp)")
  case False
  then show ?thesis using assms by (auto simp: issue_demo_def split: if_splits option.splits result.splits)
next
  case True
  then obtain raw kp where k: "same_origin headers (wc_public_web_base_url config)" "we_raw_key env = Some raw" "key_prefix_of raw = Ok kp" by blast
  obtain r db1 where r: "run_accounts (we_statement_fault env)
      (consume_demo_intent_and_issue_key (aw_now (we_draw env)) (aw_row_id (we_draw env))
        (web_hash env intent) kp (we_sha256 env (rk_value raw)) db) db = (r, db1)" by fastforce
  then have "db' = db1" using assms k by (simp add: issue_demo_def split: result.splits option.splits)
  then show ?thesis using run_accounts_db[OF r] by blast
qed

lemma login_cases:
  assumes "login_submit env config headers caller form (Some db) = Some (response, Some db')"
  shows "db' = db \<or> (\<exists>l i r db1. login_identity env config form db i \<and> di_id i = pl_account_identity_id l \<and>
    upgrade_hash env l (fm_password form) db = (r, db1) \<and> (db' = db1 \<or> (\<exists>session csrf q. start_session env l session csrf db1 = (q, db'))))"
proof (cases "db' = db")
  case False
  have f: "map_option (\<lambda>_. (invalid_credentials_response env, Some db)) x \<noteq> Some (response, Some db')" for x :: "unit option"
    using False by auto
  have v: "\<not> authenticated caller" "entry_csrf_valid config headers (fm_csrf form)"
    using assms False by (auto simp: login_submit_def Let_def split: if_splits)
  obtain email where e: "normalize_email (fm_email form) = Some email"
    using assms v f by (cases "normalize_email (fm_email form)") (auto simp: login_submit_def Let_def)
  obtain pepper where p: "wc_account_email_lookup_pepper config = Some pepper"
    using assms v e False by (cases "wc_account_email_lookup_pepper config") (auto simp: login_submit_def Let_def)
  obtain l where l: "find_password_login_identity db (hash_with_pepper env email pepper) = Some l" "we_lookup_fault env = NoFault"
    using assms v e p f False by (cases "find_password_login_identity db (hash_with_pepper env email pepper)"; cases "we_lookup_fault env")
      (auto simp: login_submit_def Let_def run_query_def)
  note assms' = assms[unfolded login_submit_def Let_def, simplified, simplified v e p, simplified l run_query_def, simplified, simplified l, simplified]
  have s: "pl_account_status l = ''active''" "pl_identity_status l \<noteq> ''disabled''" "pl_password_hash l \<noteq> []"
    "password_verify (we_argon2 env) (fm_password form) (pl_password_hash l)"
    using assms' f False by (auto split: if_splits)
  obtain session csrf where t: "we_session_token env = Some session" "we_csrf_token env = Some csrf"
    using assms' s False by (auto split: option.splits if_splits)
  obtain x db1 where u: "upgrade_hash env l (fm_password form) db = (x, db1)" by fastforce
  have "db' = db1 \<or> (\<exists>q. start_session env l session csrf db1 = (q, db'))"
    using assms' s t u by (cases x; cases "start_session env l session csrf db1") auto
  moreover obtain i where i: "i \<in> set (ad_identities db)" "di_id i = pl_account_identity_id l" "di_email_lookup_hash i = hash_with_pepper env email pepper"
    "di_password_hash i = Some (pl_password_hash l)" "di_status i \<noteq> ''disabled''"
    "\<exists>a\<in>set (ad_accounts db). ia_id a = di_ib_account_id i \<and> ia_status a = ''active''"
    by (rule login_lookup[OF l(1) s(1-3)])
  then have "login_identity env config form db i" unfolding login_identity_def using e p s(4) by blast
  ultimately show ?thesis using i(2) u by blast
qed blast

lemma identity_unique:
  assumes "accounts_ok db" "i \<in> set (ad_identities db)" "k \<in> set (ad_identities db)" "di_id k = di_id i"
  shows "di_ib_account_id k = di_ib_account_id i"
proof -
  have "distinct (map di_id (ad_identities db))" using assms(1) by (simp add: accounts_ok_def identities_ok_def identity_keys_def comp_def)
  then show ?thesis using distinct_map_eq[OF _ assms(3,2,4)] by simp
qed

lemma alive_login:
  assumes "login_submit env config headers caller form (Some db) = Some (response, Some db')"
    and "\<forall>i. login_identity env config form db i \<longrightarrow> di_ib_account_id i \<noteq> a" "alive_until t a h ch p db" "accounts_ok db"
  shows "alive_until t a h ch p db'"
proof (cases "db' = db")
  case False
  then obtain l i r db1 where i: "login_identity env config form db i" "di_id i = pl_account_identity_id l" and u: "upgrade_hash env l (fm_password form) db = (r, db1)"
    and s: "db' = db1 \<or> (\<exists>session csrf q. start_session env l session csrf db1 = (q, db'))"
    using login_cases[OF assms(1)] by blast
  have alive: "alive_until t a h ch p db1"
    using u assms(3) alive_run[OF _ assms(3) alive_update_password[OF assms(3)]]
    by (auto simp: upgrade_hash_def split: if_splits result.splits)
  have ok: "accounts_ok db1" using kept_upgrade[OF u] assms(4) by (simp add: kept_def)
  have keys: "identity_keys db1 = identity_keys db" by (rule upgrade_keeps(1)[OF u])
  have "di_ib_account_id k \<noteq> a" if "k \<in> set (ad_identities db1)" "di_id k = pl_account_identity_id l" for k
  proof -
    have "(di_id k, di_ib_account_id k) \<in> set (identity_keys db)" using that(1) keys by (metis (mono_tags) identity_keys_def image_eqI list.set_map)
    then obtain k0 where "k0 \<in> set (ad_identities db)" "di_id k0 = di_id k" "di_ib_account_id k0 = di_ib_account_id k" by (auto simp: identity_keys_def)
    moreover have "i \<in> set (ad_identities db)" using i(1) by (simp add: login_identity_def)
    ultimately show ?thesis using identity_unique[OF assms(4)] i assms(2) that(2) by metis
  qed
  then have "alive_until t a h ch p (snd (create_password_login_session now (pl_account_identity_id l) sh ch' db1))" for now sh ch'
    using alive_session_statement[OF alive ok] by blast
  then show ?thesis using s alive start_session_db by metis
qed (use assms(3) in simp)

lemma alive_quiet:
  assumes "quiet_step a h since db db'" "alive_until (since + SESSION_IDLE_TTL_SECONDS) a h ch p db" "accounts_ok db"
  shows "alive_until (since + SESSION_IDLE_TTL_SECONDS) a h ch p db'"
  using assms(1)
proof cases
  case (QuietSignup env config headers caller form response)
  then show ?thesis using assms(2) alive_run[OF _ assms(2) alive_signup[OF assms(2)]]
    by (auto simp: signup_submit_def Let_def split: if_splits option.splits result.splits prod.splits signup_outcome.splits)
next
  case (QuietLogin env config headers caller form response)
  then show ?thesis using alive_login[OF _ _ assms(2,3)] by blast
next
  case (QuietLogout env config headers caller csrf response)
  have "db' = db \<or> (\<exists>v. cookie_value headers SESSION_COOKIE = Some v \<and> (db' = db \<or> db' = revoke_session (aw_now (we_draw env)) (web_hash env v) db))"
    using QuietLogout(1) run_accounts_snd[of "we_statement_fault env" "(Ok (), revoke_session (aw_now (we_draw env)) h db)" db for h]
    by (auto simp: logout_def split: browser_principal.splits option.splits if_splits)
  then show ?thesis using alive_revoke[OF _ assms(2)] assms(2) QuietLogout(2) by blast
next
  case (QuietAttach env headers caller)
  have "db' = db \<or> (\<exists>v. db' = snd (find_session (aw_now (we_draw env)) v db))"
    using QuietAttach(1) run_accounts_snd[of "we_lookup_fault env" "apfst Ok (find_session (aw_now (we_draw env)) v db)" db for v]
    by (auto simp: attach_browser_context_def split: option.splits prod.splits result.splits) (metis insertE snd_apfst snd_conv singletonD)+
  then show ?thesis using alive_find[OF assms(2)] assms(2) QuietAttach(2) by auto
next
  case (QuietAccess env response)
  have "alive_until (since + SESSION_IDLE_TTL_SECONDS) a h ch p (snd (create_demo_intent now i v db))" for now i v
    by (rule alive_cong[OF assms(2)]) (simp_all add: create_demo_intent_def)
  then show ?thesis using access_page_db[OF QuietAccess] assms(2) by metis
next
  case (QuietDemo env config headers intent response)
  have "alive_until (since + SESSION_IDLE_TTL_SECONDS) a h ch p (snd (consume_demo_intent_and_issue_key now k v kp kh db))" for now k v kp kh
    by (rule alive_cong[OF assms(2)])
       (simp_all add: consume_demo_intent_and_issue_key_def commit_accounts_def split: option.splits)
  then show ?thesis using issue_demo_db[OF QuietDemo] assms(2) by metis
next
  case (QuietStatus f g)
  then show ?thesis
    by (intro alive_map[OF assms(2), of _ "\<lambda>a. a\<lparr>ia_status := f a\<rparr>" "\<lambda>i. i\<lparr>di_status := g i\<rparr>"]) simp_all
next
  case (QuietUpgrade f i ph r)
  then show ?thesis using alive_run[OF _ assms(2) alive_update_password[OF assms(2)]] by blast
next
  case (QuietSession f now i sh ch' q)
  then show ?thesis using alive_run[OF _ assms(2) alive_session_statement[OF assms(2,3)]] by blast
qed

lemma alive_quiet_steps:
  assumes "(quiet_step a h since)\<^sup>*\<^sup>* db db'" "alive_until (since + SESSION_IDLE_TTL_SECONDS) a h ch p db" "accounts_ok db"
  shows "alive_until (since + SESSION_IDLE_TTL_SECONDS) a h ch p db' \<and> accounts_ok db'"
  using assms
proof (induction rule: rtranclp_induct)
  case (step y z)
  then have "accounts_ok z" using step_kept[OF quiet_account_step[OF step(2)]] by (simp add: kept_def)
  then show ?case using step alive_quiet by blast
qed blast

lemma alive_found:
  assumes "alive_until t a h ch p db" "accounts_ok db" "now < t"
  shows "fst (find_session now h db) = Some \<lparr>sl_ib_account_id = a, sl_public_id = p, sl_csrf_hash = ch\<rparr>"
proof -
  obtain s k where s: "s \<in> set (ad_sessions db)" "sn_session_hash s = h" "sn_ib_account_id s = a" "sn_csrf_hash s = ch" "sn_revoked_at s = None"
    "t \<le> sn_expires_at s" "t \<le> sn_idle_expires_at s" "find (\<lambda>k. di_id k = sn_account_identity_id s) (ad_identities db) = Some k"
    "di_status k \<noteq> ''disabled''"
    using assms(1) unfolding alive_until_def by blast
  obtain x where x: "account_of db a = Some x" "ia_status x = ''active''" "ia_public_id x = p"
    using assms(1) unfolding alive_until_def by blast
  have "session_usable db now h s" using s x assms(3) by (simp add: session_usable_def)
  then obtain s' where s': "find (session_usable db now h) (ad_sessions db) = Some s'"
    using s(1) by (cases "find (session_usable db now h) (ad_sessions db)") (auto simp: find_None_iff)
  then have "s' \<in> set (ad_sessions db)" "sn_session_hash s' = h" by (auto simp: find_Some_iff session_usable_def)
  moreover have "distinct (map sn_session_hash (ad_sessions db))" using assms(2) by (simp add: accounts_ok_def sessions_ok_def)
  ultimately have "s' = s" using distinct_map_eq s(1,2) by metis
  then show ?thesis using s' s(3,4) x by (simp add: find_session_def)
qed

text \<open>A session that has just been created is alive.\<close>

lemma new_session_alive:
  assumes "create_password_login_session now i sh ch db = (Ok True, db')"
  obtains k p where "k \<in> set (ad_identities db)" "di_id k = i"
    "alive_until (now + SESSION_IDLE_TTL_SECONDS) (di_ib_account_id k) sh ch p db'"
proof -
  obtain k a where k: "k \<in> set (ad_identities db)" "di_id k = i" "find (\<lambda>k. di_id k = i) (ad_identities db) = Some k"
    and a: "account_of db (di_ib_account_id k) = Some a" "di_status k \<noteq> ''disabled''" "ia_status a = ''active''"
    and c: "create_session now (ia_id a) i sh ch db = Ok db'"
    by (rule login_session_True[OF assms(1)])
  note n = create_session_Ok(2)[OF c]
  have "ia_id a = di_ib_account_id k" using a(1) by (auto simp: account_of_def find_Some_iff)
  then have "alive_until (now + SESSION_IDLE_TTL_SECONDS) (di_ib_account_id k) sh ch (ia_public_id a) db'"
    using a k(3) by (auto simp: alive_until_def n account_of_def SESSION_ABSOLUTE_TTL_SECONDS_def SESSION_IDLE_TTL_SECONDS_def)
  then show thesis using that k(1,2) by blast
qed

lemma login_session_alive:
  assumes "accounts_ok db" "login_submit env config headers Anonymous form (Some db) = Some (SeeOther ''/lab'' cookies, Some db')"
    and "we_session_token env = Some session" "we_csrf_token env = Some csrf"
  shows "\<exists>i public_id. login_identity env config form db i \<and>
    cookies = [cookie_header SESSION_COOKIE session True, cookie_header CSRF_COOKIE csrf False] \<and>
    alive_until (aw_now (we_draw env) + SESSION_IDLE_TTL_SECONDS) (di_ib_account_id i) (web_hash env session) (web_hash env csrf) public_id db'"
proof -
  obtain email pepper l db1 where e: "normalize_email (fm_email form) = Some email"
    "wc_account_email_lookup_pepper config = Some pepper"
    and l: "find_password_login_identity db (hash_with_pepper env email pepper) = Some l"
      "pl_account_status l = ''active''" "pl_identity_status l \<noteq> ''disabled''" "pl_password_hash l \<noteq> []"
      "password_verify (we_argon2 env) (fm_password form) (pl_password_hash l)"
    and u: "upgrade_hash env l (fm_password form) db = (Ok (), db1)"
    and s: "start_session env l session csrf db1 = (SeeOther ''/lab'' cookies, db')"
    using login_redirect[OF assms(2)] assms(3,4) by (metis option.inject)
  obtain i where i: "i \<in> set (ad_identities db)" "di_id i = pl_account_identity_id l" "di_email_lookup_hash i = hash_with_pepper env email pepper"
    "di_password_hash i = Some (pl_password_hash l)" "di_status i \<noteq> ''disabled''"
    "\<exists>a\<in>set (ad_accounts db). ia_id a = di_ib_account_id i \<and> ia_status a = ''active''"
    by (rule login_lookup[OF l(1-4)])
  have id: "login_identity env config form db i" unfolding login_identity_def using i e l(5) by blast
  have r: "invalid_credentials_response env \<noteq> SeeOther ''/lab'' cookies"
    by (simp add: invalid_credentials_response_def account_entry_response_def split: option.splits)
  have c: "create_password_login_session (aw_now (we_draw env)) (pl_account_identity_id l) (web_hash env session) (web_hash env csrf) db1 =
      (Ok True, db')" "cookies = [cookie_header SESSION_COOKIE session True, cookie_header CSRF_COOKIE csrf False]"
    using s r by (auto simp: start_session_def run_accounts_def authenticated_redirect_def
        split: prod.splits result.splits bool.splits fault.splits)
  obtain k p where k: "k \<in> set (ad_identities db1)" "di_id k = pl_account_identity_id l"
    "alive_until (aw_now (we_draw env) + SESSION_IDLE_TTL_SECONDS) (di_ib_account_id k) (web_hash env session) (web_hash env csrf) p db'"
    by (rule new_session_alive[OF c(1)])
  have "(di_id k, di_ib_account_id k) \<in> set (identity_keys db)"
    using k(1) upgrade_keeps(1)[OF u] by (metis (mono_tags) identity_keys_def image_eqI list.set_map)
  moreover have "(di_id i, di_ib_account_id i) \<in> set (identity_keys db)" using i(1) by (simp add: identity_keys_def)
  moreover have "distinct (map fst (identity_keys db))" using assms(1) by (simp add: accounts_ok_def identities_ok_def)
  ultimately have "di_ib_account_id k = di_ib_account_id i" using k(2) i(2) distinct_map_eq by (metis fst_conv snd_conv)
  then show ?thesis using id c(2) k(3) by auto
qed

text \<open>
  C27. A login gives what it promises and to nobody else. When it is answered by a redirection with cookies, there is one identity with
  the hash of the submitted address, its stored hash verifies the submitted password, it is not disabled and its account is active. And
  whatever other requests come in between (sign-ups, logins to other accounts, visits, demo keys, requests of the same browser, logouts with other
  cookies, changes of the status of other accounts), every request with the session cookie within 30 minutes of the login is taken for
  that account, with the CSRF token of the other cookie. Only another login to the account, a logout with the cookie, or a change of the
  status of the account or its identity ends the session earlier.
\<close>

theorem login_authenticates:
  assumes "account_history db" "login_submit env config headers Anonymous form (Some db) = Some (SeeOther ''/lab'' cookies, Some db')"
    and "we_session_token env = Some session" "we_csrf_token env = Some csrf"
  shows "\<exists>i public_id. login_identity env config form db i \<and>
    cookies = [cookie_header SESSION_COOKIE session True, cookie_header CSRF_COOKIE csrf False] \<and>
    (\<forall>later env' headers'. (quiet_step (di_ib_account_id i) (web_hash env session) (aw_now (we_draw env)))\<^sup>*\<^sup>* db' later \<longrightarrow>
       cookie_value headers' SESSION_COOKIE = Some session \<longrightarrow> we_sha256 env' = we_sha256 env \<longrightarrow> we_lookup_fault env' = NoFault \<longrightarrow>
       aw_now (we_draw env') < aw_now (we_draw env) + SESSION_IDLE_TTL_SECONDS \<longrightarrow>
       fst (attach_browser_context env' headers' (Some later)) = Authenticated (di_ib_account_id i) public_id (web_hash env csrf))"
proof -
  have ok: "accounts_ok db" by (rule account_history_ok[OF assms(1)])
  obtain i p where i: "login_identity env config form db i"
    "cookies = [cookie_header SESSION_COOKIE session True, cookie_header CSRF_COOKIE csrf False]"
    "alive_until (aw_now (we_draw env) + SESSION_IDLE_TTL_SECONDS) (di_ib_account_id i) (web_hash env session) (web_hash env csrf) p db'"
    using login_session_alive[OF ok assms(2-4)] by blast
  have ok': "accounts_ok db'" using step_kept[OF LoginStep[OF assms(2)]] ok by (simp add: kept_def)
  have "fst (attach_browser_context env' headers' (Some later)) = Authenticated (di_ib_account_id i) p (web_hash env csrf)"
    if q: "(quiet_step (di_ib_account_id i) (web_hash env session) (aw_now (we_draw env)))\<^sup>*\<^sup>* db' later"
      and c: "cookie_value headers' SESSION_COOKIE = Some session" "we_sha256 env' = we_sha256 env" "we_lookup_fault env' = NoFault"
      and t: "aw_now (we_draw env') < aw_now (we_draw env) + SESSION_IDLE_TTL_SECONDS" for later env' headers'
  proof -
    note l = alive_quiet_steps[OF q i(3) ok']
    have "fst (find_session (aw_now (we_draw env')) (web_hash env session) later) =
        Some \<lparr>sl_ib_account_id = di_ib_account_id i, sl_public_id = p, sl_csrf_hash = web_hash env csrf\<rparr>"
      using alive_found l t by blast
    then show ?thesis using c by (simp add: attach_outcome web_hash_def)
  qed
  then show ?thesis using i(1,2) by blast
qed

section \<open>A sample browser\<close>

definition sample_digest :: "string \<Rightarrow> nat list" where
  "sample_digest v = take 32 (map of_char v @ replicate 32 0)"

definition sample_argon2 :: argon2 where
  "sample_argon2 = \<lparr>an_hash_unchecked = \<lambda>p. Ok (''argon2id:'' @ p),
     an_parse = \<lambda>e. Some \<lparr>ph_algorithm = ''argon2id'', ph_m = None, ph_t = None, ph_p = None\<rparr>,
     an_verify = \<lambda>p e. e = ''argon2id:'' @ p\<rparr>"

definition sample_raw_key :: string where
  "sample_raw_key = ''ib_live_0123456789abcdef.'' @ replicate 64 CHR ''b''"

definition sample_web :: "timestamp \<Rightarrow> uuid \<Rightarrow> string \<Rightarrow> string \<Rightarrow> web_env" where
  "sample_web now row session csrf =
     \<lparr>we_text = sample_env, we_argon2 = sample_argon2, we_dummy_hash = Some ''dummy'', we_sha256 = sample_digest,
      we_session_token = Some session, we_csrf_token = Some csrf, we_page_token = Some csrf,
      we_raw_key = Some \<lparr>rk_value = sample_raw_key\<rparr>,
      we_draw = \<lparr>aw_account_id = 5, aw_identity_id = 6, aw_workspace = \<lparr>dr_id = 7, dr_event_id = 8, dr_now = now\<rparr>, aw_row_id = row, aw_now = now\<rparr>,
      we_lookup_fault = NoFault, we_update_fault = NoFault, we_statement_fault = NoFault\<rparr>"

definition sample_web_config :: web_config where
  "sample_web_config = \<lparr>wc_public_web_base_url = ''https://ib.test/'', wc_account_email_lookup_pepper = Some ''pepper''\<rparr>"

definition sample_form :: "string \<Rightarrow> account_form" where
  "sample_form csrf = \<lparr>fm_email = ''Ada@example.org '', fm_password = ''correct horse battery'', fm_csrf = csrf\<rparr>"

definition sample_headers :: "string \<Rightarrow> string \<Rightarrow> web_headers" where
  "sample_headers session csrf =
     \<lparr>wh_cookie = Some (SESSION_COOKIE @ ''='' @ session @ ''; '' @ CSRF_COOKIE @ ''='' @ csrf), wh_origin = Some ''https://ib.test''\<rparr>"

lemma sample_digest_length [simp]: "length (sample_digest v) = 32"
  by (simp add: sample_digest_def)

lemma sample_web_simps [simp]:
  "we_text (sample_web now row session csrf) = sample_env" "we_argon2 (sample_web now row session csrf) = sample_argon2"
  "we_sha256 (sample_web now row session csrf) = sample_digest" "web_hash (sample_web now row session csrf) = sample_digest"
  "we_session_token (sample_web now row session csrf) = Some session" "we_csrf_token (sample_web now row session csrf) = Some csrf"
  "we_page_token (sample_web now row session csrf) = Some csrf" "aw_now (we_draw (sample_web now row session csrf)) = now"
  "we_raw_key (sample_web now row session csrf) = Some \<lparr>rk_value = sample_raw_key\<rparr>"
  "aw_row_id (we_draw (sample_web now row session csrf)) = row"
  "we_lookup_fault (sample_web now row session csrf) = NoFault" "we_update_fault (sample_web now row session csrf) = NoFault"
  "we_statement_fault (sample_web now row session csrf) = NoFault"
  by (simp_all add: sample_web_def web_hash_def fun_eq_iff)

definition sample_lookup :: "nat list" where
  "sample_lookup = sample_digest (''ada@example.org'' @ [char_of (0 :: nat)] @ ''pepper'')"

definition sample_encoded :: string where
  "sample_encoded = ''argon2id:correct horse battery''"

lemma sample_credentials [simp]:
  "entry_csrf_valid sample_web_config (sample_headers [] ''c0'') ''c0''" "entry_csrf_valid sample_web_config (sample_headers [] ''c1'') ''c1''"
  "normalize_email ''Ada@example.org '' = Some ''ada@example.org''"
  "hash_password sample_argon2 ''correct horse battery'' = Ok sample_encoded"
  "password_verify sample_argon2 ''correct horse battery'' sample_encoded"
  "needs_rehash sample_argon2 sample_encoded" "non_blank sample_encoded" "sample_encoded \<noteq> []" "non_blank ''ada@example.org''"
  by code_simp+

lemma sample_config_pepper [simp]: "wc_account_email_lookup_pepper sample_web_config = Some ''pepper''"
  by (simp add: sample_web_config_def)

lemma sample_pepper [simp]: "hash_with_pepper (sample_web now row session csrf) ''ada@example.org'' ''pepper'' = sample_lookup"
  by (simp add: hash_with_pepper_def sample_lookup_def)

definition sample_identity :: identity_row where
  "sample_identity = \<lparr>di_id = 6, di_ib_account_id = 5, di_email_normalized = ''ada@example.org'', di_email_lookup_hash = sample_lookup,
     di_password_hash = Some sample_encoded, di_status = ''pending_verification''\<rparr>"

definition sample_account :: account_row where
  "sample_account = \<lparr>ia_id = 5, ia_public_id = ''iba_00000'', ia_status = ''active'', ia_closed_at = None\<rparr>"

definition sample_session :: "timestamp \<Rightarrow> string \<Rightarrow> string \<Rightarrow> browser_session_row" where
  "sample_session now session csrf = \<lparr>sn_ib_account_id = 5, sn_account_identity_id = 6, sn_session_hash = sample_digest session,
     sn_csrf_hash = sample_digest csrf, sn_expires_at = now + SESSION_ABSOLUTE_TTL_SECONDS,
     sn_idle_expires_at = now + SESSION_IDLE_TTL_SECONDS, sn_last_seen_at = now, sn_revoked_at = None, sn_created_at = now\<rparr>"

definition sample_signup :: "web_response \<times> account_db option" where
  "sample_signup = signup_submit (sample_web 1000 3 ''s1'' ''c1'') sample_web_config (sample_headers [] ''c0'') Anonymous (sample_form ''c0'')
     (Some (no_accounts {}))"

lemma sample_workspace:
  assumes "wd_workspaces (ad_workspaces db) = []" "wd_events (ad_workspaces db) = []" "i \<in> wd_accounts (ad_workspaces db)"
  shows "\<exists>ws. create_initial_workspace sample_env \<lparr>dr_id = 7, dr_event_id = 8, dr_now = now\<rparr> i db = Ok (db\<lparr>ad_workspaces := ws\<rparr>)"
proof -
  have "workspace_checks \<lparr>w_id = 7, w_public_id = ''wsp_'' @ te_simple sample_env 7, w_name = INITIAL_WORKSPACE_NAME,
      w_description = None, w_status = ''active''\<rparr>" by code_simp
  then show ?thesis
    using assms by (simp add: create_initial_workspace_def create_workspace_def Let_def commit_def append_event_def event_types_def)
      (rule exI, rule refl)
qed

lemma sample_member:
  obtains db where "sample_signup = (authenticated_redirect ''s1'' ''c1'', Some db)"
    "ad_accounts db = [sample_account]" "ad_identities db = [sample_identity]" "ad_sessions db = [sample_session 1000 ''s1'' ''c1'']"
    "ad_intents db = []" "ad_api_keys db = []"
proof -
  obtain db1 where a: "insert_account sample_env 5 (no_accounts {}) = Ok db1" "ad_accounts db1 = [sample_account]" "ad_identities db1 = []"
    "ad_sessions db1 = []" "ad_intents db1 = []" "ad_api_keys db1 = []" "wd_workspaces (ad_workspaces db1) = []"
    "wd_events (ad_workspaces db1) = []" "5 \<in> wd_accounts (ad_workspaces db1)"
    by (simp add: insert_account_def no_accounts_def sample_account_def sample_env_def numeral_eq_Suc)
  obtain db2 where b: "insert_identity 6 5 ''ada@example.org'' sample_lookup sample_encoded db1 = Ok db2"
    "db2 = db1\<lparr>ad_identities := [sample_identity]\<rparr>"
    using a(2,3) by (simp add: insert_identity_def sample_identity_def sample_account_def sample_lookup_def)
  obtain ws where w: "create_initial_workspace sample_env \<lparr>dr_id = 7, dr_event_id = 8, dr_now = 1000\<rparr> 5 (grant_baseline_capabilities 5 db2) =
      Ok ((grant_baseline_capabilities 5 db2)\<lparr>ad_workspaces := ws\<rparr>)"
    using sample_workspace[of "grant_baseline_capabilities 5 db2" 5 1000] a b by auto
  let ?db = "(grant_baseline_capabilities 5 db2)\<lparr>ad_workspaces := ws, ad_sessions := [sample_session 1000 ''s1'' ''c1'']\<rparr>"
  have c: "create_session 1000 5 6 (sample_digest ''s1'') (sample_digest ''c1'') ((grant_baseline_capabilities 5 db2)\<lparr>ad_workspaces := ws\<rparr>) = Ok ?db"
    using a b by (simp add: create_session_def sample_session_def sample_identity_def sample_account_def)
  have "signup_and_create_session sample_env (we_draw (sample_web 1000 3 ''s1'' ''c1'')) ''ada@example.org'' sample_lookup sample_encoded
      (sample_digest ''s1'') (sample_digest ''c1'') (no_accounts {}) = (Ok SignupCreated, ?db)"
    using a(1) b(1) w c unfolding signup_and_create_session_def commit_accounts_def
    by (simp add: sample_web_def no_accounts_def)
  then have "sample_signup = (authenticated_redirect ''s1'' ''c1'', Some ?db)"
    by (simp add: sample_signup_def signup_submit_def sample_form_def Let_def run_accounts_def)
  then show thesis by (rule that) (use a b in simp_all)
qed

definition sample_member_db :: account_db where
  "sample_member_db = the (snd sample_signup)"

lemma sample_member_db:
  "sample_signup = (authenticated_redirect ''s1'' ''c1'', Some sample_member_db)"
  "ad_accounts sample_member_db = [sample_account]" "ad_identities sample_member_db = [sample_identity]"
  "ad_sessions sample_member_db = [sample_session 1000 ''s1'' ''c1'']" "ad_intents sample_member_db = []" "ad_api_keys sample_member_db = []"
proof -
  obtain db where db: "sample_signup = (authenticated_redirect ''s1'' ''c1'', Some db)"
    "ad_accounts db = [sample_account]" "ad_identities db = [sample_identity]" "ad_sessions db = [sample_session 1000 ''s1'' ''c1'']"
    "ad_intents db = []" "ad_api_keys db = []" by (rule sample_member)
  have e: "sample_member_db = db" by (simp add: sample_member_db_def db(1))
  show "sample_signup = (authenticated_redirect ''s1'' ''c1'', Some sample_member_db)" using db(1) e by simp
  show "ad_accounts sample_member_db = [sample_account]" "ad_identities sample_member_db = [sample_identity]"
    "ad_sessions sample_member_db = [sample_session 1000 ''s1'' ''c1'']" "ad_intents sample_member_db = []" "ad_api_keys sample_member_db = []"
    using db e by simp_all
qed

lemma sample_history: "account_history sample_member_db"
  unfolding account_history_def
  using SignupStep[OF sample_member_db(1)[unfolded sample_signup_def]] by blast

lemma sample_cookies [simp]:
  "cookie_value (sample_headers ''s1'' ''c1'') SESSION_COOKIE = Some ''s1''" "cookie_value (sample_headers ''s1'' ''c1'') CSRF_COOKIE = Some ''c1''"
  "cookie_value (sample_headers ''s2'' ''c2'') SESSION_COOKIE = Some ''s2''"
  "same_origin (sample_headers session csrf) (wc_public_web_base_url sample_web_config)"
  "sample_digest ''s2'' \<noteq> sample_digest ''s1''"
  by code_simp+

lemma sample_attach:
  "fst (attach_browser_context (sample_web 1100 3 ''x'' ''x'') (sample_headers ''s1'' ''c1'') (Some sample_member_db)) =
     Authenticated 5 ''iba_00000'' (sample_digest ''c1'')"
  by (simp add: attach_outcome find_session_def session_usable_def sample_member_db account_of_def sample_session_def
      sample_account_def sample_identity_def SESSION_ABSOLUTE_TTL_SECONDS_def SESSION_IDLE_TTL_SECONDS_def)

theorem browser_sessions_live_witness:
  "\<exists>s. live_session_of sample_member_db 1100 (sample_digest ''s1'') 5 s \<and> sample_digest ''c1'' = sn_csrf_hash s"
  using browser_sessions_live[OF sample_history prod_eqI[of _ "(_, _)", unfolded fst_conv snd_conv, OF sample_attach refl]] by simp

theorem account_tables_sound_witness: "accounts_ok sample_member_db \<and> length (ad_sessions sample_member_db) = 1"
  using account_tables_sound[OF sample_history] by (simp add: sample_member_db)

lemma sample_login:
  obtains db where
    "login_submit (sample_web 1100 2 ''s2'' ''c2'') sample_web_config (sample_headers [] ''c1'') Anonymous (sample_form ''c1'')
       (Some sample_member_db) = Some (authenticated_redirect ''s2'' ''c2'', Some db)"
proof -
  let ?env = "sample_web 1100 2 ''s2'' ''c2''"
  have l: "find_password_login_identity sample_member_db sample_lookup =
      Some \<lparr>pl_account_identity_id = 6, pl_password_hash = sample_encoded, pl_account_status = ''active'', pl_identity_status = ''pending_verification''\<rparr>"
    by (simp add: find_password_login_identity_def sample_member_db sample_identity_def account_of_def sample_account_def)
  let ?db = "sample_member_db\<lparr>ad_identities := [sample_identity]\<rparr>"
  have u: "update_password_hash 6 sample_encoded sample_member_db = (Ok (), ?db)"
    by (simp add: update_password_hash_def sample_member_db sample_identity_def)
  obtain db where "create_password_login_session 1100 6 (sample_digest ''s2'') (sample_digest ''c2'') ?db = (Ok True, db)"
    by (simp add: create_password_login_session_def create_session_def commit_accounts_def sample_member_db sample_identity_def account_of_def
        sample_account_def sample_session_def)
  then have "login_submit ?env sample_web_config (sample_headers [] ''c1'') Anonymous (sample_form ''c1'')
       (Some sample_member_db) = Some (authenticated_redirect ''s2'' ''c2'', Some db)"
    using l u by (simp add: login_submit_def sample_form_def Let_def run_query_def run_accounts_def upgrade_hash_def start_session_def)
  then show thesis by (rule that)
qed

theorem login_authenticates_witness:
  "\<exists>db later response public_id. login_submit (sample_web 1100 2 ''s2'' ''c2'') sample_web_config (sample_headers [] ''c1'') Anonymous (sample_form ''c1'')
       (Some sample_member_db) = Some (authenticated_redirect ''s2'' ''c2'', Some db) \<and>
     access_page (sample_web 1150 9 ''x'' ''tok'') (Some db) = (response, Some later) \<and>
     fst (attach_browser_context (sample_web 1200 4 ''x'' ''x'') (sample_headers ''s2'' ''c2'') (Some later)) =
       Authenticated 5 public_id (sample_digest ''c2'')"
proof -
  obtain db where l: "login_submit (sample_web 1100 2 ''s2'' ''c2'') sample_web_config (sample_headers [] ''c1'') Anonymous (sample_form ''c1'')
       (Some sample_member_db) = Some (SeeOther ''/lab'' [cookie_header SESSION_COOKIE ''s2'' True, cookie_header CSRF_COOKIE ''c2'' False], Some db)"
    using sample_login by (auto simp: authenticated_redirect_def)
  have "snd (access_page (sample_web 1150 9 ''x'' ''tok'') (Some db)) \<noteq> None"
    by (simp add: access_page_def split: prod.splits result.splits)
  then obtain response later where v: "access_page (sample_web 1150 9 ''x'' ''tok'') (Some db) = (response, Some later)"
    by (metis option.exhaust prod.collapse)
  have s: "(quiet_step b h t)\<^sup>*\<^sup>* db later" for b h t using QuietAccess[OF v] by (rule r_into_rtranclp)
  obtain i public_id where i: "login_identity (sample_web 1100 2 ''s2'' ''c2'') sample_web_config (sample_form ''c1'') sample_member_db i"
    "fst (attach_browser_context (sample_web 1200 4 ''x'' ''x'') (sample_headers ''s2'' ''c2'') (Some later)) =
       Authenticated (di_ib_account_id i) public_id (sample_digest ''c2'')"
    using login_authenticates[OF sample_history l, of "''s2''" "''c2''"] s
    by (force simp: SESSION_IDLE_TTL_SECONDS_def)
  have "di_ib_account_id i = 5" using i(1) by (simp add: login_identity_def sample_member_db sample_identity_def)
  then show ?thesis using i(2) l v by (auto simp: authenticated_redirect_def)
qed

theorem logout_ends_session_witness:
  "\<exists>db1 db2. attach_browser_context (sample_web 1100 3 ''x'' ''x'') (sample_headers ''s1'' ''c1'') (Some sample_member_db) =
       (Authenticated 5 ''iba_00000'' (sample_digest ''c1''), Some db1) \<and>
     logout (sample_web 1100 3 ''x'' ''x'') sample_web_config (sample_headers ''s1'' ''c1'')
       (Authenticated 5 ''iba_00000'' (sample_digest ''c1'')) ''c1'' (Some db1) =
       (SeeOther ''/'' [expired_cookie SESSION_COOKIE True, expired_cookie CSRF_COOKIE False], Some db2) \<and>
     fst (attach_browser_context (sample_web 1200 4 ''x'' ''x'') (sample_headers ''s1'' ''c1'') (Some db2)) = Anonymous"
proof -
  let ?env = "sample_web 1100 3 ''x'' ''x''" and ?headers = "sample_headers ''s1'' ''c1''"
  let ?caller = "Authenticated 5 ''iba_00000'' (sample_digest ''c1'')"
  have "snd (attach_browser_context ?env ?headers (Some sample_member_db)) \<noteq> None"
    by (simp add: attach_browser_context_def split: prod.splits result.splits option.splits)
  then obtain db1 where a: "attach_browser_context ?env ?headers (Some sample_member_db) = (?caller, Some db1)"
    using sample_attach by (cases "attach_browser_context ?env ?headers (Some sample_member_db)") auto
  obtain db2 where l: "logout ?env sample_web_config ?headers ?caller ''c1'' (Some db1) =
      (SeeOther ''/'' [expired_cookie SESSION_COOKIE True, expired_cookie CSRF_COOKIE False], Some db2)"
    by (simp add: logout_def)
  have "fst (attach_browser_context (sample_web 1200 4 ''x'' ''x'') ?headers (Some db2)) = Anonymous"
    using logout_ends_session[OF sample_history a l, of db2 "sample_web 1200 4 ''x'' ''x''"] by simp
  then show ?thesis using a l by blast
qed

definition sample_visit :: "web_response \<times> account_db option" where
  "sample_visit = access_page (sample_web 1000 3 ''x'' ''tok'') (Some (no_accounts {}))"

definition sample_issue :: "web_response \<times> account_db option" where
  "sample_issue = issue_demo (sample_web 1010 4 ''x'' ''x'') sample_web_config (sample_headers [] []) ''tok'' (snd sample_visit)"

lemma sample_demo:
  obtains db0 db raw_key where "sample_visit = (AccessPage (Some ''tok''), Some db0)" "sample_issue = (DemoKeyPage raw_key (1010 + DEMO_KEY_TTL_SECONDS), Some db)"
proof -
  have v: "sample_visit = (AccessPage (Some ''tok''), Some ((no_accounts {})\<lparr>ad_intents :=
      [\<lparr>nt_id = 3, nt_secret_hash = sample_digest ''tok'', nt_api_key_id = None, nt_expires_at = 1000 + DEMO_INTENT_TTL_SECONDS, nt_consumed_at = None\<rparr>]\<rparr>))"
    by (simp add: sample_visit_def access_page_def create_demo_intent_def run_accounts_def no_accounts_def)
  have k: "key_prefix_of \<lparr>rk_value = sample_raw_key\<rparr> = Ok ''ib_live_0123456789abcdef''"
    "api_key_checks (demo_key_row 1010 4 ''ib_live_0123456789abcdef'' (sample_digest sample_raw_key))" by code_simp+
  then have "fst sample_issue = DemoKeyPage sample_raw_key (1010 + DEMO_KEY_TTL_SECONDS)" "snd sample_issue \<noteq> None"
    by (simp_all add: sample_issue_def v issue_demo_def sample_cookies(4) consume_demo_intent_and_issue_key_def commit_accounts_def run_accounts_def
        no_accounts_def DEMO_INTENT_TTL_SECONDS_def)
  then show thesis using that v by (metis option.exhaust_sel prod.collapse)
qed

lemma sample_visit_history:
  assumes "sample_visit = (AccessPage (Some ''tok''), Some db)"
  shows "account_history db"
  unfolding account_history_def using AccessStep[OF assms[unfolded sample_visit_def]] by blast

theorem demo_intent_single_use_witness:
  "\<exists>raw_key db. sample_issue = (DemoKeyPage raw_key (1010 + DEMO_KEY_TTL_SECONDS), Some db) \<and>
     fst (issue_demo (sample_web 1020 5 ''y'' ''y'') sample_web_config (sample_headers [] []) ''tok'' (Some db)) \<noteq>
       DemoKeyPage raw_key (1020 + DEMO_KEY_TTL_SECONDS)"
proof -
  obtain db0 db raw_key where d: "sample_visit = (AccessPage (Some ''tok''), Some db0)"
    "sample_issue = (DemoKeyPage raw_key (1010 + DEMO_KEY_TTL_SECONDS), Some db)" by (rule sample_demo)
  have i: "issue_demo (sample_web 1010 4 ''x'' ''x'') sample_web_config (sample_headers [] []) ''tok'' (Some db0) =
      (DemoKeyPage raw_key (1010 + DEMO_KEY_TTL_SECONDS), Some db)" using d(2)[unfolded sample_issue_def d(1) snd_conv] .
  have "fst (issue_demo (sample_web 1020 5 ''y'' ''y'') sample_web_config (sample_headers [] []) ''tok'' (Some db)) \<noteq>
      DemoKeyPage raw_key (1020 + DEMO_KEY_TTL_SECONDS)"
    using demo_intent_single_use[OF sample_visit_history[OF d(1)] i, of db "sample_web 1020 5 ''y'' ''y''"] by simp
  then show ?thesis using d(2) by blast
qed

end
