(* ===== verification/Spec2Isabelle.thy ===== *)
theory Spec2Isabelle
  imports Simulation Portfolio Accounts
begin

text \<open>
  Verification library of the Mother API, a Rust service (\<open>src/src\<close>, with the tables of \<open>src/migrations\<close>) that
  answers questions about on-chain balances, ERC-20 transfers, realized yields and simulated portfolios to holders of
  an API key, and keeps accounts and workspaces for users of its browser interface.

  \<^bold>\<open>The program and how its parts interact.\<close> A request of the API passes the middleware of
  \<open>adapters/http/auth.rs\<close>: the presented key is parsed (\<open>domain/api_keys.rs\<close>), looked up by prefix and hash
  (\<open>adapters/postgres/api_keys.rs\<close>), authorized against the grants of its owner, client and key
  (\<open>domain/capabilities.rs\<close>), reserved in the minute limiter (\<open>adapters/http/rate_limit.rs\<close>) and counted against the
  daily limit. The handler then reads the JSON body (\<open>adapters/http/dto\<close>, \<open>validation.rs\<close>) and calls a service. The
  balance service (\<open>application/balances\<close>) resolves tokens against the canonical registry
  (\<open>domain/canonical_registry.rs\<close>), asks the gateway (\<open>adapters/bigwig\<close>) once per network, checks the answer against
  its plan and prices it (\<open>adapters/price_indexer\<close>). The transfer search (\<open>application/erc20_transfers\<close>) shares the
  registry and the gateway. The portfolio of a workspace (\<open>application/workspaces/portfolio.rs\<close>) is composed of
  balance commands for the addresses that the workspace repository (\<open>adapters/postgres/workspaces.rs\<close>) holds. The
  simulation (\<open>application/portfolio_simulation.rs\<close>) combines price series with income indices that the Aave adapter
  (\<open>adapters/aave_v3\<close>) reads at blocks found by a search over an archive node. Accounts, sessions and demo keys of
  the browser interface are in \<open>adapters/postgres/accounts.rs\<close> and \<open>adapters/http/web.rs\<close>.

  \<^bold>\<open>Theories and sources.\<close>
  \<^item> \<open>Prelude\<close>: \<open>Result\<close> and \<open>?\<close> (\<open>and_then\<close>), strings as lists of UTF-8 bytes with \<open>trim\<close>, ASCII case, integer
    parsing and printing, JSON values, hash-map and \<open>BTreeMap\<close> idioms, stable sorting, duplicate-rejecting loops.
  \<^item> \<open>Calendar\<close>: \<open>common/time.rs\<close>, \<open>common/rfc3339.rs\<close> and the calendar of the simulation. Day numbers and civil dates
    are inverse to each other, timestamps round-trip and are compared as instants.
  \<^item> \<open>Decimal\<close>: \<open>application/balances/decimal.rs\<close>, digit vectors with indexed updates. Sums and products are exact
    rationals, the scale is as documented, cells stay below \<open>2\<^sup>3\<^sup>2\<close>.
  \<^item> \<open>Canonical\<close>: the printers of decimals of the simulation and of the Aave adapter, exact or not, with exponents.
  \<^item> \<open>Access\<close>: \<open>domain/api_keys.rs\<close>, \<open>domain/capabilities.rs\<close>; the grammar of keys, authorization as an intersection.
  \<^item> \<open>RateLimit\<close>: \<open>adapters/http/rate_limit.rs\<close>. Locale \<open>minute_limiter\<close> is its contract, interpreted as \<open>limiter\<close>;
    the limit per window is an invariant of a step relation with releases and expiry.
  \<^item> \<open>KeyStore\<close>: \<open>adapters/postgres/api_keys.rs\<close>. Locale \<open>daily_quota\<close>, interpreted as \<open>quota\<close>, bounds what any
    interleaving of the quota statements accepts.
  \<^item> \<open>Auth\<close>: \<open>adapters/http/auth.rs\<close>. Which requests are served, how often they are counted, that issued keys are
    fully provisioned and served, and that revoked keys never are.
  \<^item> \<open>Registry\<close>, \<open>Catalog\<close>: \<open>domain/canonical_registry.rs\<close> and \<open>application/balances/catalog.rs\<close>. The validator
    against a declarative validity, the indexes against the rows; locale \<open>balance_resolver\<close>, interpreted as
    \<open>resolver\<close>, is what the planners of balances and of transfers rely on.
  \<^item> \<open>Bigwig\<close>, \<open>Balances\<close>, \<open>BalancePlans\<close>, \<open>BalanceResults\<close>: the gateway client and the balance service. Every
    account is answered in order, balances are evidence, values exact, the order of completion irrelevant.
  \<^item> \<open>PriceIndexer\<close>: \<open>adapters/price_indexer\<close>. The strict batch reader against an independent relation
    \<open>states_quote\<close>, and the completeness of quotes.
  \<^item> \<open>ApiErrors\<close>, \<open>Requests\<close>, \<open>Transfers\<close>, \<open>BalanceApi\<close>: the errors and bodies of the HTTP interface, the transfer
    search, the presenter and the handlers of balances.
  \<^item> \<open>Protocols\<close>, \<open>Aave\<close>, \<open>Blocks\<close>, \<open>Simulation\<close>: \<open>domain/verified_protocol_registry.rs\<close>, \<open>adapters/aave_v3/mod.rs\<close>
    and \<open>application/portfolio_simulation.rs\<close>: verified declarations, yields at final blocks, the block search, and
    the study with its report, its failures and its digest.
  \<^item> \<open>Workspaces\<close>, \<open>Portfolio\<close>, \<open>Accounts\<close>: the repositories and services of workspaces, portfolios and accounts;
    invariants of the tables over any history, the life of sessions, single use of demo intents, exact portfolios.

  \<^bold>\<open>How state and effects are modelled.\<close> A struct is a record, an enum a datatype, and each operation a definition
  with the source's name where HOL allows it. \<open>Result\<close> is the datatype \<open>result\<close>; an outer \<open>option\<close> whose value is
  \<open>None\<close> is a panic (\<open>expect\<close>, an index, a trap) or, for the block search, a loop that does not end. A table is a list of
  rows, or a map from its primary key, and a statement a function of the tables that is atomic; a transaction that
  fails leaves the tables as they were. A statement may fail before or after it took effect (\<open>fault\<close>). Hash maps are
  maps; where the code iterates over one, the order is a parameter over which the theorems quantify, as is
  the order in which concurrent calls finish. Histories are the reflexive transitive closure of inductive step
  relations (\<open>limiter_reachable\<close>, \<open>store_step\<close>, \<open>account_step\<close>, \<open>quiet_step\<close> and the like). A login
  issues its statements one after the other: \<open>login_submit\<close> runs them in sequence, and \<open>account_step\<close> has the upgrade of a
  password hash and the creation of a session as steps of their own too, so that histories interleave them.
  The limiter reads the clock just before it takes its lock; \<open>limiter_reachable\<close> assumes that both orders agree.

  \<^bold>\<open>Parameters for code outside the repository.\<close> The HTTP transport, \<open>serde_json\<close> and derived decoders, the \<open>url\<close> type,
  SHA-256, hexadecimal encoding, random identifiers and tokens, the clock, Argon2 (\<open>domain/passwords.rs\<close> calls it),
  big integers, and the function \<open>lower\<close> and the casts of the database are arguments of the definitions that use them.
  The 512-bit decimals are the record \<open>d512\<close>, whose operations return \<open>None\<close> where the library traps; nothing is
  assumed about rounding. \<open>sound_arithmetic\<close> names what \<open>simulation_returns\<close> relies on: decimals of the texts that
  are read, and operations that do not trap on positive values within bounded magnitudes. The witnesses instantiate it by
  rational numbers whose division by zero traps.

  \<^bold>\<open>Bounds, fuel and termination.\<close> No definition has fuel. Structural recursion covers the loops over lists;
  \<open>function\<close> with a measure covers digit and trimming loops; the interpolation search is a \<open>partial_function\<close> in
  the option monad and is proved to return for every archive (\<open>block_search_terminates\<close>), since the probe lies strictly between
  its bounds. Machine integers are numbers with their range checks written out (\<open>checked_add\<close>, saturation, casts); where the
  source relies on a width, a lemma states that the value fits (\<open>multiply_cells_bounded\<close>).

  \<^bold>\<open>Flaws that the models show.\<close> \<open>canonical_decimal\<close> of the Aave adapter strips zeros of integers
  (\<open>canonical_decimal_exact_iff\<close>); a first price of zero makes the simulation panic (\<open>zero_start_price_panics\<close>); two
  concurrent requests can pass the limit of labels (\<open>label_limit_race\<close>); \<open>parse_date\<close> of the simulation accepts signs.

  \<^bold>\<open>Not modelled.\<close> The explorer of assets (\<open>application/assets\<close>), which only joins parts that are modelled; the wiring of
  routes and the probes; the rendering of pages and the form handlers of workspaces and of the data lab, which call the
  services modelled here; storage of asynchronous reports; the command line, migrations, configuration, start-up and
  telemetry, which are input and output; the interface description; and what is compiled for tests only.
\<close>

end
